(* ===== verification/Pond_Prelude.thy ===== *)
theory Pond_Prelude
  imports Main "HOL-Library.Word"
begin

text \<open>
  The vocabulary every component theory shares: Rust's \<open>Result\<close>, text, fixed-width
  unsigned integers and the iterator adaptors the sources use, with the generic lemmas on them.

  Text is a list of Unicode scalar values, as \<open>str::chars\<close> yields them, so that
  \<open>chars().count()\<close> is \<open>length\<close> and \<open>str::len\<close> (UTF-8 bytes) is \<open>utf8_len\<close>.
  A literal of the sources is \<open>lit ''...''\<close>. Points in time (\<open>DateTime<Utc>\<close>) are integers.
  A \<open>u32\<close> or \<open>u8\<close> is a word of that width; a \<open>usize\<close> counts elements in memory and is a
  natural number.
\<close>

named_theorems step_simps \<open>unfolding of the operations on one task or one plan step\<close>
named_theorems text_simps \<open>the text functions of the sources\<close>
named_theorems store_simps \<open>the operations of the task store\<close>

section \<open>Results\<close>

datatype ('a, 'e) result = Ok 'a | Err 'e

fun is_ok :: "('a, 'e) result \<Rightarrow> bool" where
  "is_ok (Ok _) = True"
| "is_ok (Err _) = False"

text \<open>\<open>iter().map(f).collect::<Result<Vec<_>, _>>()\<close>: the first error wins.\<close>

fun try_map :: "('a \<Rightarrow> ('b, 'e) result) \<Rightarrow> 'a list \<Rightarrow> ('b list, 'e) result" where
  "try_map f [] = Ok []"
| "try_map f (x # xs) =
     (case f x of Err e \<Rightarrow> Err e
      | Ok y \<Rightarrow> (case try_map f xs of Err e \<Rightarrow> Err e | Ok ys \<Rightarrow> Ok (y # ys)))"

lemma try_map_Ok_set:
  "try_map f xs = Ok ys \<Longrightarrow> y \<in> set ys \<Longrightarrow> \<exists>x \<in> set xs. f x = Ok y"
  by (induction xs arbitrary: ys) (auto split: result.splits)

lemma try_map_Ok_length: "try_map f xs = Ok ys \<Longrightarrow> length ys = length xs"
  by (induction xs arbitrary: ys) (auto split: result.splits)

lemma try_map_all_Ok:
  "(\<And>x. x \<in> set xs \<Longrightarrow> f x = Ok (g x)) \<Longrightarrow> try_map f xs = Ok (map g xs)"
  by (induction xs) auto

section \<open>Unsigned machine integers\<close>

type_synonym u8 = "8 word"
type_synonym u32 = "32 word"
type_synonym timestamp = int

definition saturating_add :: "'a::len word \<Rightarrow> 'a word \<Rightarrow> 'a word" where
  "saturating_add a b = (if unat a + unat b < 2 ^ LENGTH('a) then a + b else - 1)"

definition saturating_sub :: "'a::len word \<Rightarrow> 'a word \<Rightarrow> 'a word" where
  "saturating_sub a b = (if b \<le> a then a - b else 0)"

definition div_ceil :: "'a::len word \<Rightarrow> 'a word \<Rightarrow> 'a word" where
  "div_ceil a b = (if a mod b = 0 then a div b else a div b + 1)"

text \<open>\<open>u32::try_from(n).unwrap_or(u32::MAX)\<close>.\<close>

definition u32_from_usize :: "nat \<Rightarrow> u32" where
  "u32_from_usize n = (if n < 2 ^ 32 then of_nat n else - 1)"

lemma unat_word_max: "unat (- 1 :: 'a::len word) = 2 ^ LENGTH('a) - 1"
  by (simp add: unsigned_minus_1_eq_mask mask_eq_exp_minus_1)

lemma unat_saturating_add:
  "unat (saturating_add a b) = min (unat a + unat b) (2 ^ LENGTH('a) - 1)"
  for a b :: "'a::len word"
proof (cases "unat a + unat b < 2 ^ LENGTH('a)")
  case True
  then have "unat (a + b) = unat a + unat b"
    by (simp add: unat_add_lem [THEN iffD1])
  with True show ?thesis by (simp add: saturating_add_def)
next
  case False
  then show ?thesis
    by (simp add: saturating_add_def unat_word_max)
qed

lemma unat_saturating_sub: "unat (saturating_sub a b) = unat a - unat b"
  for a b :: "'a::len word"
  by (auto simp: saturating_sub_def unat_sub_if' word_le_nat_alt not_le)

lemma unat_u32_from_usize: "unat (u32_from_usize n) = min n (2 ^ 32 - 1)"
proof (cases "n < 2 ^ 32")
  case True
  then show ?thesis by (simp add: u32_from_usize_def unat_of_nat take_bit_nat_eq_self)
next
  case False
  then show ?thesis
    using unat_word_max [where 'a = 32]
    by (simp add: u32_from_usize_def)
qed

lemma saturating_add_mono: "unat a \<le> unat (saturating_add a b)"
  for a b :: "'a::len word"
proof -
  have "unat a < 2 ^ LENGTH('a)" by (rule unsigned_less)
  then have "unat a \<le> 2 ^ LENGTH('a) - 1" by linarith
  then show ?thesis by (simp add: unat_saturating_add)
qed

section \<open>Text\<close>

type_synonym uchar = nat
type_synonym ustr = "uchar list"

definition lit :: "string \<Rightarrow> ustr" where
  "lit s = map of_char s"

lemma lit_eq_iff [simp]: "lit s = lit t \<longleftrightarrow> s = t"
  by (auto simp: lit_def inj_map_eq_map inj_def)

lemma lit_Nil_iff [simp]: "lit s = [] \<longleftrightarrow> s = []"
  by (simp add: lit_def)

lemma length_lit [simp]: "length (lit s) = length s"
  by (simp add: lit_def)

definition ascii_lower_char :: "uchar \<Rightarrow> bool" where
  "ascii_lower_char c \<longleftrightarrow> 97 \<le> c \<and> c \<le> 122"

definition ascii_upper_char :: "uchar \<Rightarrow> bool" where
  "ascii_upper_char c \<longleftrightarrow> 65 \<le> c \<and> c \<le> 90"

definition ascii_digit_char :: "uchar \<Rightarrow> bool" where
  "ascii_digit_char c \<longleftrightarrow> 48 \<le> c \<and> c \<le> 57"

definition to_ascii_lower :: "uchar \<Rightarrow> uchar" where
  "to_ascii_lower c = (if ascii_upper_char c then c + 32 else c)"

definition to_ascii_upper :: "uchar \<Rightarrow> uchar" where
  "to_ascii_upper c = (if ascii_lower_char c then c - 32 else c)"

text \<open>SQLite's \<open>trim\<close> removes spaces only.\<close>

definition sql_trim :: "ustr \<Rightarrow> ustr" where
  "sql_trim s = rev (dropWhile (\<lambda>ch. ch = 32) (rev (dropWhile (\<lambda>ch. ch = 32) s)))"

definition to_ascii_lowercase :: "ustr \<Rightarrow> ustr" where
  "to_ascii_lowercase s = map to_ascii_lower s"

text \<open>\<open>char::is_whitespace\<close>: the Unicode property \<open>White_Space\<close>.\<close>

definition is_whitespace :: "uchar \<Rightarrow> bool" where
  "is_whitespace c \<longleftrightarrow>
     9 \<le> c \<and> c \<le> 13 \<or> c = 32 \<or> c = 133 \<or> c = 160 \<or> c = 5760 \<or>
     8192 \<le> c \<and> c \<le> 8202 \<or> c = 8232 \<or> c = 8233 \<or> c = 8239 \<or> c = 8287 \<or> c = 12288"

definition trim_start :: "ustr \<Rightarrow> ustr" where
  "trim_start s = dropWhile is_whitespace s"

definition trim_end :: "ustr \<Rightarrow> ustr" where
  "trim_end s = rev (dropWhile is_whitespace (rev s))"

definition trim :: "ustr \<Rightarrow> ustr" where
  "trim s = trim_end (trim_start s)"

text \<open>\<open>str::len\<close>: the number of UTF-8 bytes.\<close>

definition char_len :: "uchar \<Rightarrow> nat" where
  "char_len c = (if c < 128 then 1 else if c < 2048 then 2 else if c < 65536 then 3 else 4)"

definition utf8_len :: "ustr \<Rightarrow> nat" where
  "utf8_len s = sum_list (map char_len s)"

text \<open>\<open>str::split\<close> on a predicate, \<open>split_whitespace\<close> and \<open>join\<close>.\<close>

fun split_on :: "('a \<Rightarrow> bool) \<Rightarrow> 'a list \<Rightarrow> 'a list list" where
  "split_on p [] = [[]]"
| "split_on p (c # cs) =
     (if p c then [] # split_on p cs
      else (case split_on p cs of [] \<Rightarrow> [[c]] | y # ys \<Rightarrow> (c # y) # ys))"

definition split_whitespace :: "ustr \<Rightarrow> ustr list" where
  "split_whitespace s = filter (\<lambda>w. w \<noteq> []) (split_on is_whitespace s)"

fun join_with :: "'a list \<Rightarrow> 'a list list \<Rightarrow> 'a list" where
  "join_with sep [] = []"
| "join_with sep [x] = x"
| "join_with sep (x # y # zs) = x @ sep @ join_with sep (y # zs)"

text \<open>Decimal \<open>Display\<close> of an unsigned number.\<close>

fun show_nat :: "nat \<Rightarrow> ustr" where
  "show_nat n = (if n < 10 then [48 + n] else show_nat (n div 10) @ [48 + n mod 10])"

declare show_nat.simps [simp del]

lemmas text_eval [text_simps] =
  lit_def trim_def trim_start_def trim_end_def is_whitespace_def to_ascii_lowercase_def
  to_ascii_lower_def ascii_upper_char_def ascii_lower_char_def ascii_digit_char_def
  utf8_len_def char_len_def split_whitespace_def

text \<open>Facts on trimming: it only removes, and removes nothing the second time.\<close>

lemma trim_Nil [simp]: "trim [] = []"
  by (simp add: trim_def trim_start_def trim_end_def)

lemma length_trim_le: "length (trim s) \<le> length s"
  by (simp add: trim_def trim_start_def trim_end_def)
     (metis length_dropWhile_le length_rev order_trans)

lemma set_trim_subset: "set (trim s) \<subseteq> set s"
  by (auto simp: trim_def trim_start_def trim_end_def dest!: set_dropWhileD)

lemma trim_end_hd:
  "trim_end s \<noteq> [] \<Longrightarrow> hd (trim_end s) = hd s"
proof -
  assume ne: "trim_end s \<noteq> []"
  have "s = trim_end s @ rev (takeWhile is_whitespace (rev s))"
    unfolding trim_end_def
    by (metis rev_append rev_rev_ident takeWhile_dropWhile_id)
  with ne show ?thesis by (metis hd_append2)
qed

lemma trim_hd: "trim s \<noteq> [] \<Longrightarrow> \<not> is_whitespace (hd (trim s))"
  by (metis dropWhile_eq_Nil_conv hd_dropWhile trim_end_hd trim_def trim_start_def trim_end_def
      dropWhile.simps(1) rev.simps(1))

lemma trim_last: "trim s \<noteq> [] \<Longrightarrow> \<not> is_whitespace (last (trim s))"
proof -
  assume "trim s \<noteq> []"
  then have ne: "dropWhile is_whitespace (rev (trim_start s)) \<noteq> []"
    by (simp add: trim_def trim_end_def)
  have "last (trim s) = hd (dropWhile is_whitespace (rev (trim_start s)))"
    by (simp add: trim_def trim_end_def last_rev)
  with hd_dropWhile [OF ne] show ?thesis by simp
qed

lemma trim_id:
  assumes "s \<noteq> []" "\<not> is_whitespace (hd s)" "\<not> is_whitespace (last s)"
  shows "trim s = s"
proof -
  obtain a t where s: "s = a # t" using assms(1) by (cases s) auto
  have start: "trim_start s = s" using assms(2) s by (simp add: trim_start_def)
  obtain b u where r: "rev s = b # u" using assms(1) by (cases "rev s") auto
  then have "\<not> is_whitespace b"
    using assms(3) by (metis hd_rev list.sel(1))
  then have "trim_end s = s"
    by (simp add: trim_end_def r) (metis r rev.simps(2) rev_rev_ident)
  then show ?thesis by (simp add: trim_def start)
qed

lemma trim_trim [simp]: "trim (trim s) = trim s"
  by (cases "trim s = []") (auto intro: trim_id dest: trim_hd trim_last)

lemma word_ge_1: "(1 :: u32) \<le> n \<longleftrightarrow> n \<noteq> 0"
  unfolding not_less [symmetric] by simp

lemma trim_Nil_iff: "trim s = [] \<longleftrightarrow> (\<forall>c \<in> set s. is_whitespace c)"
proof
  assume empty: "trim s = []"
  have "dropWhile is_whitespace (trim_start s) = trim_start s"
    by (simp add: trim_start_def)
  moreover have "\<forall>c \<in> set (trim_start s). is_whitespace c"
    using empty by (simp add: trim_def trim_end_def)
  ultimately have "trim_start s = []" by (metis dropWhile_eq_Nil_conv)
  then show "\<forall>c \<in> set s. is_whitespace c" by (simp add: trim_start_def)
qed (auto simp: trim_def trim_start_def trim_end_def dest: set_dropWhileD)

lemma trim_end_not_blank: "trim s \<noteq> [] \<Longrightarrow> trim (trim_end s @ t) \<noteq> []"
proof -
  assume "trim s \<noteq> []"
  then obtain c where c: "c \<in> set s" "\<not> is_whitespace c" by (auto simp: trim_Nil_iff)
  have "s = trim_end s @ rev (takeWhile is_whitespace (rev s))"
    unfolding trim_end_def by (metis rev_append rev_rev_ident takeWhile_dropWhile_id)
  then have "c \<in> set (trim_end s) \<or> c \<in> set (takeWhile is_whitespace (rev s))"
    using c(1) by (metis UnE set_append set_rev)
  then have "c \<in> set (trim_end s)" using c(2) by (auto dest: set_takeWhileD)
  with c(2) show ?thesis by (auto simp: trim_Nil_iff)
qed

end
