(* ===== verification/Long_Task_State.thy ===== *)
theory Long_Task_State
  imports Pond_Prelude
begin

text \<open>
  The stored enumerations of the long-task ledger
  (\<open>pond-core/src/shared/domain/long_task.rs\<close>): the states of a task and of a plan step with
  their permitted moves, the kind of a task, the shape of its answer and the kind of an artifact.
  Every one of them is written to a column by \<open>as_str\<close> and read back by \<open>parse\<close>; the locale
  \<open>stored_enum\<close> is that contract, proved once and interpreted for each enumeration.
\<close>

section \<open>Task states\<close>

datatype long_task_state =
    Planning | TaskRunning | TaskAwaitingApproval | Paused
  | TaskCompleted | TaskFailed | TaskCancelled

definition all_task_states :: "long_task_state list" where
  "all_task_states =
     [Planning, TaskRunning, TaskAwaitingApproval, Paused, TaskCompleted, TaskFailed,
      TaskCancelled]"

fun task_state_as_str :: "long_task_state \<Rightarrow> ustr" where
  "task_state_as_str Planning = lit ''planning''"
| "task_state_as_str TaskRunning = lit ''running''"
| "task_state_as_str TaskAwaitingApproval = lit ''awaiting_approval''"
| "task_state_as_str Paused = lit ''paused''"
| "task_state_as_str TaskCompleted = lit ''completed''"
| "task_state_as_str TaskFailed = lit ''failed''"
| "task_state_as_str TaskCancelled = lit ''cancelled''"

definition task_state_parse :: "ustr \<Rightarrow> long_task_state option" where
  "task_state_parse raw = find (\<lambda>s. task_state_as_str s = raw) all_task_states"

fun task_state_is_terminal :: "long_task_state \<Rightarrow> bool" where
  "task_state_is_terminal TaskCompleted = True"
| "task_state_is_terminal TaskFailed = True"
| "task_state_is_terminal TaskCancelled = True"
| "task_state_is_terminal _ = False"

fun task_can_become :: "long_task_state \<Rightarrow> long_task_state \<Rightarrow> bool" where
  "task_can_become Planning n \<longleftrightarrow>
     n \<in> {TaskRunning, Paused, TaskCompleted, TaskFailed, TaskCancelled}"
| "task_can_become TaskRunning n \<longleftrightarrow>
     n \<in> {Planning, TaskAwaitingApproval, Paused, TaskCompleted, TaskFailed, TaskCancelled}"
| "task_can_become TaskAwaitingApproval n \<longleftrightarrow>
     n \<in> {Planning, TaskRunning, Paused, TaskFailed, TaskCancelled}"
| "task_can_become Paused n \<longleftrightarrow>
     n \<in> {Planning, TaskRunning, TaskAwaitingApproval, TaskFailed, TaskCancelled}"
| "task_can_become _ n \<longleftrightarrow> False"

section \<open>Kinds and answer shapes\<close>

datatype long_task_kind = General | Research

definition all_task_kinds :: "long_task_kind list" where
  "all_task_kinds = [General, Research]"

fun task_kind_as_str :: "long_task_kind \<Rightarrow> ustr" where
  "task_kind_as_str General = lit ''general''"
| "task_kind_as_str Research = lit ''research''"

definition task_kind_parse :: "ustr \<Rightarrow> long_task_kind option" where
  "task_kind_parse raw = find (\<lambda>k. task_kind_as_str k = raw) all_task_kinds"

datatype answer_shape = AnswerAuto | AnswerShort | AnswerReport

definition all_answer_shapes :: "answer_shape list" where
  "all_answer_shapes = [AnswerAuto, AnswerShort, AnswerReport]"

fun answer_shape_as_str :: "answer_shape \<Rightarrow> ustr" where
  "answer_shape_as_str AnswerAuto = lit ''auto''"
| "answer_shape_as_str AnswerShort = lit ''short''"
| "answer_shape_as_str AnswerReport = lit ''report''"

definition answer_shape_parse :: "ustr \<Rightarrow> answer_shape option" where
  "answer_shape_parse raw = find (\<lambda>s. answer_shape_as_str s = raw) all_answer_shapes"

definition answer_shape_read :: "ustr \<Rightarrow> answer_shape option" where
  "answer_shape_read raw =
     (let raw' = to_ascii_lowercase (trim raw)
      in if raw' = [] then Some AnswerAuto else answer_shape_parse raw')"

section \<open>Step states\<close>

datatype step_state =
  Pending | StepRunning | StepCompleted | StepFailed | Skipped | StepAwaitingApproval

definition all_step_states :: "step_state list" where
  "all_step_states =
     [Pending, StepRunning, StepCompleted, StepFailed, Skipped, StepAwaitingApproval]"

fun step_state_as_str :: "step_state \<Rightarrow> ustr" where
  "step_state_as_str Pending = lit ''pending''"
| "step_state_as_str StepRunning = lit ''running''"
| "step_state_as_str StepCompleted = lit ''completed''"
| "step_state_as_str StepFailed = lit ''failed''"
| "step_state_as_str Skipped = lit ''skipped''"
| "step_state_as_str StepAwaitingApproval = lit ''awaiting_approval''"

definition step_state_parse :: "ustr \<Rightarrow> step_state option" where
  "step_state_parse raw = find (\<lambda>s. step_state_as_str s = raw) all_step_states"

fun survives_replan :: "step_state \<Rightarrow> bool" where
  "survives_replan StepCompleted = True"
| "survives_replan StepRunning = True"
| "survives_replan _ = False"

fun step_can_become :: "step_state \<Rightarrow> step_state \<Rightarrow> bool" where
  "step_can_become Pending n \<longleftrightarrow> n \<in> {StepRunning, StepAwaitingApproval, Skipped}"
| "step_can_become StepRunning n \<longleftrightarrow>
     n \<in> {StepCompleted, StepFailed, StepAwaitingApproval, Pending}"
| "step_can_become StepFailed n \<longleftrightarrow> n \<in> {StepRunning, Skipped}"
| "step_can_become StepAwaitingApproval n \<longleftrightarrow> n \<in> {StepRunning, Skipped}"
| "step_can_become _ n \<longleftrightarrow> False"

section \<open>Artifact kinds\<close>

datatype artifact_kind = Note | Findings | Draft | Data

definition all_artifact_kinds :: "artifact_kind list" where
  "all_artifact_kinds = [Note, Findings, Draft, Data]"

fun artifact_kind_as_str :: "artifact_kind \<Rightarrow> ustr" where
  "artifact_kind_as_str Note = lit ''note''"
| "artifact_kind_as_str Findings = lit ''findings''"
| "artifact_kind_as_str Draft = lit ''draft''"
| "artifact_kind_as_str Data = lit ''data''"

definition artifact_kind_parse :: "ustr \<Rightarrow> artifact_kind option" where
  "artifact_kind_parse raw =
     (let raw' = to_ascii_lowercase (trim raw)
      in find (\<lambda>k. artifact_kind_as_str k = raw') all_artifact_kinds)"

section \<open>The contract of a stored enumeration\<close>

locale stored_enum =
  fixes as_str :: "'a \<Rightarrow> ustr"
    and parse :: "ustr \<Rightarrow> 'a option"
    and normal :: "ustr \<Rightarrow> ustr"
    and variants :: "'a list"
  assumes spelled_apart: "as_str a = as_str b \<Longrightarrow> a = b"
    and all_listed: "a \<in> set variants"
    and parse_is_find: "parse raw = find (\<lambda>a. as_str a = normal raw) variants"
    and spelling_normal: "normal (as_str a) = as_str a"
begin

lemma parse_Some_iff: "parse raw = Some a \<longleftrightarrow> as_str a = normal raw"
proof
  assume "parse raw = Some a"
  then show "as_str a = normal raw"
    by (auto simp: parse_is_find find_Some_iff)
next
  assume spelled: "as_str a = normal raw"
  have "find (\<lambda>a. as_str a = normal raw) variants \<noteq> None"
    using spelled all_listed [of a] by (auto simp: find_None_iff)
  then obtain b where b: "find (\<lambda>a. as_str a = normal raw) variants = Some b" by blast
  then have "as_str b = normal raw" by (auto simp: find_Some_iff)
  with spelled have "b = a" by (metis spelled_apart)
  with b show "parse raw = Some a" by (simp add: parse_is_find)
qed

lemma parse_as_str: "parse (as_str a) = Some a"
  by (simp add: parse_Some_iff spelling_normal)

lemma parse_None_iff: "parse raw = None \<longleftrightarrow> normal raw \<notin> range as_str"
proof -
  have "parse raw = None \<longleftrightarrow> (\<forall>a. parse raw \<noteq> Some a)" by auto
  also have "\<dots> \<longleftrightarrow> normal raw \<notin> range as_str"
    unfolding parse_Some_iff by (metis rangeE rangeI)
  finally show ?thesis .
qed

end

interpretation task_states: stored_enum task_state_as_str task_state_parse "\<lambda>s. s" all_task_states
proof unfold_locales
  show "task_state_as_str a = task_state_as_str b \<Longrightarrow> a = b" for a b
    by (cases a; cases b) simp_all
  show "a \<in> set all_task_states" for a
    by (cases a) (simp_all add: all_task_states_def)
qed (simp_all add: task_state_parse_def)

interpretation task_kinds: stored_enum task_kind_as_str task_kind_parse "\<lambda>s. s" all_task_kinds
proof unfold_locales
  show "task_kind_as_str a = task_kind_as_str b \<Longrightarrow> a = b" for a b
    by (cases a; cases b) simp_all
  show "a \<in> set all_task_kinds" for a
    by (cases a) (simp_all add: all_task_kinds_def)
qed (simp_all add: task_kind_parse_def)

interpretation answer_shapes:
  stored_enum answer_shape_as_str answer_shape_parse "\<lambda>s. s" all_answer_shapes
proof unfold_locales
  show "answer_shape_as_str a = answer_shape_as_str b \<Longrightarrow> a = b" for a b
    by (cases a; cases b) simp_all
  show "a \<in> set all_answer_shapes" for a
    by (cases a) (simp_all add: all_answer_shapes_def)
qed (simp_all add: answer_shape_parse_def)

interpretation step_states: stored_enum step_state_as_str step_state_parse "\<lambda>s. s" all_step_states
proof unfold_locales
  show "step_state_as_str a = step_state_as_str b \<Longrightarrow> a = b" for a b
    by (cases a; cases b) simp_all
  show "a \<in> set all_step_states" for a
    by (cases a) (simp_all add: all_step_states_def)
qed (simp_all add: step_state_parse_def)

interpretation artifact_kinds:
  stored_enum artifact_kind_as_str artifact_kind_parse "\<lambda>s. to_ascii_lowercase (trim s)"
    all_artifact_kinds
proof unfold_locales
  show "artifact_kind_as_str a = artifact_kind_as_str b \<Longrightarrow> a = b" for a b
    by (cases a; cases b) simp_all
  show "a \<in> set all_artifact_kinds" for a
    by (cases a) (simp_all add: all_artifact_kinds_def)
  show "artifact_kind_parse raw =
      find (\<lambda>a. artifact_kind_as_str a = to_ascii_lowercase (trim raw)) all_artifact_kinds" for raw
    by (simp add: artifact_kind_parse_def)
  show "to_ascii_lowercase (trim (artifact_kind_as_str a)) = artifact_kind_as_str a" for a
    by (cases a) (simp_all add: text_simps)
qed

section \<open>The permitted moves\<close>

lemma task_terminal_no_move: "task_state_is_terminal s \<Longrightarrow> \<not> task_can_become s n"
  by (cases s) simp_all

lemma task_no_self_move: "\<not> task_can_become s s"
  by (cases s) simp_all

lemma task_open_can_stop:
  "\<not> task_state_is_terminal s \<Longrightarrow> task_can_become s TaskCancelled \<and> task_can_become s TaskFailed"
  by (cases s) simp_all

lemma task_no_move_iff_terminal: "(\<forall>n. \<not> task_can_become s n) \<longleftrightarrow> task_state_is_terminal s"
  using task_terminal_no_move task_open_can_stop by blast

lemma task_completes_from_work:
  "task_can_become s TaskCompleted \<Longrightarrow> s \<in> {Planning, TaskRunning}"
  by (cases s) simp_all

lemma step_no_self_move: "\<not> step_can_become s s"
  by (cases s) simp_all

lemma step_no_move_iff: "(\<forall>n. \<not> step_can_become s n) \<longleftrightarrow> s = StepCompleted \<or> s = Skipped"
  by (cases s) (simp_all, blast+)

lemma step_completes_from_running: "step_can_become s StepCompleted \<longleftrightarrow> s = StepRunning"
  by (cases s) simp_all

lemma step_fails_from_running: "step_can_become s StepFailed \<longleftrightarrow> s = StepRunning"
  by (cases s) simp_all

section \<open>Properties\<close>

text \<open>
  Every stored spelling reads back as the value that wrote it, for the five enumerations of
  the ledger, and nothing else parses: the state, kind, answer and step columns accept exactly
  the written spellings, and an artifact kind accepts them in any case and surrounding blanks.
\<close>

theorem stored_spellings_roundtrip:
  "(task_state_parse raw = Some ts \<longleftrightarrow> raw = task_state_as_str ts) \<and>
   (task_kind_parse raw = Some tk \<longleftrightarrow> raw = task_kind_as_str tk) \<and>
   (answer_shape_parse raw = Some an \<longleftrightarrow> raw = answer_shape_as_str an) \<and>
   (step_state_parse raw = Some ss \<longleftrightarrow> raw = step_state_as_str ss) \<and>
   (artifact_kind_parse raw = Some ak \<longleftrightarrow> to_ascii_lowercase (trim raw) = artifact_kind_as_str ak)"
  using task_states.parse_Some_iff [of raw ts] task_kinds.parse_Some_iff [of raw tk]
    answer_shapes.parse_Some_iff [of raw an] step_states.parse_Some_iff [of raw ss]
    artifact_kinds.parse_Some_iff [of raw ak]
  by (auto simp del: task_state_as_str.simps task_kind_as_str.simps)

end
