(* ===== verification/Profile_Scope.thy ===== *)
theory Profile_Scope
  imports Pond_Prelude
begin

text \<open>
  Whose data a read or a write is scoped to: \<open>ProfileScope\<close> of
  \<open>pond-core/src/user_data/domain/profile.rs\<close>. A row of personal data carries the member it is
  attributed to, or nobody (a shared row); \<open>reached_rows\<close> is the abstract meaning of a scope as
  the rows it may surface, against which the containment test of the code is proved.
\<close>

datatype profile_scope = Owner ustr | Household | Guest

definition exemplar_owner_id :: ustr where
  "exemplar_owner_id = lit ''exemplar-owner''"

definition every_shape :: "profile_scope list" where
  "every_shape = [Owner exemplar_owner_id, Household, Guest]"

fun scope_owner_id :: "profile_scope \<Rightarrow> ustr option" where
  "scope_owner_id (Owner i) = Some i"
| "scope_owner_id Household = None"
| "scope_owner_id Guest = None"

fun excludes_everything :: "profile_scope \<Rightarrow> bool" where
  "excludes_everything Guest = True"
| "excludes_everything _ = False"

definition allows_personal_data :: "profile_scope \<Rightarrow> bool" where
  "allows_personal_data s \<longleftrightarrow> \<not> excludes_everything s"

fun is_within :: "profile_scope \<Rightarrow> profile_scope \<Rightarrow> bool" where
  "is_within Guest _ = True"
| "is_within Household Household = True"
| "is_within Household _ = False"
| "is_within (Owner _) Household = True"
| "is_within (Owner a) (Owner b) = (a = b)"
| "is_within (Owner _) Guest = False"

text \<open>A row is named by its attribution; \<open>None\<close> is an unattributed, shared row.\<close>

fun reached_rows :: "profile_scope \<Rightarrow> ustr option set" where
  "reached_rows (Owner i) = {None, Some i}"
| "reached_rows Household = UNIV"
| "reached_rows Guest = {}"

instantiation profile_scope :: "{order_bot, order_top}"
begin

definition less_eq_profile_scope :: "profile_scope \<Rightarrow> profile_scope \<Rightarrow> bool" where
  "less_eq_profile_scope = is_within"

definition less_profile_scope :: "profile_scope \<Rightarrow> profile_scope \<Rightarrow> bool" where
  "less_profile_scope a b = (is_within a b \<and> \<not> is_within b a)"

definition bot_profile_scope :: profile_scope where
  "bot_profile_scope = Guest"

definition top_profile_scope :: profile_scope where
  "top_profile_scope = Household"

instance
proof
  fix a b c :: profile_scope
  show "(a < b) = (a \<le> b \<and> \<not> b \<le> a)"
    by (simp add: less_profile_scope_def less_eq_profile_scope_def)
  show "a \<le> a"
    by (cases a) (simp_all add: less_eq_profile_scope_def)
  show "a \<le> b \<Longrightarrow> b \<le> c \<Longrightarrow> a \<le> c"
    by (cases a; cases b; cases c) (simp_all add: less_eq_profile_scope_def)
  show "a \<le> b \<Longrightarrow> b \<le> a \<Longrightarrow> a = b"
    by (cases a; cases b) (simp_all add: less_eq_profile_scope_def)
  show "bot \<le> a"
    by (simp add: less_eq_profile_scope_def bot_profile_scope_def)
  show "a \<le> top"
    by (cases a) (simp_all add: less_eq_profile_scope_def top_profile_scope_def)
qed

end

lemma some_other_text: "\<exists>t :: ustr. t \<noteq> s"
  by (rule exI [of _ "0 # s"]) simp

lemma owner_rows_not_all: "{None, Some s} \<noteq> (UNIV :: ustr option set)"
proof -
  obtain t :: ustr where "t \<noteq> s" using some_other_text by blast
  then have "Some t \<notin> {None, Some s}" by simp
  then show ?thesis by blast
qed

lemma is_within_refl [simp]: "is_within s s"
  by (cases s) auto

lemma is_within_guest [simp]: "is_within s Guest \<longleftrightarrow> s = Guest"
  by (cases s) auto

lemma is_within_iff_reached_rows: "is_within a b \<longleftrightarrow> reached_rows a \<subseteq> reached_rows b"
  using owner_rows_not_all by (cases a; cases b) auto

lemma excludes_everything_iff: "excludes_everything s \<longleftrightarrow> s = Guest"
  by (cases s) auto

lemma excludes_everything_rows: "excludes_everything s \<longleftrightarrow> reached_rows s = {}"
  by (cases s) auto

section \<open>Properties\<close>

text \<open>
  Containment of scopes is exactly containment of the rows they reach. A scope \<open>is_within\<close>
  another if and only if no row it may surface is out of reach of the other, so clamping a helper
  by \<open>is_within\<close> never widens what it reads and never refuses a scope that would read no more.
\<close>

theorem is_within_row_containment:
  "is_within a b \<longleftrightarrow> reached_rows a \<subseteq> reached_rows b"
  by (rule is_within_iff_reached_rows)

end
