(* ===== verification/Long_Task.thy ===== *)
theory Long_Task
  imports Long_Task_State Profile_Scope
begin

text \<open>
  One long-running task: \<open>LongTaskBudget\<close>, \<open>LongTask\<close> and \<open>LongTaskParts\<close> of
  \<open>pond-core/src/shared/domain/long_task.rs\<close> with every operation that makes or moves a task.
  The random id of \<open>uuid::Uuid::new_v4\<close> is an argument of \<open>task_start\<close>. The life of a task is the
  relation \<open>task_step\<close>; \<open>task_inv\<close> is the invariant of every task it reaches.
\<close>

definition MAX_LONG_TASK_STEPS :: u32 where "MAX_LONG_TASK_STEPS = 32"
definition DEFAULT_LONG_TASK_STEPS :: u32 where "DEFAULT_LONG_TASK_STEPS = 12"

datatype long_task_error =
    MissingGoal
  | MaxStepsOutOfRange u32 u32
  | DeadlineNotInFuture
  | BlankOwner
  | OwnerMismatch ustr ustr
  | GuestWithOwner ustr
  | BlankOriginSession
  | MissingId

record long_task_state_refused =
  refused_task_id :: ustr
  refused_from :: long_task_state
  refused_to :: long_task_state

section \<open>The budget\<close>

record long_task_budget =
  max_steps :: u32
  deadline :: "timestamp option"

definition budget_new ::
  "u32 \<Rightarrow> timestamp option \<Rightarrow> (long_task_budget, long_task_error) result" where
  "budget_new n d =
     (if n = 0 \<or> n > MAX_LONG_TASK_STEPS then Err (MaxStepsOutOfRange n MAX_LONG_TASK_STEPS)
      else Ok \<lparr>max_steps = n, deadline = d\<rparr>)"

definition deadline_passed :: "long_task_budget \<Rightarrow> timestamp \<Rightarrow> bool" where
  "deadline_passed b now = (case deadline b of None \<Rightarrow> False | Some d \<Rightarrow> now \<ge> d)"

section \<open>The task\<close>

record long_task =
  task_id :: ustr
  task_owner :: "ustr option"
  task_scope :: profile_scope
  task_goal :: ustr
  task_origin :: "ustr option"
  task_state :: long_task_state
  task_budget :: long_task_budget
  task_kind :: long_task_kind
  task_answer :: answer_shape
  task_created_at :: timestamp
  task_updated_at :: timestamp
  task_finished_at :: "timestamp option"

record long_task_parts =
  part_id :: ustr
  part_owner :: "ustr option"
  part_scope :: profile_scope
  part_goal :: ustr
  part_origin :: "ustr option"
  part_state :: long_task_state
  part_max_steps :: u32
  part_deadline :: "timestamp option"
  part_kind :: long_task_kind
  part_answer :: answer_shape
  part_created_at :: timestamp
  part_updated_at :: timestamp
  part_finished_at :: "timestamp option"

text \<open>\<open>owner_for\<close>: a blank owner is no owner; an \<open>Owner\<close> scope names it, a guest has none.\<close>

definition clean_owner :: "ustr option \<Rightarrow> ustr option" where
  "clean_owner owner =
     (case owner of None \<Rightarrow> None | Some o' \<Rightarrow> if trim o' = [] then None else Some (trim o'))"

definition owner_for ::
  "profile_scope \<Rightarrow> ustr option \<Rightarrow> (ustr option, long_task_error) result" where
  "owner_for scope owner_profile_id =
     (let owner = clean_owner owner_profile_id in
      case scope of
        Owner i \<Rightarrow>
          (if trim i = [] then Err BlankOwner
           else (case owner of
                   None \<Rightarrow> Ok (Some i)
                 | Some o' \<Rightarrow> if o' = i then Ok (Some o') else Err (OwnerMismatch o' i)))
      | Household \<Rightarrow> Ok owner
      | Guest \<Rightarrow> (case owner of None \<Rightarrow> Ok None | Some o' \<Rightarrow> Err (GuestWithOwner o')))"

definition origin_for :: "ustr option \<Rightarrow> (ustr option, long_task_error) result" where
  "origin_for origin =
     (case origin of
        Some i \<Rightarrow> if trim i = [] then Err BlankOriginSession else Ok (Some i)
      | None \<Rightarrow> Ok None)"

definition task_start ::
  "ustr \<Rightarrow> profile_scope \<Rightarrow> ustr option \<Rightarrow> ustr \<Rightarrow> ustr option \<Rightarrow> long_task_budget \<Rightarrow> timestamp
     \<Rightarrow> (long_task, long_task_error) result" where
  "task_start new_id scope owner goal origin budget at =
     (if trim goal = [] then Err MissingGoal
      else (case owner_for scope owner of
              Err e \<Rightarrow> Err e
            | Ok owner' \<Rightarrow>
                (case origin_for origin of
                   Err e \<Rightarrow> Err e
                 | Ok origin' \<Rightarrow>
                     if (case deadline budget of None \<Rightarrow> False | Some d \<Rightarrow> d \<le> at)
                     then Err DeadlineNotInFuture
                     else Ok \<lparr>task_id = new_id, task_owner = owner', task_scope = scope,
                              task_goal = trim goal, task_origin = origin',
                              task_state = Planning, task_budget = budget,
                              task_kind = General, task_answer = AnswerAuto,
                              task_created_at = at, task_updated_at = at,
                              task_finished_at = None\<rparr>)))"

definition with_kind :: "long_task \<Rightarrow> long_task_kind \<Rightarrow> long_task" where
  "with_kind t k = t\<lparr>task_kind := k\<rparr>"

definition with_answer :: "long_task \<Rightarrow> answer_shape \<Rightarrow> long_task" where
  "with_answer t a = t\<lparr>task_answer := a\<rparr>"

definition decide_answer :: "long_task \<Rightarrow> answer_shape \<Rightarrow> bool \<times> long_task" where
  "decide_answer t a =
     (if task_answer t \<noteq> AnswerAuto \<or> a = AnswerAuto then (False, t)
      else (True, t\<lparr>task_answer := a\<rparr>))"

definition task_from_parts :: "long_task_parts \<Rightarrow> (long_task, long_task_error) result" where
  "task_from_parts p =
     (if trim (part_id p) = [] then Err MissingId
      else if trim (part_goal p) = [] then Err MissingGoal
      else if part_max_steps p = 0 then Err (MaxStepsOutOfRange 0 MAX_LONG_TASK_STEPS)
      else (case owner_for (part_scope p) (part_owner p) of
              Err e \<Rightarrow> Err e
            | Ok owner' \<Rightarrow>
                (case origin_for (part_origin p) of
                   Err e \<Rightarrow> Err e
                 | Ok origin' \<Rightarrow>
                     Ok \<lparr>task_id = part_id p, task_owner = owner', task_scope = part_scope p,
                         task_goal = trim (part_goal p), task_origin = origin',
                         task_state = part_state p,
                         task_budget = \<lparr>max_steps = min (part_max_steps p) MAX_LONG_TASK_STEPS,
                                        deadline = part_deadline p\<rparr>,
                         task_kind = part_kind p, task_answer = part_answer p,
                         task_created_at = part_created_at p,
                         task_updated_at = part_updated_at p,
                         task_finished_at = part_finished_at p\<rparr>)))"

definition transition_to ::
  "long_task \<Rightarrow> long_task_state \<Rightarrow> timestamp \<Rightarrow> (long_task, long_task_state_refused) result" where
  "transition_to t n at =
     (if \<not> task_can_become (task_state t) n
      then Err \<lparr>refused_task_id = task_id t, refused_from = task_state t, refused_to = n\<rparr>
      else Ok (t\<lparr>task_state := n, task_updated_at := at,
                 task_finished_at := (if task_state_is_terminal n then Some at
                                      else task_finished_at t)\<rparr>))"

section \<open>The life of a task\<close>

text \<open>The moves the code makes on a stored task.\<close>

inductive task_step :: "long_task \<Rightarrow> long_task \<Rightarrow> bool" where
  move: "transition_to t n at = Ok t' \<Longrightarrow> task_step t t'"
| decide: "decide_answer t a = (changed, t') \<Longrightarrow> task_step t t'"

text \<open>A task begins at \<open>task_start\<close>, with the kind and the answer its starter chose.\<close>

inductive task_reachable :: "long_task \<Rightarrow> bool" where
  started: "task_start i scope owner goal origin budget at = Ok t \<Longrightarrow>
      budget_new n d = Ok budget \<Longrightarrow>
      task_reachable (with_answer (with_kind t k) a)"
| stepped: "task_reachable t \<Longrightarrow> task_step t t' \<Longrightarrow> task_reachable t'"

text \<open>The columns of a task, as the store writes them.\<close>

definition task_parts :: "long_task \<Rightarrow> long_task_parts" where
  "task_parts t =
     \<lparr>part_id = task_id t, part_owner = task_owner t, part_scope = task_scope t,
      part_goal = task_goal t, part_origin = task_origin t, part_state = task_state t,
      part_max_steps = max_steps (task_budget t), part_deadline = deadline (task_budget t),
      part_kind = task_kind t, part_answer = task_answer t,
      part_created_at = task_created_at t, part_updated_at = task_updated_at t,
      part_finished_at = task_finished_at t\<rparr>"

definition owner_agrees :: "profile_scope \<Rightarrow> ustr option \<Rightarrow> bool" where
  "owner_agrees scope owner =
     (case scope of
        Owner i \<Rightarrow> owner = Some i \<and> trim i \<noteq> []
      | Household \<Rightarrow> (case owner of None \<Rightarrow> True | Some o' \<Rightarrow> o' \<noteq> [] \<and> trim o' = o')
      | Guest \<Rightarrow> owner = None)"

definition task_wf :: "long_task \<Rightarrow> bool" where
  "task_wf t \<longleftrightarrow>
     owner_agrees (task_scope t) (task_owner t) \<and>
     task_goal t \<noteq> [] \<and> trim (task_goal t) = task_goal t \<and>
     (case task_origin t of None \<Rightarrow> True | Some i \<Rightarrow> trim i \<noteq> []) \<and>
     0 < max_steps (task_budget t) \<and> max_steps (task_budget t) \<le> MAX_LONG_TASK_STEPS"

definition task_inv :: "long_task \<Rightarrow> bool" where
  "task_inv t \<longleftrightarrow>
     task_wf t \<and> (task_finished_at t \<noteq> None \<longleftrightarrow> task_state_is_terminal (task_state t))"

section \<open>Owners\<close>

lemma clean_owner_Some:
  "clean_owner x = Some y \<Longrightarrow> y \<noteq> [] \<and> trim y = y"
  by (auto simp: clean_owner_def split: option.splits if_splits)

lemma clean_owner_trimmed: "o' \<noteq> [] \<Longrightarrow> trim o' = o' \<Longrightarrow> clean_owner (Some o') = Some o'"
  by (simp add: clean_owner_def)

lemma owner_for_agrees: "owner_for scope owner = Ok o' \<Longrightarrow> owner_agrees scope o'"
  by (auto simp: owner_for_def owner_agrees_def Let_def dest: clean_owner_Some
      split: profile_scope.splits option.splits if_splits)

lemma owner_for_again:
  assumes "owner_agrees scope owner" "\<And>i. scope = Owner i \<Longrightarrow> trim i = i"
  shows "owner_for scope owner = Ok owner"
  using assms
  by (auto simp: owner_agrees_def owner_for_def Let_def clean_owner_def
      split: profile_scope.splits option.splits)

lemma origin_for_Ok: "origin_for x = Ok y \<Longrightarrow> y = x \<and> (\<forall>i. y = Some i \<longrightarrow> trim i \<noteq> [])"
  by (auto simp: origin_for_def split: option.splits if_splits)

section \<open>Every task is well formed\<close>

lemmas budget_Ok_iff = budget_new_def

lemma budget_new_bounds:
  "budget_new n d = Ok b \<Longrightarrow>
     0 < max_steps b \<and> max_steps b \<le> MAX_LONG_TASK_STEPS \<and> deadline b = d"
  by (auto simp: budget_new_def word_gt_0 not_less split: if_splits)

lemma task_start_Ok:
  assumes "task_start i scope owner goal origin budget at = Ok t"
  shows "task_state t = Planning \<and> task_finished_at t = None \<and> task_scope t = scope \<and>
    task_budget t = budget \<and> task_goal t = trim goal \<and> trim goal \<noteq> [] \<and>
    owner_agrees scope (task_owner t) \<and> task_origin t = origin \<and>
    (\<forall>j. origin = Some j \<longrightarrow> trim j \<noteq> []) \<and> task_created_at t = at \<and>
    (\<forall>d. deadline budget = Some d \<longrightarrow> at < d)"
  using assms
  by (auto simp: task_start_def dest: owner_for_agrees origin_for_Ok
      split: if_splits result.splits option.splits)

lemma task_start_inv:
  assumes "task_start i scope owner goal origin budget at = Ok t" "budget_new n d = Ok budget"
  shows "task_inv (with_answer (with_kind t k) a)"
  using task_start_Ok [OF assms(1)] budget_new_bounds [OF assms(2)]
  by (auto simp: task_inv_def task_wf_def with_kind_def with_answer_def split: option.splits)

lemma task_from_parts_wf: "task_from_parts p = Ok t \<Longrightarrow> task_wf t"
  by (auto simp: task_from_parts_def task_wf_def MAX_LONG_TASK_STEPS_def word_gt_0
      dest: owner_for_agrees origin_for_Ok
      split: if_splits result.splits option.splits)
     (auto simp: min_def split: if_splits)

lemma transition_to_Ok_iff:
  "(\<exists>t'. transition_to t n at = Ok t') \<longleftrightarrow> task_can_become (task_state t) n"
  by (simp add: transition_to_def)

lemma transition_to_frame:
  "transition_to t n at = Ok t' \<Longrightarrow>
     task_id t' = task_id t \<and> task_owner t' = task_owner t \<and> task_scope t' = task_scope t \<and>
     task_goal t' = task_goal t \<and> task_origin t' = task_origin t \<and>
     task_budget t' = task_budget t \<and> task_kind t' = task_kind t \<and>
     task_answer t' = task_answer t \<and> task_created_at t' = task_created_at t \<and>
     task_state t' = n \<and> task_updated_at t' = at"
  by (auto simp: transition_to_def split: if_splits)

lemma transition_to_inv: "task_inv t \<Longrightarrow> transition_to t n at = Ok t' \<Longrightarrow> task_inv t'"
  using task_terminal_no_move
  by (auto simp: task_inv_def task_wf_def transition_to_def split: if_splits)

lemma decide_answer_inv: "task_inv t \<Longrightarrow> decide_answer t a = (b, t') \<Longrightarrow> task_inv t'"
  by (auto simp: task_inv_def task_wf_def decide_answer_def split: if_splits)

lemma task_step_inv: "task_step t t' \<Longrightarrow> task_inv t \<Longrightarrow> task_inv t'"
  by (induction rule: task_step.induct) (blast intro: transition_to_inv decide_answer_inv)+

lemma task_reachable_inv_aux: "task_reachable t \<Longrightarrow> task_inv t"
  by (induction rule: task_reachable.induct) (blast intro: task_start_inv task_step_inv)+

inductive_cases task_stepE: "task_step t t'"

lemma task_step_frame:
  "task_step t t' \<Longrightarrow>
     task_id t' = task_id t \<and> task_owner t' = task_owner t \<and> task_scope t' = task_scope t \<and>
     task_goal t' = task_goal t \<and> task_budget t' = task_budget t"
  by (auto elim!: task_stepE dest!: transition_to_frame simp: decide_answer_def split: if_splits)

lemma task_step_terminal:
  assumes "task_step t t'" "task_state_is_terminal (task_state t)"
  shows "task_state t' = task_state t \<and> task_finished_at t' = task_finished_at t"
  using assms task_terminal_no_move
  by (auto elim!: task_stepE simp: transition_to_def decide_answer_def split: if_splits)

lemma task_step_answer_kept:
  "task_step t t' \<Longrightarrow> task_answer t \<noteq> AnswerAuto \<Longrightarrow> task_answer t' = task_answer t"
  by (auto elim!: task_stepE dest!: transition_to_frame simp: decide_answer_def split: if_splits)

lemma task_step_rtrancl_frame:
  assumes "task_step\<^sup>*\<^sup>* t t'"
  shows "task_id t' = task_id t \<and> task_owner t' = task_owner t \<and> task_scope t' = task_scope t \<and>
    task_goal t' = task_goal t \<and> task_budget t' = task_budget t \<and>
    (task_answer t \<noteq> AnswerAuto \<longrightarrow> task_answer t' = task_answer t) \<and>
    (task_state_is_terminal (task_state t) \<longrightarrow>
       task_state t' = task_state t \<and> task_finished_at t' = task_finished_at t)"
  using assms
proof (induction rule: rtranclp_induct)
  case base
  then show ?case by simp
next
  case (step y z)
  then show ?case
    using task_step_frame [OF step(2)] task_step_terminal [OF step(2)]
      task_step_answer_kept [OF step(2)] by simp
qed

lemma task_parts_roundtrip_aux:
  assumes "task_wf t" "trim (task_id t) \<noteq> []" "\<And>i. task_scope t = Owner i \<Longrightarrow> trim i = i"
  shows "task_from_parts (task_parts t) = Ok t"
proof -
  have owner: "owner_for (task_scope t) (task_owner t) = Ok (task_owner t)"
    using assms(1,3) by (intro owner_for_again) (simp_all add: task_wf_def)
  have origin: "origin_for (task_origin t) = Ok (task_origin t)"
    using assms(1) by (auto simp: task_wf_def origin_for_def split: option.splits)
  have "max_steps (task_budget t) \<noteq> 0"
    "min (max_steps (task_budget t)) MAX_LONG_TASK_STEPS = max_steps (task_budget t)"
    using assms(1) by (auto simp: task_wf_def)
  then show ?thesis
    using assms(1,2) owner origin
    by (simp add: task_from_parts_def task_parts_def task_wf_def)
qed

section \<open>A task as an example\<close>

definition example_budget :: long_task_budget where
  "example_budget = \<lparr>max_steps = 12, deadline = Some 1000\<rparr>"

definition example_task :: long_task where
  "example_task =
     \<lparr>task_id = lit ''t1'', task_owner = Some (lit ''ana''), task_scope = Owner (lit ''ana''),
      task_goal = lit ''plan a trip'', task_origin = None, task_state = Planning,
      task_budget = example_budget, task_kind = General, task_answer = AnswerAuto,
      task_created_at = 10, task_updated_at = 10, task_finished_at = None\<rparr>"

lemma example_budget_new: "budget_new 12 (Some 1000) = Ok example_budget"
  by (simp add: budget_new_def example_budget_def MAX_LONG_TASK_STEPS_def)

lemma example_task_start:
  "task_start (lit ''t1'') (Owner (lit ''ana'')) None (lit '' plan a trip '') None example_budget 10
     = Ok example_task"
  by (simp add: task_start_def owner_for_def clean_owner_def origin_for_def example_task_def
      example_budget_def text_simps)

lemma example_task_reachable: "task_reachable example_task"
  using task_reachable.started [OF example_task_start example_budget_new, of General AnswerAuto]
  by (simp add: with_kind_def with_answer_def example_task_def)

section \<open>Properties\<close>

text \<open>
  Every task the code can reach, from \<open>start\<close> through any sequence of state moves and
  answer decisions, is well formed: its owner agrees with its scope (a guest's task has none, an
  owner's scope names its owner), its goal is not blank and trimmed, its step cap lies in 1..32,
  and it carries a finish time exactly when its state is terminal.
\<close>

theorem reachable_task_invariant: "task_reachable t \<Longrightarrow> task_inv t"
  by (rule task_reachable_inv_aux)

theorem reachable_task_invariant_witness: "task_reachable example_task \<and> task_inv example_task"
  using example_task_reachable reachable_task_invariant [OF example_task_reachable] by simp

text \<open>
  Whatever happens to a task later, it keeps its id, owner, scope, goal and budget; an answer
  shape once chosen is never overruled; and a finished task never moves again nor changes its
  finish time.
\<close>

theorem task_history_frame:
  assumes "task_step\<^sup>*\<^sup>* t t'"
  shows "task_id t' = task_id t \<and> task_owner t' = task_owner t \<and> task_scope t' = task_scope t \<and>
    task_goal t' = task_goal t \<and> task_budget t' = task_budget t \<and>
    (task_answer t \<noteq> AnswerAuto \<longrightarrow> task_answer t' = task_answer t) \<and>
    (task_state_is_terminal (task_state t) \<longrightarrow>
       task_state t' = task_state t \<and> task_finished_at t' = task_finished_at t)"
  using assms by (rule task_step_rtrancl_frame)

theorem task_history_frame_witness:
  "\<exists>t'. task_step\<^sup>*\<^sup>* example_task t' \<and> task_state t' = TaskCancelled \<and>
     task_scope t' = Owner (lit ''ana'')"
proof -
  obtain t' where t': "transition_to example_task TaskCancelled 20 = Ok t'"
    by (simp add: transition_to_def example_task_def)
  then have "task_step\<^sup>*\<^sup>* example_task t'" by (blast intro: task_step.move)
  moreover from task_history_frame [OF this] have "task_scope t' = Owner (lit ''ana'')"
    by (simp add: example_task_def)
  moreover have "task_state t' = TaskCancelled" using transition_to_frame [OF t'] by simp
  ultimately show ?thesis by blast
qed

text \<open>
  A task written to its columns and rebuilt through \<open>from_parts\<close> is the same task, for every
  task the code can reach whose id is not blank and whose owner scope names a trimmed id.
\<close>

theorem task_parts_roundtrip:
  assumes "task_reachable t" "trim (task_id t) \<noteq> []" "\<And>i. task_scope t = Owner i \<Longrightarrow> trim i = i"
  shows "task_from_parts (task_parts t) = Ok t"
  using task_reachable_inv_aux [OF assms(1)] assms(2,3)
  by (intro task_parts_roundtrip_aux) (simp_all add: task_inv_def)

theorem task_parts_roundtrip_witness:
  "task_from_parts (task_parts example_task) = Ok example_task"
  by (rule task_parts_roundtrip [OF example_task_reachable])
     (auto simp: example_task_def text_simps)

text \<open>
  The trimmed id is needed. A task started for the scope of an owner whose id has a blank
  at its edge is accepted with that id as its owner, and its stored columns are then refused as
  an owner mismatch: \<open>owner_for\<close> trims the owner column but not the scope's id.
\<close>

theorem untrimmed_owner_not_reloadable:
  "\<exists>t. task_start (lit ''t1'') (Owner (lit '' ana'')) None (lit ''plan'') None example_budget 10 = Ok t \<and>
     task_from_parts (task_parts t) = Err (OwnerMismatch (lit ''ana'') (lit '' ana''))"
  by (simp add: task_start_def owner_for_def clean_owner_def origin_for_def task_from_parts_def
      task_parts_def example_budget_def text_simps)

end
