(* ===== verification/Ledger_Text.thy ===== *)
theory Ledger_Text
  imports Pond_Prelude
begin

text \<open>
  The text helpers at the end of \<open>pond-core/src/shared/domain/long_task.rs\<close>: cutting a text to a
  number of characters with a visible note, dropping blanks, folding to one line and cleaning a
  list of ids. They bound everything a step may hand back to the planner.
\<close>

definition MAX_STEP_SUMMARY_CHARS :: nat where "MAX_STEP_SUMMARY_CHARS = 600"
definition MAX_ARTIFACT_SUMMARY_CHARS :: nat where "MAX_ARTIFACT_SUMMARY_CHARS = 200"
definition MAX_ARTIFACT_TITLE_CHARS :: nat where "MAX_ARTIFACT_TITLE_CHARS = 80"
definition MAX_HAND_OFF_BRIEF_CHARS :: nat where "MAX_HAND_OFF_BRIEF_CHARS = 1200"

lemmas ledger_caps = MAX_STEP_SUMMARY_CHARS_def MAX_ARTIFACT_SUMMARY_CHARS_def
  MAX_ARTIFACT_TITLE_CHARS_def MAX_HAND_OFF_BRIEF_CHARS_def

definition cut_marker :: "nat \<Rightarrow> ustr" where
  "cut_marker max_chars = lit '' [cut to '' @ show_nat max_chars @ lit '' characters]''"

definition cap_text :: "ustr \<Rightarrow> nat \<Rightarrow> ustr" where
  "cap_text s max_chars =
     (let t = trim s in
      if length t \<le> max_chars then t
      else let marker = cut_marker max_chars in
        if length marker \<ge> max_chars then take max_chars t
        else trim_end (take (max_chars - length marker) t) @ marker)"

definition non_blank :: "ustr option \<Rightarrow> ustr option" where
  "non_blank x =
     (case x of None \<Rightarrow> None | Some s \<Rightarrow> if trim s = [] then None else Some (trim s))"

definition capped :: "ustr option \<Rightarrow> ustr option" where
  "capped x = map_option (\<lambda>s. cap_text s MAX_STEP_SUMMARY_CHARS) (non_blank x)"

definition one_line :: "ustr \<Rightarrow> ustr" where
  "one_line s = join_with (lit '' '') (split_whitespace s)"

fun clean_ids_onto :: "ustr list \<Rightarrow> ustr list \<Rightarrow> ustr list" where
  "clean_ids_onto out [] = out"
| "clean_ids_onto out (i # ids) =
     (let j = trim i in
      if j \<noteq> [] \<and> j \<notin> set out then clean_ids_onto (out @ [j]) ids
      else clean_ids_onto out ids)"

definition clean_ids :: "ustr list \<Rightarrow> ustr list" where
  "clean_ids ids = clean_ids_onto [] ids"

section \<open>Cutting\<close>

lemma length_trim_end_le: "length (trim_end s) \<le> length s"
  by (simp add: trim_end_def) (metis length_dropWhile_le length_rev)

lemma cap_text_length: "length (cap_text s n) \<le> n"
proof -
  have "length (trim_end (take (n - length (cut_marker n)) (trim s))) \<le> n - length (cut_marker n)"
    by (rule order_trans [OF length_trim_end_le]) simp
  then show ?thesis by (auto simp: cap_text_def Let_def)
qed

lemma cap_text_short: "length (trim s) \<le> n \<Longrightarrow> cap_text s n = trim s"
  by (simp add: cap_text_def)

lemma last_cut_marker: "last (cut_marker n) = 93" and cut_marker_not_Nil: "cut_marker n \<noteq> []"
  by (simp_all add: cut_marker_def lit_def)

lemma trim_end_not_Nil: "s \<noteq> [] \<Longrightarrow> \<not> is_whitespace (hd s) \<Longrightarrow> trim_end s \<noteq> []"
  by (cases s) (auto simp: trim_end_def)

lemma cap_text_trimmed:
  assumes "length (cut_marker n) < n"
  shows "trim (cap_text s n) = cap_text s n"
proof (cases "length (trim s) \<le> n")
  case True
  then show ?thesis by (simp add: cap_text_short)
next
  case False
  let ?cut = "take (n - length (cut_marker n)) (trim s)"
  have ne: "trim s \<noteq> []" and cut: "?cut \<noteq> []" "hd ?cut = hd (trim s)"
    using False assms by auto
  then have hd: "\<not> is_whitespace (hd ?cut)" by (simp add: trim_hd)
  have kept: "trim_end ?cut \<noteq> []" using cut(1) hd by (rule trim_end_not_Nil)
  have eq: "cap_text s n = trim_end ?cut @ cut_marker n"
    using False assms by (simp add: cap_text_def Let_def)
  show ?thesis unfolding eq
  proof (rule trim_id)
    show "trim_end ?cut @ cut_marker n \<noteq> []" using kept by simp
    show "\<not> is_whitespace (hd (trim_end ?cut @ cut_marker n))"
      using kept hd trim_end_hd [OF kept] by simp
    show "\<not> is_whitespace (last (trim_end ?cut @ cut_marker n))"
      by (simp add: cut_marker_not_Nil last_cut_marker is_whitespace_def)
  qed
qed

lemma cap_text_idem: "length (cut_marker n) < n \<Longrightarrow> cap_text (cap_text s n) n = cap_text s n"
  by (simp add: cap_text_short cap_text_trimmed cap_text_length)

lemma cap_text_blank_iff:
  assumes "0 < n" shows "cap_text s n = [] \<longleftrightarrow> trim s = []"
  using assms by (auto simp: cap_text_def Let_def cut_marker_not_Nil)

lemma cut_marker_lengths:
  "length (cut_marker 600) = 24" "length (cut_marker 200) = 24"
  "length (cut_marker 80) = 23" "length (cut_marker 1200) = 25"
  by (simp_all add: cut_marker_def show_nat.simps)

section \<open>Blanks\<close>

lemma non_blank_idem [simp]: "non_blank (non_blank x) = non_blank x"
  by (auto simp: non_blank_def split: option.splits)

lemma non_blank_Some: "non_blank x = Some s \<Longrightarrow> s \<noteq> [] \<and> trim s = s"
  by (auto simp: non_blank_def split: option.splits if_splits)

lemma non_blank_trimmed: "s \<noteq> [] \<Longrightarrow> trim s = s \<Longrightarrow> non_blank (Some s) = Some s"
  by (simp add: non_blank_def)

lemma capped_Some:
  "capped x = Some s \<Longrightarrow> s \<noteq> [] \<and> trim s = s \<and> length s \<le> MAX_STEP_SUMMARY_CHARS"
  by (auto simp: capped_def ledger_caps cap_text_blank_iff cap_text_length cap_text_trimmed
      cut_marker_lengths dest: non_blank_Some)

lemma capped_idem: "capped (capped x) = capped x"
proof (cases "capped x")
  case None
  then show ?thesis by (simp add: capped_def non_blank_def)
next
  case (Some s)
  have "capped (Some s) = Some s"
    using capped_Some [OF Some] by (simp add: capped_def non_blank_trimmed cap_text_short)
  then show ?thesis by (simp add: Some)
qed

section \<open>Ids\<close>

lemma clean_ids_onto_set:
  "set (clean_ids_onto out ids) = set out \<union> {trim i | i. i \<in> set ids \<and> trim i \<noteq> []}"
  by (induction ids arbitrary: out) (auto simp: Let_def)

lemma clean_ids_onto_distinct: "distinct out \<Longrightarrow> distinct (clean_ids_onto out ids)"
  by (induction ids arbitrary: out) (auto simp: Let_def)

lemma clean_ids_onto_fixed:
  "distinct (out @ ids) \<Longrightarrow> (\<And>i. i \<in> set ids \<Longrightarrow> i \<noteq> [] \<and> trim i = i) \<Longrightarrow>
     clean_ids_onto out ids = out @ ids"
  by (induction ids arbitrary: out) (auto simp: Let_def)

lemma set_clean_ids: "set (clean_ids ids) = {trim i | i. i \<in> set ids \<and> trim i \<noteq> []}"
  by (simp add: clean_ids_def clean_ids_onto_set)

lemma distinct_clean_ids: "distinct (clean_ids ids)"
  by (simp add: clean_ids_def clean_ids_onto_distinct)

lemma clean_ids_idem: "clean_ids (clean_ids ids) = clean_ids ids"
proof -
  have "clean_ids_onto [] (clean_ids ids) = [] @ clean_ids ids"
    by (rule clean_ids_onto_fixed) (auto simp: distinct_clean_ids set_clean_ids)
  then show ?thesis by (simp add: clean_ids_def)
qed

section \<open>One line\<close>

text \<open>A text on one line is a list of words with one space between them.\<close>

definition worded :: "ustr list \<Rightarrow> bool" where
  "worded ws \<longleftrightarrow> list_all (\<lambda>w. w \<noteq> [] \<and> list_all (\<lambda>c. \<not> is_whitespace c) w) ws"

abbreviation join_words :: "ustr list \<Rightarrow> ustr" where
  "join_words ws \<equiv> join_with [32] ws"

lemma worded_simps [simp]:
  "worded []"
  "worded (w # ws) \<longleftrightarrow> w \<noteq> [] \<and> list_all (\<lambda>c. \<not> is_whitespace c) w \<and> worded ws"
  "worded (ws @ vs) \<longleftrightarrow> worded ws \<and> worded vs"
  by (simp_all add: worded_def)

lemma lit_space [simp]: "lit '' '' = [32]"
  by (simp add: lit_def)

lemma is_whitespace_space [simp]: "is_whitespace 32"
  by (simp add: is_whitespace_def)

lemma split_on_plain: "list_all (\<lambda>c. \<not> p c) w \<Longrightarrow> split_on p w = [w]"
  by (induction w) auto

lemma split_on_sep:
  "list_all (\<lambda>c. \<not> p c) w \<Longrightarrow> p c \<Longrightarrow> split_on p (w @ c # r) = w # split_on p r"
  by (induction w) auto

lemma split_on_parts: "w \<in> set (split_on p s) \<Longrightarrow> list_all (\<lambda>c. \<not> p c) w"
proof (induction s arbitrary: w)
  case (Cons c s)
  then show ?case by (cases "split_on p s") (auto split: if_splits)
qed simp

lemma split_whitespace_worded: "worded (split_whitespace s)"
  using split_on_parts by (fastforce simp: worded_def split_whitespace_def list_all_iff)

lemma split_whitespace_join: "worded ws \<Longrightarrow> split_whitespace (join_words ws) = ws"
proof (induction ws rule: induct_list012)
  case (3 x y zs)
  then show ?case
    by (simp add: split_whitespace_def split_on_sep)
qed (simp_all add: split_whitespace_def split_on_plain)

lemma one_line_worded: "worded ws \<Longrightarrow> one_line (join_words ws) = join_words ws"
  by (simp add: one_line_def split_whitespace_join)

lemma one_line_words: "\<exists>ws. worded ws \<and> one_line s = join_words ws"
  using split_whitespace_worded [of s] by (auto simp: one_line_def)

lemma join_words_append:
  "ws \<noteq> [] \<Longrightarrow> vs \<noteq> [] \<Longrightarrow> join_words (ws @ vs) = join_words ws @ [32] @ join_words vs"
proof (induction ws rule: induct_list012)
  case (2 x)
  then show ?case by (cases vs) simp_all
qed simp_all

lemma join_words_Nil_iff: "worded ws \<Longrightarrow> join_words ws = [] \<longleftrightarrow> ws = []"
  by (induction ws rule: induct_list012) auto

lemma hd_join_words: "worded ws \<Longrightarrow> ws \<noteq> [] \<Longrightarrow> \<not> is_whitespace (hd (join_words ws))"
  by (induction ws rule: induct_list012) (auto simp: list_all_iff hd_append)

lemma last_join_words: "worded ws \<Longrightarrow> ws \<noteq> [] \<Longrightarrow> \<not> is_whitespace (last (join_words ws))"
proof (induction ws rule: induct_list012)
  case (3 x y zs)
  then show ?case using join_words_Nil_iff [of "y # zs"] by (auto simp: last_append)
qed (auto simp: list_all_iff)

lemma trim_end_plain: "s = [] \<or> \<not> is_whitespace (last s) \<Longrightarrow> trim_end s = s"
  by (cases s rule: rev_cases) (auto simp: trim_end_def)

lemma trim_end_take_plain:
  assumes "list_all (\<lambda>c. \<not> is_whitespace c) x" shows "trim_end (take n x) = take n x"
proof (rule trim_end_plain, cases "take n x = []")
  case False
  then have "last (take n x) \<in> set x" using last_in_set in_set_takeD by metis
  then show "take n x = [] \<or> \<not> is_whitespace (last (take n x))"
    using assms by (simp add: list_all_iff)
qed simp

lemma trim_end_append:
  "trim_end (s @ t) = (if trim_end t = [] then trim_end s else s @ trim_end t)"
  by (auto simp: trim_end_def dropWhile_append dropWhile_eq_Nil_conv)

lemma trim_join_words: "worded ws \<Longrightarrow> trim (join_words ws) = join_words ws"
  by (cases "ws = []") (simp_all add: trim_id hd_join_words last_join_words join_words_Nil_iff)

lemma trim_end_take_words:
  "worded ws \<Longrightarrow> \<exists>vs. worded vs \<and> trim_end (take n (join_words ws)) = join_words vs"
proof (induction ws arbitrary: n rule: induct_list012)
  case 1
  then show ?case by (intro exI [of _ "[]"]) (simp add: trim_end_def)
next
  case (2 x)
  have "trim_end (take n x) = take n x" using 2 by (simp add: trim_end_take_plain)
  then show ?case
    using 2 by (intro exI [of _ "if take n x = [] then [] else [take n x]"])
      (auto simp: list_all_iff dest: in_set_takeD)
next
  case (3 x y zs)
  show ?case
  proof (cases "n \<le> length x")
    case True
    have "trim_end (take n x) = take n x" using 3(3) by (simp add: trim_end_take_plain)
    then show ?thesis
      using 3(3) True by (intro exI [of _ "if take n x = [] then [] else [take n x]"])
        (auto simp: list_all_iff dest: in_set_takeD)
  next
    case False
    obtain vs where vs: "worded vs"
      "trim_end (take (n - length x - 1) (join_words (y # zs))) = join_words vs"
      using 3(2) [of "n - length x - 1"] 3(3) by auto
    have x: "trim_end x = x"
      using 3(3) by (intro trim_end_plain) (auto simp: list_all_iff)
    have "take n (join_words (x # y # zs)) =
        (x @ [32]) @ take (n - length x - 1) (join_words (y # zs))"
      using False by (simp add: take_Cons')
    moreover have "trim_end (x @ [32]) = x"
      using x by (simp add: trim_end_append) (simp add: trim_end_def)
    ultimately have "trim_end (take n (join_words (x # y # zs))) =
        (if vs = [] then x else x @ [32] @ join_words vs)"
      using vs trim_end_append [of "x @ [32]"] join_words_Nil_iff [OF vs(1)] by simp
    then show ?thesis
      using vs 3(3) join_words_append [of "[x]" vs]
      by (intro exI [of _ "x # vs"]) auto
  qed
qed

lemma cut_marker_words:
  "n \<in> {80, 200} \<Longrightarrow> \<exists>ms. worded ms \<and> ms \<noteq> [] \<and> cut_marker n = [32] @ join_words ms"
proof -
  assume "n \<in> {80, 200}"
  then consider "n = 80" | "n = 200" by blast
  then show ?thesis
  proof cases
    case 1
    then show ?thesis
      by (intro exI [of _ "map lit [''[cut'', ''to'', ''80'', ''characters]'']"])
         (simp add: cut_marker_def show_nat.simps text_simps)
  next
    case 2
    then show ?thesis
      by (intro exI [of _ "map lit [''[cut'', ''to'', ''200'', ''characters]'']"])
         (simp add: cut_marker_def show_nat.simps text_simps)
  qed
qed

lemma cap_text_one_line:
  assumes "n \<in> {80, 200}"
  shows "one_line (cap_text (one_line s) n) = cap_text (one_line s) n"
proof -
  obtain ws where ws: "worded ws" "one_line s = join_words ws" using one_line_words by blast
  obtain ms where ms: "worded ms" "ms \<noteq> []" "cut_marker n = [32] @ join_words ms"
    using cut_marker_words [OF assms] by blast
  obtain vs where vs: "worded vs"
    "trim_end (take (n - length (cut_marker n)) (join_words ws)) = join_words vs"
    using trim_end_take_words [OF ws(1)] by blast
  have room: "length (cut_marker n) < n" using assms by (auto simp: cut_marker_lengths)
  show ?thesis
  proof (cases "length (join_words ws) \<le> n")
    case True
    then show ?thesis by (simp only: ws cap_text_short trim_join_words one_line_worded)
  next
    case False
    have eq: "cap_text (one_line s) n = join_words vs @ [32] @ join_words ms"
      using False room vs(2) by (simp add: ws trim_join_words cap_text_def Let_def ms(3))
    have "vs \<noteq> []"
    proof
      assume "vs = []"
      then have "trim_end (take (n - length (cut_marker n)) (join_words ws)) = []" using vs by simp
      moreover have "take (n - length (cut_marker n)) (join_words ws) \<noteq> []"
        using False room by auto
      moreover have "ws \<noteq> []" using False by auto
      ultimately show False
        using trim_end_not_Nil [of "take (n - length (cut_marker n)) (join_words ws)"]
          hd_join_words [OF ws(1)] room by (simp add: hd_take)
    qed
    then have "cap_text (one_line s) n = join_words (vs @ ms)"
      using eq ms(2) by (simp add: join_words_append)
    then show ?thesis using vs(1) ms(1) one_line_worded [of "vs @ ms"] by simp
  qed
qed

end
