(* ===== verification/Step_Key.thy ===== *)
theory Step_Key
  imports Ledger_Text Long_Task_State
begin

text \<open>
  The name of a plan step: \<open>StepKey\<close>, its strict and lenient readers and \<open>suggest_key\<close> of
  \<open>pond-core/src/shared/domain/long_task.rs\<close>, with the errors a plan is refused with
  (\<open>PlanError\<close>). A key is the text it wraps; \<open>valid_step_key\<close> is what its constructor checks.
\<close>

type_synonym step_key = ustr

definition MAX_STEP_KEY_CHARS :: nat where "MAX_STEP_KEY_CHARS = 32"

datatype plan_error =
    TaskFinished long_task_state
  | EmptyPlan
  | TooManySteps nat nat u32
  | InvalidKey ustr "ustr option"
  | DuplicateKey ustr
  | RewritesSettledStep ustr step_state
  | MissingRole ustr
  | MissingInstructions ustr
  | UnknownDependency ustr ustr
  | Cycle "ustr list"
  | StepsOfAnotherTask ustr ustr

definition key_char :: "uchar \<Rightarrow> bool" where
  "key_char c \<longleftrightarrow> ascii_lower_char c \<or> ascii_digit_char c \<or> c = 45"

definition valid_step_key :: "ustr \<Rightarrow> bool" where
  "valid_step_key k \<longleftrightarrow> k \<noteq> [] \<and> list_all key_char k \<and> utf8_len k \<le> MAX_STEP_KEY_CHARS"

text \<open>The slug loop of \<open>suggest_key\<close>: one dash for every run of other characters.\<close>

definition slug_push :: "ustr \<Rightarrow> uchar \<Rightarrow> ustr" where
  "slug_push slug c =
     (if ascii_lower_char c \<or> ascii_digit_char c then slug @ [c]
      else if slug \<noteq> [] \<and> last slug \<noteq> 45 then slug @ [45]
      else slug)"

definition trim_end_dashes :: "ustr \<Rightarrow> ustr" where
  "trim_end_dashes s = rev (dropWhile (\<lambda>c. c = 45) (rev s))"

definition suggest_key :: "ustr \<Rightarrow> ustr option" where
  "suggest_key raw =
     (let slug = foldl slug_push [] (map to_ascii_lower raw);
          slug' = trim_end_dashes (take MAX_STEP_KEY_CHARS slug)
      in if slug' = [] then None else Some slug')"

definition step_key_parse :: "ustr \<Rightarrow> (step_key, plan_error) result" where
  "step_key_parse raw =
     (let key = trim raw in
      if valid_step_key key then Ok key else Err (InvalidKey key (suggest_key key)))"

definition step_key_lenient :: "ustr \<Rightarrow> (step_key, plan_error) result" where
  "step_key_lenient raw =
     (case step_key_parse raw of
        Ok k \<Rightarrow> Ok k
      | Err refused \<Rightarrow>
          (case refused of
             InvalidKey _ (Some near) \<Rightarrow>
               (case step_key_parse near of Ok k \<Rightarrow> Ok k | Err _ \<Rightarrow> Err refused)
           | _ \<Rightarrow> Err refused))"

section \<open>Keys are ASCII\<close>

lemma key_char_not_whitespace: "key_char c \<Longrightarrow> \<not> is_whitespace c"
  by (auto simp: key_char_def ascii_lower_char_def ascii_digit_char_def is_whitespace_def)

lemma key_char_one_byte: "key_char c \<Longrightarrow> char_len c = 1"
  by (auto simp: key_char_def ascii_lower_char_def ascii_digit_char_def char_len_def)

lemma utf8_len_key_chars: "list_all key_char k \<Longrightarrow> utf8_len k = length k"
  by (induction k) (auto simp: utf8_len_def key_char_one_byte)

lemma valid_step_key_length: "valid_step_key k \<Longrightarrow> length k \<le> MAX_STEP_KEY_CHARS"
  by (metis utf8_len_key_chars valid_step_key_def)

lemma trim_key: "list_all key_char k \<Longrightarrow> trim k = k"
proof (cases "k = []")
  case False
  assume "list_all key_char k"
  with False show ?thesis
    by (intro trim_id) (auto simp: list_all_iff key_char_not_whitespace)
qed simp

lemma step_key_parse_valid: "valid_step_key k \<Longrightarrow> step_key_parse k = Ok k"
  by (simp add: step_key_parse_def valid_step_key_def trim_key)

lemma step_key_parse_Ok: "step_key_parse raw = Ok k \<Longrightarrow> valid_step_key k \<and> k = trim raw"
  by (auto simp: step_key_parse_def Let_def split: if_splits)

section \<open>Suggestions are keys\<close>

text \<open>Every slug is empty or starts with a letter or digit, and holds key characters only.\<close>

definition slug_inv :: "ustr \<Rightarrow> bool" where
  "slug_inv s \<longleftrightarrow> list_all key_char s \<and> (s \<noteq> [] \<longrightarrow> hd s \<noteq> 45)"

lemma slug_push_inv: "slug_inv s \<Longrightarrow> slug_inv (slug_push s c)"
  by (auto simp: slug_inv_def slug_push_def key_char_def hd_append
      ascii_lower_char_def ascii_digit_char_def)

lemma slug_fold_inv: "slug_inv s \<Longrightarrow> slug_inv (foldl slug_push s cs)"
  by (induction cs arbitrary: s) (auto simp: slug_push_inv)

lemma slug_push_grows: "\<exists>u. slug_push s c = s @ u"
  by (simp add: slug_push_def)

lemma slug_fold_grows: "\<exists>t. foldl slug_push s cs = s @ t"
proof (induction cs arbitrary: s)
  case (Cons c cs)
  obtain t where "foldl slug_push (slug_push s c) cs = slug_push s c @ t"
    using Cons by blast
  then show ?case using slug_push_grows [of s c] by auto
qed simp

lemma slug_fold_not_Nil:
  "(\<exists>c \<in> set cs. ascii_lower_char c \<or> ascii_digit_char c) \<longleftrightarrow> foldl slug_push [] cs \<noteq> []"
proof (induction cs)
  case (Cons c cs)
  show ?case
  proof (cases "ascii_lower_char c \<or> ascii_digit_char c")
    case True
    then have "slug_push [] c = [c]" by (simp add: slug_push_def)
    with True show ?thesis
      using slug_fold_grows [of "[c]" cs] by auto
  next
    case False
    then have "slug_push [] c = []" by (simp add: slug_push_def)
    with False Cons show ?thesis by auto
  qed
qed simp

lemma trim_end_dashes_prefix: "\<exists>t. s = trim_end_dashes s @ t"
  unfolding trim_end_dashes_def
  by (metis rev_append rev_rev_ident takeWhile_dropWhile_id)

lemma trim_end_dashes_not_Nil: "s \<noteq> [] \<Longrightarrow> hd s \<noteq> 45 \<Longrightarrow> trim_end_dashes s \<noteq> []"
  by (cases s) (auto simp: trim_end_dashes_def)

lemma suggest_key_valid: "suggest_key raw = Some k \<Longrightarrow> valid_step_key k \<and> last k \<noteq> 45"
proof -
  assume sug: "suggest_key raw = Some k"
  let ?slug = "take MAX_STEP_KEY_CHARS (foldl slug_push [] (map to_ascii_lower raw))"
  have k: "k = trim_end_dashes ?slug" "k \<noteq> []"
    using sug by (auto simp: suggest_key_def Let_def split: if_splits)
  have inv: "slug_inv (foldl slug_push [] (map to_ascii_lower raw))"
    by (rule slug_fold_inv) (simp add: slug_inv_def)
  then have all: "list_all key_char ?slug"
    by (auto simp: slug_inv_def list_all_iff dest: in_set_takeD)
  obtain t where t: "?slug = k @ t" using trim_end_dashes_prefix k(1) by metis
  have allk: "list_all key_char k" using all unfolding t by simp
  have "length k \<le> MAX_STEP_KEY_CHARS"
    using arg_cong [OF t, of length] by simp
  moreover have "last k \<noteq> 45"
    using hd_dropWhile [of "\<lambda>c. c = 45" "rev ?slug"] k
    by (simp add: trim_end_dashes_def last_rev)
  ultimately show ?thesis
    using k(2) allk by (simp add: valid_step_key_def utf8_len_key_chars)
qed

definition ascii_alphanumeric :: "uchar \<Rightarrow> bool" where
  "ascii_alphanumeric c \<longleftrightarrow> ascii_lower_char c \<or> ascii_upper_char c \<or> ascii_digit_char c"

lemma to_ascii_lower_alphanumeric:
  "ascii_lower_char (to_ascii_lower c) \<or> ascii_digit_char (to_ascii_lower c) \<longleftrightarrow>
     ascii_alphanumeric c"
  by (auto simp: ascii_alphanumeric_def to_ascii_lower_def ascii_lower_char_def
      ascii_upper_char_def ascii_digit_char_def)

lemma suggest_key_None_iff: "suggest_key raw = None \<longleftrightarrow> (\<forall>c \<in> set raw. \<not> ascii_alphanumeric c)"
proof -
  let ?slug = "foldl slug_push [] (map to_ascii_lower raw)"
  have inv: "slug_inv ?slug" by (rule slug_fold_inv) (simp add: slug_inv_def)
  have "suggest_key raw = None \<longleftrightarrow> trim_end_dashes (take MAX_STEP_KEY_CHARS ?slug) = []"
    by (simp add: suggest_key_def Let_def)
  also have "\<dots> \<longleftrightarrow> ?slug = []"
  proof
    assume "trim_end_dashes (take MAX_STEP_KEY_CHARS ?slug) = []"
    then show "?slug = []"
      using trim_end_dashes_not_Nil [of "take MAX_STEP_KEY_CHARS ?slug"] inv
      by (auto simp: slug_inv_def MAX_STEP_KEY_CHARS_def)
  qed (simp add: trim_end_dashes_def)
  also have "\<dots> \<longleftrightarrow> (\<forall>c \<in> set raw. \<not> ascii_alphanumeric c)"
    using slug_fold_not_Nil [of "map to_ascii_lower raw"]
    by (auto simp: to_ascii_lower_alphanumeric)
  finally show ?thesis .
qed

section \<open>The lenient reader\<close>

lemma step_key_lenient_eq:
  "step_key_lenient raw =
     (let key = trim raw in
      if valid_step_key key then Ok key
      else case suggest_key key of
             Some near \<Rightarrow> Ok near
           | None \<Rightarrow> Err (InvalidKey key None))"
  by (auto simp: step_key_lenient_def step_key_parse_def Let_def suggest_key_valid
      valid_step_key_def trim_key split: option.splits)
     (use suggest_key_valid trim_key valid_step_key_def in \<open>fastforce\<close>)+

lemma step_key_lenient_valid: "step_key_lenient raw = Ok k \<Longrightarrow> valid_step_key k"
  by (auto simp: step_key_lenient_eq Let_def suggest_key_valid split: if_splits option.splits)

lemma step_key_lenient_idem: "step_key_lenient raw = Ok k \<Longrightarrow> step_key_lenient k = Ok k"
  using step_key_lenient_valid step_key_parse_valid
  by (fastforce simp: step_key_lenient_def)

section \<open>Properties\<close>

text \<open>
  The lenient reader of a step key accepts a text exactly when it holds an ASCII letter or
  digit after trimming or is already a key; what it returns is always a valid key (1 to 32
  characters of the key alphabet), a valid key is taken as it is, and reading its own answer
  again changes nothing.
\<close>

theorem step_key_lenient_correct:
  "case step_key_lenient raw of
     Ok k \<Rightarrow> valid_step_key k \<and> step_key_lenient k = Ok k \<and>
       (if valid_step_key (trim raw) then k = trim raw else suggest_key (trim raw) = Some k)
   | Err e \<Rightarrow> e = InvalidKey (trim raw) None \<and> \<not> valid_step_key (trim raw) \<and>
       (\<forall>c. c \<in> set (trim raw) \<longrightarrow> \<not> ascii_alphanumeric c)"
proof (cases "step_key_lenient raw")
  case (Ok k)
  then show ?thesis
    using step_key_lenient_valid [OF Ok] step_key_lenient_idem [OF Ok]
    by (auto simp: step_key_lenient_eq Let_def split: if_splits option.splits)
next
  case (Err e)
  then show ?thesis
    by (auto simp: step_key_lenient_eq Let_def suggest_key_None_iff split: if_splits option.splits)
qed

theorem step_key_lenient_correct_witness:
  "valid_step_key (lit ''find-hotels'') \<and>
   step_key_lenient (lit '' Find  Hotels! '') = Ok (lit ''find-hotels'')"
proof -
  have "step_key_lenient (lit '' Find  Hotels! '') = Ok (lit ''find-hotels'')"
    by (simp add: step_key_lenient_eq suggest_key_def valid_step_key_def key_char_def slug_push_def
        trim_end_dashes_def MAX_STEP_KEY_CHARS_def text_simps)
  then show ?thesis
    using step_key_lenient_correct [of "lit '' Find  Hotels! ''"] by simp
qed

end
