(* ===== verification/Step_Outcome.thy ===== *)
theory Step_Outcome
  imports Ledger_Text
begin

text \<open>
  The hand-back of a helper: \<open>StepOutcome\<close>, \<open>HandBackAsks\<close> and the lenient reader of
  \<open>pond-core/src/shared/domain/long_task.rs\<close>. A JSON value is the tree \<open>serde_json::Value\<close> with
  objects in insertion order (the workspace builds \<open>serde_json\<close> with \<open>indexmap\<close>); a number keeps
  its text. Reading JSON from text and writing a value as text belong to \<open>serde_json\<close> and are the
  arguments \<open>json_parse\<close> and \<open>json_text\<close>.
\<close>

datatype json =
    JNull
  | JBool bool
  | JNumber ustr
  | JString ustr
  | JArray "json list"
  | JObject "(ustr \<times> json) list"

type_synonym json_object = "(ustr \<times> json) list"

fun json_as_str :: "json \<Rightarrow> ustr option" where
  "json_as_str (JString s) = Some s"
| "json_as_str _ = None"

fun json_get :: "json \<Rightarrow> ustr \<Rightarrow> json option" where
  "json_get (JObject object) key = map_of object key"
| "json_get _ key = None"

fun json_as_bool :: "json \<Rightarrow> bool option" where
  "json_as_bool (JBool b) = Some b"
| "json_as_bool _ = None"

datatype outcome_kind = OutcomeCompleted | OutcomeFailed | NeedsApproval

record hand_to_ask =
  hand_agent :: ustr
  hand_brief :: "ustr option"

record hand_back_asks =
  hand_to :: "hand_to_ask option"
  start_task :: "ustr option"

definition no_asks :: hand_back_asks where
  "no_asks = \<lparr>hand_to = None, start_task = None\<rparr>"

definition asks_is_empty :: "hand_back_asks \<Rightarrow> bool" where
  "asks_is_empty a \<longleftrightarrow> hand_to a = None \<and> start_task a = None"

record step_outcome =
  out_kind :: outcome_kind
  out_summary :: ustr
  out_artifacts :: "ustr list"
  out_failure :: "ustr option"
  out_asks :: hand_back_asks

datatype outcome_error = NotAnObject | MissingOutcome | UnknownOutcome ustr

definition OUTCOME_KEYS :: "ustr list" where
  "OUTCOME_KEYS = map lit [''outcome'', ''status'', ''state'']"

definition SUMMARY_KEYS :: "ustr list" where
  "SUMMARY_KEYS = map lit [''summary'', ''result'', ''answer'', ''findings'', ''report'', ''message'']"

definition ARTIFACT_KEYS :: "ustr list" where
  "ARTIFACT_KEYS = map lit [''artifacts'', ''artifact_ids'', ''artifact'', ''outputs'']"

definition FAILURE_KEYS :: "ustr list" where
  "FAILURE_KEYS = map lit [''failure'', ''error'', ''reason'', ''problem'']"

definition HAND_TO_KEYS :: "ustr list" where
  "HAND_TO_KEYS = map lit [''hand_to'', ''handoff'', ''hand_off'', ''next_agent'']"

definition BRIEF_KEYS :: "ustr list" where
  "BRIEF_KEYS = map lit [''brief'', ''hand_to_brief'', ''handoff_brief'']"

definition START_TASK_KEYS :: "ustr list" where
  "START_TASK_KEYS = map lit [''start_task'', ''new_task'', ''follow_up_task'']"

section \<open>Reading\<close>

definition first_present :: "json_object \<Rightarrow> ustr list \<Rightarrow> json option" where
  "first_present object keys =
     find (\<lambda>v. v \<noteq> JNull) (List.map_filter (\<lambda>k. map_of object k) keys)"

definition completed_words :: "ustr list" where
  "completed_words =
     map lit [''completed'', ''complete'', ''done'', ''success'', ''succeeded'', ''finished'', ''ok'']"

definition failed_words :: "ustr list" where
  "failed_words = map lit [''failed'', ''fail'', ''failure'', ''error'', ''blocked'', ''unable'']"

definition approval_words :: "ustr list" where
  "approval_words =
     map lit [''needs_approval'', ''needsapproval'', ''awaiting_approval'', ''approval_required'',
              ''needs_permission'', ''approval'']"

text \<open>The word of an outcome: trimmed, lower case, with blanks and dashes as underscores.\<close>

definition outcome_word :: "ustr \<Rightarrow> ustr" where
  "outcome_word s =
     map (\<lambda>c. if c = 32 \<or> c = 45 then 95 else c) (to_ascii_lowercase (trim s))"

definition parse_outcome_kind ::
  "(json \<Rightarrow> ustr) \<Rightarrow> json \<Rightarrow> (outcome_kind, outcome_error) result" where
  "parse_outcome_kind json_text raw =
     (case json_as_str raw of
        None \<Rightarrow> Err (UnknownOutcome (json_text raw))
      | Some s \<Rightarrow>
          (let word = outcome_word s in
           if word \<in> set completed_words then Ok OutcomeCompleted
           else if word \<in> set failed_words then Ok OutcomeFailed
           else if word \<in> set approval_words then Ok NeedsApproval
           else Err (UnknownOutcome (trim s))))"

definition value_text :: "(json \<Rightarrow> ustr) \<Rightarrow> json \<Rightarrow> ustr" where
  "value_text json_text v = (case v of JString s \<Rightarrow> s | other \<Rightarrow> json_text other)"

fun artifact_id_item :: "json \<Rightarrow> ustr option" where
  "artifact_id_item (JString i) = Some i"
| "artifact_id_item (JObject object) = Option.bind (map_of object (lit ''id'')) json_as_str"
| "artifact_id_item _ = None"

definition artifact_ids :: "json \<Rightarrow> ustr list" where
  "artifact_ids v =
     (case v of
        JString s \<Rightarrow> split_on (\<lambda>c. c = 44) s
      | JArray items \<Rightarrow> List.map_filter artifact_id_item items
      | _ \<Rightarrow> [])"

definition brief_of :: "(json \<Rightarrow> ustr) \<Rightarrow> json_object \<Rightarrow> ustr option" where
  "brief_of json_text object =
     map_option (\<lambda>s. cap_text s MAX_HAND_OFF_BRIEF_CHARS)
       (non_blank (map_option (value_text json_text) (first_present object BRIEF_KEYS)))"

definition asks_from_object :: "(json \<Rightarrow> ustr) \<Rightarrow> json_object \<Rightarrow> hand_back_asks" where
  "asks_from_object json_text object =
     (let brief = brief_of json_text object in
      \<lparr>hand_to = Option.bind (first_present object HAND_TO_KEYS) (\<lambda>v.
          case v of
            JString agent \<Rightarrow>
              map_option (\<lambda>a. \<lparr>hand_agent = a, hand_brief = brief\<rparr>) (non_blank (Some agent))
          | JObject inner \<Rightarrow>
              map_option
                (\<lambda>a. \<lparr>hand_agent = a,
                      hand_brief = (case brief_of json_text inner of Some b \<Rightarrow> Some b | None \<Rightarrow> brief)\<rparr>)
                (non_blank
                  (Option.bind
                    (case map_of inner (lit ''agent'') of
                       Some x \<Rightarrow> Some x
                     | None \<Rightarrow> map_of inner (lit ''name''))
                    json_as_str))
          | _ \<Rightarrow> None),
       start_task =
         map_option (\<lambda>goal. cap_text goal MAX_STEP_SUMMARY_CHARS)
           (non_blank (Option.bind (first_present object START_TASK_KEYS) json_as_str))\<rparr>)"

section \<open>The hand-back\<close>

definition outcome_new ::
  "outcome_kind \<Rightarrow> ustr \<Rightarrow> ustr list \<Rightarrow> ustr option \<Rightarrow> step_outcome" where
  "outcome_new kind summary artifacts failure =
     \<lparr>out_kind = kind,
      out_summary = cap_text summary MAX_STEP_SUMMARY_CHARS,
      out_artifacts = clean_ids artifacts,
      out_failure = (case kind of OutcomeCompleted \<Rightarrow> None | _ \<Rightarrow> capped failure),
      out_asks = no_asks\<rparr>"

definition with_asks :: "step_outcome \<Rightarrow> hand_back_asks \<Rightarrow> step_outcome" where
  "with_asks r asks = r\<lparr>out_asks := asks\<rparr>"

definition with_artifacts :: "step_outcome \<Rightarrow> ustr list \<Rightarrow> step_outcome" where
  "with_artifacts r artifacts = r\<lparr>out_artifacts := clean_ids artifacts\<rparr>"

definition outcome_from_json ::
  "(json \<Rightarrow> ustr) \<Rightarrow> json \<Rightarrow> (step_outcome, outcome_error) result" where
  "outcome_from_json json_text v =
     (case v of
        JObject object \<Rightarrow>
          (case (case first_present object OUTCOME_KEYS of
                   Some raw \<Rightarrow> parse_outcome_kind json_text raw
                 | None \<Rightarrow>
                     (case Option.bind (map_of object (lit ''success'')) json_as_bool of
                        Some True \<Rightarrow> Ok OutcomeCompleted
                      | Some False \<Rightarrow> Ok OutcomeFailed
                      | None \<Rightarrow> Err MissingOutcome)) of
             Err e \<Rightarrow> Err e
           | Ok kind \<Rightarrow>
               (let summary = (case first_present object SUMMARY_KEYS of
                                 None \<Rightarrow> [] | Some x \<Rightarrow> value_text json_text x);
                    artifacts = (case first_present object ARTIFACT_KEYS of
                                   None \<Rightarrow> [] | Some x \<Rightarrow> artifact_ids x);
                    failure = map_option (value_text json_text) (first_present object FAILURE_KEYS)
                in Ok (with_asks (outcome_new kind summary artifacts failure)
                         (asks_from_object json_text object))))
      | _ \<Rightarrow> Err NotAnObject)"

fun find_char :: "uchar \<Rightarrow> ustr \<Rightarrow> nat option" where
  "find_char c [] = None"
| "find_char c (x # xs) = (if x = c then Some 0 else map_option Suc (find_char c xs))"

definition rfind_char :: "uchar \<Rightarrow> ustr \<Rightarrow> nat option" where
  "rfind_char c s = map_option (\<lambda>i. length s - 1 - i) (find_char c (rev s))"

definition first_json_value :: "(ustr \<Rightarrow> json option) \<Rightarrow> ustr \<Rightarrow> json option" where
  "first_json_value json_parse s =
     (let t = trim s in
      case json_parse t of
        Some v \<Rightarrow> Some v
      | None \<Rightarrow>
          (case (find_char 123 t, rfind_char 125 t) of
             (Some i, Some j) \<Rightarrow> if j \<le> i then None else json_parse (take (j - i + 1) (drop i t))
           | _ \<Rightarrow> None))"

definition outcome_parse ::
  "(ustr \<Rightarrow> json option) \<Rightarrow> (json \<Rightarrow> ustr) \<Rightarrow> ustr \<Rightarrow> (step_outcome, outcome_error) result" where
  "outcome_parse json_parse json_text s =
     (case first_json_value json_parse s of
        None \<Rightarrow> Err NotAnObject
      | Some v \<Rightarrow> outcome_from_json json_text v)"

section \<open>What every hand-back satisfies\<close>

definition id_list_ok :: "ustr list \<Rightarrow> bool" where
  "id_list_ok ids \<longleftrightarrow> distinct ids \<and> list_all (\<lambda>i. i \<noteq> [] \<and> trim i = i) ids"

definition asks_ok :: "hand_back_asks \<Rightarrow> bool" where
  "asks_ok a \<longleftrightarrow>
     (case hand_to a of
        None \<Rightarrow> True
      | Some h \<Rightarrow> hand_agent h \<noteq> [] \<and>
          (case hand_brief h of None \<Rightarrow> True
           | Some b \<Rightarrow> b \<noteq> [] \<and> length b \<le> MAX_HAND_OFF_BRIEF_CHARS)) \<and>
     (case start_task a of None \<Rightarrow> True
      | Some g \<Rightarrow> g \<noteq> [] \<and> length g \<le> MAX_STEP_SUMMARY_CHARS)"

definition outcome_ok :: "step_outcome \<Rightarrow> bool" where
  "outcome_ok r \<longleftrightarrow>
     length (out_summary r) \<le> MAX_STEP_SUMMARY_CHARS \<and>
     trim (out_summary r) = out_summary r \<and>
     id_list_ok (out_artifacts r) \<and>
     (out_kind r = OutcomeCompleted \<longrightarrow> out_failure r = None) \<and>
     (case out_failure r of None \<Rightarrow> True
      | Some f \<Rightarrow> f \<noteq> [] \<and> trim f = f \<and> length f \<le> MAX_STEP_SUMMARY_CHARS) \<and>
     asks_ok (out_asks r)"

lemma id_list_ok_clean_ids: "id_list_ok (clean_ids ids)"
  by (auto simp: id_list_ok_def distinct_clean_ids set_clean_ids list_all_iff)

lemma asks_ok_no_asks: "asks_ok no_asks"
  by (simp add: asks_ok_def no_asks_def)

lemma brief_of_bound:
  "brief_of json_text object = Some b \<Longrightarrow> b \<noteq> [] \<and> length b \<le> MAX_HAND_OFF_BRIEF_CHARS"
  by (auto simp: brief_of_def cap_text_length cap_text_blank_iff MAX_HAND_OFF_BRIEF_CHARS_def
      dest: non_blank_Some)

lemma asks_ok_from_object: "asks_ok (asks_from_object json_text object)"
  by (auto simp: asks_ok_def asks_from_object_def Let_def cap_text_length cap_text_blank_iff
      MAX_STEP_SUMMARY_CHARS_def
      dest: brief_of_bound non_blank_Some
      split: option.splits json.splits Option.bind_splits)

lemma outcome_new_ok: "outcome_ok (outcome_new kind summary artifacts failure)"
  by (auto simp: outcome_ok_def outcome_new_def cap_text_length cap_text_trimmed
      id_list_ok_clean_ids asks_ok_no_asks MAX_STEP_SUMMARY_CHARS_def cut_marker_lengths
      dest: capped_Some split: option.splits outcome_kind.splits)

lemma with_asks_ok: "outcome_ok r \<Longrightarrow> asks_ok a \<Longrightarrow> outcome_ok (with_asks r a)"
  by (simp add: outcome_ok_def with_asks_def)

lemma with_artifacts_ok: "outcome_ok r \<Longrightarrow> outcome_ok (with_artifacts r ids)"
  by (simp add: outcome_ok_def with_artifacts_def id_list_ok_clean_ids)

lemma outcome_from_json_ok: "outcome_from_json json_text v = Ok r \<Longrightarrow> outcome_ok r"
  by (auto simp: outcome_from_json_def Let_def outcome_new_ok with_asks_ok asks_ok_from_object
      split: json.splits result.splits)

lemma outcome_parse_ok: "outcome_parse json_parse json_text s = Ok r \<Longrightarrow> outcome_ok r"
  by (auto simp: outcome_parse_def outcome_from_json_ok split: option.splits)

lemma outcome_from_json_kind:
  assumes "outcome_from_json json_text (JObject object) = Ok r"
  shows "case first_present object OUTCOME_KEYS of
      Some raw \<Rightarrow> parse_outcome_kind json_text raw = Ok (out_kind r)
    | None \<Rightarrow> map_of object (lit ''success'') = Some (JBool (out_kind r = OutcomeCompleted)) \<and>
        out_kind r \<noteq> NeedsApproval"
  using assms
  by (auto simp: outcome_from_json_def with_asks_def outcome_new_def Let_def
      split: option.splits result.splits bool.splits Option.bind_splits
      elim!: json_as_bool.elims)

section \<open>Properties\<close>

text \<open>
  Whatever text a helper hands back, a hand-back read from it is bounded and clean: the
  summary and the failure reason hold at most 600 characters, artifact ids are trimmed, not blank
  and without repeats, a completed hand-back carries no failure, and what it asks for is bounded.
\<close>

theorem outcome_parse_bounded:
  "outcome_parse json_parse json_text s = Ok r \<Longrightarrow> outcome_ok r"
  by (rule outcome_parse_ok)

definition example_hand_back :: json where
  "example_hand_back = JObject [(lit ''status'', JString (lit ''Done'')),
     (lit ''summary'', JString (lit ''found it'')),
     (lit ''artifacts'', JArray [JString (lit '' a1 ''), JString (lit ''a1'')])]"

definition example_outcome :: step_outcome where
  "example_outcome = \<lparr>out_kind = OutcomeCompleted, out_summary = lit ''found it'',
     out_artifacts = [lit ''a1''], out_failure = None, out_asks = no_asks\<rparr>"

lemmas outcome_eval = outcome_parse_def first_json_value_def outcome_from_json_def
  first_present_def OUTCOME_KEYS_def SUMMARY_KEYS_def ARTIFACT_KEYS_def FAILURE_KEYS_def
  HAND_TO_KEYS_def BRIEF_KEYS_def START_TASK_KEYS_def parse_outcome_kind_def outcome_word_def
  completed_words_def value_text_def artifact_ids_def asks_from_object_def brief_of_def
  outcome_new_def with_asks_def no_asks_def cap_text_def clean_ids_def non_blank_def
  MAX_STEP_SUMMARY_CHARS_def

lemma example_hand_back_parse:
  "outcome_parse (\<lambda>s. Some example_hand_back) (\<lambda>v. []) [] = Ok example_outcome"
  by (simp add: outcome_eval example_hand_back_def example_outcome_def text_simps)

theorem outcome_parse_bounded_witness: "outcome_ok example_outcome"
  by (rule outcome_parse_bounded [OF example_hand_back_parse])

text \<open>
  Silence is never success. A hand-back counts as completed only if its object says so: the
  first of \<open>outcome\<close>, \<open>status\<close>, \<open>state\<close> that is present is a completion word, or none is present
  and \<open>success\<close> is the JSON value true.
\<close>

theorem completed_needs_saying:
  assumes "outcome_from_json json_text (JObject object) = Ok r" "out_kind r = OutcomeCompleted"
  shows "(\<exists>w. first_present object OUTCOME_KEYS = Some (JString w) \<and>
            outcome_word w \<in> set completed_words) \<or>
         (first_present object OUTCOME_KEYS = None \<and>
            map_of object (lit ''success'') = Some (JBool True))"
  using outcome_from_json_kind [OF assms(1)] assms(2)
  by (auto simp: parse_outcome_kind_def Let_def split: option.splits if_splits
      elim!: json_as_str.elims)

theorem completed_needs_saying_witness:
  "first_present [(lit ''status'', JString (lit ''Done''))] OUTCOME_KEYS =
     Some (JString (lit ''Done'')) \<and> outcome_word (lit ''Done'') \<in> set completed_words"
proof -
  let ?o = "[(lit ''status'', JString (lit ''Done''))]"
  have "outcome_from_json (\<lambda>v. []) (JObject ?o) =
      Ok \<lparr>out_kind = OutcomeCompleted, out_summary = [], out_artifacts = [],
          out_failure = None, out_asks = no_asks\<rparr>"
    by (simp add: outcome_eval text_simps)
  from completed_needs_saying [OF this] show ?thesis
    by (auto simp: first_present_def OUTCOME_KEYS_def)
qed

end
