(* ===== verification/Plan_Step.thy ===== *)
theory Plan_Step
  imports Step_Key Step_Outcome
begin

text \<open>
  One step of a plan: \<open>StepAgent\<close>, \<open>StepDraft\<close>, \<open>PlanStep\<close>, \<open>PlanStepParts\<close> and the methods that
  move a step (\<open>pond-core/src/shared/domain/long_task.rs\<close>). \<open>step_moves\<close> is the life of a step
  under those methods and \<open>step_inv\<close> the invariant it keeps.
\<close>

definition UNEXPLAINED_FAILURE :: ustr where
  "UNEXPLAINED_FAILURE = lit ''the helper reported a failure without saying why''"

definition NEW_AGENT_PREFIX :: ustr where "NEW_AGENT_PREFIX = lit ''new:''"
definition AGENT_NAME_CHARS :: nat where "AGENT_NAME_CHARS = 40"

record step_agent =
  agent_name :: ustr
  agent_instructions :: ustr
  agent_tools :: "ustr list"

definition agent_cleaned :: "step_agent \<Rightarrow> step_agent option" where
  "agent_cleaned a =
     (let name = take AGENT_NAME_CHARS (trim (agent_name a));
          instructions = trim (agent_instructions a);
          tools = clean_ids (agent_tools a)
      in if name \<noteq> [] \<and> instructions \<noteq> []
         then Some \<lparr>agent_name = name, agent_instructions = instructions, agent_tools = tools\<rparr>
         else None)"

record step_draft =
  draft_key :: ustr
  draft_role :: ustr
  draft_new_agent :: "step_agent option"
  draft_instructions :: ustr
  draft_inputs :: "ustr list"
  draft_depends_on :: "ustr list"
  draft_acceptance :: "ustr option"

record step_state_refused =
  refused_step :: ustr
  step_from :: step_state
  step_to :: step_state

record plan_step =
  ps_task_id :: ustr
  ps_key :: step_key
  ps_ordinal :: u32
  ps_role :: ustr
  ps_instructions :: ustr
  ps_inputs :: "ustr list"
  ps_depends_on :: "step_key list"
  ps_acceptance :: "ustr option"
  ps_state :: step_state
  ps_attempts :: u32
  ps_summary :: "ustr option"
  ps_failure :: "ustr option"
  ps_started_at :: "timestamp option"
  ps_finished_at :: "timestamp option"
  ps_agent :: "step_agent option"

record plan_step_parts =
  sp_task_id :: ustr
  sp_key :: ustr
  sp_ordinal :: u32
  sp_role :: ustr
  sp_instructions :: ustr
  sp_inputs :: "ustr list"
  sp_depends_on :: "ustr list"
  sp_acceptance :: "ustr option"
  sp_state :: step_state
  sp_attempts :: u32
  sp_summary :: "ustr option"
  sp_failure :: "ustr option"
  sp_started_at :: "timestamp option"
  sp_finished_at :: "timestamp option"
  sp_agent :: "step_agent option"

definition step_from_parts :: "plan_step_parts \<Rightarrow> (plan_step, plan_error) result" where
  "step_from_parts p =
     (case step_key_parse (sp_key p) of
        Err e \<Rightarrow> Err e
      | Ok key \<Rightarrow>
          if trim (sp_role p) = [] then Err (MissingRole key)
          else if trim (sp_instructions p) = [] then Err (MissingInstructions key)
          else (case try_map step_key_parse (sp_depends_on p) of
                  Err e \<Rightarrow> Err e
                | Ok deps \<Rightarrow>
                    Ok \<lparr>ps_task_id = sp_task_id p, ps_key = key, ps_ordinal = sp_ordinal p,
                        ps_role = trim (sp_role p), ps_instructions = trim (sp_instructions p),
                        ps_inputs = clean_ids (sp_inputs p), ps_depends_on = deps,
                        ps_acceptance = non_blank (sp_acceptance p), ps_state = sp_state p,
                        ps_attempts = sp_attempts p, ps_summary = capped (sp_summary p),
                        ps_failure = capped (sp_failure p), ps_started_at = sp_started_at p,
                        ps_finished_at = sp_finished_at p,
                        ps_agent = Option.bind (sp_agent p) agent_cleaned\<rparr>))"

section \<open>Moving a step\<close>

definition step_refused :: "plan_step \<Rightarrow> step_state \<Rightarrow> step_state_refused" where
  "step_refused s n = \<lparr>refused_step = ps_key s, step_from = ps_state s, step_to = n\<rparr>"

definition move_to :: "plan_step \<Rightarrow> step_state \<Rightarrow> (plan_step, step_state_refused) result" where
  "move_to s n =
     (if \<not> step_can_become (ps_state s) n then Err (step_refused s n)
      else Ok (s\<lparr>ps_state := n\<rparr>))"

definition step_start :: "plan_step \<Rightarrow> timestamp \<Rightarrow> (plan_step, step_state_refused) result" where
  "step_start s at =
     (case move_to s StepRunning of
        Err e \<Rightarrow> Err e
      | Ok s' \<Rightarrow> Ok (s'\<lparr>ps_attempts := saturating_add (ps_attempts s') 1,
                       ps_started_at := Some at, ps_finished_at := None\<rparr>))"

definition step_preempt :: "plan_step \<Rightarrow> (plan_step, step_state_refused) result" where
  "step_preempt s =
     (case move_to s Pending of
        Err e \<Rightarrow> Err e
      | Ok s' \<Rightarrow> Ok (s'\<lparr>ps_attempts := saturating_sub (ps_attempts s') 1,
                       ps_started_at := None\<rparr>))"

fun outcome_state :: "outcome_kind \<Rightarrow> step_state" where
  "outcome_state OutcomeCompleted = StepCompleted"
| "outcome_state OutcomeFailed = StepFailed"
| "outcome_state NeedsApproval = StepAwaitingApproval"

definition step_record ::
  "plan_step \<Rightarrow> step_outcome \<Rightarrow> timestamp \<Rightarrow> (plan_step, step_state_refused) result" where
  "step_record s r at =
     (let n = outcome_state (out_kind r) in
      if ps_state s \<noteq> StepRunning then Err (step_refused s n)
      else (case move_to s n of
              Err e \<Rightarrow> Err e
            | Ok s' \<Rightarrow>
                Ok (s'\<lparr>ps_summary := non_blank (Some (out_summary r)),
                       ps_failure :=
                         (case out_kind r of
                            OutcomeCompleted \<Rightarrow> None
                          | OutcomeFailed \<Rightarrow>
                              Some (case out_failure r of
                                      Some f \<Rightarrow> f | None \<Rightarrow> UNEXPLAINED_FAILURE)
                          | NeedsApproval \<Rightarrow> out_failure r),
                       ps_finished_at :=
                         (if n \<noteq> StepAwaitingApproval then Some at else None)\<rparr>)))"

definition step_fail ::
  "plan_step \<Rightarrow> ustr \<Rightarrow> timestamp \<Rightarrow> (plan_step, step_state_refused) result" where
  "step_fail s reason at =
     (case move_to s StepFailed of
        Err e \<Rightarrow> Err e
      | Ok s' \<Rightarrow>
          Ok (s'\<lparr>ps_failure := Some (case capped (Some reason) of
                                      Some f \<Rightarrow> f | None \<Rightarrow> UNEXPLAINED_FAILURE),
                 ps_finished_at := Some at\<rparr>))"

definition step_await_approval :: "plan_step \<Rightarrow> (plan_step, step_state_refused) result" where
  "step_await_approval s =
     (if ps_state s \<noteq> Pending then Err (step_refused s StepAwaitingApproval)
      else move_to s StepAwaitingApproval)"

definition step_skip :: "plan_step \<Rightarrow> timestamp \<Rightarrow> (plan_step, step_state_refused) result" where
  "step_skip s at =
     (case move_to s Skipped of
        Err e \<Rightarrow> Err e
      | Ok s' \<Rightarrow> Ok (s'\<lparr>ps_finished_at := Some at\<rparr>))"

lemmas step_ops = move_to_def step_start_def step_preempt_def step_record_def step_fail_def
  step_await_approval_def step_skip_def step_refused_def

declare step_ops [step_simps]

section \<open>The life of a step\<close>

inductive step_moves :: "plan_step \<Rightarrow> plan_step \<Rightarrow> bool" where
  start: "step_start s at = Ok s' \<Longrightarrow> step_moves s s'"
| preempt: "step_preempt s = Ok s' \<Longrightarrow> step_moves s s'"
| hand_back: "outcome_ok r \<Longrightarrow> step_record s r at = Ok s' \<Longrightarrow> step_moves s s'"
| fail: "step_fail s reason at = Ok s' \<Longrightarrow> step_moves s s'"
| await_approval: "step_await_approval s = Ok s' \<Longrightarrow> step_moves s s'"
| skip: "step_skip s at = Ok s' \<Longrightarrow> step_moves s s'"

inductive_cases step_movesE: "step_moves s s'"

definition step_text_ok :: "ustr option \<Rightarrow> bool" where
  "step_text_ok x =
     (case x of None \<Rightarrow> True
      | Some s \<Rightarrow> s \<noteq> [] \<and> trim s = s \<and> length s \<le> MAX_STEP_SUMMARY_CHARS)"

definition step_inv :: "plan_step \<Rightarrow> bool" where
  "step_inv s \<longleftrightarrow>
     (ps_finished_at s \<noteq> None \<longleftrightarrow> ps_state s \<in> {StepCompleted, StepFailed, Skipped}) \<and>
     (ps_state s \<in> {StepRunning, StepCompleted, StepFailed} \<longrightarrow>
        ps_started_at s \<noteq> None \<and> 0 < ps_attempts s) \<and>
     (ps_state s = Pending \<longrightarrow> ps_started_at s = None) \<and>
     (ps_state s = StepFailed \<longrightarrow> ps_failure s \<noteq> None) \<and>
     (ps_state s = StepCompleted \<longrightarrow> ps_failure s = None) \<and>
     step_text_ok (ps_summary s) \<and> step_text_ok (ps_failure s)"

lemma unexplained_ok: "step_text_ok (Some UNEXPLAINED_FAILURE)"
proof -
  have "trim UNEXPLAINED_FAILURE = UNEXPLAINED_FAILURE"
    by (rule trim_id) (simp_all add: UNEXPLAINED_FAILURE_def text_simps)
  then show ?thesis
    by (simp add: step_text_ok_def UNEXPLAINED_FAILURE_def MAX_STEP_SUMMARY_CHARS_def)
qed

lemma step_text_ok_capped: "step_text_ok (capped x)"
  by (auto simp: step_text_ok_def dest: capped_Some split: option.splits)

lemma step_text_ok_summary: "outcome_ok r \<Longrightarrow> step_text_ok (non_blank (Some (out_summary r)))"
  by (auto simp: step_text_ok_def non_blank_def outcome_ok_def)

lemma step_text_ok_failure: "outcome_ok r \<Longrightarrow> step_text_ok (out_failure r)"
  by (auto simp: step_text_ok_def outcome_ok_def split: option.splits)

lemma saturating_add_one_pos: "0 < saturating_add a (1 :: u32)"
  by (simp add: word_less_nat_alt unat_saturating_add)

text \<open>What each move writes, once it is allowed.\<close>

lemma step_start_Ok:
  "step_start s at = Ok s' \<longleftrightarrow>
     step_can_become (ps_state s) StepRunning \<and>
     s' = s\<lparr>ps_state := StepRunning, ps_attempts := saturating_add (ps_attempts s) 1,
            ps_started_at := Some at, ps_finished_at := None\<rparr>"
  by (auto simp: step_simps)

lemma step_preempt_Ok:
  "step_preempt s = Ok s' \<longleftrightarrow>
     ps_state s = StepRunning \<and>
     s' = s\<lparr>ps_state := Pending, ps_attempts := saturating_sub (ps_attempts s) 1,
            ps_started_at := None\<rparr>"
  by (cases "ps_state s") (auto simp: step_simps)

lemma step_record_Ok:
  "step_record s r at = Ok s' \<longleftrightarrow>
     ps_state s = StepRunning \<and>
     s' = s\<lparr>ps_state := outcome_state (out_kind r),
            ps_summary := non_blank (Some (out_summary r)),
            ps_failure :=
              (case out_kind r of
                 OutcomeCompleted \<Rightarrow> None
               | OutcomeFailed \<Rightarrow>
                   Some (case out_failure r of Some f \<Rightarrow> f | None \<Rightarrow> UNEXPLAINED_FAILURE)
               | NeedsApproval \<Rightarrow> out_failure r),
            ps_finished_at := (if out_kind r \<noteq> NeedsApproval then Some at else None)\<rparr>"
  by (cases "out_kind r") (auto simp: step_simps Let_def)

lemma step_fail_Ok:
  "step_fail s reason at = Ok s' \<longleftrightarrow>
     ps_state s = StepRunning \<and>
     s' = s\<lparr>ps_state := StepFailed,
            ps_failure := Some (case capped (Some reason) of
                                  Some f \<Rightarrow> f | None \<Rightarrow> UNEXPLAINED_FAILURE),
            ps_finished_at := Some at\<rparr>"
  by (auto simp: step_simps step_fails_from_running)

lemma step_await_approval_Ok:
  "step_await_approval s = Ok s' \<longleftrightarrow>
     ps_state s = Pending \<and> s' = s\<lparr>ps_state := StepAwaitingApproval\<rparr>"
  by (auto simp: step_simps)

lemma step_skip_Ok:
  "step_skip s at = Ok s' \<longleftrightarrow>
     step_can_become (ps_state s) Skipped \<and>
     s' = s\<lparr>ps_state := Skipped, ps_finished_at := Some at\<rparr>"
  by (auto simp: step_simps)

lemmas step_ops_Ok = step_start_Ok step_preempt_Ok step_record_Ok step_fail_Ok
  step_await_approval_Ok step_skip_Ok

lemma step_moves_inv:
  assumes "step_moves s s'" "step_inv s" shows "step_inv s'"
  using assms(1)
proof cases
  case (start at)
  with assms(2) show ?thesis
    by (simp add: step_start_Ok step_inv_def saturating_add_one_pos)
next
  case preempt
  with assms(2) show ?thesis by (simp add: step_preempt_Ok step_inv_def)
next
  case (hand_back r at)
  have "step_text_ok (non_blank (Some (out_summary r)))" "step_text_ok (out_failure r)"
    using hand_back(1) by (simp_all add: step_text_ok_summary step_text_ok_failure)
  moreover have "step_text_ok None" by (simp add: step_text_ok_def)
  ultimately show ?thesis
    using hand_back assms(2) unexplained_ok
    by (cases "out_kind r"; cases "out_failure r") (simp_all add: step_record_Ok step_inv_def)
next
  case (fail reason at)
  have "step_text_ok (Some (case capped (Some reason) of Some f \<Rightarrow> f | None \<Rightarrow> UNEXPLAINED_FAILURE))"
    using unexplained_ok step_text_ok_capped [of "Some reason"] by (auto split: option.splits)
  with fail assms(2) show ?thesis by (simp add: step_fail_Ok step_inv_def)
next
  case await_approval
  with assms(2) show ?thesis by (simp add: step_await_approval_Ok step_inv_def)
next
  case (skip at)
  with assms(2) show ?thesis by (simp add: step_skip_Ok step_inv_def)
qed

lemma step_moves_frame:
  "step_moves s s' \<Longrightarrow>
     ps_task_id s' = ps_task_id s \<and> ps_key s' = ps_key s \<and> ps_ordinal s' = ps_ordinal s \<and>
     ps_role s' = ps_role s \<and> ps_instructions s' = ps_instructions s \<and>
     ps_inputs s' = ps_inputs s \<and> ps_depends_on s' = ps_depends_on s \<and>
     ps_acceptance s' = ps_acceptance s \<and> ps_agent s' = ps_agent s"
  by (elim step_movesE) (simp_all add: step_ops_Ok)

lemma outcome_state_from_running: "step_can_become StepRunning (outcome_state k)"
  by (cases k) simp_all

lemma step_moves_allowed: "step_moves s s' \<Longrightarrow> step_can_become (ps_state s) (ps_state s')"
  by (elim step_movesE)
     (simp_all add: step_ops_Ok outcome_state_from_running del: step_can_become.simps(2),
      simp_all)

lemma step_settled_stays:
  "step_moves s s' \<Longrightarrow> ps_state s \<noteq> StepCompleted \<and> ps_state s \<noteq> Skipped"
  by (drule step_moves_allowed) auto

text \<open>A pre-emption gives its attempt back.\<close>

lemma saturating_add_sub: "unat a + 1 < 2 ^ 32 \<Longrightarrow> saturating_sub (saturating_add a 1) 1 = (a :: u32)"
  by (simp add: word_unat_eq_iff unat_saturating_sub unat_saturating_add)

lemma preempt_after_start:
  assumes "step_start s at = Ok s1" "step_preempt s1 = Ok s2" "unat (ps_attempts s) + 1 < 2 ^ 32"
  shows "ps_attempts s2 = ps_attempts s \<and> ps_state s2 = Pending \<and> ps_started_at s2 = None \<and>
    ps_finished_at s2 = None"
  using assms by (simp add: step_start_Ok step_preempt_Ok saturating_add_sub)

section \<open>Stored steps\<close>

text \<open>The columns of a step, as the store writes them.\<close>

definition step_parts :: "plan_step \<Rightarrow> plan_step_parts" where
  "step_parts s =
     \<lparr>sp_task_id = ps_task_id s, sp_key = ps_key s, sp_ordinal = ps_ordinal s,
      sp_role = ps_role s, sp_instructions = ps_instructions s, sp_inputs = ps_inputs s,
      sp_depends_on = ps_depends_on s, sp_acceptance = ps_acceptance s, sp_state = ps_state s,
      sp_attempts = ps_attempts s, sp_summary = ps_summary s, sp_failure = ps_failure s,
      sp_started_at = ps_started_at s, sp_finished_at = ps_finished_at s, sp_agent = ps_agent s\<rparr>"

definition step_wf :: "plan_step \<Rightarrow> bool" where
  "step_wf s \<longleftrightarrow>
     valid_step_key (ps_key s) \<and> list_all valid_step_key (ps_depends_on s) \<and>
     ps_role s \<noteq> [] \<and> trim (ps_role s) = ps_role s \<and>
     ps_instructions s \<noteq> [] \<and> trim (ps_instructions s) = ps_instructions s \<and>
     id_list_ok (ps_inputs s) \<and>
     (case ps_acceptance s of None \<Rightarrow> True | Some a \<Rightarrow> a \<noteq> [] \<and> trim a = a) \<and>
     step_text_ok (ps_summary s) \<and> step_text_ok (ps_failure s) \<and>
     (case ps_agent s of None \<Rightarrow> True | Some a \<Rightarrow> agent_cleaned a = Some a)"

lemma try_map_valid_keys:
  "list_all valid_step_key ks \<Longrightarrow> try_map step_key_parse ks = Ok ks"
  using try_map_all_Ok [of ks step_key_parse "\<lambda>k. k"] step_key_parse_valid
  by (simp add: list_all_iff)

lemma clean_ids_ok: "id_list_ok ids \<Longrightarrow> clean_ids ids = ids"
  unfolding clean_ids_def id_list_ok_def
  by (subst clean_ids_onto_fixed) (auto simp: list_all_iff)

lemma capped_ok: "step_text_ok x \<Longrightarrow> capped x = x"
  by (auto simp: step_text_ok_def capped_def non_blank_def cap_text_short split: option.splits)

lemma step_parts_roundtrip_aux: "step_wf s \<Longrightarrow> step_from_parts (step_parts s) = Ok s"
  by (auto simp: step_wf_def step_from_parts_def step_parts_def step_key_parse_valid
      try_map_valid_keys clean_ids_ok capped_ok non_blank_def split: option.splits)

lemma step_moves_wf: "step_moves s s' \<Longrightarrow> step_inv s \<Longrightarrow> step_wf s \<Longrightarrow> step_wf s'"
  using step_moves_inv step_moves_frame
  by (auto simp: step_wf_def step_inv_def)

lemma step_moves_rtrancl:
  assumes "step_moves\<^sup>*\<^sup>* s s'" "step_inv s"
  shows "step_inv s' \<and> ps_task_id s' = ps_task_id s \<and> ps_key s' = ps_key s \<and>
    ps_ordinal s' = ps_ordinal s \<and> ps_depends_on s' = ps_depends_on s \<and>
    ps_instructions s' = ps_instructions s \<and>
    (ps_state s \<in> {StepCompleted, Skipped} \<longrightarrow> s' = s)"
  using assms
proof (induction rule: rtranclp_induct)
  case base
  then show ?case by simp
next
  case (step y z)
  then show ?case
    using step_moves_inv [OF step(2)] step_moves_frame [OF step(2)] step_settled_stays [OF step(2)]
    by auto
qed

section \<open>A step as an example\<close>

definition example_step :: plan_step where
  "example_step =
     \<lparr>ps_task_id = lit ''t1'', ps_key = lit ''find'', ps_ordinal = 1, ps_role = lit ''long-task-worker'',
      ps_instructions = lit ''find hotels'', ps_inputs = [], ps_depends_on = [],
      ps_acceptance = None, ps_state = Pending, ps_attempts = 0, ps_summary = None,
      ps_failure = None, ps_started_at = None, ps_finished_at = None, ps_agent = None\<rparr>"

definition example_running :: plan_step where
  "example_running = example_step\<lparr>ps_state := StepRunning, ps_attempts := 1, ps_started_at := Some 5\<rparr>"

lemma example_step_start: "step_start example_step 5 = Ok example_running"
  by (simp add: step_start_Ok example_step_def example_running_def saturating_add_def)

lemma example_step_inv: "step_inv example_step"
  by (simp add: step_inv_def example_step_def step_text_ok_def)

lemma example_step_wf: "step_wf example_step"
  by (simp add: step_wf_def example_step_def step_text_ok_def valid_step_key_def key_char_def
      id_list_ok_def MAX_STEP_KEY_CHARS_def text_simps)

section \<open>Properties\<close>

text \<open>
  Through any sequence of starts, pre-emptions, hand-backs, failures, waits for approval and
  skips a step stays consistent (a finish time exactly when it completed, failed or was
  skipped; a start time and a counted attempt whenever it runs or ran to an end; a reason on
  every failure and none on a completion; bounded text), keeps its identity, its instructions and its
  waits, and a completed or skipped step never changes again.
\<close>

theorem step_life_invariant:
  assumes "step_moves\<^sup>*\<^sup>* s s'" "step_inv s"
  shows "step_inv s' \<and> ps_task_id s' = ps_task_id s \<and> ps_key s' = ps_key s \<and>
    ps_ordinal s' = ps_ordinal s \<and> ps_depends_on s' = ps_depends_on s \<and>
    ps_instructions s' = ps_instructions s \<and>
    (ps_state s \<in> {StepCompleted, Skipped} \<longrightarrow> s' = s)"
  using assms by (rule step_moves_rtrancl)

theorem step_life_invariant_witness:
  "step_moves\<^sup>*\<^sup>* example_step example_running \<and> step_inv example_running"
proof -
  have "step_moves\<^sup>*\<^sup>* example_step example_running"
    using step_moves.start [OF example_step_start] by blast
  with step_life_invariant [OF this example_step_inv] show ?thesis by blast
qed

text \<open>
  A pre-empted run costs nothing: starting a step and pre-empting it leaves it pending with
  the attempts it had, not started and not finished.
\<close>

theorem preempt_returns_attempt:
  assumes "step_start s at = Ok s1" "step_preempt s1 = Ok s2" "unat (ps_attempts s) + 1 < 2 ^ 32"
  shows "ps_attempts s2 = ps_attempts s \<and> ps_state s2 = Pending \<and> ps_started_at s2 = None \<and>
    ps_finished_at s2 = None"
  using assms by (rule preempt_after_start)

theorem preempt_returns_attempt_witness:
  "\<exists>s2. step_preempt example_running = Ok s2 \<and> ps_attempts s2 = 0 \<and> ps_state s2 = Pending"
proof -
  obtain s2 where s2: "step_preempt example_running = Ok s2"
    by (auto simp: step_preempt_Ok example_running_def)
  from preempt_returns_attempt [OF example_step_start s2] s2 show ?thesis
    by (auto simp: example_step_def)
qed

text \<open>
  A hand-back settles a running step and only a running one: the step takes the state of the
  outcome, a failure always leaves a reason, and any other step refuses it and names both states.
\<close>

theorem hand_back_settles:
  "case step_record s r at of
     Ok s' \<Rightarrow> ps_state s = StepRunning \<and> ps_state s' = outcome_state (out_kind r) \<and>
       (out_kind r = OutcomeFailed \<longrightarrow> ps_failure s' \<noteq> None) \<and>
       (out_kind r = OutcomeCompleted \<longrightarrow> ps_failure s' = None) \<and>
       ps_attempts s' = ps_attempts s
   | Err e \<Rightarrow> ps_state s \<noteq> StepRunning \<and>
       e = \<lparr>refused_step = ps_key s, step_from = ps_state s, step_to = outcome_state (out_kind r)\<rparr>"
proof (cases "step_record s r at")
  case (Ok s')
  show ?thesis
    unfolding Ok using Ok [unfolded step_record_Ok] by (cases "out_kind r") simp_all
next
  case (Err e)
  then show ?thesis
    using outcome_state_from_running [of "out_kind r"]
    by (auto simp: step_record_def move_to_def step_refused_def Let_def
        simp del: step_can_become.simps split: if_splits)
qed

theorem hand_back_settles_witness:
  "\<exists>s'. step_record example_running example_outcome 9 = Ok s' \<and> ps_state s' = StepCompleted"
  using hand_back_settles [of example_running example_outcome 9]
  by (simp add: step_record_def move_to_def Let_def example_running_def example_outcome_def)

text \<open>
  A step written to its columns and rebuilt through \<open>from_parts\<close> is the same step, and every
  move keeps a step rebuildable.
\<close>

theorem step_parts_roundtrip:
  assumes "step_moves\<^sup>*\<^sup>* s s'" "step_inv s" "step_wf s"
  shows "step_from_parts (step_parts s') = Ok s'"
proof -
  have "step_inv s' \<and> step_wf s'"
    using assms by (induction rule: rtranclp_induct) (auto dest: step_moves_inv step_moves_wf)
  then show ?thesis by (simp add: step_parts_roundtrip_aux)
qed

theorem step_parts_roundtrip_witness:
  "step_from_parts (step_parts example_running) = Ok example_running"
  by (rule step_parts_roundtrip [OF _ example_step_inv example_step_wf])
     (use step_moves.start [OF example_step_start] in blast)

end
