(* ===== verification/Plan_Cycle.thy ===== *)
theory Plan_Cycle
  imports Plan_Step
begin

text \<open>
  The cycle check of a plan: \<open>find_cycle\<close> and the depth-first search \<open>visit\<close> of
  \<open>pond-core/src/shared/domain/long_task.rs\<close>. The search keeps a mark per step and the path from
  the start; both are threaded through as state. It is total (the number of unvisited steps
  bounds its depth), it reports a cycle exactly when the waits of the steps have one, and what it
  reports is a real cycle.
\<close>

datatype mark = Unvisited | OnPath | Done

type_synonym dep_index = "ustr \<Rightarrow> nat option"

text \<open>
  \<open>HashMap<&str, usize>\<close> from key to position, collected in order: a later equal key replaces an
  earlier one.
\<close>

definition step_index :: "plan_step list \<Rightarrow> dep_index" where
  "step_index steps = map_of (rev (zip (map ps_key steps) [0..<length steps]))"

fun position :: "('a \<Rightarrow> bool) \<Rightarrow> 'a list \<Rightarrow> nat option" where
  "position p [] = None"
| "position p (x # xs) = (if p x then Some 0 else map_option Suc (position p xs))"

definition cycle_at :: "plan_step list \<Rightarrow> nat list \<Rightarrow> nat \<Rightarrow> ustr list option" where
  "cycle_at steps path at =
     map_option
       (\<lambda>k. map (\<lambda>i. ps_key (steps ! i)) (drop k path) @ [ps_key (steps ! at)])
       (position (\<lambda>i. i = at) path)"

definition unvisited :: "mark list \<Rightarrow> nat" where
  "unvisited marks = length (filter (\<lambda>m. m = Unvisited) marks)"

text \<open>
  \<open>visit\<close> and its loop over the waits of one step. Every position handed to \<open>visit\<close> comes from the
  index, so it is in range (\<open>step_index_range\<close>); the first test only makes the function total.
\<close>

function (sequential) visit ::
    "plan_step list \<Rightarrow> dep_index \<Rightarrow> nat \<Rightarrow> mark list \<Rightarrow> nat list
       \<Rightarrow> ustr list option \<times> mark list \<times> nat list"
  and visit_deps ::
    "plan_step list \<Rightarrow> dep_index \<Rightarrow> step_key list \<Rightarrow> mark list \<Rightarrow> nat list
       \<Rightarrow> ustr list option \<times> mark list \<times> nat list"
  where
  "visit steps index at marks path =
     (if \<not> at < length marks then (None, marks, path)
      else case marks ! at of
        Done \<Rightarrow> (None, marks, path)
      | OnPath \<Rightarrow> (cycle_at steps path at, marks, path)
      | Unvisited \<Rightarrow>
          (case visit_deps steps index (ps_depends_on (steps ! at)) (marks[at := OnPath])
                  (path @ [at]) of
             (Some c, marks', path') \<Rightarrow> (Some c, marks', path')
           | (None, marks', path') \<Rightarrow> (None, marks'[at := Done], butlast path')))"
| "visit_deps steps index [] marks path = (None, marks, path)"
| "visit_deps steps index (d # ds) marks path =
     (case index d of
        None \<Rightarrow> visit_deps steps index ds marks path
      | Some n \<Rightarrow>
          (case visit steps index n marks path of
             (Some c, marks', path') \<Rightarrow> (Some c, marks', path')
           | (None, marks', path') \<Rightarrow> visit_deps steps index ds marks' path'))"
  by pat_completeness auto

lemma length_filter_update_le:
  "\<not> P y \<Longrightarrow> length (filter P (xs[i := y])) \<le> length (filter P xs)"
  by (induction xs arbitrary: i) (auto split: nat.splits intro: le_SucI)

lemma length_filter_update_less:
  "i < length xs \<Longrightarrow> P (xs ! i) \<Longrightarrow> \<not> P y \<Longrightarrow> length (filter P (xs[i := y])) < length (filter P xs)"
proof (induction xs arbitrary: i)
  case (Cons x xs)
  then show ?case by (cases i) auto
qed simp

lemma unvisited_update_le: "m \<noteq> Unvisited \<Longrightarrow> unvisited (marks[i := m]) \<le> unvisited marks"
  by (simp add: unvisited_def length_filter_update_le)

lemma unvisited_update_less:
  "i < length marks \<Longrightarrow> marks ! i = Unvisited \<Longrightarrow> m \<noteq> Unvisited \<Longrightarrow>
     unvisited (marks[i := m]) < unvisited marks"
  by (simp add: unvisited_def length_filter_update_less)

lemma visit_shrinks_dom:
  "visit_visit_deps_dom (Inl (steps, index, at, marks, path)) \<Longrightarrow>
     unvisited (fst (snd (visit steps index at marks path))) \<le> unvisited marks"
  "visit_visit_deps_dom (Inr (steps, index, ds, marks, path)) \<Longrightarrow>
     unvisited (fst (snd (visit_deps steps index ds marks path))) \<le> unvisited marks"
proof (induction steps index at marks path and steps index ds marks path
    rule: visit_visit_deps.pinduct)
  case (1 steps index at marks path)
  then show ?case
    by (simp add: visit.psimps split: mark.splits option.splits prod.splits)
       (metis (no_types, lifting) fst_conv mark.distinct(1) mark.distinct(3) order_trans
         snd_conv unvisited_update_le)
next
  case (2 steps index marks path)
  then show ?case by (simp add: visit_deps.psimps)
next
  case (3 steps index d ds marks path)
  then show ?case
    by (simp add: visit_deps.psimps split: option.splits prod.splits)
       (metis (no_types, lifting) fst_conv le_trans snd_conv)
qed

lemma visit_shrinks_eq:
  "(r, a, b) = visit steps index at marks path \<Longrightarrow>
     visit_visit_deps_dom (Inl (steps, index, at, marks, path)) \<Longrightarrow>
     unvisited a \<noteq> unvisited marks \<Longrightarrow> unvisited a < unvisited marks"
  using visit_shrinks_dom(1) [of steps index at marks path] by (metis fst_conv nat_less_le snd_conv)

termination visit
proof (relation "inv_image (less_than <*lex*> less_than)
    (\<lambda>x. case x of Inl (_, _, _, marks, _) \<Rightarrow> (unvisited marks, 0)
                 | Inr (_, _, ds, marks, _) \<Rightarrow> (unvisited marks, Suc (length ds)))")
  show "wf (inv_image (less_than <*lex*> less_than)
    (\<lambda>x. case x of Inl (_, _, _, marks, _) \<Rightarrow> (unvisited marks, 0 :: nat)
                 | Inr (_, _, ds, marks, _) \<Rightarrow> (unvisited marks, Suc (length ds))))"
    by (auto intro!: wf_inv_image)
qed (auto simp: unvisited_update_less intro: visit_shrinks_eq)

declare visit.simps [simp del]

text \<open>\<open>(0..steps.len()).find_map(|start| visit(start, ...))\<close>.\<close>

fun find_cycle_from ::
  "plan_step list \<Rightarrow> dep_index \<Rightarrow> nat list \<Rightarrow> mark list \<Rightarrow> nat list \<Rightarrow> ustr list option" where
  "find_cycle_from steps index [] marks path = None"
| "find_cycle_from steps index (start # starts) marks path =
     (case visit steps index start marks path of
        (Some c, _, _) \<Rightarrow> Some c
      | (None, marks', path') \<Rightarrow> find_cycle_from steps index starts marks' path')"

definition find_cycle :: "plan_step list \<Rightarrow> ustr list option" where
  "find_cycle steps =
     find_cycle_from steps (step_index steps) [0..<length steps]
       (replicate (length steps) Unvisited) []"

section \<open>The graph of waits\<close>

definition wait_edges :: "plan_step list \<Rightarrow> dep_index \<Rightarrow> (nat \<times> nat) set" where
  "wait_edges steps index =
     {(i, j). i < length steps \<and> (\<exists>d \<in> set (ps_depends_on (steps ! i)). index d = Some j)}"

definition walk :: "('a \<times> 'a) set \<Rightarrow> 'a list \<Rightarrow> bool" where
  "walk E xs \<longleftrightarrow> (\<forall>k. Suc k < length xs \<longrightarrow> (xs ! k, xs ! Suc k) \<in> E)"

definition index_in_range :: "plan_step list \<Rightarrow> dep_index \<Rightarrow> bool" where
  "index_in_range steps index \<longleftrightarrow> (\<forall>d n. index d = Some n \<longrightarrow> n < length steps)"

lemma step_index_range: "index_in_range steps (step_index steps)"
  by (auto simp: index_in_range_def step_index_def dest!: map_of_SomeD set_zip_rightD)

lemma walk_Nil [simp]: "walk E []" and walk_single [simp]: "walk E [x]"
  by (simp_all add: walk_def)

lemma walk_snoc: "walk E (xs @ [x]) \<longleftrightarrow> walk E xs \<and> (xs \<noteq> [] \<longrightarrow> (last xs, x) \<in> E)"
proof (cases xs rule: rev_cases)
  case (snoc ys y)
  show ?thesis
  proof
    assume w: "walk E (xs @ [x])"
    have "walk E xs" unfolding walk_def
    proof (intro allI impI)
      fix k assume "Suc k < length xs"
      then show "(xs ! k, xs ! Suc k) \<in> E"
        using w [unfolded walk_def, rule_format, of k] by (simp add: nth_append)
    qed
    moreover have "(last xs, x) \<in> E"
      using w [unfolded walk_def, rule_format, of "length ys"] snoc by (simp add: nth_append)
    ultimately show "walk E xs \<and> (xs \<noteq> [] \<longrightarrow> (last xs, x) \<in> E)" by simp
  next
    assume w: "walk E xs \<and> (xs \<noteq> [] \<longrightarrow> (last xs, x) \<in> E)"
    show "walk E (xs @ [x])" unfolding walk_def
    proof (intro allI impI)
      fix k assume "Suc k < length (xs @ [x])"
      then show "((xs @ [x]) ! k, (xs @ [x]) ! Suc k) \<in> E"
        using w snoc by (cases "Suc k < length xs") (auto simp: walk_def nth_append less_Suc_eq)
    qed
  qed
qed simp

lemma walk_drop: "walk E xs \<Longrightarrow> walk E (drop n xs)"
  by (simp add: walk_def)

lemma walk_trancl: "walk E (x # xs @ [y]) \<Longrightarrow> (x, y) \<in> E\<^sup>+"
proof (induction xs arbitrary: y rule: rev_induct)
  case Nil
  then show ?case by (auto simp: walk_def)
next
  case (snoc z zs)
  then have "walk E ((x # zs @ [z]) @ [y])" by simp
  then have "walk E (x # zs @ [z])" "(z, y) \<in> E"
    unfolding walk_snoc by simp_all
  then show ?case using snoc.IH by (meson trancl.trancl_into_trancl)
qed

lemma position_Some:
  "position p xs = Some i \<Longrightarrow> i < length xs \<and> p (xs ! i) \<and> (\<forall>j < i. \<not> p (xs ! j))"
proof (induction xs arbitrary: i)
  case (Cons x xs)
  show ?case
  proof (cases "p x")
    case False
    with Cons.prems obtain k where k: "position p xs = Some k" "i = Suc k" by auto
    with Cons.IH [OF k(1)] False show ?thesis by (auto simp: less_Suc_eq_0_disj)
  qed (use Cons.prems in auto)
qed simp

lemma position_None_iff: "position p xs = None \<longleftrightarrow> (\<forall>x \<in> set xs. \<not> p x)"
  by (induction xs) auto

section \<open>Correctness of the search\<close>

definition done_set :: "mark list \<Rightarrow> nat set" where
  "done_set marks = {i. i < length marks \<and> marks ! i = Done}"

text \<open>
  The invariant of the search: the path holds exactly the steps marked \<open>OnPath\<close>, in walking order,
  and the finished steps wait only for finished steps and lie on no cycle.
\<close>

definition dfs_inv :: "plan_step list \<Rightarrow> dep_index \<Rightarrow> mark list \<Rightarrow> nat list \<Rightarrow> bool" where
  "dfs_inv steps index marks path \<longleftrightarrow>
     length marks = length steps \<and> distinct path \<and>
     set path = {i. i < length marks \<and> marks ! i = OnPath} \<and>
     walk (wait_edges steps index) path \<and>
     wait_edges steps index `` done_set marks \<subseteq> done_set marks \<and>
     (\<forall>i \<in> done_set marks. (i, i) \<notin> (wait_edges steps index)\<^sup>+)"

definition real_cycle :: "plan_step list \<Rightarrow> dep_index \<Rightarrow> ustr list \<Rightarrow> bool" where
  "real_cycle steps index c \<longleftrightarrow>
     (\<exists>x xs. walk (wait_edges steps index) (x # xs @ [x]) \<and>
        c = map (\<lambda>i. ps_key (steps ! i)) (x # xs @ [x]))"

text \<open>What one search reports, started from position \<open>at\<close> or from the waits \<open>ds\<close>.\<close>

definition visit_post ::
  "plan_step list \<Rightarrow> dep_index \<Rightarrow> nat set \<Rightarrow> mark list \<Rightarrow> nat list
     \<Rightarrow> ustr list option \<times> mark list \<times> nat list \<Rightarrow> bool" where
  "visit_post steps index targets marks path res =
     (case res of
        (Some c, _, _) \<Rightarrow> real_cycle steps index c
      | (None, marks', path') \<Rightarrow>
          dfs_inv steps index marks' path' \<and> path' = path \<and>
          done_set marks \<subseteq> done_set marks' \<and> targets \<subseteq> done_set marks')"

lemma cycle_at_real:
  assumes "dfs_inv steps index marks path" "at \<in> set path"
    "(last path, at) \<in> wait_edges steps index"
  shows "\<exists>c. cycle_at steps path at = Some c \<and> real_cycle steps index c"
proof -
  obtain k0 where k0: "position (\<lambda>i. i = at) path = Some k0"
    using assms(2) by (cases "position (\<lambda>i. i = at) path") (auto simp: position_None_iff)
  then have lt: "k0 < length path" and at: "path ! k0 = at"
    using position_Some by fastforce+
  define rest where "rest = drop (Suc k0) path"
  have drop: "drop k0 path = at # rest"
    using Cons_nth_drop_Suc [OF lt] at by (simp add: rest_def)
  have "walk (wait_edges steps index) (at # rest)"
    using assms(1) drop by (metis dfs_inv_def walk_drop)
  moreover have "last (at # rest) = last path"
    using lt drop by (metis last_drop)
  ultimately have "walk (wait_edges steps index) ((at # rest) @ [at])"
    unfolding walk_snoc using assms(3) by simp
  then show ?thesis
    using k0 drop by (auto simp: cycle_at_def real_cycle_def)
qed

lemma enter_inv:
  assumes "dfs_inv steps index marks path" "at < length marks" "marks ! at = Unvisited"
    "path \<noteq> [] \<longrightarrow> (last path, at) \<in> wait_edges steps index"
  shows "dfs_inv steps index (marks[at := OnPath]) (path @ [at])"
    "done_set (marks[at := OnPath]) = done_set marks"
proof -
  show d: "done_set (marks[at := OnPath]) = done_set marks"
    using assms(2,3) by (auto simp: done_set_def nth_list_update)
  have "at \<notin> set path"
    using assms(1,3) by (auto simp: dfs_inv_def)
  then show "dfs_inv steps index (marks[at := OnPath]) (path @ [at])"
    using assms d by (auto simp: dfs_inv_def walk_snoc nth_list_update)
qed

lemma closed_trancl:
  assumes "(i, j) \<in> E\<^sup>+" "i \<in> D" "E `` D \<subseteq> D"
  shows "j \<in> D"
  using assms(1,2) by (induction rule: trancl_induct) (use assms(3) in blast)+

lemma leave_inv:
  assumes inv: "dfs_inv steps index marks (path @ [at])"
    and deps: "wait_edges steps index `` {at} \<subseteq> done_set marks"
  shows "dfs_inv steps index (marks[at := Done]) path"
    and "done_set (marks[at := Done]) = insert at (done_set marks)"
proof -
  let ?E = "wait_edges steps index"
  have at: "at < length marks" "marks ! at = OnPath" "at \<notin> set path"
    using inv by (auto simp: dfs_inv_def)
  show d: "done_set (marks[at := Done]) = insert at (done_set marks)"
    using at(1) by (auto simp: done_set_def nth_list_update)
  have closed: "?E `` done_set marks \<subseteq> done_set marks"
    and acyc: "\<forall>i \<in> done_set marks. (i, i) \<notin> ?E\<^sup>+"
    using inv by (auto simp: dfs_inv_def)
  have "at \<notin> done_set marks" using at(2) by (auto simp: done_set_def)
  have "(at, at) \<notin> ?E\<^sup>+"
  proof
    assume "(at, at) \<in> ?E\<^sup>+"
    then obtain j where j: "(at, j) \<in> ?E" "j = at \<or> (j, at) \<in> ?E\<^sup>+"
      by (meson tranclD rtrancl_eq_or_trancl)
    then have "j \<in> done_set marks" using deps by blast
    then have "at \<in> done_set marks" using j(2) closed_trancl [OF _ _ closed] by blast
    with \<open>at \<notin> done_set marks\<close> show False ..
  qed
  with acyc have "\<forall>i \<in> insert at (done_set marks). (i, i) \<notin> ?E\<^sup>+" by blast
  moreover have "?E `` insert at (done_set marks) \<subseteq> insert at (done_set marks)"
    using closed deps by blast
  moreover have "set path = {i. i < length marks \<and> marks[at := Done] ! i = OnPath}"
    using inv at by (auto simp: dfs_inv_def nth_list_update)
  ultimately show "dfs_inv steps index (marks[at := Done]) path"
    using inv d by (simp add: dfs_inv_def walk_snoc)
qed

lemma visit_correct:
  assumes range: "index_in_range steps index"
  shows "dfs_inv steps index marks path \<Longrightarrow> at < length steps \<Longrightarrow>
      (path \<noteq> [] \<longrightarrow> (last path, at) \<in> wait_edges steps index) \<Longrightarrow>
      visit_post steps index {at} marks path (visit steps index at marks path)"
    and "dfs_inv steps index marks path \<Longrightarrow> path \<noteq> [] \<Longrightarrow>
      set ds \<subseteq> set (ps_depends_on (steps ! last path)) \<Longrightarrow>
      visit_post steps index {j. \<exists>d \<in> set ds. index d = Some j} marks path
        (visit_deps steps index ds marks path)"
  using range
proof (induction steps index at marks path and steps index ds marks path
    rule: visit_visit_deps.induct)
  case (1 steps index at marks path)
  have at: "at < length marks" using 1(2,3) by (simp add: dfs_inv_def)
  show ?case
  proof (cases "marks ! at")
    case Unvisited
    let ?deps = "ps_depends_on (steps ! at)"
    let ?res = "visit_deps steps index ?deps (marks[at := OnPath]) (path @ [at])"
    note enter = enter_inv [OF 1(2) at Unvisited 1(4)]
    have post: "visit_post steps index {j. \<exists>d \<in> set ?deps. index d = Some j}
        (marks[at := OnPath]) (path @ [at]) ?res"
      using 1(1) [OF _ Unvisited enter(1)] at 1(5) by simp
    have succ: "wait_edges steps index `` {at} = {j. \<exists>d \<in> set ?deps. index d = Some j}"
      using 1(3) by (auto simp: wait_edges_def)
    obtain r marks' path' where res: "?res = (r, marks', path')" by (cases ?res)
    show ?thesis
    proof (cases r)
      case None
      with post res have inv: "dfs_inv steps index marks' (path @ [at])" "path' = path @ [at]"
        "done_set marks \<subseteq> done_set marks'" "wait_edges steps index `` {at} \<subseteq> done_set marks'"
        using succ enter(2) by (auto simp: visit_post_def)
      show ?thesis
        using leave_inv [OF inv(1,4)] inv(2,3) res None at Unvisited
        by (auto simp: visit.simps [of steps index at] visit_post_def)
    next
      case (Some c)
      then show ?thesis
        using post res at Unvisited by (simp add: visit.simps [of steps index at] visit_post_def)
    qed
  next
    case OnPath
    have "at \<in> set path" using 1(2) at OnPath by (auto simp: dfs_inv_def)
    then obtain c where "cycle_at steps path at = Some c" "real_cycle steps index c"
      using cycle_at_real [OF 1(2)] 1(4) by force
    then show ?thesis
      using at OnPath by (simp add: visit.simps [of steps index at] visit_post_def)
  next
    case Done
    then show ?thesis
      using at 1(2) by (simp add: visit.simps [of steps index at] visit_post_def done_set_def)
  qed
next
  case (2 steps index marks path)
  then show ?case by (simp add: visit_post_def)
next
  case (3 steps index d ds marks path)
  show ?case
  proof (cases "index d")
    case None
    then show ?thesis using 3(1) [OF None] 3(4-7) None by simp
  next
    case (Some n)
    have n: "n < length steps" using 3(7) Some by (auto simp: index_in_range_def)
    have lt: "last path < length steps" using 3(4,5) by (auto simp: dfs_inv_def)
    have edge: "(last path, n) \<in> wait_edges steps index"
      using 3(6) Some lt by (auto simp: wait_edges_def)
    have post: "visit_post steps index {n} marks path (visit steps index n marks path)"
      using 3(2) [OF Some 3(4) n] edge 3(7) by simp
    obtain r marks' path' where res: "visit steps index n marks path = (r, marks', path')"
      by (cases "visit steps index n marks path")
    show ?thesis
    proof (cases r)
      case None
      with post res have inv: "dfs_inv steps index marks' path" "path' = path"
        "done_set marks \<subseteq> done_set marks'" "n \<in> done_set marks'"
        by (auto simp: visit_post_def)
      have rest: "visit_post steps index {j. \<exists>d \<in> set ds. index d = Some j} marks' path
          (visit_deps steps index ds marks' path)"
        using 3(3) [OF Some, of r "(marks', path')" marks' path'] None res inv 3(5-7) by simp
      then show ?thesis
        using inv Some None res by (auto simp: visit_post_def split: prod.splits option.splits)
    next
      case (Some c)
      then show ?thesis using post res \<open>index d = Some n\<close> by (simp add: visit_post_def)
    qed
  qed
qed

lemma find_cycle_from_correct:
  assumes "index_in_range steps index" "dfs_inv steps index marks []"
    "set starts \<subseteq> {..<length steps}"
  shows "case find_cycle_from steps index starts marks [] of
      Some c \<Rightarrow> real_cycle steps index c
    | None \<Rightarrow> \<exists>marks'. dfs_inv steps index marks' [] \<and> done_set marks \<subseteq> done_set marks' \<and>
        set starts \<subseteq> done_set marks'"
  using assms(2,3)
proof (induction starts arbitrary: marks)
  case Nil
  then show ?case by auto
next
  case (Cons start starts)
  have post: "visit_post steps index {start} marks [] (visit steps index start marks [])"
    using visit_correct(1) [OF assms(1) Cons.prems(1), of start] Cons.prems(2) by simp
  obtain r marks' path' where res: "visit steps index start marks [] = (r, marks', path')"
    by (cases "visit steps index start marks []")
  show ?case
  proof (cases r)
    case None
    with post res have inv: "dfs_inv steps index marks' []" "path' = []"
      "done_set marks \<subseteq> done_set marks'" "start \<in> done_set marks'"
      by (auto simp: visit_post_def)
    show ?thesis
      using Cons.IH [OF inv(1)] Cons.prems(2) inv res None
      by (auto split: option.splits)
  next
    case (Some c)
    then show ?thesis using post res by (simp add: visit_post_def)
  qed
qed

lemma find_cycle_correct:
  "case find_cycle steps of
     Some c \<Rightarrow> real_cycle steps (step_index steps) c
   | None \<Rightarrow> acyclic (wait_edges steps (step_index steps))"
proof -
  let ?E = "wait_edges steps (step_index steps)"
  let ?marks = "replicate (length steps) Unvisited"
  have start: "dfs_inv steps (step_index steps) ?marks []"
    by (auto simp: dfs_inv_def done_set_def)
  note correct = find_cycle_from_correct [OF step_index_range start, of "[0..<length steps]"]
  show ?thesis
  proof (cases "find_cycle steps")
    case (Some c)
    then show ?thesis using correct by (simp add: find_cycle_def atLeast0LessThan)
  next
    case None
    then obtain marks' where inv: "dfs_inv steps (step_index steps) marks' []"
      and all: "{..<length steps} \<subseteq> done_set marks'"
      using correct by (auto simp: find_cycle_def atLeast0LessThan)
    have "(i, i) \<notin> ?E\<^sup>+" for i
    proof
      assume cyc: "(i, i) \<in> ?E\<^sup>+"
      then obtain j where "(i, j) \<in> ?E" by (meson tranclD)
      then have "i \<in> done_set marks'" using all by (auto simp: wait_edges_def)
      with inv cyc show False by (auto simp: dfs_inv_def)
    qed
    then show ?thesis using None by (simp add: acyclic_def)
  qed
qed

lemma real_cycle_trancl: "real_cycle steps index c \<Longrightarrow> \<not> acyclic (wait_edges steps index)"
  by (auto simp: real_cycle_def acyclic_def dest!: walk_trancl)

lemma find_cycle_None_iff:
  "find_cycle steps = None \<longleftrightarrow> acyclic (wait_edges steps (step_index steps))"
  using find_cycle_correct [of steps] real_cycle_trancl
  by (auto split: option.splits)

section \<open>Properties\<close>

text \<open>
  C19: The cycle check is right: it always returns, reports nothing exactly when the waits between
  the steps have no circle, and what it reports is a circle of the plan: the keys of steps that
  wait on each other in turn, closed by the key it started from.
\<close>

theorem find_cycle_exact:
  "case find_cycle steps of
     Some c \<Rightarrow> real_cycle steps (step_index steps) c \<and>
       \<not> acyclic (wait_edges steps (step_index steps))
   | None \<Rightarrow> acyclic (wait_edges steps (step_index steps))"
  using find_cycle_correct [of steps] real_cycle_trancl by (auto split: option.splits)

end
