(* ===== verification/Plan_Validation.thy ===== *)
theory Plan_Validation
  imports Long_Task Plan_Cycle
begin

text \<open>
  Checking a plan: \<open>validate_plan\<close>, \<open>validate_appended_step\<close>, \<open>ValidatedPlan::check_current\<close> and
  their errors (\<open>pond-core/src/shared/domain/long_task.rs\<close>). \<open>plan_ok\<close> states what a plan promises
  its store and its runner: bounded, keyed apart, waiting only for known steps, without a circle.
\<close>

record relaxed_wait =
  relaxed_step :: ustr
  relaxed_missing :: ustr

record validated_plan =
  vp_task_id :: ustr
  vp_steps :: "plan_step list"
  vp_kept :: "step_key list"
  vp_relaxed :: "relaxed_wait list"

record stale_plan =
  stale_task_id :: ustr
  stale_step :: ustr
  stale_now :: "step_state option"

section \<open>The pieces of \<open>validate_plan\<close>\<close>

definition step_states :: "plan_step list \<Rightarrow> ustr \<Rightarrow> step_state option" where
  "step_states steps = map_of (rev (map (\<lambda>s. (ps_key s, ps_state s)) steps))"

definition kept_steps :: "plan_step list \<Rightarrow> plan_step list" where
  "kept_steps existing = sort_key ps_ordinal (filter (\<lambda>s. survives_replan (ps_state s)) existing)"

fun draft_keys ::
  "(ustr \<Rightarrow> step_state option) \<Rightarrow> step_key list \<Rightarrow> step_draft list
     \<Rightarrow> (step_key list, plan_error) result" where
  "draft_keys kept_states keys [] = Ok keys"
| "draft_keys kept_states keys (d # ds) =
     (case step_key_lenient (draft_key d) of
        Err e \<Rightarrow> Err e
      | Ok key \<Rightarrow>
          (case kept_states key of
             Some st \<Rightarrow> Err (RewritesSettledStep key st)
           | None \<Rightarrow>
               if key \<in> set keys then Err (DuplicateKey key)
               else draft_keys kept_states (keys @ [key]) ds))"

definition push_new :: "'a list \<Rightarrow> 'a \<Rightarrow> 'a list" where
  "push_new xs x = (if x \<in> set xs then xs else xs @ [x])"

definition known_dep :: "step_key list \<Rightarrow> ustr \<Rightarrow> step_key option" where
  "known_dep known raw =
     (if raw \<in> set known then Some raw
      else (case suggest_key raw of
              None \<Rightarrow> None
            | Some near \<Rightarrow> if near \<in> set known then Some near else None))"

fun resolve_waits ::
  "step_key \<Rightarrow> step_key list \<Rightarrow> step_key list \<Rightarrow> step_key list \<times> relaxed_wait list \<Rightarrow> ustr list
     \<Rightarrow> step_key list \<times> relaxed_wait list" where
  "resolve_waits key known earlier acc [] = acc"
| "resolve_waits key known earlier (deps, relaxed) (r # raws) =
     (let raw = trim r in
      if raw = [] then resolve_waits key known earlier (deps, relaxed) raws
      else (case known_dep known raw of
              None \<Rightarrow>
                resolve_waits key known earlier
                  (foldl push_new deps earlier,
                   relaxed @ [\<lparr>relaxed_step = key, relaxed_missing = raw\<rparr>]) raws
            | Some dep \<Rightarrow> resolve_waits key known earlier (push_new deps dep, relaxed) raws))"

definition draft_agent :: "step_draft \<Rightarrow> step_agent option" where
  "draft_agent d = Option.bind (draft_new_agent d) agent_cleaned"

definition draft_role_name :: "step_draft \<Rightarrow> ustr" where
  "draft_role_name d =
     (case draft_agent d of
        Some a \<Rightarrow> NEW_AGENT_PREFIX @ agent_name a
      | None \<Rightarrow> trim (draft_role d))"

definition new_step ::
  "ustr \<Rightarrow> step_key \<Rightarrow> u32 \<Rightarrow> ustr \<Rightarrow> step_draft \<Rightarrow> step_key list \<Rightarrow> step_agent option \<Rightarrow> plan_step"
  where
  "new_step tid key ordinal role d deps agent =
     \<lparr>ps_task_id = tid, ps_key = key, ps_ordinal = ordinal, ps_role = role,
      ps_instructions = trim (draft_instructions d), ps_inputs = clean_ids (draft_inputs d),
      ps_depends_on = deps, ps_acceptance = non_blank (draft_acceptance d),
      ps_state = Pending, ps_attempts = 0, ps_summary = None, ps_failure = None,
      ps_started_at = None, ps_finished_at = None, ps_agent = agent\<rparr>"

text \<open>The loop over the drafts with their keys; \<open>offset\<close> counts the steps already made.\<close>

fun build_steps ::
  "ustr \<Rightarrow> u32 \<Rightarrow> step_key list \<Rightarrow> step_key list \<Rightarrow> nat \<Rightarrow> (step_draft \<times> step_key) list
     \<Rightarrow> (plan_step list \<times> relaxed_wait list, plan_error) result" where
  "build_steps tid first known keys offset [] = Ok ([], [])"
| "build_steps tid first known keys offset ((d, key) # rest) =
     (let agent = draft_agent d; role = draft_role_name d in
      if role = [] then Err (MissingRole key)
      else if trim (draft_instructions d) = [] then Err (MissingInstructions key)
      else
        (let (deps, relaxed) =
               resolve_waits key known (take offset keys) ([], []) (draft_depends_on d);
             ordinal = saturating_add first (u32_from_usize offset);
             step = new_step tid key ordinal role d deps agent
         in case build_steps tid first known keys (Suc offset) rest of
              Err e \<Rightarrow> Err e
            | Ok (steps, later) \<Rightarrow> Ok (step # steps, relaxed @ later)))"

definition next_ordinal :: "plan_step list \<Rightarrow> u32" where
  "next_ordinal steps =
     (if steps = [] then 1 else saturating_add (ps_ordinal (last steps)) 1)"

definition validate_plan ::
  "long_task \<Rightarrow> step_draft list \<Rightarrow> plan_step list \<Rightarrow> (validated_plan, plan_error) result" where
  "validate_plan task drafts existing =
     (if task_state_is_terminal (task_state task) then Err (TaskFinished (task_state task))
      else case find (\<lambda>s. ps_task_id s \<noteq> task_id task) existing of
        Some stray \<Rightarrow> Err (StepsOfAnotherTask (task_id task) (ps_task_id stray))
      | None \<Rightarrow>
          (let kept = kept_steps existing;
               cap = max_steps (task_budget task);
               requested = length kept + length drafts
           in if drafts = [] \<and> kept = [] then Err EmptyPlan
              else if requested > unat cap then Err (TooManySteps requested (length kept) cap)
              else (case draft_keys (step_states kept) [] drafts of
                      Err e \<Rightarrow> Err e
                    | Ok keys \<Rightarrow>
                        (case build_steps (task_id task) (next_ordinal kept)
                                (keys @ map ps_key kept) keys 0 (zip drafts keys) of
                           Err e \<Rightarrow> Err e
                         | Ok (steps, relaxed) \<Rightarrow>
                             (case find_cycle steps of
                                Some c \<Rightarrow> Err (Cycle c)
                              | None \<Rightarrow>
                                  Ok \<lparr>vp_task_id = task_id task, vp_steps = steps,
                                      vp_kept = map ps_key kept, vp_relaxed = relaxed\<rparr>)))))"

section \<open>Adding one step\<close>

fun resolve_exact ::
  "step_key \<Rightarrow> plan_step list \<Rightarrow> step_key list \<Rightarrow> ustr list \<Rightarrow> (step_key list, plan_error) result"
  where
  "resolve_exact key existing deps [] = Ok deps"
| "resolve_exact key existing deps (raw # raws) =
     (case find (\<lambda>s. ps_key s = raw) existing of
        None \<Rightarrow> Err (UnknownDependency key raw)
      | Some dep \<Rightarrow> resolve_exact key existing (push_new deps (ps_key dep)) raws)"

definition validate_appended_step ::
  "long_task \<Rightarrow> step_draft \<Rightarrow> plan_step list \<Rightarrow> (validated_plan, plan_error) result" where
  "validate_appended_step task d existing =
     (if task_state_is_terminal (task_state task) then Err (TaskFinished (task_state task))
      else case find (\<lambda>s. ps_task_id s \<noteq> task_id task) existing of
        Some stray \<Rightarrow> Err (StepsOfAnotherTask (task_id task) (ps_task_id stray))
      | None \<Rightarrow>
          (let cap = max_steps (task_budget task) in
           if length existing + 1 > unat cap
           then Err (TooManySteps (length existing + 1) (length existing) cap)
           else case step_key_parse (draft_key d) of
             Err e \<Rightarrow> Err e
           | Ok key \<Rightarrow>
               if key \<in> ps_key ` set existing then Err (DuplicateKey key)
               else if trim (draft_role d) = [] then Err (MissingRole key)
               else if trim (draft_instructions d) = [] then Err (MissingInstructions key)
               else (case resolve_exact key existing []
                            (filter (\<lambda>r. r \<noteq> []) (map trim (draft_depends_on d))) of
                       Err e \<Rightarrow> Err e
                     | Ok deps \<Rightarrow>
                         (let ordered = sort_key ps_ordinal existing;
                              open_steps =
                                filter (\<lambda>s. \<not> survives_replan (ps_state s)) ordered;
                              added = new_step (task_id task) key (next_ordinal ordered)
                                        (trim (draft_role d)) d deps None
                          in Ok \<lparr>vp_task_id = task_id task, vp_steps = open_steps @ [added],
                                 vp_kept = map ps_key
                                   (filter (\<lambda>s. survives_replan (ps_state s)) ordered),
                                 vp_relaxed = []\<rparr>))))"

section \<open>Whether a plan is still current\<close>

fun check_kept ::
  "ustr \<Rightarrow> (ustr \<Rightarrow> step_state option) \<Rightarrow> step_key list \<Rightarrow> (unit, stale_plan) result" where
  "check_kept tid stored [] = Ok ()"
| "check_kept tid stored (key # keys) =
     (if (case stored key of Some st \<Rightarrow> survives_replan st | None \<Rightarrow> False)
      then check_kept tid stored keys
      else Err \<lparr>stale_task_id = tid, stale_step = key, stale_now = stored key\<rparr>)"

fun check_new ::
  "ustr \<Rightarrow> (ustr \<Rightarrow> step_state option) \<Rightarrow> plan_step list \<Rightarrow> (unit, stale_plan) result" where
  "check_new tid stored [] = Ok ()"
| "check_new tid stored (s # ss) =
     (case stored (ps_key s) of
        Some st \<Rightarrow>
          if survives_replan st
          then Err \<lparr>stale_task_id = tid, stale_step = ps_key s, stale_now = Some st\<rparr>
          else check_new tid stored ss
      | None \<Rightarrow> check_new tid stored ss)"

definition check_current ::
  "validated_plan \<Rightarrow> (ustr \<times> step_state) list \<Rightarrow> (unit, stale_plan) result" where
  "check_current p stored =
     (case check_kept (vp_task_id p) (map_of (rev stored)) (vp_kept p) of
        Err e \<Rightarrow> Err e
      | Ok _ \<Rightarrow> check_new (vp_task_id p) (map_of (rev stored)) (vp_steps p))"

section \<open>The waits of a plan, by key\<close>

definition key_waits :: "plan_step list \<Rightarrow> (step_key \<times> step_key) set" where
  "key_waits steps =
     {(ps_key s, d) | s d. s \<in> set steps \<and> d \<in> set (ps_depends_on s) \<and> d \<in> ps_key ` set steps}"

lemma step_index_key:
  assumes "distinct (map ps_key steps)" "i < length steps"
  shows "step_index steps (ps_key (steps ! i)) = Some i"
proof -
  let ?al = "zip (map ps_key steps) [0..<length steps]"
  have keys: "map fst ?al = map ps_key steps" by simp
  then have "distinct (map fst (rev ?al))" using assms(1) by (simp add: rev_map [symmetric])
  moreover have "(ps_key (steps ! i), i) \<in> set (rev ?al)"
    using assms(2) by (auto simp: in_set_zip intro!: exI [of _ i])
  ultimately show ?thesis unfolding step_index_def by (rule map_of_is_SomeI)
qed

lemma step_index_SomeD:
  "step_index steps k = Some i \<Longrightarrow> i < length steps \<and> ps_key (steps ! i) = k"
  by (auto simp: step_index_def in_set_zip dest!: map_of_SomeD)

lemma inv_image_trancl: "(a, b) \<in> r\<^sup>+ \<Longrightarrow> r \<subseteq> inv_image s f \<Longrightarrow> (f a, f b) \<in> s\<^sup>+"
  by (induction rule: trancl_induct) (auto simp: inv_image_def intro: trancl.trancl_into_trancl)

lemma acyclic_key_waits_iff:
  assumes dist: "distinct (map ps_key steps)"
  shows "acyclic (key_waits steps) \<longleftrightarrow> acyclic (wait_edges steps (step_index steps))"
proof -
  let ?E = "wait_edges steps (step_index steps)"
  have "key_waits steps \<subseteq> inv_image ?E (\<lambda>k. the (step_index steps k))"
  proof
    fix e assume "e \<in> key_waits steps"
    then obtain s t where st: "e = (ps_key s, ps_key t)" "s \<in> set steps" "t \<in> set steps"
      "ps_key t \<in> set (ps_depends_on s)"
      by (auto simp: key_waits_def)
    then obtain i j where e: "e = (ps_key (steps ! i), ps_key (steps ! j))" "i < length steps"
      "j < length steps" "ps_key (steps ! j) \<in> set (ps_depends_on (steps ! i))"
      by (metis in_set_conv_nth)
    then show "e \<in> inv_image ?E (\<lambda>k. the (step_index steps k))"
      using step_index_key [OF dist] by (auto simp: wait_edges_def inv_image_def)
  qed
  moreover have "?E \<subseteq> inv_image (key_waits steps) (\<lambda>i. ps_key (steps ! i))"
    by (auto simp: wait_edges_def key_waits_def inv_image_def dest!: step_index_SomeD)
  ultimately show ?thesis
    unfolding acyclic_def by (metis inv_image_trancl)
qed

lemma find_cycle_key_waits:
  "distinct (map ps_key steps) \<Longrightarrow> find_cycle steps = None \<longleftrightarrow> acyclic (key_waits steps)"
  by (simp add: find_cycle_None_iff acyclic_key_waits_iff)

section \<open>What the pieces produce\<close>

lemma draft_keys_Ok:
  assumes "draft_keys ks keys ds = Ok out" "distinct keys"
  shows "\<exists>new. out = keys @ new \<and> length new = length ds \<and> distinct out \<and>
    (\<forall>k \<in> set new. valid_step_key k \<and> ks k = None)"
  using assms
proof (induction ds arbitrary: keys)
  case Nil
  then show ?case by simp
next
  case (Cons d ds)
  then obtain key where key: "step_key_lenient (draft_key d) = Ok key" "ks key = None"
    "key \<notin> set keys" "draft_keys ks (keys @ [key]) ds = Ok out"
    by (auto split: result.splits option.splits if_splits)
  then obtain new where "out = (keys @ [key]) @ new" "length new = length ds" "distinct out"
    "\<forall>k \<in> set new. valid_step_key k \<and> ks k = None"
    using Cons.IH [of "keys @ [key]"] Cons.prems(2) by auto
  then show ?case
    using key step_key_lenient_valid [OF key(1)] by (intro exI [of _ "key # new"]) auto
qed

lemma set_push_new: "set (push_new xs x) = insert x (set xs)"
  by (auto simp: push_new_def)

lemma distinct_push_new: "distinct xs \<Longrightarrow> distinct (push_new xs x)"
  by (simp add: push_new_def)

lemma set_foldl_push_new: "set (foldl push_new xs ys) = set xs \<union> set ys"
  by (induction ys arbitrary: xs) (auto simp: set_push_new)

lemma distinct_foldl_push_new: "distinct xs \<Longrightarrow> distinct (foldl push_new xs ys)"
  by (induction ys arbitrary: xs) (auto simp: distinct_push_new)

lemma known_dep_in: "known_dep known raw = Some d \<Longrightarrow> d \<in> set known"
  by (auto simp: known_dep_def split: if_splits option.splits)

lemma resolve_waits_deps:
  assumes "set earlier \<subseteq> set known" "set (fst acc) \<subseteq> set known" "distinct (fst acc)"
  shows "set (fst (resolve_waits key known earlier acc raws)) \<subseteq> set known \<and>
    distinct (fst (resolve_waits key known earlier acc raws))"
  using assms
proof (induction key known earlier acc raws rule: resolve_waits.induct)
  case (2 key known earlier deps relaxed r raws)
  then show ?case
    using known_dep_in [of known "trim r"]
    by (cases "trim r = []"; cases "known_dep known (trim r)")
       (simp_all add: Let_def set_push_new set_foldl_push_new distinct_push_new
         distinct_foldl_push_new)
qed simp

text \<open>A wait that names a known step is kept as that wait, and an unknown one is reported.\<close>

lemma resolve_waits_keeps:
  "set (fst acc) \<subseteq> set (fst (resolve_waits key known earlier acc raws))"
  by (induction key known earlier acc raws rule: resolve_waits.induct)
     (auto simp: Let_def set_push_new set_foldl_push_new split: option.splits)

lemma resolve_waits_known:
  "r \<in> set raws \<Longrightarrow> trim r \<noteq> [] \<Longrightarrow> known_dep known (trim r) = Some d \<Longrightarrow>
     d \<in> set (fst (resolve_waits key known earlier acc raws))"
proof (induction key known earlier acc raws rule: resolve_waits.induct)
  case (2 key known earlier deps relaxed r' raws)
  show ?case
  proof (cases "r = r'")
    case True
    then show ?thesis
      using 2(5,6) resolve_waits_keeps [of "(push_new deps d, relaxed)" key known earlier raws]
      by (simp add: set_push_new)
  next
    case False
    then have "r \<in> set raws" using 2(4) by simp
    then show ?thesis
      using 2 by (cases "trim r' = []"; cases "known_dep known (trim r')") (simp_all add: Let_def)
  qed
qed simp

lemma resolve_waits_unknown:
  "r \<in> set raws \<Longrightarrow> trim r \<noteq> [] \<Longrightarrow> known_dep known (trim r) = None \<Longrightarrow>
     set earlier \<subseteq> set (fst (resolve_waits key known earlier acc raws))"
proof (induction key known earlier acc raws rule: resolve_waits.induct)
  case (2 key known earlier deps relaxed r' raws)
  show ?case
  proof (cases "r = r'")
    case True
    then show ?thesis
      using 2(5,6) resolve_waits_keeps [of "(foldl push_new deps earlier, _)" key known earlier raws]
      by (auto simp: set_foldl_push_new)
  next
    case False
    then have "r \<in> set raws" using 2(4) by simp
    then show ?thesis
      using 2 by (cases "trim r' = []"; cases "known_dep known (trim r')") (simp_all add: Let_def)
  qed
qed simp

text \<open>What every step \<open>build_steps\<close> makes looks like.\<close>

definition fresh_step :: "ustr \<Rightarrow> step_key list \<Rightarrow> plan_step \<Rightarrow> bool" where
  "fresh_step tid known s \<longleftrightarrow>
     ps_task_id s = tid \<and> ps_role s \<noteq> [] \<and> ps_instructions s \<noteq> [] \<and>
     trim (ps_instructions s) = ps_instructions s \<and> id_list_ok (ps_inputs s) \<and>
     set (ps_depends_on s) \<subseteq> set known \<and> distinct (ps_depends_on s) \<and>
     ps_state s = Pending \<and> ps_attempts s = 0 \<and> ps_summary s = None \<and> ps_failure s = None \<and>
     ps_started_at s = None \<and> ps_finished_at s = None"

lemma fresh_step_inv: "fresh_step tid known s \<Longrightarrow> step_inv s"
  by (simp add: fresh_step_def step_inv_def step_text_ok_def)

lemma build_steps_Ok:
  assumes "build_steps tid first known keys offset rest = Ok (steps, relaxed)"
    "set keys \<subseteq> set known"
  shows "map ps_key steps = map snd rest \<and> list_all (fresh_step tid known) steps \<and>
    map ps_ordinal steps =
      map (\<lambda>i. saturating_add first (u32_from_usize i)) [offset..<offset + length rest]"
  using assms
proof (induction tid first known keys offset rest arbitrary: steps relaxed
    rule: build_steps.induct)
  case (1 tid first known keys offset)
  then show ?case by simp
next
  case (2 tid first known keys offset d key rest)
  let ?waits = "resolve_waits key known (take offset keys) ([], []) (draft_depends_on d)"
  obtain deps rel where w: "?waits = (deps, rel)" by (cases ?waits)
  obtain steps' later where ih: "build_steps tid first known keys (Suc offset) rest = Ok (steps', later)"
    and st: "steps = new_step tid key (saturating_add first (u32_from_usize offset))
        (draft_role_name d) d deps (draft_agent d) # steps'"
    and ok: "draft_role_name d \<noteq> []" "trim (draft_instructions d) \<noteq> []"
    using 2(2) w by (auto simp: Let_def split: if_splits result.splits prod.splits)
  have "set (take offset keys) \<subseteq> set known"
    using 2(3) by (meson order_trans set_take_subset)
  then have deps: "set deps \<subseteq> set known" "distinct deps"
    using resolve_waits_deps [of "take offset keys" known "([], [])" key "draft_depends_on d"] w
    by auto
  have IH: "map ps_key steps' = map snd rest \<and> list_all (fresh_step tid known) steps' \<and>
    map ps_ordinal steps' =
      map (\<lambda>i. saturating_add first (u32_from_usize i)) [Suc offset..<Suc offset + length rest]"
    using 2(1) [OF refl refl ok refl w [symmetric] refl refl ih 2(3)] .
  have upt: "[offset..<offset + length ((d, key) # rest)] =
      offset # [Suc offset..<Suc offset + length rest]"
    by (simp add: upt_conv_Cons del: upt_Suc)
  have fresh: "fresh_step tid known (hd steps)"
    using st ok deps by (simp add: new_step_def fresh_step_def id_list_ok_clean_ids)
  show ?case unfolding upt
    using IH st fresh by (simp add: new_step_def del: upt_Suc)
qed

section \<open>What an accepted plan promises\<close>

definition plan_ok :: "long_task \<Rightarrow> plan_step list \<Rightarrow> validated_plan \<Rightarrow> bool" where
  "plan_ok task existing p \<longleftrightarrow>
     vp_task_id p = task_id task \<and>
     vp_kept p = map ps_key (kept_steps existing) \<and>
     length (vp_kept p) + length (vp_steps p) \<le> unat (max_steps (task_budget task)) \<and>
     distinct (map ps_key (vp_steps p)) \<and>
     list_all (\<lambda>s. valid_step_key (ps_key s)) (vp_steps p) \<and>
     set (map ps_key (vp_steps p)) \<inter> set (vp_kept p) = {} \<and>
     list_all (fresh_step (task_id task) (map ps_key (vp_steps p) @ vp_kept p)) (vp_steps p) \<and>
     acyclic (key_waits (vp_steps p))"

lemma step_states_None_iff: "step_states steps k = None \<longleftrightarrow> k \<notin> ps_key ` set steps"
  by (auto simp: step_states_def map_of_eq_None_iff image_iff)

lemma validate_plan_cases:
  assumes "validate_plan task drafts existing = Ok p"
  obtains keys relaxed where
    "\<not> task_state_is_terminal (task_state task)"
    "\<forall>s \<in> set existing. ps_task_id s = task_id task"
    "drafts \<noteq> [] \<or> kept_steps existing \<noteq> []"
    "length (kept_steps existing) + length drafts \<le> unat (max_steps (task_budget task))"
    "draft_keys (step_states (kept_steps existing)) [] drafts = Ok keys"
    "build_steps (task_id task) (next_ordinal (kept_steps existing))
       (keys @ map ps_key (kept_steps existing)) keys 0 (zip drafts keys) = Ok (vp_steps p, relaxed)"
    "find_cycle (vp_steps p) = None"
    "p = \<lparr>vp_task_id = task_id task, vp_steps = vp_steps p,
          vp_kept = map ps_key (kept_steps existing), vp_relaxed = relaxed\<rparr>"
  using assms unfolding validate_plan_def Let_def
  by (auto split: if_splits option.splits result.splits prod.splits
      simp: find_None_iff not_less)

lemma validate_plan_shape:
  assumes "validate_plan task drafts existing = Ok p"
  obtains keys where
    "map ps_key (vp_steps p) = keys" "length keys = length drafts" "distinct keys"
    "\<forall>k \<in> set keys. valid_step_key k \<and> k \<notin> ps_key ` set (kept_steps existing)"
    "list_all (fresh_step (task_id task) (keys @ map ps_key (kept_steps existing))) (vp_steps p)"
    "map ps_ordinal (vp_steps p) =
       map (\<lambda>i. saturating_add (next_ordinal (kept_steps existing)) (u32_from_usize i))
         [0..<length drafts]"
proof -
  obtain keys relaxed where
    keys: "draft_keys (step_states (kept_steps existing)) [] drafts = Ok keys"
    and built: "build_steps (task_id task) (next_ordinal (kept_steps existing))
       (keys @ map ps_key (kept_steps existing)) keys 0 (zip drafts keys) = Ok (vp_steps p, relaxed)"
    using assms by (rule validate_plan_cases)
  have k: "length keys = length drafts" "distinct keys"
    "\<forall>k \<in> set keys. valid_step_key k \<and> step_states (kept_steps existing) k = None"
    using draft_keys_Ok [OF keys] by auto
  note b = build_steps_Ok [OF built]
  show thesis
    by (rule that [of keys]) (use b k in \<open>simp_all add: step_states_None_iff\<close>)
qed

lemma validate_plan_ok_aux:
  assumes "validate_plan task drafts existing = Ok p"
  shows "plan_ok task existing p"
proof -
  obtain keys where shape:
    "map ps_key (vp_steps p) = keys" "length keys = length drafts" "distinct keys"
    "\<forall>k \<in> set keys. valid_step_key k \<and> k \<notin> ps_key ` set (kept_steps existing)"
    "list_all (fresh_step (task_id task) (keys @ map ps_key (kept_steps existing))) (vp_steps p)"
    using assms by (rule validate_plan_shape)
  have len: "length (vp_steps p) = length drafts"
    using shape(1,2) by (metis length_map)
  obtain relaxed where rest:
    "length (kept_steps existing) + length drafts \<le> unat (max_steps (task_budget task))"
    "find_cycle (vp_steps p) = None"
    "p = \<lparr>vp_task_id = task_id task, vp_steps = vp_steps p,
          vp_kept = map ps_key (kept_steps existing), vp_relaxed = relaxed\<rparr>"
    using assms by (rule validate_plan_cases)
  have kept: "vp_kept p = map ps_key (kept_steps existing)" "vp_task_id p = task_id task"
    by (subst rest(3), simp)+
  have "acyclic (key_waits (vp_steps p))"
    using rest(2) shape(1,3) by (simp add: find_cycle_key_waits)
  moreover have "list_all (\<lambda>s. valid_step_key (ps_key s)) (vp_steps p)"
    using shape(1,4) by (auto simp: list_all_iff)
  moreover have "set (map ps_key (vp_steps p)) \<inter> set (vp_kept p) = {}"
    using shape(1,4) kept by auto
  ultimately show ?thesis
    using rest(1) len kept shape by (simp add: plan_ok_def)
qed

text \<open>New steps come after every kept one and in the planner's order.\<close>

lemma kept_steps_mem: "s \<in> set (kept_steps existing) \<longleftrightarrow> s \<in> set existing \<and> survives_replan (ps_state s)"
  by (auto simp: kept_steps_def)

lemma sorted_last_max: "sorted (map f xs) \<Longrightarrow> x \<in> set xs \<Longrightarrow> f x \<le> f (last xs)"
  by (induction xs) auto

lemma kept_ordinal_le_last:
  "s \<in> set (kept_steps existing) \<Longrightarrow> ps_ordinal s \<le> ps_ordinal (last (kept_steps existing))"
  by (rule sorted_last_max) (simp_all add: kept_steps_def)

lemma validate_plan_ordinals_aux:
  assumes "validate_plan task drafts existing = Ok p"
    and room: "\<And>s. s \<in> set existing \<Longrightarrow> unat (ps_ordinal s) + length drafts < 2 ^ 32 - 1"
    and "length drafts < 2 ^ 32 - 1"
  shows "sorted_wrt (<) (map ps_ordinal (vp_steps p)) \<and>
    (\<forall>s \<in> set (vp_steps p). \<forall>k \<in> set (kept_steps existing). ps_ordinal k < ps_ordinal s)"
proof -
  let ?first = "next_ordinal (kept_steps existing)"
  obtain keys where ords: "map ps_ordinal (vp_steps p) =
       map (\<lambda>i. saturating_add ?first (u32_from_usize i)) [0..<length drafts]"
    using assms(1) by (rule validate_plan_shape)
  have first: "unat ?first + length drafts < 2 ^ 32"
    and above: "\<And>k. k \<in> set (kept_steps existing) \<Longrightarrow> unat (ps_ordinal k) < unat ?first"
  proof -
    show "unat ?first + length drafts < 2 ^ 32"
    proof (cases "kept_steps existing = []")
      case False
      then have "last (kept_steps existing) \<in> set existing"
        using kept_steps_mem last_in_set by blast
      from room [OF this] False show ?thesis
        by (simp add: next_ordinal_def unat_saturating_add)
    qed (use assms(3) in \<open>simp add: next_ordinal_def\<close>)
    fix k assume k: "k \<in> set (kept_steps existing)"
    then have "last (kept_steps existing) \<in> set existing"
      using kept_steps_mem by (metis empty_iff last_in_set list.set(1))
    from room [OF this] kept_ordinal_le_last [OF k] k
    show "unat (ps_ordinal k) < unat ?first"
      by (auto simp: next_ordinal_def unat_saturating_add word_le_nat_alt)
  qed
  have ord: "unat (saturating_add ?first (u32_from_usize i)) = unat ?first + i"
    if "i < length drafts" for i
    using that first by (simp add: unat_saturating_add unat_u32_from_usize)
  have "sorted_wrt (<) (map ps_ordinal (vp_steps p))"
    unfolding ords by (simp add: sorted_wrt_iff_nth_less word_less_nat_alt ord)
  moreover have "ps_ordinal k < ps_ordinal s"
    if s: "s \<in> set (vp_steps p)" and k: "k \<in> set (kept_steps existing)" for s k
  proof -
    have "ps_ordinal s \<in> set (map ps_ordinal (vp_steps p))" using s by simp
    then obtain i where i: "i < length drafts"
      "ps_ordinal s = saturating_add ?first (u32_from_usize i)"
      unfolding ords by auto
    with above [OF k] show ?thesis by (simp add: word_less_nat_alt ord)
  qed
  ultimately show ?thesis by blast
qed

section \<open>A plan that is still current\<close>

lemma check_kept_Ok_iff:
  "check_kept tid stored keys = Ok () \<longleftrightarrow>
     (\<forall>k \<in> set keys. \<exists>st. stored k = Some st \<and> survives_replan st)"
  by (induction keys) (auto split: option.splits)

lemma check_new_Ok_iff:
  "check_new tid stored steps = Ok () \<longleftrightarrow>
     (\<forall>s \<in> set steps. \<forall>st. stored (ps_key s) = Some st \<longrightarrow> \<not> survives_replan st)"
  by (induction steps) (auto split: option.splits)

lemma check_current_Ok_iff:
  "check_current p stored = Ok () \<longleftrightarrow>
     (\<forall>k \<in> set (vp_kept p). \<exists>st. map_of (rev stored) k = Some st \<and> survives_replan st) \<and>
     (\<forall>s \<in> set (vp_steps p). \<forall>st. map_of (rev stored) (ps_key s) = Some st \<longrightarrow>
        \<not> survives_replan st)"
proof (cases "check_kept (vp_task_id p) (map_of (rev stored)) (vp_kept p)")
  case (Ok u)
  then show ?thesis
    using check_kept_Ok_iff [of "vp_task_id p" "map_of (rev stored)" "vp_kept p"]
    by (simp add: check_current_def check_new_Ok_iff)
next
  case (Err e)
  then show ?thesis
    using check_kept_Ok_iff [of "vp_task_id p" "map_of (rev stored)" "vp_kept p"]
    by (simp add: check_current_def)
qed

section \<open>A plan as an example\<close>

definition example_draft :: "string \<Rightarrow> string list \<Rightarrow> step_draft" where
  "example_draft key waits =
     \<lparr>draft_key = lit key, draft_role = lit ''worker'', draft_new_agent = None,
      draft_instructions = lit ''do it'', draft_inputs = [], draft_depends_on = map lit waits,
      draft_acceptance = None\<rparr>"

definition example_plan_step :: "string \<Rightarrow> u32 \<Rightarrow> string list \<Rightarrow> plan_step" where
  "example_plan_step key ordinal waits =
     \<lparr>ps_task_id = lit ''t1'', ps_key = lit key, ps_ordinal = ordinal, ps_role = lit ''worker'',
      ps_instructions = lit ''do it'', ps_inputs = [], ps_depends_on = map lit waits,
      ps_acceptance = None, ps_state = Pending, ps_attempts = 0, ps_summary = None,
      ps_failure = None, ps_started_at = None, ps_finished_at = None, ps_agent = None\<rparr>"

definition example_plan :: validated_plan where
  "example_plan =
     \<lparr>vp_task_id = lit ''t1'',
      vp_steps = [example_plan_step ''find'' 1 [], example_plan_step ''write'' 2 [''find'']],
      vp_kept = [], vp_relaxed = []\<rparr>"

lemmas plan_eval = validate_plan_def kept_steps_def step_states_def known_dep_def push_new_def
  draft_agent_def draft_role_name_def new_step_def next_ordinal_def find_cycle_def step_index_def
  cycle_at_def step_key_lenient_eq valid_step_key_def key_char_def MAX_STEP_KEY_CHARS_def
  clean_ids_def non_blank_def saturating_add_def u32_from_usize_def Let_def

lemma example_validate_plan:
  "validate_plan example_task [example_draft ''find'' [], example_draft ''write'' [''find'']] [] =
     Ok example_plan"
  by (simp add: plan_eval visit.simps visit_deps.simps example_task_def example_budget_def example_draft_def example_plan_def
      example_plan_step_def text_simps)

section \<open>Properties\<close>

text \<open>
  C1: A plan that passes validation keeps every promise its store and its runner rely on: with
  the kept steps it stays within the task's step cap; its keys are valid, distinct and none is a
  kept step's; each new step is of this task, pending, untried, with a role and instructions, and waits
  only for steps of the plan or kept ones; and its waits have no circle.
\<close>

theorem validate_plan_sound:
  "validate_plan task drafts existing = Ok p \<Longrightarrow> plan_ok task existing p"
  by (rule validate_plan_ok_aux)

theorem validate_plan_sound_witness: "plan_ok example_task [] example_plan"
  by (rule validate_plan_sound [OF example_validate_plan])

text \<open>
  New steps are numbered in the order the planner wrote them, strictly increasing and all
  after every kept step, as long as the ordinals in use leave room in 32 bits for the new ones.
\<close>

theorem validate_plan_ordinals:
  assumes "validate_plan task drafts existing = Ok p"
    and "\<And>s. s \<in> set existing \<Longrightarrow> unat (ps_ordinal s) + length drafts < 2 ^ 32 - 1"
    and "length drafts < 2 ^ 32 - 1"
  shows "sorted_wrt (<) (map ps_ordinal (vp_steps p)) \<and>
    (\<forall>s \<in> set (vp_steps p). \<forall>k \<in> set (kept_steps existing). ps_ordinal k < ps_ordinal s)"
  using assms by (rule validate_plan_ordinals_aux)

theorem validate_plan_ordinals_witness:
  "sorted_wrt (<) (map ps_ordinal (vp_steps example_plan))"
  using validate_plan_ordinals [OF example_validate_plan] by simp

text \<open>
  A validated plan is still current against the stored states exactly when every step it
  keeps is still there, completed or running, and no step it writes has since been started or
  finished under the same key.
\<close>

theorem check_current_exact:
  "check_current p stored = Ok () \<longleftrightarrow>
     (\<forall>k. k \<in> set (vp_kept p) \<longrightarrow> (\<exists>st. map_of (rev stored) k = Some st \<and> survives_replan st)) \<and>
     (\<forall>s. s \<in> set (vp_steps p) \<longrightarrow>
        (\<forall>st. map_of (rev stored) (ps_key s) = Some st \<longrightarrow> \<not> survives_replan st))"
  using check_current_Ok_iff [of p stored] by blast

theorem check_current_exact_witness:
  "check_current example_plan [(lit ''find'', Pending)] = Ok () \<and>
   check_current example_plan [(lit ''find'', StepRunning)] \<noteq> Ok ()"
  using check_current_exact [of example_plan "[(lit ''find'', Pending)]"]
    check_current_exact [of example_plan "[(lit ''find'', StepRunning)]"]
  by (simp add: example_plan_def example_plan_step_def)

text \<open>
  A wait that names no step is never silently dropped: the step then waits for every step
  written before it, while a wait that names a known step (as written or as a key) stays that wait.
\<close>

theorem waits_never_dropped:
  assumes "r \<in> set raws" "trim r \<noteq> []"
  shows "case known_dep known (trim r) of
      Some d \<Rightarrow> d \<in> set (fst (resolve_waits key known earlier ([], []) raws))
    | None \<Rightarrow> set earlier \<subseteq> set (fst (resolve_waits key known earlier ([], []) raws))"
  using assms resolve_waits_known resolve_waits_unknown by (auto split: option.splits)

theorem waits_never_dropped_witness:
  "set [lit ''a''] \<subseteq>
     set (fst (resolve_waits (lit ''c'') [lit ''a'', lit ''c''] [lit ''a''] ([], []) [lit ''lost'']))"
  using waits_never_dropped [where r = "lit ''lost''" and raws = "[lit ''lost'']"
      and known = "[lit ''a'', lit ''c'']" and key = "lit ''c''" and earlier = "[lit ''a'']"]
  by (simp add: known_dep_def suggest_key_def slug_push_def trim_end_dashes_def key_char_def
      MAX_STEP_KEY_CHARS_def text_simps)

end
