(* ===== verification/Plan_Schedule.thy ===== *)
theory Plan_Schedule
  imports Plan_Validation
begin

text \<open>
  Which step of a plan can run and which never can: \<open>next_ready_step\<close> and \<open>blocked_steps\<close> of
  \<open>pond-core/src/shared/domain/long_task.rs\<close>. The loop of \<open>blocked_steps\<close> is total, since every round
  but the last adds a key, and computes the least set of steps closed under waiting for a
  step that failed, was skipped, is missing, or is itself in the set (\<open>cannot_start\<close>).
\<close>

section \<open>Iterator minima and maxima\<close>

text \<open>\<open>Iterator::min_by_key\<close> returns the first of several minima, \<open>max_by_key\<close> the last maximum.\<close>

fun min_by_key :: "('a \<Rightarrow> 'k::linorder) \<Rightarrow> 'a list \<Rightarrow> 'a option" where
  "min_by_key f [] = None"
| "min_by_key f (x # xs) =
     (case min_by_key f xs of
        None \<Rightarrow> Some x
      | Some y \<Rightarrow> if f y < f x then Some y else Some x)"

fun max_by_key :: "('a \<Rightarrow> 'k::linorder) \<Rightarrow> 'a list \<Rightarrow> 'a option" where
  "max_by_key f [] = None"
| "max_by_key f (x # xs) =
     (case max_by_key f xs of
        None \<Rightarrow> Some x
      | Some y \<Rightarrow> if f y < f x then Some x else Some y)"

lemma min_by_key_None_iff [simp]: "min_by_key f xs = None \<longleftrightarrow> xs = []"
  by (cases xs) (auto split: option.splits)

lemma max_by_key_None_iff [simp]: "max_by_key f xs = None \<longleftrightarrow> xs = []"
  by (cases xs) (auto split: option.splits)

lemma min_by_key_Some:
  "min_by_key f xs = Some x \<Longrightarrow> x \<in> set xs \<and> (\<forall>y \<in> set xs. f x \<le> f y)"
proof (induction xs arbitrary: x)
  case (Cons a xs)
  then show ?case
    by (cases "min_by_key f xs") (fastforce split: if_splits)+
qed simp

lemma max_by_key_Some:
  "max_by_key f xs = Some x \<Longrightarrow> x \<in> set xs \<and> (\<forall>y \<in> set xs. f y \<le> f x)"
proof (induction xs arbitrary: x)
  case (Cons a xs)
  then show ?case
    by (cases "max_by_key f xs") (fastforce split: if_splits)+
qed simp

section \<open>Ready and blocked steps\<close>

definition waits_met :: "plan_step list \<Rightarrow> plan_step \<Rightarrow> bool" where
  "waits_met steps s \<longleftrightarrow>
     list_all (\<lambda>d. step_states steps d = Some StepCompleted) (ps_depends_on s)"

definition next_ready_step :: "plan_step list \<Rightarrow> plan_step option" where
  "next_ready_step steps =
     min_by_key ps_ordinal
       (filter (waits_met steps) (filter (\<lambda>s. ps_state s = Pending) steps))"

fun dead_wait :: "ustr set \<Rightarrow> ustr \<Rightarrow> step_state option \<Rightarrow> bool" where
  "dead_wait blocked d None = True"
| "dead_wait blocked d (Some StepFailed) = True"
| "dead_wait blocked d (Some Skipped) = True"
| "dead_wait blocked d (Some _) = (d \<in> blocked)"

definition newly_blocked :: "plan_step list \<Rightarrow> ustr set \<Rightarrow> ustr list" where
  "newly_blocked steps blocked =
     map ps_key
       (filter (\<lambda>s. list_ex (\<lambda>d. dead_wait blocked d (step_states steps d)) (ps_depends_on s))
         (filter (\<lambda>s. ps_key s \<notin> blocked)
           (filter (\<lambda>s. ps_state s = Pending) steps)))"

function blocked_keys :: "plan_step list \<Rightarrow> ustr set \<Rightarrow> ustr set" where
  "blocked_keys steps blocked =
     (let newly = newly_blocked steps blocked in
      if newly = [] then blocked else blocked_keys steps (blocked \<union> set newly))"
  by auto

lemma newly_blocked_mem:
  "k \<in> set (newly_blocked steps blocked) \<longleftrightarrow>
     k \<notin> blocked \<and>
     (\<exists>s \<in> set steps. ps_key s = k \<and> ps_state s = Pending \<and>
        (\<exists>d \<in> set (ps_depends_on s). dead_wait blocked d (step_states steps d)))"
  by (auto simp: newly_blocked_def list_ex_iff)

termination blocked_keys
proof (relation "measure (\<lambda>(steps, blocked). card (ps_key ` set steps - blocked))", simp)
  fix steps :: "plan_step list" and blocked newly
  assume newly: "newly = newly_blocked steps blocked" and some: "newly \<noteq> []"
  then have "hd newly \<in> set (newly_blocked steps blocked)" by simp
  then have "hd newly \<in> ps_key ` set steps - blocked" by (force simp: newly_blocked_mem)
  moreover have "hd newly \<notin> ps_key ` set steps - (blocked \<union> set newly)" using some by simp
  ultimately have "ps_key ` set steps - (blocked \<union> set newly) \<subset> ps_key ` set steps - blocked"
    by blast
  then show "((steps, blocked \<union> set newly), steps, blocked)
      \<in> measure (\<lambda>(steps, blocked). card (ps_key ` set steps - blocked))"
    by (simp add: psubset_card_mono)
qed

declare blocked_keys.simps [simp del]

definition blocked_steps :: "plan_step list \<Rightarrow> plan_step list" where
  "blocked_steps steps =
     sort_key ps_ordinal (filter (\<lambda>s. ps_key s \<in> blocked_keys steps {}) steps)"

section \<open>What blocked means\<close>

text \<open>A pending step cannot start when one of its waits is dead or cannot start itself.\<close>

inductive cannot_start :: "plan_step list \<Rightarrow> ustr \<Rightarrow> bool" for steps where
  dead: "s \<in> set steps \<Longrightarrow> ps_state s = Pending \<Longrightarrow> d \<in> set (ps_depends_on s) \<Longrightarrow>
      step_states steps d \<in> {None, Some StepFailed, Some Skipped} \<Longrightarrow>
      cannot_start steps (ps_key s)"
| chain: "s \<in> set steps \<Longrightarrow> ps_state s = Pending \<Longrightarrow> d \<in> set (ps_depends_on s) \<Longrightarrow>
      cannot_start steps d \<Longrightarrow> cannot_start steps (ps_key s)"

lemma dead_wait_iff:
  "dead_wait blocked d st \<longleftrightarrow> st \<in> {None, Some StepFailed, Some Skipped} \<or> d \<in> blocked"
  by (cases "(blocked, d, st)" rule: dead_wait.cases) auto

lemma newly_blocked_sound:
  assumes "\<forall>k \<in> blocked. cannot_start steps k" "k \<in> set (newly_blocked steps blocked)"
  shows "cannot_start steps k"
  using assms by (auto simp: newly_blocked_mem dead_wait_iff intro: dead chain)

lemma blocked_keys_sound:
  "\<forall>k \<in> blocked. cannot_start steps k \<Longrightarrow> k \<in> blocked_keys steps blocked \<Longrightarrow> cannot_start steps k"
proof (induction steps blocked rule: blocked_keys.induct)
  case (1 steps blocked)
  have "cannot_start steps k" if "newly_blocked steps blocked \<noteq> []"
  proof (rule 1(1) [OF refl that])
    show "\<forall>k \<in> blocked \<union> set (newly_blocked steps blocked). cannot_start steps k"
      using 1(2) newly_blocked_sound by blast
    show "k \<in> blocked_keys steps (blocked \<union> set (newly_blocked steps blocked))"
      using 1(3) that by (simp add: blocked_keys.simps [of steps blocked] Let_def)
  qed
  then show ?case
    using 1(2,3) by (cases "newly_blocked steps blocked = []")
      (auto simp: blocked_keys.simps [of steps blocked] Let_def)
qed

lemma blocked_keys_fixed: "newly_blocked steps (blocked_keys steps blocked) = []"
proof (induction steps blocked rule: blocked_keys.induct)
  case (1 steps blocked)
  then show ?case
    by (cases "newly_blocked steps blocked = []")
      (simp_all add: blocked_keys.simps [of steps blocked] Let_def)
qed

lemma cannot_start_in_fixed:
  "cannot_start steps k \<Longrightarrow> newly_blocked steps B = [] \<Longrightarrow> k \<in> B"
proof (induction rule: cannot_start.induct)
  case (dead s d)
  then have "ps_key s \<notin> set (newly_blocked steps B)" by simp
  then show ?case using dead(1-4) unfolding newly_blocked_mem dead_wait_iff by blast
next
  case (chain s d)
  then have "ps_key s \<notin> set (newly_blocked steps B)" by simp
  then show ?case using chain(1-3) chain.IH [OF chain.prems]
    unfolding newly_blocked_mem dead_wait_iff by blast
qed

lemma blocked_keys_iff: "k \<in> blocked_keys steps {} \<longleftrightarrow> cannot_start steps k"
  using blocked_keys_sound [of "{}" steps k] cannot_start_in_fixed [OF _ blocked_keys_fixed] by blast

lemma blocked_steps_mem:
  "s \<in> set (blocked_steps steps) \<longleftrightarrow> s \<in> set steps \<and> cannot_start steps (ps_key s)"
  by (simp add: blocked_steps_def blocked_keys_iff)

lemma blocked_steps_sorted: "sorted (map ps_ordinal (blocked_steps steps))"
  by (simp add: blocked_steps_def)

lemma cannot_start_pending:
  "cannot_start steps k \<Longrightarrow> \<exists>s \<in> set steps. ps_key s = k \<and> ps_state s = Pending"
  by (auto elim: cannot_start.cases)

lemma blocked_steps_Nil_iff: "blocked_steps steps = [] \<longleftrightarrow> (\<forall>k. \<not> cannot_start steps k)"
proof -
  have "blocked_steps steps = [] \<longleftrightarrow> (\<forall>s. s \<notin> set (blocked_steps steps))"
    by (cases "blocked_steps steps") auto
  then show ?thesis
    using cannot_start_pending [of steps] unfolding blocked_steps_mem by metis
qed

section \<open>States by key\<close>

lemma step_states_key:
  assumes "distinct (map ps_key steps)" "s \<in> set steps"
  shows "step_states steps (ps_key s) = Some (ps_state s)"
proof -
  have "distinct (map fst (rev (map (\<lambda>s. (ps_key s, ps_state s)) steps)))"
    using assms(1) by (simp add: rev_map [symmetric] comp_def)
  then show ?thesis
    unfolding step_states_def using assms(2) by (intro map_of_is_SomeI) auto
qed

lemma step_states_SomeD:
  "step_states steps k = Some st \<Longrightarrow> \<exists>s \<in> set steps. ps_key s = k \<and> ps_state s = st"
  by (auto simp: step_states_def dest!: map_of_SomeD)

section \<open>The ready step\<close>

lemma next_ready_step_Some:
  assumes "next_ready_step steps = Some s"
  shows "s \<in> set steps \<and> ps_state s = Pending \<and> waits_met steps s \<and>
    (\<forall>t \<in> set steps. ps_state t = Pending \<longrightarrow> waits_met steps t \<longrightarrow> ps_ordinal s \<le> ps_ordinal t)"
  using min_by_key_Some [OF assms [unfolded next_ready_step_def]] by auto

lemma next_ready_step_None_iff:
  "next_ready_step steps = None \<longleftrightarrow>
     (\<forall>s \<in> set steps. ps_state s = Pending \<longrightarrow> \<not> waits_met steps s)"
  by (auto simp: next_ready_step_def filter_empty_conv)

lemma ready_not_blocked:
  assumes "distinct (map ps_key steps)" "next_ready_step steps = Some s"
  shows "\<not> cannot_start steps (ps_key s)"
proof
  assume "cannot_start steps (ps_key s)"
  then show False
  proof (cases rule: cannot_start.cases)
    case (dead t d)
    then have "t = s" using assms next_ready_step_Some [OF assms(2)]
      by (metis distinct_map inj_onD)
    then show False using dead next_ready_step_Some [OF assms(2)]
      by (auto simp: waits_met_def list_all_iff)
  next
    case (chain t d)
    then have "t = s" using assms next_ready_step_Some [OF assms(2)]
      by (metis distinct_map inj_onD)
    then have "step_states steps d = Some StepCompleted"
      using chain next_ready_step_Some [OF assms(2)] by (auto simp: waits_met_def list_all_iff)
    moreover obtain u where "u \<in> set steps" "ps_key u = d" "ps_state u = Pending"
      using chain cannot_start_pending by blast
    ultimately show False using step_states_key [OF assms(1)] by fastforce
  qed
qed

text \<open>
  Among steps keyed apart whose pending steps wait without a circle, something is always
  ready unless a pending step is blocked, waits for live work, or nothing is pending.
\<close>

definition pending_waits :: "plan_step list \<Rightarrow> (step_key \<times> step_key) set" where
  "pending_waits steps = key_waits (filter (\<lambda>s. ps_state s = Pending) steps)"

definition live_step :: "plan_step \<Rightarrow> bool" where
  "live_step s \<longleftrightarrow> ps_state s = StepRunning \<or> ps_state s = StepAwaitingApproval"

lemma finite_key_waits: "finite (key_waits steps)"
proof -
  have "key_waits steps \<subseteq> ps_key ` set steps \<times> ps_key ` set steps"
    by (auto simp: key_waits_def)
  then show ?thesis by (rule finite_subset) simp
qed

lemma unready_waits_pending:
  assumes dist: "distinct (map ps_key steps)" and s: "s \<in> set steps" "ps_state s = Pending"
    and unready: "\<not> waits_met steps s" and free: "\<not> cannot_start steps (ps_key s)"
    and dead: "\<forall>t \<in> set steps. \<not> live_step t"
  shows "\<exists>t \<in> set steps. ps_state t = Pending \<and> (ps_key s, ps_key t) \<in> pending_waits steps"
proof -
  obtain d where d: "d \<in> set (ps_depends_on s)" "step_states steps d \<noteq> Some StepCompleted"
    using unready by (auto simp: waits_met_def list_all_iff)
  have "step_states steps d \<notin> {None, Some StepFailed, Some Skipped}"
    using cannot_start.dead [OF s d(1)] free by blast
  then obtain st where st: "step_states steps d = Some st" "st \<notin> {StepFailed, Skipped, StepCompleted}"
    using d(2) by (cases "step_states steps d") auto
  then obtain t where t: "t \<in> set steps" "ps_key t = d" "ps_state t = st"
    using step_states_SomeD by blast
  then have "ps_state t = Pending"
    using dead st(2) by (cases st) (auto simp: live_step_def)
  with s d(1) t show ?thesis by (force simp: pending_waits_def key_waits_def)
qed

lemma next_ready_exists:
  assumes dist: "distinct (map ps_key steps)" and acyc: "acyclic (pending_waits steps)"
    and free: "blocked_steps steps = []" and dead: "\<forall>t \<in> set steps. \<not> live_step t"
    and s: "s \<in> set steps" "ps_state s = Pending"
  shows "next_ready_step steps \<noteq> None"
proof
  assume none: "next_ready_step steps = None"
  have "wf ((pending_waits steps)\<inverse>)"
    using acyc finite_key_waits by (simp add: finite_acyclic_wf_converse pending_waits_def)
  then have "\<forall>s \<in> set steps. ps_key s = k \<longrightarrow> ps_state s = Pending \<longrightarrow> False" for k
  proof (induction k rule: wf_induct_rule)
    case (less k)
    show ?case
    proof (intro ballI impI)
      fix u assume u: "u \<in> set steps" "ps_key u = k" "ps_state u = Pending"
      then have "\<not> waits_met steps u" using none by (simp add: next_ready_step_None_iff)
      then obtain t where "t \<in> set steps" "ps_state t = Pending" "(k, ps_key t) \<in> pending_waits steps"
        using unready_waits_pending [OF dist u(1,3) _ _ dead] free u(2)
        by (auto simp: blocked_steps_Nil_iff)
      then show False using less by blast
    qed
  qed
  then show False using s by blast
qed

section \<open>Properties\<close>

text \<open>
  The step chosen to run is a pending one whose every wait is completed, and no such step
  has a lower ordinal; none is chosen exactly when no pending step has its waits completed.
\<close>

theorem next_ready_step_exact:
  "case next_ready_step steps of
     Some s \<Rightarrow> s \<in> set steps \<and> ps_state s = Pending \<and>
       list_all (\<lambda>d. step_states steps d = Some StepCompleted) (ps_depends_on s) \<and>
       list_all (\<lambda>t. ps_ordinal s \<le> ps_ordinal t)
         (filter (\<lambda>t. ps_state t = Pending \<and> waits_met steps t) steps)
   | None \<Rightarrow> filter (\<lambda>s. ps_state s = Pending \<and> waits_met steps s) steps = []"
  using next_ready_step_Some [of steps] next_ready_step_None_iff [of steps]
  by (auto simp: list_all_iff waits_met_def filter_empty_conv split: option.splits)

text \<open>
  The blocked steps are exactly the pending steps that cannot start: the least set closed
  under waiting for a step that failed, was skipped or is missing, or for a step of the set. They come in
  ordinal order, and with keys apart a step that is ready is never among them.
\<close>

theorem blocked_steps_exact:
  "(s \<in> set (blocked_steps steps) \<longleftrightarrow> s \<in> set steps \<and> cannot_start steps (ps_key s)) \<and>
   sorted (map ps_ordinal (blocked_steps steps)) \<and>
   (distinct (map ps_key steps) \<longrightarrow> next_ready_step steps = Some s \<longrightarrow>
      s \<notin> set (blocked_steps steps))"
  using blocked_steps_mem blocked_steps_sorted ready_not_blocked by blast

theorem blocked_steps_exact_witness:
  "example_plan_step ''find'' 1 [] \<notin> set (blocked_steps (vp_steps example_plan))"
proof -
  have "distinct (map ps_key (vp_steps example_plan))"
    "next_ready_step (vp_steps example_plan) = Some (example_plan_step ''find'' 1 [])"
    by (simp_all add: example_plan_def next_ready_step_def waits_met_def step_states_def
        example_plan_step_def)
  then show ?thesis
    using blocked_steps_exact [of "example_plan_step ''find'' 1 []" "vp_steps example_plan"] by blast
qed

end
