(* ===== verification/Next_Run.thy ===== *)
theory Next_Run
  imports Plan_Schedule
begin

text \<open>
  The one decision the long-task runner makes per slot: \<open>next_run\<close> of
  \<open>pond-core/src/shared/services/long_task_runner.rs\<close>, with its bounds. The lemmas say when each
  answer is given, that a plan that passed \<open>validate_plan\<close> always has a step to run, and that the
  runner waits only on live work.
\<close>

definition MAX_STEP_ATTEMPTS :: u32 where "MAX_STEP_ATTEMPTS = 2"
definition MAX_FRUITLESS_PLANS :: u32 where "MAX_FRUITLESS_PLANS = 3"

datatype plan_reason = Fresh | Blocked "step_key list"

datatype next_run_choice = Plan plan_reason | Do plan_step | Finish | GiveUp ustr | Wait

definition retry_step :: "plan_step list \<Rightarrow> plan_step option" where
  "retry_step steps =
     min_by_key ps_ordinal
       (filter (\<lambda>s. ps_state s = StepFailed \<and> ps_attempts s < MAX_STEP_ATTEMPTS) steps)"

definition all_settled :: "plan_step list \<Rightarrow> bool" where
  "all_settled steps = list_all (\<lambda>s. ps_state s \<in> {StepCompleted, Skipped}) steps"

definition next_run :: "long_task \<Rightarrow> plan_step list \<Rightarrow> u32 \<Rightarrow> timestamp \<Rightarrow> next_run_choice" where
  "next_run task steps fruitless_plans now =
     (if task_state task \<notin> {Planning, TaskRunning} then Wait
      else if deadline_passed (task_budget task) now
      then GiveUp (lit ''it ran past its deadline'')
      else if MAX_FRUITLESS_PLANS \<le> fruitless_plans
      then GiveUp (show_nat (unat fruitless_plans) @
                   lit '' plans in a row left nothing that could run'')
      else if task_state task = Planning \<or> steps = [] then Plan Fresh
      else case retry_step steps of
        Some retry \<Rightarrow> Do retry
      | None \<Rightarrow>
          if blocked_steps steps \<noteq> [] then Plan (Blocked (map ps_key (blocked_steps steps)))
          else (case next_ready_step steps of
                  Some s \<Rightarrow> Do s
                | None \<Rightarrow>
                    if all_settled steps then Finish
                    else if list_ex (\<lambda>s. ps_state s = StepFailed) steps then Plan (Blocked [])
                    else Wait))"

section \<open>When each answer is given\<close>

definition workable :: "long_task \<Rightarrow> u32 \<Rightarrow> timestamp \<Rightarrow> bool" where
  "workable task fruitless now \<longleftrightarrow>
     task_state task = TaskRunning \<and> \<not> deadline_passed (task_budget task) now \<and>
     fruitless < MAX_FRUITLESS_PLANS"

lemma next_run_workable:
  assumes "workable task fruitless now" "steps \<noteq> []"
  shows "next_run task steps fruitless now =
    (case retry_step steps of
        Some retry \<Rightarrow> Do retry
      | None \<Rightarrow>
          if blocked_steps steps \<noteq> [] then Plan (Blocked (map ps_key (blocked_steps steps)))
          else (case next_ready_step steps of
                  Some s \<Rightarrow> Do s
                | None \<Rightarrow>
                    if all_settled steps then Finish
                    else if list_ex (\<lambda>s. ps_state s = StepFailed) steps then Plan (Blocked [])
                    else Wait))"
proof -
  have "\<not> MAX_FRUITLESS_PLANS \<le> fruitless" "task_state task = TaskRunning"
    "\<not> deadline_passed (task_budget task) now"
    using assms(1) by (simp_all add: workable_def not_le)
  then show ?thesis using assms(2) by (simp add: next_run_def)
qed

lemma retry_step_Some:
  assumes "retry_step steps = Some s"
  shows "s \<in> set steps \<and> ps_state s = StepFailed \<and> ps_attempts s < MAX_STEP_ATTEMPTS"
  using min_by_key_Some [OF assms [unfolded retry_step_def]] by auto

lemma next_run_DoD:
  assumes "next_run task steps fruitless now = Do s"
  shows "workable task fruitless now \<and> s \<in> set steps \<and>
    (ps_state s = StepFailed \<and> ps_attempts s < MAX_STEP_ATTEMPTS \<or>
     ps_state s = Pending \<and> waits_met steps s)"
proof -
  have work: "workable task fruitless now" and "steps \<noteq> []"
    using assms by (auto simp: next_run_def workable_def not_le split: if_splits)
  then have "retry_step steps = Some s \<or> next_ready_step steps = Some s"
    using assms by (auto simp: next_run_workable split: option.splits if_splits)
  then show ?thesis
    using work retry_step_Some next_ready_step_Some by blast
qed

lemma next_run_FinishD:
  assumes "next_run task steps fruitless now = Finish"
  shows "task_state task = TaskRunning \<and> steps \<noteq> [] \<and> all_settled steps"
  using assms by (auto simp: next_run_def split: if_splits option.splits)

lemma all_settled_not_failed:
  "all_settled steps \<Longrightarrow> s \<in> set steps \<Longrightarrow> ps_state s = StepCompleted \<or> ps_state s = Skipped"
  by (auto simp: all_settled_def list_all_iff)

lemma all_settled_Finish:
  assumes work: "workable task fruitless now" "steps \<noteq> []" and settled: "all_settled steps"
  shows "next_run task steps fruitless now = Finish"
proof -
  have "retry_step steps = None"
    using settled by (auto simp: retry_step_def filter_empty_conv dest: all_settled_not_failed)
  moreover have "blocked_steps steps = []"
    using settled cannot_start_pending [of steps]
    by (fastforce simp: blocked_steps_Nil_iff dest: all_settled_not_failed)
  moreover have "next_ready_step steps = None"
    using settled by (auto simp: next_ready_step_None_iff dest: all_settled_not_failed)
  ultimately show ?thesis using settled by (simp add: next_run_workable [OF work])
qed

section \<open>The runner never waits on nothing\<close>

lemma next_run_Wait_live_aux:
  assumes work: "workable task fruitless now" "steps \<noteq> []"
    and dist: "distinct (map ps_key steps)" and acyc: "acyclic (pending_waits steps)"
    and wait: "next_run task steps fruitless now = Wait"
  shows "\<exists>s \<in> set steps. live_step s"
proof (rule ccontr)
  assume "\<not> (\<exists>s \<in> set steps. live_step s)"
  then have dead: "\<forall>s \<in> set steps. \<not> live_step s" by blast
  have r: "blocked_steps steps = []" "next_ready_step steps = None" "\<not> all_settled steps"
    "\<not> list_ex (\<lambda>s. ps_state s = StepFailed) steps"
    using wait by (auto simp: next_run_workable [OF work] split: option.splits if_splits)
  obtain s where s: "s \<in> set steps" "ps_state s \<notin> {StepCompleted, Skipped}"
    using r(3) by (auto simp: all_settled_def list_all_iff)
  then have "ps_state s = Pending"
    using r(4) dead by (cases "ps_state s") (auto simp: live_step_def list_ex_iff)
  then show False
    using next_ready_exists [OF dist acyc r(1) dead s(1)] r(2) by simp
qed

section \<open>A plan that passed always runs\<close>

text \<open>The steps a task has once a plan is stored: what was kept, then the new steps.\<close>

definition plan_rows :: "plan_step list \<Rightarrow> validated_plan \<Rightarrow> plan_step list" where
  "plan_rows existing p = kept_steps existing @ vp_steps p"

lemma kept_steps_state:
  "s \<in> set (kept_steps existing) \<Longrightarrow> ps_state s = StepCompleted \<or> ps_state s = StepRunning"
  by (cases "ps_state s") (auto simp: kept_steps_mem)

lemma distinct_kept: "distinct (map ps_key existing) \<Longrightarrow> distinct (map ps_key (kept_steps existing))"
  by (simp add: kept_steps_def distinct_map inj_on_def)

lemma plan_okD:
  assumes "plan_ok task existing p"
  shows plan_ok_distinct: "distinct (map ps_key (vp_steps p))"
    and plan_ok_apart: "ps_key ` set (kept_steps existing) \<inter> ps_key ` set (vp_steps p) = {}"
    and plan_ok_acyclic: "acyclic (key_waits (vp_steps p))"
    and plan_ok_fresh: "s \<in> set (vp_steps p) \<Longrightarrow>
      fresh_step (task_id task) (map ps_key (vp_steps p) @ map ps_key (kept_steps existing)) s"
proof -
  have kept: "vp_kept p = map ps_key (kept_steps existing)"
    using assms by (simp add: plan_ok_def)
  note ok = assms [unfolded plan_ok_def kept]
  show "distinct (map ps_key (vp_steps p))" "acyclic (key_waits (vp_steps p))"
    "ps_key ` set (kept_steps existing) \<inter> ps_key ` set (vp_steps p) = {}"
    using ok by (simp_all add: Int_commute)
  show "fresh_step (task_id task) (map ps_key (vp_steps p) @ map ps_key (kept_steps existing)) s"
    if "s \<in> set (vp_steps p)"
    using ok that by (simp add: list_all_iff)
qed

lemma plan_rows_distinct:
  assumes "plan_ok task existing p" "distinct (map ps_key existing)"
  shows "distinct (map ps_key (plan_rows existing p))"
  using distinct_kept [OF assms(2)] plan_okD(1,2) [OF assms(1)] by (simp add: plan_rows_def)

lemma plan_rows_fresh:
  assumes "plan_ok task existing p" "s \<in> set (vp_steps p)"
  shows "ps_state s = Pending \<and>
    set (ps_depends_on s) \<subseteq> ps_key ` set (plan_rows existing p)"
  using plan_ok_fresh [OF assms] by (simp add: fresh_step_def plan_rows_def image_Un Un_commute)

lemma plan_rows_state:
  assumes "plan_ok task existing p" "s \<in> set (plan_rows existing p)"
  shows "ps_state s \<in> {StepCompleted, StepRunning, Pending}"
  using assms plan_rows_fresh [OF assms(1)] kept_steps_state
  by (fastforce simp: plan_rows_def)

lemma plan_rows_unblocked:
  assumes ok: "plan_ok task existing p" and dist: "distinct (map ps_key existing)"
  shows "\<not> cannot_start (plan_rows existing p) k"
proof
  assume "cannot_start (plan_rows existing p) k"
  then show False
  proof (induction rule: cannot_start.induct)
    case (dead s d)
    then have "s \<in> set (vp_steps p)"
      using kept_steps_state by (fastforce simp: plan_rows_def)
    then obtain t where t: "t \<in> set (plan_rows existing p)" "ps_key t = d"
      using plan_rows_fresh [OF ok] dead(3) by blast
    then have "step_states (plan_rows existing p) d = Some (ps_state t)"
      using step_states_key [OF plan_rows_distinct [OF ok dist]] by blast
    then show False using dead(4) plan_rows_state [OF ok t(1)] by auto
  qed
qed

lemma plan_rows_pending:
  "plan_ok task existing p \<Longrightarrow>
     filter (\<lambda>s. ps_state s = Pending) (plan_rows existing p) = vp_steps p"
  by (auto simp: plan_rows_def filter_empty_conv filter_id_conv plan_rows_fresh
      dest: kept_steps_state)

lemma plan_rows_acyclic:
  "plan_ok task existing p \<Longrightarrow> acyclic (pending_waits (plan_rows existing p))"
  by (simp add: pending_waits_def plan_rows_pending plan_ok_acyclic)

lemma validated_plan_runs_aux:
  assumes plan: "validate_plan task drafts existing = Ok p" and new: "drafts \<noteq> []"
    and dist: "distinct (map ps_key existing)"
    and idle: "\<forall>s \<in> set existing. ps_state s \<noteq> StepRunning"
    and work: "workable task' fruitless now"
  shows "\<exists>s. next_run task' (plan_rows existing p) fruitless now = Do s \<and> s \<in> set (vp_steps p)"
proof -
  note ok = validate_plan_ok_aux [OF plan]
  let ?rows = "plan_rows existing p"
  have states: "ps_state s \<in> {StepCompleted, Pending}" if "s \<in> set ?rows" for s
    using that plan_rows_state [OF ok that] plan_rows_fresh [OF ok] idle
    by (auto simp: plan_rows_def kept_steps_mem)
  then have dead: "\<forall>s \<in> set ?rows. \<not> live_step s" by (fastforce simp: live_step_def)
  have "length (vp_steps p) = length drafts"
    using plan by (rule validate_plan_shape) (metis length_map)
  then obtain s where s: "s \<in> set (vp_steps p)"
    using new by (cases "vp_steps p") auto
  have free: "blocked_steps ?rows = []"
    using plan_rows_unblocked [OF ok dist] by (simp add: blocked_steps_Nil_iff)
  have "next_ready_step ?rows \<noteq> None"
    using next_ready_exists [OF plan_rows_distinct [OF ok dist] plan_rows_acyclic [OF ok] free dead,
        of s] s plan_rows_fresh [OF ok s] by (simp add: plan_rows_def)
  then obtain r where r: "next_ready_step ?rows = Some r" by blast
  then have "r \<in> set (filter (\<lambda>s. ps_state s = Pending) ?rows)"
    using next_ready_step_Some [OF r] by simp
  then have "r \<in> set (vp_steps p)" by (simp only: plan_rows_pending [OF ok])
  moreover have "retry_step ?rows = None"
    using states by (fastforce simp: retry_step_def filter_empty_conv)
  moreover have "?rows \<noteq> []" using s by (auto simp: plan_rows_def)
  ultimately show ?thesis
    using r free by (simp add: next_run_workable [OF work])
qed

section \<open>Properties\<close>

lemma workable_example: "workable (example_task\<lparr>task_state := TaskRunning\<rparr>) 0 20"
  by (simp add: workable_def example_task_def example_budget_def deadline_passed_def
      MAX_FRUITLESS_PLANS_def)

text \<open>
  C2: The runner never waits on nothing. For a running task within its deadline and its fruitless
  plans, whose steps have keys apart and whose pending waits have no circle, the decision is to
  wait only while some step is running or awaits approval: a plan cannot deadlock.
\<close>

theorem next_run_no_deadlock:
  assumes "workable task fruitless now" "steps \<noteq> []" "distinct (map ps_key steps)"
    "acyclic (pending_waits steps)" "next_run task steps fruitless now = Wait"
  shows "\<exists>s \<in> set steps. live_step s"
  using assms by (rule next_run_Wait_live_aux)

theorem next_run_no_deadlock_witness: "\<exists>s \<in> set [example_running]. live_step s"
proof (rule next_run_no_deadlock [OF workable_example])
  show "next_run (example_task\<lparr>task_state := TaskRunning\<rparr>) [example_running] 0 20 = Wait"
    by (subst next_run_workable [OF workable_example])
       (simp_all add: retry_step_def blocked_steps_def blocked_keys.simps newly_blocked_def
         next_ready_step_def all_settled_def example_running_def example_step_def Let_def)
  show "acyclic (pending_waits [example_running])"
    by (simp add: pending_waits_def key_waits_def acyclic_def example_running_def)
qed simp_all



text \<open>
  What the runner starts is always allowed and worth starting: a pending step whose waits are
  all completed, or a failed one with an attempt left, of a running task in time; and it declares a
  task finished exactly when such a task has steps and all are completed or skipped.
\<close>

theorem next_run_choices:
  "(next_run task steps fruitless now = Do s \<longrightarrow>
      workable task fruitless now \<and> s \<in> set steps \<and>
      (ps_state s = StepFailed \<and> ps_attempts s < MAX_STEP_ATTEMPTS \<or>
       ps_state s = Pending \<and> waits_met steps s)) \<and>
   (next_run task steps fruitless now = Finish \<longrightarrow>
      task_state task = TaskRunning \<and> steps \<noteq> [] \<and> all_settled steps) \<and>
   (workable task fruitless now \<longrightarrow> steps \<noteq> [] \<longrightarrow> all_settled steps \<longrightarrow>
      next_run task steps fruitless now = Finish)"
  using next_run_DoD next_run_FinishD all_settled_Finish by blast

theorem next_run_choices_witness:
  "next_run (example_task\<lparr>task_state := TaskRunning\<rparr>)
     [example_step\<lparr>ps_state := StepCompleted\<rparr>] 0 20 = Finish"
proof -
  let ?steps = "[example_step\<lparr>ps_state := StepCompleted\<rparr>]"
  have "all_settled ?steps" "?steps \<noteq> []" by (simp_all add: all_settled_def)
  then show ?thesis
    using next_run_choices [of "example_task\<lparr>task_state := TaskRunning\<rparr>" ?steps 0 20 example_step]
      workable_example
    by blast
qed

end
