(* ===== verification/Long_Task_Queue.thy ===== *)
theory Long_Task_Queue
  imports Long_Task Ledger_Text Plan_Cycle
    "HOL-Library.List_Lexorder" "HOL-Library.Product_Lexorder" "HOL-Library.Multiset"
    "HOL-Library.Sublist"
begin

text \<open>
  The line open long tasks wait in: \<open>pond-core/src/shared/services/long_task_queue.rs\<close>. Ids are compared
  as Rust compares strings, which on UTF-8 is the lexicographic order of the characters.
\<close>

definition GOAL_CHARS :: nat where "GOAL_CHARS = 80"
definition ACTIVATION_TASK_ID_PREFIX :: ustr where "ACTIVATION_TASK_ID_PREFIX = lit ''agent-''"

definition is_activation_task :: "long_task \<Rightarrow> bool" where
  "is_activation_task t \<longleftrightarrow> prefix ACTIVATION_TASK_ID_PREFIX (task_id t)"

definition is_open :: "long_task \<Rightarrow> bool" where
  "is_open t \<longleftrightarrow> task_state t \<in> {Planning, TaskRunning}"

definition run_key :: "long_task \<Rightarrow> bool \<times> timestamp \<times> ustr" where
  "run_key t = (is_activation_task t, task_created_at t, task_id t)"

definition run_order :: "long_task list \<Rightarrow> long_task list" where
  "run_order tasks = sort_key run_key (filter is_open tasks)"

definition reaches :: "ustr option \<Rightarrow> long_task \<Rightarrow> bool" where
  "reaches viewer t =
     (case task_owner t of None \<Rightarrow> True | Some owner \<Rightarrow> viewer = Some owner)"

datatype ahead = Reachable long_task | AnotherMember

record queue_place =
  place_position :: nat
  place_of_total :: nat
  place_ahead :: "ahead list"

definition is_waiting :: "queue_place \<Rightarrow> bool" where
  "is_waiting p \<longleftrightarrow> place_position p > 1"

definition seen_by :: "ustr option \<Rightarrow> long_task \<Rightarrow> ahead" where
  "seen_by viewer t = (if reaches viewer t then Reachable t else AnotherMember)"

definition place_of :: "long_task list \<Rightarrow> ustr \<Rightarrow> ustr option \<Rightarrow> queue_place option" where
  "place_of order i viewer =
     (case position (\<lambda>t. task_id t = i) order of
        None \<Rightarrow> None
      | Some index \<Rightarrow>
          Some \<lparr>place_position = index + 1, place_of_total = length order,
                place_ahead = map (seen_by viewer) (take index order)\<rparr>)"

definition clip :: "ustr \<Rightarrow> ustr" where
  "clip goal =
     (let g = one_line goal in
      if length g \<le> GOAL_CHARS then g else trim_end (take GOAL_CHARS g) @ lit ''...'')"

fun ahead_line :: "ahead \<Rightarrow> ustr option" where
  "ahead_line (Reachable t) = Some ([34] @ clip (task_goal t) @ [34])"
| "ahead_line AnotherMember = None"

definition waiting_line :: "queue_place \<Rightarrow> ustr option" where
  "waiting_line place =
     (if \<not> is_waiting place then None
      else
        (let theirs = List.map_filter ahead_line (place_ahead place);
             others = length (place_ahead place) - length theirs;
             ahead =
               (if theirs \<noteq> [] then [join_with (lit '', '') theirs] else []) @
               (if others = 0 then []
                else if others = 1 then [lit ''one task for another member'']
                else [show_nat others @ lit '' tasks for other members'']);
             line =
               lit ''It is number '' @ show_nat (place_position place) @
               lit '' in line, so it starts once '' @ join_with (lit '' and '') ahead @ lit '' '' @
               (if length (place_ahead place) = 1 then lit ''finishes'' else lit ''finish'') @
               lit ''.''
         in Some (line @
              (if theirs \<noteq> []
               then lit '' Tell the person it waits its turn, and that the task's card in the chat lets them stop any of their tasks they no longer need.''
               else lit '' Tell the person it waits its turn.''))))"

section \<open>The order\<close>

lemma set_run_order: "set (run_order tasks) = {t \<in> set tasks. is_open t}"
  by (auto simp: run_order_def)

lemma mset_run_order: "mset (run_order tasks) = mset (filter is_open tasks)"
  by (simp add: run_order_def)

lemma sorted_run_order: "sorted (map run_key (run_order tasks))"
  by (simp add: run_order_def)

lemma run_order_filter: "run_order (filter p tasks) = filter p (run_order tasks)"
  by (simp add: run_order_def filter_sort conj_commute)

lemma position_append_new:
  "\<forall>t \<in> set xs. \<not> p t \<Longrightarrow> p t \<Longrightarrow> position p (xs @ t # ys) = Some (length xs)"
  by (induction xs) auto

lemma place_of_Some:
  assumes "place_of order i viewer = Some p"
  shows "0 < place_position p \<and> place_position p \<le> place_of_total p \<and>
    place_of_total p = length order \<and> length (place_ahead p) = place_position p - 1 \<and>
    task_id (order ! (place_position p - 1)) = i"
  using assms by (auto simp: place_of_def dest!: position_Some split: option.splits)

lemma place_of_None_iff: "place_of order i viewer = None \<longleftrightarrow> i \<notin> task_id ` set order"
proof -
  have "place_of order i viewer = None \<longleftrightarrow> position (\<lambda>t. task_id t = i) order = None"
    by (simp add: place_of_def split: option.splits)
  then show ?thesis by (auto simp: position_None_iff)
qed

section \<open>What a viewer learns\<close>

text \<open>Two lines look alike to a viewer when they differ only in tasks the viewer does not reach.\<close>

definition looks_alike :: "ustr option \<Rightarrow> long_task \<Rightarrow> long_task \<Rightarrow> bool" where
  "looks_alike viewer a b \<longleftrightarrow>
     task_id a = task_id b \<and> (reaches viewer a \<longleftrightarrow> reaches viewer b) \<and>
     (reaches viewer a \<longrightarrow> a = b)"

lemma position_cong_list_all2:
  "list_all2 (\<lambda>a b. p a = q b) xs ys \<Longrightarrow> position p xs = position q ys"
  by (induction rule: list_all2_induct) auto

lemma seen_by_alike: "looks_alike viewer a b \<Longrightarrow> seen_by viewer a = seen_by viewer b"
  unfolding looks_alike_def seen_by_def by metis

lemma map_seen_by_alike:
  "list_all2 (looks_alike viewer) xs ys \<Longrightarrow> map (seen_by viewer) xs = map (seen_by viewer) ys"
  by (induction rule: list_all2_induct) (simp_all add: seen_by_alike)

lemma place_of_alike:
  assumes "list_all2 (looks_alike viewer) order order'"
  shows "place_of order i viewer = place_of order' i viewer"
proof -
  have "list_all2 (\<lambda>a b. (task_id a = i) = (task_id b = i)) order order'"
    using assms by (rule list_all2_mono) (simp add: looks_alike_def)
  then have pos: "position (\<lambda>t. task_id t = i) order = position (\<lambda>t. task_id t = i) order'"
    by (rule position_cong_list_all2)
  have len: "length order = length order'" using assms by (rule list_all2_lengthD)
  have "map (seen_by viewer) (take k order) = map (seen_by viewer) (take k order')" for k
    using map_seen_by_alike list_all2_takeI [OF assms, of k] by blast
  then show ?thesis
    unfolding place_of_def pos len by presburger
qed

lemma length_clip: "length (clip goal) \<le> GOAL_CHARS + 3"
proof -
  have "length (trim_end (take GOAL_CHARS (one_line goal))) \<le> GOAL_CHARS"
    by (rule order_trans [OF length_trim_end_le]) simp
  then show ?thesis by (simp add: clip_def Let_def)
qed

section \<open>Properties\<close>

text \<open>
  The line is fair and stable: it holds exactly the tasks that are planning or running, each
  once as often as listed; the ones a member asked for come before those an agent activation
  started, and within each the earlier ask comes first; and taking tasks out never changes the
  order of those that remain, so no task is ever overtaken by another.
\<close>

theorem run_order_fair:
  "mset (run_order tasks) = mset (filter is_open tasks) \<and>
   sorted (map (\<lambda>t. (is_activation_task t, task_created_at t, task_id t)) (run_order tasks)) \<and>
   run_order (filter p tasks) = filter p (run_order tasks)"
  using mset_run_order sorted_run_order [of tasks] run_order_filter
  by (simp add: run_key_def [abs_def])

text \<open>
  Where a task stands is told exactly: a place is given only for a task in the line, its
  number counts the tasks before it plus one, and a task not in the line has no place.
\<close>

theorem place_of_exact:
  "case place_of order i viewer of
     Some p \<Rightarrow> 0 < place_position p \<and> place_position p \<le> place_of_total p \<and>
       place_of_total p = length order \<and> length (place_ahead p) = place_position p - 1 \<and>
       task_id (order ! (place_position p - 1)) = i
   | None \<Rightarrow> i \<notin> task_id ` set order"
  using place_of_Some [of order i viewer] place_of_None_iff [of order i viewer]
  by (auto split: option.splits)

text \<open>
  Another member's task is theirs alone. What a viewer is told of the line, and the sentence
  the assistant says about it, does not depend on anything but the number of the tasks the viewer does not
  reach: replacing their goals, scopes, times or owners changes nothing.
\<close>

theorem waiting_line_confidential:
  assumes "list_all2 (looks_alike viewer) order order'"
  shows "place_of order i viewer = place_of order' i viewer \<and>
    map_option waiting_line (place_of order i viewer) =
    map_option waiting_line (place_of order' i viewer)"
  using place_of_alike [OF assms] by simp

theorem waiting_line_confidential_witness:
  "map_option waiting_line
     (place_of [example_task, example_task\<lparr>task_id := lit ''t2''\<rparr>] (lit ''t2'') (Some (lit ''ben''))) =
   map_option waiting_line
     (place_of [example_task\<lparr>task_goal := lit ''surprise party''\<rparr>, example_task\<lparr>task_id := lit ''t2''\<rparr>]
        (lit ''t2'') (Some (lit ''ben'')))"
  using waiting_line_confidential [of "Some (lit ''ben'')"
      "[example_task, example_task\<lparr>task_id := lit ''t2''\<rparr>]"
      "[example_task\<lparr>task_goal := lit ''surprise party''\<rparr>, example_task\<lparr>task_id := lit ''t2''\<rparr>]"
      "lit ''t2''"]
  by (simp add: looks_alike_def reaches_def example_task_def)

end
