(* ===== verification/Tool_Groups.thy ===== *)
theory Tool_Groups
  imports Profile_Scope
    "HOL-Library.List_Lexorder" "HOL-Library.Product_Lexorder" "HOL-Library.Multiset"
    "HOL-Library.Sublist"
begin

text \<open>
  The catalogue of tool groups, \<open>pond-core/src/mcp/domain/tool_group.rs\<close>: one group per built-in tool
  server, which groups an unidentified speaker and a helper are denied, the single tools a long
  task's helper may read the house with, the tools that need a stored secret, and the order in which
  a turn's tools are sent so that turns share the longest prompt prefix.
\<close>

section \<open>Names and texts\<close>

definition CORE_RATIONALE :: ustr where
  "CORE_RATIONALE =
       lit ''memory=cross-cutting, system=time, toolkit=escape, knowledge=facts and the '' @
       lit ''web''"

definition TOOLKIT_EXTENSION :: ustr where
  "TOOLKIT_EXTENSION = lit ''giap-toolkit''"

definition ORCHESTRATOR_EXTENSION :: ustr where
  "ORCHESTRATOR_EXTENSION = lit ''giap-orchestrator''"

definition TRAVEL_EXTENSION :: ustr where
  "TRAVEL_EXTENSION = lit ''giap-travel''"

definition TASKS_EXTENSION :: ustr where
  "TASKS_EXTENSION = lit ''giap-tasks''"

definition TASK_WORK_EXTENSION :: ustr where
  "TASK_WORK_EXTENSION = lit ''giap-task-work''"

definition INTERVIEW_EXTENSION :: ustr where
  "INTERVIEW_EXTENSION = lit ''giap-interview''"

definition TOOL_NAME_SEPARATOR :: ustr where
  "TOOL_NAME_SEPARATOR = lit ''__''"

definition NO_TOOLS_ENV :: ustr where
  "NO_TOOLS_ENV = lit ''GIAP_NO_TOOLS''"

definition KNOWLEDGE_WITH_WEB_AND_COMPUTE :: ustr where
  "KNOWLEDGE_WITH_WEB_AND_COMPUTE =
       lit ''Looking things up, working things out and searching the web: encyclopedia '' @
       lit ''articles about people, places and events, exact arithmetic, unit '' @
       lit ''conversions and dates, the web for anything current, local or specific, '' @
       lit ''such as news, opening hours, prices and products, and reading a web page '' @
       lit ''from its link.''"

definition KNOWLEDGE_WITH_WEB :: ustr where
  "KNOWLEDGE_WITH_WEB =
       lit ''Looking things up and searching the web: encyclopedia articles about '' @
       lit ''people, places and events, the web for anything current, local or specific, '' @
       lit ''such as news, opening hours, prices and products, and reading a web page '' @
       lit ''from its link.''"

definition KNOWLEDGE_WITH_COMPUTE :: ustr where
  "KNOWLEDGE_WITH_COMPUTE =
       lit ''Looking things up and working things out: encyclopedia articles about '' @
       lit ''people, places and events, exact arithmetic, unit conversions and dates, '' @
       lit ''and reading a web page from its link.''"

definition KNOWLEDGE_ALONE :: ustr where
  "KNOWLEDGE_ALONE =
       lit ''Looking things up: encyclopedia articles about people, places and events, '' @
       lit ''and reading a web page from its link.''"

definition SEARCH_WEB_TOOL :: ustr where
  "SEARCH_WEB_TOOL = lit ''giap-knowledge__search_web''"

definition BRAVE_SEARCH_API_KEY :: ustr where
  "BRAVE_SEARCH_API_KEY = lit ''BRAVE_SEARCH_API_KEY''"

definition COMPUTE_ANSWER_TOOL :: ustr where
  "COMPUTE_ANSWER_TOOL = lit ''giap-knowledge__compute_answer''"

definition WOLFRAM_APP_ID :: ustr where
  "WOLFRAM_APP_ID = lit ''WOLFRAM_APP_ID''"

section \<open>The catalogue\<close>

record tool_group =
  group_extension :: ustr
  group_text :: ustr
  group_core :: bool

definition TOOL_GROUPS :: "tool_group list" where
  "TOOL_GROUPS =
    [\<lparr>group_extension = lit ''giap-memory'',
       group_text =
       lit ''The user's long-term memories: remember a fact or preference about them, '' @
       lit ''recall what they have told you before, or forget something they no longer '' @
       lit ''want kept.'',
       group_core = True\<rparr>,
     \<lparr>group_extension = lit ''giap-system'',
       group_text =
       lit ''This machine and the current moment: the date, time and timezone, operating '' @
       lit ''system and hostname, memory and disk usage, and desktop notifications.'',
       group_core = True\<rparr>,
     \<lparr>group_extension = TOOLKIT_EXTENSION,
       group_text =
       lit ''Which groups of tools are loaded for this conversation, and loading another '' @
       lit ''group when a capability you need is not currently available.'',
       group_core = True\<rparr>,
     \<lparr>group_extension = lit ''giap-schedule'',
       group_text =
       lit ''Reminders, alarms, timers, recurring routines and scheduled tasks: set a '' @
       lit ''one-shot timer for a few minutes or hours from now, create a repeating '' @
       lit ''schedule, list or inspect what is scheduled, change or pause or delete one, '' @
       lit ''run one now, and review past runs. Anything about doing something later or '' @
       lit ''every day at a certain time.'',
       group_core = False\<rparr>,
     \<lparr>group_extension = lit ''giap-weather'',
       group_text =
       lit ''The weather: current conditions and the forecast for the days ahead, '' @
       lit ''temperature, rain, whether to take an umbrella, for here or another place.'',
       group_core = False\<rparr>,
     \<lparr>group_extension = lit ''giap-knowledge'',
       group_text =
       KNOWLEDGE_WITH_WEB_AND_COMPUTE,
       group_core = True\<rparr>,
     \<lparr>group_extension = lit ''giap-device'',
       group_text =
       lit ''The smart-home devices in this house: which lights, plugs, sensors, '' @
       lit ''thermostats and appliances are registered, which rooms they are in, whether '' @
       lit ''they are online, and what state they report.'',
       group_core = False\<rparr>,
     \<lparr>group_extension = lit ''giap-device-control'',
       group_text =
       lit ''Actually operating the smart-home devices: turning a light or plug or '' @
       lit ''appliance on and off, changing brightness or colour or temperature, opening '' @
       lit ''or closing something, setting a device to a new state.'',
       group_core = False\<rparr>,
     \<lparr>group_extension = lit ''giap-sensors'',
       group_text =
       lit ''Sensor readings over time: temperature, humidity, air quality, power use '' @
       lit ''and other measurements from sensors in the house, their latest values and '' @
       lit ''their history.'',
       group_core = False\<rparr>,
     \<lparr>group_extension = lit ''giap-context'',
       group_text =
       lit ''The speaker's own personal context, from sources they connected: what a '' @
       lit ''camera or sensor of theirs has recorded, searched by meaning or listed by '' @
       lit ''recency. Read-only, and scoped to whoever is speaking.'',
       group_core = False\<rparr>,
     \<lparr>group_extension = lit ''giap-vision'',
       group_text =
       lit ''Fixed home cameras and vision bus: check what the cameras see, show or send '' @
       lit ''a camera picture or live video feed, recognize household faces and who is '' @
       lit ''in frame, read recent vision events (motion, person, pet, vehicle, package, '' @
       lit ''face_recognized, face_unknown), adjust camera FPS or sensitivity, and '' @
       lit ''create or manage vision automations and face triggers.'',
       group_core = False\<rparr>,
     \<lparr>group_extension = TRAVEL_EXTENSION,
       group_text =
       lit ''Getting somewhere: directions and a map link to a place, or a taxi or ride '' @
       lit ''with Uber or Bolt to the airport, a mall, an office or home.'',
       group_core = False\<rparr>,
     \<lparr>group_extension = ORCHESTRATOR_EXTENSION,
       group_text =
       lit ''Handing a piece of work to a named specialist agent that runs on its own '' @
       lit ''and reports back: research a question in depth, work through a longer task '' @
       lit ''under a saved role, or have a second agent do something while this '' @
       lit ''conversation carries on.'',
       group_core = False\<rparr>,
     \<lparr>group_extension = TASKS_EXTENSION,
       group_text =
       lit ''A big piece of work that takes more than one sitting, such as researching '' @
       lit ''and comparing options or going through a long document: start it so the '' @
       lit ''pond works on it while the house is quiet, ask how far it has got, or stop '' @
       lit ''it.'',
       group_core = False\<rparr>,
     \<lparr>group_extension = INTERVIEW_EXTENSION,
       group_text =
       lit ''Running a member's setup interview: note each answer or skipped question, '' @
       lit ''draft their standing notes, and save the notes once they approve them.'',
       group_core = False\<rparr>,
     \<lparr>group_extension = TASK_WORK_EXTENSION,
       group_text =
       lit ''Working on one step of a long task: read what earlier steps saved, save '' @
       lit ''what this step found, write the task's plan, and report how the step went.'',
       group_core = False\<rparr>]"

fun no_tools_from :: "ustr option \<Rightarrow> bool" where
  "no_tools_from None = False"
| "no_tools_from (Some v) =
     (trim v \<notin> {[], lit ''0'', lit ''false'', lit ''no''})"

definition find_group :: "ustr \<Rightarrow> tool_group option" where
  "find_group extension = List.find (\<lambda>g. group_extension g = extension) TOOL_GROUPS"

definition is_catalog_extension :: "ustr \<Rightarrow> bool" where
  "is_catalog_extension extension \<longleftrightarrow> find_group extension \<noteq> None"

definition core_group_names :: "ustr list" where
  "core_group_names = map group_extension (filter group_core TOOL_GROUPS)"

definition group_description :: "tool_group \<Rightarrow> (ustr \<Rightarrow> bool) \<Rightarrow> ustr" where
  "group_description g is_withheld =
     (if group_extension g \<noteq> lit ''giap-knowledge'' then group_text g
      else (case (is_withheld SEARCH_WEB_TOOL, is_withheld COMPUTE_ANSWER_TOOL) of
              (False, False) \<Rightarrow> KNOWLEDGE_WITH_WEB_AND_COMPUTE
            | (False, True) \<Rightarrow> KNOWLEDGE_WITH_WEB
            | (True, False) \<Rightarrow> KNOWLEDGE_WITH_COMPUTE
            | (True, True) \<Rightarrow> KNOWLEDGE_ALONE))"

section \<open>Tools behind a secret\<close>

record tool_requirement =
  req_tool :: ustr
  req_secret :: ustr

definition TOOL_REQUIREMENTS :: "tool_requirement list" where
  "TOOL_REQUIREMENTS =
     [\<lparr>req_tool = SEARCH_WEB_TOOL, req_secret = BRAVE_SEARCH_API_KEY\<rparr>,
      \<lparr>req_tool = COMPUTE_ANSWER_TOOL, req_secret = WOLFRAM_APP_ID\<rparr>]"

definition required_secret :: "ustr \<Rightarrow> ustr option" where
  "required_secret tool_name =
     map_option req_secret (List.find (\<lambda>r. req_tool r = tool_name) TOOL_REQUIREMENTS)"

definition tools_missing_secrets :: "ustr list \<Rightarrow> (ustr \<Rightarrow> bool) \<Rightarrow> ustr list" where
  "tools_missing_secrets tools is_stored =
     filter (\<lambda>tool. case required_secret tool of
                       None \<Rightarrow> False | Some secret \<Rightarrow> \<not> is_stored secret) tools"

section \<open>The group of a tool\<close>

text \<open>The text before the first occurrence of a separator, as \<open>str::find\<close> locates it.\<close>

fun before_sep :: "ustr \<Rightarrow> ustr \<Rightarrow> ustr option" where
  "before_sep sep [] = (if sep = [] then Some [] else None)"
| "before_sep sep (c # cs) =
     (if prefix sep (c # cs) then Some [] else map_option ((#) c) (before_sep sep cs))"

definition group_of_tool :: "ustr \<Rightarrow> ustr option" where
  "group_of_tool tool_name = before_sep TOOL_NAME_SEPARATOR tool_name"

definition prefix_tier :: "ustr \<Rightarrow> nat" where
  "prefix_tier tool_name =
     (let extension = (case before_sep (lit ''__'') tool_name of
                         None \<Rightarrow> tool_name | Some e \<Rightarrow> e)
      in case find_group extension of
           None \<Rightarrow> 2
         | Some g \<Rightarrow>
             if group_core g \<and> required_secret tool_name = None then 0
             else if group_core g then 1 else 2)"

definition prefix_sort_key :: "ustr \<Rightarrow> nat \<times> ustr" where
  "prefix_sort_key tool_name = (prefix_tier tool_name, tool_name)"

text \<open>The order in which a turn's tools are handed to the provider.\<close>

definition prompt_order :: "ustr list \<Rightarrow> ustr list" where
  "prompt_order names = sort_key prefix_sort_key names"

section \<open>Who is denied which group\<close>

definition groups_denied_to_guests :: "ustr list" where
  "groups_denied_to_guests =
     [lit ''giap-memory'', lit ''giap-sensors'', lit ''giap-vision'', lit ''giap-context'',
      ORCHESTRATOR_EXTENSION, TRAVEL_EXTENSION, TASKS_EXTENSION, TASK_WORK_EXTENSION,
      INTERVIEW_EXTENSION]"

definition HOUSEHOLD_READ_TOOLS :: "ustr list" where
  "HOUSEHOLD_READ_TOOLS =
     [lit ''giap-vision__get_recent_camera_events'', lit ''giap-vision__list_vision_automations'',
      lit ''giap-schedule__list_schedules'', lit ''giap-device__list_registered_devices'']"

definition groups_denied_to_subagents :: "ustr list" where
  "groups_denied_to_subagents =
     [TOOLKIT_EXTENSION, lit ''giap-device-control'', lit ''giap-system'', lit ''giap-schedule'',
      ORCHESTRATOR_EXTENSION, TRAVEL_EXTENSION, lit ''giap-vision'', TASKS_EXTENSION,
      INTERVIEW_EXTENSION]"

section \<open>Lemmas\<close>

lemmas extension_names =
  TOOLKIT_EXTENSION_def ORCHESTRATOR_EXTENSION_def TRAVEL_EXTENSION_def TASKS_EXTENSION_def
  TASK_WORK_EXTENSION_def INTERVIEW_EXTENSION_def

lemma catalog_extensions:
  "map group_extension TOOL_GROUPS =
     map lit [''giap-memory'', ''giap-system'', ''giap-toolkit'', ''giap-schedule'',
       ''giap-weather'', ''giap-knowledge'', ''giap-device'', ''giap-device-control'',
       ''giap-sensors'', ''giap-context'', ''giap-vision'', ''giap-travel'',
       ''giap-orchestrator'', ''giap-tasks'', ''giap-interview'', ''giap-task-work'']"
  by (simp add: TOOL_GROUPS_def extension_names)

lemma find_group_None: "find_group e = None \<longleftrightarrow> e \<notin> set (map group_extension TOOL_GROUPS)"
  by (auto simp: find_group_def find_None_iff)

lemma find_group_Some: "find_group e = Some g \<Longrightarrow> g \<in> set TOOL_GROUPS \<and> group_extension g = e"
  by (auto simp: find_group_def find_Some_iff)

lemma before_sep_Some:
  "before_sep sep s = Some e \<Longrightarrow> \<exists>rest. s = e @ sep @ rest"
proof (induction s arbitrary: e)
  case (Cons c cs)
  show ?case
  proof (cases "prefix sep (c # cs)")
    case True
    with Cons.prems show ?thesis by (auto simp: prefix_def)
  next
    case False
    with Cons.prems obtain e' where "before_sep sep cs = Some e'" "e = c # e'" by auto
    with Cons.IH show ?thesis by auto
  qed
qed (auto split: if_splits)

lemma before_sep_first:
  "before_sep sep s = Some e \<Longrightarrow> s = e' @ sep @ r \<Longrightarrow> length e \<le> length e'"
proof (induction s arbitrary: e e')
  case (Cons c cs)
  show ?case
  proof (cases e')
    case Nil
    with Cons.prems(2) have "prefix sep (c # cs)" by auto
    then have "e = []" using Cons.prems(1) by (simp only: before_sep.simps if_True option.inject)
    then show ?thesis by simp
  next
    case (Cons d ds)
    with Cons.prems(2) have "cs = ds @ sep @ r" by simp
    then show ?thesis
      using Cons.prems(1) Cons.IH [of _ ds] \<open>e' = d # ds\<close>
      by (cases "prefix sep (c # cs)") auto
  qed
qed (auto split: if_splits)

lemma prompt_order_core_block:
  "takeWhile (\<lambda>t. prefix_tier t = 0) (prompt_order names) =
     prompt_order (filter (\<lambda>t. prefix_tier t = 0) names)"
proof -
  let ?P = "\<lambda>t. prefix_tier t = 0"
  let ?s = "prompt_order names"
  have sorted: "sorted (map prefix_sort_key ?s)"
    by (simp add: prompt_order_def)
  have "\<not> ?P t" if t: "t \<in> set (dropWhile ?P ?s)" for t
  proof -
    obtain d ds where dd: "dropWhile ?P ?s = d # ds" using t by (cases "dropWhile ?P ?s") auto
    have "\<not> ?P (hd (dropWhile ?P ?s))" by (rule hd_dropWhile) (simp add: dd)
    then have "\<not> ?P d" by (simp add: dd)
    moreover have "sorted (map prefix_sort_key (d # ds))"
    proof -
      have "map prefix_sort_key ?s =
          map prefix_sort_key (takeWhile ?P ?s) @ map prefix_sort_key (d # ds)"
        unfolding dd [symmetric] map_append [symmetric] by (simp only: takeWhile_dropWhile_id)
      with sorted show ?thesis by (simp only: sorted_append)
    qed
    then have "prefix_sort_key d \<le> prefix_sort_key t"
      using t dd by auto
    then have "prefix_tier d \<le> prefix_tier t" by (auto simp: prefix_sort_key_def)
    ultimately show ?thesis by simp
  qed
  then have "takeWhile ?P ?s = filter ?P ?s" by (intro takeWhile_eq_filter)
  then show ?thesis by (simp add: prompt_order_def filter_sort)
qed

lemma inj_prefix_sort_key: "inj prefix_sort_key"
  by (auto simp: inj_def prefix_sort_key_def)

lemma prompt_order_perm:
  assumes "mset a = mset b"
  shows "prompt_order a = prompt_order b"
  unfolding prompt_order_def
proof (rule properties_for_sort_key)
  show "mset (sort_key prefix_sort_key b) = mset a" using assms by simp
  show "filter (\<lambda>x. prefix_sort_key k = prefix_sort_key x) (sort_key prefix_sort_key b) =
      filter (\<lambda>x. prefix_sort_key k = prefix_sort_key x) a" if "k \<in> set (sort_key prefix_sort_key b)" for k
  proof -
    have eq: "(\<lambda>x. prefix_sort_key k = prefix_sort_key x) = (=) k"
      using inj_prefix_sort_key by (auto simp: inj_def)
    show ?thesis
      using assms unfolding eq
      by (metis mset_sort replicate_count_mset_eq_filter_eq)
  qed
qed simp

section \<open>Properties\<close>

text \<open>
  Turns that hold the same always-loaded tools that need no secret send them as the same
  prefix: the tools are ordered so that this block comes first, in one order, whatever else
  each turn holds and in whatever order its tools arrive.
\<close>

theorem prompt_prefix_shared:
  assumes "mset (filter (\<lambda>t. prefix_tier t = 0) a) = mset (filter (\<lambda>t. prefix_tier t = 0) b)"
  shows "\<exists>p. prefix p (prompt_order a) \<and> prefix p (prompt_order b) \<and>
    mset p = mset (filter (\<lambda>t. prefix_tier t = 0) a) \<and>
    mset (prompt_order a) = mset a \<and> mset (prompt_order b) = mset b"
proof -
  let ?p = "prompt_order (filter (\<lambda>t. prefix_tier t = 0) a)"
  have "prefix ?p (prompt_order a)"
    unfolding prompt_order_core_block [symmetric] by (rule takeWhile_is_prefix)
  moreover have "prefix ?p (prompt_order b)"
    using takeWhile_is_prefix [of "\<lambda>t. prefix_tier t = 0" "prompt_order b"]
    by (simp only: prompt_order_core_block prompt_order_perm [OF assms])
  ultimately show ?thesis by (auto simp: prompt_order_def)
qed

theorem prompt_prefix_shared_witness:
  "\<exists>p. prefix p (prompt_order [lit ''giap-weather__get_forecast'', lit ''giap-memory__recall'']) \<and>
     prefix p (prompt_order [lit ''giap-memory__recall'', lit ''giap-knowledge__search_web'']) \<and>
     mset p = {#lit ''giap-memory__recall''#}"
proof -
  have w: "prefix_tier (lit ''giap-weather__get_forecast'') = 2"
    and m: "prefix_tier (lit ''giap-memory__recall'') = 0"
    and k: "prefix_tier (lit ''giap-knowledge__search_web'') = 1"
    by (simp_all add: prefix_tier_def find_group_def TOOL_GROUPS_def extension_names
        required_secret_def TOOL_REQUIREMENTS_def SEARCH_WEB_TOOL_def COMPUTE_ANSWER_TOOL_def lit_def)
  show ?thesis
    using prompt_prefix_shared
      [of "[lit ''giap-weather__get_forecast'', lit ''giap-memory__recall'']"
          "[lit ''giap-memory__recall'', lit ''giap-knowledge__search_web'']"] w m k
    by auto
qed

end
