(* ===== verification/Role_Block.thy ===== *)
theory Role_Block
  imports Ledger_Text
begin

text \<open>
  The typed parts of a role beyond its limits, from \<open>pond-core/src/shared/domain/role_block.rs\<close>: when an
  agent runs (activations, event triggers, parts of the day, cooldowns), its hooks and its examples.
  The YAML reader that fills them is not modelled; the readers of a clock window and of a
  cooldown, which are plain text, are. A float is \<open>Fp m e\<close>, the number \<open>m / 2 ^ e\<close> (every finite
  float has that form), an infinity or NaN.
\<close>

section \<open>Floats as they are compared\<close>

datatype fp = Fp int nat | PosInf | NegInf | NaN

fun fp_less :: "fp \<Rightarrow> fp \<Rightarrow> bool" where
  "fp_less (Fp m e) (Fp n f) = (m * 2 ^ f < n * 2 ^ e)"
| "fp_less (Fp _ _) PosInf = True"
| "fp_less NegInf (Fp _ _) = True"
| "fp_less NegInf PosInf = True"
| "fp_less _ _ = False"

fun fp_is_finite :: "fp \<Rightarrow> bool" where
  "fp_is_finite (Fp _ _) = True"
| "fp_is_finite _ = False"

section \<open>Numbers in text\<close>

definition digit_value :: "uchar \<Rightarrow> nat" where
  "digit_value c = c - 48"

definition digits_value :: "ustr \<Rightarrow> nat" where
  "digits_value s = foldl (\<lambda>n c. 10 * n + digit_value c) 0 s"

text \<open>\<open>str::parse\<close> for an unsigned number of \<open>w\<close> bits: an optional plus, then digits, in range.\<close>

definition parse_unsigned :: "nat \<Rightarrow> ustr \<Rightarrow> nat option" where
  "parse_unsigned w s =
     (let ds = (case s of c # rest \<Rightarrow> if c = 43 \<and> rest \<noteq> [] then rest else s | [] \<Rightarrow> s) in
      if ds \<noteq> [] \<and> list_all ascii_digit_char ds \<and> digits_value ds < 2 ^ w
      then Some (digits_value ds) else None)"

fun split_once :: "uchar \<Rightarrow> ustr \<Rightarrow> (ustr \<times> ustr) option" where
  "split_once sep [] = None"
| "split_once sep (c # cs) =
     (if c = sep then Some ([], cs)
      else map_option (\<lambda>(a, b). (c # a, b)) (split_once sep cs))"

section \<open>Parts of the day\<close>

record clock_window =
  win_from :: nat
  win_to :: nat

definition parse_clock :: "ustr \<Rightarrow> (nat \<times> nat) option" where
  "parse_clock raw =
     (case split_once 58 (trim raw) of
        None \<Rightarrow> None
      | Some (hour, minute) \<Rightarrow>
          if hour = [] \<or> utf8_len hour > 2 \<or> utf8_len minute \<noteq> 2 then None
          else (case parse_unsigned 32 hour of
                  None \<Rightarrow> None
                | Some h \<Rightarrow>
                    (case parse_unsigned 32 minute of
                       None \<Rightarrow> None
                     | Some m \<Rightarrow> if h < 24 \<and> m < 60 then Some (h, m) else None)))"

datatype window_error = WindowMalformed ustr | WindowEmpty ustr

definition window_parse :: "ustr \<Rightarrow> (clock_window, window_error) result" where
  "window_parse raw =
     (case split_once 45 raw of
        None \<Rightarrow> Err (WindowMalformed raw)
      | Some (f, t) \<Rightarrow>
          (case (parse_clock f, parse_clock t) of
             (Some (fh, fm), Some (th, tm)) \<Rightarrow>
               (let w = \<lparr>win_from = fh * 60 + fm, win_to = th * 60 + tm\<rparr> in
                if win_from w = win_to w then Err (WindowEmpty raw) else Ok w)
           | _ \<Rightarrow> Err (WindowMalformed raw)))"

definition window_bounds :: "clock_window \<Rightarrow> (nat \<times> nat) \<times> (nat \<times> nat)" where
  "window_bounds w =
     ((win_from w div 60, win_from w mod 60), (win_to w div 60, win_to w mod 60))"

definition window_contains :: "clock_window \<Rightarrow> nat \<Rightarrow> nat \<Rightarrow> bool" where
  "window_contains w hour minute =
     (let at = hour * 60 + minute in
      if win_from w < win_to w then win_from w \<le> at \<and> at < win_to w
      else at \<ge> win_from w \<or> at < win_to w)"

text \<open>The \<open>{:02}\<close> format of a number.\<close>

definition show_two :: "nat \<Rightarrow> ustr" where
  "show_two n = (let s = show_nat n in if length s < 2 then 48 # s else s)"

definition window_show :: "clock_window \<Rightarrow> ustr" where
  "window_show w =
     show_two (win_from w div 60) @ lit '':'' @ show_two (win_from w mod 60) @ lit ''-'' @
     show_two (win_to w div 60) @ lit '':'' @ show_two (win_to w mod 60)"

section \<open>Cooldowns\<close>

definition DEFAULT_ACTIVATION_COOLDOWN :: nat where "DEFAULT_ACTIVATION_COOLDOWN = 30 * 60"
definition MIN_ACTIVATION_COOLDOWN :: nat where "MIN_ACTIVATION_COOLDOWN = 60"

definition u64_max :: nat where "u64_max = 2 ^ 64 - 1"

datatype cooldown_error =
    CooldownEmpty
  | CooldownBadUnit ustr
  | CooldownNoNumber ustr
  | CooldownNoUnit ustr ustr
  | CooldownTooShort ustr

definition unit_secs :: "uchar \<Rightarrow> nat option" where
  "unit_secs c =
     (if c = 115 then Some 1 else if c = 109 then Some 60 else if c = 104 then Some 3600
      else if c = 100 then Some 86400 else None)"

text \<open>The loop over the characters, with the total and the digits read since the last unit.\<close>

fun cooldown_loop :: "ustr \<Rightarrow> nat \<Rightarrow> ustr \<Rightarrow> ustr \<Rightarrow> (nat \<times> ustr, cooldown_error) result" where
  "cooldown_loop raw secs digits [] = Ok (secs, digits)"
| "cooldown_loop raw secs digits (c # cs) =
     (if ascii_digit_char c then cooldown_loop raw secs (digits @ [c]) cs
      else case unit_secs c of
        None \<Rightarrow> Err (CooldownBadUnit raw)
      | Some u \<Rightarrow>
          (case parse_unsigned 64 digits of
             None \<Rightarrow> Err (CooldownNoNumber raw)
           | Some n \<Rightarrow>
               cooldown_loop raw (min u64_max (secs + min u64_max (n * u))) [] cs))"

definition cooldown_parse :: "ustr \<Rightarrow> (nat, cooldown_error) result" where
  "cooldown_parse raw =
     (let s = to_ascii_lowercase (trim raw) in
      if s = [] then Err CooldownEmpty
      else (case cooldown_loop raw 0 [] (filter (\<lambda>c. \<not> is_whitespace c) s) of
              Err e \<Rightarrow> Err e
            | Ok (secs, digits) \<Rightarrow>
                if digits \<noteq> [] then Err (CooldownNoUnit raw digits)
                else if secs < MIN_ACTIVATION_COOLDOWN then Err (CooldownTooShort raw)
                else Ok secs))"

section \<open>Activations, hooks and examples\<close>

datatype subject = AnySubject | NamedSubject ustr | OwnerSubject

fun subject_admits :: "subject \<Rightarrow> ustr \<Rightarrow> ustr option \<Rightarrow> bool" where
  "subject_admits AnySubject i owner = True"
| "subject_admits (NamedSubject name) i owner = (name = i)"
| "subject_admits OwnerSubject i owner = (owner = Some i)"

datatype threshold = Above fp | Below fp

fun threshold_passes :: "threshold \<Rightarrow> fp \<Rightarrow> bool" where
  "threshold_passes (Above x) v = fp_less x v"
| "threshold_passes (Below x) v = fp_less v x"

datatype event_trigger =
    PresenceArrive subject
  | PresenceLeave subject
  | CameraPerson subject
  | CameraMotion subject
  | Sensor ustr subject threshold
  | DeviceChange ustr subject
  | TimeDaily nat nat

fun trigger_on :: "event_trigger \<Rightarrow> ustr" where
  "trigger_on (PresenceArrive _) = lit ''presence.arrive''"
| "trigger_on (PresenceLeave _) = lit ''presence.leave''"
| "trigger_on (CameraPerson _) = lit ''camera.person''"
| "trigger_on (CameraMotion _) = lit ''camera.motion''"
| "trigger_on (Sensor sensor_type _ _) = lit ''sensor.'' @ sensor_type"
| "trigger_on (DeviceChange key _) = lit ''device.'' @ key"
| "trigger_on (TimeDaily _ _) = lit ''time.daily''"

definition cron_daily_at :: "nat \<Rightarrow> nat \<Rightarrow> ustr" where
  "cron_daily_at hour minute =
     lit ''0 '' @ show_nat minute @ lit '' '' @ show_nat hour @ lit '' * * *''"

fun trigger_clock :: "event_trigger \<Rightarrow> ustr option" where
  "trigger_clock (TimeDaily hour minute) = Some (cron_daily_at hour minute)"
| "trigger_clock _ = None"

record schedule_activation =
  sched_cron :: ustr
  sched_brief :: ustr
  sched_cooldown :: nat

record event_activation =
  event_trigger :: event_trigger
  event_brief :: ustr
  event_cooldown :: nat
  event_window :: "clock_window option"

datatype activation =
    Delegated
  | TaskStep
  | Schedule schedule_activation
  | Event event_activation
  | AgentFrom "ustr list"

definition default_activations :: "activation list" where
  "default_activations = [Delegated, TaskStep]"

datatype before_hook = Today | Weather | Presence
datatype after_hook = NotifyOwner | SaveArtifact | StartTaskHook | HandTo ustr

record role_hooks =
  hooks_before :: "before_hook list"
  hooks_after :: "after_hook list"

definition default_hooks :: role_hooks where
  "default_hooks = \<lparr>hooks_before = [], hooks_after = []\<rparr>"

fun hand_to_target :: "after_hook \<Rightarrow> ustr option" where
  "hand_to_target (HandTo agent) = Some agent"
| "hand_to_target _ = None"

definition hooks_hand_to :: "role_hooks \<Rightarrow> ustr option" where
  "hooks_hand_to h =
     (case List.map_filter hand_to_target (hooks_after h) of [] \<Rightarrow> None | a # _ \<Rightarrow> Some a)"

definition after_has :: "role_hooks \<Rightarrow> after_hook \<Rightarrow> bool" where
  "after_has h hook \<longleftrightarrow> hook \<in> set (hooks_after h)"

record role_example =
  example_brief :: ustr
  example_answer :: ustr

definition EXAMPLES_HEADING :: ustr where
  "EXAMPLES_HEADING = lit ''Examples of a brief and the answer it wants:''"

definition newline :: ustr where "newline = [10]"

definition render_examples :: "role_example list \<Rightarrow> ustr" where
  "render_examples examples =
     (if examples = [] then []
      else newline @ newline @ EXAMPLES_HEADING @ newline @
        concat (map (\<lambda>e. newline @ lit ''Brief: '' @ example_brief e @ newline @
                       lit ''Answer: '' @ example_answer e @ newline) examples))"

record role_extras =
  extra_examples :: "role_example list"
  extra_activations :: "activation list"
  extra_hooks :: role_hooks
  extra_a2a :: bool

section \<open>What the readers accept\<close>

lemma parse_clock_bounds: "parse_clock raw = Some (h, m) \<Longrightarrow> h < 24 \<and> m < 60"
  by (auto simp: parse_clock_def split: option.splits if_splits prod.splits)

lemma window_parse_bounds:
  "window_parse raw = Ok w \<Longrightarrow>
     win_from w < 24 * 60 \<and> win_to w < 24 * 60 \<and> win_from w \<noteq> win_to w"
  by (auto simp: window_parse_def Let_def dest!: parse_clock_bounds
      split: option.splits prod.splits if_splits)

lemma window_contains_cyclic:
  assumes "win_from w < 1440" "win_to w < 1440" "win_from w \<noteq> win_to w" "h < 24" "m < 60"
  shows "window_contains w h m \<longleftrightarrow>
    (h * 60 + m + 1440 - win_from w) mod 1440 < (win_to w + 1440 - win_from w) mod 1440"
proof -
  have at: "h * 60 + m < 1440" using assms(4,5) by simp
  have wrap: "(x + 1440 - win_from w) mod 1440 =
      (if win_from w \<le> x then x - win_from w else x + 1440 - win_from w)" if "x < 1440" for x
  proof (cases "win_from w \<le> x")
    case True
    then have "x + 1440 - win_from w = (x - win_from w) + 1440" by simp
    then show ?thesis using True that by (simp only: mod_add_self2) simp
  qed (use assms(1) in simp)
  show ?thesis
    using at assms(1-3) wrap [OF at] wrap [OF assms(2)]
    by (auto simp: window_contains_def Let_def)
qed

lemma cooldown_loop_bound:
  "secs \<le> u64_max \<Longrightarrow> cooldown_loop raw secs digits cs = Ok (t, ds) \<Longrightarrow> t \<le> u64_max"
  by (induction raw secs digits cs rule: cooldown_loop.induct)
     (auto split: if_splits option.splits)

lemma cooldown_parse_bounds:
  "cooldown_parse raw = Ok n \<Longrightarrow> MIN_ACTIVATION_COOLDOWN \<le> n \<and> n \<le> u64_max"
  using cooldown_loop_bound [of 0 raw "[]"]
  by (auto simp: cooldown_parse_def Let_def split: result.splits if_splits prod.splits)

section \<open>Two-digit numbers round trip\<close>

lemma show_two_digits:
  assumes "n < 100"
  shows "show_two n = [48 + n div 10, 48 + n mod 10]"
  using assms by (auto simp: show_two_def show_nat.simps Let_def)

lemma show_two_parse:
  assumes "n < 100"
  shows "parse_unsigned 32 (show_two n) = Some n"
proof -
  have "n div 10 \<le> 9" "n mod 10 \<le> 9" using assms by auto
  moreover have "10 * (n div 10) + n mod 10 = n" by simp
  ultimately show ?thesis
    using assms
    by (simp add: show_two_digits parse_unsigned_def digits_value_def digit_value_def
        ascii_digit_char_def less_Suc_eq_le)
qed

lemma parse_clock_show:
  assumes "h < 24" "m < 60"
  shows "parse_clock (show_two h @ 58 # show_two m) = Some (h, m)"
proof -
  have t: "trim (show_two h @ 58 # show_two m) = show_two h @ 58 # show_two m"
    using assms by (intro trim_id) (auto simp: show_two_digits is_whitespace_def)
  have "h div 10 < 10" "h mod 10 < 10" using assms by auto
  then have "h div 10 \<noteq> 10" "h mod 10 \<noteq> 10" by linarith+
  then have "split_once 58 (show_two h @ 58 # show_two m) = Some (show_two h, show_two m)"
    using assms by (simp add: show_two_digits)
  moreover have "utf8_len (show_two n) = 2" if "n < 100" for n
  proof -
    have "n div 10 < 80" "n mod 10 < 80"
      using that mod_less_divisor [of 10 n] by (simp, linarith)
    then show ?thesis using that by (simp add: show_two_digits utf8_len_def char_len_def)
  qed
  moreover have "show_two h \<noteq> []" using assms by (simp add: show_two_digits)
  ultimately show ?thesis
    using assms by (simp add: parse_clock_def t show_two_parse)
qed

lemma window_show_parse:
  assumes "win_from w < 1440" "win_to w < 1440" "win_from w \<noteq> win_to w"
  shows "window_parse (window_show w) = Ok w"
proof -
  let ?fh = "win_from w div 60" and ?fm = "win_from w mod 60"
  let ?th = "win_to w div 60" and ?tm = "win_to w mod 60"
  have b: "?fh < 24" "?fm < 60" "?th < 24" "?tm < 60" using assms(1,2) by auto
  have "split_once 45 (window_show w) =
      Some (show_two ?fh @ 58 # show_two ?fm, show_two ?th @ 58 # show_two ?tm)"
    using b by (simp add: window_show_def show_two_digits lit_def)
  then show ?thesis
    using b assms(3) by (simp add: window_parse_def parse_clock_show Let_def)
qed

section \<open>Properties\<close>

text \<open>
  A part of the day written as a member sees it reads back as the same part; a part the
  reader accepts lies within the day and is never empty; and a minute is inside it exactly when,
  counting round the clock from its start, it comes before its end, also across midnight.
\<close>

theorem clock_window_correct:
  assumes "window_parse raw = Ok w" "h < 24" "m < 60"
  shows "window_parse (window_show w) = Ok w \<and>
    (window_contains w h m \<longleftrightarrow>
      (h * 60 + m + 1440 - win_from w) mod 1440 < (win_to w + 1440 - win_from w) mod 1440)"
  using window_parse_bounds [OF assms(1)] window_show_parse [of w]
    window_contains_cyclic [of w h m] assms(2,3) by simp

theorem clock_window_correct_witness:
  "window_contains \<lparr>win_from = 1320, win_to = 360\<rparr> 2 30 \<and>
   window_parse (window_show \<lparr>win_from = 1320, win_to = 360\<rparr>) = Ok \<lparr>win_from = 1320, win_to = 360\<rparr>"
proof -
  have "window_parse (lit ''22:00-06:00'') = Ok \<lparr>win_from = 1320, win_to = 360\<rparr>"
    by (simp add: window_parse_def parse_clock_def parse_unsigned_def digits_value_def
        digit_value_def text_simps)
  from clock_window_correct [OF this, of 2 30] show ?thesis by simp
qed

text \<open>
  A cooldown the reader accepts is at least the least cooldown of 60 seconds, so no written
  activation can run more often, and it never overflows 64 bits however large the numbers in the text.
\<close>

theorem cooldown_bounded:
  "cooldown_parse raw = Ok n \<Longrightarrow> MIN_ACTIVATION_COOLDOWN \<le> n \<and> n < 2 ^ 64"
  using cooldown_parse_bounds by (force simp: u64_max_def)

theorem cooldown_bounded_witness: "MIN_ACTIVATION_COOLDOWN \<le> 5400 \<and> (5400 :: nat) < 2 ^ 64"
proof (rule cooldown_bounded)
  show "cooldown_parse (lit '' 1h 30m '') = Ok 5400"
    by (simp add: cooldown_parse_def parse_unsigned_def digits_value_def digit_value_def
        unit_secs_def u64_max_def MIN_ACTIVATION_COOLDOWN_def text_simps)
qed

end
