(* ===== verification/Model_Class.thy ===== *)
theory Model_Class
  imports Ledger_Text
begin

text \<open>
  Where a model provider runs and what its window affords:
  \<open>pond-core/src/models/services/context/model_class.rs\<close>, with the two policies of
  \<open>pond-core/src/shared/domain/orchestration.rs\<close> that rest on it, how many helpers may run at
  once and whether one may run in the background or on a model of its own.
\<close>

section \<open>Locality\<close>

definition SMALL_WINDOW_CEILING :: nat where "SMALL_WINDOW_CEILING = 12288"
definition LARGE_WINDOW_FLOOR :: nat where "LARGE_WINDOW_FLOOR = 65536"

definition ON_DEVICE_PROVIDERS :: "ustr list" where
  "ON_DEVICE_PROVIDERS =
     map lit [''local'', ''gguf'', ''ollama'', ''llamafile'', ''mistralrs'']"

definition HOSTED_PROVIDERS :: "ustr list" where
  "HOSTED_PROVIDERS =
     map lit [''anthropic'', ''openai'', ''openrouter'', ''google'', ''databricks'', ''snowflake'']"

datatype provider_locality = OnDevice | Hosted | UnknownProvider

fun locality_label :: "provider_locality \<Rightarrow> ustr" where
  "locality_label OnDevice = lit ''on-device''"
| "locality_label Hosted = lit ''hosted''"
| "locality_label UnknownProvider = lit ''unknown''"

definition eq_ignore_ascii_case :: "ustr \<Rightarrow> ustr \<Rightarrow> bool" where
  "eq_ignore_ascii_case a b \<longleftrightarrow> to_ascii_lowercase a = to_ascii_lowercase b"

definition locality_of :: "ustr \<Rightarrow> provider_locality" where
  "locality_of provider =
     (let p = trim provider in
      if list_ex (eq_ignore_ascii_case p) ON_DEVICE_PROVIDERS then OnDevice
      else if list_ex (eq_ignore_ascii_case p) HOSTED_PROVIDERS then Hosted
      else UnknownProvider)"

definition runs_on_this_device :: "ustr \<Rightarrow> bool" where
  "runs_on_this_device provider \<longleftrightarrow> locality_of provider = OnDevice"

section \<open>Model classes\<close>

record compaction_strategy =
  deterministic_trim :: bool
  idle_rolling_summary :: bool
  llm_resummarisation :: bool

datatype model_class = Small | Medium | Large

fun model_class_label :: "model_class \<Rightarrow> ustr" where
  "model_class_label Small = lit ''small''"
| "model_class_label Medium = lit ''medium''"
| "model_class_label Large = lit ''large''"

fun class_rank :: "model_class \<Rightarrow> nat" where
  "class_rank Small = 0"
| "class_rank Medium = 1"
| "class_rank Large = 2"

instantiation model_class :: linorder
begin

definition less_eq_model_class :: "model_class \<Rightarrow> model_class \<Rightarrow> bool" where
  "less_eq_model_class a b = (class_rank a \<le> class_rank b)"

definition less_model_class :: "model_class \<Rightarrow> model_class \<Rightarrow> bool" where
  "less_model_class a b = (class_rank a < class_rank b)"

instance
proof
  fix a b :: model_class
  show "a \<le> b \<Longrightarrow> b \<le> a \<Longrightarrow> a = b"
    by (cases a; cases b) (simp_all add: less_eq_model_class_def)
qed (auto simp: less_eq_model_class_def less_model_class_def)

end

definition classify :: "ustr \<Rightarrow> nat \<Rightarrow> model_class" where
  "classify provider window =
     (if window \<le> SMALL_WINDOW_CEILING then Small
      else if window \<ge> LARGE_WINDOW_FLOOR \<and> \<not> runs_on_this_device provider then Large
      else Medium)"

definition class_strategy :: "model_class \<Rightarrow> compaction_strategy" where
  "class_strategy c =
     \<lparr>deterministic_trim = True, idle_rolling_summary = True, llm_resummarisation = (c = Large)\<rparr>"

definition permits_compaction_model_call :: "model_class \<Rightarrow> bool" where
  "permits_compaction_model_call c = llm_resummarisation (class_strategy c)"

section \<open>Helpers on a provider\<close>

definition REMOTE_SUBAGENT_CONCURRENCY :: nat where "REMOTE_SUBAGENT_CONCURRENCY = 3"

definition max_concurrent_subagents :: "ustr \<Rightarrow> nat" where
  "max_concurrent_subagents provider =
     (case locality_of provider of Hosted \<Rightarrow> REMOTE_SUBAGENT_CONCURRENCY | _ \<Rightarrow> 1)"

datatype child_model =
    ModelInherited
  | ModelAssigned ustr
  | ModelRefusedOnDevice ustr ustr
  | ModelRefusedUnknownProvider ustr ustr

definition resolve_model :: "ustr option \<Rightarrow> ustr \<Rightarrow> child_model" where
  "resolve_model requested provider =
     (case map_option trim requested of
        None \<Rightarrow> ModelInherited
      | Some m \<Rightarrow>
          if m = [] then ModelInherited
          else (case locality_of provider of
                  Hosted \<Rightarrow> ModelAssigned m
                | OnDevice \<Rightarrow> ModelRefusedOnDevice m provider
                | UnknownProvider \<Rightarrow> ModelRefusedUnknownProvider m provider))"

fun assigned_model :: "child_model \<Rightarrow> ustr option" where
  "assigned_model (ModelAssigned model) = Some model"
| "assigned_model _ = None"

fun model_refusal :: "child_model \<Rightarrow> ustr option" where
  "model_refusal (ModelRefusedOnDevice requested provider) =
     Some (lit ''role asked for model `'' @ requested @ lit ''` but `'' @ provider @
       lit ''` runs on this device, where a second model is a load plus a re-prefill the parent's '' @
       lit ''next turn pays for - running the child on the resident model instead'')"
| "model_refusal (ModelRefusedUnknownProvider requested provider) =
     Some (lit ''role asked for model `'' @ requested @
       lit ''` but this pond does not know where `'' @ provider @
       lit ''` runs, and a second model on THIS device is a load plus a re-prefill the parent's '' @
       lit ''next turn pays for - running the child on the resident model instead. Add `'' @ provider @
       lit ''` to HOSTED_PROVIDERS if it is served from another machine'')"
| "model_refusal _ = None"

datatype background_availability =
    BackgroundAvailable
  | BackgroundOnDevice ustr
  | BackgroundUnknownProvider ustr

definition background_for_provider :: "ustr \<Rightarrow> background_availability" where
  "background_for_provider provider =
     (if max_concurrent_subagents provider > 1 then BackgroundAvailable
      else if locality_of provider = UnknownProvider then BackgroundUnknownProvider provider
      else BackgroundOnDevice provider)"

fun background_refusal :: "background_availability \<Rightarrow> ustr option" where
  "background_refusal BackgroundAvailable = None"
| "background_refusal (BackgroundOnDevice provider) =
     Some (lit ''this pond runs its model on the device itself (`'' @ provider @
       lit ''`), where one agent can use it at a time - a background helper would simply be '' @
       lit ''holding up your own next reply. Call delegate again without `background` and wait for '' @
       lit ''the answer, or do the work yourself'')"
| "background_refusal (BackgroundUnknownProvider provider) =
     Some (lit ''this pond cannot tell where `'' @ provider @
       lit ''` runs its model, so it assumes the device itself, where one agent can use it at a '' @
       lit ''time - a background helper would simply be holding up your own next reply. Call '' @
       lit ''delegate again without `background` and wait for the answer, or do the work yourself'')"

section \<open>Lemmas\<close>

lemma no_provider_in_both_lists:
  "list_ex (eq_ignore_ascii_case p) ON_DEVICE_PROVIDERS \<Longrightarrow>
   \<not> list_ex (eq_ignore_ascii_case p) HOSTED_PROVIDERS"
  by (auto simp: ON_DEVICE_PROVIDERS_def HOSTED_PROVIDERS_def eq_ignore_ascii_case_def text_simps)

lemma locality_of_trim [simp]: "locality_of (trim p) = locality_of p"
  by (simp add: locality_of_def)

lemma locality_of_lowercase:
  "to_ascii_lowercase (trim p) = to_ascii_lowercase (trim q) \<Longrightarrow> locality_of p = locality_of q"
  by (simp add: locality_of_def Let_def eq_ignore_ascii_case_def [abs_def])

lemma locality_hosted_iff:
  "locality_of p = Hosted \<longleftrightarrow> list_ex (eq_ignore_ascii_case (trim p)) HOSTED_PROVIDERS"
  using no_provider_in_both_lists by (auto simp: locality_of_def Let_def)

lemma classify_mono: "m \<le> n \<Longrightarrow> classify p m \<le> classify p n"
  by (auto simp: classify_def less_eq_model_class_def SMALL_WINDOW_CEILING_def LARGE_WINDOW_FLOOR_def)

section \<open>Properties\<close>

text \<open>
  A model provider that this pond cannot place as hosted never gets parallel helpers, a
  background helper or a model of its own for a helper; one it knows to be hosted gets all three,
  whatever the case and the blanks its name is typed with.
\<close>

theorem provider_policy_agrees:
  "(max_concurrent_subagents p > 1 \<longleftrightarrow> locality_of p = Hosted) \<and>
   (background_refusal (background_for_provider p) = None \<longleftrightarrow> locality_of p = Hosted) \<and>
   (assigned_model (resolve_model (Some m) p) \<noteq> None \<longleftrightarrow> trim m \<noteq> [] \<and> locality_of p = Hosted) \<and>
   (locality_of p = Hosted \<longleftrightarrow>
      (\<exists>h \<in> set HOSTED_PROVIDERS. to_ascii_lowercase (trim p) = to_ascii_lowercase h))"
proof -
  have "max_concurrent_subagents p > 1 \<longleftrightarrow> locality_of p = Hosted"
    by (cases "locality_of p")
       (simp_all add: max_concurrent_subagents_def REMOTE_SUBAGENT_CONCURRENCY_def)
  moreover from this have
    "background_refusal (background_for_provider p) = None \<longleftrightarrow> locality_of p = Hosted"
    by (simp add: background_for_provider_def)
  moreover have
    "assigned_model (resolve_model (Some m) p) \<noteq> None \<longleftrightarrow> trim m \<noteq> [] \<and> locality_of p = Hosted"
    by (cases "locality_of p") (simp_all add: resolve_model_def)
  moreover have "locality_of p = Hosted \<longleftrightarrow>
      (\<exists>h \<in> set HOSTED_PROVIDERS. to_ascii_lowercase (trim p) = to_ascii_lowercase h)"
    by (simp add: locality_hosted_iff list_ex_iff eq_ignore_ascii_case_def)
  ultimately show ?thesis by blast
qed

end
