(* ===== verification/Delegation.thy ===== *)
theory Delegation
  imports Tool_Groups Role_Block Model_Class Step_Outcome
begin

text \<open>
  What a helper may do and under whose authority: \<open>pond-core/src/shared/domain/orchestration.rs\<close>. A
  running turn has an authority; \<open>delegate\<close> derives a child's task from it and a role; the task
  becomes the child's own authority through \<open>child_authority\<close>. A \<open>BTreeSet\<close> of names is a set. The
  random id of a task is an argument of \<open>delegate\<close>. The callback of a report nudge is a
  predicate on the state \<open>'s\<close> it is asked in. Reading a role from a recipe's YAML is not modelled.
\<close>

section \<open>Constants\<close>

definition MAX_DELEGATION_DEPTH :: u8 where "MAX_DELEGATION_DEPTH = 1"
definition DEFAULT_ROLE_MAX_TURNS :: u32 where "DEFAULT_ROLE_MAX_TURNS = 6"
definition MAX_ROLE_MAX_TURNS :: u32 where "MAX_ROLE_MAX_TURNS = 12"
definition DEFAULT_CONTEXT_FRACTION :: fp where "DEFAULT_CONTEXT_FRACTION = Fp 1 1"

section \<open>Depth\<close>

datatype delegation_refused =
    DepthExceeded u8 u8
  | RoleMismatch ustr ustr
  | EmptyInstructions ustr
  | UnknownRole ustr

datatype delegation_depth = DelegationDepth u8

definition ROOT_DEPTH :: delegation_depth where "ROOT_DEPTH = DelegationDepth 0"

fun depth_get :: "delegation_depth \<Rightarrow> u8" where
  "depth_get (DelegationDepth d) = d"

definition is_root :: "delegation_depth \<Rightarrow> bool" where
  "is_root d \<longleftrightarrow> depth_get d = 0"

definition deeper :: "delegation_depth \<Rightarrow> (delegation_depth, delegation_refused) result" where
  "deeper d =
     (let next_depth = saturating_add (depth_get d) 1 in
      if next_depth > MAX_DELEGATION_DEPTH then Err (DepthExceeded next_depth MAX_DELEGATION_DEPTH)
      else Ok (DelegationDepth next_depth))"

section \<open>Roles\<close>

datatype role_personal_data = Inherit | Deny

definition all_personal_data :: "role_personal_data list" where
  "all_personal_data = [Inherit, Deny]"

fun narrow :: "role_personal_data \<Rightarrow> profile_scope \<Rightarrow> profile_scope" where
  "narrow Inherit parent = parent"
| "narrow Deny parent = Guest"

record agent_role =
  role_name :: ustr
  role_instructions :: ustr
  role_tool_groups :: "ustr set"
  role_personal_data :: role_personal_data
  role_max_turns :: u32
  role_context_fraction :: fp
  role_model :: "ustr option"
  role_examples :: "role_example list"
  role_activations :: "activation list"
  role_hooks :: role_hooks
  role_a2a :: bool

datatype role_error =
    MissingName
  | MissingInstructions ustr
  | MaxTurnsOutOfRange ustr u32 u32
  | ContextFractionOutOfRange ustr fp
  | EmptyModel ustr
  | RoleYaml ustr ustr
  | RoleField ustr ustr ustr

fun fp_le :: "fp \<Rightarrow> fp \<Rightarrow> bool" where
  "fp_le (Fp m e) (Fp n f) = (m * 2 ^ f \<le> n * 2 ^ e)"
| "fp_le PosInf PosInf = True"
| "fp_le NegInf NegInf = True"
| "fp_le a b = fp_less a b"

definition agent_role_new ::
  "ustr \<Rightarrow> ustr \<Rightarrow> ustr set \<Rightarrow> role_personal_data \<Rightarrow> u32 \<Rightarrow> fp \<Rightarrow> (agent_role, role_error) result"
where
  "agent_role_new name instructions tool_groups personal_data max_turns context_fraction =
     (if trim name = [] then Err MissingName
      else if trim instructions = [] then Err (MissingInstructions name)
      else if max_turns = 0 \<or> max_turns > MAX_ROLE_MAX_TURNS
      then Err (MaxTurnsOutOfRange name max_turns MAX_ROLE_MAX_TURNS)
      else if \<not> (fp_is_finite context_fraction \<and> fp_less (Fp 0 0) context_fraction \<and>
                 fp_le context_fraction (Fp 1 0))
      then Err (ContextFractionOutOfRange name context_fraction)
      else Ok \<lparr>role_name = name, role_instructions = instructions, role_tool_groups = tool_groups,
               role_personal_data = personal_data, role_max_turns = max_turns,
               role_context_fraction = context_fraction, role_model = None, role_examples = [],
               role_activations = default_activations, role_hooks = default_hooks,
               role_a2a = False\<rparr>)"

definition with_extras :: "agent_role \<Rightarrow> role_extras \<Rightarrow> agent_role" where
  "with_extras r extras =
     (let r' = (if extra_examples extras = [] then r
                else r\<lparr>role_instructions :=
                         trim_end (role_instructions r) @ render_examples (extra_examples extras)\<rparr>)
      in r'\<lparr>role_examples := extra_examples extras, role_activations := extra_activations extras,
           role_hooks := extra_hooks extras, role_a2a := extra_a2a extras\<rparr>)"

definition with_model :: "agent_role \<Rightarrow> ustr option \<Rightarrow> (agent_role, role_error) result" where
  "with_model r model =
     (case model of
        None \<Rightarrow> Ok (r\<lparr>role_model := None\<rparr>)
      | Some m \<Rightarrow>
          if trim m = [] then Err (EmptyModel (role_name r))
          else Ok (r\<lparr>role_model := Some (trim m)\<rparr>))"

text \<open>\<open>Ord::clamp\<close>.\<close>

definition clamp_u32 :: "u32 \<Rightarrow> u32 \<Rightarrow> u32 \<Rightarrow> u32" where
  "clamp_u32 lo hi x = (if x < lo then lo else if x > hi then hi else x)"

definition with_max_turns :: "agent_role \<Rightarrow> u32 \<Rightarrow> agent_role" where
  "with_max_turns r max_turns = r\<lparr>role_max_turns := clamp_u32 1 MAX_ROLE_MAX_TURNS max_turns\<rparr>"

definition accepts_delegation :: "agent_role \<Rightarrow> bool" where
  "accepts_delegation r \<longleftrightarrow> Delegated \<in> set (role_activations r)"

definition accepts_task_steps :: "agent_role \<Rightarrow> bool" where
  "accepts_task_steps r \<longleftrightarrow> TaskStep \<in> set (role_activations r)"

fun hands_off_from :: "ustr \<Rightarrow> activation \<Rightarrow> bool" where
  "hands_off_from source (AgentFrom from_names) = (source \<in> set from_names)"
| "hands_off_from source _ = False"

definition accepts_hand_off_from :: "agent_role \<Rightarrow> ustr \<Rightarrow> bool" where
  "accepts_hand_off_from r source \<longleftrightarrow> list_ex (hands_off_from source) (role_activations r)"

fun self_starting :: "activation \<Rightarrow> bool" where
  "self_starting (Schedule _) = True"
| "self_starting (Event _) = True"
| "self_starting _ = False"

definition runs_on_its_own :: "agent_role \<Rightarrow> bool" where
  "runs_on_its_own r \<longleftrightarrow> list_ex self_starting (role_activations r)"

section \<open>Authorities\<close>

record task_request =
  request_role :: ustr
  request_instructions :: ustr
  request_inputs :: json
  request_background :: bool

record delegation_authority =
  auth_session_id :: ustr
  auth_scope :: profile_scope
  auth_tool_groups :: "ustr set"
  auth_read_tools :: "ustr set"
  auth_depth :: delegation_depth

definition root_authority :: "ustr \<Rightarrow> profile_scope \<Rightarrow> ustr set \<Rightarrow> delegation_authority" where
  "root_authority session_id scope tool_groups =
     \<lparr>auth_session_id = session_id, auth_scope = scope, auth_tool_groups = tool_groups,
      auth_read_tools = {}, auth_depth = ROOT_DEPTH\<rparr>"

definition with_read_tools :: "delegation_authority \<Rightarrow> ustr list \<Rightarrow> delegation_authority" where
  "with_read_tools a tools =
     a\<lparr>auth_read_tools := set (filter (\<lambda>tool. tool \<in> set HOUSEHOLD_READ_TOOLS) tools)\<rparr>"

definition for_turn :: "ustr \<Rightarrow> profile_scope \<Rightarrow> ustr list \<Rightarrow> delegation_authority" where
  "for_turn session_id scope allowed_tools =
     root_authority session_id scope (set (List.map_filter group_of_tool allowed_tools))"

definition may_delegate :: "delegation_authority \<Rightarrow> bool" where
  "may_delegate a \<longleftrightarrow> is_ok (deeper (auth_depth a))"

section \<open>The child's share\<close>

datatype child_scope = ChildScope profile_scope

fun child_scope_get :: "child_scope \<Rightarrow> profile_scope" where
  "child_scope_get (ChildScope s) = s"

definition clamp_scope :: "profile_scope \<Rightarrow> profile_scope \<Rightarrow> child_scope" where
  "clamp_scope candidate parent =
     (if is_within candidate parent then ChildScope candidate else ChildScope Guest)"

definition scope_for_role :: "role_personal_data \<Rightarrow> profile_scope \<Rightarrow> child_scope" where
  "scope_for_role personal_data parent = clamp_scope (narrow personal_data parent) parent"

definition narrow_child_groups ::
  "ustr set \<Rightarrow> ustr set \<Rightarrow> profile_scope \<Rightarrow> ustr set"
where
  "narrow_child_groups requested parent child =
     (let groups = requested \<inter> parent;
          groups = (if excludes_everything child
                    then fold (\<lambda>denied gs. gs - {denied}) groups_denied_to_guests groups
                    else groups)
      in fold (\<lambda>denied gs. gs - {denied}) groups_denied_to_subagents groups)"

definition narrow_read_tools :: "ustr set \<Rightarrow> ustr set \<Rightarrow> profile_scope \<Rightarrow> ustr set" where
  "narrow_read_tools requested parent child =
     Set.filter (\<lambda>tool. case group_of_tool tool of
         None \<Rightarrow> False
       | Some g \<Rightarrow> g \<in> requested \<and>
           \<not> (excludes_everything child \<and> g \<in> set groups_denied_to_guests)) parent"

record 's report_nudge =
  nudge_text :: ustr
  nudge_reported :: "'s \<Rightarrow> bool"

record 's task_spec =
  spec_id :: ustr
  spec_role :: ustr
  spec_instructions :: ustr
  spec_inputs :: json
  spec_parent_session_id :: ustr
  spec_scope :: child_scope
  spec_tool_groups :: "ustr set"
  spec_read_tools :: "ustr set"
  spec_withheld :: "ustr set"
  spec_depth :: delegation_depth
  spec_max_turns :: u32
  spec_context_fraction :: fp
  spec_model :: "ustr option"
  spec_background :: bool
  spec_compile_shape :: "ustr option"
  spec_prefill_retention :: "nat option"
  spec_prefill_rebuild :: bool
  spec_persona :: ustr
  spec_nudge :: "'s report_nudge option"

definition delegate ::
  "ustr \<Rightarrow> delegation_authority \<Rightarrow> agent_role \<Rightarrow> task_request \<Rightarrow>
     ('s task_spec, delegation_refused) result"
where
  "delegate fresh_id a role request =
     (if request_role request \<noteq> role_name role
      then Err (RoleMismatch (request_role request) (role_name role))
      else
        (let instructions = trim (request_instructions request) in
         if instructions = [] then Err (EmptyInstructions (role_name role))
         else (case deeper (auth_depth a) of
                 Err e \<Rightarrow> Err e
               | Ok depth \<Rightarrow>
                   (let scope = scope_for_role (role_personal_data role) (auth_scope a);
                        tool_groups = narrow_child_groups (role_tool_groups role)
                          (auth_tool_groups a) (child_scope_get scope);
                        read_tools = narrow_read_tools (role_tool_groups role)
                          (auth_read_tools a) (child_scope_get scope)
                    in Ok \<lparr>spec_id = fresh_id, spec_role = role_name role,
                           spec_instructions = instructions, spec_inputs = request_inputs request,
                           spec_parent_session_id = auth_session_id a, spec_scope = scope,
                           spec_tool_groups = tool_groups, spec_read_tools = read_tools,
                           spec_withheld = {}, spec_depth = depth,
                           spec_max_turns = role_max_turns role,
                           spec_context_fraction = role_context_fraction role,
                           spec_model = role_model role,
                           spec_background = request_background request,
                           spec_compile_shape = None, spec_prefill_retention = None,
                           spec_prefill_rebuild = False, spec_persona = role_instructions role,
                           spec_nudge = None\<rparr>))))"

section \<open>The task of a child\<close>

definition spec_profile_scope :: "'s task_spec \<Rightarrow> profile_scope" where
  "spec_profile_scope spec = child_scope_get (spec_scope spec)"

definition compiling_prefill :: "'s task_spec \<Rightarrow> ustr \<Rightarrow> 's task_spec" where
  "compiling_prefill spec shape = spec\<lparr>spec_compile_shape := Some shape\<rparr>"

definition retaining_helpers_for :: "'s task_spec \<Rightarrow> nat \<Rightarrow> 's task_spec" where
  "retaining_helpers_for spec retention = spec\<lparr>spec_prefill_retention := Some retention\<rparr>"

definition rebuilding :: "'s task_spec \<Rightarrow> 's task_spec" where
  "rebuilding spec = spec\<lparr>spec_prefill_rebuild := True\<rparr>"

definition withholding :: "'s task_spec \<Rightarrow> ustr list \<Rightarrow> 's task_spec" where
  "withholding spec tools = spec\<lparr>spec_withheld := spec_withheld spec \<union> set tools\<rparr>"

definition nudging :: "'s task_spec \<Rightarrow> 's report_nudge \<Rightarrow> 's task_spec" where
  "nudging spec nudge = spec\<lparr>spec_nudge := Some nudge\<rparr>"

definition grants_tool :: "'s task_spec \<Rightarrow> ustr \<Rightarrow> bool" where
  "grants_tool spec tool_name =
     (if tool_name \<in> spec_withheld spec then False
      else (case group_of_tool tool_name of
              Some extension \<Rightarrow>
                extension \<in> spec_tool_groups spec \<or> tool_name \<in> spec_read_tools spec
            | None \<Rightarrow> False))"

definition child_authority :: "'s task_spec \<Rightarrow> ustr \<Rightarrow> delegation_authority" where
  "child_authority spec child_session_id =
     \<lparr>auth_session_id = child_session_id, auth_scope = child_scope_get (spec_scope spec),
      auth_tool_groups = spec_tool_groups spec, auth_read_tools = spec_read_tools spec,
      auth_depth = spec_depth spec\<rparr>"

section \<open>The run of a child\<close>

datatype task_status = Queued | RunRunning | RunCompleted | RunCancelled | TurnBudgetExhausted | RunFailed

fun status_is_terminal :: "task_status \<Rightarrow> bool" where
  "status_is_terminal Queued = False"
| "status_is_terminal RunRunning = False"
| "status_is_terminal _ = True"

definition produced_an_answer :: "task_status \<Rightarrow> bool" where
  "produced_an_answer s \<longleftrightarrow> s = RunCompleted"

record task_run =
  run_id :: ustr
  run_role :: ustr
  run_parent_session_id :: ustr
  run_status :: task_status
  run_result :: "ustr option"
  run_error :: "ustr option"
  run_started_at :: timestamp
  run_finished_at :: "timestamp option"

definition run_started :: "'s task_spec \<Rightarrow> timestamp \<Rightarrow> task_run" where
  "run_started spec now =
     \<lparr>run_id = spec_id spec, run_role = spec_role spec,
      run_parent_session_id = spec_parent_session_id spec, run_status = RunRunning,
      run_result = None, run_error = None, run_started_at = now, run_finished_at = None\<rparr>"

definition result_for_parent :: "task_run \<Rightarrow> ustr option" where
  "result_for_parent run = (if produced_an_answer (run_status run) then run_result run else None)"

section \<open>Capped chains of authority\<close>

text \<open>
  What the rest of the system relies on: whatever is handed down a chain of spawns stays
  within the start of the chain, and chains are short.
\<close>

locale capped_spawning =
  fixes spawns :: "'a \<Rightarrow> 'a \<Rightarrow> bool"
    and depth :: "'a \<Rightarrow> nat"
    and cap :: nat
    and within :: "'a \<Rightarrow> 'a \<Rightarrow> bool"
  assumes spawns_deeper: "spawns a b \<Longrightarrow> depth b = Suc (depth a)"
    and spawns_capped: "spawns a b \<Longrightarrow> depth b \<le> cap"
    and spawns_within: "spawns a b \<Longrightarrow> within b a"
    and within_refl: "within a a"
    and within_trans: "within a b \<Longrightarrow> within b c \<Longrightarrow> within a c"
begin

lemma descendant_within: "(spawns ^^ n) a b \<Longrightarrow> within b a"
proof (induction n arbitrary: b)
  case 0
  then show ?case by (simp add: within_refl)
next
  case (Suc n)
  then obtain c where "(spawns ^^ n) a c" "spawns c b" by auto
  with Suc.IH show ?case by (blast intro: within_trans spawns_within)
qed

lemma descendant_depth: "(spawns ^^ n) a b \<Longrightarrow> depth b = depth a + n"
proof (induction n arbitrary: b)
  case (Suc n)
  then obtain c where "(spawns ^^ n) a c" "spawns c b" by auto
  with Suc.IH show ?case by (auto dest: spawns_deeper)
qed simp

lemma chain_capped: "(spawns ^^ n) a b \<Longrightarrow> n = 0 \<or> depth a + n \<le> cap"
proof (cases n)
  case (Suc m)
  assume chain: "(spawns ^^ n) a b"
  then obtain c where "spawns c b" using Suc by auto
  then have "depth b \<le> cap" by (rule spawns_capped)
  with descendant_depth [OF chain] show ?thesis by simp
qed simp

lemma at_cap_barren: "depth a = cap \<Longrightarrow> \<not> spawns a b"
  using spawns_deeper [of a b] spawns_capped [of a b] by auto

end

section \<open>How the narrowing works\<close>

lemma fold_remove: "fold (\<lambda>d gs. gs - {d}) ds gs = gs - set ds"
  by (induction ds arbitrary: gs) auto

lemma narrow_child_groups_eq:
  "narrow_child_groups requested parent child =
     requested \<inter> parent - set groups_denied_to_subagents -
       (if child = Guest then set groups_denied_to_guests else {})"
  by (auto simp: narrow_child_groups_def Let_def fold_remove excludes_everything_iff)

lemma narrow_read_tools_iff:
  "tool \<in> narrow_read_tools requested parent child \<longleftrightarrow>
     tool \<in> parent \<and> (\<exists>g. group_of_tool tool = Some g \<and> g \<in> requested \<and>
       (child = Guest \<longrightarrow> g \<notin> set groups_denied_to_guests))"
  by (auto simp: narrow_read_tools_def excludes_everything_iff split: option.splits)

lemma scope_for_role_eq: "scope_for_role p parent = ChildScope (narrow p parent)"
  by (cases p) (simp_all add: scope_for_role_def clamp_scope_def)

lemma narrow_within: "is_within (narrow p parent) parent"
  by (cases p) simp_all

lemma deeper_Ok: "deeper d = Ok d' \<longleftrightarrow> depth_get d = 0 \<and> d' = DelegationDepth 1"
proof -
  have "saturating_add (depth_get d) 1 \<le> (1 :: u8) \<longleftrightarrow> unat (depth_get d) = 0"
    by (simp add: word_le_nat_alt unat_saturating_add) linarith
  moreover have "saturating_add 0 1 = (1 :: u8)" by (simp add: saturating_add_def)
  ultimately show ?thesis
    by (auto simp: deeper_def Let_def MAX_DELEGATION_DEPTH_def not_less [symmetric] unat_eq_0)
qed

lemma may_delegate_iff: "may_delegate a \<longleftrightarrow> depth_get (auth_depth a) = 0"
proof (cases "deeper (auth_depth a)")
  case (Ok d)
  then show ?thesis using deeper_Ok [of "auth_depth a" d] by (simp add: may_delegate_def)
next
  case (Err e)
  then show ?thesis using deeper_Ok [of "auth_depth a" "DelegationDepth 1"]
    by (auto simp: may_delegate_def)
qed

lemma delegate_Ok:
  "delegate fresh_id a role request = Ok spec \<longleftrightarrow>
     request_role request = role_name role \<and> trim (request_instructions request) \<noteq> [] \<and>
     depth_get (auth_depth a) = 0 \<and>
     (let child = narrow (role_personal_data role) (auth_scope a) in
      spec = \<lparr>spec_id = fresh_id, spec_role = role_name role,
              spec_instructions = trim (request_instructions request),
              spec_inputs = request_inputs request, spec_parent_session_id = auth_session_id a,
              spec_scope = ChildScope child,
              spec_tool_groups =
                narrow_child_groups (role_tool_groups role) (auth_tool_groups a) child,
              spec_read_tools = narrow_read_tools (role_tool_groups role) (auth_read_tools a) child,
              spec_withheld = {}, spec_depth = DelegationDepth 1,
              spec_max_turns = role_max_turns role,
              spec_context_fraction = role_context_fraction role, spec_model = role_model role,
              spec_background = request_background request, spec_compile_shape = None,
              spec_prefill_retention = None, spec_prefill_rebuild = False,
              spec_persona = role_instructions role, spec_nudge = None\<rparr>)"
proof (cases "deeper (auth_depth a)")
  case (Ok d)
  then show ?thesis
    using deeper_Ok [of "auth_depth a" d]
    by (auto simp: delegate_def Let_def scope_for_role_eq)
next
  case (Err e)
  then have "depth_get (auth_depth a) \<noteq> 0"
    using deeper_Ok [of "auth_depth a" "DelegationDepth 1"] by auto
  with Err show ?thesis by (auto simp: delegate_def Let_def)
qed

lemma grants_tool_iff:
  "grants_tool spec t \<longleftrightarrow> t \<notin> spec_withheld spec \<and>
     (\<exists>g. group_of_tool t = Some g \<and> (g \<in> spec_tool_groups spec \<or> t \<in> spec_read_tools spec))"
  by (auto simp: grants_tool_def split: option.splits)

lemma delegate_grants:
  assumes "delegate fresh_id a role request = Ok spec"
  shows "grants_tool spec t \<longleftrightarrow>
    (\<exists>g. group_of_tool t = Some g \<and> g \<in> role_tool_groups role \<and>
       (g \<in> auth_tool_groups a \<and> g \<notin> set groups_denied_to_subagents \<or> t \<in> auth_read_tools a) \<and>
       (spec_profile_scope spec = Guest \<longrightarrow> g \<notin> set groups_denied_to_guests))"
  using assms
  by (auto simp: delegate_Ok Let_def grants_tool_iff narrow_child_groups_eq narrow_read_tools_iff
      spec_profile_scope_def)

lemma grants_tool_withholding:
  "grants_tool (withholding spec tools) t \<longleftrightarrow> grants_tool spec t \<and> t \<notin> set tools"
  by (auto simp: grants_tool_iff withholding_def)

section \<open>Chains of delegation\<close>

definition authority_within :: "delegation_authority \<Rightarrow> delegation_authority \<Rightarrow> bool" where
  "authority_within a b \<longleftrightarrow> is_within (auth_scope a) (auth_scope b) \<and>
     auth_tool_groups a \<subseteq> auth_tool_groups b \<and> auth_read_tools a \<subseteq> auth_read_tools b"

text \<open>One authority spawns another when a delegation under it made the other's task.\<close>

inductive spawns :: "delegation_authority \<Rightarrow> delegation_authority \<Rightarrow> bool" where
  spawn: "delegate fresh_id a role request = Ok (spec :: unit task_spec) \<Longrightarrow>
    spawns a (child_authority spec session)"

inductive_cases spawnsE: "spawns a b"

lemma spawns_facts:
  assumes "spawns a b"
  shows "depth_get (auth_depth a) = 0" "depth_get (auth_depth b) = 1" "authority_within b a"
proof -
  obtain fresh_id role request session and spec :: "unit task_spec"
    where d: "delegate fresh_id a role request = Ok spec"
      and b: "b = child_authority spec session"
    using assms by (rule spawnsE)
  show "depth_get (auth_depth a) = 0" using d by (simp add: delegate_Ok)
  show "depth_get (auth_depth b) = 1"
    using d b by (simp add: delegate_Ok Let_def child_authority_def)
  show "authority_within b a"
    using d b
    by (auto simp: delegate_Ok Let_def child_authority_def authority_within_def narrow_within
        narrow_child_groups_eq narrow_read_tools_iff)
qed

lemma authority_within_trans:
  "authority_within a b \<Longrightarrow> authority_within b c \<Longrightarrow> authority_within a c"
  by (auto simp: authority_within_def is_within_iff_reached_rows)

interpretation chain: capped_spawning spawns "\<lambda>a. unat (depth_get (auth_depth a))"
  "unat MAX_DELEGATION_DEPTH" authority_within
proof unfold_locales
  show "authority_within a a" for a by (simp add: authority_within_def)
  show "authority_within a b \<Longrightarrow> authority_within b c \<Longrightarrow> authority_within a c" for a b c
    by (rule authority_within_trans)
qed (auto simp: spawns_facts MAX_DELEGATION_DEPTH_def)

section \<open>Roles stay within their limits\<close>

definition role_ok :: "agent_role \<Rightarrow> bool" where
  "role_ok r \<longleftrightarrow> trim (role_name r) \<noteq> [] \<and> trim (role_instructions r) \<noteq> [] \<and>
     1 \<le> role_max_turns r \<and> role_max_turns r \<le> MAX_ROLE_MAX_TURNS \<and>
     fp_is_finite (role_context_fraction r) \<and> fp_less (Fp 0 0) (role_context_fraction r) \<and>
     fp_le (role_context_fraction r) (Fp 1 0) \<and>
     (\<forall>m. role_model r = Some m \<longrightarrow> m \<noteq> [] \<and> trim m = m)"

text \<open>Every role a program can hold: built by the constructor and changed only by its methods.\<close>

inductive made_role :: "agent_role \<Rightarrow> bool" where
  made_new: "agent_role_new name instructions groups personal turns fraction = Ok r \<Longrightarrow> made_role r"
| made_model: "made_role r \<Longrightarrow> with_model r model = Ok r' \<Longrightarrow> made_role r'"
| made_turns: "made_role r \<Longrightarrow> made_role (with_max_turns r n)"
| made_extras: "made_role r \<Longrightarrow> made_role (with_extras r extras)"

lemma agent_role_new_ok:
  assumes "agent_role_new name instructions groups personal turns fraction = Ok r"
  shows "role_ok r"
  using assms by (auto simp: agent_role_new_def role_ok_def word_ge_1 split: if_splits)

lemma with_model_ok: "role_ok r \<Longrightarrow> with_model r model = Ok r' \<Longrightarrow> role_ok r'"
  by (auto simp: with_model_def role_ok_def split: option.splits if_splits)

lemma with_max_turns_ok: "role_ok r \<Longrightarrow> role_ok (with_max_turns r n)"
  by (auto simp: with_max_turns_def role_ok_def clamp_u32_def MAX_ROLE_MAX_TURNS_def word_ge_1)

lemma with_extras_ok: "role_ok r \<Longrightarrow> role_ok (with_extras r extras)"
  by (simp add: with_extras_def role_ok_def Let_def trim_end_not_blank)

lemma made_role_ok: "made_role r \<Longrightarrow> role_ok r"
  by (induction rule: made_role.induct)
     (blast intro: agent_role_new_ok with_model_ok with_max_turns_ok with_extras_ok)+

section \<open>A concrete delegation\<close>

definition example_role :: agent_role where
  "example_role =
     \<lparr>role_name = lit ''Weather'', role_instructions = lit ''Say it will rain.'',
      role_tool_groups = {lit ''giap-weather'', lit ''giap-vision''},
      role_personal_data = Inherit, role_max_turns = 6, role_context_fraction = Fp 1 1,
      role_model = None, role_examples = [], role_activations = default_activations,
      role_hooks = default_hooks, role_a2a = False\<rparr>"

definition example_request :: task_request where
  "example_request = \<lparr>request_role = lit ''Weather'', request_instructions = lit ''rain?'',
     request_inputs = JNull, request_background = False\<rparr>"

definition example_authority :: delegation_authority where
  "example_authority =
     with_read_tools (root_authority (lit ''s'') Household {lit ''giap-weather''})
       HOUSEHOLD_READ_TOOLS"

lemma example_role_new:
  "agent_role_new (lit ''Weather'') (lit ''Say it will rain.'')
     {lit ''giap-weather'', lit ''giap-vision''} Inherit 6 (Fp 1 1) = Ok example_role"
  by (simp add: agent_role_new_def example_role_def MAX_ROLE_MAX_TURNS_def text_simps)

lemma example_delegates:
  "\<exists>spec :: unit task_spec.
     delegate (lit ''id'') example_authority example_role example_request = Ok spec"
  by (simp add: delegate_Ok Let_def example_request_def example_role_def example_authority_def
      root_authority_def with_read_tools_def ROOT_DEPTH_def text_simps)

section \<open>Properties\<close>

text \<open>
  C7: What a helper may call is decided exactly by its parent, its role and its own scope. A tool is
  granted if and only if the role asks for its group and either the parent holds the group
  and no helper is barred from it, or the tool is a single read tool the parent may hand on; and,
  when the helper runs as a guest, its group is none a guest is denied. The helper's scope never
  reaches a row its parent could not.
\<close>

theorem child_never_exceeds_parent:
  assumes "delegate fresh_id a role request = Ok spec"
  shows "reached_rows (spec_profile_scope spec) \<subseteq> reached_rows (auth_scope a) \<and>
    (grants_tool spec t \<longleftrightarrow>
      (\<exists>g. group_of_tool t = Some g \<and> g \<in> role_tool_groups role \<and>
         (g \<in> auth_tool_groups a \<and> g \<notin> set groups_denied_to_subagents \<or> t \<in> auth_read_tools a) \<and>
         (spec_profile_scope spec = Guest \<longrightarrow> g \<notin> set groups_denied_to_guests)))"
proof -
  have "spec_profile_scope spec = narrow (role_personal_data role) (auth_scope a)"
    using assms by (simp add: delegate_Ok Let_def spec_profile_scope_def)
  then have "reached_rows (spec_profile_scope spec) \<subseteq> reached_rows (auth_scope a)"
    using narrow_within by (simp add: is_within_iff_reached_rows)
  with delegate_grants [OF assms] show ?thesis by blast
qed

theorem child_never_exceeds_parent_witness:
  "\<exists>spec :: unit task_spec.
     delegate (lit ''id'') example_authority example_role example_request = Ok spec \<and>
     grants_tool spec (lit ''giap-weather__get_forecast'') \<and>
     grants_tool spec (lit ''giap-vision__list_vision_automations'') \<and>
     \<not> grants_tool spec (lit ''giap-vision__show_camera'')"
proof -
  obtain spec :: "unit task_spec"
    where d: "delegate (lit ''id'') example_authority example_role example_request = Ok spec"
    using example_delegates by blast
  note g = child_never_exceeds_parent [OF d, THEN conjunct2]
  have "spec_profile_scope spec = Household"
    using d by (simp add: delegate_Ok Let_def spec_profile_scope_def example_role_def
        example_authority_def root_authority_def with_read_tools_def)
  then have "grants_tool spec (lit ''giap-weather__get_forecast'')"
    "grants_tool spec (lit ''giap-vision__list_vision_automations'')"
    "\<not> grants_tool spec (lit ''giap-vision__show_camera'')"
    unfolding g
    by (simp_all add: example_role_def example_authority_def root_authority_def
        with_read_tools_def group_of_tool_def TOOL_NAME_SEPARATOR_def HOUSEHOLD_READ_TOOLS_def
        groups_denied_to_subagents_def extension_names lit_def)
  with d show ?thesis by blast
qed

text \<open>
  Delegation never goes deeper than one level and never widens. However many delegations are
  chained from a turn a person started, the chain has at most one link, every authority on it
  is within the turn's scope, groups and read tools, and the helper at its end may not delegate.
\<close>

theorem delegation_chain_capped:
  assumes "(spawns ^^ n) (root_authority session scope groups) b"
  shows "n \<le> 1 \<and> authority_within b (root_authority session scope groups) \<and>
    (may_delegate b \<longleftrightarrow> n = 0)"
proof -
  have root: "depth_get (auth_depth (root_authority session scope groups)) = 0"
    by (simp add: root_authority_def ROOT_DEPTH_def)
  have n: "n \<le> 1"
    using chain.chain_capped [OF assms] by (auto simp: root MAX_DELEGATION_DEPTH_def)
  have "unat (depth_get (auth_depth b)) = n"
    using chain.descendant_depth [OF assms] by (simp add: root)
  then have "may_delegate b \<longleftrightarrow> n = 0"
    by (auto simp: may_delegate_iff unat_eq_0)
  with n chain.descendant_within [OF assms] show ?thesis by blast
qed

theorem delegation_chain_capped_witness:
  "\<exists>b. (spawns ^^ 1) (root_authority (lit ''s'') Household {lit ''giap-weather''}) b \<and>
     \<not> may_delegate b"
proof -
  let ?a = "root_authority (lit ''s'') Household {lit ''giap-weather''}"
  have "\<exists>spec :: unit task_spec. delegate (lit ''id'') ?a example_role example_request = Ok spec"
    by (simp add: delegate_Ok Let_def example_request_def example_role_def root_authority_def
        ROOT_DEPTH_def text_simps)
  then obtain b where "spawns ?a b" using spawn by blast
  then have chain: "(spawns ^^ 1) ?a b" by (simp only: relpowp_1)
  from delegation_chain_capped [OF this] have "\<not> may_delegate b" by simp
  with chain show ?thesis by blast
qed

text \<open>
  A delegation is refused exactly when the request names another role, carries no
  instructions or comes from a helper; each refusal says which, and the request's own faults are
  reported before the depth cap.
\<close>

theorem delegate_refuses_exactly:
  "(\<exists>spec :: unit task_spec. delegate fresh_id a role request = Ok spec) =
     (request_role request = role_name role \<and> trim (request_instructions request) \<noteq> [] \<and>
      may_delegate a) \<and>
   (delegate fresh_id a role request =
      (Err (RoleMismatch (request_role request) (role_name role)) ::
         (unit task_spec, delegation_refused) result)) =
     (request_role request \<noteq> role_name role) \<and>
   (delegate fresh_id a role request =
      (Err (EmptyInstructions (role_name role)) :: (unit task_spec, delegation_refused) result)) =
     (request_role request = role_name role \<and> trim (request_instructions request) = [])"
proof -
  have "(\<exists>spec :: unit task_spec. delegate fresh_id a role request = Ok spec) =
     (request_role request = role_name role \<and> trim (request_instructions request) \<noteq> [] \<and>
      may_delegate a)"
    by (simp add: delegate_Ok Let_def may_delegate_iff)
  moreover have "deeper (auth_depth a) \<noteq> Err (RoleMismatch x y)"
    "deeper (auth_depth a) \<noteq> Err (EmptyInstructions x)" for x y
    by (simp_all add: deeper_def Let_def)
  ultimately show ?thesis
    by (auto simp: delegate_def Let_def split: result.splits)
qed



end
