(* ===== verification/Activation_Book.thy ===== *)
theory Activation_Book
  imports Delegation Model_Class
begin

text \<open>
  Which activation of which agent fires on a bus event or on the clock: the first part of
  \<open>pond-core/src/shared/services/agent_activations.rs\<close>, with the events of
  \<open>pond-core/src/shared/ports/event_bus.rs\<close>. An instant counts nanoseconds. Outside the repository and
  therefore arguments: the next occurrence of a cron (\<open>next_after\<close>), the wall clock of a
  timezone (\<open>wall_clock\<close>), the text of a float (\<open>show_f64\<close>), the hash that fingerprints an activation
  (\<open>fingerprint\<close>) and the last instant \<open>chrono\<close> can represent (\<open>max_utc\<close>). Adding a span to an instant
  past the last one panics, which is the value \<open>None\<close>.
\<close>

section \<open>Events\<close>

datatype identification_source =
  PairedDevice | Explicit | Face | Voice | UnknownSource

datatype presence_transition = Arrived | Departed

record profile_presence =
  pres_profile_id :: ustr
  pres_transition :: presence_transition
  pres_source :: identification_source
  pres_confidence :: "fp option"
  pres_session_id :: ustr
  pres_at :: timestamp

record sensor_reading =
  read_device_id :: ustr
  read_sensor_type :: ustr
  read_value :: fp
  read_unit :: ustr
  read_recorded_at :: timestamp

record camera_event =
  cam_id :: "int option"
  cam_camera_id :: ustr
  cam_event_type :: ustr
  cam_confidence :: "fp option"
  cam_snapshot_path :: "ustr option"
  cam_metadata :: "ustr option"
  cam_acknowledged :: bool
  cam_created_at :: timestamp

datatype device_state_value = DevBool bool | DevInt int | DevFloat fp | DevText ustr

record device_state_changed =
  dev_device_id :: ustr
  dev_key :: ustr
  dev_value :: device_state_value
  dev_changed_at :: timestamp

text \<open>No trigger reads the payload of a clock tick or of a session event.\<close>

datatype bus_event =
    BusSensor sensor_reading
  | BusCamera camera_event
  | BusDevice device_state_changed
  | BusTime
  | BusPresence profile_presence
  | BusSession

section \<open>Activations of agents\<close>

record activation_key =
  ak_agent :: ustr
  ak_index :: nat
  ak_fingerprint :: nat

definition activation_key_of :: "(activation \<Rightarrow> nat) \<Rightarrow> ustr \<Rightarrow> nat \<Rightarrow> activation \<Rightarrow> activation_key" where
  "activation_key_of fingerprint agent index a =
     \<lparr>ak_agent = agent, ak_index = index, ak_fingerprint = fingerprint a\<rparr>"

record activation_agent =
  aa_role :: agent_role
  aa_owner :: "ustr option"

record event_match =
  em_member :: "ustr option"
  em_source :: "ustr option"
  em_past_threshold :: "bool option"
  em_detail :: ustr

definition presence_match :: "profile_presence \<Rightarrow> ustr \<Rightarrow> event_match" where
  "presence_match p detail =
     \<lparr>em_member = Some (pres_profile_id p), em_source = None, em_past_threshold = None,
      em_detail = detail\<rparr>"

definition source_match :: "ustr \<Rightarrow> ustr \<Rightarrow> event_match" where
  "source_match source detail =
     \<lparr>em_member = None, em_source = Some source, em_past_threshold = None, em_detail = detail\<rparr>"

definition show_int :: "int \<Rightarrow> ustr" where
  "show_int i = (if i < 0 then 45 # show_nat (nat (- i)) else show_nat (nat i))"

fun show_device_value :: "(fp \<Rightarrow> ustr) \<Rightarrow> device_state_value \<Rightarrow> ustr" where
  "show_device_value show_f64 (DevBool b) = (if b then lit ''true'' else lit ''false'')"
| "show_device_value show_f64 (DevInt i) = show_int i"
| "show_device_value show_f64 (DevFloat f) = show_f64 f"
| "show_device_value show_f64 (DevText t) = t"

fun threshold_word :: "threshold \<Rightarrow> ustr" where
  "threshold_word (Above _) = lit ''above''"
| "threshold_word (Below _) = lit ''below''"

fun threshold_limit :: "threshold \<Rightarrow> fp" where
  "threshold_limit (Above x) = x"
| "threshold_limit (Below x) = x"

fun match_event ::
  "(fp \<Rightarrow> ustr) \<Rightarrow> event_trigger \<Rightarrow> bus_event \<Rightarrow> ustr option \<Rightarrow> event_match option"
where
  "match_event show_f64 (PresenceArrive member) (BusPresence p) owner =
     (if pres_transition p = Arrived \<and> subject_admits member (pres_profile_id p) owner
      then Some (presence_match p (lit ''arrived home'')) else None)"
| "match_event show_f64 (PresenceLeave member) (BusPresence p) owner =
     (if pres_transition p = Departed \<and> subject_admits member (pres_profile_id p) owner
      then Some (presence_match p (lit ''left home'')) else None)"
| "match_event show_f64 (CameraPerson camera) (BusCamera c) owner =
     (if eq_ignore_ascii_case (cam_event_type c) (lit ''person'') \<and>
         subject_admits camera (cam_camera_id c) owner
      then Some (source_match (cam_camera_id c)
                   (lit ''camera '' @ cam_camera_id c @ lit '' saw a person'')) else None)"
| "match_event show_f64 (CameraMotion camera) (BusCamera c) owner =
     (if eq_ignore_ascii_case (cam_event_type c) (lit ''motion'') \<and>
         subject_admits camera (cam_camera_id c) owner
      then Some (source_match (cam_camera_id c)
                   (lit ''camera '' @ cam_camera_id c @ lit '' saw motion'')) else None)"
| "match_event show_f64 (Sensor sensor_type device threshold) (BusSensor r) owner =
     (if eq_ignore_ascii_case (read_sensor_type r) sensor_type \<and>
         subject_admits device (read_device_id r) owner
      then Some \<lparr>em_member = None, em_source = Some (read_device_id r),
                 em_past_threshold = Some (threshold_passes threshold (read_value r)),
                 em_detail = read_sensor_type r @ lit '' on '' @ read_device_id r @ lit '' read '' @
                   show_f64 (read_value r) @ lit '' '' @ read_unit r @ lit '', '' @
                   threshold_word threshold @ lit '' '' @ show_f64 (threshold_limit threshold)\<rparr>
      else None)"
| "match_event show_f64 (DeviceChange key device) (BusDevice d) owner =
     (if eq_ignore_ascii_case (dev_key d) key \<and> subject_admits device (dev_device_id d) owner
      then Some (source_match (dev_device_id d)
                   (dev_key d @ lit '' on '' @ dev_device_id d @ lit '' changed to '' @
                    show_device_value show_f64 (dev_value d))) else None)"
| "match_event show_f64 _ _ owner = None"

section \<open>The book\<close>

datatype admission = Fire | CoolingDown | NoEdge | NotDue | Baseline

record activation_book =
  last_fired :: "activation_key \<rightharpoonup> timestamp"
  levels :: "activation_key \<times> ustr \<rightharpoonup> bool"
  next_due :: "activation_key \<rightharpoonup> timestamp"
  book_tasks :: "activation_key \<rightharpoonup> ustr"

definition empty_book :: activation_book where
  "empty_book = \<lparr>last_fired = Map.empty, levels = Map.empty, next_due = Map.empty,
     book_tasks = Map.empty\<rparr>"

definition NANOS :: int where "NANOS = 1000000000"

text \<open>\<open>chrono::Duration::from_std\<close> refuses a span longer than \<open>i64::MAX\<close> milliseconds.\<close>

definition MAX_SPAN_SECS :: nat where "MAX_SPAN_SECS = 9223372036854775"

definition span_of :: "nat \<Rightarrow> int" where
  "span_of cooldown = (if cooldown \<le> MAX_SPAN_SECS then int cooldown * NANOS else 0)"

definition cool ::
  "timestamp \<Rightarrow> activation_key \<Rightarrow> nat \<Rightarrow> timestamp \<Rightarrow> activation_book \<Rightarrow>
     (admission \<times> activation_book) option"
where
  "cool max_utc key cooldown now book =
     (let window = span_of cooldown;
          fired = Some (Fire, book\<lparr>last_fired := (last_fired book)(key \<mapsto> now)\<rparr>)
      in case last_fired book key of
           None \<Rightarrow> fired
         | Some earlier \<Rightarrow>
             if earlier + window > max_utc then None
             else if now < earlier + window then Some (CoolingDown, book)
             else fired)"

definition admit_event ::
  "timestamp \<Rightarrow> activation_key \<Rightarrow> event_match \<Rightarrow> nat \<Rightarrow> timestamp \<Rightarrow> activation_book \<Rightarrow>
     (admission \<times> activation_book) option"
where
  "admit_event max_utc key matched cooldown now book =
     (case em_past_threshold matched of
        None \<Rightarrow> cool max_utc key cooldown now book
      | Some level \<Rightarrow>
          (let source = (case em_source matched of None \<Rightarrow> [] | Some s \<Rightarrow> s);
               book' = book\<lparr>levels := (levels book)((key, source) \<mapsto> level)\<rparr>
           in case levels book (key, source) of
                None \<Rightarrow> Some (Baseline, book')
              | Some True \<Rightarrow> Some (NoEdge, book')
              | Some False \<Rightarrow>
                  if \<not> level then Some (NoEdge, book')
                  else cool max_utc key cooldown now book'))"

definition admit_clock ::
  "(ustr \<Rightarrow> timestamp \<Rightarrow> ustr \<Rightarrow> timestamp option) \<Rightarrow> timestamp \<Rightarrow> activation_key \<Rightarrow> ustr \<Rightarrow> nat \<Rightarrow>
     ustr \<Rightarrow> timestamp \<Rightarrow> activation_book \<Rightarrow> (admission \<times> activation_book) option"
where
  "admit_clock next_after max_utc key cron cooldown timezone now book =
     (case next_due book key of
        None \<Rightarrow>
          Some (Baseline,
            (case next_after cron now timezone of
               None \<Rightarrow> book
             | Some upcoming \<Rightarrow> book\<lparr>next_due := (next_due book)(key \<mapsto> upcoming)\<rparr>))
      | Some due \<Rightarrow>
          if now < due then Some (NotDue, book)
          else cool max_utc key cooldown now
                 (book\<lparr>next_due := (next_due book)(key := next_after cron now timezone)\<rparr>))"

definition note_task :: "activation_key \<Rightarrow> ustr \<Rightarrow> activation_book \<Rightarrow> activation_book" where
  "note_task key i book = book\<lparr>book_tasks := (book_tasks book)(key \<mapsto> i)\<rparr>"

definition task_for :: "activation_book \<Rightarrow> activation_key \<Rightarrow> ustr option" where
  "task_for book key = book_tasks book key"

definition retain_keys :: "activation_key set \<Rightarrow> activation_book \<Rightarrow> activation_book" where
  "retain_keys live book =
     \<lparr>last_fired = last_fired book |` live,
      levels = (\<lambda>(key, source). if key \<in> live then levels book (key, source) else None),
      next_due = next_due book |` live, book_tasks = book_tasks book |` live\<rparr>"

definition reset_clocks :: "activation_book \<Rightarrow> activation_book" where
  "reset_clocks book = book\<lparr>next_due := Map.empty\<rparr>"

section \<open>Firings\<close>

datatype firing_reason = BySchedule ustr | ByDaily ustr | ByEvent event_match

record firing =
  fire_key :: activation_key
  fire_agent :: ustr
  fire_brief :: ustr
  fire_reason :: firing_reason

text \<open>The two nested loops visit every activation of every agent with its index.\<close>

definition agent_activations :: "activation_agent list \<Rightarrow> (activation_agent \<times> nat \<times> activation) list"
where
  "agent_activations agents =
     concat (map (\<lambda>a. map (\<lambda>(i, x). (a, i, x)) (enumerate 0 (role_activations (aa_role a)))) agents)"

fun event_candidate ::
  "(fp \<Rightarrow> ustr) \<Rightarrow> nat \<times> nat \<Rightarrow> bus_event \<Rightarrow> activation_agent \<Rightarrow> activation \<Rightarrow>
     (event_activation \<times> event_match) option"
where
  "event_candidate show_f64 (hour, minute) event agent (Event e) =
     (if (case event_window e of None \<Rightarrow> False | Some w \<Rightarrow> \<not> window_contains w hour minute)
      then None
      else map_option (\<lambda>m. (e, m))
             (match_event show_f64 (event_trigger e) event (aa_owner agent)))"
| "event_candidate show_f64 clock event agent _ = None"

fun event_loop ::
  "(fp \<Rightarrow> ustr) \<Rightarrow> (activation \<Rightarrow> nat) \<Rightarrow> timestamp \<Rightarrow> nat \<times> nat \<Rightarrow> bus_event \<Rightarrow> timestamp \<Rightarrow>
     (activation_agent \<times> nat \<times> activation) list \<Rightarrow> activation_book \<Rightarrow>
     (firing list \<times> activation_book) option"
where
  "event_loop show_f64 fingerprint max_utc clock event now [] book = Some ([], book)"
| "event_loop show_f64 fingerprint max_utc clock event now ((agent, index, a) # rest) book =
     (case event_candidate show_f64 clock event agent a of
        None \<Rightarrow> event_loop show_f64 fingerprint max_utc clock event now rest book
      | Some (e, matched) \<Rightarrow>
          (let name = role_name (aa_role agent); key = activation_key_of fingerprint name index a
           in case admit_event max_utc key matched (event_cooldown e) now book of
                None \<Rightarrow> None
              | Some (verdict, book') \<Rightarrow>
                  map_option
                    (\<lambda>(fs, b). (if verdict = Fire
                       then \<lparr>fire_key = key, fire_agent = name, fire_brief = event_brief e,
                             fire_reason = ByEvent matched\<rparr> # fs else fs, b))
                    (event_loop show_f64 fingerprint max_utc clock event now rest book')))"

definition firings_for_event ::
  "(fp \<Rightarrow> ustr) \<Rightarrow> (activation \<Rightarrow> nat) \<Rightarrow> (timestamp \<Rightarrow> ustr \<Rightarrow> nat \<times> nat) \<Rightarrow> timestamp \<Rightarrow>
     activation_agent list \<Rightarrow> bus_event \<Rightarrow> ustr \<Rightarrow> activation_book \<Rightarrow> timestamp \<Rightarrow>
     (firing list \<times> activation_book) option"
where
  "firings_for_event show_f64 fingerprint wall_clock max_utc agents event timezone book now =
     event_loop show_f64 fingerprint max_utc (wall_clock now timezone) event now
       (agent_activations agents) book"

fun clock_candidate :: "activation \<Rightarrow> (ustr \<times> nat \<times> ustr \<times> firing_reason) option" where
  "clock_candidate (Schedule s) =
     Some (sched_cron s, sched_cooldown s, sched_brief s, BySchedule (sched_cron s))"
| "clock_candidate (Event e) =
     (case (event_trigger e, trigger_clock (event_trigger e)) of
        (TimeDaily hour minute, Some cron) \<Rightarrow>
          Some (cron, event_cooldown e, event_brief e,
                ByDaily (show_two hour @ lit '':'' @ show_two minute))
      | _ \<Rightarrow> None)"
| "clock_candidate _ = None"

fun clock_loop ::
  "(ustr \<Rightarrow> timestamp \<Rightarrow> ustr \<Rightarrow> timestamp option) \<Rightarrow> (activation \<Rightarrow> nat) \<Rightarrow> timestamp \<Rightarrow> ustr \<Rightarrow>
     timestamp \<Rightarrow> (activation_agent \<times> nat \<times> activation) list \<Rightarrow> activation_book \<Rightarrow>
     (firing list \<times> activation_book) option"
where
  "clock_loop next_after fingerprint max_utc timezone now [] book = Some ([], book)"
| "clock_loop next_after fingerprint max_utc timezone now ((agent, index, a) # rest) book =
     (case clock_candidate a of
        None \<Rightarrow> clock_loop next_after fingerprint max_utc timezone now rest book
      | Some (cron, cooldown, brief, reason) \<Rightarrow>
          (let name = role_name (aa_role agent); key = activation_key_of fingerprint name index a
           in case admit_clock next_after max_utc key cron cooldown timezone now book of
                None \<Rightarrow> None
              | Some (verdict, book') \<Rightarrow>
                  map_option
                    (\<lambda>(fs, b). (if verdict = Fire
                       then \<lparr>fire_key = key, fire_agent = name, fire_brief = brief,
                             fire_reason = reason\<rparr> # fs else fs, b))
                    (clock_loop next_after fingerprint max_utc timezone now rest book')))"

definition firings_for_clock ::
  "(ustr \<Rightarrow> timestamp \<Rightarrow> ustr \<Rightarrow> timestamp option) \<Rightarrow> (activation \<Rightarrow> nat) \<Rightarrow> timestamp \<Rightarrow>
     activation_agent list \<Rightarrow> ustr \<Rightarrow> activation_book \<Rightarrow> timestamp \<Rightarrow>
     (firing list \<times> activation_book) option"
where
  "firings_for_clock next_after fingerprint max_utc agents timezone book now =
     clock_loop next_after fingerprint max_utc timezone now (agent_activations agents) book"

definition live_keys :: "(activation \<Rightarrow> nat) \<Rightarrow> activation_agent list \<Rightarrow> activation_key set" where
  "live_keys fingerprint agents =
     set (map (\<lambda>(agent, index, a). activation_key_of fingerprint (role_name (aa_role agent)) index a)
            (filter (\<lambda>(agent, index, a). self_starting a) (agent_activations agents)))"

section \<open>What the book promises\<close>

lemma cool_cases:
  assumes "cool max_utc key cooldown now book = Some (verdict, book')"
  shows "verdict = Fire \<and> last_fired book' = (last_fired book)(key \<mapsto> now) \<and>
      (case last_fired book key of None \<Rightarrow> True | Some t \<Rightarrow> t + span_of cooldown \<le> now) \<or>
    verdict = CoolingDown \<and> last_fired book' = last_fired book \<and>
      (\<exists>t. last_fired book key = Some t \<and> now < t + span_of cooldown)"
  using assms by (auto simp: cool_def Let_def split: option.splits if_splits)

lemma cool_frame:
  assumes "cool max_utc key cooldown now book = Some (verdict, book')"
  shows "levels book' = levels book \<and> next_due book' = next_due book \<and>
    book_tasks book' = book_tasks book"
  using assms by (auto simp: cool_def Let_def split: option.splits if_splits)

lemma admit_event_cool:
  assumes "admit_event max_utc key matched cooldown now book = Some (verdict, book')"
  shows "(verdict \<in> {Baseline, NoEdge} \<and> last_fired book' = last_fired book) \<or>
    (\<exists>b. last_fired b = last_fired book \<and> cool max_utc key cooldown now b = Some (verdict, book'))"
  using assms
proof (cases "em_past_threshold matched")
  case None
  then show ?thesis using assms by (auto simp: admit_event_def)
next
  case (Some level)
  let ?source = "case em_source matched of None \<Rightarrow> [] | Some s \<Rightarrow> s"
  let ?b = "book\<lparr>levels := (levels book)((key, ?source) \<mapsto> level)\<rparr>"
  show ?thesis
  proof (cases "levels book (key, ?source) = Some False \<and> level")
    case True
    then have "cool max_utc key cooldown now ?b = Some (verdict, book')"
      using assms Some by (simp add: admit_event_def Let_def)
    then show ?thesis by (intro disjI2 exI [of _ ?b]) simp
  next
    case False
    then show ?thesis
      using assms Some
      by (cases "levels book (key, ?source)"; cases level)
         (auto simp: admit_event_def Let_def split: bool.splits)
  qed
qed

lemma admit_clock_cool:
  assumes "admit_clock next_after max_utc key cron cooldown timezone now book = Some (verdict, book')"
  shows "(verdict \<in> {Baseline, NotDue} \<and> last_fired book' = last_fired book) \<or>
    (\<exists>b. last_fired b = last_fired book \<and> cool max_utc key cooldown now b = Some (verdict, book'))"
proof (cases "next_due book key")
  case None
  then show ?thesis using assms by (auto simp: admit_clock_def split: option.splits)
next
  case (Some due)
  show ?thesis
  proof (cases "now < due")
    case True
    then show ?thesis using assms Some by (auto simp: admit_clock_def)
  next
    case False
    then have "cool max_utc key cooldown now
        (book\<lparr>next_due := (next_due book)(key := next_after cron now timezone)\<rparr>) = Some (verdict, book')"
      using assms Some by (simp add: admit_clock_def)
    then show ?thesis by (intro disjI2 exI conjI) simp_all
  qed
qed

text \<open>What an admission of \<open>key\<close> does to the last firing of \<open>k\<close>, whichever operation asks.\<close>

definition admission_effect ::
  "activation_key \<Rightarrow> nat \<Rightarrow> timestamp \<Rightarrow> activation_book \<Rightarrow> admission \<Rightarrow> activation_book \<Rightarrow> bool"
where
  "admission_effect key cooldown now book verdict book' \<longleftrightarrow>
     (if verdict = Fire
      then last_fired book' = (last_fired book)(key \<mapsto> now) \<and>
        (case last_fired book key of None \<Rightarrow> True | Some t \<Rightarrow> t + span_of cooldown \<le> now)
      else last_fired book' = last_fired book)"

lemma admission_effectI:
  assumes "verdict \<noteq> Fire \<and> last_fired book' = last_fired book \<or>
    (\<exists>b. last_fired b = last_fired book \<and> cool max_utc key cooldown now b = Some (verdict, book'))"
  shows "admission_effect key cooldown now book verdict book'"
  using assms cool_cases by (fastforce simp: admission_effect_def)

lemma admit_event_effect:
  "admit_event max_utc key matched cooldown now book = Some (verdict, book') \<Longrightarrow>
     admission_effect key cooldown now book verdict book'"
  using admit_event_cool by (intro admission_effectI) blast

lemma admit_clock_effect:
  "admit_clock next_after max_utc key cron cooldown timezone now book = Some (verdict, book') \<Longrightarrow>
     admission_effect key cooldown now book verdict book'"
  using admit_clock_cool by (intro admission_effectI) blast

section \<open>Every run of the book\<close>

text \<open>
  The book of a running pond, with the log of when the activation \<open>k\<close>, whose cooldown is \<open>c\<close>, fired.
  Other activations come and go; \<open>k\<close> stays among the live ones.
\<close>

inductive book_run :: "activation_key \<Rightarrow> nat \<Rightarrow> activation_book \<Rightarrow> timestamp list \<Rightarrow> bool"
  for k c
where
  start: "book_run k c empty_book []"
| event: "book_run k c b log \<Longrightarrow> admit_event max_utc key matched cooldown now b = Some (verdict, b') \<Longrightarrow>
    (key = k \<longrightarrow> cooldown = c) \<Longrightarrow>
    book_run k c b' (if key = k \<and> verdict = Fire then log @ [now] else log)"
| clock: "book_run k c b log \<Longrightarrow>
    admit_clock next_after max_utc key cron cooldown timezone now b = Some (verdict, b') \<Longrightarrow>
    (key = k \<longrightarrow> cooldown = c) \<Longrightarrow>
    book_run k c b' (if key = k \<and> verdict = Fire then log @ [now] else log)"
| noted: "book_run k c b log \<Longrightarrow> book_run k c (note_task key i b) log"
| retained: "book_run k c b log \<Longrightarrow> k \<in> live \<Longrightarrow> book_run k c (retain_keys live b) log"
| reset: "book_run k c b log \<Longrightarrow> book_run k c (reset_clocks b) log"

definition log_spaced :: "int \<Rightarrow> timestamp list \<Rightarrow> bool" where
  "log_spaced w log \<longleftrightarrow> sorted_wrt (\<lambda>a b. a + w \<le> b) log"

definition last_of :: "'a list \<Rightarrow> 'a option" where
  "last_of xs = (if xs = [] then None else Some (last xs))"

lemma log_spaced_snoc:
  assumes "log_spaced w log" "0 \<le> w" "case last_of log of None \<Rightarrow> True | Some t \<Rightarrow> t + w \<le> now"
  shows "log_spaced w (log @ [now])"
proof (cases log rule: rev_cases)
  case Nil
  then show ?thesis by (simp add: log_spaced_def)
next
  case (snoc ys y)
  then have "y + w \<le> now" "\<forall>x \<in> set ys. x + w \<le> y"
    using assms by (auto simp: last_of_def log_spaced_def sorted_wrt_append)
  moreover from this have "\<forall>x \<in> set ys. x + w \<le> now" using assms(2) by fastforce
  ultimately show ?thesis
    using assms(1) snoc by (simp add: log_spaced_def sorted_wrt_append)
qed

lemma span_nonneg: "0 \<le> span_of c"
  by (simp add: span_of_def NANOS_def)

lemma book_run_step:
  assumes "last_fired b k = last_of log" "log_spaced (span_of c) log"
    and "admission_effect key cooldown now b verdict b'" "key = k \<longrightarrow> cooldown = c"
  shows "last_fired b' k = last_of (if key = k \<and> verdict = Fire then log @ [now] else log) \<and>
    log_spaced (span_of c) (if key = k \<and> verdict = Fire then log @ [now] else log)"
proof (cases "key = k \<and> verdict = Fire")
  case True
  then have "case last_of log of None \<Rightarrow> True | Some t \<Rightarrow> t + span_of c \<le> now"
    using assms by (auto simp: admission_effect_def split: option.splits)
  then have "log_spaced (span_of c) (log @ [now])"
    using assms(2) span_nonneg by (rule log_spaced_snoc [rotated 2])
  then show ?thesis using True assms(3) by (simp add: admission_effect_def last_of_def)
next
  case False
  then have "last_fired b' k = last_fired b k"
    using assms(3) by (auto simp: admission_effect_def split: if_splits)
  with False assms(1,2) show ?thesis by auto
qed

lemma book_run_inv:
  "book_run k c b log \<Longrightarrow> last_fired b k = last_of log \<and> log_spaced (span_of c) log"
proof (induction rule: book_run.induct)
  case start
  show ?case by (simp add: empty_book_def last_of_def log_spaced_def)
next
  case (event b log max_utc key matched cooldown now verdict b')
  then show ?case using book_run_step [OF _ _ admit_event_effect] by blast
next
  case (clock b log next_after max_utc key cron cooldown timezone now verdict b')
  then show ?case using book_run_step [OF _ _ admit_clock_effect] by blast
next
  case (noted b log key i)
  then show ?case by (simp add: note_task_def)
next
  case (retained b log live)
  then show ?case by (simp add: retain_keys_def)
next
  case (reset b log)
  then show ?case by (simp add: reset_clocks_def)
qed

lemma admit_event_edge:
  assumes "admit_event max_utc key matched cooldown now book = Some (Fire, book')"
    and "em_past_threshold matched = Some level"
  shows "level \<and> levels book (key, case em_source matched of None \<Rightarrow> [] | Some s \<Rightarrow> s) = Some False"
  using assms
  by (cases "levels book (key, case em_source matched of None \<Rightarrow> [] | Some s \<Rightarrow> s)"; cases level)
     (auto simp: admit_event_def Let_def split: bool.splits)

lemma admit_clock_due:
  assumes "admit_clock next_after max_utc key cron cooldown timezone now book = Some (Fire, book')"
  shows "(\<exists>due. next_due book key = Some due \<and> due \<le> now) \<and>
    next_due book' key = next_after cron now timezone"
proof (cases "next_due book key")
  case None
  then show ?thesis using assms by (auto simp: admit_clock_def split: option.splits)
next
  case (Some due)
  then have "\<not> now < due" using assms by (auto simp: admit_clock_def)
  moreover from this have "cool max_utc key cooldown now
      (book\<lparr>next_due := (next_due book)(key := next_after cron now timezone)\<rparr>) = Some (Fire, book')"
    using assms Some by (simp add: admit_clock_def)
  from cool_frame [OF this] have "next_due book' key = next_after cron now timezone" by simp
  ultimately show ?thesis using Some by simp
qed

section \<open>Properties\<close>

definition example_key :: activation_key where
  "example_key = \<lparr>ak_agent = lit ''Greeter'', ak_index = 0, ak_fingerprint = 7\<rparr>"

definition example_arrival :: event_match where
  "example_arrival = \<lparr>em_member = Some (lit ''ana''), em_source = None, em_past_threshold = None,
     em_detail = lit ''arrived home''\<rparr>"

text \<open>
  An activation never runs more often than its cooldown says. Over any sequence of events, clock
  ticks, edits of other activations and timezone changes, the times at which one activation
  fired are at least its cooldown apart, for every cooldown of up to 9,223,372,036,854,775 seconds.
\<close>

theorem cooldown_respected:
  assumes "book_run k c book log" "c \<le> MAX_SPAN_SECS"
  shows "sorted_wrt (\<lambda>a b. a + int c * NANOS \<le> b) log"
  using book_run_inv [OF assms(1)] assms(2) by (simp add: log_spaced_def span_of_def)

theorem cooldown_respected_witness:
  "sorted_wrt (\<lambda>a b. a + int 60 * NANOS \<le> b) [0, 61 * NANOS]"
proof -
  let ?ev = "\<lambda>now b. admit_event (10 ^ 30) example_key example_arrival 60 now b"
  let ?b1 = "empty_book\<lparr>last_fired := [example_key \<mapsto> 0]\<rparr>"
  let ?b2 = "empty_book\<lparr>last_fired := [example_key \<mapsto> 61 * NANOS]\<rparr>"
  have 1: "?ev 0 empty_book = Some (Fire, ?b1)"
    by (simp add: admit_event_def cool_def example_arrival_def empty_book_def Let_def)
  have 2: "?ev (61 * NANOS) ?b1 = Some (Fire, ?b2)"
    by (simp add: admit_event_def cool_def example_arrival_def empty_book_def Let_def span_of_def
        NANOS_def MAX_SPAN_SECS_def)
  have "book_run example_key 60 ?b1 [0]"
    using book_run.event [OF book_run.start 1, of example_key 60] by simp
  from book_run.event [OF this 2] have "book_run example_key 60 ?b2 [0, 61 * NANOS]" by simp
  then show ?thesis by (rule cooldown_respected) (simp add: MAX_SPAN_SECS_def)
qed

text \<open>
  An activation runs only when something happened. A threshold fires only on the reading that
  crosses it, never on one already past it, back short of it or the first one seen; a clock
  fires only once its noted time has come, and however many occurrences were missed it then waits
  for the next one, so a pond that was off runs it once and never a backlog.
\<close>

theorem activation_needs_edge:
  "(admit_event max_utc key matched cooldown now book = Some (Fire, book') \<and>
      em_past_threshold matched = Some level \<longrightarrow>
      level \<and> levels book (key, case em_source matched of None \<Rightarrow> [] | Some s \<Rightarrow> s) = Some False) \<and>
   (admit_clock next_after max_utc key cron cooldown timezone now book = Some (Fire, book'') \<longrightarrow>
      (\<exists>due. next_due book key = Some due \<and> due \<le> now) \<and>
      next_due book'' key = next_after cron now timezone)"
  using admit_event_edge admit_clock_due by blast

theorem activation_needs_edge_witness:
  "admit_clock (\<lambda>_ t _. Some (t + 10)) 100 example_key (lit ''0 0 7 * * *'') 60 (lit ''UTC'') 35
     (empty_book\<lparr>next_due := [example_key \<mapsto> 10]\<rparr>) =
   Some (Fire, \<lparr>last_fired = [example_key \<mapsto> 35], levels = Map.empty,
                next_due = [example_key \<mapsto> 45], book_tasks = Map.empty\<rparr>) \<and>
   (\<exists>due. (empty_book\<lparr>next_due := [example_key \<mapsto> 10]\<rparr> :: activation_book) = 
       empty_book\<lparr>next_due := [example_key \<mapsto> due]\<rparr> \<and> due \<le> 35)"
proof -
  have f: "admit_clock (\<lambda>_ t _. Some (t + 10)) 100 example_key (lit ''0 0 7 * * *'') 60 (lit ''UTC'') 35
     (empty_book\<lparr>next_due := [example_key \<mapsto> 10]\<rparr>) =
   Some (Fire, \<lparr>last_fired = [example_key \<mapsto> 35], levels = Map.empty,
                next_due = [example_key \<mapsto> 45], book_tasks = Map.empty\<rparr>)"
    by (simp add: admit_clock_def cool_def empty_book_def Let_def)
  from activation_needs_edge [THEN conjunct2, THEN mp, OF this] obtain due where
    "(empty_book\<lparr>next_due := [example_key \<mapsto> 10]\<rparr> :: activation_book) =
       empty_book\<lparr>next_due := [example_key \<mapsto> due]\<rparr>" "due \<le> 35" by auto
  with f show ?thesis by blast
qed



end
