(* ===== verification/Artifact.thy ===== *)
theory Artifact
  imports Step_Key Ledger_Text Long_Task_State
begin

text \<open>
  What a step saves: \<open>Artifact\<close>, its stored columns, its body-free view and the paging of its body
  (\<open>pond-core/src/shared/domain/long_task.rs\<close>). Paging cuts the UTF-8 text at byte offsets, as the code
  does: \<open>str_slice\<close> is Rust's range index on \<open>str\<close>, with \<open>None\<close> for the panic on a cut inside a
  character or past the end.
\<close>

definition ARTIFACT_CHARS_PER_TOKEN :: nat where "ARTIFACT_CHARS_PER_TOKEN = 4"

record artifact =
  art_id :: ustr
  art_task_id :: ustr
  art_step_key :: "step_key option"
  art_kind :: artifact_kind
  art_title :: ustr
  art_summary :: ustr
  art_body :: ustr
  art_tokens :: u32
  art_created_at :: timestamp

record artifact_parts =
  ap_id :: ustr
  ap_task_id :: ustr
  ap_step_key :: "ustr option"
  ap_kind :: artifact_kind
  ap_title :: ustr
  ap_summary :: ustr
  ap_body :: ustr
  ap_created_at :: timestamp

record artifact_summary =
  as_id :: ustr
  as_task_id :: ustr
  as_step_key :: "step_key option"
  as_kind :: artifact_kind
  as_title :: ustr
  as_summary :: ustr
  as_tokens :: u32
  as_created_at :: timestamp

datatype artifact_error =
    MissingTitle
  | MissingSummary
  | EmptyBody
  | InvalidStepKey ustr
  | MissingArtifactId
  | MissingTaskId

definition artifact_tokens :: "ustr \<Rightarrow> u32" where
  "artifact_tokens s =
     u32_from_usize ((length s + (ARTIFACT_CHARS_PER_TOKEN - 1)) div ARTIFACT_CHARS_PER_TOKEN)"

definition artifact_from_parts :: "artifact_parts \<Rightarrow> (artifact, artifact_error) result" where
  "artifact_from_parts p =
     (if trim (ap_id p) = [] then Err MissingArtifactId
      else if trim (ap_task_id p) = [] then Err MissingTaskId
      else (case (case ap_step_key p of
                    None \<Rightarrow> Ok None
                  | Some raw \<Rightarrow>
                      (case step_key_parse raw of
                         Ok key \<Rightarrow> Ok (Some key)
                       | Err _ \<Rightarrow> Err (InvalidStepKey raw))) of
              Err e \<Rightarrow> Err e
            | Ok key \<Rightarrow>
                (let title = one_line (ap_title p); summary = one_line (ap_summary p) in
                 if title = [] then Err MissingTitle
                 else if summary = [] then Err MissingSummary
                 else if trim (ap_body p) = [] then Err EmptyBody
                 else Ok \<lparr>art_id = ap_id p, art_task_id = ap_task_id p, art_step_key = key,
                          art_kind = ap_kind p,
                          art_title = cap_text title MAX_ARTIFACT_TITLE_CHARS,
                          art_summary = cap_text summary MAX_ARTIFACT_SUMMARY_CHARS,
                          art_body = ap_body p, art_tokens = artifact_tokens (ap_body p),
                          art_created_at = ap_created_at p\<rparr>)))"

text \<open>The random id of \<open>uuid::Uuid::new_v4\<close> is the first argument.\<close>

definition artifact_new ::
  "ustr \<Rightarrow> ustr \<Rightarrow> step_key option \<Rightarrow> artifact_kind \<Rightarrow> ustr \<Rightarrow> ustr \<Rightarrow> ustr \<Rightarrow> timestamp
     \<Rightarrow> (artifact, artifact_error) result" where
  "artifact_new new_id task_id step_key kind title summary body at =
     artifact_from_parts
       \<lparr>ap_id = new_id, ap_task_id = task_id, ap_step_key = step_key, ap_kind = kind,
        ap_title = title, ap_summary = summary, ap_body = body, ap_created_at = at\<rparr>"

definition summary_view :: "artifact \<Rightarrow> artifact_summary" where
  "summary_view a =
     \<lparr>as_id = art_id a, as_task_id = art_task_id a, as_step_key = art_step_key a,
      as_kind = art_kind a, as_title = art_title a, as_summary = art_summary a,
      as_tokens = art_tokens a, as_created_at = art_created_at a\<rparr>"

section \<open>Paging\<close>

fun char_indices_from :: "nat \<Rightarrow> ustr \<Rightarrow> (nat \<times> uchar) list" where
  "char_indices_from n [] = []"
| "char_indices_from n (c # cs) = (n, c) # char_indices_from (n + char_len c) cs"

definition char_indices :: "ustr \<Rightarrow> (nat \<times> uchar) list" where
  "char_indices s = char_indices_from 0 s"

definition is_char_boundary :: "ustr \<Rightarrow> nat \<Rightarrow> bool" where
  "is_char_boundary s k \<longleftrightarrow> k \<in> set (map fst (char_indices s)) \<or> k = utf8_len s"

definition str_slice :: "ustr \<Rightarrow> nat \<Rightarrow> nat \<Rightarrow> ustr option" where
  "str_slice s a b =
     (if a \<le> b \<and> is_char_boundary s a \<and> is_char_boundary s b
      then Some (map snd (filter (\<lambda>(k, c). a \<le> k \<and> k < b) (char_indices s)))
      else None)"

definition byte_offset :: "ustr \<Rightarrow> nat \<Rightarrow> nat" where
  "byte_offset s i =
     (if i < length (char_indices s) then fst (char_indices s ! i) else utf8_len s)"

definition usize_max :: nat where "usize_max = 2 ^ 64 - 1"

definition artifact_slice :: "ustr \<Rightarrow> u32 \<Rightarrow> u32 \<Rightarrow> ustr option" where
  "artifact_slice body from_token to_token =
     (if to_token \<le> from_token then Some []
      else let from_char = min (unat from_token * ARTIFACT_CHARS_PER_TOKEN) usize_max;
               to_char = min (unat to_token * ARTIFACT_CHARS_PER_TOKEN) usize_max
           in str_slice body (byte_offset body from_char) (byte_offset body to_char))"

lemma char_len_pos: "0 < char_len c"
  by (simp add: char_len_def)

lemma utf8_len_append [simp]: "utf8_len (xs @ ys) = utf8_len xs + utf8_len ys"
  by (simp add: utf8_len_def)

lemma length_char_indices_from [simp]: "length (char_indices_from n s) = length s"
  by (induction s arbitrary: n) auto

lemma nth_char_indices_from:
  "i < length s \<Longrightarrow> char_indices_from n s ! i = (n + utf8_len (take i s), s ! i)"
proof (induction s arbitrary: n i)
  case (Cons c cs)
  then show ?case by (cases i) (simp_all add: utf8_len_def)
qed simp

lemma byte_offset_eq: "byte_offset s i = utf8_len (take i s)"
  by (auto simp: byte_offset_def char_indices_def nth_char_indices_from)

lemma byte_offset_mono: "i \<le> j \<Longrightarrow> byte_offset s i \<le> byte_offset s j"
proof -
  assume "i \<le> j"
  then have "take j s = take i s @ take (j - i) (drop i s)"
    by (metis le_add_diff_inverse take_add)
  then show ?thesis by (simp add: byte_offset_eq)
qed

lemma byte_offset_less: "i < j \<Longrightarrow> i < length s \<Longrightarrow> byte_offset s i < byte_offset s j"
proof -
  assume ij: "i < j" "i < length s"
  have "byte_offset s (Suc i) = byte_offset s i + char_len (s ! i)"
    using ij(2) by (simp add: byte_offset_eq take_Suc_conv_app_nth utf8_len_def)
  then have "byte_offset s i < byte_offset s (Suc i)" using char_len_pos by simp
  also have "\<dots> \<le> byte_offset s j" using ij(1) by (intro byte_offset_mono) simp
  finally show ?thesis .
qed

lemma byte_offset_boundary: "is_char_boundary s (byte_offset s i)"
  by (cases "i < length s")
     (auto simp: is_char_boundary_def byte_offset_def char_indices_def in_set_conv_nth
       intro!: exI [of _ i])

lemma byte_offset_between:
  assumes "k < length s"
  shows "byte_offset s i \<le> byte_offset s k \<longleftrightarrow> min i (length s) \<le> k"
proof
  assume "byte_offset s i \<le> byte_offset s k"
  then show "min i (length s) \<le> k"
    using byte_offset_less [of k i s] assms by (metis linorder_not_le min.coboundedI1)
qed (metis assms byte_offset_mono linorder_not_le min_def)

lemma filter_upt_interval: "filter (\<lambda>k. a \<le> k \<and> k < b) [0..<n] = [a..<min b n]"
proof (induction n)
  case (Suc n)
  then show ?case by (cases "b = Suc n") (auto simp: min_def)
qed simp

lemma str_slice_offsets:
  assumes "i \<le> j"
  shows "str_slice s (byte_offset s i) (byte_offset s j) = Some (take (j - i) (drop i s))"
proof -
  have ix: "char_indices s = map (\<lambda>k. (byte_offset s k, s ! k)) [0..<length s]"
    by (rule nth_equalityI) (simp_all add: char_indices_def nth_char_indices_from byte_offset_eq)
  have sel: "byte_offset s i \<le> byte_offset s k \<and> byte_offset s k < byte_offset s j \<longleftrightarrow> i \<le> k \<and> k < j"
    if "k < length s" for k
    using byte_offset_between [OF that, of i] byte_offset_between [OF that, of j] that by auto
  have "filter (\<lambda>(k, c). byte_offset s i \<le> k \<and> k < byte_offset s j) (char_indices s) =
      map (\<lambda>k. (byte_offset s k, s ! k)) (filter (\<lambda>k. i \<le> k \<and> k < j) [0..<length s])"
    unfolding ix filter_map comp_def by (rule arg_cong, rule filter_cong) (simp_all add: sel)
  then have "map snd (filter (\<lambda>(k, c). byte_offset s i \<le> k \<and> k < byte_offset s j) (char_indices s)) =
      map ((!) s) [i..<min j (length s)]"
    by (simp add: filter_upt_interval comp_def)
  also have "\<dots> = take (j - i) (drop i s)"
    by (rule nth_equalityI) (auto simp: less_diff_conv add.commute)
  finally show ?thesis
    using byte_offset_mono [OF assms] by (simp add: str_slice_def byte_offset_boundary)
qed

lemma artifact_slice_eq:
  "artifact_slice body f t = Some (take (4 * unat t - 4 * unat f) (drop (4 * unat f) body))"
proof (cases "t \<le> f")
  case True
  then show ?thesis by (simp add: artifact_slice_def word_le_nat_alt)
next
  case False
  have bound: "unat w * 4 \<le> usize_max" for w :: u32
    using unsigned_less [of w, where 'a = nat] by (simp add: usize_max_def)
  have "min (unat w * 4) usize_max = 4 * unat w" for w :: u32
    using bound [of w] by simp
  then show ?thesis
    using False
    by (simp add: artifact_slice_def ARTIFACT_CHARS_PER_TOKEN_def Let_def str_slice_offsets
        word_le_nat_alt)
qed

lemma artifact_tokens_cover:
  "length body \<le> 4 * (2 ^ 32 - 1) \<Longrightarrow> length body \<le> 4 * unat (artifact_tokens body)"
  by (simp add: artifact_tokens_def ARTIFACT_CHARS_PER_TOKEN_def unat_u32_from_usize)

definition pages :: "ustr \<Rightarrow> u32 list \<Rightarrow> ustr list" where
  "pages body cuts = map (\<lambda>(f, t). the (artifact_slice body f t)) (zip cuts (tl cuts))"

lemma take_drop_join: "a \<le> b \<Longrightarrow> b \<le> c \<Longrightarrow>
  take (b - a) (drop a xs) @ take (c - b) (drop b xs) = take (c - a) (drop a xs)"
proof -
  assume "a \<le> b" "b \<le> c"
  then obtain k l where "b = a + k" "c = a + k + l"
    by (metis le_iff_add)
  then show ?thesis by (simp add: take_add add.commute add.assoc)
qed

lemma pages_join_aux:
  "sorted (c # cs) \<Longrightarrow>
     concat (pages body (c # cs)) =
       take (4 * unat (last (c # cs)) - 4 * unat c) (drop (4 * unat c) body)"
proof (induction cs arbitrary: c)
  case Nil
  then show ?case by (simp add: pages_def)
next
  case (Cons d ds)
  have le: "4 * unat c \<le> 4 * unat d" "4 * unat d \<le> 4 * unat (last (d # ds))"
    using Cons.prems last_in_set [of "d # ds"] by (auto simp: word_le_nat_alt [symmetric])
  have "concat (pages body (c # d # ds)) =
      take (4 * unat d - 4 * unat c) (drop (4 * unat c) body) @ concat (pages body (d # ds))"
    by (simp add: pages_def artifact_slice_eq)
  also have "concat (pages body (d # ds)) =
      take (4 * unat (last (d # ds)) - 4 * unat d) (drop (4 * unat d) body)"
    using Cons by simp
  finally have "concat (pages body (c # d # ds)) =
      take (4 * unat (last (d # ds)) - 4 * unat c) (drop (4 * unat c) body)"
    using take_drop_join [OF le, of body] by (simp only:)
  then show ?case by simp
qed

section \<open>What every artifact satisfies\<close>

definition artifact_ok :: "artifact \<Rightarrow> bool" where
  "artifact_ok a \<longleftrightarrow>
     trim (art_id a) \<noteq> [] \<and> trim (art_task_id a) \<noteq> [] \<and>
     (case art_step_key a of None \<Rightarrow> True | Some k \<Rightarrow> valid_step_key k) \<and>
     art_title a \<noteq> [] \<and> length (art_title a) \<le> MAX_ARTIFACT_TITLE_CHARS \<and>
     one_line (art_title a) = art_title a \<and>
     art_summary a \<noteq> [] \<and> length (art_summary a) \<le> MAX_ARTIFACT_SUMMARY_CHARS \<and>
     one_line (art_summary a) = art_summary a \<and>
     trim (art_body a) \<noteq> [] \<and> art_tokens a = artifact_tokens (art_body a)"

definition artifact_parts_of :: "artifact \<Rightarrow> artifact_parts" where
  "artifact_parts_of a =
     \<lparr>ap_id = art_id a, ap_task_id = art_task_id a, ap_step_key = art_step_key a,
      ap_kind = art_kind a, ap_title = art_title a, ap_summary = art_summary a,
      ap_body = art_body a, ap_created_at = art_created_at a\<rparr>"

lemma one_line_not_blank: "one_line s \<noteq> [] \<Longrightarrow> trim (one_line s) \<noteq> []"
  using one_line_words [of s] by (auto simp: trim_join_words)

lemma capped_line:
  assumes "n \<in> {80, 200}" "one_line s \<noteq> []"
  shows "cap_text (one_line s) n \<noteq> []" "length (cap_text (one_line s) n) \<le> n"
    "one_line (cap_text (one_line s) n) = cap_text (one_line s) n"
  using assms one_line_not_blank [OF assms(2)] cap_text_one_line [OF assms(1)]
  by (auto simp: cap_text_blank_iff cap_text_length)

lemma artifact_from_parts_ok: "artifact_from_parts p = Ok a \<Longrightarrow> artifact_ok a"
  using capped_line [of 80 "ap_title p"] capped_line [of 200 "ap_summary p"]
  by (auto simp: artifact_from_parts_def artifact_ok_def Let_def ledger_caps step_key_parse_Ok
      split: if_splits result.splits option.splits)

lemma artifact_parts_roundtrip_aux:
  assumes "artifact_ok a"
  shows "artifact_from_parts (artifact_parts_of a) = Ok a"
proof -
  have "cap_text (art_title a) MAX_ARTIFACT_TITLE_CHARS = art_title a"
    "cap_text (art_summary a) MAX_ARTIFACT_SUMMARY_CHARS = art_summary a"
    using assms one_line_words trim_join_words unfolding artifact_ok_def
    by (metis cap_text_short)+
  then show ?thesis
    using assms
    by (cases "art_step_key a")
       (simp_all add: artifact_from_parts_def artifact_parts_of_def artifact_ok_def Let_def
         step_key_parse_valid)
qed

section \<open>Properties\<close>

text \<open>
  Paging never cuts inside a character and its pages join back into the body: for any
  rising list of token positions from 0 to at least the artifact's token count, every page is
  returned without a panic and the pages in order are the whole body (of up to four times the
  largest 32-bit number of characters).
\<close>

theorem artifact_pages_join:
  assumes "sorted (0 # cuts)" "artifact_tokens body \<le> last (0 # cuts)"
    and "length body \<le> 4 * (2 ^ 32 - 1)"
  shows "list_all (\<lambda>(f, t). artifact_slice body f t \<noteq> None) (zip (0 # cuts) cuts) \<and>
    concat (pages body (0 # cuts)) = body"
proof -
  have "length body \<le> 4 * unat (last (0 # cuts))"
    using artifact_tokens_cover [OF assms(3)] assms(2) by (simp add: word_le_nat_alt)
  then show ?thesis
    using pages_join_aux [OF assms(1), of body] by (simp add: artifact_slice_eq list_all_iff)
qed

theorem artifact_pages_join_witness:
  "concat (pages [104, 233, 8364, 128512, 33] [0, 1, 2]) = [104, 233, 8364, 128512, 33]"
  using artifact_pages_join [of "[1, 2]" "[104, 233, 8364, 128512, 33]"]
  by (simp add: artifact_tokens_def ARTIFACT_CHARS_PER_TOKEN_def u32_from_usize_def)

text \<open>
  Every artifact the code can make is readable and bounded: its id and task are not blank,
  its title and summary are one line of at most 80 and 200 characters, its body is not blank and
  its token count is computed from it; and writing it to columns and rebuilding it through
  \<open>from_parts\<close> changes nothing.
\<close>

theorem artifact_bounded_roundtrip:
  "artifact_from_parts p = Ok a \<Longrightarrow>
     artifact_ok a \<and> artifact_from_parts (artifact_parts_of a) = Ok a"
  using artifact_from_parts_ok artifact_parts_roundtrip_aux by blast

definition example_artifact :: artifact where
  "example_artifact = \<lparr>art_id = lit ''a1'', art_task_id = lit ''t1'', art_step_key = None,
     art_kind = Note, art_title = lit ''My note'', art_summary = lit ''short'',
     art_body = lit ''body'', art_tokens = 1, art_created_at = 3\<rparr>"

lemma example_artifact_new:
  "artifact_new (lit ''a1'') (lit ''t1'') None Note (lit '' My  note '') (lit ''short'') (lit ''body'') 3 =
     Ok example_artifact"
  by (simp add: artifact_new_def artifact_from_parts_def example_artifact_def one_line_def Let_def
      cap_text_def ledger_caps artifact_tokens_def ARTIFACT_CHARS_PER_TOKEN_def
      u32_from_usize_def text_simps)

theorem artifact_bounded_roundtrip_witness: "artifact_ok example_artifact"
  using artifact_bounded_roundtrip [OF example_artifact_new [unfolded artifact_new_def]] by simp

end
