(* ===== verification/Runner_Text.thy ===== *)
theory Runner_Text
  imports Next_Run Artifact Role_Block Delegation
begin

text \<open>
  What each helper of a long task is told: the fixed texts and the briefs of
  \<open>pond-core/src/shared/services/long_task_runner.rs\<close> and the role names of
  \<open>pond-core/src/shared/services/long_task_roles.rs\<close>. The date in words comes from \<open>chrono\<close> and is the
  argument \<open>format_date\<close>. Finding a piece of text and slicing around it is done on characters: every
  delimiter is ASCII, so its byte offset is a character boundary.
\<close>

section \<open>Fixed texts\<close>

definition PLANNER_ROLE :: ustr where
  "PLANNER_ROLE =
     lit ''long-task-planner''"

definition WORKER_ROLE :: ustr where
  "WORKER_ROLE =
     lit ''long-task-worker''"

definition VERIFIER_ROLE :: ustr where
  "VERIFIER_ROLE =
     lit ''long-task-verifier''"

definition COMPOSER_ROLE :: ustr where
  "COMPOSER_ROLE =
     lit ''long-task-composer''"

definition OUT_OF_TURNS :: ustr where
  "OUT_OF_TURNS =
     lit ''the helper ran out of turns before reporting''"

definition CAME_BACK_EMPTY :: ustr where
  "CAME_BACK_EMPTY =
     lit ''the helper reported done but gave no result''"

definition LONG_TASK_SESSION_PREFIX :: ustr where
  "LONG_TASK_SESSION_PREFIX =
     lit ''sched-long-task-''"

definition MADE_AGENT_RULES :: ustr where
  "MADE_AGENT_RULES =
     lit ''How you work:'' @ newline @
     lit ''1. Your brief gives the task's goal, your step and your inputs. Use only '' @
     lit ''your tools.'' @ newline @
     lit ''2. Save what you make with artifact_write, titled as the reader should see '' @
     lit ''it. On your last'' @ newline @
     lit ''   save, when the step is done, set finish to true: that reports the step '' @
     lit ''completed.'' @ newline @
     lit ''3. Otherwise finish with step_report once, last: outcome completed or '' @
     lit ''failed, what you did in a'' @ newline @
     lit ''   few sentences, and the ids of what you saved.'' @ newline @
     lit ''Never put a person's name, health or diet in a web search.''"

definition BRIEF_TITLE :: ustr where
  "BRIEF_TITLE =
     lit ''Brief''"

definition RESULT_TITLE :: ustr where
  "RESULT_TITLE =
     lit ''Result''"

definition RESEARCH_SOURCES :: ustr where
  "RESEARCH_SOURCES =
     lit ''This is research the person asked for. First decide where the answer lives. '' @
     lit ''What happened in this house, who the cameras saw, what the sensors read, '' @
     lit ''what is scheduled and what the household has said live in the house, and a '' @
     lit ''step reads them with get_recent_camera_events, the sensor, schedule and '' @
     lit ''device tools, or the memory tools. Look only where the goal points: a '' @
     lit ''question about the cameras reads the camera tools, not the schedule or what '' @
     lit ''was said. A question about this house needs no web step at all. Plan a web '' @
     lit ''step only for something the goal itself asks about that lies outside the '' @
     lit ''house, such as places, prices or facts about the world. When part of the '' @
     lit ''answer is out of every helper's reach, such as old camera footage or a '' @
     lit ''picture, plan no step for it: the Result says what could not be read and '' @
     lit ''how the person can get it.'' @ newline"

definition SHORT_PLAN :: ustr where
  "SHORT_PLAN =
     lit ''The person wants a short answer. You only write the plan: a helper does '' @
     lit ''each step. Plan one step whose helper finds the answer and saves it as the '' @
     lit ''Result itself. Plan a second step only when the answer needs two different '' @
     lit ''places looked in, never a step that only writes or compiles, and no '' @
     lit ''sections. The Result is the answer in its first sentence, then a sentence '' @
     lit ''or two on what it rests on, at most 150 words in all, with its sources, and '' @
     lit ''no heading.'' @ newline"

definition RESEARCH_REPORT_PLAN :: ustr where
  "RESEARCH_REPORT_PLAN =
     lit ''The person wants a report, as long as the question needs: a page for a '' @
     lit ''narrow question, many for a trip or a big decision. Plan it in three parts. '' @
     lit ''First, one step for each thing the question is about, such as each option a '' @
     lit ''comparison weighs, that looks into all of it and saves its findings with '' @
     lit ''their sources: not a step for each question about one thing. Then one step '' @
     lit ''per section of the report, each writing its section from the findings it is '' @
     lit ''given and saving it as a draft artifact titled as the reader should see it. '' @
     lit ''Plan only the sections the goal asks for or cannot do without. A section '' @
     lit ''that is itself a plan, such as an itinerary, goes to long-task-composer. '' @
     lit ''Last, one step writes the artifact titled '' @ [34] @ lit ''Result'' @ [34] @
     lit '': a short title on its first line as a '' @ [34] @ lit ''# '' @ [34] @
     lit '' heading, then a few paragraphs that answer the question and introduce the '' @
     lit ''sections without repeating them. Do not plan a step that combines, compiles '' @
     lit ''or merges sections: the pond joins the Result and the sections, in plan '' @
     lit ''order, into the report itself.'' @ newline"

definition REPORT_PLAN :: ustr where
  "REPORT_PLAN =
     lit ''The person wants all of it: plan the steps the work needs, and the last '' @
     lit ''step saves the Result in full.'' @ newline"

definition DECIDE_ANSWER :: ustr where
  "DECIDE_ANSWER =
     lit ''Nobody has said how long the answer should be, so decide it from the goal '' @
     lit ''and what the person said, and pass it as plan_write's answer. Choose report '' @
     lit ''only when the person asked for a report, a plan such as a trip or a meal '' @
     lit ''plan, a comparison of many options, or to be thorough. Anything else is '' @
     lit ''short, a question with one answer most of all: a fact, a number, a time, a '' @
     lit ''yes or no, the fastest or best way, or what happened.'' @ newline"

definition RESEARCH_STEP :: ustr where
  "RESEARCH_STEP =
     lit ''This is research. Answer from sources, never from memory: the house's own '' @
     lit ''tools for what happened here, such as get_recent_camera_events, the sensor '' @
     lit ''and schedule tools and the memory tools, and search_web or '' @
     lit ''get_wikipedia_article only for what is outside the house. Before you write '' @
     lit ''a number, price, time or date from the web, read the page it came from with '' @
     lit ''read_web_page: give the source's domain as search_web showed it, or the '' @
     lit ''link the goal gives, and the question. Read one page in your step, two at '' @
     lit ''most, and at most one more part of a page: each read is a turn. Then save '' @
     lit ''what you found. Keep only what the sources say, and cite each web source as '' @
     lit ''a Markdown link, [its title](its address), using the address read_web_page '' @
     lit ''gave, or the search's domain. If the sources disagree, say so. Write only '' @
     lit ''what your tools returned or your inputs say: never write that the house has '' @
     lit ''nothing of something unless the house's own tool said so. If what your step '' @
     lit ''needs is out of your tools' reach, do not search the web for it: save what '' @
     lit ''you could find, say plainly what is missing and how the person could get '' @
     lit ''it, and report the step completed. Use no emoji. Never put a person's name, '' @
     lit ''health or diet in a web search: search for the place, the dish or the thing.'' @
     newline"

definition SECTION_STEP :: ustr where
  "SECTION_STEP =
     lit ''If your step writes a section, save it as a draft artifact titled as the '' @
     lit ''reader should see it, such as '' @ [34] @ lit ''Getting around'' @ [34] @
     lit '', and write it in full: the pond puts it in the report as you wrote it. A '' @
     lit ''section is 400 to 900 words of specifics from the findings: names, prices, '' @
     lit ''times, distances, addresses and what each is good for, not a summary of '' @
     lit ''them. A plan covers every day or item with its times, places and costs.'' @ newline"

definition SHORT_STEP :: ustr where
  "SHORT_STEP =
     lit ''The person wants a short answer. If your step saves the Result, put the '' @
     lit ''answer itself in its first sentence, then a sentence or two on what it '' @
     lit ''rests on, such as the times and what the camera or the source said. Keep '' @
     lit ''the whole to 150 words with its sources, no heading and no sections.'' @ newline"

definition SHORT_ANSWER_STEP :: ustr where
  "SHORT_ANSWER_STEP =
     lit ''Answer the task's goal for the person. Find what it needs with your tools, '' @
     lit ''then save the answer with artifact_write, titled '' @ [34] @ lit ''Result'' @ [34] @
     lit '', with finish true.''"

definition SHORT_ANSWER_KEY :: ustr where
  "SHORT_ANSWER_KEY =
     lit ''answer''"

definition REPORT_NUDGE :: ustr where
  "REPORT_NUDGE =
     lit ''You stopped before your step was finished. If you have not saved your work, '' @
     lit ''save it now with artifact_write: a title, a one-line summary, the whole of '' @
     lit ''your work as the body, and finish true, which also reports the step. If you '' @
     lit ''saved it already, call step_report: outcome completed or failed, a few '' @
     lit ''sentences on what you did, and the ids of the artifacts you saved.''"

definition INLINE_ARTIFACT_TOKENS :: u32 where "INLINE_ARTIFACT_TOKENS = 1500"
definition INLINE_TOTAL_TOKENS :: u32 where "INLINE_TOTAL_TOKENS = 3000"
definition BRIEF_CHARS :: nat where "BRIEF_CHARS = 4000"
definition NOTIFICATION_CHARS :: nat where "NOTIFICATION_CHARS = 700"

section \<open>Lines\<close>

text \<open>\<open>str::lines\<close>: a line ends at a newline, which takes a carriage return before it along.\<close>

definition strip_cr :: "ustr \<Rightarrow> ustr" where
  "strip_cr s = (if s \<noteq> [] \<and> last s = 13 then butlast s else s)"

definition str_lines :: "ustr \<Rightarrow> ustr list" where
  "str_lines s =
     (let parts = split_on (\<lambda>c. c = 10) s in
      map strip_cr (butlast parts) @ (if last parts = [] then [] else [last parts]))"

definition first_line :: "ustr \<Rightarrow> ustr" where
  "first_line s =
     (case List.find (\<lambda>l. l \<noteq> []) (map trim (str_lines s)) of None \<Rightarrow> [] | Some l \<Rightarrow> l)"

definition artifact_line :: "artifact_summary \<Rightarrow> ustr" where
  "artifact_line a =
     lit ''  - '' @ as_id a @ lit '' ['' @ artifact_kind_as_str (as_kind a) @ lit ''] '' @ [34] @
     as_title a @ [34] @ lit '' ('' @ show_nat (unat (as_tokens a)) @ lit '' tokens): '' @
     as_summary a @ newline"

definition artifact_lines :: "artifact_summary list \<Rightarrow> ustr" where
  "artifact_lines artifacts =
     (if artifacts = [] then lit ''  (none)'' @ newline else concat (map artifact_line artifacts))"

section \<open>The person's brief\<close>

datatype message_role = UserRole | AssistantRole | SystemRole | ToolRole

fun conversation_line :: "message_role \<times> ustr \<Rightarrow> ustr option" where
  "conversation_line (role, raw) =
     (case role of
        UserRole \<Rightarrow> if trim raw \<noteq> [] then Some (lit ''The person: '' @ trim raw) else None
      | AssistantRole \<Rightarrow> if trim raw \<noteq> [] then Some (lit ''The assistant: '' @ trim raw) else None
      | _ \<Rightarrow> None)"

text \<open>
  The loop over the lines from the last: the lines kept so far and their size. A line too long for the
  whole brief ends the loop with its own tail.
\<close>

fun keep_lines :: "ustr list \<Rightarrow> nat \<Rightarrow> ustr list \<Rightarrow> ustr + ustr list" where
  "keep_lines kept used [] = Inr kept"
| "keep_lines kept used (line # earlier) =
     (if used + utf8_len line + 1 > BRIEF_CHARS
      then (if kept = [] then Inl (rev (take BRIEF_CHARS (rev line))) else Inr kept)
      else keep_lines (kept @ [line]) (used + utf8_len line + 1) earlier)"

definition conversation_brief :: "(message_role \<times> ustr) list \<Rightarrow> ustr option" where
  "conversation_brief earlier =
     (let ls = List.map_filter conversation_line earlier in
      if ls = [] then None
      else (case keep_lines [] 0 (rev ls) of
              Inl tail \<Rightarrow>
                Some (lit ''Earlier in the conversation:'' @ newline @ lit ''...'' @ tail)
            | Inr kept \<Rightarrow>
                Some (lit ''Earlier in the conversation:'' @ newline @
                      join_with newline (rev kept))))"

definition clip_brief :: "ustr \<Rightarrow> ustr option" where
  "clip_brief s = (if trim s = [] then None else Some (take BRIEF_CHARS (trim s)))"

section \<open>Notifications\<close>

text \<open>\<open>str::find\<close> as a character offset.\<close>

fun find_sub :: "ustr \<Rightarrow> ustr \<Rightarrow> nat option" where
  "find_sub pat [] = (if pat = [] then Some 0 else None)"
| "find_sub pat (c # cs) =
     (if prefix pat (c # cs) then Some 0 else map_option Suc (find_sub pat cs))"

lemma find_sub_bound: "find_sub pat s = Some i \<Longrightarrow> i + length pat \<le> length s"
proof (induction s arbitrary: i)
  case (Cons c cs)
  then show ?case
    by (cases "prefix pat (c # cs)") (auto dest: prefix_length_le)
qed (auto split: if_splits)

function strip_links :: "ustr \<Rightarrow> ustr \<Rightarrow> ustr" where
  "strip_links plain rest =
     (case find_sub (lit ''['') rest of
        None \<Rightarrow> plain @ rest
      | Some start \<Rightarrow>
          (case find_sub (lit '']('') (drop start rest) of
             None \<Rightarrow> plain @ rest
           | Some a \<Rightarrow>
               (let close = start + a in
                case find_sub (lit '')'') (drop close rest) of
                  None \<Rightarrow> plain @ rest
                | Some b \<Rightarrow>
                    strip_links
                      (plain @ take start rest @ take (close - (start + 1)) (drop (start + 1) rest))
                      (drop (close + b + 1) rest))))"
  by auto
termination strip_links
  by (relation "measure (length \<circ> snd)") (auto dest: find_sub_bound)

declare strip_links.simps [simp del]

definition notification_text :: "ustr \<Rightarrow> ustr" where
  "notification_text body =
     (let plain = trim (filter (\<lambda>c. c \<noteq> 35) (strip_links [] (trim body))) in
      if length plain \<le> NOTIFICATION_CHARS then plain
      else (let cut = take NOTIFICATION_CHARS plain;
                kept = (case position is_whitespace (rev cut) of
                          None \<Rightarrow> cut
                        | Some i \<Rightarrow> take (length cut - 1 - i) cut)
            in trim_end kept @ lit ''...''))"

section \<open>How the answer is sized\<close>

definition answer_plan :: "long_task \<Rightarrow> ustr" where
  "answer_plan task =
     (let research = task_kind task = Research;
          report = (if research then RESEARCH_REPORT_PLAN else REPORT_PLAN)
      in (if research then RESEARCH_SOURCES else []) @
         (case task_answer task of
            AnswerShort \<Rightarrow> SHORT_PLAN
          | AnswerReport \<Rightarrow> report
          | AnswerAuto \<Rightarrow>
              DECIDE_ANSWER @ lit ''If short: '' @ SHORT_PLAN @ lit ''If report: '' @ report))"

definition answer_step :: "long_task \<Rightarrow> ustr" where
  "answer_step task =
     (if task_kind task = Research then RESEARCH_STEP else []) @
     (case task_answer task of
        AnswerShort \<Rightarrow> SHORT_STEP
      | _ \<Rightarrow> if task_kind task = Research then SECTION_STEP else [])"

definition date_line :: "(timestamp \<Rightarrow> ustr) \<Rightarrow> timestamp \<Rightarrow> ustr" where
  "date_line format_date now = lit ''Today is '' @ format_date now @ lit '' (UTC).'' @ newline"

section \<open>Briefs\<close>

definition failed_line :: "plan_step \<Rightarrow> ustr" where
  "failed_line s =
     lit ''Step '' @ ps_key s @ lit '' failed after '' @ show_nat (unat (ps_attempts s)) @
     lit '' tries: '' @ (case ps_failure s of None \<Rightarrow> lit ''no reason given'' | Some f \<Rightarrow> f) @ newline"

definition planner_brief ::
  "(timestamp \<Rightarrow> ustr) \<Rightarrow> long_task \<Rightarrow> plan_step list \<Rightarrow> artifact_summary list \<Rightarrow> agent_role list \<Rightarrow>
     plan_reason \<Rightarrow> ustr option \<Rightarrow> timestamp \<Rightarrow> ustr"
where
  "planner_brief format_date task steps artifacts roles reason context now =
     date_line format_date now @
     lit ''Goal: '' @ task_goal task @ newline @
     (case context of
        None \<Rightarrow> []
      | Some c \<Rightarrow>
          lit ''What the person said that the goal leaves out (every step is given this too):'' @
          newline @ trim c @ newline) @
     answer_plan task @
     lit ''At most '' @ show_nat (unat (max_steps (task_budget task))) @ lit '' steps in all.'' @
     newline @ newline @ lit ''Roles that can do a step:'' @ newline @
     concat (map (\<lambda>r. lit ''  - '' @ role_name r @ lit '': '' @ first_line (role_instructions r) @
                       newline) roles) @
     (let finished = filter (\<lambda>s. ps_state s = StepCompleted) steps in
      newline @ lit ''Finished steps:'' @ newline @
      (if finished = [] then lit ''  (none)'' @ newline else []) @
      concat (map (\<lambda>s. lit ''  - '' @ ps_key s @ lit '': '' @
                        (case ps_summary s of None \<Rightarrow> lit ''done'' | Some x \<Rightarrow> x) @ newline)
                  finished)) @
     concat (map failed_line (filter (\<lambda>s. ps_state s = StepFailed) steps)) @
     (case reason of
        Fresh \<Rightarrow> []
      | Blocked keys \<Rightarrow>
          if keys = [] then []
          else lit ''These steps cannot run as planned: '' @ join_with (lit '', '') keys @
               lit ''. Plan around them.'' @ newline) @
     newline @ lit ''Artifacts so far:'' @ newline @
     artifact_lines artifacts"

definition given_artifacts :: "plan_step \<Rightarrow> artifact_summary list \<Rightarrow> artifact_summary list" where
  "given_artifacts step artifacts =
     filter (\<lambda>a. as_id a \<in> set (ps_inputs step) \<or>
                  as_step_key a = None \<and> as_title a = BRIEF_TITLE \<or>
                  (case as_step_key a of
                     None \<Rightarrow> False
                   | Some key \<Rightarrow> key \<in> set (ps_depends_on step) \<or>
                                 ps_attempts step > 0 \<and> key = ps_key step)) artifacts"

fun inline_loop :: "u32 \<Rightarrow> artifact_summary list \<Rightarrow> ustr list" where
  "inline_loop used [] = []"
| "inline_loop used (a # later) =
     (if as_tokens a \<le> INLINE_ARTIFACT_TOKENS \<and> used + as_tokens a \<le> INLINE_TOTAL_TOKENS
      then as_id a # inline_loop (used + as_tokens a) later
      else inline_loop used later)"

definition inline_ids :: "plan_step \<Rightarrow> artifact_summary list \<Rightarrow> ustr list" where
  "inline_ids step artifacts = inline_loop 0 (given_artifacts step artifacts)"

definition inlined_input :: "(ustr \<rightharpoonup> ustr) \<Rightarrow> artifact_summary \<Rightarrow> ustr" where
  "inlined_input bodies a =
     lit ''--- '' @ as_id a @ lit '' '' @ [34] @ as_title a @ [34] @ lit '' ---'' @ newline @
     (case bodies (as_id a) of None \<Rightarrow> [] | Some b \<Rightarrow> trim b) @ newline"

definition worker_brief ::
  "(timestamp \<Rightarrow> ustr) \<Rightarrow> long_task \<Rightarrow> plan_step \<Rightarrow> artifact_summary list \<Rightarrow> (ustr \<rightharpoonup> ustr) \<Rightarrow>
     timestamp \<Rightarrow> ustr"
where
  "worker_brief format_date task step artifacts bodies now =
     (let given = given_artifacts step artifacts;
          inline = filter (\<lambda>a. bodies (as_id a) \<noteq> None) given;
          pull = filter (\<lambda>a. bodies (as_id a) = None) given
      in date_line format_date now @
         lit ''The task's goal: '' @ task_goal task @ newline @
         answer_step task @
         lit ''Your step ('' @ ps_key step @ lit ''): '' @ ps_instructions step @ newline @
         (case ps_acceptance step of
            None \<Rightarrow> [] | Some c \<Rightarrow> lit ''It will be checked against: '' @ c @ newline) @
         (if ps_attempts step > 0
          then (case ps_failure step of
                  None \<Rightarrow> [] | Some x \<Rightarrow> lit ''The last try failed: '' @ x @ newline)
          else []) @
         (if inline = [] then []
          else newline @
               lit ''Your inputs, already read for you (do not call artifact_read for these):'' @
               newline @ concat (map (inlined_input bodies) inline)) @
         (if inline = [] then newline @ lit ''Artifacts you may read:'' @ newline
          else newline @ lit ''Other artifacts you may read:'' @ newline) @
         artifact_lines pull)"

definition verifier_brief ::
  "(timestamp \<Rightarrow> ustr) \<Rightarrow> long_task \<Rightarrow> plan_step \<Rightarrow> step_outcome \<Rightarrow> artifact_summary list \<Rightarrow>
     ustr option \<Rightarrow> timestamp \<Rightarrow> ustr"
where
  "verifier_brief format_date task step report artifacts context now =
     (let saved = filter (\<lambda>a. as_step_key a = Some (ps_key step) \<or>
                               as_id a \<in> set (out_artifacts report)) artifacts
      in date_line format_date now @
         lit ''The task's goal: '' @ task_goal task @ newline @
         (case Option.bind context clip_brief of
            None \<Rightarrow> []
          | Some c \<Rightarrow> lit ''What the person said about it:'' @ newline @ c @ newline) @
         lit ''Fail the step, too, if what it saved does not serve that goal: if it is about '' @
         lit ''something else, or comes from the web when the goal asks about this house.'' @
         newline @
         lit ''Step '' @ ps_key step @ lit '': '' @ ps_instructions step @ newline @
         lit ''Acceptance check: '' @
         (case ps_acceptance step of None \<Rightarrow> lit ''the step did what it says'' | Some c \<Rightarrow> c) @
         newline @
         lit ''The step's report: '' @ out_summary report @ newline @
         newline @ lit ''What it saved:'' @ newline @
         artifact_lines saved)"

section \<open>Titles\<close>

text \<open>
  The code calls \<open>char::to_uppercase\<close>; the characters of a step key are ASCII, where it is
  \<open>to_ascii_upper\<close>.
\<close>

definition title_verbs :: "ustr list" where
  "title_verbs =
     map lit [''draft'', ''write'', ''research'', ''find'', ''gather'', ''compose'', ''make'']"

definition title_from_key :: "step_key \<Rightarrow> ustr" where
  "title_from_key key =
     (let words = filter (\<lambda>w. w \<noteq> []) (split_on (\<lambda>c. c = 45 \<or> c = 95) key);
          words = (case words of
                     first # rest \<Rightarrow>
                       if first \<in> set title_verbs \<and> rest \<noteq> [] then rest else words
                   | [] \<Rightarrow> words)
      in case join_with (lit '' '') words of
           [] \<Rightarrow> lit ''Draft''
         | c # cs \<Rightarrow> to_ascii_upper c # cs)"

section \<open>Bounds\<close>

lemma inline_loop_step:
  assumes "used \<le> INLINE_TOTAL_TOKENS" "n \<le> INLINE_ARTIFACT_TOKENS"
  shows "unat (used + n) = unat used + unat n"
proof -
  have "unat used \<le> 3000" "unat n \<le> 1500"
    using assms by (simp_all add: word_le_nat_alt INLINE_TOTAL_TOKENS_def INLINE_ARTIFACT_TOKENS_def)
  then have "unat used + unat n < 2 ^ LENGTH(32)" by simp
  then show ?thesis by (simp only: unat_add_lem [THEN iffD1])
qed

text \<open>What the loop takes: a sublist of the given artifacts, each small and together within the rest.\<close>

lemma inline_loop_taken:
  assumes "used \<le> INLINE_TOTAL_TOKENS"
  shows "\<exists>taken. subseq taken artifacts \<and> inline_loop used artifacts = map as_id taken \<and>
    (\<forall>a \<in> set taken. as_tokens a \<le> INLINE_ARTIFACT_TOKENS) \<and>
    unat used + (\<Sum>a\<leftarrow>taken. unat (as_tokens a)) \<le> unat INLINE_TOTAL_TOKENS"
  using assms
proof (induction artifacts arbitrary: used)
  case Nil
  then show ?case by (intro exI [of _ "[]"]) (simp add: word_le_nat_alt)
next
  case (Cons a later)
  show ?case
  proof (cases "as_tokens a \<le> INLINE_ARTIFACT_TOKENS \<and> used + as_tokens a \<le> INLINE_TOTAL_TOKENS")
    case True
    then obtain taken where t: "subseq taken later"
      "inline_loop (used + as_tokens a) later = map as_id taken"
      "\<forall>a \<in> set taken. as_tokens a \<le> INLINE_ARTIFACT_TOKENS"
      "unat (used + as_tokens a) + (\<Sum>a\<leftarrow>taken. unat (as_tokens a)) \<le> unat INLINE_TOTAL_TOKENS"
      using Cons.IH [of "used + as_tokens a"] by blast
    show ?thesis
      using t True inline_loop_step [OF Cons.prems, of "as_tokens a"]
      by (intro exI [of _ "a # taken"]) auto
  next
    case False
    then obtain taken where t: "subseq taken later" "inline_loop used later = map as_id taken"
      "\<forall>a \<in> set taken. as_tokens a \<le> INLINE_ARTIFACT_TOKENS"
      "unat used + (\<Sum>a\<leftarrow>taken. unat (as_tokens a)) \<le> unat INLINE_TOTAL_TOKENS"
      using Cons.IH [OF Cons.prems] by blast
    then show ?thesis using False by (intro exI [of _ taken]) auto
  qed
qed

lemma notification_length: "length (notification_text body) \<le> NOTIFICATION_CHARS + 3"
proof -
  define plain where "plain = trim (filter (\<lambda>c. c \<noteq> 35) (strip_links [] (trim body)))"
  define cut where "cut = take NOTIFICATION_CHARS plain"
  define kept where "kept = (case position is_whitespace (rev cut) of
      None \<Rightarrow> cut | Some i \<Rightarrow> take (length cut - 1 - i) cut)"
  have n: "notification_text body =
      (if length plain \<le> NOTIFICATION_CHARS then plain else trim_end kept @ lit ''...'')"
    unfolding notification_text_def plain_def cut_def kept_def Let_def by (rule refl)
  have "length kept \<le> NOTIFICATION_CHARS"
    by (auto simp: kept_def cut_def split: option.splits)
  then have "length (trim_end kept) \<le> NOTIFICATION_CHARS"
    using length_trim_end_le le_trans by blast
  then show ?thesis by (simp add: n)
qed

lemma clip_brief_bound: "clip_brief s = Some b \<Longrightarrow> b \<noteq> [] \<and> length b \<le> BRIEF_CHARS"
  by (auto simp: clip_brief_def BRIEF_CHARS_def split: if_splits)

section \<open>Properties\<close>

text \<open>
  The inputs put whole into a helper's brief are chosen from those it was given, in their
  order, each of at most 1,500 tokens and together at most 3,000; the 32-bit sum never wraps round.
\<close>

theorem inline_within_budget:
  "\<exists>taken. subseq taken (given_artifacts step artifacts) \<and>
     inline_ids step artifacts = map as_id taken \<and>
     list_all (\<lambda>a. as_tokens a \<le> 1500) taken \<and> (\<Sum>a\<leftarrow>taken. unat (as_tokens a)) \<le> 3000"
  using inline_loop_taken [of 0 "given_artifacts step artifacts"]
  by (simp add: inline_ids_def INLINE_ARTIFACT_TOKENS_def INLINE_TOTAL_TOKENS_def list_all_iff)

end
