(* ===== verification/Long_Task_Runner.thy ===== *)
theory Long_Task_Runner
  imports Runner_Text
begin

text \<open>
  What one run of a long task may reach and how its end is settled: the rest of
  \<open>pond-core/src/shared/services/long_task_runner.rs\<close>. The ceiling of every run is \<open>long_task_authority\<close>; an
  agent a plan makes for one step is held to it by \<open>role_for_agent\<close>. \<open>is_alphanumeric\<close> takes the
  Unicode property beyond ASCII as an argument; random ids are arguments too.
\<close>

section \<open>The ceiling\<close>

definition LONG_TASK_ROOT_GROUPS :: "ustr list" where
  "LONG_TASK_ROOT_GROUPS =
     [TASK_WORK_EXTENSION, lit ''giap-knowledge'', lit ''giap-memory'', lit ''giap-weather'',
      lit ''giap-sensors'']"

definition long_task_authority :: "ustr \<Rightarrow> profile_scope \<Rightarrow> delegation_authority" where
  "long_task_authority session_id scope =
     with_read_tools (root_authority session_id scope (set LONG_TASK_ROOT_GROUPS))
       HOUSEHOLD_READ_TOOLS"

definition lane_reaches_group :: "ustr \<Rightarrow> bool" where
  "lane_reaches_group g \<longleftrightarrow>
     g \<in> set LONG_TASK_ROOT_GROUPS \<or>
     list_ex (\<lambda>tool. group_of_tool tool = Some g) HOUSEHOLD_READ_TOOLS"

definition long_task_session_id :: "ustr \<Rightarrow> ustr \<Rightarrow> ustr" where
  "long_task_session_id task run = LONG_TASK_SESSION_PREFIX @ task @ lit ''-'' @ run"

definition role_for_agent ::
  "plan_step \<Rightarrow> step_agent \<Rightarrow> agent_role \<Rightarrow> (agent_role, role_error) result"
where
  "role_for_agent step agent worker =
     (let tools = insert TASK_WORK_EXTENSION (set (filter lane_reaches_group (agent_tools agent)))
      in agent_role_new (ps_role step)
           (lit ''You are '' @ agent_name agent @
            lit '', an agent made for one step of a longer task. '' @ agent_instructions agent @
            newline @ newline @ MADE_AGENT_RULES)
           tools Inherit (role_max_turns worker) (role_context_fraction worker))"

definition tools_withheld :: "ustr \<Rightarrow> ustr list" where
  "tools_withheld name =
     (if name = PLANNER_ROLE
      then [lit ''giap-task-work__artifact_write'', lit ''giap-task-work__step_report'']
      else if name = VERIFIER_ROLE
      then [lit ''giap-task-work__artifact_write'', lit ''giap-task-work__plan_write'']
      else [lit ''giap-task-work__plan_write''])"

definition turns_for :: "u32 \<Rightarrow> plan_step \<Rightarrow> u32" where
  "turns_for max_turns step =
     (if ps_attempts step > 0 \<and> ps_failure step = Some OUT_OF_TURNS
      then max_turns + div_ceil max_turns 2 else max_turns)"

section \<open>The answer\<close>

definition is_alphanumeric :: "(uchar \<Rightarrow> bool) \<Rightarrow> uchar \<Rightarrow> bool" where
  "is_alphanumeric beyond_ascii c =
     (if c < 128 then ascii_alphanumeric c else beyond_ascii c)"

definition brief_artifact :: "artifact_summary list \<Rightarrow> artifact_summary option" where
  "brief_artifact artifacts =
     List.find (\<lambda>a. as_step_key a = None \<and> as_title a = BRIEF_TITLE) artifacts"

definition names_result :: "(uchar \<Rightarrow> bool) \<Rightarrow> ustr \<Rightarrow> bool" where
  "names_result beyond_ascii title =
     list_ex (\<lambda>word. eq_ignore_ascii_case word RESULT_TITLE)
       (split_on (\<lambda>c. \<not> is_alphanumeric beyond_ascii c) title)"

definition result_artifact ::
  "(uchar \<Rightarrow> bool) \<Rightarrow> artifact_summary list \<Rightarrow> artifact_summary option"
where
  "result_artifact beyond_ascii artifacts =
     (case List.find (\<lambda>a. eq_ignore_ascii_case (trim (as_title a)) RESULT_TITLE)
             (rev artifacts) of
        Some a \<Rightarrow> Some a
      | None \<Rightarrow> List.find (\<lambda>a. names_result beyond_ascii (as_title a)) (rev artifacts))"

definition answer_artifact ::
  "(uchar \<Rightarrow> bool) \<Rightarrow> long_task \<Rightarrow> artifact_summary list \<Rightarrow> artifact_summary option"
where
  "answer_artifact beyond_ascii task artifacts =
     (case result_artifact beyond_ascii artifacts of
        Some a \<Rightarrow> Some a
      | None \<Rightarrow>
          if task_answer task = AnswerShort
          then List.find (\<lambda>a. as_step_key a \<noteq> None) (rev artifacts) else None)"

fun result_ok :: "('a, 'e) result \<Rightarrow> 'a option" where
  "result_ok (Ok a) = Some a"
| "result_ok (Err _) = None"

definition summary_as_result ::
  "ustr \<Rightarrow> (uchar \<Rightarrow> bool) \<Rightarrow> long_task \<Rightarrow> plan_step list \<Rightarrow> artifact_summary list \<Rightarrow> timestamp \<Rightarrow>
     artifact option"
where
  "summary_as_result fresh_id beyond_ascii task steps artifacts now =
     (if task_answer task \<noteq> AnswerShort \<or> answer_artifact beyond_ascii task artifacts \<noteq> None
      then None
      else (case max_by_key ps_ordinal (filter (\<lambda>s. ps_state s = StepCompleted) steps) of
              None \<Rightarrow> None
            | Some step \<Rightarrow>
                (case non_blank (ps_summary step) of
                   None \<Rightarrow> None
                 | Some summary \<Rightarrow>
                     result_ok (artifact_new fresh_id (task_id task) (Some (ps_key step)) Draft
                       RESULT_TITLE (first_line summary) summary now))))"

definition last_step_line :: "plan_step list \<Rightarrow> plan_step \<Rightarrow> ustr option" where
  "last_step_line steps step =
     (let later = list_ex (\<lambda>other. ps_ordinal other > ps_ordinal step \<and>
                             ps_state other \<notin> {StepCompleted, Skipped}) steps
      in if later then None
         else Some (lit ''Your step is the plan's last: save what answers the goal as the artifact '' @
                    lit ''titled '' @ [34] @ lit ''Result'' @ [34] @ lit ''.'' @ newline))"

definition short_answer_plan :: "long_task \<Rightarrow> (validated_plan, plan_error) result" where
  "short_answer_plan task =
     validate_plan task
       [\<lparr>draft_key = SHORT_ANSWER_KEY, draft_role = WORKER_ROLE, draft_new_agent = None,
         draft_instructions = SHORT_ANSWER_STEP, draft_inputs = [], draft_depends_on = [],
         draft_acceptance = None\<rparr>] []"

section \<open>A reply kept as work\<close>

definition MIN_DRAFT_WORDS :: nat where "MIN_DRAFT_WORDS = 60"

record reply_draft =
  reply_key :: step_key
  reply_last :: bool

definition heading_of :: "ustr \<Rightarrow> ustr option" where
  "heading_of body =
     (case List.map_filter (\<lambda>l. case l of c # h \<Rightarrow> if c = 35 then Some h else None | [] \<Rightarrow> None)
             (map trim (str_lines body)) of
        [] \<Rightarrow> None
      | h # _ \<Rightarrow>
          (let h' = trim (dropWhile (\<lambda>c. c = 35) h) in if h' = [] then None else Some h'))"

definition reply_as_draft ::
  "ustr \<Rightarrow> (ustr \<Rightarrow> json option) \<Rightarrow> (json \<Rightarrow> ustr) \<Rightarrow> long_task \<Rightarrow> reply_draft \<Rightarrow> task_run \<Rightarrow>
     timestamp \<Rightarrow> artifact option"
where
  "reply_as_draft fresh_id json_parse json_text task draft run now =
     (case result_for_parent run of
        None \<Rightarrow> None
      | Some raw \<Rightarrow>
          (let body = trim raw in
           if length (split_whitespace body) < MIN_DRAFT_WORDS \<or>
              is_ok (outcome_parse json_parse json_text body)
           then None
           else
             (let title = (if reply_last draft then RESULT_TITLE
                           else (case heading_of body of
                                   Some h \<Rightarrow> h | None \<Rightarrow> title_from_key (reply_key draft)));
                  summary = (case List.find (\<lambda>l. l \<noteq> [] \<and> hd l \<noteq> 35) (map trim (str_lines body)) of
                               Some l \<Rightarrow> l | None \<Rightarrow> title)
              in result_ok (artifact_new fresh_id (task_id task) (Some (reply_key draft)) Draft
                   title summary body now))))"

section \<open>How a run ended\<close>

definition MIN_RESULT_CHARS :: nat where "MIN_RESULT_CHARS = 20"

datatype run_end = Reported step_outcome | Preempted

definition failed_outcome :: "ustr \<Rightarrow> step_outcome" where
  "failed_outcome reason = outcome_new OutcomeFailed reason [] (Some reason)"

definition reported_nothing :: "step_outcome \<Rightarrow> ustr list \<Rightarrow> bool" where
  "reported_nothing outcome written \<longleftrightarrow>
     out_kind outcome = OutcomeCompleted \<and> out_artifacts outcome = [] \<and> written = [] \<and>
     length (trim (out_summary outcome)) < MIN_RESULT_CHARS"

definition settle_run ::
  "(ustr \<Rightarrow> json option) \<Rightarrow> (json \<Rightarrow> ustr) \<Rightarrow> step_outcome option \<Rightarrow> ustr list \<Rightarrow> task_run \<Rightarrow> bool \<Rightarrow>
     run_end"
where
  "settle_run json_parse json_text reported written run may_retry =
     (case reported of
        Some outcome \<Rightarrow>
          Reported (if reported_nothing outcome written then failed_outcome CAME_BACK_EMPTY
                    else outcome)
      | None \<Rightarrow>
          if run_status run = RunCancelled then Preempted
          else if run_status run = TurnBudgetExhausted \<and> may_retry
          then Reported (failed_outcome OUT_OF_TURNS)
          else if written \<noteq> []
          then (let summary =
                      (case non_blank (run_result run) of
                         Some body \<Rightarrow> body
                       | None \<Rightarrow> lit ''Saved '' @ show_nat (length written) @ lit '' artifact(s).'')
                in Reported (outcome_new OutcomeCompleted summary written None))
          else if run_status run = TurnBudgetExhausted
          then Reported (failed_outcome OUT_OF_TURNS)
          else (case map_option (outcome_parse json_parse json_text) (result_for_parent run) of
                  Some (Ok outcome) \<Rightarrow> Reported outcome
                | _ \<Rightarrow>
                    Reported (failed_outcome
                      (case run_error run of
                         Some e \<Rightarrow> e | None \<Rightarrow> lit ''the helper ended without reporting''))))"

section \<open>What a run reaches\<close>

lemma long_task_authority_fields:
  "auth_scope (long_task_authority session scope) = scope"
  "auth_tool_groups (long_task_authority session scope) = set LONG_TASK_ROOT_GROUPS"
  "auth_read_tools (long_task_authority session scope) = set HOUSEHOLD_READ_TOOLS"
  "depth_get (auth_depth (long_task_authority session scope)) = 0"
  by (simp_all add: long_task_authority_def with_read_tools_def root_authority_def ROOT_DEPTH_def)

lemma root_groups_not_denied:
  "g \<in> set LONG_TASK_ROOT_GROUPS \<Longrightarrow> g \<notin> set groups_denied_to_subagents"
  by (auto simp: LONG_TASK_ROOT_GROUPS_def groups_denied_to_subagents_def extension_names)

lemma lane_run_grants:
  assumes "delegate fresh_id (long_task_authority session scope) role request = Ok spec"
  shows "grants_tool (withholding spec (tools_withheld (role_name role))) t \<longleftrightarrow>
    t \<notin> set (tools_withheld (role_name role)) \<and>
    (\<exists>g. group_of_tool t = Some g \<and> g \<in> role_tool_groups role \<and>
       (g \<in> set LONG_TASK_ROOT_GROUPS \<or> t \<in> set HOUSEHOLD_READ_TOOLS) \<and>
       (spec_profile_scope spec = Guest \<longrightarrow> g \<notin> set groups_denied_to_guests))"
  using delegate_grants [OF assms, of t] root_groups_not_denied
  by (auto simp: grants_tool_withholding long_task_authority_fields)

lemma lane_reaches_groupI:
  "group_of_tool t = Some g \<Longrightarrow> t \<in> set HOUSEHOLD_READ_TOOLS \<Longrightarrow> lane_reaches_group g"
  by (auto simp: lane_reaches_group_def list_ex_iff)

lemma plan_write_withheld:
  "lit ''giap-task-work__plan_write'' \<in> set (tools_withheld name) \<longleftrightarrow> name \<noteq> PLANNER_ROLE"
  by (auto simp: tools_withheld_def)

lemma role_for_agent_groups:
  assumes "role_for_agent step agent worker = Ok role"
  shows "TASK_WORK_EXTENSION \<in> role_tool_groups role"
    and "g \<in> role_tool_groups role \<Longrightarrow> lane_reaches_group g"
    and "role_name role = ps_role step" and "role_ok role"
proof -
  have new: "role_ok role"
    using assms by (auto simp: role_for_agent_def Let_def intro: agent_role_new_ok)
  have eq: "role_tool_groups role =
      insert TASK_WORK_EXTENSION (set (filter lane_reaches_group (agent_tools agent)))"
    and "role_name role = ps_role step"
    using assms by (auto simp: role_for_agent_def Let_def agent_role_new_def split: if_splits)
  then show "role_name role = ps_role step" by simp
  show "TASK_WORK_EXTENSION \<in> role_tool_groups role" by (simp add: eq)
  show "g \<in> role_tool_groups role \<Longrightarrow> lane_reaches_group g"
    by (auto simp: eq lane_reaches_group_def LONG_TASK_ROOT_GROUPS_def)
  show "role_ok role" by (rule new)
qed

section \<open>Settling\<close>

lemma failed_outcome_kind [simp]: "out_kind (failed_outcome r) = OutcomeFailed"
  by (simp add: failed_outcome_def outcome_new_def)

lemma settle_run_Preempted:
  "settle_run jp jt reported written run may_retry = Preempted \<longleftrightarrow>
     reported = None \<and> run_status run = RunCancelled"
  by (auto simp: settle_run_def Let_def split: option.splits result.splits)

lemma settle_run_Completed:
  assumes "settle_run jp jt reported written run may_retry = Reported outcome"
    and "out_kind outcome = OutcomeCompleted"
  shows "(\<exists>r. reported = Some r \<and> outcome = r \<and> \<not> reported_nothing r written) \<or>
    (reported = None \<and> written \<noteq> [] \<and> out_artifacts outcome = clean_ids written \<and>
       (run_status run = TurnBudgetExhausted \<longrightarrow> \<not> may_retry)) \<or>
    (reported = None \<and> written = [] \<and> run_status run = RunCompleted \<and>
       (\<exists>body. run_result run = Some body \<and> outcome_parse jp jt body = Ok outcome))"
proof (cases reported)
  case (Some r)
  then show ?thesis
    using assms by (auto simp: settle_run_def split: if_splits)
next
  case None
  show ?thesis
  proof (cases "written = []")
    case True
    then show ?thesis
      using assms None
      by (auto simp: settle_run_def result_for_parent_def produced_an_answer_def
          split: if_splits option.splits result.splits)
  next
    case False
    then have "out_artifacts outcome = clean_ids written \<and>
        (run_status run = TurnBudgetExhausted \<longrightarrow> \<not> may_retry)"
      using assms None
      by (auto simp: settle_run_def Let_def outcome_new_def split: if_splits)
    then show ?thesis using None False by blast
  qed
qed

lemma turns_for_bound:
  assumes "role_max_turns role \<le> MAX_ROLE_MAX_TURNS" "1 \<le> role_max_turns role"
  shows "role_max_turns (with_max_turns role (turns_for (role_max_turns role) step)) =
    (if ps_attempts step > 0 \<and> ps_failure step = Some OUT_OF_TURNS
     then min 12 (role_max_turns role + div_ceil (role_max_turns role) 2)
     else role_max_turns role)"
proof -
  let ?n = "role_max_turns role"
  have n: "unat ?n \<le> 12" "1 \<le> unat ?n"
    using assms by (simp_all add: word_le_nat_alt MAX_ROLE_MAX_TURNS_def)
  have "?n + div_ceil ?n 2 \<ge> 1"
  proof -
    have "unat (?n div 2) = unat ?n div 2" by (simp add: unat_div)
    then have "unat (div_ceil ?n 2) \<le> 7"
      using n by (auto simp: div_ceil_def unat_word_ariths)
    then have "unat (?n + div_ceil ?n 2) = unat ?n + unat (div_ceil ?n 2)"
      using n by (simp add: unat_word_ariths)
    then show ?thesis using n by (simp add: word_le_nat_alt)
  qed
  then show ?thesis
    using assms by (auto simp: with_max_turns_def turns_for_def clamp_u32_def MAX_ROLE_MAX_TURNS_def
        min_def word_ge_1 not_less)
qed

section \<open>The plan of a short answer\<close>

lemma short_answer_plan_Ok:
  assumes "\<not> task_state_is_terminal (task_state task)" "1 \<le> max_steps (task_budget task)"
  shows "\<exists>p s. short_answer_plan task = Ok p \<and> vp_steps p = [s] \<and> vp_kept p = [] \<and>
    ps_key s = SHORT_ANSWER_KEY \<and> ps_role s = WORKER_ROLE \<and> ps_depends_on s = []"
proof -
  have "1 \<le> unat (max_steps (task_budget task))"
    using assms(2) by (simp add: word_le_nat_alt)
  moreover have "trim SHORT_ANSWER_STEP = SHORT_ANSWER_STEP" "SHORT_ANSWER_STEP \<noteq> []"
    by (simp_all add: SHORT_ANSWER_STEP_def lit_def trim_id is_whitespace_def)
  ultimately show ?thesis
    using assms(1)
    by (simp add: short_answer_plan_def plan_eval visit.simps visit_deps.simps
        SHORT_ANSWER_KEY_def WORKER_ROLE_def text_simps)
qed

section \<open>Properties\<close>

text \<open>
  C26: No run of a long task can act on the house. Whatever the role asks for, a run under the
  lane's authority is granted only tools of the ceiling's groups or single tools that read the house;
  only the planner may write the plan, and the planner and the verifier may save no artifact.
\<close>

theorem long_task_run_confined:
  assumes "delegate fresh_id (long_task_authority session scope) role request = Ok spec"
    and "grants_tool (withholding spec (tools_withheld (role_name role))) t"
  shows "(\<exists>g. group_of_tool t = Some g \<and> lane_reaches_group g \<and>
      (g \<in> set LONG_TASK_ROOT_GROUPS \<or> t \<in> set HOUSEHOLD_READ_TOOLS)) \<and>
    (t = lit ''giap-task-work__plan_write'' \<longrightarrow> role_name role = PLANNER_ROLE) \<and>
    (t = lit ''giap-task-work__artifact_write'' \<longrightarrow>
       role_name role \<noteq> PLANNER_ROLE \<and> role_name role \<noteq> VERIFIER_ROLE)"
proof -
  note g = lane_run_grants [OF assms(1), of t, THEN iffD1, OF assms(2)]
  then have "t \<notin> set (tools_withheld (role_name role))" by blast
  moreover from this have "t = lit ''giap-task-work__artifact_write'' \<longrightarrow>
      role_name role \<noteq> PLANNER_ROLE \<and> role_name role \<noteq> VERIFIER_ROLE"
    by (auto simp: tools_withheld_def split: if_splits)
  moreover have "\<exists>g. group_of_tool t = Some g \<and> lane_reaches_group g \<and>
      (g \<in> set LONG_TASK_ROOT_GROUPS \<or> t \<in> set HOUSEHOLD_READ_TOOLS)"
    using g lane_reaches_groupI by (auto simp: lane_reaches_group_def)
  ultimately show ?thesis using plan_write_withheld by blast
qed

theorem long_task_run_confined_witness:
  "\<exists>spec :: unit task_spec.
     delegate (lit ''id'') (long_task_authority (lit ''s'') Household) example_role example_request =
       Ok spec \<and>
     grants_tool (withholding spec (tools_withheld (role_name example_role)))
       (lit ''giap-weather__get_forecast'') \<and>
     lane_reaches_group (lit ''giap-weather'')"
proof -
  have "\<exists>spec :: unit task_spec. delegate (lit ''id'') (long_task_authority (lit ''s'') Household)
      example_role example_request = Ok spec"
    by (simp add: delegate_Ok Let_def example_request_def example_role_def long_task_authority_fields
        text_simps)
  then obtain spec :: "unit task_spec" where d: "delegate (lit ''id'')
      (long_task_authority (lit ''s'') Household) example_role example_request = Ok spec" by blast
  have g: "group_of_tool (lit ''giap-weather__get_forecast'') = Some (lit ''giap-weather'')"
    by (simp add: group_of_tool_def TOOL_NAME_SEPARATOR_def lit_def)
  have "spec_profile_scope spec = Household"
    using d by (simp add: delegate_Ok Let_def spec_profile_scope_def example_role_def
        long_task_authority_fields)
  then have t: "grants_tool (withholding spec (tools_withheld (role_name example_role)))
      (lit ''giap-weather__get_forecast'')"
    unfolding lane_run_grants [OF d] g
    by (simp add: tools_withheld_def example_role_def LONG_TASK_ROOT_GROUPS_def PLANNER_ROLE_def
        VERIFIER_ROLE_def)
  from long_task_run_confined [OF d t] g have "lane_reaches_group (lit ''giap-weather'')" by auto
  with d t show ?thesis by blast
qed

text \<open>
  C23: A step is never taken as done without evidence. When a run settles as completed, either the
  helper reported it with something to show (an artifact, saved work or a summary of 20 characters),
  or it saved work and was not cut off with a try left, or its run completed and its last text is
  a hand-back that says so. A run settles as preempted exactly when it was cancelled unreported.
\<close>

theorem settle_run_needs_evidence:
  "(settle_run jp jt reported written run may_retry = Preempted \<longleftrightarrow>
      reported = None \<and> run_status run = RunCancelled) \<and>
   (settle_run jp jt reported written run may_retry = Reported outcome \<and>
      out_kind outcome = OutcomeCompleted \<longrightarrow>
    (reported = Some outcome \<and> \<not> reported_nothing outcome written) \<or>
    (reported = None \<and> written \<noteq> [] \<and> out_artifacts outcome = clean_ids written \<and>
       (run_status run = TurnBudgetExhausted \<longrightarrow> \<not> may_retry)) \<or>
    (reported = None \<and> written = [] \<and> run_status run = RunCompleted \<and>
       (\<exists>body. run_result run = Some body \<and> outcome_parse jp jt body = Ok outcome)))"
proof (intro conjI impI, rule settle_run_Preempted)
  assume "settle_run jp jt reported written run may_retry = Reported outcome \<and>
      out_kind outcome = OutcomeCompleted"
  then show "(reported = Some outcome \<and> \<not> reported_nothing outcome written) \<or>
    (reported = None \<and> written \<noteq> [] \<and> out_artifacts outcome = clean_ids written \<and>
       (run_status run = TurnBudgetExhausted \<longrightarrow> \<not> may_retry)) \<or>
    (reported = None \<and> written = [] \<and> run_status run = RunCompleted \<and>
       (\<exists>body. run_result run = Some body \<and> outcome_parse jp jt body = Ok outcome))"
    using settle_run_Completed [of jp jt reported written run may_retry outcome] by metis
qed

definition example_run :: task_run where
  "example_run = \<lparr>run_id = lit ''r'', run_role = WORKER_ROLE, run_parent_session_id = lit ''s'',
     run_status = RunCompleted, run_result = Some (lit ''saved it''), run_error = None,
     run_started_at = 0, run_finished_at = Some 1\<rparr>"

theorem settle_run_needs_evidence_witness:
  "settle_run (\<lambda>_. None) (\<lambda>_. []) None [lit ''a1''] example_run True =
     Reported (outcome_new OutcomeCompleted (lit ''saved it'') [lit ''a1''] None) \<and>
   out_artifacts (outcome_new OutcomeCompleted (lit ''saved it'') [lit ''a1''] None) =
     clean_ids [lit ''a1'']"
proof -
  have s: "settle_run (\<lambda>_. None) (\<lambda>_. []) None [lit ''a1''] example_run True =
     Reported (outcome_new OutcomeCompleted (lit ''saved it'') [lit ''a1''] None)"
    by (simp add: settle_run_def example_run_def non_blank_def text_simps)
  then show ?thesis
    using settle_run_needs_evidence [of "\<lambda>_. None" "\<lambda>_. []" None "[lit ''a1'']" example_run True
        "outcome_new OutcomeCompleted (lit ''saved it'') [lit ''a1''] None"]
    by (simp add: outcome_new_def)
qed

text \<open>
  A short answer the member chose never waits for a planner: its one-step plan always passes
  validation on an open task with room for a step, and once stored the next decision of a running
  task is to do that step.
\<close>

theorem short_answer_runs_at_once:
  assumes "\<not> task_state_is_terminal (task_state task)" "1 \<le> max_steps (task_budget task)"
    "workable task' fruitless now"
  shows "\<exists>p s. short_answer_plan task = Ok p \<and>
    next_run task' (vp_steps p) fruitless now = Do s \<and>
    ps_key s = SHORT_ANSWER_KEY \<and> ps_role s = WORKER_ROLE"
proof -
  obtain p s where p: "short_answer_plan task = Ok p" "vp_steps p = [s]"
    and s: "ps_key s = SHORT_ANSWER_KEY" "ps_role s = WORKER_ROLE"
    using short_answer_plan_Ok [OF assms(1,2)] by blast
  have "\<exists>s'. next_run task' (plan_rows [] p) fruitless now = Do s' \<and> s' \<in> set (vp_steps p)"
    by (rule validated_plan_runs_aux
        [OF p(1) [unfolded short_answer_plan_def] list.distinct(2) _ _ assms(3)]) simp_all
  then show ?thesis using p s by (auto simp: plan_rows_def kept_steps_def)
qed

theorem short_answer_runs_at_once_witness:
  "\<exists>p s. short_answer_plan example_task = Ok p \<and>
     next_run (example_task\<lparr>task_state := TaskRunning\<rparr>) (vp_steps p) 0 20 = Do s \<and>
     ps_key s = SHORT_ANSWER_KEY \<and> ps_role s = WORKER_ROLE"
  by (rule short_answer_runs_at_once [OF _ _ workable_example])
     (simp_all add: example_task_def example_budget_def)

text \<open>
  A retry after running out of turns gets half again as many turns, up to the role cap of 12;
  a role already at the cap gets no more on its retry.
\<close>

theorem retry_turns_exact:
  assumes "made_role role"
  shows "role_max_turns (with_max_turns role (turns_for (role_max_turns role) step)) =
    (if ps_attempts step > 0 \<and> ps_failure step = Some OUT_OF_TURNS
     then min 12 (role_max_turns role + div_ceil (role_max_turns role) 2)
     else role_max_turns role)"
  using made_role_ok [OF assms] by (intro turns_for_bound) (simp_all add: role_ok_def)

theorem retry_turns_exact_witness:
  "role_max_turns (with_max_turns (with_max_turns example_role 12)
     (turns_for 12 (example_step\<lparr>ps_attempts := 1, ps_failure := Some OUT_OF_TURNS\<rparr>))) = 12"
proof -
  have "made_role (with_max_turns example_role 12)"
    by (rule made_turns [OF made_new [OF example_role_new]])
  from retry_turns_exact [OF this, of "example_step\<lparr>ps_attempts := 1, ps_failure := Some OUT_OF_TURNS\<rparr>"]
  show ?thesis
    by (simp add: with_max_turns_def clamp_u32_def MAX_ROLE_MAX_TURNS_def div_ceil_def min_def)
qed

end
