(* ===== verification/Long_Task_Store.thy ===== *)
theory Long_Task_Store
  imports Plan_Schedule Artifact
begin

text \<open>
  The store of tasks, steps and artifacts: the port \<open>LongTaskRepository\<close>
  (\<open>pond-core/src/shared/ports/long_task.rs\<close>) and its in-memory implementation
  (\<open>pond-core/src/shared/mocks/mock_long_task.rs\<close>), whose semantics are those of the SQLite one. Every
  method that writes returns the new ledger, or an error that writes nothing. The locale
  \<open>step_store\<close> states what the runner relies on of the steps.
\<close>

datatype long_task_owner_filter = Everyone | Member ustr | Unowned

record ledger =
  led_tasks :: "long_task list"
  led_steps :: "plan_step list"
  led_artifacts :: "artifact list"

definition empty_ledger :: ledger where
  "empty_ledger = \<lparr>led_tasks = [], led_steps = [], led_artifacts = []\<rparr>"

datatype store_error =
    TaskExists ustr
  | NoTaskToPlan ustr
  | TaskTakesNoPlan ustr long_task_state
  | PlanStale stale_plan
  | NoSuchStep ustr ustr
  | StepMoveRefused step_state_refused
  | TaskMoveRefused long_task_state_refused
  | NoTaskForArtifact ustr
  | ArtifactExists ustr

fun update_first :: "('a \<Rightarrow> bool) \<Rightarrow> 'a \<Rightarrow> 'a list \<Rightarrow> 'a list" where
  "update_first p y [] = []"
| "update_first p y (x # xs) = (if p x then y # xs else x # update_first p y xs)"

definition owned_by :: "long_task \<Rightarrow> long_task_owner_filter \<Rightarrow> bool" where
  "owned_by task owner =
     (case owner of
        Everyone \<Rightarrow> True
      | Member i \<Rightarrow> task_owner task = Some i
      | Unowned \<Rightarrow> task_owner task = None)"

section \<open>Tasks\<close>

definition create_task :: "ledger \<Rightarrow> long_task \<Rightarrow> (ledger, store_error) result" where
  "create_task l t =
     (if list_ex (\<lambda>held. task_id held = task_id t) (led_tasks l)
      then Err (TaskExists (task_id t))
      else Ok (l\<lparr>led_tasks := led_tasks l @ [t]\<rparr>))"

definition get_task :: "ledger \<Rightarrow> ustr \<Rightarrow> long_task option" where
  "get_task l i = find (\<lambda>t. task_id t = i) (led_tasks l)"

definition list_tasks :: "ledger \<Rightarrow> long_task_owner_filter \<Rightarrow> bool \<Rightarrow> long_task list" where
  "list_tasks l owner include_finished =
     sort_key (\<lambda>t. - task_created_at t)
       (filter (\<lambda>t. include_finished \<or> \<not> task_state_is_terminal (task_state t))
         (filter (\<lambda>t. owned_by t owner) (rev (led_tasks l))))"

definition put_task :: "ledger \<Rightarrow> long_task \<Rightarrow> ledger" where
  "put_task l t = l\<lparr>led_tasks := update_first (\<lambda>held. task_id held = task_id t) t (led_tasks l)\<rparr>"

definition set_task_state ::
  "ledger \<Rightarrow> ustr \<Rightarrow> long_task_state \<Rightarrow> timestamp \<Rightarrow> (long_task option \<times> ledger, store_error) result"
  where
  "set_task_state l i n at =
     (case get_task l i of
        None \<Rightarrow> Ok (None, l)
      | Some t \<Rightarrow>
          (case transition_to t n at of
             Err e \<Rightarrow> Err (TaskMoveRefused e)
           | Ok t' \<Rightarrow> Ok (Some t', put_task l t')))"

definition decide_task_answer :: "ledger \<Rightarrow> ustr \<Rightarrow> answer_shape \<Rightarrow> bool \<times> ledger" where
  "decide_task_answer l i a =
     (case get_task l i of
        None \<Rightarrow> (False, l)
      | Some t \<Rightarrow> (case decide_answer t a of (changed, t') \<Rightarrow> (changed, put_task l t')))"

definition delete_task :: "ledger \<Rightarrow> ustr \<Rightarrow> bool \<times> ledger" where
  "delete_task l i =
     (let tasks = filter (\<lambda>t. task_id t \<noteq> i) (led_tasks l) in
      if length tasks = length (led_tasks l) then (False, l\<lparr>led_tasks := tasks\<rparr>)
      else (True, \<lparr>led_tasks = tasks,
                   led_steps = filter (\<lambda>s. ps_task_id s \<noteq> i) (led_steps l),
                   led_artifacts = filter (\<lambda>a. art_task_id a \<noteq> i) (led_artifacts l)\<rparr>))"

section \<open>Steps\<close>

definition steps_held :: "ledger \<Rightarrow> ustr \<Rightarrow> plan_step list" where
  "steps_held l tid = filter (\<lambda>s. ps_task_id s = tid) (led_steps l)"

definition list_steps :: "ledger \<Rightarrow> ustr \<Rightarrow> plan_step list" where
  "list_steps l tid = sort_key ps_ordinal (steps_held l tid)"

definition replace_open_steps :: "ledger \<Rightarrow> validated_plan \<Rightarrow> (ledger, store_error) result" where
  "replace_open_steps l p =
     (let tid = vp_task_id p in
      case get_task l tid of
        None \<Rightarrow> Err (NoTaskToPlan tid)
      | Some t \<Rightarrow>
          if task_state_is_terminal (task_state t) then Err (TaskTakesNoPlan tid (task_state t))
          else (case check_current p (map (\<lambda>s. (ps_key s, ps_state s)) (steps_held l tid)) of
                  Err e \<Rightarrow> Err (PlanStale e)
                | Ok _ \<Rightarrow>
                    Ok (l\<lparr>led_steps :=
                            filter (\<lambda>s. ps_task_id s \<noteq> tid \<or> survives_replan (ps_state s))
                              (led_steps l) @ vp_steps p\<rparr>)))"

definition same_step :: "plan_step \<Rightarrow> plan_step \<Rightarrow> bool" where
  "same_step s held \<longleftrightarrow> ps_task_id held = ps_task_id s \<and> ps_key held = ps_key s"

definition update_step :: "ledger \<Rightarrow> plan_step \<Rightarrow> (ledger, store_error) result" where
  "update_step l s =
     (case find (same_step s) (led_steps l) of
        None \<Rightarrow> Err (NoSuchStep (ps_key s) (ps_task_id s))
      | Some stored \<Rightarrow>
          if \<not> step_can_become (ps_state stored) (ps_state s)
          then Err (StepMoveRefused
                      \<lparr>refused_step = ps_key s, step_from = ps_state stored, step_to = ps_state s\<rparr>)
          else Ok (l\<lparr>led_steps := update_first (same_step s) s (led_steps l)\<rparr>))"

section \<open>Artifacts\<close>

definition insert_artifact :: "ledger \<Rightarrow> artifact \<Rightarrow> (ledger, store_error) result" where
  "insert_artifact l a =
     (if \<not> list_ex (\<lambda>t. task_id t = art_task_id a) (led_tasks l)
      then Err (NoTaskForArtifact (art_task_id a))
      else if list_ex (\<lambda>held. art_id held = art_id a) (led_artifacts l)
      then Err (ArtifactExists (art_id a))
      else Ok (l\<lparr>led_artifacts := led_artifacts l @ [a]\<rparr>))"

definition get_artifact :: "ledger \<Rightarrow> ustr \<Rightarrow> ustr \<Rightarrow> artifact option" where
  "get_artifact l tid aid =
     find (\<lambda>a. art_id a = aid \<and> art_task_id a = tid) (led_artifacts l)"

definition list_artifacts :: "ledger \<Rightarrow> ustr \<Rightarrow> artifact_summary list" where
  "list_artifacts l tid =
     map summary_view
       (sort_key art_created_at (filter (\<lambda>a. art_task_id a = tid) (led_artifacts l)))"

definition delete_artifact :: "ledger \<Rightarrow> ustr \<Rightarrow> ustr \<Rightarrow> bool \<times> ledger" where
  "delete_artifact l tid aid =
     (let kept = filter (\<lambda>a. \<not> (art_task_id a = tid \<and> art_id a = aid)) (led_artifacts l)
      in (length kept < length (led_artifacts l), l\<lparr>led_artifacts := kept\<rparr>))"

section \<open>The store as a state machine\<close>

text \<open>
  Every write the port offers, in any order. Only \<open>validate_plan\<close> and \<open>validate_appended_step\<close> make a
  plan, against steps that may have moved since; all the store needs of one is \<open>well_keyed\<close>.
\<close>

definition well_keyed :: "validated_plan \<Rightarrow> bool" where
  "well_keyed p \<longleftrightarrow>
     distinct (map ps_key (vp_steps p)) \<and> (\<forall>s \<in> set (vp_steps p). ps_task_id s = vp_task_id p)"

inductive ledger_step :: "ledger \<Rightarrow> ledger \<Rightarrow> bool" where
  create: "create_task l t = Ok l' \<Longrightarrow> ledger_step l l'"
| set_state: "set_task_state l i n at = Ok (r, l') \<Longrightarrow> ledger_step l l'"
| decide: "decide_task_answer l i a = (r, l') \<Longrightarrow> ledger_step l l'"
| replan: "well_keyed p \<Longrightarrow> replace_open_steps l p = Ok l' \<Longrightarrow> ledger_step l l'"
| put: "update_step l s = Ok l' \<Longrightarrow> ledger_step l l'"
| insert: "insert_artifact l a = Ok l' \<Longrightarrow> ledger_step l l'"
| delete: "delete_task l i = (r, l') \<Longrightarrow> ledger_step l l'"
| delete_art: "delete_artifact l i j = (r, l') \<Longrightarrow> ledger_step l l'"

definition step_ids :: "plan_step list \<Rightarrow> (ustr \<times> step_key) list" where
  "step_ids steps = map (\<lambda>s. (ps_task_id s, ps_key s)) steps"

definition ledger_inv :: "ledger \<Rightarrow> bool" where
  "ledger_inv l \<longleftrightarrow>
     distinct (map task_id (led_tasks l)) \<and>
     distinct (step_ids (led_steps l)) \<and>
     ps_task_id ` set (led_steps l) \<subseteq> task_id ` set (led_tasks l) \<and>
     distinct (map art_id (led_artifacts l)) \<and>
     art_task_id ` set (led_artifacts l) \<subseteq> task_id ` set (led_tasks l)"

section \<open>Finding and updating\<close>

lemma find_None_list_ex: "find p xs = None \<longleftrightarrow> \<not> list_ex p xs"
  by (induction xs) auto

lemma list_ex_image: "list_ex (\<lambda>x. f x = y) xs \<longleftrightarrow> y \<in> f ` set xs"
  by (induction xs) auto

lemma find_SomeD: "find p xs = Some x \<Longrightarrow> x \<in> set xs \<and> p x"
  by (induction xs) (auto split: if_splits)

lemma map_update_first:
  "(\<And>x. p x \<Longrightarrow> f x = f y) \<Longrightarrow> map f (update_first p y xs) = map f xs"
  by (induction xs) auto

lemma set_update_first_subset: "set (update_first p y xs) \<subseteq> insert y (set xs)"
  by (induction xs) auto

lemma update_first_keeps: "x \<in> set xs \<Longrightarrow> \<not> p x \<Longrightarrow> x \<in> set (update_first p y xs)"
  by (induction xs) auto

lemma find_update_first_self:
  "find p xs \<noteq> None \<Longrightarrow> p y \<Longrightarrow> find p (update_first p y xs) = Some y"
  by (induction xs) (auto split: if_splits)

lemma find_update_first_other:
  "(\<And>x. p x \<Longrightarrow> \<not> q x) \<Longrightarrow> \<not> q y \<Longrightarrow> find q (update_first p y xs) = find q xs"
  by (induction xs) auto

lemma find_distinct:
  "distinct (map f xs) \<Longrightarrow> x \<in> set xs \<Longrightarrow> find (\<lambda>y. f y = f x) xs = Some x"
  by (induction xs) (auto split: if_splits)

lemma get_task_SomeD: "get_task l i = Some t \<Longrightarrow> t \<in> set (led_tasks l) \<and> task_id t = i"
  unfolding get_task_def by (drule find_SomeD) simp

lemma get_task_known: "get_task l i = Some t \<Longrightarrow> i \<in> task_id ` set (led_tasks l)"
  using get_task_SomeD by blast

lemma put_task_ids:
  "map task_id (led_tasks (put_task l t)) = map task_id (led_tasks l)"
  "led_steps (put_task l t) = led_steps l" "led_artifacts (put_task l t) = led_artifacts l"
  by (simp_all add: put_task_def map_update_first)

lemma same_step_ids: "same_step s x \<Longrightarrow> (ps_task_id x, ps_key x) = (ps_task_id s, ps_key s)"
  by (simp add: same_step_def)

lemma update_step_ids:
  "step_ids (update_first (same_step s) s xs) = step_ids xs"
  unfolding step_ids_def by (rule map_update_first) (simp add: same_step_def)

lemma step_ids_tasks: "ps_task_id ` set xs = fst ` set (step_ids xs)"
  by (simp add: step_ids_def image_image)

section \<open>What each write leaves\<close>

lemma create_task_Ok:
  "create_task l t = Ok l' \<longleftrightarrow>
     task_id t \<notin> task_id ` set (led_tasks l) \<and> l' = l\<lparr>led_tasks := led_tasks l @ [t]\<rparr>"
  by (auto simp: create_task_def list_ex_image)

lemma update_step_Ok:
  "update_step l s = Ok l' \<longleftrightarrow>
     (\<exists>stored. find (same_step s) (led_steps l) = Some stored \<and>
        step_can_become (ps_state stored) (ps_state s)) \<and>
     l' = l\<lparr>led_steps := update_first (same_step s) s (led_steps l)\<rparr>"
  by (auto simp: update_step_def split: option.splits)

lemma insert_artifact_Ok:
  "insert_artifact l a = Ok l' \<longleftrightarrow>
     art_task_id a \<in> task_id ` set (led_tasks l) \<and> art_id a \<notin> art_id ` set (led_artifacts l) \<and>
     l' = l\<lparr>led_artifacts := led_artifacts l @ [a]\<rparr>"
  by (auto simp: insert_artifact_def list_ex_image)

lemma replace_open_steps_Ok:
  "replace_open_steps l p = Ok l' \<longleftrightarrow>
     (\<exists>t. get_task l (vp_task_id p) = Some t \<and> \<not> task_state_is_terminal (task_state t)) \<and>
     check_current p (map (\<lambda>s. (ps_key s, ps_state s)) (steps_held l (vp_task_id p))) = Ok () \<and>
     l' = l\<lparr>led_steps :=
            filter (\<lambda>s. ps_task_id s \<noteq> vp_task_id p \<or> survives_replan (ps_state s)) (led_steps l) @
            vp_steps p\<rparr>"
  by (auto simp: replace_open_steps_def Let_def split: option.splits result.splits)

lemmas store_Ok = create_task_Ok update_step_Ok insert_artifact_Ok replace_open_steps_Ok

lemma set_task_state_tasks:
  "set_task_state l i n at = Ok (r, l') \<Longrightarrow>
     map task_id (led_tasks l') = map task_id (led_tasks l) \<and> led_steps l' = led_steps l \<and>
     led_artifacts l' = led_artifacts l"
  by (auto simp: set_task_state_def put_task_ids split: option.splits result.splits)

lemma decide_task_answer_tasks:
  "decide_task_answer l i a = (r, l') \<Longrightarrow>
     map task_id (led_tasks l') = map task_id (led_tasks l) \<and> led_steps l' = led_steps l \<and>
     led_artifacts l' = led_artifacts l"
  by (auto simp: decide_task_answer_def put_task_ids split: option.splits prod.splits)

section \<open>The invariant of the ledger\<close>

lemma ledger_inv_ids:
  "map task_id (led_tasks l') = map task_id (led_tasks l) \<Longrightarrow> led_steps l' = led_steps l \<Longrightarrow>
     led_artifacts l' = led_artifacts l \<Longrightarrow> ledger_inv l \<Longrightarrow> ledger_inv l'"
  unfolding ledger_inv_def by (metis list.set_map)

lemma steps_held_set: "s \<in> set (steps_held l tid) \<longleftrightarrow> s \<in> set (led_steps l) \<and> ps_task_id s = tid"
  by (auto simp: steps_held_def)

lemma steps_held_states:
  assumes "distinct (step_ids (led_steps l))" "s \<in> set (steps_held l tid)"
  shows "map_of (rev (map (\<lambda>s. (ps_key s, ps_state s)) (steps_held l tid))) (ps_key s) =
    Some (ps_state s)"
proof -
  have "inj_on ps_key (set (steps_held l tid))" "distinct (steps_held l tid)"
    using assms(1) by (auto simp: step_ids_def steps_held_def distinct_map inj_on_def)
  then have "distinct (map ps_key (steps_held l tid))" by (simp add: distinct_map)
  from step_states_key [OF this assms(2)] show ?thesis by (simp only: step_states_def)
qed

lemma replan_distinct:
  assumes "distinct (step_ids (led_steps l))" "well_keyed p"
    "check_current p (map (\<lambda>s. (ps_key s, ps_state s)) (steps_held l (vp_task_id p))) = Ok ()"
  shows "distinct (step_ids
    (filter (\<lambda>s. ps_task_id s \<noteq> vp_task_id p \<or> survives_replan (ps_state s)) (led_steps l) @
     vp_steps p))"
proof -
  have new: "distinct (step_ids (vp_steps p))"
    using assms(2) by (auto simp: well_keyed_def step_ids_def distinct_map inj_on_def)
  have old: "distinct (step_ids (filter q (led_steps l)))" for q
    using assms(1) by (auto simp: step_ids_def distinct_map inj_on_def)
  have "(ps_task_id n, ps_key n) \<noteq> (ps_task_id s, ps_key s)"
    if n: "n \<in> set (vp_steps p)" and s: "s \<in> set (led_steps l)"
      "ps_task_id s \<noteq> vp_task_id p \<or> survives_replan (ps_state s)" for n s
  proof
    assume eq: "(ps_task_id n, ps_key n) = (ps_task_id s, ps_key s)"
    then have "s \<in> set (steps_held l (vp_task_id p))"
      using assms(2) n s(1) by (auto simp: well_keyed_def steps_held_set)
    from steps_held_states [OF assms(1) this] show False
      using check_current_Ok_iff assms(3) n s(2) eq \<open>s \<in> set (steps_held l (vp_task_id p))\<close>
      by (fastforce simp: steps_held_set)
  qed
  then have "set (step_ids (vp_steps p)) \<inter> set (step_ids (filter (\<lambda>s. ps_task_id s \<noteq> vp_task_id p \<or>
      survives_replan (ps_state s)) (led_steps l))) = {}"
    unfolding step_ids_def by fastforce
  with new old show ?thesis
    unfolding step_ids_def map_append distinct_append by blast
qed

lemma delete_task_eq:
  "delete_task l i =
     (i \<in> task_id ` set (led_tasks l),
      if i \<in> task_id ` set (led_tasks l)
      then \<lparr>led_tasks = filter (\<lambda>t. task_id t \<noteq> i) (led_tasks l),
            led_steps = filter (\<lambda>s. ps_task_id s \<noteq> i) (led_steps l),
            led_artifacts = filter (\<lambda>a. art_task_id a \<noteq> i) (led_artifacts l)\<rparr>
      else l)"
proof -
  have len: "length (filter (\<lambda>t. task_id t \<noteq> i) xs) = length xs \<longleftrightarrow> i \<notin> task_id ` set xs" for xs
  proof (cases "i \<in> task_id ` set xs")
    case True
    then obtain x where "x \<in> set xs" "\<not> task_id x \<noteq> i" by auto
    then have "length (filter (\<lambda>t. task_id t \<noteq> i) xs) < length xs"
      using length_filter_less [of x xs "\<lambda>t. task_id t \<noteq> i"] by blast
    with True show ?thesis by simp
  next
    case False
    then have "filter (\<lambda>t. task_id t \<noteq> i) xs = xs" by (auto simp: filter_id_conv)
    with False show ?thesis by simp
  qed
  show ?thesis
  proof (cases "i \<in> task_id ` set (led_tasks l)")
    case True
    then have "length (filter (\<lambda>t. task_id t \<noteq> i) (led_tasks l)) \<noteq> length (led_tasks l)"
      using len by blast
    with True show ?thesis by (simp add: delete_task_def Let_def)
  next
    case False
    then have "filter (\<lambda>t. task_id t \<noteq> i) (led_tasks l) = led_tasks l"
      by (auto simp: filter_id_conv)
    with False show ?thesis by (simp add: delete_task_def Let_def)
  qed
qed

lemma distinct_map_filter: "distinct (map f xs) \<Longrightarrow> distinct (map f (filter p xs))"
  by (auto simp: distinct_map inj_on_def)

lemma filter_other:
  "j \<noteq> i \<Longrightarrow> filter (\<lambda>x. f x \<noteq> i \<and> f x = j) xs = filter (\<lambda>x. f x = j) xs"
  by (rule filter_cong) auto

lemma image_filter_neq: "f ` {x \<in> A. f x \<noteq> i} = f ` A - {i}"
  by auto

lemma ledger_step_inv: "ledger_step l l' \<Longrightarrow> ledger_inv l \<Longrightarrow> ledger_inv l'"
proof (induction rule: ledger_step.induct)
  case (set_state l i n at r l')
  then show ?case using set_task_state_tasks ledger_inv_ids by blast
next
  case (decide l i a r l')
  then show ?case using decide_task_answer_tasks ledger_inv_ids by blast
next
  case (replan p l l')
  then have "ps_task_id ` set (vp_steps p) \<subseteq> task_id ` set (led_tasks l)"
    by (auto simp: replace_open_steps_Ok well_keyed_def dest: get_task_known)
  moreover have "distinct (step_ids (led_steps l'))"
    using replan replan_distinct [of l p] by (auto simp: replace_open_steps_Ok ledger_inv_def)
  ultimately show ?case
    using replan by (auto simp: replace_open_steps_Ok ledger_inv_def)
next
  case (put l s l')
  then show ?case
    by (auto simp: update_step_Ok ledger_inv_def step_ids_tasks update_step_ids)
next
  case (delete l i r l')
  show ?case
  proof (cases "i \<in> task_id ` set (led_tasks l)")
    case True
    then have "l' = \<lparr>led_tasks = filter (\<lambda>t. task_id t \<noteq> i) (led_tasks l),
            led_steps = filter (\<lambda>s. ps_task_id s \<noteq> i) (led_steps l),
            led_artifacts = filter (\<lambda>a. art_task_id a \<noteq> i) (led_artifacts l)\<rparr>"
      using delete(1) by (simp add: delete_task_eq)
    then show ?thesis
      using delete(2)
      by (simp add: ledger_inv_def step_ids_def distinct_map_filter image_filter_neq) blast
  next
    case False
    then show ?thesis using delete by (simp add: delete_task_eq)
  qed
next
  case (delete_art l i j r l')
  then have "l' = l\<lparr>led_artifacts :=
      filter (\<lambda>a. \<not> (art_task_id a = i \<and> art_id a = j)) (led_artifacts l)\<rparr>"
    by (simp add: delete_artifact_def Let_def)
  then show ?case
    using delete_art(2) by (simp add: ledger_inv_def distinct_map_filter) blast
next
  case (create l t l')
  then show ?case by (simp add: create_task_Ok ledger_inv_def) blast
next
  case (insert l a l')
  then show ?case by (simp add: insert_artifact_Ok ledger_inv_def)
qed

lemma ledger_steps_inv: "ledger_step\<^sup>*\<^sup>* l l' \<Longrightarrow> ledger_inv l \<Longrightarrow> ledger_inv l'"
  by (induction rule: rtranclp_induct) (auto dest: ledger_step_inv)

lemma ledger_inv_empty: "ledger_inv empty_ledger"
  by (simp add: ledger_inv_def empty_ledger_def step_ids_def)

section \<open>What the runner relies on of the steps\<close>

text \<open>
  The contract of a store of steps: a write of one step is a compare-and-set that replaces that
  step only, a replan keeps what survives and adds the plan's steps, and neither touches
  another task.
\<close>

locale step_store =
  fixes steps_of :: "'s \<Rightarrow> ustr \<Rightarrow> plan_step list"
    and put :: "'s \<Rightarrow> plan_step \<Rightarrow> ('s, 'e) result"
    and replan :: "'s \<Rightarrow> validated_plan \<Rightarrow> ('s, 'e) result"
    and inv :: "'s \<Rightarrow> bool"
  assumes steps_apart: "inv s \<Longrightarrow> distinct (map ps_key (steps_of s tid))"
    and put_inv: "inv s \<Longrightarrow> put s st = Ok s' \<Longrightarrow> inv s'"
    and put_Ok_iff: "inv s \<Longrightarrow>
      (\<exists>s'. put s st = Ok s') \<longleftrightarrow>
      (\<exists>old \<in> set (steps_of s (ps_task_id st)). ps_key old = ps_key st \<and>
         step_can_become (ps_state old) (ps_state st))"
    and put_set: "inv s \<Longrightarrow> put s st = Ok s' \<Longrightarrow>
      set (steps_of s' (ps_task_id st)) =
        insert st {x \<in> set (steps_of s (ps_task_id st)). ps_key x \<noteq> ps_key st}"
    and put_other: "inv s \<Longrightarrow> put s st = Ok s' \<Longrightarrow> tid \<noteq> ps_task_id st \<Longrightarrow>
      steps_of s' tid = steps_of s tid"
    and replan_inv: "inv s \<Longrightarrow> well_keyed p \<Longrightarrow> replan s p = Ok s' \<Longrightarrow> inv s'"
    and replan_current: "inv s \<Longrightarrow> replan s p = Ok s' \<Longrightarrow>
      check_current p (map (\<lambda>x. (ps_key x, ps_state x)) (steps_of s (vp_task_id p))) = Ok ()"
    and replan_set: "inv s \<Longrightarrow> well_keyed p \<Longrightarrow> replan s p = Ok s' \<Longrightarrow>
      set (steps_of s' (vp_task_id p)) =
        {x \<in> set (steps_of s (vp_task_id p)). survives_replan (ps_state x)} \<union> set (vp_steps p)"
    and replan_other: "inv s \<Longrightarrow> well_keyed p \<Longrightarrow> replan s p = Ok s' \<Longrightarrow> tid \<noteq> vp_task_id p \<Longrightarrow>
      steps_of s' tid = steps_of s tid"
begin

lemma put_completed_refused:
  assumes "inv s" "old \<in> set (steps_of s (ps_task_id st))" "ps_key old = ps_key st"
    "ps_state old \<in> {StepCompleted, Skipped}"
  shows "\<exists>e. put s st = Err e"
proof -
  have "old' = old" if "old' \<in> set (steps_of s (ps_task_id st))" "ps_key old' = ps_key st" for old'
    using that assms(2,3) steps_apart [OF assms(1), of "ps_task_id st"]
    by (metis distinct_map inj_onD)
  then have "\<not> (\<exists>s'. put s st = Ok s')"
    using put_Ok_iff [OF assms(1), of st] assms(4) by auto
  then show ?thesis by (cases "put s st") auto
qed

lemma completed_kept_once:
  assumes "inv s" "c \<in> set (steps_of s tid)" "ps_state c = StepCompleted"
    "put s st = Ok s' \<or> well_keyed p \<and> replan s p = Ok s'"
  shows "c \<in> set (steps_of s' tid)"
  using assms(4)
proof
  assume put: "put s st = Ok s'"
  show ?thesis
  proof (cases "tid = ps_task_id st")
    case True
    then have "ps_key c \<noteq> ps_key st"
      using put_completed_refused [OF assms(1), of c st] assms(2,3) put by auto
    then show ?thesis using put_set [OF assms(1) put] assms(2) True by simp
  next
    case False
    then show ?thesis using put_other [OF assms(1) put] assms(2) by simp
  qed
next
  assume "well_keyed p \<and> replan s p = Ok s'"
  then show ?thesis
    using replan_set [OF assms(1), of p s'] replan_other [OF assms(1), of p s' tid] assms(2,3)
    by (cases "tid = vp_task_id p") auto
qed

text \<open>Work that is done is never lost, whatever the planner and the helpers do.\<close>

lemma completed_never_lost:
  assumes "(\<lambda>s s'. (\<exists>st. put s st = Ok s') \<or> (\<exists>p. well_keyed p \<and> replan s p = Ok s'))\<^sup>*\<^sup>* s s'"
    "inv s" "c \<in> set (steps_of s tid)" "ps_state c = StepCompleted"
  shows "c \<in> set (steps_of s' tid) \<and> inv s'"
  using assms
proof (induction rule: rtranclp_induct)
  case (step y z)
  then show ?case
    using completed_kept_once [of y c tid _ z] put_inv replan_inv by blast
qed simp

end

lemma steps_held_apart:
  "distinct (step_ids (led_steps l)) \<Longrightarrow> distinct (map ps_key (steps_held l tid))"
  by (auto simp: step_ids_def steps_held_def distinct_map inj_on_def)

lemma find_same_step_iff:
  assumes "distinct (step_ids (led_steps l))"
  shows "find (same_step s) (led_steps l) = Some old \<longleftrightarrow> old \<in> set (led_steps l) \<and> same_step s old"
proof
  assume "old \<in> set (led_steps l) \<and> same_step s old"
  then have "find (\<lambda>y. (ps_task_id y, ps_key y) = (ps_task_id old, ps_key old)) (led_steps l) = Some old"
    using assms by (intro find_distinct) (simp_all add: step_ids_def)
  then show "find (same_step s) (led_steps l) = Some old"
    using \<open>old \<in> set (led_steps l) \<and> same_step s old\<close>
    by (simp add: same_step_def [abs_def])
qed (rule find_SomeD)

lemma set_update_first_distinct:
  assumes "distinct (step_ids xs)" "x \<in> set xs" "same_step s x"
  shows "set (update_first (same_step s) s xs) = insert s {y \<in> set xs. \<not> same_step s y}"
  using assms
proof (induction xs)
  case (Cons a xs)
  have "\<not> same_step s y" if "same_step s a" "y \<in> set xs" for y
    using Cons.prems(1) that by (auto simp: step_ids_def same_step_def image_iff)
  with Cons show ?case by (auto simp: step_ids_def)
qed simp

lemma filter_update_first_other:
  "(\<And>x. same_step s x \<Longrightarrow> \<not> q x) \<Longrightarrow> \<not> q s \<Longrightarrow> filter q (update_first (same_step s) s xs) = filter q xs"
  by (induction xs) auto

interpretation ledger_steps: step_store steps_held update_step replace_open_steps ledger_inv
proof unfold_locales
  fix s tid assume "ledger_inv s"
  then show "distinct (map ps_key (steps_held s tid))"
    by (simp add: ledger_inv_def steps_held_apart)
next
  fix s st s' assume inv: "ledger_inv s" and put: "update_step s st = Ok s'"
  show "ledger_inv s'" using ledger_step_inv ledger_step.put [OF put] inv by blast
  obtain old where old: "old \<in> set (led_steps s)" "same_step st old"
    using put find_SomeD by (fastforce simp: update_step_Ok)
  have "led_steps s' = update_first (same_step st) st (led_steps s)"
    using put by (auto simp: update_step_Ok)
  then show "set (steps_held s' (ps_task_id st)) =
      insert st {x \<in> set (steps_held s (ps_task_id st)). ps_key x \<noteq> ps_key st}"
    using set_update_first_distinct [OF _ old] inv
    by (auto simp: steps_held_def ledger_inv_def same_step_def)
next
  fix s st s' tid
  assume "update_step s st = Ok s'" "tid \<noteq> ps_task_id st"
  then show "steps_held s' tid = steps_held s tid"
    by (auto simp: update_step_Ok steps_held_def same_step_def intro!: filter_update_first_other)
next
  fix s st assume "ledger_inv s"
  then show "(\<exists>s'. update_step s st = Ok s') \<longleftrightarrow>
      (\<exists>old \<in> set (steps_held s (ps_task_id st)). ps_key old = ps_key st \<and>
         step_can_become (ps_state old) (ps_state st))"
    by (auto simp: update_step_Ok ledger_inv_def find_same_step_iff steps_held_set same_step_def)
next
  fix s p s'
  assume inv: "ledger_inv s" and keyed: "well_keyed p" and re: "replace_open_steps s p = Ok s'"
  show "ledger_inv s'" using ledger_step_inv ledger_step.replan [OF keyed re] inv by blast
  show "set (steps_held s' (vp_task_id p)) =
      {x \<in> set (steps_held s (vp_task_id p)). survives_replan (ps_state x)} \<union> set (vp_steps p)"
    using re keyed by (auto simp: replace_open_steps_Ok steps_held_def well_keyed_def)
next
  fix s p s' tid
  assume keyed: "well_keyed p" and re: "replace_open_steps s p = Ok s'" and "tid \<noteq> vp_task_id p"
  then have "filter (\<lambda>x. ps_task_id x = tid) (vp_steps p) = []"
    by (auto simp: well_keyed_def filter_empty_conv)
  with \<open>tid \<noteq> vp_task_id p\<close> re show "steps_held s' tid = steps_held s tid"
    by (auto simp: replace_open_steps_Ok steps_held_def intro!: filter_cong)
qed (simp add: replace_open_steps_Ok)

lemma plan_ok_well_keyed: "plan_ok task existing p \<Longrightarrow> well_keyed p"
  by (auto simp: plan_ok_def well_keyed_def list_all_iff fresh_step_def)

section \<open>Plans the validators make\<close>

lemma validate_appended_step_Ok:
  assumes "validate_appended_step task d existing = Ok p"
  obtains key deps where
    "vp_task_id p = task_id task" "\<forall>s \<in> set existing. ps_task_id s = task_id task"
    "key \<notin> ps_key ` set existing" "set deps \<subseteq> ps_key ` set existing"
    "vp_steps p = filter (\<lambda>s. \<not> survives_replan (ps_state s)) (sort_key ps_ordinal existing) @
       [new_step (task_id task) key (next_ordinal (sort_key ps_ordinal existing))
          (trim (draft_role d)) d deps None]"
    "vp_kept p = map ps_key (filter (\<lambda>s. survives_replan (ps_state s)) (sort_key ps_ordinal existing))"
    "length existing < unat (max_steps (task_budget task))"
proof -
  have exact: "set deps \<subseteq> ps_key ` set existing"
    if "resolve_exact key existing acc raws = Ok deps" "set acc \<subseteq> ps_key ` set existing"
    for key acc raws deps
    using that
  proof (induction raws arbitrary: acc)
    case (Cons r raws)
    then obtain dep where dep: "find (\<lambda>s. ps_key s = r) existing = Some dep"
      "resolve_exact key existing (push_new acc (ps_key dep)) raws = Ok deps"
      by (auto split: option.splits)
    have "set (push_new acc (ps_key dep)) \<subseteq> ps_key ` set existing"
      using Cons.prems(2) find_SomeD [OF dep(1)] by (auto simp: set_push_new)
    with Cons.IH dep(2) show ?case by blast
  qed simp
  show thesis
    using assms unfolding validate_appended_step_def Let_def
    by (auto split: if_splits option.splits result.splits simp: find_None_iff not_less
        intro!: that dest: exact)
qed

lemma validate_appended_well_keyed:
  assumes "validate_appended_step task d existing = Ok p" "distinct (map ps_key existing)"
  shows "well_keyed p"
proof -
  obtain key deps where p: "vp_task_id p = task_id task"
    "\<forall>s \<in> set existing. ps_task_id s = task_id task" "key \<notin> ps_key ` set existing"
    "vp_steps p = filter (\<lambda>s. \<not> survives_replan (ps_state s)) (sort_key ps_ordinal existing) @
       [new_step (task_id task) key (next_ordinal (sort_key ps_ordinal existing))
          (trim (draft_role d)) d deps None]"
    using assms(1) by (rule validate_appended_step_Ok)
  have "distinct (map ps_key (sort_key ps_ordinal existing))"
    using assms(2) by (simp add: distinct_map)
  then show ?thesis
    using p by (auto simp: well_keyed_def new_step_def distinct_map_filter)
qed

section \<open>Properties\<close>

text \<open>
  Whatever sequence of writes the ledger takes, from empty, its references stay sound: task
  ids and artifact ids are distinct, a task never holds two steps of one key, and every step and
  artifact belongs to a task that is there.
\<close>

theorem ledger_references_sound:
  "ledger_step\<^sup>*\<^sup>* empty_ledger l \<Longrightarrow> ledger_inv l"
  using ledger_steps_inv ledger_inv_empty by blast

definition example_ledger :: ledger where
  "example_ledger = \<lparr>led_tasks = [example_task], led_steps = vp_steps example_plan, led_artifacts = []\<rparr>"

lemma example_ledger_made: "ledger_step\<^sup>*\<^sup>* empty_ledger example_ledger"
proof -
  let ?l = "\<lparr>led_tasks = [example_task], led_steps = [], led_artifacts = []\<rparr>"
  have "create_task empty_ledger example_task = Ok ?l"
    by (simp add: create_task_def empty_ledger_def)
  then have "ledger_step empty_ledger ?l" by (rule ledger_step.create)
  moreover have "well_keyed example_plan"
    using validate_plan_ok_aux [OF example_validate_plan] by (rule plan_ok_well_keyed)
  moreover have "replace_open_steps ?l example_plan = Ok example_ledger"
    by (simp add: replace_open_steps_def example_ledger_def get_task_def steps_held_def
        check_current_def example_plan_def example_task_def)
  ultimately show ?thesis
    by (metis converse_rtranclp_into_rtranclp ledger_step.replan rtranclp.rtrancl_refl)
qed

theorem ledger_references_sound_witness: "ledger_inv example_ledger"
  by (rule ledger_references_sound [OF example_ledger_made])

text \<open>
  C8: Work that is done is never lost. Through any mixture of step updates and replans, by any
  planner and any helper, a completed step of a task stays in the ledger exactly as it was
  recorded.
\<close>

theorem completed_step_never_lost:
  assumes "(\<lambda>l l'. (\<exists>s. update_step l s = Ok l') \<or>
      (\<exists>p. well_keyed p \<and> replace_open_steps l p = Ok l'))\<^sup>*\<^sup>* l l'"
    "ledger_inv l" "c \<in> set (steps_held l tid)" "ps_state c = StepCompleted"
  shows "c \<in> set (steps_held l' tid)"
  using ledger_steps.completed_never_lost [OF assms] by blast

theorem completed_step_never_lost_witness:
  "\<exists>c \<in> set (steps_held
       \<lparr>led_tasks = [example_task],
        led_steps = [example_plan_step ''find'' 1 [] \<lparr>ps_state := StepCompleted\<rparr>,
                     example_plan_step ''write'' 2 []\<lparr>ps_state := StepRunning\<rparr>],
        led_artifacts = []\<rparr> (lit ''t1'')). ps_state c = StepCompleted"
proof -
  let ?c = "example_plan_step ''find'' 1 [] \<lparr>ps_state := StepCompleted\<rparr>"
  let ?w = "example_plan_step ''write'' 2 []"
  let ?l = "\<lparr>led_tasks = [example_task], led_steps = [?c, ?w], led_artifacts = []\<rparr>"
  let ?l' = "\<lparr>led_tasks = [example_task], led_steps = [?c, ?w\<lparr>ps_state := StepRunning\<rparr>],
              led_artifacts = []\<rparr>"
  have put: "update_step ?l (?w\<lparr>ps_state := StepRunning\<rparr>) = Ok ?l'"
    by (simp add: update_step_def same_step_def example_plan_step_def)
  have "?c \<in> set (steps_held ?l' (lit ''t1''))"
  proof (rule completed_step_never_lost)
    show "(\<lambda>l l'. (\<exists>s. update_step l s = Ok l') \<or>
      (\<exists>p. well_keyed p \<and> replace_open_steps l p = Ok l'))\<^sup>*\<^sup>* ?l ?l'"
      using put by blast
    show "ledger_inv ?l"
      by (simp add: ledger_inv_def step_ids_def example_plan_step_def example_task_def)
    show "?c \<in> set (steps_held ?l (lit ''t1''))"
      by (simp add: steps_held_def example_plan_step_def)
  qed simp
  then show ?thesis by (auto intro!: bexI [of _ ?c])
qed

text \<open>
  Deleting a task removes its steps and artifacts with it and nothing of any other task, and
  says whether there was one.
\<close>

theorem delete_task_cascades:
  "case delete_task l i of (found, l') \<Rightarrow>
     (found \<longleftrightarrow> i \<in> task_id ` set (led_tasks l)) \<and>
     (ledger_inv l \<longrightarrow> get_task l' i = None \<and> steps_held l' i = [] \<and> list_artifacts l' i = []) \<and>
     (\<forall>j. j \<noteq> i \<longrightarrow> get_task l' j = get_task l j \<and> steps_held l' j = steps_held l j \<and>
        list_artifacts l' j = list_artifacts l j)"
proof -
  have find: "find (\<lambda>t. task_id t = j) (filter (\<lambda>t. task_id t \<noteq> i) xs) = find (\<lambda>t. task_id t = j) xs"
    if "j \<noteq> i" for xs j using that by (induction xs) auto
  have none: "find (\<lambda>t. task_id t = i) (filter (\<lambda>t. task_id t \<noteq> i) xs) = None" for xs
    by (induction xs) auto
  show ?thesis
  proof (cases "i \<in> task_id ` set (led_tasks l)")
    case True
    then show ?thesis
      by (simp add: delete_task_eq get_task_def find none steps_held_def list_artifacts_def
          filter_other)
  next
    case False
    then have "get_task l i = None" using get_task_known by fastforce
    moreover have "steps_held l i = [] \<and> list_artifacts l i = []" if "ledger_inv l"
    proof -
      have "i \<notin> ps_task_id ` set (led_steps l)" "i \<notin> art_task_id ` set (led_artifacts l)"
        using that False unfolding ledger_inv_def by blast+
      then have "filter (\<lambda>s. ps_task_id s = i) (led_steps l) = []"
        "filter (\<lambda>a. art_task_id a = i) (led_artifacts l) = []"
        unfolding filter_empty_conv by (metis image_eqI)+
      then show ?thesis by (simp add: steps_held_def list_artifacts_def)
    qed
    ultimately show ?thesis using False by (simp add: delete_task_eq)
  qed
qed

theorem delete_task_cascades_witness:
  "steps_held (snd (delete_task example_ledger (lit ''t1''))) (lit ''t1'') = []"
  using delete_task_cascades [where l = example_ledger and i = "lit ''t1''"]
    ledger_steps_inv [OF example_ledger_made ledger_inv_empty]
  by (simp add: case_prod_beta)

text \<open>
  A helper never reads another task's artifact: what \<open>get_artifact\<close> returns belongs to the
  task that was named, a foreign id looks like an unknown one, and an artifact just inserted is read
  back whole.
\<close>

theorem artifact_reads_confined:
  "(get_artifact l tid aid = Some a \<longrightarrow> art_task_id a = tid \<and> art_id a = aid) \<and>
   (ledger_inv l \<longrightarrow> a \<in> set (led_artifacts l) \<longrightarrow> art_task_id a \<noteq> tid \<longrightarrow>
      get_artifact l tid (art_id a) = None) \<and>
   (insert_artifact l a = Ok l' \<longrightarrow> get_artifact l' (art_task_id a) (art_id a) = Some a)"
proof (intro conjI impI)
  assume "get_artifact l tid aid = Some a"
  then have "art_id a = aid \<and> art_task_id a = tid"
    unfolding get_artifact_def using find_SomeD by fastforce
  then show "art_task_id a = tid" "art_id a = aid" by simp_all
next
  assume inv: "ledger_inv l" "a \<in> set (led_artifacts l)" "art_task_id a \<noteq> tid"
  have "b = a" if "b \<in> set (led_artifacts l)" "art_id b = art_id a" for b
    using that inv by (auto simp: ledger_inv_def distinct_map inj_on_def)
  then show "get_artifact l tid (art_id a) = None"
    using inv(3) by (auto simp: get_artifact_def find_None_iff)
next
  have app: "find p (xs @ [x]) = Some x" if "p x" "\<forall>y \<in> set xs. \<not> p y" for p x and xs :: "artifact list"
    using that by (induction xs) auto
  assume ins: "insert_artifact l a = Ok l'"
  then have "\<forall>y \<in> set (led_artifacts l). art_id y \<noteq> art_id a"
    unfolding insert_artifact_Ok by (metis image_eqI)
  with ins show "get_artifact l' (art_task_id a) (art_id a) = Some a"
    by (auto simp: insert_artifact_Ok get_artifact_def intro!: app)
qed

theorem artifact_reads_confined_witness:
  "\<exists>l'. insert_artifact example_ledger example_artifact = Ok l' \<and>
     get_artifact l' (lit ''t1'') (lit ''a1'') = Some example_artifact"
proof -
  obtain l' where l': "insert_artifact example_ledger example_artifact = Ok l'"
    by (simp add: insert_artifact_def example_ledger_def example_task_def example_artifact_def)
  from artifact_reads_confined [where l = example_ledger and a = example_artifact and l' = l'] l'
  show ?thesis by (auto simp: example_artifact_def)
qed

end
