(* ===== verification/Activation_Tasks.thy ===== *)
theory Activation_Tasks
  imports Activation_Book Long_Task_Runner Long_Task_Queue Long_Task_Store
begin

text \<open>
  What an activation's run is and what happens around a step: the rest of
  \<open>pond-core/src/shared/services/agent_activations.rs\<close>. An activation queues a task of one step; a hand-off
  appends one step to the same task. Texts in a member's timezone come from \<open>chrono\<close> and arrive
  formatted.
\<close>

section \<open>Constants\<close>

definition MAX_HAND_OFFS_PER_TASK :: nat where "MAX_HAND_OFFS_PER_TASK = 4"
definition HAND_OFF_KEY_PREFIX :: ustr where "HAND_OFF_KEY_PREFIX = lit ''hand-to-''"
definition FOLLOW_UP_TASK_ID_PREFIX :: ustr where "FOLLOW_UP_TASK_ID_PREFIX = lit ''follow-up-''"
definition ACTIVATION_DEADLINE :: nat where "ACTIVATION_DEADLINE = 2 * 60 * 60"
definition MAX_BEFORE_HOOK_ITEMS :: nat where "MAX_BEFORE_HOOK_ITEMS = 8"
definition MAX_OFFERED_HAND_OFFS :: nat where "MAX_OFFERED_HAND_OFFS = 6"
definition BEFORE_HOOKS_HEADING :: ustr where
  "BEFORE_HOOKS_HEADING = lit ''Gathered before you started:''"
definition WHY_HEADING :: ustr where "WHY_HEADING = lit ''Why this run started:''"
definition ACTIVATION_NOT_PLANNED :: ustr where
  "ACTIVATION_NOT_PLANNED = lit ''its agent's run did not succeed''"
definition ACTIVATION_GOAL_CHARS :: nat where "ACTIVATION_GOAL_CHARS = 120"
definition SUFFIX_ROOM :: nat where "SUFFIX_ROOM = 3"

section \<open>What a member reads about it\<close>

definition to_ascii_uppercase :: "ustr \<Rightarrow> ustr" where
  "to_ascii_uppercase s = map to_ascii_upper s"

definition weekday_words :: "ustr \<Rightarrow> ustr" where
  "weekday_words weekday =
     (let w = to_ascii_uppercase weekday in
      if w = lit ''*'' then lit ''every day''
      else if w \<in> {lit ''MON-FRI'', lit ''1-5''} then lit ''on weekdays''
      else if w \<in> {lit ''SAT,SUN'', lit ''SUN,SAT'', lit ''SAT-SUN'', lit ''0,6'', lit ''6,0''}
      then lit ''at weekends''
      else lit ''on '' @ w)"

definition describe_cron :: "ustr \<Rightarrow> ustr" where
  "describe_cron cron =
     (let other = lit ''on the schedule '' @ cron in
      case split_on (\<lambda>c. c = 32) cron of
        [second, minute, hour, day, month, weekday] \<Rightarrow>
          if day = lit ''*'' \<and> month = lit ''*''
          then (case (parse_unsigned 32 second, parse_unsigned 32 minute, parse_unsigned 32 hour) of
                  (Some s, Some m, Some h) \<Rightarrow>
                    if s = 0
                    then weekday_words weekday @ lit '' at '' @ show_two h @ lit '':'' @ show_two m
                    else other
                | _ \<Rightarrow> other)
          else other
      | _ \<Rightarrow> other)"

fun describe_member :: "subject \<Rightarrow> ustr \<Rightarrow> ustr" where
  "describe_member AnySubject verb = lit ''when anyone '' @ verb @ lit ''s home''"
| "describe_member OwnerSubject verb = lit ''when you '' @ verb @ lit '' home''"
| "describe_member (NamedSubject _) verb = lit ''when a chosen member '' @ verb @ lit ''s home''"

fun describe_source :: "subject \<Rightarrow> ustr \<Rightarrow> ustr" where
  "describe_source (NamedSubject i) kind = kind @ lit '' '' @ i"
| "describe_source _ kind = lit ''any '' @ kind"

fun describe_trigger :: "(fp \<Rightarrow> ustr) \<Rightarrow> event_trigger \<Rightarrow> ustr" where
  "describe_trigger show_f64 (PresenceArrive who) = describe_member who (lit ''come'')"
| "describe_trigger show_f64 (PresenceLeave who) = describe_member who (lit ''leave'')"
| "describe_trigger show_f64 (CameraPerson camera) =
     lit ''when '' @ describe_source camera (lit ''camera'') @ lit '' sees a person''"
| "describe_trigger show_f64 (CameraMotion camera) =
     lit ''when '' @ describe_source camera (lit ''camera'') @ lit '' sees movement''"
| "describe_trigger show_f64 (Sensor sensor_type device threshold) =
     (let what = map (\<lambda>c. if c = 95 then 32 else c) sensor_type;
          verb = (case threshold of
                    Above _ \<Rightarrow> lit ''rises above'' | Below _ \<Rightarrow> lit ''drops below'');
          limit = show_f64 (threshold_limit threshold)
      in case device of
           NamedSubject i \<Rightarrow>
             lit ''when the '' @ what @ lit '' on '' @ i @ lit '' '' @ verb @ lit '' '' @ limit
         | _ \<Rightarrow> lit ''when the '' @ what @ lit '' '' @ verb @ lit '' '' @ limit)"
| "describe_trigger show_f64 (DeviceChange key device) =
     lit ''when the '' @ key @ lit '' of '' @ describe_source device (lit ''device'') @ lit '' changes''"
| "describe_trigger show_f64 (TimeDaily hour minute) =
     lit ''every day at '' @ show_two hour @ lit '':'' @ show_two minute"

fun describe_activation :: "(fp \<Rightarrow> ustr) \<Rightarrow> activation \<Rightarrow> ustr" where
  "describe_activation show_f64 Delegated = lit ''when your assistant hands it work''"
| "describe_activation show_f64 TaskStep = lit ''as a step of a long task''"
| "describe_activation show_f64 (Schedule s) = describe_cron (sched_cron s)"
| "describe_activation show_f64 (Event e) =
     describe_trigger show_f64 (event_trigger e) @
     (case event_window e of
        None \<Rightarrow> []
      | Some w \<Rightarrow>
          (case window_bounds w of
             ((fh, fm), (th, tm)) \<Rightarrow>
               lit '' between '' @ show_two fh @ lit '':'' @ show_two fm @ lit '' and '' @
               show_two th @ lit '':'' @ show_two tm))"
| "describe_activation show_f64 (AgentFrom names) =
     lit ''when '' @ join_with (lit '' or '') names @ lit '' hands it work''"

text \<open>\<open>to_uppercase\<close> meets only the ASCII letter each description starts with.\<close>

definition describe_activations :: "(fp \<Rightarrow> ustr) \<Rightarrow> activation list \<Rightarrow> ustr" where
  "describe_activations show_f64 acts =
     (case join_with (lit ''; '') (map (describe_activation show_f64) acts) of
        [] \<Rightarrow> []
      | c # cs \<Rightarrow> to_ascii_upper c # cs)"

section \<open>Whose run it is\<close>

definition activation_owner :: "ustr option \<Rightarrow> ustr option \<Rightarrow> ustr option" where
  "activation_owner event_member recipe_owner =
     non_blank (case event_member of Some m \<Rightarrow> Some m | None \<Rightarrow> recipe_owner)"

definition activation_scope :: "ustr option \<Rightarrow> nat \<Rightarrow> profile_scope option" where
  "activation_scope owner household_members =
     (case owner of
        Some i \<Rightarrow> Some (Owner i)
      | None \<Rightarrow> if household_members \<le> 1 then Some Household else None)"

fun firing_reason_line :: "firing_reason \<Rightarrow> ustr option \<Rightarrow> ustr" where
  "firing_reason_line (BySchedule cron) member_name =
     lit ''its schedule came round ('' @ cron @ lit '')''"
| "firing_reason_line (ByDaily when) member_name =
     lit ''it is '' @ when @ lit '', its time each day''"
| "firing_reason_line (ByEvent matched) member_name =
     (case em_member matched of
        Some _ \<Rightarrow>
          (case member_name of None \<Rightarrow> lit ''a household member'' | Some n \<Rightarrow> n) @ lit '' '' @
          em_detail matched
      | None \<Rightarrow> em_detail matched)"

definition activation_instructions :: "ustr \<Rightarrow> ustr \<Rightarrow> ustr" where
  "activation_instructions brief reason_line =
     trim brief @ newline @ newline @ WHY_HEADING @ lit '' '' @ reason_line @ lit ''.''"

section \<open>The task an activation queues\<close>

definition first_line_capped :: "ustr \<Rightarrow> nat \<Rightarrow> ustr" where
  "first_line_capped body max_chars =
     (let line = first_line body in
      if length line > max_chars then trim_end (take max_chars line) @ lit ''...'' else line)"

definition step_slug :: "ustr \<Rightarrow> nat \<Rightarrow> ustr" where
  "step_slug name max_chars =
     (let slug = trim_end_dashes (take max_chars (foldl slug_push [] (map to_ascii_lower name)))
      in if slug = [] then lit ''agent'' else slug)"

definition with_id_prefix :: "long_task \<Rightarrow> ustr \<Rightarrow> (long_task, long_task_error) result" where
  "with_id_prefix task id_prefix =
     task_from_parts ((task_parts task)\<lparr>part_id := id_prefix @ task_id task\<rparr>)"

datatype activation_refused =
    ActivationTask long_task_error
  | ActivationPlan plan_error
  | ActivationState long_task_state_refused

definition activation_draft :: "agent_role \<Rightarrow> ustr \<Rightarrow> step_draft" where
  "activation_draft role instructions =
     \<lparr>draft_key = step_slug (role_name role) MAX_STEP_KEY_CHARS, draft_role = role_name role,
      draft_new_agent = None, draft_instructions = instructions, draft_inputs = [],
      draft_depends_on = [], draft_acceptance = None\<rparr>"

definition activation_task ::
  "ustr \<Rightarrow> agent_role \<Rightarrow> ustr \<Rightarrow> profile_scope \<Rightarrow> ustr option \<Rightarrow> timestamp \<Rightarrow>
     (long_task \<times> validated_plan, activation_refused) result"
where
  "activation_task fresh_id role instructions scope owner now =
     (let due = now + int ACTIVATION_DEADLINE * NANOS in
      case budget_new (1 + of_nat MAX_HAND_OFFS_PER_TASK) (Some due) of
        Err e \<Rightarrow> Err (ActivationTask e)
      | Ok budget \<Rightarrow>
          (let goal = role_name role @ lit '': '' @
                      first_line_capped instructions ACTIVATION_GOAL_CHARS in
           case task_start fresh_id scope owner goal None budget now of
             Err e \<Rightarrow> Err (ActivationTask e)
           | Ok started \<Rightarrow>
               (case with_id_prefix started ACTIVATION_TASK_ID_PREFIX of
                  Err e \<Rightarrow> Err (ActivationTask e)
                | Ok task \<Rightarrow>
                    (case transition_to task Paused now of
                       Err e \<Rightarrow> Err (ActivationState e)
                     | Ok paused \<Rightarrow>
                         (case validate_plan paused [activation_draft role instructions] [] of
                            Err e \<Rightarrow> Err (ActivationPlan e)
                          | Ok plan \<Rightarrow> Ok (paused, plan))))))"

definition is_follow_up_task :: "long_task \<Rightarrow> bool" where
  "is_follow_up_task t \<longleftrightarrow> prefix FOLLOW_UP_TASK_ID_PREFIX (task_id t)"

section \<open>Around a step\<close>

definition step_role_allowed :: "long_task \<Rightarrow> plan_step \<Rightarrow> agent_role \<Rightarrow> (unit, ustr) result" where
  "step_role_allowed task step role =
     (if ps_role step \<noteq> role_name role
      then Err (lit ''step '' @ ps_key step @ lit '' is for '' @ ps_role step @ lit '', not '' @
                role_name role)
      else if is_activation_task task \<or> prefix HAND_OFF_KEY_PREFIX (ps_key step) \<or>
              accepts_task_steps role
      then Ok ()
      else Err (lit ''the '' @ role_name role @
                lit '' agent does not take steps of a long task; give this step to another role''))"

definition plannable_roles :: "agent_role list \<Rightarrow> agent_role list" where
  "plannable_roles offered = filter accepts_task_steps offered"

definition runner_notifies_at_end ::
  "long_task \<Rightarrow> plan_step list \<Rightarrow> agent_role list \<Rightarrow> bool \<Rightarrow> bool"
where
  "runner_notifies_at_end task steps roles finished =
     (if \<not> is_activation_task task then True
      else if finished then False
      else (case min_by_key ps_ordinal steps of
              None \<Rightarrow> False
            | Some first \<Rightarrow>
                (case List.find (\<lambda>r. role_name r = ps_role first) roles of
                   None \<Rightarrow> False
                 | Some r \<Rightarrow> after_has (role_hooks r) NotifyOwner)))"

definition hand_back_offer :: "agent_role \<Rightarrow> agent_role list \<Rightarrow> ustr" where
  "hand_back_offer role roles =
     (let targets = map (\<lambda>t. role_name t @ lit '' ('' @
                           first_line_capped (role_instructions t) ACTIVATION_GOAL_CHARS @ lit '')'')
            (take MAX_OFFERED_HAND_OFFS
              (filter (\<lambda>t. role_name t \<noteq> role_name role \<and>
                           accepts_hand_off_from t (role_name role)) roles))
      in (if targets = [] then []
          else newline @ lit ''When you finish, you may hand this on to: '' @
               join_with (lit ''; '') targets @
               lit ''. To do so, add `hand_to` (the agent's name) and `brief` (what it should do '' @
               lit ''next) to step_report.'' @ newline) @
         (if after_has (role_hooks role) StartTaskHook
          then lit ''If what you found needs a long piece of work of its own, add `start_task` '' @
               lit ''(its goal, in one sentence) to step_report.'' @ newline
          else []))"

record presence_line =
  pl_name :: ustr
  pl_home :: bool
  pl_since :: ustr

record before_hook_context =
  bh_date :: "ustr option"
  bh_schedule :: "ustr list"
  bh_weather :: "ustr option"
  bh_presence :: "presence_line list"

definition capped_list :: "ustr list \<Rightarrow> ustr" where
  "capped_list items =
     join_with (lit ''; '') (take MAX_BEFORE_HOOK_ITEMS items) @
     (if length items > MAX_BEFORE_HOOK_ITEMS
      then lit '' and '' @ show_nat (length items - MAX_BEFORE_HOOK_ITEMS) @ lit '' more'' else [])"

definition presence_names :: "before_hook_context \<Rightarrow> bool \<Rightarrow> ustr list" where
  "presence_names context home =
     map (\<lambda>p. pl_name p @ lit '' (since '' @ pl_since p @ lit '')'')
       (filter (\<lambda>p. pl_home p = home) (bh_presence context))"

fun before_hook_line :: "before_hook_context \<Rightarrow> bool \<Rightarrow> before_hook \<Rightarrow> ustr" where
  "before_hook_line context hidden Today =
     (let date = (case bh_date context of None \<Rightarrow> lit ''unknown'' | Some d \<Rightarrow> d) in
      if hidden
      then lit ''Today: '' @ date @
           lit ''. Its schedule is withheld: this run sees no personal data.''
      else if bh_schedule context = [] then lit ''Today: '' @ date @ lit ''. Nothing is scheduled.''
      else lit ''Today: '' @ date @ lit ''. Scheduled: '' @ capped_list (bh_schedule context) @
           lit ''.'')"
| "before_hook_line context hidden Weather =
     (case bh_weather context of
        Some w \<Rightarrow> lit ''Weather: '' @ w @ lit ''.''
      | None \<Rightarrow> lit ''Weather: could not be read just now.'')"
| "before_hook_line context hidden Presence =
     (if hidden then lit ''Who is home: withheld, since this run sees no personal data.''
      else if bh_presence context = []
      then lit ''Who is home: nobody has been seen arriving or leaving since the pond started.''
      else (let home = presence_names context True; away = presence_names context False;
                parts = (if home = [] then [] else [lit ''home: '' @ capped_list home]) @
                        (if away = [] then [] else [lit ''away: '' @ capped_list away])
            in lit ''Who is home, as last seen: '' @ join_with (lit ''; '') parts @ lit ''.''))"

definition render_before_hooks ::
  "before_hook list \<Rightarrow> before_hook_context \<Rightarrow> profile_scope \<Rightarrow> ustr"
where
  "render_before_hooks hooks context scope =
     (if hooks = [] then []
      else newline @ BEFORE_HOOKS_HEADING @ newline @
           concat (map (\<lambda>h. lit ''- '' @ before_hook_line context (excludes_everything scope) h @
                             newline) hooks))"

section \<open>Who is home\<close>

type_synonym presence_board = "ustr \<rightharpoonup> bool \<times> timestamp"

definition board_record :: "profile_presence \<Rightarrow> presence_board \<Rightarrow> presence_board" where
  "board_record p board =
     (let home = (pres_transition p = Arrived);
          newer = (case board (pres_profile_id p) of
                     None \<Rightarrow> True | Some (_, seen) \<Rightarrow> pres_at p \<ge> seen)
      in if newer then board(pres_profile_id p \<mapsto> (home, pres_at p)) else board)"

section \<open>After a step\<close>

datatype after_action =
    ActNotifyOwner ustr
  | ActSaveArtifact
  | ActStartTask ustr
  | ActHandTo ustr ustr

fun hook_action :: "long_task \<Rightarrow> step_outcome \<Rightarrow> after_hook \<Rightarrow> after_action option" where
  "hook_action task outcome NotifyOwner =
     (if task_owner task \<noteq> None
      then Some (ActNotifyOwner (if trim (out_summary outcome) = [] then lit ''It's done.''
                                 else trim (out_summary outcome)))
      else None)"
| "hook_action task outcome SaveArtifact =
     (if trim (out_summary outcome) \<noteq> [] then Some ActSaveArtifact else None)"
| "hook_action task outcome StartTaskHook =
     (if \<not> is_follow_up_task task then map_option ActStartTask (start_task (out_asks outcome))
      else None)"
| "hook_action task outcome (HandTo _) = None"

definition after_hook_actions ::
  "long_task \<Rightarrow> agent_role \<Rightarrow> plan_step \<Rightarrow> step_outcome \<Rightarrow> after_action list"
where
  "after_hook_actions task role step outcome =
     (if ps_role step \<noteq> role_name role \<or> ps_state step \<noteq> StepCompleted \<or>
         out_kind outcome \<noteq> OutcomeCompleted
      then []
      else
        (let summary = trim (out_summary outcome);
             asked = map_option (\<lambda>ask. (hand_agent ask,
                       case hand_brief ask of None \<Rightarrow> summary | Some b \<Rightarrow> b))
                       (hand_to (out_asks outcome));
             hooked = map_option (\<lambda>agent. (agent, summary)) (hooks_hand_to (role_hooks role))
         in List.map_filter (hook_action task outcome) (hooks_after (role_hooks role)) @
            (case (case asked of Some a \<Rightarrow> Some a | None \<Rightarrow> hooked) of
               None \<Rightarrow> []
             | Some (agent, brief) \<Rightarrow> [ActHandTo agent brief])))"

definition hook_result_artifact ::
  "ustr \<Rightarrow> long_task \<Rightarrow> plan_step \<Rightarrow> step_outcome \<Rightarrow> timestamp \<Rightarrow> (artifact, artifact_error) result"
where
  "hook_result_artifact fresh_id task step outcome now =
     artifact_new fresh_id (task_id task) (Some (ps_key step)) Findings RESULT_TITLE
       (first_line_capped (out_summary outcome) ACTIVATION_GOAL_CHARS) (out_summary outcome) now"

definition follow_up_task ::
  "ustr \<Rightarrow> long_task \<Rightarrow> ustr \<Rightarrow> timestamp \<Rightarrow> (long_task, long_task_error) result"
where
  "follow_up_task fresh_id task goal now =
     (case budget_new DEFAULT_LONG_TASK_STEPS None of
        Err e \<Rightarrow> Err e
      | Ok budget \<Rightarrow>
          (case task_start fresh_id (task_scope task) (task_owner task) goal None budget now of
             Err e \<Rightarrow> Err e
           | Ok started \<Rightarrow> with_id_prefix started FOLLOW_UP_TASK_ID_PREFIX))"

section \<open>Hand-offs\<close>

datatype hand_off_refused =
    NoSuchAgent ustr
  | NotAccepted ustr ustr
  | HandOffCycle "ustr list"
  | CapReached nat
  | EmptyBrief
  | HandOffPlan plan_error

definition is_hand_off :: "plan_step \<Rightarrow> bool" where
  "is_hand_off s \<longleftrightarrow> prefix HAND_OFF_KEY_PREFIX (ps_key s)"

fun chain_loop :: "plan_step list \<Rightarrow> nat \<Rightarrow> plan_step \<Rightarrow> ustr list" where
  "chain_loop steps 0 current = []"
| "chain_loop steps (Suc n) current =
     (if \<not> is_hand_off current then []
      else (case ps_depends_on current of
              [] \<Rightarrow> []
            | dep # _ \<Rightarrow>
                (case List.find (\<lambda>s. ps_key s = dep) steps of
                   None \<Rightarrow> []
                 | Some previous \<Rightarrow> ps_role previous # chain_loop steps n previous)))"

definition hand_off_chain :: "plan_step list \<Rightarrow> plan_step \<Rightarrow> ustr list" where
  "hand_off_chain steps source = ps_role source # chain_loop steps (length steps) source"

text \<open>
  The search for a free suffix. It ends because the numerals differ and only finitely many keys are
  taken.
\<close>

lemma digits_value_append: "digits_value (a @ [c]) = 10 * digits_value a + digit_value c"
  by (simp add: digits_value_def)

lemma digits_value_show_nat: "digits_value (show_nat n) = n"
proof (induction n rule: less_induct)
  case (less n)
  show ?case
  proof (cases "n < 10")
    case True
    then show ?thesis by (simp add: show_nat.simps digits_value_def digit_value_def)
  next
    case False
    then show ?thesis
      using less [of "n div 10"]
      by (subst show_nat.simps) (simp add: digits_value_append digit_value_def)
  qed
qed

lemma show_nat_inject [simp]: "show_nat m = show_nat n \<longleftrightarrow> m = n"
  by (metis digits_value_show_nat)

definition suffixed :: "ustr \<Rightarrow> nat \<Rightarrow> ustr" where
  "suffixed base n = base @ lit ''-'' @ show_nat n"

lemma finite_taken_suffixes: "finite {m. suffixed base m \<in> set keys}"
proof (rule finite_imageD)
  show "finite (suffixed base ` {m. suffixed base m \<in> set keys})"
    by (rule finite_subset [of _ "set keys"]) auto
  show "inj_on (suffixed base) {m. suffixed base m \<in> set keys}"
    by (rule inj_onI) (simp add: suffixed_def)
qed

function free_suffix :: "ustr list \<Rightarrow> ustr \<Rightarrow> nat \<Rightarrow> ustr" where
  "free_suffix keys base n =
     (if suffixed base n \<notin> set keys then suffixed base n else free_suffix keys base (n + 1))"
  by auto
termination free_suffix
proof (relation "measure (\<lambda>(keys, base, n). card {m. n \<le> m \<and> suffixed base m \<in> set keys})",
    goal_cases)
  case (2 keys base n)
  let ?from = "\<lambda>k. {m. k \<le> m \<and> suffixed base m \<in> set keys}"
  have fin: "finite (?from n)"
    by (rule finite_subset [OF _ finite_taken_suffixes [of base keys]]) auto
  have "n \<in> ?from n" "n \<notin> ?from (n + 1)" "?from (n + 1) \<subseteq> ?from n" using 2 by auto
  then have "?from (n + 1) \<subset> ?from n" by blast
  then show ?case using psubset_card_mono [OF fin] by simp
qed simp

declare free_suffix.simps [simp del]

definition hand_off_key :: "ustr \<Rightarrow> plan_step list \<Rightarrow> ustr" where
  "hand_off_key target steps =
     (let room = MAX_STEP_KEY_CHARS - utf8_len HAND_OFF_KEY_PREFIX - SUFFIX_ROOM;
          base = HAND_OFF_KEY_PREFIX @ step_slug target room;
          keys = map ps_key steps
      in if base \<notin> set keys then base else free_suffix keys base 2)"

definition hand_off_instructions :: "plan_step \<Rightarrow> ustr \<Rightarrow> ustr" where
  "hand_off_instructions source brief =
     (case non_blank (ps_summary source) of
        Some summary \<Rightarrow>
          brief @ newline @ newline @ lit ''Handed on by the '' @ ps_role source @
          lit '' agent, whose step reported: '' @ summary
      | None \<Rightarrow>
          brief @ newline @ newline @ lit ''Handed on by the '' @ ps_role source @ lit '' agent.'')"

definition hand_off_draft ::
  "plan_step list \<Rightarrow> plan_step \<Rightarrow> agent_role \<Rightarrow> ustr \<Rightarrow> artifact_summary list \<Rightarrow> step_draft"
where
  "hand_off_draft steps source target brief artifacts =
     \<lparr>draft_key = hand_off_key (role_name target) steps, draft_role = role_name target,
      draft_new_agent = None, draft_instructions = hand_off_instructions source brief,
      draft_inputs = map as_id (filter (\<lambda>a. as_step_key a = Some (ps_key source)) artifacts),
      draft_depends_on = [ps_key source], draft_acceptance = None\<rparr>"

definition plan_hand_off ::
  "long_task \<Rightarrow> plan_step list \<Rightarrow> plan_step \<Rightarrow> ustr \<Rightarrow> ustr \<Rightarrow> agent_role list \<Rightarrow>
     artifact_summary list \<Rightarrow> (validated_plan, hand_off_refused) result"
where
  "plan_hand_off task steps source agent brief roles artifacts =
     (let agent = trim agent in
      case List.find (\<lambda>r. role_name r = agent) roles of
        None \<Rightarrow> Err (NoSuchAgent agent)
      | Some target \<Rightarrow>
          (let chain = hand_off_chain steps source in
           if role_name target \<in> set chain
           then Err (HandOffCycle (rev chain @ [role_name target]))
           else if \<not> accepts_hand_off_from target (ps_role source)
           then Err (NotAccepted (ps_role source) (role_name target))
           else if length (filter is_hand_off steps) \<ge> MAX_HAND_OFFS_PER_TASK
           then Err (CapReached MAX_HAND_OFFS_PER_TASK)
           else if trim brief = [] then Err EmptyBrief
           else (case validate_appended_step task
                        (hand_off_draft steps source target (trim brief) artifacts) steps of
                   Ok plan \<Rightarrow> Ok plan
                 | Err e \<Rightarrow> Err (HandOffPlan e))))"

section \<open>Keys the runner writes\<close>

lemma free_suffix_free: "free_suffix keys base n \<notin> set keys"
  by (induction keys base n rule: free_suffix.induct) (simp add: free_suffix.simps)

lemma free_suffix_form: "\<exists>m. free_suffix keys base n = suffixed base m"
  by (induction keys base n rule: free_suffix.induct) (auto simp: free_suffix.simps)

lemma hand_off_key_fresh: "hand_off_key target steps \<notin> ps_key ` set steps"
  using free_suffix_free [of "map ps_key steps"]
  by (auto simp: hand_off_key_def Let_def)

lemma hand_off_key_prefix: "prefix HAND_OFF_KEY_PREFIX (hand_off_key target steps)"
proof (cases "HAND_OFF_KEY_PREFIX @
    step_slug target (MAX_STEP_KEY_CHARS - utf8_len HAND_OFF_KEY_PREFIX - SUFFIX_ROOM) \<in> ps_key ` set steps")
  case True
  then show ?thesis
    using free_suffix_form [of "map ps_key steps"] 
    by (auto simp: hand_off_key_def Let_def suffixed_def) (metis append.assoc prefixI)
qed (simp add: hand_off_key_def Let_def)

lemma step_slug_valid:
  assumes "5 \<le> max_chars" "max_chars \<le> MAX_STEP_KEY_CHARS"
  shows "valid_step_key (step_slug name max_chars) \<and> length (step_slug name max_chars) \<le> max_chars"
proof -
  let ?slug = "take max_chars (foldl slug_push [] (map to_ascii_lower name))"
  have inv: "slug_inv (foldl slug_push [] (map to_ascii_lower name))"
    by (rule slug_fold_inv) (simp add: slug_inv_def)
  then have all: "list_all key_char ?slug"
    by (auto simp: slug_inv_def list_all_iff dest: in_set_takeD)
  obtain t where t: "?slug = trim_end_dashes ?slug @ t" using trim_end_dashes_prefix by blast
  have "list_all key_char (trim_end_dashes ?slug)" using all t by (metis list_all_append)
  moreover have "length (trim_end_dashes ?slug) \<le> max_chars"
    using arg_cong [OF t, of length] by simp
  moreover have "valid_step_key (lit ''agent'')"
    by (simp add: valid_step_key_def key_char_def MAX_STEP_KEY_CHARS_def text_simps)
  ultimately show ?thesis
    using assms by (auto simp: step_slug_def Let_def valid_step_key_def utf8_len_key_chars)
qed

lemma show_nat_digits: "list_all ascii_digit_char (show_nat n)"
proof (induction n rule: less_induct)
  case (less n)
  show ?case
  proof (cases "n < 10")
    case True
    then show ?thesis by (simp add: show_nat.simps ascii_digit_char_def)
  next
    case False
    have "n mod 10 < 10" by simp
    then have "ascii_digit_char (48 + n mod 10)" unfolding ascii_digit_char_def by linarith
    with False show ?thesis using less [of "n div 10"] by (subst show_nat.simps) simp
  qed
qed

lemma suffixed_chars: "list_all key_char base \<Longrightarrow> list_all key_char (suffixed base n)"
  using show_nat_digits [of n]
  by (auto simp: suffixed_def key_char_def lit_def list_all_iff)

lemma hand_off_base_chars: "list_all key_char (HAND_OFF_KEY_PREFIX @ step_slug target 21)"
proof -
  have "list_all key_char HAND_OFF_KEY_PREFIX"
    by (simp add: HAND_OFF_KEY_PREFIX_def key_char_def text_simps)
  moreover have "list_all key_char (step_slug target 21)"
    using step_slug_valid [of 21 target] by (simp add: MAX_STEP_KEY_CHARS_def valid_step_key_def)
  ultimately show ?thesis by simp
qed

lemma hand_off_room: "MAX_STEP_KEY_CHARS - utf8_len HAND_OFF_KEY_PREFIX - SUFFIX_ROOM = 21"
  by (simp add: MAX_STEP_KEY_CHARS_def HAND_OFF_KEY_PREFIX_def SUFFIX_ROOM_def text_simps)

lemma hand_off_key_chars: "list_all key_char (hand_off_key target steps)"
proof -
  let ?base = "HAND_OFF_KEY_PREFIX @ step_slug target 21"
  obtain m where "free_suffix (map ps_key steps) ?base 2 = suffixed ?base m"
    using free_suffix_form by blast
  then show ?thesis
    using hand_off_base_chars [of target] suffixed_chars [OF hand_off_base_chars [of target]]
    unfolding hand_off_key_def Let_def hand_off_room by presburger
qed

lemma free_suffix_tries:
  "\<exists>m. free_suffix keys base n = suffixed base m \<and> n \<le> m \<and> (\<forall>j \<in> {n..<m}. suffixed base j \<in> set keys)"
proof (induction keys base n rule: free_suffix.induct)
  case (1 keys base n)
  show ?case
  proof (cases "suffixed base n \<in> set keys")
    case True
    then obtain m where m: "free_suffix keys base (n + 1) = suffixed base m" "n + 1 \<le> m"
      "\<forall>j \<in> {n + 1..<m}. suffixed base j \<in> set keys"
      using 1 by auto
    have "suffixed base j \<in> set keys" if "j \<in> {n..<m}" for j
      using that m(3) True by (cases "j = n") auto
    then show ?thesis using m(1,2) True by (auto simp: free_suffix.simps [of keys base n])
  qed (auto simp: free_suffix.simps [of keys base n])
qed

lemma free_suffix_near: "\<exists>m. free_suffix keys base n = suffixed base m \<and> m \<le> n + length keys"
proof -
  obtain m where m: "free_suffix keys base n = suffixed base m" "n \<le> m"
    "\<forall>j \<in> {n..<m}. suffixed base j \<in> set keys"
    using free_suffix_tries by blast
  have "card (suffixed base ` {n..<m}) = m - n"
    by (subst card_image) (auto simp: inj_on_def suffixed_def)
  moreover have "card (suffixed base ` {n..<m}) \<le> card (set keys)"
    using m(3) by (intro card_mono) auto
  ultimately have "m - n \<le> length keys" using card_length [of keys] by linarith
  then show ?thesis using m(1) by (intro exI [of _ m]) simp
qed

lemma show_nat_two_digits: "n < 100 \<Longrightarrow> length (show_nat n) \<le> 2"
  by (subst show_nat.simps) (simp add: show_nat.simps [of "n div 10"] less_mult_imp_div_less)

lemma hand_off_key_valid:
  assumes "length steps < 98"
  shows "valid_step_key (hand_off_key target steps)"
proof -
  let ?base = "HAND_OFF_KEY_PREFIX @ step_slug target 21"
  have base: "length ?base \<le> 29"
    using step_slug_valid [of 21 target]
    by (simp add: MAX_STEP_KEY_CHARS_def HAND_OFF_KEY_PREFIX_def text_simps)
  obtain m where m: "free_suffix (map ps_key steps) ?base 2 = suffixed ?base m" "m \<le> 2 + length steps"
    using free_suffix_near [of "map ps_key steps" ?base 2] by auto
  then have "length (suffixed ?base m) \<le> 32"
    using base show_nat_two_digits [of m] assms by (simp add: suffixed_def text_simps)
  then have "length (hand_off_key target steps) \<le> 32"
    using base m(1) unfolding hand_off_key_def Let_def hand_off_room by (simp split: if_splits)
  moreover have "hand_off_key target steps \<noteq> []"
    using hand_off_key_prefix [of target steps] by (auto simp: HAND_OFF_KEY_PREFIX_def text_simps)
  ultimately show ?thesis
    using hand_off_key_chars [of target steps] utf8_len_key_chars [OF hand_off_key_chars [of target steps]]
    by (simp add: valid_step_key_def MAX_STEP_KEY_CHARS_def)
qed

section \<open>Chains of hand-offs\<close>

lemma plan_hand_off_Ok:
  assumes "plan_hand_off task steps source agent brief roles artifacts = Ok p"
  obtains target where "target \<in> set roles" "role_name target = trim agent"
    "role_name target \<notin> set (hand_off_chain steps source)"
    "accepts_hand_off_from target (ps_role source)"
    "length (filter is_hand_off steps) < MAX_HAND_OFFS_PER_TASK"
    "validate_appended_step task (hand_off_draft steps source target (trim brief) artifacts) steps = Ok p"
proof -
  obtain target where f: "List.find (\<lambda>r. role_name r = trim agent) roles = Some target"
    using assms by (auto simp: plan_hand_off_def Let_def split: option.splits)
  moreover from this have "target \<in> set roles" "role_name target = trim agent"
    by (auto simp: find_Some_iff)
  ultimately show thesis
    using assms that [of target]
    by (auto simp: plan_hand_off_def Let_def not_le split: if_splits result.splits)
qed

text \<open>The step a hand-off adds, at the end of the plan.\<close>

lemma plan_hand_off_step:
  assumes "plan_hand_off task steps source agent brief roles artifacts = Ok p"
  shows "is_hand_off (last (vp_steps p)) \<and> ps_key (last (vp_steps p)) \<notin> ps_key ` set steps \<and>
    ps_role (last (vp_steps p)) = trim agent \<and>
    butlast (vp_steps p) = filter (\<lambda>s. \<not> survives_replan (ps_state s)) (sort_key ps_ordinal steps)"
proof -
  obtain target where target: "role_name target = trim agent"
    and v: "validate_appended_step task
      (hand_off_draft steps source target (trim brief) artifacts) steps = Ok p"
    using plan_hand_off_Ok [OF assms] by metis
  let ?d = "hand_off_draft steps source target (trim brief) artifacts"
  obtain key deps where k: "key \<notin> ps_key ` set steps"
    "vp_steps p = filter (\<lambda>s. \<not> survives_replan (ps_state s)) (sort_key ps_ordinal steps) @
       [new_step (task_id task) key (next_ordinal (sort_key ps_ordinal steps))
          (trim (draft_role ?d)) ?d deps None]"
    using validate_appended_step_Ok [OF v] by metis
  have "key = hand_off_key (role_name target) steps"
    using v k(2) trim_key [OF hand_off_key_chars]
    by (auto simp: validate_appended_step_def Let_def hand_off_draft_def new_step_def
        dest!: step_key_parse_Ok split: if_splits option.splits result.splits)
  then show ?thesis
    using k target hand_off_key_prefix
    by (simp add: is_hand_off_def new_step_def hand_off_draft_def)
qed

text \<open>What every stored plan satisfies: valid keys apart, and waits only for steps of the plan.\<close>

definition steps_closed :: "plan_step list \<Rightarrow> bool" where
  "steps_closed steps \<longleftrightarrow> distinct (map ps_key steps) \<and>
     (\<forall>s \<in> set steps. valid_step_key (ps_key s) \<and> set (ps_depends_on s) \<subseteq> ps_key ` set steps)"

lemma find_append_old:
  "d \<in> ps_key ` set steps \<Longrightarrow>
     List.find (\<lambda>s. ps_key s = d) (steps @ [new]) = List.find (\<lambda>s. ps_key s = d) steps"
  by (induction steps) auto

lemma find_key_member:
  "List.find (\<lambda>s. ps_key s = d) steps = Some s \<Longrightarrow> s \<in> set steps \<and> ps_key s = d"
  by (auto simp: find_Some_iff)

lemma find_own_key:
  assumes "distinct (map ps_key steps)" "s \<in> set steps"
  shows "List.find (\<lambda>t. ps_key t = ps_key s) steps = Some s"
  using assms by (induction steps) (auto simp: image_iff)

lemma chain_loop_append:
  assumes "\<forall>s \<in> set steps. set (ps_depends_on s) \<subseteq> ps_key ` set steps" "current \<in> set steps"
  shows "chain_loop (steps @ [new]) n current = chain_loop steps n current"
  using assms(2)
proof (induction n arbitrary: current)
  case (Suc n)
  show ?case
  proof (cases "ps_depends_on current")
    case (Cons d ds)
    then have "d \<in> ps_key ` set steps" using assms(1) Suc.prems by auto
    then have f: "List.find (\<lambda>s. ps_key s = d) (steps @ [new]) = List.find (\<lambda>s. ps_key s = d) steps"
      by (rule find_append_old)
    show ?thesis
      using Cons f Suc.IH find_key_member [of d steps] by (auto split: option.splits)
  qed simp
qed simp

lemma resolve_exact_one:
  assumes "s \<in> set steps" "distinct (map ps_key steps)"
  shows "resolve_exact key steps [] [ps_key s] = Ok [ps_key s]"
  using find_own_key [OF assms(2,1)] by (simp add: push_new_def)

lemma plan_hand_off_waits:
  assumes "plan_hand_off task steps source agent brief roles artifacts = Ok p"
    and "source \<in> set steps" "steps_closed steps"
  shows "ps_depends_on (last (vp_steps p)) = [ps_key source]"
proof -
  obtain target where v: "validate_appended_step task
      (hand_off_draft steps source target (trim brief) artifacts) steps = Ok p"
    using plan_hand_off_Ok [OF assms(1)] by metis
  have valid: "valid_step_key (ps_key source)" and dist: "distinct (map ps_key steps)"
    using assms(2,3) by (auto simp: steps_closed_def)
  have "trim (ps_key source) = ps_key source" "ps_key source \<noteq> []"
    using valid by (auto simp: valid_step_key_def trim_key)
  then show ?thesis
    using v resolve_exact_one [OF assms(2) dist]
    by (auto simp: validate_appended_step_def Let_def hand_off_draft_def new_step_def
        split: if_splits option.splits result.splits)
qed

lemma plan_hand_off_chain:
  assumes "plan_hand_off task steps source agent brief roles artifacts = Ok p"
    and "source \<in> set steps" "steps_closed steps"
  shows "hand_off_chain (steps @ [last (vp_steps p)]) (last (vp_steps p)) =
    trim agent # hand_off_chain steps source"
proof -
  let ?new = "last (vp_steps p)"
  have new: "is_hand_off ?new" "ps_role ?new = trim agent"
    using plan_hand_off_step [OF assms(1)] by blast+
  have wait: "ps_depends_on ?new = [ps_key source]" by (rule plan_hand_off_waits [OF assms])
  have "List.find (\<lambda>s. ps_key s = ps_key source) (steps @ [?new]) = Some source"
    using find_append_old [of "ps_key source" steps ?new] find_own_key [of steps source] assms(2,3)
    by (simp add: steps_closed_def)
  moreover have "chain_loop (steps @ [?new]) (length steps) source = chain_loop steps (length steps) source"
    using assms(2,3) by (intro chain_loop_append) (auto simp: steps_closed_def)
  ultimately show ?thesis
    using new wait by (simp add: hand_off_chain_def)
qed

section \<open>The one step of an activation\<close>

lemma validate_single:
  assumes "\<not> task_state_is_terminal (task_state task)" "1 \<le> unat (max_steps (task_budget task))"
    and "valid_step_key (draft_key d)" "draft_new_agent d = None" "trim (draft_role d) \<noteq> []"
    and "trim (draft_instructions d) \<noteq> []" "draft_depends_on d = []"
  shows "validate_plan task [d] [] =
    Ok \<lparr>vp_task_id = task_id task,
        vp_steps = [new_step (task_id task) (draft_key d) 1 (trim (draft_role d)) d [] None],
        vp_kept = [], vp_relaxed = []\<rparr>"
proof -
  have k: "step_key_lenient (draft_key d) = Ok (draft_key d)"
    using assms(3) by (simp add: step_key_lenient_eq trim_key valid_step_key_def)
  have f: "find_cycle [new_step (task_id task) (draft_key d) 1 (trim (draft_role d)) d [] None] = None"
    by (simp add: find_cycle_def step_index_def visit.simps visit_deps.simps new_step_def)
  show ?thesis
    using assms k f
    by (simp add: validate_plan_def kept_steps_def step_states_def draft_agent_def draft_role_name_def
        next_ordinal_def Let_def saturating_add_def u32_from_usize_def)
qed

lemma next_run_single:
  assumes "workable task fruitless now" "ps_state s = Pending" "ps_depends_on s = []"
  shows "next_run task [s] fruitless now = Do s"
proof -
  have "blocked_steps [s] = []"
    using assms(3) cannot_start.cases by (fastforce simp: blocked_steps_Nil_iff)
  then show ?thesis
    using assms by (simp add: next_run_workable retry_step_def next_ready_step_def waits_met_def)
qed

lemma trim_end_keeps:
  assumes "\<not> is_whitespace c"
  shows "prefix (a @ [c]) (trim_end (a @ c # r))"
proof (cases "\<forall>x \<in> set r. is_whitespace x")
  case True
  then have "dropWhile is_whitespace (rev r @ c # rev a) = c # rev a"
    using assms by (subst dropWhile_append2) simp_all
  then show ?thesis by (simp add: trim_end_def)
next
  case False
  then obtain x where "x \<in> set (rev r)" "\<not> is_whitespace x" by auto
  then have "dropWhile is_whitespace (rev r @ c # rev a) = dropWhile is_whitespace (rev r) @ c # rev a"
    by (rule dropWhile_append1)
  then show ?thesis by (simp add: trim_end_def)
qed

lemma goal_names_agent:
  assumes "name \<noteq> []" "trim name = name"
  shows "prefix (name @ lit '':'') (trim (name @ lit '': '' @ rest))"
proof -
  have "trim_start (name @ lit '': '' @ rest) = name @ lit '': '' @ rest"
    using assms trim_hd [of name] by (cases name) (simp_all add: trim_start_def)
  then show ?thesis
    using trim_end_keeps [of 58 name "32 # rest"] by (simp add: trim_def lit_def is_whitespace_def)
qed

lemma activation_owner_scope:
  assumes "activation_scope (activation_owner m r) n = Some scope"
  shows "owner_for scope (activation_owner m r) = Ok (activation_owner m r)"
  using assms non_blank_Some
  by (auto simp: activation_scope_def activation_owner_def owner_for_def clean_owner_def
      split: option.splits if_splits)

lemma activation_task_Ok:
  assumes "trim (role_name role) \<noteq> []" "trim instructions \<noteq> []"
    and "owner = activation_owner m r" "activation_scope owner n = Some scope"
  shows "\<exists>task. activation_task fresh_id role instructions scope owner now =
      Ok (task, \<lparr>vp_task_id = task_id task,
        vp_steps = [new_step (task_id task) (step_slug (role_name role) MAX_STEP_KEY_CHARS) 1
          (trim (role_name role)) (activation_draft role instructions) [] None],
        vp_kept = [], vp_relaxed = []\<rparr>) \<and>
    task_id task = ACTIVATION_TASK_ID_PREFIX @ fresh_id \<and> task_state task = Paused \<and>
    task_owner task = owner \<and> task_scope task = scope \<and>
    task_goal task = trim (role_name role @ lit '': '' @
      first_line_capped instructions ACTIVATION_GOAL_CHARS) \<and>
    task_budget task = \<lparr>max_steps = 5, deadline = Some (now + int ACTIVATION_DEADLINE * NANOS)\<rparr>"
proof -
  have own: "owner_for scope owner = Ok owner"
    using activation_owner_scope assms(3,4) by simp
  let ?goal = "role_name role @ lit '': '' @ first_line_capped instructions ACTIVATION_GOAL_CHARS"
  have goal: "trim ?goal \<noteq> []"
    using assms(1) by (auto simp: trim_Nil_iff)
  have i: "trim (ACTIVATION_TASK_ID_PREFIX @ fresh_id) \<noteq> []"
    by (simp add: trim_Nil_iff ACTIVATION_TASK_ID_PREFIX_def text_simps)
  have key: "valid_step_key (draft_key (activation_draft role instructions))"
    using step_slug_valid [of MAX_STEP_KEY_CHARS] by (simp add: activation_draft_def MAX_STEP_KEY_CHARS_def)
  have plan: "validate_plan task [activation_draft role instructions] [] =
    Ok \<lparr>vp_task_id = task_id task,
        vp_steps = [new_step (task_id task) (step_slug (role_name role) MAX_STEP_KEY_CHARS) 1
          (trim (role_name role)) (activation_draft role instructions) [] None],
        vp_kept = [], vp_relaxed = []\<rparr>"
    if "task_state task = Paused" "max_steps (task_budget task) = 5" for task
    using validate_single [of task, OF _ _ key] that assms(1,2) by (simp add: activation_draft_def)
  show ?thesis
    using own goal i plan
    by (simp add: activation_task_def budget_new_def MAX_HAND_OFFS_PER_TASK_def MAX_LONG_TASK_STEPS_def
        task_start_def origin_for_def with_id_prefix_def task_from_parts_def task_parts_def
        transition_to_def ACTIVATION_DEADLINE_def NANOS_def Let_def)
qed

section \<open>A concrete hand-off\<close>

definition example_look :: plan_step where
  "example_look =
     \<lparr>ps_task_id = task_id example_task, ps_key = lit ''look'', ps_ordinal = 1, ps_role = lit ''Weather'',
      ps_instructions = lit ''Look outside.'', ps_inputs = [], ps_depends_on = [],
      ps_acceptance = None, ps_state = StepCompleted, ps_attempts = 1, ps_summary = Some (lit ''Rain.''),
      ps_failure = None, ps_started_at = Some 1, ps_finished_at = Some 2, ps_agent = None\<rparr>"

definition example_cook :: agent_role where
  "example_cook = example_role\<lparr>role_name := lit ''cook'', role_activations := [AgentFrom [lit ''Weather'']]\<rparr>"

lemma example_hand_off:
  "\<exists>p. plan_hand_off example_task [example_look] example_look (lit ''cook'') (lit ''Cook soup.'')
     [example_role, example_cook] [] = Ok p"
proof -
  have k: "step_key_parse (hand_off_key (lit ''cook'') [example_look]) =
      Ok (hand_off_key (lit ''cook'') [example_look])"
    "hand_off_key (lit ''cook'') [example_look] \<noteq> ps_key example_look"
    using step_key_parse_valid [OF hand_off_key_valid [of "[example_look]"]]
      hand_off_key_fresh [of "lit ''cook''" "[example_look]"] by simp_all
  have r: "role_name example_cook = lit ''cook''" "role_name example_role = lit ''Weather''"
    "accepts_hand_off_from example_cook (lit ''Weather'')"
    by (simp_all add: example_cook_def example_role_def accepts_hand_off_from_def)
  have s: "ps_role example_look = lit ''Weather''" "ps_key example_look = lit ''look''"
    "ps_task_id example_look = task_id example_task" "\<not> is_hand_off example_look"
    by (simp_all add: example_look_def is_hand_off_def HAND_OFF_KEY_PREFIX_def text_simps)
  have t: "trim (lit ''cook'') = lit ''cook''" "lit ''cook'' \<noteq> lit ''Weather''"
    "lit ''cook'' \<noteq> []" "trim (lit ''Cook soup.'') = lit ''Cook soup.''" "lit ''Cook soup.'' \<noteq> []"
    "trim (lit ''look'') = lit ''look''" "lit ''look'' \<noteq> []"
    by (simp_all add: text_simps)
  have i: "trim (hand_off_instructions example_look (lit ''Cook soup.'')) \<noteq> []"
    by (simp add: hand_off_instructions_def trim_Nil_iff lit_def is_whitespace_def split: option.splits)
  have b: "\<not> task_state_is_terminal (task_state example_task)"
    "unat (max_steps (task_budget example_task)) \<ge> 2"
    by (simp_all add: example_task_def example_budget_def)
  have chain: "hand_off_chain [example_look] example_look = [lit ''Weather'']"
    using s by (simp add: hand_off_chain_def)
  show ?thesis
    using k(2) b t(2) [symmetric]
    by (simp add: plan_hand_off_def r k(1) s t i chain hand_off_draft_def validate_appended_step_def
        MAX_HAND_OFFS_PER_TASK_def push_new_def Let_def)
qed

section \<open>Properties\<close>

text \<open>
  An activation always becomes runnable work: for any role the program can hold, non-blank
  instructions and an owner and scope chosen by the activation's own rules, the queued task is a
  paused one marked as an activation's and named after the agent, owned by that member, with one step that role may
  take and two hours to finish; and as soon as the lane runs it within those two hours, the next decision is to
  do that step.
\<close>

theorem activation_queues_one_step:
  assumes "made_role role" "trim (role_name role) = role_name role" "trim instructions \<noteq> []"
    and "owner = activation_owner m r" "activation_scope owner n = Some scope"
    and "now \<le> later" "later < now + 7200 * NANOS"
  shows "\<exists>task plan step. activation_task fresh_id role instructions scope owner now = Ok (task, plan) \<and>
    is_activation_task task \<and> task_state task = Paused \<and> task_owner task = owner \<and>
    prefix (role_name role @ lit '':'') (task_goal task) \<and>
    vp_steps plan = [step] \<and> step_role_allowed task step role = Ok () \<and>
    next_run (task\<lparr>task_state := TaskRunning\<rparr>) (vp_steps plan) 0 later = Do step"
proof -
  have name: "trim (role_name role) \<noteq> []" using made_role_ok [OF assms(1)] by (simp add: role_ok_def)
  obtain task where task:
    "activation_task fresh_id role instructions scope owner now =
      Ok (task, \<lparr>vp_task_id = task_id task,
        vp_steps = [new_step (task_id task) (step_slug (role_name role) MAX_STEP_KEY_CHARS) 1
          (trim (role_name role)) (activation_draft role instructions) [] None],
        vp_kept = [], vp_relaxed = []\<rparr>)"
    "task_id task = ACTIVATION_TASK_ID_PREFIX @ fresh_id" "task_state task = Paused"
    "task_owner task = owner"
    "task_goal task = trim (role_name role @ lit '': '' @
      first_line_capped instructions ACTIVATION_GOAL_CHARS)"
    "task_budget task = \<lparr>max_steps = 5, deadline = Some (now + int ACTIVATION_DEADLINE * NANOS)\<rparr>"
    using activation_task_Ok [OF name assms(3-5)] by blast
  let ?step = "new_step (task_id task) (step_slug (role_name role) MAX_STEP_KEY_CHARS) 1
          (trim (role_name role)) (activation_draft role instructions) [] None"
  have act: "is_activation_task task"
    using task(2) by (simp add: is_activation_task_def)
  have "workable (task\<lparr>task_state := TaskRunning\<rparr>) 0 later"
    using assms(7) task(6)
    by (simp add: workable_def deadline_passed_def ACTIVATION_DEADLINE_def MAX_FRUITLESS_PLANS_def)
  then have "next_run (task\<lparr>task_state := TaskRunning\<rparr>) [?step] 0 later = Do ?step"
    by (rule next_run_single) (simp_all add: new_step_def)
  then show ?thesis
    using task act assms(2) goal_names_agent [of "role_name role"] name
    by (auto simp: step_role_allowed_def new_step_def)
qed

theorem activation_queues_one_step_witness:
  "\<exists>task plan step. activation_task (lit ''x'') example_role (lit ''Look outside.'')
      (Owner (lit ''ana'')) (Some (lit ''ana'')) 0 = Ok (task, plan) \<and>
    vp_steps plan = [step] \<and> next_run (task\<lparr>task_state := TaskRunning\<rparr>) (vp_steps plan) 0 5 = Do step"
proof -
  have "Some (lit ''ana'') = activation_owner (Some (lit ''ana'')) None"
    "activation_scope (Some (lit ''ana'')) 2 = Some (Owner (lit ''ana''))"
    by (simp_all add: activation_owner_def activation_scope_def non_blank_def text_simps)
  from activation_queues_one_step
    [OF made_new [OF example_role_new] _ _ this, of "lit ''Look outside.''" 0 5 "lit ''x''"]
  show ?thesis by (auto simp: example_role_def NANOS_def text_simps)
qed

text \<open>
  Hand-offs cannot run away: on a stored plan, an accepted hand-off appends one step under a
  free key, for an agent that accepts work from the step's role and is not yet in its chain, so a
  chain stays free of repetitions, grows by exactly that agent, and no task ever holds more than
  four handed-on steps.
\<close>

theorem hand_off_bounded:
  assumes "plan_hand_off task steps source agent brief roles artifacts = Ok p"
    and "source \<in> set steps" "steps_closed steps" "distinct (hand_off_chain steps source)"
  shows "\<exists>target new. target \<in> set roles \<and> accepts_hand_off_from target (ps_role source) \<and>
    last (vp_steps p) = new \<and> ps_role new = role_name target \<and>
    ps_key new \<notin> ps_key ` set steps \<and> ps_depends_on new = [ps_key source] \<and>
    hand_off_chain (steps @ [new]) new = role_name target # hand_off_chain steps source \<and>
    distinct (hand_off_chain (steps @ [new]) new) \<and>
    length (filter is_hand_off (steps @ [new])) \<le> 4"
proof -
  obtain target where t: "target \<in> set roles" "role_name target = trim agent"
    "role_name target \<notin> set (hand_off_chain steps source)"
    "accepts_hand_off_from target (ps_role source)"
    "length (filter is_hand_off steps) < MAX_HAND_OFFS_PER_TASK"
    using plan_hand_off_Ok [OF assms(1)] by metis
  note step = plan_hand_off_step [OF assms(1)]
  note chain = plan_hand_off_chain [OF assms(1-3)] and waits = plan_hand_off_waits [OF assms(1-3)]
  show ?thesis
    using t step chain waits assms(4)
    by (intro exI [of _ target] exI [of _ "last (vp_steps p)"])
       (simp add: MAX_HAND_OFFS_PER_TASK_def)
qed

theorem hand_off_bounded_witness:
  "\<exists>p new. plan_hand_off example_task [example_look] example_look (lit ''cook'') (lit ''Cook soup.'')
       [example_role, example_cook] [] = Ok p \<and> last (vp_steps p) = new \<and>
     hand_off_chain [example_look, new] new = [ps_role new, ps_role example_look] \<and>
     ps_depends_on new = [ps_key example_look]"
proof -
  obtain p where p: "plan_hand_off example_task [example_look] example_look (lit ''cook'')
      (lit ''Cook soup.'') [example_role, example_cook] [] = Ok p"
    using example_hand_off by blast
  have c: "hand_off_chain [example_look] example_look = [ps_role example_look]"
    "steps_closed [example_look]"
    by (simp_all add: hand_off_chain_def is_hand_off_def HAND_OFF_KEY_PREFIX_def steps_closed_def
        valid_step_key_def key_char_def MAX_STEP_KEY_CHARS_def example_look_def text_simps)
  then show ?thesis using hand_off_bounded [OF p] p by auto
qed



text \<open>
  A run that may see no personal data is told none by its before hooks: for a guest's scope the
  text placed in front of the step is the same whatever the schedule and whoever is home.
\<close>

theorem guest_hooks_reveal_nothing:
  "render_before_hooks hooks (context\<lparr>bh_schedule := schedule, bh_presence := presence\<rparr>) Guest =
   render_before_hooks hooks context Guest"
proof -
  have line: "before_hook_line (context\<lparr>bh_schedule := schedule, bh_presence := presence\<rparr>) True h =
      before_hook_line context True h" for h
    by (cases h) simp_all
  show ?thesis by (simp add: render_before_hooks_def line)
qed

text \<open>
  Tasks do not breed: a task started by a finished step is marked as a follow-up with its
  parent's owner and scope, and no step of such a task, whatever it asks for and whatever its role's
  hooks say, starts a further one.
\<close>

theorem follow_up_starts_no_task:
  assumes "follow_up_task fresh_id task goal now = Ok started"
  shows "is_follow_up_task started \<and> task_scope started = task_scope task \<and>
    ActStartTask further \<notin> set (after_hook_actions started role step outcome)"
proof -
  have f: "is_follow_up_task started" "task_scope started = task_scope task"
    using assms
    by (auto simp: follow_up_task_def with_id_prefix_def task_from_parts_def task_parts_def
        task_start_def is_follow_up_task_def split: result.splits if_splits)
  have "hook_action started outcome h \<noteq> Some (ActStartTask further)" for h
    using f(1) by (cases h) auto
  then show ?thesis
    using f
    by (auto simp: after_hook_actions_def Let_def map_filter_def split: option.splits)
qed

theorem follow_up_starts_no_task_witness:
  "\<exists>started. follow_up_task (lit ''f'') example_task (lit ''Plan the trip'') 0 = Ok started \<and>
     ActStartTask (lit ''more'') \<notin> set (after_hook_actions started example_role example_look
       (outcome_new OutcomeCompleted (lit ''done'') [] None))"
proof -
  have "\<exists>started. follow_up_task (lit ''f'') example_task (lit ''Plan the trip'') 0 = Ok started"
    by (simp add: follow_up_task_def budget_new_def DEFAULT_LONG_TASK_STEPS_def MAX_LONG_TASK_STEPS_def
        task_start_def owner_for_def clean_owner_def origin_for_def with_id_prefix_def
        task_from_parts_def task_parts_def FOLLOW_UP_TASK_ID_PREFIX_def example_task_def text_simps)
  then show ?thesis using follow_up_starts_no_task by blast
qed

end
