(* ===== verification/Plan_Reader.thy ===== *)
theory Plan_Reader
  imports Plan_Validation Step_Outcome Step_Key Runner_Text
begin

text \<open>
  Reading a planner's steps from JSON: \<open>read_step_draft\<close>, \<open>match_waits_by_name\<close> and the field readers
  of \<open>pond-core/src/shared/domain/long_task.rs\<close>, and \<open>plan_drafts\<close> of
  \<open>pond-mcp-server/src/long_task.rs\<close>. The derived \<open>serde\<close> readers of \<open>StepAgent\<close> and \<open>StepDraft\<close> are
  written out with their aliases and defaults: an object field by field, in its order, or an array
  by position. A \<open>serde\<close> error is a value here and its text the argument \<open>serde_text\<close>.
\<close>

datatype serde_error =
    MissingField ustr
  | DuplicateField ustr
  | InvalidType json
  | InvalidLength nat

section \<open>Lenient values\<close>

fun collect_line_parts :: "json \<Rightarrow> ustr list" where
  "collect_line_parts JNull = []"
| "collect_line_parts (JBool _) = []"
| "collect_line_parts (JNumber n) = [n]"
| "collect_line_parts (JString t) = (if trim t \<noteq> [] then [t] else [])"
| "collect_line_parts (JArray items) = concat (map collect_line_parts items)"
| "collect_line_parts (JObject object) = concat (map (\<lambda>(_, v). collect_line_parts v) object)"

definition optional_string_or_lines :: "json \<Rightarrow> ustr option" where
  "optional_string_or_lines v =
     (let parts = collect_line_parts v in if parts = [] then None else Some (join_with newline parts))"

definition string_or_lines :: "json \<Rightarrow> ustr" where
  "string_or_lines v = (case optional_string_or_lines v of None \<Rightarrow> [] | Some t \<Rightarrow> t)"

definition HANDLE_FIELDS :: "ustr list" where
  "HANDLE_FIELDS = map lit [''id'', ''key'', ''step'', ''step_key'', ''step_id'', ''artifact'',
     ''artifact_id'', ''name'', ''tool'', ''group'']"

lemma map_of_size: "map_of object k = Some v \<Longrightarrow> size v \<le> size_list (size_prod (\<lambda>_. 0) size) object"
  by (induction object) (auto split: if_splits)

function collect_one_or_many :: "json \<Rightarrow> ustr list" where
  "collect_one_or_many JNull = []"
| "collect_one_or_many (JBool _) = []"
| "collect_one_or_many (JNumber n) = [n]"
| "collect_one_or_many (JString t) = split_on (\<lambda>c. c = 44) t"
| "collect_one_or_many (JArray items) = concat (map collect_one_or_many items)"
| "collect_one_or_many (JObject object) =
     (if list_ex (\<lambda>h. map_of object h \<noteq> None) HANDLE_FIELDS
      then concat (map (\<lambda>h. case map_of object h of None \<Rightarrow> [] | Some v \<Rightarrow> collect_one_or_many v)
             HANDLE_FIELDS)
      else concat (map (\<lambda>(k, v). case v of
             JString t \<Rightarrow> split_on (\<lambda>c. c = 44) t
           | JNumber n \<Rightarrow> [n]
           | JBool True \<Rightarrow> [k]
           | _ \<Rightarrow> []) object))"
  by pat_completeness auto
termination collect_one_or_many
  by (relation "measure size") (auto simp: map_of_size size_list_estimation' less_Suc_eq_le)

definition one_or_many :: "json \<Rightarrow> ustr list" where
  "one_or_many v = collect_one_or_many v"

section \<open>The derived readers\<close>

definition field_named :: "(ustr \<times> ustr list) list \<Rightarrow> ustr \<Rightarrow> ustr option" where
  "field_named names n = map_option fst (List.find (\<lambda>(c, aliases). n = c \<or> n \<in> set aliases) names)"

fun struct_fields ::
  "(ustr \<times> ustr list) list \<Rightarrow> (ustr \<Rightarrow> json \<Rightarrow> serde_error option) \<Rightarrow> (ustr \<times> json) list \<Rightarrow> json_object \<Rightarrow>
     ((ustr \<times> json) list, serde_error) result"
where
  "struct_fields names bad seen [] = Ok seen"
| "struct_fields names bad seen ((n, v) # rest) =
     (case field_named names n of
        None \<Rightarrow> struct_fields names bad seen rest
      | Some c \<Rightarrow>
          if map_of seen c \<noteq> None then Err (DuplicateField c)
          else (case bad c v of
                  Some e \<Rightarrow> Err e
                | None \<Rightarrow> struct_fields names bad ((c, v) # seen) rest))"

fun struct_seq ::
  "(ustr \<times> bool) list \<Rightarrow> (ustr \<Rightarrow> json \<Rightarrow> serde_error option) \<Rightarrow> nat \<Rightarrow> json list \<Rightarrow>
     ((ustr \<times> json) list, serde_error) result"
where
  "struct_seq [] bad at [] = Ok []"
| "struct_seq [] bad at (_ # vs) = Err (InvalidLength (at + 1 + length vs))"
| "struct_seq ((c, has_default) # names) bad at [] =
     (if has_default then struct_seq names bad (at + 1) [] else Err (InvalidLength at))"
| "struct_seq ((c, _) # names) bad at (v # vs) =
     (case bad c v of
        Some e \<Rightarrow> Err e
      | None \<Rightarrow> (case struct_seq names bad (at + 1) vs of Err e \<Rightarrow> Err e | Ok seen \<Rightarrow> Ok ((c, v) # seen)))"

definition not_string :: "json \<Rightarrow> serde_error option" where
  "not_string v = (case v of JString _ \<Rightarrow> None | _ \<Rightarrow> Some (InvalidType v))"

definition string_field :: "(ustr \<times> json) list \<Rightarrow> ustr \<Rightarrow> ustr" where
  "string_field seen c = (case map_of seen c of Some (JString s) \<Rightarrow> s | _ \<Rightarrow> [])"

definition list_field :: "(ustr \<times> json) list \<Rightarrow> ustr \<Rightarrow> ustr list" where
  "list_field seen c = (case map_of seen c of Some v \<Rightarrow> one_or_many v | None \<Rightarrow> [])"

fun first_missing :: "ustr list \<Rightarrow> (ustr \<times> json) list \<Rightarrow> ustr option" where
  "first_missing [] seen = None"
| "first_missing (c # cs) seen = (if map_of seen c = None then Some c else first_missing cs seen)"

definition AGENT_FIELDS :: "(ustr \<times> ustr list) list" where
  "AGENT_FIELDS =
     [(lit ''name'', []),
      (lit ''instructions'', map lit [''task'', ''instruction'', ''description'', ''prompt'']),
      (lit ''tools'', [lit ''tool_groups''])]"

definition agent_field_bad :: "ustr \<Rightarrow> json \<Rightarrow> serde_error option" where
  "agent_field_bad c v = (if c = lit ''name'' then not_string v else None)"

definition agent_of_fields :: "(ustr \<times> json) list \<Rightarrow> (step_agent, serde_error) result" where
  "agent_of_fields seen =
     (case first_missing [lit ''name'', lit ''instructions''] seen of
        Some c \<Rightarrow> Err (MissingField c)
      | None \<Rightarrow>
          Ok \<lparr>agent_name = string_field seen (lit ''name''),
              agent_instructions =
                (case map_of seen (lit ''instructions'') of Some v \<Rightarrow> string_or_lines v | None \<Rightarrow> []),
              agent_tools = list_field seen (lit ''tools'')\<rparr>)"

definition agent_from_value :: "json \<Rightarrow> (step_agent, serde_error) result" where
  "agent_from_value v =
     (case (case v of
              JObject object \<Rightarrow> struct_fields AGENT_FIELDS agent_field_bad [] object
            | JArray items \<Rightarrow>
                struct_seq [(lit ''name'', False), (lit ''instructions'', False), (lit ''tools'', True)]
                  agent_field_bad 0 items
            | _ \<Rightarrow> Err (InvalidType v)) of
        Err e \<Rightarrow> Err e
      | Ok seen \<Rightarrow> agent_of_fields seen)"

definition DRAFT_FIELDS :: "(ustr \<times> ustr list) list" where
  "DRAFT_FIELDS =
     [(lit ''key'', map lit [''id'', ''step_key'']),
      (lit ''role'', [lit ''agent'']),
      (lit ''new_agent'', [lit ''custom_agent'']),
      (lit ''instructions'', map lit [''task'', ''instruction'', ''description'', ''prompt'', ''action'']),
      (lit ''inputs'', map lit [''input'', ''artifacts'']),
      (lit ''depends_on'', map lit [''dependencies'', ''depends'', ''after'']),
      (lit ''acceptance'', map lit [''acceptance_check'', ''check''])]"

definition draft_field_bad :: "ustr \<Rightarrow> json \<Rightarrow> serde_error option" where
  "draft_field_bad c v =
     (if c = lit ''key'' \<or> c = lit ''role'' then not_string v
      else if c = lit ''new_agent'' \<and> v \<noteq> JNull
      then (case agent_from_value v of Err e \<Rightarrow> Some e | Ok _ \<Rightarrow> None)
      else None)"

definition draft_of_fields :: "(ustr \<times> json) list \<Rightarrow> (step_draft, serde_error) result" where
  "draft_of_fields seen =
     (case first_missing [lit ''key'', lit ''instructions''] seen of
        Some c \<Rightarrow> Err (MissingField c)
      | None \<Rightarrow>
          Ok \<lparr>draft_key = string_field seen (lit ''key''),
              draft_role = string_field seen (lit ''role''),
              draft_new_agent =
                (case map_of seen (lit ''new_agent'') of
                   None \<Rightarrow> None
                 | Some v \<Rightarrow> (case agent_from_value v of Ok a \<Rightarrow> Some a | Err _ \<Rightarrow> None)),
              draft_instructions =
                (case map_of seen (lit ''instructions'') of Some v \<Rightarrow> string_or_lines v | None \<Rightarrow> []),
              draft_inputs = list_field seen (lit ''inputs''),
              draft_depends_on = list_field seen (lit ''depends_on''),
              draft_acceptance = Option.bind (map_of seen (lit ''acceptance'')) optional_string_or_lines\<rparr>)"

definition draft_from_value :: "json \<Rightarrow> (step_draft, serde_error) result" where
  "draft_from_value v =
     (case (case v of
              JObject object \<Rightarrow> struct_fields DRAFT_FIELDS draft_field_bad [] object
            | JArray items \<Rightarrow>
                struct_seq [(lit ''key'', False), (lit ''role'', True), (lit ''new_agent'', True),
                    (lit ''instructions'', False), (lit ''inputs'', True), (lit ''depends_on'', True),
                    (lit ''acceptance'', True)]
                  draft_field_bad 0 items
            | _ \<Rightarrow> Err (InvalidType v)) of
        Err e \<Rightarrow> Err e
      | Ok seen \<Rightarrow> draft_of_fields seen)"

section \<open>One step of a plan\<close>

definition STEP_DRAFT_FIELDS :: "ustr list" where
  "STEP_DRAFT_FIELDS = map lit [''key'', ''id'', ''step_key'', ''role'', ''agent'', ''new_agent'',
     ''custom_agent'', ''instructions'', ''task'', ''instruction'', ''description'', ''prompt'',
     ''action'', ''inputs'', ''input'', ''artifacts'', ''depends_on'', ''dependencies'', ''depends'',
     ''after'', ''acceptance'', ''acceptance_check'', ''check'']"

definition KEY_FALLBACKS :: "ustr list" where
  "KEY_FALLBACKS = map lit [''name'', ''title'', ''step'', ''step_name'', ''step_id'', ''label'']"

definition KEY_FIELDS :: "ustr list" where
  "KEY_FIELDS = map lit [''key'', ''id'', ''step_key'']"

record read_step =
  read_draft :: step_draft
  read_ignored :: "ustr list"
  read_names :: "ustr list"

definition squash :: "ustr \<Rightarrow> ustr" where
  "squash name = map to_ascii_lower (filter ascii_alphanumeric name)"

text \<open>\<open>Map::insert\<close> replaces in place or appends; \<open>Map::remove\<close> moves the last entry into the gap.\<close>

fun map_insert :: "ustr \<Rightarrow> json \<Rightarrow> json_object \<Rightarrow> json_object" where
  "map_insert k v [] = [(k, v)]"
| "map_insert k v ((k', v') # rest) =
     (if k' = k then (k, v) # rest else (k', v') # map_insert k v rest)"

fun map_remove :: "ustr \<Rightarrow> json_object \<Rightarrow> json_object" where
  "map_remove k [] = []"
| "map_remove k ((k', v') # rest) =
     (if k' = k then (if rest = [] then [] else last rest # butlast rest)
      else (k', v') # map_remove k rest)"

definition is_fallback :: "ustr \<Rightarrow> bool" where
  "is_fallback name \<longleftrightarrow> list_ex (\<lambda>f. squash f = squash name) KEY_FALLBACKS"

definition drop_bad_agent :: "json_object \<Rightarrow> json_object \<times> ustr list" where
  "drop_bad_agent read =
     (case map_of read (lit ''new_agent'') of
        Some v \<Rightarrow> if v \<noteq> JNull \<and> \<not> is_ok (agent_from_value v)
                  then (map_remove (lit ''new_agent'') read, [lit ''new_agent''])
                  else (read, [])
      | None \<Rightarrow> (read, []))"

definition place_near :: "json_object \<times> json_object \<Rightarrow> ustr \<times> json \<Rightarrow> json_object \<times> json_object" where
  "place_near acc entry =
     (case (acc, entry) of ((read, unread), (name, field)) \<Rightarrow>
        case List.find (\<lambda>known. squash known = squash name) STEP_DRAFT_FIELDS of
          Some known \<Rightarrow>
            if map_of read known = None then (map_insert known field read, unread)
            else (read, unread @ [(name, field)])
        | None \<Rightarrow> (read, unread @ [(name, field)]))"

fun name_of_field :: "ustr \<times> json \<Rightarrow> ustr list" where
  "name_of_field (name, JString t) = (if is_fallback name then [trim t] else [])"
| "name_of_field (name, JNumber n) = (if is_fallback name then [lit ''step-'' @ n] else [])"
| "name_of_field _ = []"

definition number_key :: "json_object \<times> ustr list \<Rightarrow> ustr \<Rightarrow> json_object \<times> ustr list" where
  "number_key acc key_field =
     (case acc of (read, names) \<Rightarrow>
        case map_of read key_field of
          Some (JNumber n) \<Rightarrow> (map_insert key_field (JString (lit ''step-'' @ n)) read, names @ [n])
        | _ \<Rightarrow> (read, names))"

definition keyed :: "json_object \<Rightarrow> bool" where
  "keyed read \<longleftrightarrow> list_ex (\<lambda>name. case map_of read name of Some v \<Rightarrow> v \<noteq> JNull | None \<Rightarrow> False) KEY_FIELDS"

text \<open>The first fallback field that names the step, with the object left over.\<close>

fun fallback_key :: "json_object \<Rightarrow> ustr list \<Rightarrow> (ustr \<times> json_object) option" where
  "fallback_key unread [] = None"
| "fallback_key unread (fallback # rest) =
     (case position (\<lambda>(name, _). squash name = squash fallback) unread of
        None \<Rightarrow> fallback_key unread rest
      | Some at \<Rightarrow>
          (case snd (unread ! at) of
             JString t \<Rightarrow> if trim t \<noteq> [] then Some (t, take at unread @ drop (at + 1) unread)
                          else fallback_key unread rest
           | JNumber n \<Rightarrow> Some (lit ''step-'' @ n, take at unread @ drop (at + 1) unread)
           | _ \<Rightarrow> fallback_key unread rest))"

definition supply_key :: "json_object \<Rightarrow> json_object \<Rightarrow> nat \<Rightarrow> json_object \<times> json_object" where
  "supply_key read unread pos =
     (if keyed read then (read, unread)
      else (case fallback_key unread KEY_FALLBACKS of
              Some (key, rest) \<Rightarrow> (map_insert (lit ''key'') (JString key) read, rest)
            | None \<Rightarrow> (map_insert (lit ''key'') (JString (lit ''step-'' @ show_nat pos)) read, unread)))"

definition read_step_draft :: "json \<Rightarrow> nat \<Rightarrow> (read_step, serde_error) result" where
  "read_step_draft value pos =
     (case value of
        JObject object \<Rightarrow>
          (let exact = filter (\<lambda>(name, _). name \<in> set STEP_DRAFT_FIELDS) object;
               near = filter (\<lambda>(name, _). name \<notin> set STEP_DRAFT_FIELDS) object;
               (read1, dropped) = drop_bad_agent exact;
               (read2, unread) = foldl place_near (read1, []) near;
               names1 = concat (map name_of_field unread);
               (read3, names) = foldl number_key (read2, names1) KEY_FIELDS;
               (read4, left) = supply_key read3 unread pos
           in case draft_from_value (JObject read4) of
                Err e \<Rightarrow> Err e
              | Ok draft \<Rightarrow>
                  Ok \<lparr>read_draft = draft,
                      read_ignored = dropped @ filter (\<lambda>name. \<not> is_fallback name) (map fst left),
                      read_names = names\<rparr>)
      | other \<Rightarrow>
          (case draft_from_value other of
             Err e \<Rightarrow> Err e
           | Ok draft \<Rightarrow> Ok \<lparr>read_draft = draft, read_ignored = [], read_names = []\<rparr>))"

section \<open>Waits named another way\<close>

definition wait_slug :: "ustr \<Rightarrow> ustr" where
  "wait_slug raw = (case suggest_key raw of Some k \<Rightarrow> k | None \<Rightarrow> to_ascii_lowercase (trim raw))"

definition add_place :: "ustr list \<Rightarrow> ustr \<Rightarrow> (ustr \<times> ustr) list \<Rightarrow> ustr \<Rightarrow> (ustr \<times> ustr) list" where
  "add_place keys key named alias =
     (let wanted = wait_slug alias in
      if wanted \<notin> set keys \<and> wanted \<notin> fst ` set named then named @ [(wanted, key)] else named)"

definition place_names :: "ustr list \<Rightarrow> (ustr \<times> ustr) list \<Rightarrow> nat \<times> read_step \<Rightarrow> (ustr \<times> ustr) list" where
  "place_names keys named entry =
     (case entry of (idx, step) \<Rightarrow>
        foldl (add_place keys (draft_key (read_draft step))) named
          [show_nat (idx + 1), lit ''step-'' @ show_nat (idx + 1)])"

definition named_steps :: "read_step list \<Rightarrow> (ustr \<times> ustr) list" where
  "named_steps steps =
     foldl (place_names (map (\<lambda>s. wait_slug (draft_key (read_draft s))) steps))
       (concat (map (\<lambda>s. map (\<lambda>n. (wait_slug n, draft_key (read_draft s))) (read_names s)) steps))
       (enumerate 0 steps)"

definition match_wait :: "ustr list \<Rightarrow> (ustr \<times> ustr) list \<Rightarrow> ustr \<Rightarrow> ustr" where
  "match_wait keys named wait =
     (let wanted = wait_slug wait in
      if wanted \<in> set keys then wait
      else (case List.find (\<lambda>(n, _). n = wanted) named of Some (_, key) \<Rightarrow> key | None \<Rightarrow> wait))"

definition match_waits_by_name :: "read_step list \<Rightarrow> read_step list" where
  "match_waits_by_name steps =
     (let keys = map (\<lambda>s. wait_slug (draft_key (read_draft s))) steps; named = named_steps steps
      in map (\<lambda>s. s\<lparr>read_draft := (read_draft s)
                \<lparr>draft_depends_on := map (match_wait keys named) (draft_depends_on (read_draft s))\<rparr>\<rparr>)
           steps)"

section \<open>The steps of a call\<close>

definition PLAN_SHAPE :: ustr where
  "PLAN_SHAPE = lit ''plan_write needs `steps`: a list of steps, each with `key`, `role` (or '' @
     lit ''`new_agent`) and `instructions`.''"

definition backquoted :: "ustr list \<Rightarrow> ustr" where
  "backquoted items = join_with (lit '', '') (map (\<lambda>item. lit ''`'' @ item @ lit ''`'') items)"

text \<open>\<open>to_uppercase\<close> meets only the \<open>s\<close> of \<open>step\<close>.\<close>

definition capitalised :: "ustr \<Rightarrow> ustr" where
  "capitalised s = (case s of [] \<Rightarrow> [] | c # cs \<Rightarrow> to_ascii_upper c # cs)"

fun fields_of :: "json \<Rightarrow> ustr list" where
  "fields_of (JObject object) = map fst object"
| "fields_of _ = []"

definition unreadable_line :: "(serde_error \<Rightarrow> ustr) \<Rightarrow> nat \<Rightarrow> json \<Rightarrow> serde_error \<Rightarrow> ustr" where
  "unreadable_line serde_text pos item e =
     lit ''step '' @ show_nat pos @ lit '' cannot be read: '' @ serde_text e @
     (if fields_of item = [] then [] else lit '' (it has '' @ backquoted (fields_of item) @ lit '')'')"

definition read_items :: "json list \<Rightarrow> (json \<times> nat \<times> (read_step, serde_error) result) list" where
  "read_items items = map (\<lambda>(i, item). (item, i, read_step_draft item i)) (enumerate 1 items)"

definition steps_shape :: "(ustr \<Rightarrow> json option) \<Rightarrow> json option \<Rightarrow> json list option" where
  "steps_shape json_parse raw =
     (case (case raw of Some (JString t) \<Rightarrow> json_parse t | other \<Rightarrow> other) of
        Some (JArray items) \<Rightarrow> Some items
      | Some (JObject object) \<Rightarrow> Some [JObject object]
      | _ \<Rightarrow> None)"

definition general_hand :: "step_draft \<Rightarrow> step_draft" where
  "general_hand d =
     (if trim (draft_role d) = [] \<and> draft_new_agent d = None then d\<lparr>draft_role := WORKER_ROLE\<rparr> else d)"

definition plan_drafts ::
  "(ustr \<Rightarrow> json option) \<Rightarrow> (serde_error \<Rightarrow> ustr) \<Rightarrow> json option \<Rightarrow> (step_draft list \<times> ustr list, ustr) result"
where
  "plan_drafts json_parse serde_text raw =
     (case steps_shape json_parse raw of
        None \<Rightarrow> Err PLAN_SHAPE
      | Some items \<Rightarrow>
          (let results = read_items items;
               steps = List.map_filter (\<lambda>(_, _, r). case r of Ok s \<Rightarrow> Some s | Err _ \<Rightarrow> None) results;
               unreadable = List.map_filter (\<lambda>(item, i, r). case r of
                   Err e \<Rightarrow> Some (unreadable_line serde_text i item e) | Ok _ \<Rightarrow> None) results
           in if unreadable \<noteq> []
              then Err (capitalised (join_with (lit ''; '') unreadable) @
                     lit ''. Each step takes `key`, `role` or `new_agent`, `instructions`, and '' @
                     lit ''optionally `inputs`, `depends_on` and `acceptance`.'' @
                     (if steps = [] then []
                      else lit '' The other steps are fine; send them again unchanged with these fixed.''))
              else Ok (map (\<lambda>s. general_hand (read_draft s)) (match_waits_by_name steps),
                       foldl push_new [] (concat (map read_ignored steps)))))"

section \<open>What the reader keeps\<close>

lemma find_fst_Some: "List.find (\<lambda>(n, _). n = w) xs = Some (n, k) \<Longrightarrow> (n, k) \<in> set xs \<and> n = w"
  by (auto simp: find_Some_iff) (metis nth_mem)

lemma add_place_keys:
  "snd ` set (add_place keys key named alias) \<subseteq> insert key (snd ` set named)"
  by (auto simp: add_place_def Let_def)

lemma place_names_keys:
  "snd ` set (place_names keys named e) \<subseteq>
     insert (draft_key (read_draft (snd e))) (snd ` set named)"
proof -
  obtain idx step where e: "e = (idx, step)" by (cases e)
  let ?k = "draft_key (read_draft step)"
  let ?one = "add_place keys ?k named (show_nat (idx + 1))"
  have "snd ` set (add_place keys ?k ?one (lit ''step-'' @ show_nat (idx + 1))) \<subseteq>
      insert ?k (snd ` set ?one)" by (rule add_place_keys)
  also have "\<dots> \<subseteq> insert ?k (snd ` set named)"
    using add_place_keys [of keys ?k named "show_nat (idx + 1)"] by blast
  finally show ?thesis by (simp add: place_names_def e)
qed

lemma place_names_fold:
  "snd ` set (foldl (place_names keys) named es) \<subseteq>
     snd ` set named \<union> (\<lambda>e. draft_key (read_draft (snd e))) ` set es"
proof (induction es arbitrary: named)
  case (Cons e es)
  have "snd ` set (foldl (place_names keys) (place_names keys named e) es) \<subseteq>
      snd ` set (place_names keys named e) \<union> (\<lambda>e. draft_key (read_draft (snd e))) ` set es"
    by (rule Cons.IH)
  also have "\<dots> \<subseteq> snd ` set named \<union> (\<lambda>e. draft_key (read_draft (snd e))) ` set (e # es)"
    using place_names_keys [of keys named e] by (simp only: list.set image_insert) blast
  finally show ?case by simp
qed simp

lemma named_steps_keys: "snd ` set (named_steps steps) \<subseteq> (\<lambda>s. draft_key (read_draft s)) ` set steps"
proof -
  let ?named = "concat (map (\<lambda>s. map (\<lambda>n. (wait_slug n, draft_key (read_draft s))) (read_names s)) steps)"
  have named: "snd ` set ?named \<subseteq> (\<lambda>s. draft_key (read_draft s)) ` set steps" by auto
  have "snd e \<in> set steps" if "e \<in> set (enumerate 0 steps)" for e
    using imageI [OF that, of snd] by (metis list.set_map map_snd_enumerate)
  then have "(\<lambda>e. draft_key (read_draft (snd e))) ` set (enumerate 0 steps) \<subseteq>
      (\<lambda>s. draft_key (read_draft s)) ` set steps"
    by blast
  with named show ?thesis
    unfolding named_steps_def by (rule subset_trans [OF place_names_fold Un_least])
qed

lemma match_wait_key:
  "match_wait keys (named_steps steps) wait \<in> insert wait ((\<lambda>s. draft_key (read_draft s)) ` set steps)"
proof (cases "List.find (\<lambda>(n, _). n = wait_slug wait) (named_steps steps)")
  case None
  then show ?thesis by (simp add: match_wait_def Let_def)
next
  case (Some found)
  obtain n k where found: "found = (n, k)" by (cases found)
  from Some have "snd found \<in> snd ` set (named_steps steps)"
    using find_fst_Some [of "wait_slug wait" "named_steps steps" "fst found" "snd found"] by force
  then have "snd found \<in> (\<lambda>s. draft_key (read_draft s)) ` set steps"
    using named_steps_keys by (rule rev_subsetD)
  then show ?thesis using Some found by (simp add: match_wait_def Let_def)
qed

section \<open>A step without a key\<close>

lemma find_known_None:
  "squash n \<notin> squash ` set known \<Longrightarrow> List.find (\<lambda>k. squash k = squash n) known = None"
  by (induction known) auto

lemma place_near_unknown:
  assumes "list_all (\<lambda>(n, _). squash n \<notin> squash ` set STEP_DRAFT_FIELDS) extra"
  shows "foldl place_near (read, unread) extra = (read, unread @ extra)"
  using assms
proof (induction extra arbitrary: unread)
  case (Cons e extra)
  obtain n v where e: "e = (n, v)" by (cases e)
  then have "place_near (read, unread) e = (read, unread @ [e])"
    using Cons.prems by (simp add: place_near_def find_known_None)
  with Cons show ?case by simp
qed simp

lemma extra_not_exact:
  assumes "list_all (\<lambda>(n, _). squash n \<notin> squash ` set STEP_DRAFT_FIELDS) extra"
  shows "filter (\<lambda>(n, _). n \<in> set STEP_DRAFT_FIELDS) extra = []"
    "filter (\<lambda>(n, _). n \<notin> set STEP_DRAFT_FIELDS) extra = extra"
  using assms by (induction extra) auto

lemma fallback_key_not_blank:
  "fallback_key unread fallbacks = Some (key, rest) \<Longrightarrow> trim key \<noteq> []"
proof (induction fallbacks)
  case (Cons f fs)
  then show ?case
    by (auto simp: trim_Nil_iff lit_def is_whitespace_def split: option.splits json.splits if_splits)
qed simp

definition extra_key :: "json_object \<Rightarrow> nat \<Rightarrow> ustr" where
  "extra_key extra pos =
     (case fallback_key extra KEY_FALLBACKS of
        Some (key, _) \<Rightarrow> key | None \<Rightarrow> lit ''step-'' @ show_nat pos)"

lemma extra_key_not_blank: "trim (extra_key extra pos) \<noteq> []"
  using fallback_key_not_blank [of extra KEY_FALLBACKS]
  by (auto simp: extra_key_def trim_Nil_iff lit_def is_whitespace_def split: option.splits prod.splits)

lemma plain_draft_read:
  assumes "trim i \<noteq> []"
  shows "draft_from_value (JObject [(lit ''role'', JString r), (lit ''instructions'', JString i),
      (lit ''key'', JString k)]) =
    Ok \<lparr>draft_key = k, draft_role = r, draft_new_agent = None, draft_instructions = i,
        draft_inputs = [], draft_depends_on = [], draft_acceptance = None\<rparr>"
  using assms
  by (simp add: draft_from_value_def DRAFT_FIELDS_def field_named_def draft_field_bad_def not_string_def
      draft_of_fields_def string_field_def list_field_def string_or_lines_def
      optional_string_or_lines_def)

lemma supply_key_extra:
  assumes "read = [(lit ''role'', JString r), (lit ''instructions'', JString i)]"
  shows "fst (supply_key read extra pos) = read @ [(lit ''key'', JString (extra_key extra pos))]"
  using assms
  by (simp add: supply_key_def keyed_def KEY_FIELDS_def extra_key_def split: option.splits prod.splits)

lemma read_items_all_Ok:
  assumes "List.map_filter (\<lambda>(item, i, r). case r of
      Err e \<Rightarrow> Some (f i item e) | Ok _ \<Rightarrow> None) (read_items items) = []"
  shows "length (List.map_filter (\<lambda>(_, _, r). case r of Ok s \<Rightarrow> Some s | Err _ \<Rightarrow> None)
    (read_items items)) = length items"
proof -
  have "is_ok r" if "(item, i, r) \<in> set (read_items items)" for item i r
    using assms that by (cases r) (auto simp: map_filter_def filter_empty_conv)
  then have "filter (\<lambda>x. (case x of (_, _, r) \<Rightarrow> case r of Ok s \<Rightarrow> Some s | Err _ \<Rightarrow> None) \<noteq> None)
      (read_items items) = read_items items"
    by (auto simp: filter_id_conv split: result.splits) fastforce
  then show ?thesis by (simp add: map_filter_def read_items_def comp_def)
qed

section \<open>Properties\<close>

text \<open>
  Extra fields never cost a planner its plan: a step that gives a role and non-blank
  instructions is read whatever other fields it carries, as long as none is spelt like a field a
  step reads; and it always has a key that is not blank, taken from a name-like field or else from
  its place.
\<close>

theorem extra_fields_harmless:
  assumes "trim i \<noteq> []"
    and "list_all (\<lambda>(n, _). squash n \<notin> squash ` set STEP_DRAFT_FIELDS) extra"
  shows "\<exists>step. read_step_draft (JObject ((lit ''role'', JString r) #
      (lit ''instructions'', JString i) # extra)) pos = Ok step \<and>
    read_draft step = \<lparr>draft_key = extra_key extra pos, draft_role = r, draft_new_agent = None,
      draft_instructions = i, draft_inputs = [], draft_depends_on = [], draft_acceptance = None\<rparr> \<and>
    trim (draft_key (read_draft step)) \<noteq> []"
proof -
  let ?read = "[(lit ''role'', JString r), (lit ''instructions'', JString i)]"
  have exact: "filter (\<lambda>(n, _). n \<in> set STEP_DRAFT_FIELDS) (?read @ extra) = ?read"
    and near: "filter (\<lambda>(n, _). n \<notin> set STEP_DRAFT_FIELDS) (?read @ extra) = extra"
    using extra_not_exact [OF assms(2)] by (simp_all add: STEP_DRAFT_FIELDS_def)
  have agent: "drop_bad_agent ?read = (?read, [])" by (simp add: drop_bad_agent_def)
  have numbers: "foldl number_key (?read, ns) KEY_FIELDS = (?read, ns)" for ns
    by (simp add: KEY_FIELDS_def number_key_def)
  obtain left where key: "supply_key ?read extra pos =
      (?read @ [(lit ''key'', JString (extra_key extra pos))], left)"
    using supply_key_extra [OF refl, of r i extra pos] by (metis prod.collapse)
  have "\<exists>step. read_step_draft (JObject (?read @ extra)) pos = Ok step \<and>
    read_draft step = \<lparr>draft_key = extra_key extra pos, draft_role = r, draft_new_agent = None,
      draft_instructions = i, draft_inputs = [], draft_depends_on = [], draft_acceptance = None\<rparr>"
    unfolding read_step_draft_def json.case Let_def exact near agent prod.case
      place_near_unknown [OF assms(2)] numbers append_Nil key
    using plain_draft_read [OF assms(1), of r "extra_key extra pos"] by simp
  then show ?thesis using extra_key_not_blank by auto
qed

theorem extra_fields_harmless_witness:
  "\<exists>step. read_step_draft (JObject [(lit ''role'', JString (lit ''Worker'')),
      (lit ''instructions'', JString (lit ''Look it up.'')), (lit ''Title'', JString (lit ''Find it''))]) 2 =
      Ok step \<and> draft_key (read_draft step) = lit ''Find it''"
proof -
  let ?extra = "[(lit ''Title'', JString (lit ''Find it''))]"
  have unknown: "list_all (\<lambda>(n, _). squash n \<notin> squash ` set STEP_DRAFT_FIELDS) ?extra"
    by (simp add: squash_def STEP_DRAFT_FIELDS_def ascii_alphanumeric_def text_simps)
  have "extra_key ?extra 2 = lit ''Find it''"
    by (simp add: extra_key_def KEY_FALLBACKS_def squash_def ascii_alphanumeric_def text_simps)
  with extra_fields_harmless [OF _ unknown, of "lit ''Look it up.''" "lit ''Worker''" 2]
  show ?thesis by (force simp: text_simps)
qed

text \<open>
  Rewriting waits only ever points them at steps of the same plan: each wait stays as written or
  becomes the key of one of the steps, a wait that already names a key stays, and nothing else of
  any step changes.
\<close>

theorem waits_point_into_plan:
  "list_all2 (\<lambda>s s'.
       s' = s\<lparr>read_draft := (read_draft s)\<lparr>draft_depends_on := draft_depends_on (read_draft s')\<rparr>\<rparr> \<and>
       list_all2 (\<lambda>w w'. w' = w \<or>
           wait_slug w \<notin> (\<lambda>s. wait_slug (draft_key (read_draft s))) ` set steps \<and>
           w' \<in> (\<lambda>s. draft_key (read_draft s)) ` set steps)
         (draft_depends_on (read_draft s)) (draft_depends_on (read_draft s')))
     steps (match_waits_by_name steps)"
proof -
  let ?keys = "map (\<lambda>s. wait_slug (draft_key (read_draft s))) steps"
  have stays: "match_wait ?keys (named_steps steps) w = w" if "wait_slug w \<in> set ?keys" for w
    using that unfolding match_wait_def Let_def by (rule if_P)
  have wait: "match_wait ?keys (named_steps steps) w = w \<or>
      wait_slug w \<notin> (\<lambda>s. wait_slug (draft_key (read_draft s))) ` set steps \<and>
      match_wait ?keys (named_steps steps) w \<in> (\<lambda>s. draft_key (read_draft s)) ` set steps" for w
    using match_wait_key [of ?keys steps w] stays [of w] unfolding set_map by blast
  show ?thesis
    unfolding match_waits_by_name_def Let_def list_all2_map2
    by (rule list_all2I) (auto simp: list_all2_map2 set_zip intro!: list_all2_refl wait)
qed

text \<open>
  No step of a plan is dropped in silence: when a call's steps are accepted, there is one draft
  for each step sent, and each has a role or an agent of its own.
\<close>

theorem plan_drafts_complete:
  assumes "steps_shape json_parse raw = Some items"
    and "plan_drafts json_parse serde_text raw = Ok (drafts, ignored)"
  shows "length drafts = length items \<and>
    list_all (\<lambda>d. trim (draft_role d) \<noteq> [] \<or> draft_new_agent d \<noteq> None) drafts"
proof -
  let ?steps = "List.map_filter (\<lambda>(_, _, r). case r of Ok s \<Rightarrow> Some s | Err _ \<Rightarrow> None) (read_items items)"
  have none: "List.map_filter (\<lambda>(item, i, r). case r of
      Err e \<Rightarrow> Some (unreadable_line serde_text i item e) | Ok _ \<Rightarrow> None) (read_items items) = []"
    and drafts: "drafts = map (\<lambda>s. general_hand (read_draft s)) (match_waits_by_name ?steps)"
    using assms by (simp_all add: plan_drafts_def Let_def split: if_splits)
  have "trim WORKER_ROLE \<noteq> []" by (simp add: WORKER_ROLE_def text_simps)
  then have "trim (draft_role (general_hand d)) \<noteq> [] \<or> draft_new_agent (general_hand d) \<noteq> None" for d
    by (simp add: general_hand_def)
  then show ?thesis
    using read_items_all_Ok [OF none] unfolding drafts
    by (simp add: match_waits_by_name_def Let_def list_all_iff)
qed

theorem plan_drafts_complete_witness:
  "\<exists>drafts ignored. plan_drafts (\<lambda>_. None) (\<lambda>_. []) (Some (JObject [(lit ''role'', JString (lit ''Worker'')),
      (lit ''instructions'', JString (lit ''Look it up.''))])) = Ok (drafts, ignored) \<and> length drafts = 1"
proof -
  let ?item = "JObject [(lit ''role'', JString (lit ''Worker'')),
      (lit ''instructions'', JString (lit ''Look it up.''))]"
  have shape: "steps_shape (\<lambda>_. None) (Some ?item) = Some [?item]" by (simp add: steps_shape_def)
  obtain step where "read_step_draft ?item 1 = Ok step"
    using extra_fields_harmless [of "lit ''Look it up.''" "[]" "lit ''Worker''" 1]
    by (auto simp: text_simps)
  then have "\<exists>drafts ignored. plan_drafts (\<lambda>_. None) (\<lambda>_. []) (Some ?item) = Ok (drafts, ignored)"
    by (simp add: plan_drafts_def shape read_items_def map_filter_def Let_def)
  with plan_drafts_complete [OF shape] show ?thesis by fastforce
qed

text \<open>
  A step whose \<open>id\<close> is null is refused, although a step with no key at all, or with a null
  \<open>key\<close>, takes one from its name or its place: the null stays under its alias beside the supplied
  key.
\<close>

theorem null_id_refused:
  "read_step_draft (JObject [(lit ''id'', JNull), (lit ''role'', JString r),
     (lit ''instructions'', JString i)]) pos = Err (InvalidType JNull) \<and>
   (trim i \<noteq> [] \<longrightarrow> is_ok (read_step_draft (JObject [(lit ''key'', JNull), (lit ''role'', JString r),
     (lit ''instructions'', JString i)]) pos))"
  by (simp add: read_step_draft_def STEP_DRAFT_FIELDS_def drop_bad_agent_def KEY_FIELDS_def
      number_key_def supply_key_def keyed_def KEY_FALLBACKS_def draft_from_value_def DRAFT_FIELDS_def
      field_named_def draft_field_bad_def not_string_def draft_of_fields_def Let_def)

theorem null_id_refused_witness:
  "is_ok (read_step_draft (JObject [(lit ''key'', JNull), (lit ''role'', JString (lit ''Worker'')),
     (lit ''instructions'', JString (lit ''Look.''))]) 1)"
  using null_id_refused [of "lit ''Worker''" "lit ''Look.''" 1] by (simp add: text_simps)

end
