(* ===== verification/Step_Bindings.thy ===== *)
theory Step_Bindings
  imports Profile_Scope Step_Outcome Step_Key
begin

text \<open>
  Which run a helper works for: \<open>pond-core/src/shared/services/step_bindings.rs\<close> and
  \<open>child_sessions.rs\<close>. Both registries lease their entries: an entry lives from \<open>bind\<close> until its lease
  drops. The locale \<open>lease_registry\<close> states that contract once, as the value a history of binds and
  drops leaves, and both registries are instances of it. The locks make each operation one step; a
  poisoned lock is entered all the same, so an operation never fails for it.
\<close>

section \<open>What a bound run does\<close>

datatype step_work = PlanWork | DoWork step_key | CheckWork step_key

fun work_step_key :: "step_work \<Rightarrow> step_key option" where
  "work_step_key PlanWork = None"
| "work_step_key (DoWork key) = Some key"
| "work_step_key (CheckWork key) = Some key"

record step_binding =
  sb_task_id :: ustr
  sb_scope :: profile_scope
  sb_work :: step_work

record binding_entry =
  ent_binding :: step_binding
  ent_report :: "step_outcome option"
  ent_written :: "ustr list"

type_synonym step_bindings = "ustr \<rightharpoonup> binding_entry"

record live_child =
  child_parent :: ustr
  child_scope :: profile_scope

type_synonym child_registry = "ustr \<rightharpoonup> live_child"

section \<open>The child sessions\<close>

definition child_bind :: "ustr \<Rightarrow> live_child \<Rightarrow> child_registry \<Rightarrow> child_registry" where
  "child_bind child live children = children(child \<mapsto> live)"

definition parent_of :: "child_registry \<Rightarrow> ustr \<Rightarrow> ustr option" where
  "parent_of children child = map_option child_parent (children child)"

definition scope_of :: "child_registry \<Rightarrow> ustr \<Rightarrow> profile_scope option" where
  "scope_of children child = map_option child_scope (children child)"

definition live_children :: "child_registry \<Rightarrow> nat" where
  "live_children children = card (dom children)"

definition child_drop :: "ustr \<Rightarrow> child_registry \<Rightarrow> child_registry" where
  "child_drop child children = children(child := None)"

section \<open>The step bindings\<close>

definition run_bind :: "ustr \<Rightarrow> step_binding \<Rightarrow> step_bindings \<Rightarrow> step_bindings" where
  "run_bind root b bs = bs(root \<mapsto> \<lparr>ent_binding = b, ent_report = None, ent_written = []\<rparr>)"

definition binding_for :: "step_bindings \<Rightarrow> ustr \<Rightarrow> step_binding option" where
  "binding_for bs root = map_option ent_binding (bs root)"

definition binding_for_helper :: "step_bindings \<Rightarrow> child_registry \<Rightarrow> ustr \<Rightarrow> step_binding option" where
  "binding_for_helper bs children helper = Option.bind (parent_of children helper) (binding_for bs)"

definition report_run :: "ustr \<Rightarrow> step_outcome \<Rightarrow> step_bindings \<Rightarrow> bool \<times> step_bindings" where
  "report_run root outcome bs =
     (case bs root of
        Some entry \<Rightarrow> (True, bs(root \<mapsto> entry\<lparr>ent_report := Some outcome\<rparr>))
      | None \<Rightarrow> (False, bs))"

definition written_by :: "step_bindings \<Rightarrow> ustr \<Rightarrow> ustr list" where
  "written_by bs root = (case bs root of Some entry \<Rightarrow> ent_written entry | None \<Rightarrow> [])"

definition note_artifact :: "ustr \<Rightarrow> ustr \<Rightarrow> step_bindings \<Rightarrow> step_bindings" where
  "note_artifact root artifact_id bs =
     (case bs root of
        Some entry \<Rightarrow> bs(root \<mapsto> entry\<lparr>ent_written := ent_written entry @ [artifact_id]\<rparr>)
      | None \<Rightarrow> bs)"

definition is_reported :: "step_bindings \<Rightarrow> ustr \<Rightarrow> bool" where
  "is_reported bs root = (case bs root of Some entry \<Rightarrow> ent_report entry \<noteq> None | None \<Rightarrow> False)"

definition take_report :: "ustr \<Rightarrow> step_bindings \<Rightarrow> step_outcome option \<times> step_bindings" where
  "take_report root bs =
     (case bs root of
        Some entry \<Rightarrow> (ent_report entry, bs(root \<mapsto> entry\<lparr>ent_report := None\<rparr>))
      | None \<Rightarrow> (None, bs))"

definition take_written :: "ustr \<Rightarrow> step_bindings \<Rightarrow> ustr list \<times> step_bindings" where
  "take_written root bs =
     (case bs root of
        Some entry \<Rightarrow> (ent_written entry, bs(root \<mapsto> entry\<lparr>ent_written := []\<rparr>))
      | None \<Rightarrow> ([], bs))"

definition run_drop :: "ustr \<Rightarrow> step_bindings \<Rightarrow> step_bindings" where
  "run_drop root bs = bs(root := None)"

section \<open>Leased registries\<close>

text \<open>A history of binds and drops, newest first, and the value it leaves for a key.\<close>

datatype ('k, 'v) lease_event = Bound 'k 'v | Dropped 'k

fun leased :: "('k, 'v) lease_event list \<Rightarrow> 'k \<Rightarrow> 'v option" where
  "leased [] k = None"
| "leased (Bound k' v # older) k = (if k = k' then Some v else leased older k)"
| "leased (Dropped k' # older) k = (if k = k' then None else leased older k)"

fun replay :: "('k \<Rightarrow> 'v \<Rightarrow> 'm \<Rightarrow> 'm) \<Rightarrow> ('k \<Rightarrow> 'm \<Rightarrow> 'm) \<Rightarrow> 'm \<Rightarrow> ('k, 'v) lease_event list \<Rightarrow> 'm" where
  "replay bind release none [] = none"
| "replay bind release none (Bound k v # older) = bind k v (replay bind release none older)"
| "replay bind release none (Dropped k # older) = release k (replay bind release none older)"

locale lease_registry =
  fixes bind :: "'k \<Rightarrow> 'v \<Rightarrow> 'm \<Rightarrow> 'm"
    and lookup :: "'m \<Rightarrow> 'k \<Rightarrow> 'v option"
    and release :: "'k \<Rightarrow> 'm \<Rightarrow> 'm"
    and none :: 'm
  assumes lookup_none: "lookup none k = None"
    and lookup_bind: "lookup (bind k v m) k' = (if k' = k then Some v else lookup m k')"
    and lookup_release: "lookup (release k m) k' = (if k' = k then None else lookup m k')"
begin

lemma lookup_replay: "lookup (replay bind release none history) k = leased history k"
  by (induction history k rule: leased.induct)
     (simp_all add: lookup_none lookup_bind lookup_release)

end

interpretation runs: lease_registry run_bind binding_for run_drop Map.empty
  by unfold_locales (simp_all add: run_bind_def binding_for_def run_drop_def)

interpretation children: lease_registry child_bind "\<lambda>m k. m k" child_drop Map.empty
  by unfold_locales (simp_all add: child_bind_def child_drop_def)

section \<open>The operations of a run leave its binding alone\<close>

lemma report_run_binding [simp]: "binding_for (snd (report_run root outcome bs)) r = binding_for bs r"
  by (auto simp: report_run_def binding_for_def split: option.splits)

lemma note_artifact_binding [simp]: "binding_for (note_artifact root a bs) r = binding_for bs r"
  by (auto simp: note_artifact_def binding_for_def split: option.splits)

lemma take_report_binding [simp]: "binding_for (snd (take_report root bs)) r = binding_for bs r"
  by (auto simp: take_report_def binding_for_def split: option.splits)

lemma take_written_binding [simp]: "binding_for (snd (take_written root bs)) r = binding_for bs r"
  by (auto simp: take_written_def binding_for_def split: option.splits)

section \<open>What waits for the runner\<close>

text \<open>What the helpers of all runs do to the registry while they work.\<close>

datatype run_call = CallReport ustr step_outcome | CallNote ustr ustr

fun apply_call :: "step_bindings \<Rightarrow> run_call \<Rightarrow> step_bindings" where
  "apply_call bs (CallReport root outcome) = snd (report_run root outcome bs)"
| "apply_call bs (CallNote root artifact_id) = note_artifact root artifact_id bs"

text \<open>The last report and the saves of one run among the calls.\<close>

fun last_report :: "ustr \<Rightarrow> run_call list \<Rightarrow> step_outcome option \<Rightarrow> step_outcome option" where
  "last_report root [] acc = acc"
| "last_report root (CallReport r outcome # calls) acc =
     last_report root calls (if r = root then Some outcome else acc)"
| "last_report root (CallNote _ _ # calls) acc = last_report root calls acc"

fun saves_of :: "ustr \<Rightarrow> run_call list \<Rightarrow> ustr list" where
  "saves_of root [] = []"
| "saves_of root (CallReport _ _ # calls) = saves_of root calls"
| "saves_of root (CallNote r a # calls) = (if r = root then a # saves_of root calls else saves_of root calls)"

lemma call_entry:
  assumes "bs root = Some entry"
  shows "apply_call bs call root =
    Some (entry\<lparr>ent_report := last_report root [call] (ent_report entry),
                ent_written := ent_written entry @ saves_of root [call]\<rparr>)"
  using assms by (cases call) (auto simp: report_run_def note_artifact_def split: option.splits)

lemma last_report_Cons:
  "last_report root (call # calls) acc = last_report root calls (last_report root [call] acc)"
  by (cases call) simp_all

lemma saves_of_Cons: "saves_of root (call # calls) = saves_of root [call] @ saves_of root calls"
  by (cases call) simp_all

lemma calls_entry:
  assumes "bs root = Some entry"
  shows "foldl apply_call bs calls root =
    Some (entry\<lparr>ent_report := last_report root calls (ent_report entry),
                ent_written := ent_written entry @ saves_of root calls\<rparr>)"
  using assms
proof (induction calls arbitrary: bs entry)
  case (Cons call calls)
  let ?entry = "entry\<lparr>ent_report := last_report root [call] (ent_report entry),
                ent_written := ent_written entry @ saves_of root [call]\<rparr>"
  have "apply_call bs call root = Some ?entry" using Cons.prems by (rule call_entry)
  then show ?case
    using Cons.IH [of "apply_call bs call" ?entry]
    by (simp only: foldl.simps last_report_Cons [of root call calls] saves_of_Cons [of root call calls])
       simp
qed simp

section \<open>Properties\<close>


text \<open>
  A hand-back waits for its runner, once: whatever reports and saves the helpers of any runs
  make after a run is bound, in any interleaving, its runner takes exactly its own last report and
  its own saves in order; a second taking finds nothing, and once the lease has dropped a late
  report is refused and a late save changes nothing.
\<close>

theorem hand_back_taken_once:
  "let working = foldl apply_call (run_bind root b bs) calls;
       (report, taken) = take_report root working;
       (saves, emptied) = take_written root taken
   in report = last_report root calls None \<and> saves = saves_of root calls \<and>
      fst (take_report root emptied) = None \<and> fst (take_written root emptied) = [] \<and>
      report_run root late (run_drop root emptied) = (False, run_drop root emptied) \<and>
      note_artifact root a (run_drop root emptied) = run_drop root emptied"
proof -
  have "run_bind root b bs root = Some \<lparr>ent_binding = b, ent_report = None, ent_written = []\<rparr>"
    by (simp add: run_bind_def)
  then show ?thesis
    using calls_entry [of "run_bind root b bs" root "\<lparr>ent_binding = b, ent_report = None, ent_written = []\<rparr>" calls]
    by (simp add: take_report_def take_written_def run_drop_def report_run_def note_artifact_def Let_def)
qed

end
