(* ===== verification/Task_Work.thy ===== *)
theory Task_Work
  imports Plan_Reader Step_Bindings Long_Task_Store Long_Task_Runner
begin

text \<open>
  The tools a helper works with: the server \<open>giap-task-work\<close> of \<open>pond-mcp-server/src/long_task.rs\<close>.
  A call reaches its task only through the caller's engine session, the parent that session works
  for and the run that parent is bound to. The session a call carries is an argument
  (\<open>session_from_meta\<close> reads it off the protocol's metadata), as are the clock and fresh ids. A refusal
  keeps the domain's error as a value where the code keeps its text. The store's reads do not fail
  here, and its writes fail as the ledger says.
\<close>

section \<open>Refusals\<close>

datatype rejection =
    RejectedOutcome outcome_error
  | RejectedPlan plan_error
  | RejectedStale stale_plan
  | RejectedArtifact artifact_error
  | RejectedTask long_task_error
  | RejectedText ustr

datatype refusal =
    Unavailable ustr
  | NotHere ustr
  | GuestRefused
  | NotInAStep ustr
  | Malformed ustr
  | UnknownTask ustr
  | AlreadyFinished long_task_state
  | UnknownArtifact ustr
  | UnknownArtifacts "ustr list"
  | NotThePlanner
  | NotAWorker
  | PlannerDoesNotReport
  | ReportTooLate
  | Rejected rejection
  | StoreFailed store_error

fun refusal_trace :: "refusal \<Rightarrow> ustr" where
  "refusal_trace (Unavailable trace) = trace"
| "refusal_trace (NotHere trace) = trace"
| "refusal_trace (NotInAStep trace) = trace"
| "refusal_trace (UnknownTask trace) = trace"
| "refusal_trace GuestRefused = lit ''guest''"
| "refusal_trace (Malformed _) = lit ''malformed_request''"
| "refusal_trace (AlreadyFinished _) = lit ''already_finished''"
| "refusal_trace (UnknownArtifact _) = lit ''unknown_artifact''"
| "refusal_trace (UnknownArtifacts _) = lit ''unknown_artifacts''"
| "refusal_trace NotThePlanner = lit ''not_the_planner''"
| "refusal_trace NotAWorker = lit ''not_a_worker''"
| "refusal_trace PlannerDoesNotReport = lit ''planner_does_not_report''"
| "refusal_trace ReportTooLate = lit ''report_too_late''"
| "refusal_trace (Rejected _) = lit ''rejected''"
| "refusal_trace (StoreFailed _) = lit ''store_failed''"

section \<open>Lenient arguments\<close>

text \<open>The unnamed arguments of a call, by name. Taking one removes it, which no later argument of the same
  call can see: no two of them share an alias.\<close>

type_synonym extra_args = "ustr \<rightharpoonup> json"

fun take_alias :: "extra_args \<Rightarrow> ustr list \<Rightarrow> ustr option" where
  "take_alias extra [] = None"
| "take_alias extra (alias # aliases) =
     (case Option.bind (extra alias) json_as_str of
        Some v \<Rightarrow> if trim v \<noteq> [] then Some (trim v) else take_alias extra aliases
      | None \<Rightarrow> take_alias extra aliases)"

fun take_value :: "extra_args \<Rightarrow> ustr list \<Rightarrow> json option" where
  "take_value extra [] = None"
| "take_value extra (alias # aliases) =
     (case extra alias of
        Some v \<Rightarrow> if v \<noteq> JNull then Some v else take_value extra aliases
      | None \<Rightarrow> take_value extra aliases)"

definition or_else :: "'a option \<Rightarrow> 'a option \<Rightarrow> 'a option" where
  "or_else x y = (case x of Some _ \<Rightarrow> x | None \<Rightarrow> y)"

definition token_count :: "json option \<Rightarrow> ustr \<Rightarrow> (u32 option, refusal) result" where
  "token_count v field =
     (let bad = Err (Malformed (lit ''`'' @ field @ lit ''` must be a whole number of tokens, 0 or more.''));
          checked = (\<lambda>p. case p of None \<Rightarrow> bad | Some n \<Rightarrow> Ok (Some (u32_from_usize n)))
      in case v of
           None \<Rightarrow> Ok None
         | Some JNull \<Rightarrow> Ok None
         | Some (JNumber n) \<Rightarrow> checked (parse_unsigned 64 n)
         | Some (JString t) \<Rightarrow> checked (parse_unsigned 64 (trim t))
         | Some _ \<Rightarrow> bad)"

definition says_yes :: "json option \<Rightarrow> bool" where
  "says_yes v =
     (case v of
        Some (JBool yes) \<Rightarrow> yes
      | Some (JString t) \<Rightarrow> to_ascii_lowercase (trim t) \<in> {lit ''true'', lit ''yes''}
      | _ \<Rightarrow> False)"

definition ARTIFACT_ID_ALIASES :: "ustr list" where
  "ARTIFACT_ID_ALIASES = map lit [''artifact_id'', ''artifact'']"
definition FROM_ALIASES :: "ustr list" where
  "FROM_ALIASES = map lit [''from'', ''start'', ''offset'']"
definition TO_ALIASES :: "ustr list" where
  "TO_ALIASES = map lit [''to'', ''end'']"
definition TITLE_ALIASES :: "ustr list" where
  "TITLE_ALIASES = map lit [''name'']"
definition ANSWER_ALIASES :: "ustr list" where
  "ANSWER_ALIASES = map lit [''answer_shape'', ''length'', ''shape'']"
definition FINISH_ALIASES :: "ustr list" where
  "FINISH_ALIASES = map lit [''done'', ''final'', ''last'']"
definition SUMMARY_ALIASES :: "ustr list" where
  "SUMMARY_ALIASES = map lit [''description'', ''one_line'']"
definition BODY_ALIASES :: "ustr list" where
  "BODY_ALIASES = map lit [''content'', ''text'', ''contents'']"
definition MAX_SHORT_STEPS :: nat where "MAX_SHORT_STEPS = 2"
definition ARTIFACT_READ_WINDOW_TOKENS :: u32 where "ARTIFACT_READ_WINDOW_TOKENS = 1500"

record artifact_read_params =
  rd_id :: "ustr option"
  rd_from :: "json option"
  rd_to :: "json option"
  rd_extra :: extra_args

record artifact_write_params =
  wr_kind :: "ustr option"
  wr_title :: "ustr option"
  wr_summary :: "ustr option"
  wr_body :: "json option"
  wr_finish :: "json option"
  wr_extra :: extra_args

record plan_write_params =
  pw_steps :: "json option"
  pw_answer :: "json option"
  pw_extra :: extra_args

section \<open>Texts\<close>

definition ascii_alphabetic :: "uchar \<Rightarrow> bool" where
  "ascii_alphabetic c \<longleftrightarrow> ascii_lower_char c \<or> ascii_upper_char c"

definition bare_address :: "ustr \<Rightarrow> bool" where
  "bare_address address \<longleftrightarrow>
     (let host = hd (split_on (\<lambda>c. c = 47) address); tld = last (split_on (\<lambda>c. c = 46) host) in
      find_sub (lit ''://'') address = None \<and>
      \<not> (address \<noteq> [] \<and> hd address \<in> {47, 35, 46}) \<and>
      \<not> prefix (lit ''mailto:'') address \<and>
      46 \<in> set host \<and> utf8_len tld \<ge> 2 \<and> list_all ascii_alphabetic tld)"

text \<open>The target of one link, up to its closing parenthesis, and what replaces it.\<close>

definition absolute_target :: "ustr \<Rightarrow> bool \<Rightarrow> ustr" where
  "absolute_target link closed =
     (let sep = (\<lambda>c. c = 44 \<or> c = 32);
          address = takeWhile (\<lambda>c. \<not> sep c) link;
          extra = dropWhile sep (dropWhile (\<lambda>c. \<not> sep c) link)
      in if \<not> bare_address address then link
         else lit ''https://'' @ address @
              (if extra \<noteq> [] \<and> closed then lit '') ('' @ extra else []))"

function absolute_links :: "ustr \<Rightarrow> ustr" where
  "absolute_links rest =
     (case find_sub (lit '']('') rest of
        None \<Rightarrow> rest
      | Some i \<Rightarrow>
          (let after_open = drop (i + 2) rest;
               link = takeWhile (\<lambda>c. c \<noteq> 41) after_open;
               tail = dropWhile (\<lambda>c. c \<noteq> 41) after_open
           in take (i + 2) rest @ absolute_target link (tail \<noteq> []) @ absolute_links tail))"
  by auto
termination absolute_links
proof (relation "measure length", goal_cases)
  case (2 rest i after_open link tail)
  have "length tail \<le> length rest - (i + 2)"
    using 2(2,4) length_dropWhile_le [of "\<lambda>c. c \<noteq> 41" after_open] by simp
  moreover have "i + 2 \<le> length rest" using find_sub_bound [OF 2(1)] by simp
  ultimately show ?case by simp
qed simp

declare absolute_links.simps [simp del]

text \<open>A page of an artifact; \<open>None\<close> would be a panic on a cut inside a character.\<close>

definition read_window :: "artifact \<Rightarrow> u32 \<Rightarrow> u32 option \<Rightarrow> ustr option" where
  "read_window a from asked_to =
     (let whole = art_tokens a in
      if from \<ge> whole
      then Some (lit ''Artifact `'' @ art_id a @ lit ''` has '' @ show_nat (unat whole) @
                 lit '' tokens, so nothing starts at token '' @ show_nat (unat from) @
                 lit ''. Read from from_token 0.'')
      else
        (let limit = saturating_add from ARTIFACT_READ_WINDOW_TOKENS;
             until = min (min (case asked_to of None \<Rightarrow> limit | Some t \<Rightarrow> t) limit) whole
         in if until \<le> from
            then Some (lit ''`to_token` must be after `from_token` ('' @ show_nat (unat from) @
                       lit ''). Leave it out to read the next 1500 tokens.'')
            else map_option (\<lambda>page.
                   lit ''Artifact `'' @ art_id a @ lit ''`, '' @ [34] @ art_title a @ [34] @
                   lit '': tokens '' @ show_nat (unat from) @ lit '' to '' @ show_nat (unat until) @
                   lit '' of '' @ show_nat (unat whole) @ lit ''.'' @ newline @ newline @ page @
                   newline @ newline @
                   (if whole - until = 0 then lit ''That is the end of it.''
                    else show_nat (unat (whole - until)) @
                         lit '' tokens remain. For the next part, call artifact_read with from_token '' @
                         show_nat (unat until) @ lit ''.''))
                   (artifact_slice (art_body a) from until)))"

definition list_line :: "artifact_summary \<Rightarrow> ustr" where
  "list_line a =
     lit ''- `'' @ as_id a @ lit ''` ('' @ artifact_kind_as_str (as_kind a) @ lit '', '' @
     show_nat (unat (as_tokens a)) @ lit '' tokens'' @
     (case as_step_key a of None \<Rightarrow> [] | Some key \<Rightarrow> lit '', from step `'' @ key @ lit ''`'') @
     lit '') '' @ as_title a @ lit '': '' @ as_summary a"

section \<open>Naming artifacts\<close>

definition artifact_called :: "artifact_summary list \<Rightarrow> ustr \<Rightarrow> ustr option" where
  "artifact_called held raw =
     (let wanted = trim raw in
      map_option as_id
        (or_else (List.find (\<lambda>a. as_id a = wanted) held)
           (max_by_key as_created_at (filter (\<lambda>a. eq_ignore_ascii_case (trim (as_title a)) wanted) held))))"

definition name_artifacts ::
  "ustr list \<Rightarrow> artifact_summary list \<Rightarrow> ustr list \<Rightarrow> (ustr list, ustr list) result"
where
  "name_artifacts asked held written =
     (let ids = foldl push_new [] (List.map_filter (artifact_called held) asked);
          unknown = filter (\<lambda>raw. artifact_called held raw = None) asked
      in if unknown = [] then Ok ids
         else if written = [] then Err unknown
         else Ok (foldl push_new ids written))"

section \<open>The server\<close>

record work_state =
  ws_ledger :: ledger
  ws_bindings :: step_bindings
  ws_children :: child_registry

definition resolve_helper ::
  "bool \<Rightarrow> work_state \<Rightarrow> ustr option \<Rightarrow> (ustr \<times> step_binding, refusal) result"
where
  "resolve_helper installed st session =
     (if \<not> installed then Err (Unavailable (lit ''deps_not_installed''))
      else case session of
        None \<Rightarrow> Err (NotInAStep (lit ''no_engine_session''))
      | Some helper \<Rightarrow>
          (case parent_of (ws_children st) helper of
             None \<Rightarrow> Err (NotInAStep (lit ''not_a_live_child''))
           | Some root \<Rightarrow>
               (case binding_for (ws_bindings st) root of
                  None \<Rightarrow> Err (NotInAStep (lit ''run_not_bound''))
                | Some b \<Rightarrow> Ok (root, b))))"

definition run_list :: "bool \<Rightarrow> work_state \<Rightarrow> ustr option \<Rightarrow> (ustr, refusal) result" where
  "run_list installed st session =
     (case resolve_helper installed st session of
        Err e \<Rightarrow> Err e
      | Ok (root, b) \<Rightarrow>
          (let artifacts = list_artifacts (ws_ledger st) (sb_task_id b) in
           if artifacts = [] then Ok (lit ''This task has no saved artifacts yet.'')
           else Ok (join_with newline (lit ''Artifacts in this task:'' # map list_line artifacts))))"

text \<open>\<open>Ok None\<close> would be the panic of a page cut inside a character.\<close>

definition run_read ::
  "bool \<Rightarrow> work_state \<Rightarrow> ustr option \<Rightarrow> artifact_read_params \<Rightarrow> (ustr option, refusal) result"
where
  "run_read installed st session params =
     (case resolve_helper installed st session of
        Err e \<Rightarrow> Err e
      | Ok (root, b) \<Rightarrow>
          (case or_else (non_blank (rd_id params)) (take_alias (rd_extra params) ARTIFACT_ID_ALIASES) of
             None \<Rightarrow> Err (Malformed
               (lit ''artifact_read needs the `id` of an artifact. Call artifact_list to see them.''))
           | Some aid \<Rightarrow>
               (case token_count (or_else (rd_from params) (take_value (rd_extra params) FROM_ALIASES))
                       (lit ''from_token'') of
                  Err e \<Rightarrow> Err e
                | Ok from \<Rightarrow>
                    (case token_count (or_else (rd_to params) (take_value (rd_extra params) TO_ALIASES))
                            (lit ''to_token'') of
                       Err e \<Rightarrow> Err e
                     | Ok asked_to \<Rightarrow>
                         (case get_artifact (ws_ledger st) (sb_task_id b) aid of
                            None \<Rightarrow> Err (UnknownArtifact aid)
                          | Some a \<Rightarrow>
                              Ok (read_window a (case from of None \<Rightarrow> 0 | Some f \<Rightarrow> f) asked_to))))))"

fun is_do_work :: "step_work \<Rightarrow> bool" where
  "is_do_work (DoWork _) = True"
| "is_do_work _ = False"

definition written_kind :: "ustr option \<Rightarrow> (artifact_kind, refusal) result" where
  "written_kind raw =
     (case non_blank raw of
        None \<Rightarrow> Ok Note
      | Some k \<Rightarrow>
          (case artifact_kind_parse k of
             Some kind \<Rightarrow> Ok kind
           | None \<Rightarrow> Err (Malformed (lit ''`'' @ k @
               lit ''` is not a kind of artifact. Use note, findings, draft or data.''))))"

definition text_argument :: "ustr option \<Rightarrow> extra_args \<Rightarrow> ustr list \<Rightarrow> ustr" where
  "text_argument given extra aliases =
     (case or_else (non_blank given) (take_alias extra aliases) of None \<Rightarrow> [] | Some t \<Rightarrow> t)"

definition written_body :: "(json \<Rightarrow> ustr) \<Rightarrow> artifact_write_params \<Rightarrow> ustr" where
  "written_body json_text params =
     (case or_else (wr_body params) (take_value (wr_extra params) BODY_ALIASES) of
        None \<Rightarrow> []
      | Some v \<Rightarrow> absolute_links (value_text json_text v))"

text \<open>What is said and kept once the artifact is in the ledger.\<close>

definition finish_write ::
  "work_state \<Rightarrow> ustr \<Rightarrow> artifact \<Rightarrow> bool \<Rightarrow> ustr \<Rightarrow> (ustr, refusal) result \<times> work_state"
where
  "finish_write st root a finish said =
     (if \<not> finish
      then (Ok (lit ''Saved artifact `'' @ art_id a @ lit ''` ('' @ show_nat (unat (art_tokens a)) @
              lit '' tokens). Name it in step_report's artifacts so later '' @
              lit ''steps can find it, or save your last artifact with finish true.''), st)
      else
        (case report_run root
                (outcome_new OutcomeCompleted said (written_by (ws_bindings st) root) None)
                (ws_bindings st) of
           (kept, bs) \<Rightarrow>
             (if kept
              then Ok (lit ''Saved artifact `'' @ art_id a @
                     lit ''` and recorded the step as completed. Your step is done; stop here.'')
              else Err ReportTooLate, st\<lparr>ws_bindings := bs\<rparr>)))"

definition run_write ::
  "(json \<Rightarrow> ustr) \<Rightarrow> ustr \<Rightarrow> timestamp \<Rightarrow> bool \<Rightarrow> work_state \<Rightarrow> ustr option \<Rightarrow> artifact_write_params \<Rightarrow>
     (ustr, refusal) result \<times> work_state"
where
  "run_write json_text fresh_id now installed st session params =
     (case resolve_helper installed st session of
        Err e \<Rightarrow> (Err e, st)
      | Ok (root, b) \<Rightarrow>
          if \<not> is_do_work (sb_work b) then (Err NotAWorker, st)
          else
            (case written_kind (wr_kind params) of
               Err e \<Rightarrow> (Err e, st)
             | Ok kind \<Rightarrow>
                 (let title = text_argument (wr_title params) (wr_extra params) TITLE_ALIASES;
                      summary = text_argument (wr_summary params) (wr_extra params) SUMMARY_ALIASES;
                      body = written_body json_text params;
                      finish = says_yes
                        (or_else (wr_finish params) (take_value (wr_extra params) FINISH_ALIASES))
                  in case artifact_new fresh_id (sb_task_id b) (work_step_key (sb_work b)) kind title
                            summary body now of
                       Err e \<Rightarrow> (Err (Rejected (RejectedArtifact e)), st)
                     | Ok a \<Rightarrow>
                         (case insert_artifact (ws_ledger st) a of
                            Err e \<Rightarrow> (Err (StoreFailed e), st)
                          | Ok l \<Rightarrow>
                              finish_write
                                (st\<lparr>ws_ledger := l,
                                    ws_bindings := note_artifact root (art_id a) (ws_bindings st)\<rparr>)
                                root a finish (if summary = [] then title else summary)))))"

fun outcome_phrase :: "outcome_kind \<Rightarrow> ustr" where
  "outcome_phrase OutcomeCompleted = lit ''completed''"
| "outcome_phrase OutcomeFailed = lit ''failed''"
| "outcome_phrase NeedsApproval = lit ''needs a person's approval''"

text \<open>The named parameters of a report, laid over the unnamed ones in one object.\<close>

definition report_object :: "(ustr \<times> json option) list \<Rightarrow> json_object \<Rightarrow> json_object" where
  "report_object named extra =
     foldl (\<lambda>object (key, v). case v of None \<Rightarrow> object | Some x \<Rightarrow> map_insert key x object) extra named"

definition reported_artifacts ::
  "work_state \<Rightarrow> ustr \<Rightarrow> ustr \<Rightarrow> step_outcome \<Rightarrow> (step_outcome, refusal) result"
where
  "reported_artifacts st root tid outcome =
     (if out_artifacts outcome = [] then Ok outcome
      else (case name_artifacts (out_artifacts outcome) (list_artifacts (ws_ledger st) tid)
                   (written_by (ws_bindings st) root) of
              Ok named \<Rightarrow> Ok (with_artifacts outcome named)
            | Err _ \<Rightarrow> Err (Rejected (RejectedText
                (lit ''You have saved nothing yet, so there is no artifact to name. Save your work '' @
                 lit ''with artifact_write and finish true: that also reports the step.'')))))"

definition run_report ::
  "(json \<Rightarrow> ustr) \<Rightarrow> bool \<Rightarrow> work_state \<Rightarrow> ustr option \<Rightarrow> (ustr \<times> json option) list \<Rightarrow> json_object \<Rightarrow>
     (ustr, refusal) result \<times> work_state"
where
  "run_report json_text installed st session named extra =
     (case resolve_helper installed st session of
        Err e \<Rightarrow> (Err e, st)
      | Ok (root, b) \<Rightarrow>
          if sb_work b = PlanWork then (Err PlannerDoesNotReport, st)
          else
            (case outcome_from_json json_text (JObject (report_object named extra)) of
               Err e \<Rightarrow> (Err (Rejected (RejectedOutcome e)), st)
             | Ok read \<Rightarrow>
                 (case reported_artifacts st root (sb_task_id b) read of
                    Err e \<Rightarrow> (Err e, st)
                  | Ok outcome \<Rightarrow>
                      (case report_run root outcome (ws_bindings st) of
                         (kept, bs) \<Rightarrow>
                           (if kept
                            then Ok (lit ''Recorded: the step '' @ outcome_phrase (out_kind outcome) @
                                   lit ''. Your step is done; stop here.'')
                            else Err ReportTooLate, st\<lparr>ws_bindings := bs\<rparr>)))))"

section \<open>Writing the plan\<close>

definition plan_saved_text :: "validated_plan \<Rightarrow> ustr list \<Rightarrow> ustr" where
  "plan_saved_text p ignored =
     (if vp_steps p = [] then lit ''Plan saved, with no new steps.''
      else lit ''Plan saved. Steps to do, in order: '' @ backquoted (map ps_key (vp_steps p)) @ lit ''.'') @
     (if vp_kept p = [] then []
      else lit '' Kept as they are, already started or finished: '' @ backquoted (vp_kept p) @ lit ''.'') @
     concat (map (\<lambda>wait. lit '' `'' @ relaxed_step wait @ lit ''` waited for `'' @ relaxed_missing wait @
       lit ''`, which is not a step here, so it waits for every step before it.'') (vp_relaxed p)) @
     (if ignored = [] then []
      else lit '' Ignored, as no step reads them: '' @ backquoted ignored @ lit ''.'' @
           (if list_ex (\<lambda>name. find_sub (lit ''tool'') name \<noteq> None) ignored
            then lit '' A step's tools come from its role; give a step other tools with `new_agent`.''
            else []))"

text \<open>The plan of readable drafts, checked against the steps as they are now.\<close>

definition store_plan ::
  "work_state \<Rightarrow> ustr \<Rightarrow> step_draft list \<Rightarrow> answer_shape option \<Rightarrow> ustr list \<Rightarrow>
     (ustr, refusal) result \<times> work_state"
where
  "store_plan st tid drafts chosen ignored =
     (case get_task (ws_ledger st) tid of
        None \<Rightarrow> (Err (Rejected (RejectedText
          (lit ''This task no longer exists, so there is nothing to plan. Stop here.''))), st)
      | Some task \<Rightarrow>
          (let current = list_steps (ws_ledger st) (task_id task);
               shape = (case task_answer task of
                          AnswerAuto \<Rightarrow> (case chosen of None \<Rightarrow> AnswerAuto | Some a \<Rightarrow> a)
                        | decided \<Rightarrow> decided)
           in if shape = AnswerShort \<and> length drafts > MAX_SHORT_STEPS
              then (Err (Rejected (RejectedText
                (lit ''This is a short answer, and you planned '' @ show_nat (length drafts) @
                 lit '' steps. Plan one step that finds the answer and saves it as the Result, or two '' @
                 lit ''when it needs two different places looked in, then call plan_write again.''))), st)
              else
                (case validate_plan task drafts current of
                   Err e \<Rightarrow> (Err (Rejected (RejectedPlan e)), st)
                 | Ok plan \<Rightarrow>
                     (let l = (case chosen of
                                 None \<Rightarrow> ws_ledger st
                               | Some a \<Rightarrow> snd (decide_task_answer (ws_ledger st) (task_id task) a))
                      in case replace_open_steps l plan of
                           Err (PlanStale stale) \<Rightarrow>
                             (Err (Rejected (RejectedStale stale)), st\<lparr>ws_ledger := l\<rparr>)
                         | Err e \<Rightarrow> (Err (StoreFailed e), st\<lparr>ws_ledger := l\<rparr>)
                         | Ok l' \<Rightarrow> (Ok (plan_saved_text plan ignored), st\<lparr>ws_ledger := l'\<rparr>)))))"

definition run_plan ::
  "(ustr \<Rightarrow> json option) \<Rightarrow> (serde_error \<Rightarrow> ustr) \<Rightarrow> bool \<Rightarrow> work_state \<Rightarrow> ustr option \<Rightarrow>
     plan_write_params \<Rightarrow> (ustr, refusal) result \<times> work_state"
where
  "run_plan json_parse serde_text installed st session params =
     (case resolve_helper installed st session of
        Err e \<Rightarrow> (Err e, st)
      | Ok (root, b) \<Rightarrow>
          if sb_work b \<noteq> PlanWork then (Err NotThePlanner, st)
          else
            (case plan_drafts json_parse serde_text
                    (or_else (pw_steps params) (take_value (pw_extra params) [lit ''plan''])) of
               Err text \<Rightarrow> (Err (Malformed text), st)
             | Ok (drafts, ignored) \<Rightarrow>
                 store_plan st (sb_task_id b) drafts
                   (Option.bind
                     (Option.bind
                       (or_else (pw_answer params) (take_value (pw_extra params) ANSWER_ALIASES))
                       json_as_str)
                     answer_shape_read)
                   ignored))"

section \<open>What a call can change\<close>

text \<open>The calls that write, from one session.\<close>

inductive work_call :: "ustr option \<Rightarrow> work_state \<Rightarrow> work_state \<Rightarrow> bool" for session where
  call_write: "run_write json_text fresh_id now installed st session params = (r, st') \<Longrightarrow>
    work_call session st st'"
| call_report: "run_report json_text installed st session named extra = (r, st') \<Longrightarrow>
    work_call session st st'"
| call_plan: "run_plan json_parse serde_text installed st session args = (r, st') \<Longrightarrow>
    work_call session st st'"

definition same_other_tasks :: "ledger \<Rightarrow> ledger \<Rightarrow> ustr \<Rightarrow> bool" where
  "same_other_tasks l l' tid \<longleftrightarrow>
     (\<forall>j. j \<noteq> tid \<longrightarrow> get_task l' j = get_task l j \<and> steps_held l' j = steps_held l j \<and>
        list_artifacts l' j = list_artifacts l j)"

lemma same_other_tasks_refl [simp]: "same_other_tasks l l tid"
  by (simp add: same_other_tasks_def)

lemma same_other_tasks_trans:
  "same_other_tasks a b tid \<Longrightarrow> same_other_tasks b c tid \<Longrightarrow> same_other_tasks a c tid"
  by (simp add: same_other_tasks_def)

lemma resolve_helper_Ok:
  "resolve_helper installed st session = Ok (root, b) \<longleftrightarrow>
     installed \<and> (\<exists>helper. session = Some helper \<and> parent_of (ws_children st) helper = Some root) \<and>
     binding_for (ws_bindings st) root = Some b"
  by (auto simp: resolve_helper_def split: option.splits)

lemma insert_artifact_others:
  assumes "insert_artifact l a = Ok l'"
  shows "same_other_tasks l l' (art_task_id a)"
proof -
  have l': "l' = l\<lparr>led_artifacts := led_artifacts l @ [a]\<rparr>" using assms by (simp add: insert_artifact_Ok)
  then show ?thesis
    by (auto simp: same_other_tasks_def get_task_def steps_held_def list_artifacts_def)
qed

lemma find_put_other:
  "j \<noteq> task_id t \<Longrightarrow> get_task (put_task l t) j = get_task l j"
  unfolding get_task_def put_task_def by (simp add: find_update_first_other)

lemma decide_task_answer_others: "same_other_tasks l (snd (decide_task_answer l i a)) i"
proof (cases "get_task l i")
  case (Some t)
  obtain changed t' where d: "decide_answer t a = (changed, t')" by (cases "decide_answer t a")
  then have "task_id t' = i"
    using get_task_SomeD [OF Some] by (auto simp: decide_answer_def split: if_splits)
  then show ?thesis
    using Some d
    by (simp add: same_other_tasks_def decide_task_answer_def find_put_other steps_held_def
        list_artifacts_def put_task_ids)
qed (simp add: decide_task_answer_def)

lemma replace_open_steps_others:
  assumes "replace_open_steps l p = Ok l'" "well_keyed p"
  shows "same_other_tasks l l' (vp_task_id p)"
proof -
  have "steps_held l' j = steps_held l j" if "j \<noteq> vp_task_id p" for j
  proof -
    have "filter (\<lambda>s. ps_task_id s = j) (vp_steps p) = []"
      using assms(2) that by (auto simp: well_keyed_def filter_empty_conv)
    then show ?thesis
      using assms(1) that by (auto simp: replace_open_steps_Ok steps_held_def intro!: filter_cong)
  qed
  moreover have "led_tasks l' = led_tasks l" "led_artifacts l' = led_artifacts l"
    using assms(1) by (auto simp: replace_open_steps_Ok)
  ultimately show ?thesis by (simp add: same_other_tasks_def get_task_def list_artifacts_def)
qed

lemma report_run_pair:
  "report_run root outcome bs = (kept, bs') \<Longrightarrow> binding_for bs' k = binding_for bs k"
  using report_run_binding [of root outcome bs k] by simp

lemma finish_write_effect:
  assumes "finish_write st root a finish said = (r, st')"
  shows "ws_ledger st' = ws_ledger st \<and> ws_children st' = ws_children st \<and>
     (\<forall>k. binding_for (ws_bindings st') k = binding_for (ws_bindings st) k)"
proof -
  obtain kept bs where rr: "report_run root
      (outcome_new OutcomeCompleted said (written_by (ws_bindings st) root) None) (ws_bindings st) =
      (kept, bs)" by (meson surj_pair)
  have "st' = (if finish then st\<lparr>ws_bindings := bs\<rparr> else st)"
    using assms rr by (cases finish) (simp_all add: finish_write_def)
  then show ?thesis using report_run_pair [OF rr] by simp
qed

lemma artifact_new_task: "artifact_new i tid k kind title summary body now = Ok a \<Longrightarrow> art_task_id a = tid"
  by (auto simp: artifact_new_def artifact_from_parts_def Let_def split: if_splits result.splits option.splits)

lemma run_write_effect:
  assumes "run_write json_text fresh_id now installed st session params = (r, st')"
  shows "st' = st \<or>
    (\<exists>root b a. resolve_helper installed st session = Ok (root, b) \<and> is_do_work (sb_work b) \<and>
       art_task_id a = sb_task_id b \<and> insert_artifact (ws_ledger st) a = Ok (ws_ledger st') \<and>
       ws_children st' = ws_children st \<and>
       (\<forall>k. binding_for (ws_bindings st') k = binding_for (ws_bindings st) k))"
proof (cases "resolve_helper installed st session")
  case (Ok rb)
  obtain root b where rb: "rb = (root, b)" by (cases rb)
  let ?title = "text_argument (wr_title params) (wr_extra params) TITLE_ALIASES"
  let ?summary = "text_argument (wr_summary params) (wr_extra params) SUMMARY_ALIASES"
  let ?new = "\<lambda>kind. artifact_new fresh_id (sb_task_id b) (work_step_key (sb_work b)) kind ?title
      ?summary (written_body json_text params) now"
  show ?thesis
  proof (cases "st' = st")
    case False
    have worker: "is_do_work (sb_work b)"
      using assms Ok rb False by (auto simp: run_write_def split: if_splits)
    obtain kind where kind: "written_kind (wr_kind params) = Ok kind"
      using assms Ok rb False worker by (cases "written_kind (wr_kind params)") (auto simp: run_write_def)
    obtain a where a: "?new kind = Ok a"
      using assms Ok rb False worker kind by (cases "?new kind") (auto simp: run_write_def Let_def)
    obtain l where l: "insert_artifact (ws_ledger st) a = Ok l"
      using assms Ok rb False worker kind a
      by (cases "insert_artifact (ws_ledger st) a") (auto simp: run_write_def Let_def)
    obtain finish said where "finish_write (st\<lparr>ws_ledger := l,
        ws_bindings := note_artifact root (art_id a) (ws_bindings st)\<rparr>) root a finish said = (r, st')"
      using assms Ok rb worker kind a l by (simp add: run_write_def Let_def)
    from finish_write_effect [OF this] show ?thesis
      using Ok rb worker artifact_new_task [OF a] l by auto
  qed simp
qed (use assms in \<open>simp add: run_write_def\<close>)

lemma run_report_effect:
  assumes "run_report json_text installed st session named extra = (r, st')"
  shows "ws_ledger st' = ws_ledger st \<and> ws_children st' = ws_children st \<and>
    (\<forall>k. binding_for (ws_bindings st') k = binding_for (ws_bindings st) k)"
proof -
  have "st' = st \<or> (\<exists>root outcome kept bs.
      report_run root outcome (ws_bindings st) = (kept, bs) \<and> st' = st\<lparr>ws_bindings := bs\<rparr>)"
    using arg_cong [OF assms, of snd]
    by (auto simp: run_report_def split: result.splits prod.splits if_splits)
  then show ?thesis using report_run_pair by auto
qed

lemma store_plan_effect:
  assumes "store_plan st tid drafts chosen ignored = (r, st')"
  shows "ws_bindings st' = ws_bindings st \<and> ws_children st' = ws_children st \<and>
    (ws_ledger st' = ws_ledger st \<or>
     (\<exists>l. (l = ws_ledger st \<or> (\<exists>a. l = snd (decide_task_answer (ws_ledger st) tid a))) \<and>
        (ws_ledger st' = l \<or>
         (\<exists>p. vp_task_id p = tid \<and> well_keyed p \<and> replace_open_steps l p = Ok (ws_ledger st')))))"
proof (cases "get_task (ws_ledger st) tid")
  case None
  then show ?thesis using assms by (auto simp: store_plan_def)
next
  case (Some task)
  have tid: "task_id task = tid" using get_task_SomeD [OF Some] by simp
  have keyed: "well_keyed p \<and> vp_task_id p = tid"
    if "validate_plan task drafts (list_steps (ws_ledger st) tid) = Ok p" for p
    using validate_plan_ok_aux [OF that] plan_ok_well_keyed validate_plan_cases [OF that] tid
    by (metis validated_plan.select_convs(1))
  obtain p where p: "validate_plan task drafts (list_steps (ws_ledger st) tid) = Ok p" if "st' \<noteq> st"
    using arg_cong [OF assms, of snd] Some tid
    by (cases "validate_plan task drafts (list_steps (ws_ledger st) tid)")
       (auto simp: store_plan_def Let_def split: if_splits)
  let ?l = "case chosen of None \<Rightarrow> ws_ledger st
    | Some a \<Rightarrow> snd (decide_task_answer (ws_ledger st) tid a)"
  have l: "?l = ws_ledger st \<or> (\<exists>a. ?l = snd (decide_task_answer (ws_ledger st) tid a))"
    by (auto split: option.splits)
  have "st' = st\<lparr>ws_ledger := (case replace_open_steps ?l p of Ok l' \<Rightarrow> l' | Err _ \<Rightarrow> ?l)\<rparr>" if "st' \<noteq> st"
    using arg_cong [OF assms, of snd] Some tid p [OF that] that
    by (auto simp: store_plan_def Let_def split: if_splits result.splits store_error.splits)
  then show ?thesis
    using l keyed [OF p] by (cases "st' = st"; cases "replace_open_steps ?l p") auto
qed

lemma run_plan_effect:
  assumes "run_plan json_parse serde_text installed st session params = (r, st')"
  shows "st' = st \<or> (\<exists>root b drafts chosen ignored.
    resolve_helper installed st session = Ok (root, b) \<and> sb_work b = PlanWork \<and>
    store_plan st (sb_task_id b) drafts chosen ignored = (r, st'))"
  using assms by (auto simp: run_plan_def split: result.splits prod.splits if_splits)

lemma store_plan_others:
  assumes "store_plan st tid drafts chosen ignored = (r, st')"
  shows "same_other_tasks (ws_ledger st) (ws_ledger st') tid"
proof -
  have decided: "same_other_tasks (ws_ledger st) l tid"
    if "l = ws_ledger st \<or> (\<exists>a. l = snd (decide_task_answer (ws_ledger st) tid a))" for l
    using that decide_task_answer_others by auto
  show ?thesis
    using store_plan_effect [OF assms] decided replace_open_steps_others
    by (metis same_other_tasks_refl same_other_tasks_trans)
qed

lemma store_plan_ledger_steps:
  assumes "store_plan st tid drafts chosen ignored = (r, st')"
  shows "ledger_step\<^sup>*\<^sup>* (ws_ledger st) (ws_ledger st')"
proof -
  have decided: "ledger_step\<^sup>*\<^sup>* (ws_ledger st) l"
    if "l = ws_ledger st \<or> (\<exists>a. l = snd (decide_task_answer (ws_ledger st) tid a))" for l
    using that ledger_step.decide [of "ws_ledger st" tid]
    by (metis prod.collapse r_into_rtranclp rtranclp.rtrancl_refl)
  show ?thesis
    using store_plan_effect [OF assms] decided ledger_step.replan
    by (metis rtranclp.rtrancl_into_rtrancl rtranclp.rtrancl_refl)
qed

lemma work_call_ledger_steps:
  "work_call session st st' \<Longrightarrow> ledger_step\<^sup>*\<^sup>* (ws_ledger st) (ws_ledger st')"
proof (induction rule: work_call.induct)
  case (call_write json_text fresh_id now installed st params r st')
  then show ?case
    using run_write_effect ledger_step.insert by (metis r_into_rtranclp rtranclp.rtrancl_refl)
next
  case (call_report json_text installed st named extra r st')
  then show ?case using run_report_effect by (metis rtranclp.rtrancl_refl)
next
  case (call_plan json_parse serde_text installed st args r st')
  then show ?case
    using run_plan_effect store_plan_ledger_steps by (metis rtranclp.rtrancl_refl)
qed

lemma work_call_registries:
  "work_call session st st' \<Longrightarrow> ws_children st' = ws_children st \<and>
     (\<forall>k. binding_for (ws_bindings st') k = binding_for (ws_bindings st) k)"
proof (induction rule: work_call.induct)
  case (call_write json_text fresh_id now installed st params r st')
  then show ?case using run_write_effect by metis
next
  case (call_report json_text installed st named extra r st')
  then show ?case using run_report_effect by metis
next
  case (call_plan json_parse serde_text installed st args r st')
  then show ?case using run_plan_effect store_plan_effect by metis
qed

lemma name_artifacts_known:
  assumes "name_artifacts asked held written = Ok ids"
  shows "set ids \<subseteq> as_id ` set held \<union> set written"
proof -
  have called: "i \<in> as_id ` set held" if "artifact_called held raw = Some i" for raw i
    using that
    by (auto simp: artifact_called_def or_else_def Let_def find_Some_iff
        split: option.splits dest!: max_by_key_Some)
  have push: "set (foldl push_new xs ys) = set xs \<union> set ys" for xs ys :: "ustr list"
    by (induction ys arbitrary: xs) (auto simp: push_new_def)
  have "set (List.map_filter (artifact_called held) asked) \<subseteq> as_id ` set held"
    using called by (auto simp: map_filter_def)
  then show ?thesis
    using assms by (auto simp: name_artifacts_def Let_def push split: if_splits)
qed

lemma read_window_Some: "read_window a from asked_to \<noteq> None"
  by (simp add: read_window_def Let_def artifact_slice_eq)

lemma reported_artifacts_known:
  assumes "reported_artifacts st root tid outcome = Ok outcome'"
  shows "set (out_artifacts outcome') \<subseteq>
    trim ` (as_id ` set (list_artifacts (ws_ledger st) tid) \<union> set (written_by (ws_bindings st) root))"
proof (cases "out_artifacts outcome = []")
  case False
  then obtain named where n: "name_artifacts (out_artifacts outcome)
      (list_artifacts (ws_ledger st) tid) (written_by (ws_bindings st) root) = Ok named"
    "outcome' = with_artifacts outcome named"
    using assms by (auto simp: reported_artifacts_def split: result.splits)
  have "set (out_artifacts outcome') \<subseteq> trim ` set named"
    using n(2) by (auto simp: with_artifacts_def set_clean_ids)
  also have "\<dots> \<subseteq> trim ` (as_id ` set (list_artifacts (ws_ledger st) tid) \<union>
      set (written_by (ws_bindings st) root))"
    by (rule image_mono [OF name_artifacts_known [OF n(1)]])
  finally show ?thesis .
qed (use assms in \<open>simp add: reported_artifacts_def\<close>)

lemma completed_kept_by_call:
  assumes "work_call session st st'" "ledger_inv (ws_ledger st)"
    and "c \<in> set (steps_held (ws_ledger st) tid)" "ps_state c = StepCompleted"
  shows "c \<in> set (steps_held (ws_ledger st') tid)"
  using assms
proof (induction rule: work_call.induct)
  case (call_write json_text fresh_id now installed st params r st')
  from run_write_effect [OF call_write(1)] have "led_steps (ws_ledger st') = led_steps (ws_ledger st)"
    by (auto simp: insert_artifact_Ok)
  then show ?case using call_write(3) by (simp add: steps_held_def)
next
  case (call_report json_text installed st named extra r st')
  then show ?case using run_report_effect [OF call_report(1)] by simp
next
  case (call_plan json_parse serde_text installed st args r st')
  have decided: "c \<in> set (steps_held l tid) \<and> ledger_inv l"
    if "l = ws_ledger st \<or> (\<exists>i a. l = snd (decide_task_answer (ws_ledger st) i a))" for l
    using that
  proof
    assume "\<exists>i a. l = snd (decide_task_answer (ws_ledger st) i a)"
    then obtain i a r where d: "decide_task_answer (ws_ledger st) i a = (r, l)" by (metis prod.collapse)
    then show ?thesis
      using decide_task_answer_tasks [OF d] ledger_step_inv [OF ledger_step.decide [OF d]] call_plan(2,3)
      by (simp add: steps_held_def)
  qed (use call_plan in simp)
  have kept: "c \<in> set (steps_held l' tid)"
    if "ledger_inv l" "c \<in> set (steps_held l tid)" "well_keyed p" "replace_open_steps l p = Ok l'" for l l' p
    using ledger_steps.completed_kept_once [of l c tid undefined l' p] that call_plan(4) by blast
  show ?case
  proof (cases "st' = st")
    case False
    then obtain i drafts chosen ignored where "store_plan st i drafts chosen ignored = (r, st')"
      using run_plan_effect [OF call_plan(1)] by blast
    from store_plan_effect [OF this] obtain l where
      l: "ws_ledger st' = ws_ledger st \<or> (l = ws_ledger st \<or> (\<exists>i a. l = snd (decide_task_answer (ws_ledger st) i a))) \<and>
        (ws_ledger st' = l \<or> (\<exists>p. well_keyed p \<and> replace_open_steps l p = Ok (ws_ledger st')))"
      by blast
    then show ?thesis using decided [of l] kept [of l] call_plan(3) by metis
  qed (use call_plan in simp)
qed

section \<open>A bound helper\<close>

definition example_binding :: "step_work \<Rightarrow> step_binding" where
  "example_binding work = \<lparr>sb_task_id = lit ''t1'', sb_scope = Household, sb_work = work\<rparr>"

definition example_work :: "step_work \<Rightarrow> work_state" where
  "example_work work =
     \<lparr>ws_ledger = example_ledger, ws_bindings = run_bind (lit ''root'') (example_binding work) Map.empty,
      ws_children = child_bind (lit ''helper'') \<lparr>child_parent = lit ''root'', child_scope = Household\<rparr> Map.empty\<rparr>"

lemma example_resolve:
  "resolve_helper True (example_work work) (Some (lit ''helper'')) = Ok (lit ''root'', example_binding work)"
  "binding_for_helper (ws_bindings (example_work work)) (ws_children (example_work work)) (lit ''helper'') =
     Some (example_binding work)"
  by (simp_all add: resolve_helper_def example_work_def parent_of_def child_bind_def binding_for_def
      run_bind_def binding_for_helper_def)

definition example_report :: "(ustr \<times> json option) list" where
  "example_report = [(lit ''outcome'', Some (JString (lit ''done''))),
     (lit ''summary'', Some (JString (lit ''found it'')))]"

lemma example_run_report:
  "\<exists>said st'. run_report (\<lambda>_. []) True (example_work (DoWork (lit ''find''))) (Some (lit ''helper''))
     example_report [] = (Ok said, st')"
proof -
  have o: "\<exists>r. outcome_from_json (\<lambda>_. []) (JObject (report_object example_report [])) = Ok r \<and>
      out_artifacts r = []"
    by (simp add: report_object_def example_report_def outcome_eval text_simps)
  then obtain r where r: "outcome_from_json (\<lambda>_. []) (JObject (report_object example_report [])) = Ok r"
    "out_artifacts r = []" by blast
  have k: "\<exists>bs. report_run (lit ''root'') r (ws_bindings (example_work (DoWork (lit ''find'')))) = (True, bs)"
    by (simp add: report_run_def example_work_def run_bind_def)
  show ?thesis
    using k by (auto simp: run_report_def example_resolve r reported_artifacts_def example_binding_def)
qed

section \<open>Properties\<close>

text \<open>
  C9: A helper can touch only its own task, and only in its own part. Whatever a session calls, with
  whatever arguments, if it resolves to no bound run nothing changes; otherwise every other task
  keeps its row, steps and artifacts, a worker changes no step, a checker changes nothing of the
  ledger, and a planner adds no artifact.
\<close>

theorem helper_confined:
  assumes "work_call session st st'"
  shows "case Option.bind session (binding_for_helper (ws_bindings st) (ws_children st)) of
      None \<Rightarrow> st' = st
    | Some b \<Rightarrow> same_other_tasks (ws_ledger st) (ws_ledger st') (sb_task_id b) \<and>
        (case sb_work b of
           PlanWork \<Rightarrow> led_artifacts (ws_ledger st') = led_artifacts (ws_ledger st)
         | DoWork _ \<Rightarrow> led_steps (ws_ledger st') = led_steps (ws_ledger st) \<and>
             led_tasks (ws_ledger st') = led_tasks (ws_ledger st)
         | CheckWork _ \<Rightarrow> ws_ledger st' = ws_ledger st)"
  using assms
proof (cases rule: work_call.cases)
  case (call_write json_text fresh_id now installed params r)
  show ?thesis
  proof (cases "st' = st")
    case False
    then obtain root b a where e: "resolve_helper installed st session = Ok (root, b)"
      "is_do_work (sb_work b)" "art_task_id a = sb_task_id b"
      "insert_artifact (ws_ledger st) a = Ok (ws_ledger st')"
      using run_write_effect [OF call_write] by blast
    from e(1) have "Option.bind session (binding_for_helper (ws_bindings st) (ws_children st)) = Some b"
      by (auto simp: resolve_helper_Ok binding_for_helper_def)
    with e(2-4) insert_artifact_others [OF e(4)] show ?thesis
      by (cases "sb_work b") (auto simp: insert_artifact_Ok)
  qed (simp split: option.splits step_work.splits)
next
  case (call_report json_text installed named extra r)
  show ?thesis
  proof (cases "Option.bind session (binding_for_helper (ws_bindings st) (ws_children st))")
    case None
    then have "\<exists>e. resolve_helper installed st session = Err e"
      by (auto simp: resolve_helper_def binding_for_helper_def split: option.splits)
    with call_report None show ?thesis by (auto simp: run_report_def)
  next
    case (Some b)
    then show ?thesis using run_report_effect [OF call_report] by (cases "sb_work b") simp_all
  qed
next
  case (call_plan json_parse serde_text installed args r)
  show ?thesis
  proof (cases "st' = st")
    case False
    then obtain root b drafts chosen ignored where
      e: "resolve_helper installed st session = Ok (root, b)" "sb_work b = PlanWork"
        "store_plan st (sb_task_id b) drafts chosen ignored = (r, st')"
      using run_plan_effect [OF call_plan] by blast
    have decided: "led_artifacts (snd (decide_task_answer l i a)) = led_artifacts l" for l i a
      using decide_task_answer_tasks by (metis prod.collapse)
    have replanned: "replace_open_steps l p = Ok l' \<Longrightarrow> led_artifacts l' = led_artifacts l" for l l' p
      by (auto simp: replace_open_steps_Ok)
    from e(1) have "Option.bind session (binding_for_helper (ws_bindings st) (ws_children st)) = Some b"
      by (auto simp: resolve_helper_Ok binding_for_helper_def)
    moreover have "led_artifacts (ws_ledger st') = led_artifacts (ws_ledger st)"
      using store_plan_effect [OF e(3)] decided replanned by metis
    ultimately show ?thesis using e(2) store_plan_others [OF e(3)] by simp
  qed (simp split: option.splits step_work.splits)
qed

theorem helper_confined_witness:
  "\<exists>st'. work_call (Some (lit ''helper'')) (example_work (DoWork (lit ''find''))) st' \<and>
     led_steps (ws_ledger st') = led_steps example_ledger"
proof -
  obtain said st' where "run_report (\<lambda>_. []) True (example_work (DoWork (lit ''find'')))
      (Some (lit ''helper'')) example_report [] = (Ok said, st')"
    using example_run_report by blast
  then have call: "work_call (Some (lit ''helper'')) (example_work (DoWork (lit ''find''))) st'"
    by (rule call_report)
  have "ws_ledger (example_work (DoWork (lit ''find''))) = example_ledger"
    "sb_work (example_binding (DoWork (lit ''find''))) = DoWork (lit ''find'')"
    by (simp_all add: example_work_def example_binding_def)
  with helper_confined [OF call] have "led_steps (ws_ledger st') = led_steps example_ledger"
    by (simp add: example_resolve)
  with call show ?thesis by blast
qed

text \<open>
  Whatever the helpers of all runs call, in any order, the ledger stays sound and work that is
  done is never lost: every sequence of calls keeps the ledger's references and every completed step
  exactly as recorded.
\<close>

theorem helpers_keep_ledger:
  assumes "(\<lambda>st st'. \<exists>session. work_call session st st')\<^sup>*\<^sup>* st st'" "ledger_inv (ws_ledger st)"
    and "c \<in> set (steps_held (ws_ledger st) tid)" "ps_state c = StepCompleted"
  shows "ledger_inv (ws_ledger st') \<and> c \<in> set (steps_held (ws_ledger st') tid)"
  using assms
proof (induction rule: rtranclp_induct)
  case (step y z)
  then obtain session where call: "work_call session y z" by blast
  have y: "ledger_inv (ws_ledger y)" "c \<in> set (steps_held (ws_ledger y) tid)" using step by simp_all
  show ?case
    using ledger_steps_inv [OF work_call_ledger_steps [OF call] y(1)]
      completed_kept_by_call [OF call y assms(4)] by blast
qed simp

definition example_done :: work_state where
  "example_done = (example_work (DoWork (lit ''write'')))
     \<lparr>ws_ledger := \<lparr>led_tasks = [example_task],
        led_steps = [example_plan_step ''find'' 1 []\<lparr>ps_state := StepCompleted\<rparr>], led_artifacts = []\<rparr>\<rparr>"

theorem helpers_keep_ledger_witness:
  "example_plan_step ''find'' 1 []\<lparr>ps_state := StepCompleted\<rparr> \<in> set (steps_held (ws_ledger
     (snd (run_report (\<lambda>_. []) True example_done (Some (lit ''helper'')) [] []))) (lit ''t1''))"
proof -
  let ?st = "snd (run_report (\<lambda>_. []) True example_done (Some (lit ''helper'')) [] [])"
  have "work_call (Some (lit ''helper'')) example_done ?st" by (rule call_report [OF surjective_pairing])
  then have "(\<lambda>st st'. \<exists>session. work_call session st st')\<^sup>*\<^sup>* example_done ?st" by blast
  from helpers_keep_ledger [OF this, of "example_plan_step ''find'' 1 []\<lparr>ps_state := StepCompleted\<rparr>" "lit ''t1''"]
  show ?thesis
    by (simp add: example_done_def ledger_inv_def step_ids_def example_plan_step_def example_task_def
        steps_held_def)
qed

text \<open>
  A report names real work: when a hand-back is accepted it waits on the caller's own run, and
  every artifact it names is one of its task's or one its run saved.
\<close>

theorem report_names_real_work:
  assumes "run_report json_text installed st session named extra = (Ok said, st')"
  shows "\<exists>root b entry outcome. resolve_helper installed st session = Ok (root, b) \<and>
    ws_bindings st' root = Some entry \<and> ent_report entry = Some outcome \<and> outcome_ok outcome \<and>
    set (out_artifacts outcome) \<subseteq>
      trim ` (as_id ` set (list_artifacts (ws_ledger st) (sb_task_id b)) \<union>
              set (written_by (ws_bindings st) root))"
proof -
  obtain root b where h: "resolve_helper installed st session = Ok (root, b)"
    using assms by (auto simp: run_report_def split: result.splits)
  obtain read where read: "outcome_from_json json_text (JObject (report_object named extra)) = Ok read"
    using assms h by (auto simp: run_report_def split: result.splits if_splits)
  obtain outcome where outcome: "reported_artifacts st root (sb_task_id b) read = Ok outcome"
    using assms h read by (auto simp: run_report_def split: result.splits if_splits)
  obtain bs where bs: "report_run root outcome (ws_bindings st) = (True, bs)" "st' = st\<lparr>ws_bindings := bs\<rparr>"
    using assms h read outcome by (auto simp: run_report_def split: if_splits prod.splits)
  have "\<exists>entry. bs root = Some entry \<and> ent_report entry = Some outcome"
    using bs(1) by (auto simp: report_run_def split: option.splits)
  moreover have "outcome_ok outcome"
    using outcome outcome_from_json_ok [OF read] with_artifacts_ok [of read]
    by (auto simp: reported_artifacts_def split: if_splits result.splits)
  ultimately show ?thesis
    using h bs(2) reported_artifacts_known [OF outcome] by auto
qed

theorem report_names_real_work_witness:
  "\<exists>said st' entry outcome. run_report (\<lambda>_. []) True (example_work (DoWork (lit ''find'')))
      (Some (lit ''helper'')) example_report [] = (Ok said, st') \<and>
    ws_bindings st' (lit ''root'') = Some entry \<and> ent_report entry = Some outcome"
proof -
  obtain said st' where r: "run_report (\<lambda>_. []) True (example_work (DoWork (lit ''find'')))
      (Some (lit ''helper'')) example_report [] = (Ok said, st')"
    using example_run_report by blast
  from report_names_real_work [OF r] show ?thesis using r by (auto simp: example_resolve)
qed

end
