(* ===== verification/Turn_Authority.thy ===== *)
theory Turn_Authority
  imports Delegation Step_Bindings
begin

text \<open>
  The live turns' authorities: \<open>pond-core/src/shared/services/turn_authority.rs\<close>. The registry keeps
  the order its sessions were first published in and evicts the oldest beyond
  \<open>MAX_TRACKED_TURNS\<close>. A cancellation token is an opaque value of type \<open>'c\<close>.
\<close>

definition MAX_TRACKED_TURNS :: nat where "MAX_TRACKED_TURNS = 64"

record 'c turn_entry =
  turn_authority :: delegation_authority
  turn_cancel :: 'c

record 'c turn_registry =
  by_engine_session :: "ustr \<rightharpoonup> 'c turn_entry"
  turn_order :: "ustr list"

definition no_turns :: "'c turn_registry" where
  "no_turns = \<lparr>by_engine_session = Map.empty, turn_order = []\<rparr>"

text \<open>The loop that evicts the oldest while the order is too long.\<close>

fun evict :: "(ustr \<rightharpoonup> 'c turn_entry) \<Rightarrow> ustr list \<Rightarrow> 'c turn_registry" where
  "evict m [] = \<lparr>by_engine_session = m, turn_order = []\<rparr>"
| "evict m (oldest # order) =
     (if length (oldest # order) > MAX_TRACKED_TURNS then evict (m(oldest := None)) order
      else \<lparr>by_engine_session = m, turn_order = oldest # order\<rparr>)"

definition publish_turn :: "ustr \<Rightarrow> 'c turn_entry \<Rightarrow> 'c turn_registry \<Rightarrow> 'c turn_registry" where
  "publish_turn session entry reg =
     evict ((by_engine_session reg)(session \<mapsto> entry))
       (if by_engine_session reg session = None then turn_order reg @ [session] else turn_order reg)"

definition authority_for_engine_session :: "'c turn_registry \<Rightarrow> ustr \<Rightarrow> delegation_authority option" where
  "authority_for_engine_session reg session = map_option turn_authority (by_engine_session reg session)"

text \<open>
  The scan for a session of the household goes through the map in its iteration order, which is the
  argument \<open>sessions\<close>.
\<close>

definition parent_turn_token :: "ustr list \<Rightarrow> 'c turn_registry \<Rightarrow> ustr \<Rightarrow> 'c option" where
  "parent_turn_token sessions reg giap_session =
     map_option turn_cancel
       (List.find (\<lambda>entry. auth_session_id (turn_authority entry) = giap_session)
          (List.map_filter (by_engine_session reg) sessions))"

definition tracked_turns :: "'c turn_registry \<Rightarrow> nat" where
  "tracked_turns reg = card (dom (by_engine_session reg))"

definition revoke_turn :: "ustr \<Rightarrow> 'c turn_registry \<Rightarrow> 'c turn_registry" where
  "revoke_turn session reg =
     (if by_engine_session reg session = None then reg
      else \<lparr>by_engine_session = (by_engine_session reg)(session := None),
            turn_order = filter (\<lambda>i. i \<noteq> session) (turn_order reg)\<rparr>)"

section \<open>The invariant\<close>

definition turns_ok :: "'c turn_registry \<Rightarrow> bool" where
  "turns_ok reg \<longleftrightarrow> distinct (turn_order reg) \<and> set (turn_order reg) = dom (by_engine_session reg) \<and>
     length (turn_order reg) \<le> MAX_TRACKED_TURNS"

lemma evict_ok:
  "distinct order \<Longrightarrow> set order = dom m \<Longrightarrow>
     turns_ok (evict m order) \<and> by_engine_session (evict m order) \<subseteq>\<^sub>m m"
proof (induction m order rule: evict.induct)
  case (2 m oldest order)
  show ?case
  proof (cases "length (oldest # order) > MAX_TRACKED_TURNS")
    case True
    have "turns_ok (evict (m(oldest := None)) order) \<and>
        by_engine_session (evict (m(oldest := None)) order) \<subseteq>\<^sub>m m(oldest := None)"
    proof (rule 2(1) [OF True])
      show "distinct order" using 2(2) by simp
      have "oldest \<notin> set order" using 2(2) by simp
      then show "set order = dom (m(oldest := None))" using 2(3) by (simp only: dom_fun_upd list.set) auto
    qed
    moreover have "m(oldest := None) \<subseteq>\<^sub>m m" by (simp add: map_le_def)
    ultimately have "by_engine_session (evict (m(oldest := None)) order) \<subseteq>\<^sub>m m"
      using map_le_trans by blast
    with \<open>turns_ok (evict (m(oldest := None)) order) \<and> _\<close> True show ?thesis by simp
  qed (use 2 in \<open>simp add: turns_ok_def\<close>)
qed (simp add: turns_ok_def)

lemma publish_turn_ok:
  assumes "turns_ok reg"
  shows "turns_ok (publish_turn session entry reg) \<and>
    by_engine_session (publish_turn session entry reg) \<subseteq>\<^sub>m (by_engine_session reg)(session \<mapsto> entry)"
proof -
  let ?order = "if by_engine_session reg session = None then turn_order reg @ [session] else turn_order reg"
  have "distinct ?order" "set ?order = dom ((by_engine_session reg)(session \<mapsto> entry))"
    using assms by (auto simp: turns_ok_def)
  from evict_ok [OF this] show ?thesis by (simp add: publish_turn_def)
qed

lemma revoke_turn_ok:
  "turns_ok reg \<Longrightarrow> turns_ok (revoke_turn session reg) \<and>
     by_engine_session (revoke_turn session reg) = (by_engine_session reg)(session := None)"
  using order_trans [OF length_filter_le [of "\<lambda>i. i \<noteq> session" "turn_order reg"]]
  by (auto simp: turns_ok_def revoke_turn_def fun_upd_idem_iff)

lemma turns_replay:
  "turns_ok (replay publish_turn revoke_turn no_turns history) \<and>
   by_engine_session (replay publish_turn revoke_turn no_turns history) \<subseteq>\<^sub>m leased history"
proof (induction history)
  case (Cons event history)
  let ?reg = "replay publish_turn revoke_turn no_turns history"
  show ?case
  proof (cases event)
    case (Bound session entry)
    have "(by_engine_session ?reg)(session \<mapsto> entry) \<subseteq>\<^sub>m leased (event # history)"
      using Cons Bound by (auto simp: map_le_def)
    from map_le_trans [OF conjunct2 [OF publish_turn_ok] this] show ?thesis
      using publish_turn_ok [of ?reg session entry] Cons Bound by (simp del: leased.simps)
  next
    case (Dropped session)
    have "(by_engine_session ?reg)(session := None) \<subseteq>\<^sub>m leased (event # history)"
      using Cons Dropped by (auto simp: map_le_def)
    then show ?thesis
      using revoke_turn_ok [of ?reg session] Cons Dropped
      by (simp only: replay.simps simp_thms)
  qed
qed (simp add: no_turns_def turns_ok_def)

section \<open>Properties\<close>

text \<open>
  The registry of live turns never grants more than its leases do: after any history of
  published turns and dropped leases it tracks at most 64 turns, and an authority it returns for a
  session is the one last published for it and not revoked since.
\<close>

theorem live_turns_only:
  "case replay publish_turn revoke_turn no_turns history of reg \<Rightarrow>
     tracked_turns reg \<le> 64 \<and>
     (case authority_for_engine_session reg session of
        None \<Rightarrow> True
      | Some authority \<Rightarrow> map_option turn_authority (leased history session) = Some authority)"
proof -
  let ?reg = "replay publish_turn revoke_turn no_turns history"
  have ok: "turns_ok ?reg" and le: "by_engine_session ?reg \<subseteq>\<^sub>m leased history"
    using turns_replay by blast+
  have "tracked_turns ?reg \<le> 64"
    using ok distinct_card [of "turn_order ?reg"]
    by (simp add: tracked_turns_def turns_ok_def MAX_TRACKED_TURNS_def)
  moreover have "leased history session = by_engine_session ?reg session"
    if "by_engine_session ?reg session \<noteq> None"
    using le that unfolding map_le_def by (metis domIff)
  ultimately show ?thesis by (auto simp: authority_for_engine_session_def split: option.splits)
qed

end
