(* ===== verification/Task_Tools.thy ===== *)
theory Task_Tools
  imports Task_Work Turn_Authority Long_Task_Queue
begin

text \<open>
  The household's side of long tasks: the server \<open>giap-tasks\<close> of
  \<open>pond-mcp-server/src/long_task.rs\<close> and the storing of a new task,
  \<open>pond-core/src/shared/services/long_task_open.rs\<close>. The runner's bell is not state of the ledger and is
  left out. \<open>to_lowercase\<close> of a listing meets only the ASCII letters of the phrases it lowers.
\<close>

section \<open>Opening a task\<close>

record opening_brief =
  ob_summary :: ustr
  ob_body :: ustr

datatype open_error =
    OpenState long_task_state_refused
  | OpenStore store_error
  | OpenArtifact artifact_error
  | OpenPlan plan_error
  | OpenVanished ustr

definition store_brief ::
  "ledger \<Rightarrow> ustr \<Rightarrow> ustr \<Rightarrow> opening_brief option \<Rightarrow> timestamp \<Rightarrow> (ledger, open_error) result"
where
  "store_brief l fresh_id tid brief now =
     (case brief of
        None \<Rightarrow> Ok l
      | Some b \<Rightarrow>
          (case artifact_new fresh_id tid None Note BRIEF_TITLE (ob_summary b) (ob_body b) now of
             Err e \<Rightarrow> Err (OpenArtifact e)
           | Ok a \<Rightarrow>
               (case insert_artifact l a of Err e \<Rightarrow> Err (OpenStore e) | Ok l' \<Rightarrow> Ok l')))"

text \<open>A short answer's one step, and the start of its run.\<close>

definition start_short ::
  "ledger \<Rightarrow> long_task \<Rightarrow> timestamp \<Rightarrow> (long_task, open_error) result \<times> ledger"
where
  "start_short l task now =
     (case short_answer_plan task of
        Err e \<Rightarrow> (Err (OpenPlan e), l)
      | Ok plan \<Rightarrow>
          (case replace_open_steps l plan of
             Err e \<Rightarrow> (Err (OpenStore e), l)
           | Ok l' \<Rightarrow>
               (case set_task_state l' (task_id task) TaskRunning now of
                  Err e \<Rightarrow> (Err (OpenStore e), l')
                | Ok (None, l'') \<Rightarrow> (Err (OpenVanished (task_id task)), l'')
                | Ok (Some running, l'') \<Rightarrow> (Ok running, l''))))"

definition cancel_quietly :: "ledger \<Rightarrow> ustr \<Rightarrow> timestamp \<Rightarrow> ledger" where
  "cancel_quietly l tid now = (case set_task_state l tid TaskCancelled now of Ok (_, l') \<Rightarrow> l' | Err _ \<Rightarrow> l)"

definition open_task ::
  "ledger \<Rightarrow> ustr \<Rightarrow> long_task \<Rightarrow> opening_brief option \<Rightarrow> timestamp \<Rightarrow>
     (long_task, open_error) result \<times> ledger"
where
  "open_task l fresh_id task brief now =
     (let quick = (task_answer task = AnswerShort) in
      case (if quick then transition_to task Paused now else Ok task) of
        Err e \<Rightarrow> (Err (OpenState e), l)
      | Ok task \<Rightarrow>
          (case create_task l task of
             Err e \<Rightarrow> (Err (OpenStore e), l)
           | Ok created \<Rightarrow>
               (case store_brief created fresh_id (task_id task) brief now of
                  Err e \<Rightarrow> (Err e, created)
                | Ok briefed \<Rightarrow>
                    if \<not> quick then (Ok task, briefed)
                    else (case start_short briefed task now of
                            (Ok running, l') \<Rightarrow> (Ok running, l')
                          | (Err e, l') \<Rightarrow> (Err e, cancel_quietly l' (task_id task) now)))))"

section \<open>What is said of a task\<close>

definition GOAL_PREVIEW_CHARS :: nat where "GOAL_PREVIEW_CHARS = 120"
definition INSTRUCTIONS_PREVIEW_CHARS :: nat where "INSTRUCTIONS_PREVIEW_CHARS = 160"
definition NO_TASKS_RUNNING :: ustr where
  "NO_TASKS_RUNNING = lit ''There are no long tasks running for this person.''"

definition clip_text :: "ustr \<Rightarrow> nat \<Rightarrow> ustr" where
  "clip_text raw most =
     (let t = trim raw in
      if length t \<le> most then t else trim_end (take (most - 3) t) @ lit ''...'')"

fun state_phrase :: "long_task_state \<Rightarrow> ustr" where
  "state_phrase Planning = lit ''Planning its steps''"
| "state_phrase TaskRunning = lit ''Working on it''"
| "state_phrase TaskAwaitingApproval = lit ''Waiting for a decision''"
| "state_phrase Paused = lit ''Paused''"
| "state_phrase TaskCompleted = lit ''Finished''"
| "state_phrase TaskFailed = lit ''Failed''"
| "state_phrase TaskCancelled = lit ''Cancelled''"

definition progress_text :: "plan_step list \<Rightarrow> ustr" where
  "progress_text steps =
     (if steps = [] then lit ''No plan yet.''
      else (let finished = length (filter (\<lambda>s. ps_state s = StepCompleted) steps);
                skipped = length (filter (\<lambda>s. ps_state s = Skipped) steps)
            in show_nat finished @ lit '' of '' @ show_nat (length steps) @ lit '' steps done'' @
               (if skipped = 0 then lit ''.'' else lit '', '' @ show_nat skipped @ lit '' skipped.'')))"

definition current_step :: "long_task \<Rightarrow> plan_step list \<Rightarrow> plan_step option" where
  "current_step task steps =
     or_else (List.find (\<lambda>s. ps_state s = StepRunning) steps)
       (or_else
         (if task_state task = TaskAwaitingApproval
          then List.find (\<lambda>s. ps_state s = StepAwaitingApproval) steps else None)
         (next_ready_step steps))"

definition task_summary_for_notice ::
  "long_task \<Rightarrow> plan_step list \<Rightarrow> artifact_summary option \<Rightarrow> ustr"
where
  "task_summary_for_notice task steps res =
     join_with newline
       ([lit ''Task '' @ task_id task @ lit '': '' @ clip_text (task_goal task) GOAL_PREVIEW_CHARS,
         state_phrase (task_state task) @ lit ''. '' @ progress_text steps] @
        (if task_state_is_terminal (task_state task) then []
         else (case current_step task steps of
                 None \<Rightarrow> []
               | Some s \<Rightarrow> [lit ''Now on step `'' @ ps_key s @ lit ''`: '' @
                             clip_text (ps_instructions s) INSTRUCTIONS_PREVIEW_CHARS])) @
        (if task_state task \<noteq> TaskFailed then []
         else (case List.find (\<lambda>s. ps_state s = StepFailed) (rev steps) of
                 None \<Rightarrow> []
               | Some s \<Rightarrow> [lit ''Step `'' @ ps_key s @ lit ''` failed: '' @
                             (case ps_failure s of None \<Rightarrow> lit ''no reason was given'' | Some f \<Rightarrow> f)])) @
        (case res of
           Some r \<Rightarrow> [lit ''Result (artifact '' @ as_id r @ lit ''): '' @ as_summary r]
         | None \<Rightarrow> if task_state task = TaskCompleted
                    then [lit ''It finished without saving a result.''] else []))"

definition task_line :: "long_task \<Rightarrow> plan_step list \<Rightarrow> ustr" where
  "task_line task steps =
     lit ''- '' @ task_id task @ lit '': '' @ clip_text (task_goal task) GOAL_PREVIEW_CHARS @ lit '' ('' @
     to_ascii_lowercase (state_phrase (task_state task)) @ lit ''; '' @
     to_ascii_lowercase (rev (dropWhile (\<lambda>c. c = 46) (rev (progress_text steps)))) @ lit '')''"

section \<open>Which tasks a turn reaches\<close>

definition scope_reaches :: "profile_scope \<Rightarrow> long_task \<Rightarrow> bool" where
  "scope_reaches scope task =
     (case scope of
        Owner i \<Rightarrow> (case task_owner task of None \<Rightarrow> True | Some owner \<Rightarrow> owner = i)
      | Household \<Rightarrow> True
      | Guest \<Rightarrow> False)"

definition task_caller ::
  "bool \<Rightarrow> (ustr \<Rightarrow> delegation_authority option) \<Rightarrow> ustr option \<Rightarrow> (delegation_authority, refusal) result"
where
  "task_caller installed authorities session =
     (if \<not> installed then Err (Unavailable (lit ''deps_not_installed''))
      else case session of
        None \<Rightarrow> Err (NotHere (lit ''no_engine_session''))
      | Some s \<Rightarrow>
          (case authorities s of
             None \<Rightarrow> Err (NotHere (lit ''no_live_turn''))
           | Some authority \<Rightarrow>
               if \<not> is_root (auth_depth authority) then Err (NotHere (lit ''not_a_top_level_turn''))
               else if excludes_everything (auth_scope authority) then Err GuestRefused
               else Ok authority))"

definition reached_task :: "ledger \<Rightarrow> profile_scope \<Rightarrow> ustr \<Rightarrow> (long_task, refusal) result" where
  "reached_task l scope tid =
     (case get_task l tid of
        None \<Rightarrow> Err (UnknownTask (lit ''no_such_task''))
      | Some task \<Rightarrow>
          if \<not> scope_reaches scope task then Err (UnknownTask (lit ''task_of_another_member''))
          else Ok task)"

definition reached_tasks :: "ledger \<Rightarrow> profile_scope \<Rightarrow> long_task list" where
  "reached_tasks l scope =
     sort_key (\<lambda>t. - task_created_at t)
       (case scope of
          Owner i \<Rightarrow> list_tasks l (Member i) False @ list_tasks l Unowned False
        | Household \<Rightarrow> list_tasks l Everyone False
        | Guest \<Rightarrow> [])"

definition status_text ::
  "(uchar \<Rightarrow> bool) \<Rightarrow> ledger \<Rightarrow> profile_scope \<Rightarrow> ustr option \<Rightarrow> (ustr, refusal) result"
where
  "status_text beyond_ascii l scope asked =
     (case asked of
        Some tid \<Rightarrow>
          (case reached_task l scope tid of
             Err e \<Rightarrow> Err e
           | Ok task \<Rightarrow>
               Ok (task_summary_for_notice task (list_steps l (task_id task))
                     (result_artifact beyond_ascii (list_artifacts l (task_id task)))))
      | None \<Rightarrow>
          (let tasks = reached_tasks l scope in
           if tasks = [] then Ok NO_TASKS_RUNNING
           else Ok (join_with newline
                  ((lit ''Long tasks still running: '' @ show_nat (length tasks)) #
                   map (\<lambda>t. task_line t (list_steps l (task_id t))) tasks))))"

definition long_task_status_with ::
  "(uchar \<Rightarrow> bool) \<Rightarrow> ledger \<Rightarrow> profile_scope \<Rightarrow> ustr option \<Rightarrow> ustr option"
where
  "long_task_status_with beyond_ascii l scope asked =
     (case status_text beyond_ascii l scope asked of
        Ok t \<Rightarrow> if t \<noteq> NO_TASKS_RUNNING then Some t else None
      | Err _ \<Rightarrow> None)"

section \<open>The tools\<close>

definition GOAL_ALIASES :: "ustr list" where
  "GOAL_ALIASES = map lit [''task'', ''description'', ''request'', ''instructions'', ''prompt'']"
definition TASK_ID_ALIASES :: "ustr list" where
  "TASK_ID_ALIASES = map lit [''id'', ''task'', ''taskId'', ''task-id'']"

record task_start_params =
  ts_goal :: "ustr option"
  ts_brief :: "ustr option"
  ts_answer :: "ustr option"
  ts_extra :: extra_args

record task_id_params =
  ti_task_id :: "ustr option"
  ti_extra :: extra_args

definition task_id_of :: "task_id_params \<Rightarrow> ustr option" where
  "task_id_of params = or_else (non_blank (ti_task_id params)) (take_alias (ti_extra params) TASK_ID_ALIASES)"

definition started_text :: "long_task \<Rightarrow> ustr option \<Rightarrow> ustr" where
  "started_text task waiting =
     lit ''Started task '' @ task_id task @
     lit ''. The pond works on it while the household is quiet and tells the '' @
     lit ''person on their phone when it is done. Tell the person it has started; task_status '' @
     lit ''with this id says how far it has got.'' @
     (case waiting of None \<Rightarrow> [] | Some line \<Rightarrow> lit '' '' @ line)"

datatype start_refusal = StartRefused refusal | StartNotStored open_error

definition run_start ::
  "ustr \<Rightarrow> ustr \<Rightarrow> timestamp \<Rightarrow> bool \<Rightarrow> (ustr \<Rightarrow> delegation_authority option) \<Rightarrow> ledger \<Rightarrow> ustr option \<Rightarrow>
     task_start_params \<Rightarrow> (ustr, start_refusal) result \<times> ledger"
where
  "run_start fresh_task fresh_art now installed authorities l session params =
     (case task_caller installed authorities session of
        Err e \<Rightarrow> (Err (StartRefused e), l)
      | Ok authority \<Rightarrow>
          (case or_else (non_blank (ts_goal params)) (take_alias (ts_extra params) GOAL_ALIASES) of
             None \<Rightarrow> (Err (StartRefused (Malformed
               (lit ''task_start needs a `goal`: what the finished work should give the person, '' @
                lit ''in one or two sentences.''))), l)
           | Some goal \<Rightarrow>
               (case budget_new DEFAULT_LONG_TASK_STEPS None of
                  Err e \<Rightarrow> (Err (StartRefused (Rejected (RejectedTask e))), l)
                | Ok budget \<Rightarrow>
                    (let chosen = (case Option.bind
                           (or_else (non_blank (ts_answer params)) (take_alias (ts_extra params) ANSWER_ALIASES))
                           answer_shape_read of None \<Rightarrow> AnswerAuto | Some a \<Rightarrow> a)
                     in case task_start fresh_task (auth_scope authority) None goal
                               (Some (auth_session_id authority)) budget now of
                          Err e \<Rightarrow> (Err (StartRefused (Rejected (RejectedTask e))), l)
                        | Ok task \<Rightarrow>
                            (case open_task l fresh_art (with_answer task chosen)
                                    (map_option (\<lambda>body. \<lparr>ob_summary =
                                        lit ''What the conversation said that the goal leaves out'',
                                        ob_body = body\<rparr>)
                                      (Option.bind (ts_brief params) clip_brief)) now of
                               (Err e, l') \<Rightarrow> (Err (StartNotStored e), l')
                             | (Ok stored, l') \<Rightarrow>
                                 (Ok (started_text stored
                                    (Option.bind
                                      (place_of (run_order (list_tasks l' Everyone False)) (task_id stored)
                                        (task_owner stored))
                                      waiting_line)), l'))))))"

definition run_status ::
  "(uchar \<Rightarrow> bool) \<Rightarrow> bool \<Rightarrow> (ustr \<Rightarrow> delegation_authority option) \<Rightarrow> ledger \<Rightarrow> ustr option \<Rightarrow>
     task_id_params \<Rightarrow> (ustr, refusal) result"
where
  "run_status beyond_ascii installed authorities l session params =
     (case task_caller installed authorities session of
        Err e \<Rightarrow> Err e
      | Ok authority \<Rightarrow> status_text beyond_ascii l (auth_scope authority) (task_id_of params))"

definition run_cancel ::
  "timestamp \<Rightarrow> bool \<Rightarrow> (ustr \<Rightarrow> delegation_authority option) \<Rightarrow> ledger \<Rightarrow> ustr option \<Rightarrow> task_id_params \<Rightarrow>
     (ustr, refusal) result \<times> ledger"
where
  "run_cancel now installed authorities l session params =
     (case task_caller installed authorities session of
        Err e \<Rightarrow> (Err e, l)
      | Ok authority \<Rightarrow>
          (case task_id_of params of
             None \<Rightarrow> (Err (Malformed
               (lit ''task_cancel needs the `task_id` of the task to stop. Call task_status to find it.'')), l)
           | Some tid \<Rightarrow>
               (case reached_task l (auth_scope authority) tid of
                  Err e \<Rightarrow> (Err e, l)
                | Ok task \<Rightarrow>
                    (case set_task_state l (task_id task) TaskCancelled now of
                       Ok (Some cancelled, l') \<Rightarrow>
                         (Ok (lit ''Cancelled task '' @ task_id cancelled @ lit '': '' @
                              clip_text (task_goal cancelled) GOAL_PREVIEW_CHARS @
                              lit ''. Nothing more will run for it.''), l')
                     | Ok (None, l') \<Rightarrow> (Err (UnknownTask (lit ''deleted_while_cancelling'')), l')
                     | Err (TaskMoveRefused refused) \<Rightarrow> (Err (AlreadyFinished (refused_from refused)), l)
                     | Err e \<Rightarrow> (Err (StoreFailed e), l)))))"

section \<open>What an opened task looks like\<close>

lemma set_task_state_Some:
  assumes "set_task_state l i n at = Ok (Some t', l')"
  shows "get_task l' i = Some t' \<and> task_state t' = n \<and> task_id t' = i \<and> led_steps l' = led_steps l \<and>
    (\<exists>t. get_task l i = Some t \<and> transition_to t n at = Ok t')"
proof -
  obtain t where t: "get_task l i = Some t" "transition_to t n at = Ok t'" "l' = put_task l t'"
    using assms by (auto simp: set_task_state_def split: option.splits result.splits)
  have i: "task_id t' = i" and n: "task_state t' = n"
    using t(2) get_task_SomeD [OF t(1)] by (auto simp: transition_to_def split: if_splits)
  have "find (\<lambda>held. task_id held = task_id t') (update_first (\<lambda>held. task_id held = task_id t') t' (led_tasks l)) =
      Some t'"
    using t(1) i by (intro find_update_first_self) (auto simp: get_task_def)
  then show ?thesis
    using t i n by (simp add: get_task_def put_task_def)
qed

lemma set_task_state_other:
  "set_task_state l i n at = Ok (r, l') \<Longrightarrow> j \<noteq> i \<Longrightarrow> get_task l' j = get_task l j"
  using get_task_SomeD
  by (fastforce simp: set_task_state_def transition_to_def find_put_other
      split: option.splits result.splits if_splits)

lemma create_task_get:
  "create_task l t = Ok l' \<Longrightarrow> get_task l' (task_id t) = Some t \<and> led_steps l' = led_steps l"
proof -
  assume "create_task l t = Ok l'"
  then have l': "l' = l\<lparr>led_tasks := led_tasks l @ [t]\<rparr>" "task_id t \<notin> task_id ` set (led_tasks l)"
    by (simp_all add: create_task_Ok)
  have "find (\<lambda>held. task_id held = task_id t) (xs @ [t]) = Some t" if "task_id t \<notin> task_id ` set xs" for xs
    using that by (induction xs) auto
  with l' show ?thesis by (simp add: get_task_def)
qed

lemma store_brief_tasks:
  "store_brief l fresh_id tid brief now = Ok l' \<Longrightarrow>
     led_tasks l' = led_tasks l \<and> led_steps l' = led_steps l"
  by (auto simp: store_brief_def insert_artifact_Ok split: option.splits result.splits)

lemma short_answer_plan_keys:
  assumes "short_answer_plan task = Ok p"
  shows "vp_task_id p = task_id task \<and> vp_steps p \<noteq> [] \<and>
    (\<forall>s \<in> set (vp_steps p). ps_task_id s = task_id task)"
proof -
  note ok = validate_plan_ok_aux [OF assms [unfolded short_answer_plan_def]]
  have "length (vp_steps p) = 1"
    using validate_plan_shape [OF assms [unfolded short_answer_plan_def]]
    by (metis One_nat_def length_map list.size(3,4) add.commute plus_1_eq_Suc)
  moreover have "vp_task_id p = task_id task"
    using validate_plan_cases [OF assms [unfolded short_answer_plan_def]]
    by (metis validated_plan.select_convs(1))
  ultimately show ?thesis
    using plan_ok_well_keyed [OF ok] by (auto simp: well_keyed_def)
qed

lemma start_short_result:
  assumes "start_short l task now = (r, l')"
  shows "(\<exists>running. r = Ok running \<and> get_task l' (task_id task) = Some running \<and>
      task_state running = TaskRunning \<and> steps_held l' (task_id task) \<noteq> []) \<or>
    (\<exists>e. r = Err e) \<and> get_task l' (task_id task) = get_task l (task_id task)"
proof (cases "short_answer_plan task")
  case (Ok p)
  note keys = short_answer_plan_keys [OF Ok]
  show ?thesis
  proof (cases "replace_open_steps l p")
    case (Ok l1)
    then have tasks: "get_task l1 (task_id task) = get_task l (task_id task)"
      by (auto simp: replace_open_steps_Ok get_task_def)
    have held: "steps_held l1 (task_id task) \<noteq> []"
      using Ok keys by (cases "vp_steps p") (auto simp: replace_open_steps_Ok steps_held_def)
    show ?thesis
    proof (cases "set_task_state l1 (task_id task) TaskRunning now")
      case (Err e)
      then show ?thesis
        using assms \<open>short_answer_plan task = Ok p\<close> Ok tasks by (auto simp: start_short_def)
    next
      case (Ok rl)
      obtain t l2 where rl: "rl = (t, l2)" by (cases rl)
      show ?thesis
      proof (cases t)
        case None
        then have "l2 = l1" using Ok rl
          by (auto simp: set_task_state_def split: option.splits result.splits)
        then show ?thesis
          using assms \<open>short_answer_plan task = Ok p\<close> \<open>replace_open_steps l p = Ok l1\<close> Ok rl None tasks
          by (auto simp: start_short_def)
      next
        case (Some running)
        then have "set_task_state l1 (task_id task) TaskRunning now = Ok (Some running, l2)"
          using Ok rl by simp
        from set_task_state_Some [OF this] show ?thesis
          using assms \<open>short_answer_plan task = Ok p\<close> \<open>replace_open_steps l p = Ok l1\<close> Ok rl Some held
          by (simp add: start_short_def steps_held_def)
      qed
    qed
  qed (use assms Ok in \<open>auto simp: start_short_def\<close>)
qed (use assms in \<open>auto simp: start_short_def\<close>)

lemma cancel_quietly_state:
  assumes "get_task l tid = Some t" "task_state t \<noteq> Planning"
  shows "\<exists>t'. get_task (cancel_quietly l tid now) tid = Some t' \<and> task_state t' \<in> {task_state t, TaskCancelled}"
proof (cases "set_task_state l tid TaskCancelled now")
  case (Ok rl)
  obtain r l' where rl: "rl = (r, l')" by (cases rl)
  show ?thesis
  proof (cases r)
    case None
    then show ?thesis using Ok rl assms(1)
      by (auto simp: set_task_state_def split: result.splits)
  next
    case (Some t')
    then have "set_task_state l tid TaskCancelled now = Ok (Some t', l')" using Ok rl by simp
    from set_task_state_Some [OF this] show ?thesis using Ok rl by (simp add: cancel_quietly_def)
  qed
qed (use assms in \<open>simp add: cancel_quietly_def\<close>)

section \<open>Properties\<close>

text \<open>
  A short answer the member chose is never left for a planner. However opening it goes, on any
  ledger, its stored row is never in the planning state: either its one step is stored and it is
  running, as the call says, or the call fails and the row is absent, paused or cancelled.
\<close>

theorem short_answer_never_planned:
  assumes "open_task l fresh_id task brief now = (r, l')" "task_answer task = AnswerShort"
    and "get_task l (task_id task) = None"
  shows "(\<exists>running. r = Ok running \<and> get_task l' (task_id task) = Some running \<and>
      task_state running = TaskRunning \<and> steps_held l' (task_id task) \<noteq> []) \<or>
    (\<exists>e. r = Err e) \<and> (case get_task l' (task_id task) of
       None \<Rightarrow> True | Some t \<Rightarrow> task_state t = Paused \<or> task_state t = TaskCancelled)"
proof (cases "transition_to task Paused now")
  case (Err e)
  then show ?thesis using assms by (auto simp: open_task_def)
next
  case (Ok paused)
  then have p: "task_id paused = task_id task" "task_state paused = Paused"
    by (auto simp: transition_to_def split: if_splits)
  show ?thesis
  proof (cases "create_task l paused")
    case (Err e)
    then show ?thesis using assms Ok by (auto simp: open_task_def)
  next
    case created: (Ok l1)
    then have g1: "get_task l1 (task_id task) = Some paused" using create_task_get p by metis
    show ?thesis
    proof (cases "store_brief l1 fresh_id (task_id paused) brief now")
      case (Err e)
      then show ?thesis using assms Ok created g1 p by (auto simp: open_task_def)
    next
      case briefed: (Ok l2)
      then have g2: "get_task l2 (task_id task) = Some paused"
        using g1 store_brief_tasks [OF briefed] by (simp add: get_task_def)
      obtain r2 l3 where s: "start_short l2 paused now = (r2, l3)" by (cases "start_short l2 paused now")
      show ?thesis
      proof (cases r2)
        case (Ok running)
        then show ?thesis
          using start_short_result [OF s] assms(1,2) \<open>transition_to task Paused now = Ok paused\<close> created
            briefed s p by (auto simp: open_task_def)
      next
        case (Err e)
        then have g3: "get_task l3 (task_id task) = Some paused"
          using start_short_result [OF s] g2 p by auto
        obtain t' where "get_task (cancel_quietly l3 (task_id task) now) (task_id task) = Some t'"
          "task_state t' \<in> {Paused, TaskCancelled}"
          using cancel_quietly_state [OF g3] p by auto
        then show ?thesis
          using assms(1,2) \<open>transition_to task Paused now = Ok paused\<close> created briefed s p Err
          by (auto simp: open_task_def)
      qed
    qed
  qed
qed

theorem short_answer_never_planned_witness:
  "case open_task empty_ledger (lit ''b'') (with_answer example_task AnswerShort) None 20 of (r, l') \<Rightarrow>
     is_ok r \<and> steps_held l' (lit ''t1'') \<noteq> []"
proof -
  let ?t = "with_answer example_task AnswerShort"
  obtain r l' where o: "open_task empty_ledger (lit ''b'') ?t None 20 = (r, l')"
    by (cases "open_task empty_ledger (lit ''b'') ?t None 20")
  have paused: "transition_to ?t Paused 20 = Ok (?t\<lparr>task_state := Paused, task_updated_at := 20\<rparr>)"
    by (simp add: transition_to_def with_answer_def example_task_def)
  obtain p s where plan: "short_answer_plan (?t\<lparr>task_state := Paused, task_updated_at := 20\<rparr>) = Ok p"
    "vp_kept p = []" "vp_task_id p = lit ''t1''" "vp_steps p = [s]"
    using short_answer_plan_Ok [of "?t\<lparr>task_state := Paused, task_updated_at := 20\<rparr>"]
      short_answer_plan_keys
    by (force simp: with_answer_def example_task_def example_budget_def)
  have "is_ok r"
    using o paused plan
    by (auto simp: open_task_def with_answer_def example_task_def create_task_def empty_ledger_def
        store_brief_def start_short_def replace_open_steps_def get_task_def steps_held_def
        check_current_def set_task_state_def transition_to_def Let_def split: result.splits if_splits)
  moreover have "get_task empty_ledger (task_id ?t) = None" by (simp add: get_task_def empty_ledger_def)
  ultimately show ?thesis
    using short_answer_never_planned [OF o] o
    by (auto simp: with_answer_def example_task_def)
qed

text \<open>
  A member sees and stops only the household's and their own tasks. The listing a scope is given
  is exactly its open tasks, newest first; a task out of reach is answered like an id that does not
  exist; and a cancel changes the ledger only by cancelling one task the caller reaches.
\<close>

theorem member_reaches_own_tasks:
  assumes "ledger_inv l" "task_caller installed authorities session = Ok authority"
  shows "set (reached_tasks l (auth_scope authority)) =
      {t \<in> set (led_tasks l). scope_reaches (auth_scope authority) t \<and>
         \<not> task_state_is_terminal (task_state t)} \<and>
    sorted (map (\<lambda>t. - task_created_at t) (reached_tasks l (auth_scope authority))) \<and>
    (case run_cancel now installed authorities l session params of
       (Ok _, l') \<Rightarrow> \<exists>tid t t'. task_id_of params = Some tid \<and> get_task l tid = Some t \<and>
           scope_reaches (auth_scope authority) t \<and> get_task l' tid = Some t' \<and>
           task_state t' = TaskCancelled \<and> same_other_tasks l l' tid
     | (Err e, l') \<Rightarrow> l' = l)"
proof (intro conjI)
  have not_guest: "auth_scope authority \<noteq> Guest"
    using assms(2)
    by (auto simp: task_caller_def split: if_splits option.splits)
  then show "set (reached_tasks l (auth_scope authority)) =
      {t \<in> set (led_tasks l). scope_reaches (auth_scope authority) t \<and>
         \<not> task_state_is_terminal (task_state t)}"
    by (cases "auth_scope authority")
       (auto simp: reached_tasks_def list_tasks_def owned_by_def scope_reaches_def split: option.splits)
  show "sorted (map (\<lambda>t. - task_created_at t) (reached_tasks l (auth_scope authority)))"
    by (simp add: reached_tasks_def)
  show "case run_cancel now installed authorities l session params of
       (Ok _, l') \<Rightarrow> \<exists>tid t t'. task_id_of params = Some tid \<and> get_task l tid = Some t \<and>
           scope_reaches (auth_scope authority) t \<and> get_task l' tid = Some t' \<and>
           task_state t' = TaskCancelled \<and> same_other_tasks l l' tid
     | (Err e, l') \<Rightarrow> l' = l"
  proof (cases "task_id_of params")
    case (Some tid)
    show ?thesis
    proof (cases "reached_task l (auth_scope authority) tid")
      case (Ok task)
      then have t: "get_task l tid = Some task" "scope_reaches (auth_scope authority) task"
        by (auto simp: reached_task_def split: option.splits if_splits)
      then have tid: "task_id task = tid" using get_task_SomeD by blast
      show ?thesis
      proof (cases "transition_to task TaskCancelled now")
        case (Err e)
        then show ?thesis
          using assms(2) Some Ok t tid by (simp add: run_cancel_def set_task_state_def)
      next
        case moved: (Ok t')
        then have s: "set_task_state l tid TaskCancelled now = Ok (Some t', put_task l t')"
          using t by (simp add: set_task_state_def)
        have "same_other_tasks l (put_task l t') tid"
          using set_task_state_other [OF s] set_task_state_tasks [OF s]
          by (simp add: same_other_tasks_def steps_held_def list_artifacts_def)
        then show ?thesis
          using assms(2) Some Ok t tid s set_task_state_Some [OF s] by (simp add: run_cancel_def)
      qed
    qed (use assms(2) Some in \<open>simp add: run_cancel_def\<close>)
  qed (use assms(2) in \<open>simp add: run_cancel_def\<close>)
qed

definition example_turn :: delegation_authority where
  "example_turn = root_authority (lit ''s'') (Owner (lit ''ana'')) {}"

theorem member_reaches_own_tasks_witness:
  "set (reached_tasks example_ledger (Owner (lit ''ana''))) = {example_task}"
proof -
  have "task_caller True (\<lambda>_. Some example_turn) (Some (lit ''e'')) = Ok example_turn"
    by (simp add: task_caller_def example_turn_def root_authority_def is_root_def ROOT_DEPTH_def)
  from member_reaches_own_tasks [OF ledger_steps_inv [OF example_ledger_made ledger_inv_empty] this]
  show ?thesis
    by (auto simp: example_turn_def root_authority_def example_ledger_def scope_reaches_def
        example_task_def)
qed

end
