(* ===== verification/Activation_Queue.thy ===== *)
theory Activation_Queue
  imports Activation_Tasks Task_Tools
begin

text \<open>
  Queueing a firing: \<open>queue\<close> of \<open>pond-server/src/agent_activations.rs\<close>. The household's members, by id
  and display name, are an argument; the store's reads do not fail here.
\<close>

definition goal_prefix :: "ustr \<Rightarrow> ustr" where
  "goal_prefix agent = agent @ lit '':''"

definition open_run_of :: "ustr \<Rightarrow> long_task \<Rightarrow> bool" where
  "open_run_of agent t \<longleftrightarrow> is_activation_task t \<and> prefix (goal_prefix agent) (task_goal t)"

definition firing_member :: "firing_reason \<Rightarrow> ustr option" where
  "firing_member reason = (case reason of ByEvent matched \<Rightarrow> em_member matched | _ \<Rightarrow> None)"

text \<open>The task is stored paused, given its step and then started; cancelled if that fails.\<close>

definition store_activation :: "ledger \<Rightarrow> long_task \<Rightarrow> validated_plan \<Rightarrow> timestamp \<Rightarrow> bool \<times> ledger" where
  "store_activation l task plan now =
     (case replace_open_steps l plan of
        Err _ \<Rightarrow> (False, cancel_quietly l (task_id task) now)
      | Ok l' \<Rightarrow>
          (case set_task_state l' (task_id task) TaskRunning now of
             Ok (Some _, l'') \<Rightarrow> (True, l'')
           | Ok (None, l'') \<Rightarrow> (False, cancel_quietly l'' (task_id task) now)
           | Err _ \<Rightarrow> (False, cancel_quietly l' (task_id task) now)))"

definition queue_new ::
  "ustr \<Rightarrow> timestamp \<Rightarrow> (ustr \<times> ustr) list \<Rightarrow> activation_agent \<Rightarrow> firing \<Rightarrow> activation_book \<Rightarrow> ledger \<Rightarrow>
     activation_book \<times> ledger"
where
  "queue_new fresh_id now members agent firing book l =
     (let member = firing_member (fire_reason firing);
          owner = activation_owner member (aa_owner agent)
      in case activation_scope owner (length members) of
           None \<Rightarrow> (book, l)
         | Some scope \<Rightarrow>
             (let member_name = Option.bind member (map_of members);
                  instructions = activation_instructions (fire_brief firing)
                    (firing_reason_line (fire_reason firing) member_name)
              in case activation_task fresh_id (aa_role agent) instructions scope owner now of
                   Err _ \<Rightarrow> (book, l)
                 | Ok (task, plan) \<Rightarrow>
                     (case create_task l task of
                        Err _ \<Rightarrow> (book, l)
                      | Ok created \<Rightarrow>
                          (case store_activation created task plan now of
                             (True, l') \<Rightarrow> (note_task (fire_key firing) (task_id task) book, l')
                           | (False, l') \<Rightarrow> (book, l')))))"

definition last_run_open :: "activation_book \<Rightarrow> ledger \<Rightarrow> activation_key \<Rightarrow> bool" where
  "last_run_open book l key =
     (case Option.bind (task_for book key) (get_task l) of
        None \<Rightarrow> False
      | Some task \<Rightarrow> \<not> task_state_is_terminal (task_state task))"

definition queue_firing ::
  "ustr \<Rightarrow> timestamp \<Rightarrow> (ustr \<times> ustr) list \<Rightarrow> activation_agent list \<Rightarrow> firing \<Rightarrow> activation_book \<Rightarrow> ledger \<Rightarrow>
     activation_book \<times> ledger"
where
  "queue_firing fresh_id now members agents firing book l =
     (case List.find (\<lambda>a. role_name (aa_role a) = fire_agent firing) agents of
        None \<Rightarrow> (book, l)
      | Some agent \<Rightarrow>
          if last_run_open book l (fire_key firing) then (book, l)
          else (case List.find (open_run_of (fire_agent firing)) (list_tasks l Everyone False) of
                  Some existing \<Rightarrow> (note_task (fire_key firing) (task_id existing) book, l)
                | None \<Rightarrow> queue_new fresh_id now members agent firing book l))"

section \<open>What a firing adds\<close>

definition open_runs :: "ustr \<Rightarrow> ledger \<Rightarrow> long_task list" where
  "open_runs agent l =
     filter (\<lambda>t. open_run_of agent t \<and> \<not> task_state_is_terminal (task_state t)) (led_tasks l)"

lemma set_task_state_led:
  assumes "set_task_state l i n at = Ok (r, l')"
  shows "led_tasks l' = led_tasks l \<or>
    (\<exists>t t'. get_task l i = Some t \<and> transition_to t n at = Ok t' \<and>
       led_tasks l' = update_first (\<lambda>held. task_id held = task_id t') t' (led_tasks l))"
  using assms by (auto simp: set_task_state_def put_task_def split: option.splits result.splits)

text \<open>Moving a task's state adds no open run: terminal states have no successors.\<close>

lemma update_first_filter_length:
  assumes "find p xs = Some x" "q y \<longrightarrow> q x"
  shows "length (filter q (update_first p y xs)) \<le> length (filter q xs)"
  using assms(1)
proof (induction xs)
  case (Cons a xs)
  then show ?case using assms(2) by (cases "p a") (auto split: if_splits)
qed simp

lemma set_task_state_open_runs:
  assumes "set_task_state l i n at = Ok (r, l')"
  shows "length (open_runs agent l') \<le> length (open_runs agent l)"
proof (cases "led_tasks l' = led_tasks l")
  case False
  then obtain t t' where t: "get_task l i = Some t" "transition_to t n at = Ok t'"
    "led_tasks l' = update_first (\<lambda>held. task_id held = task_id t') t' (led_tasks l)"
    using set_task_state_led [OF assms] by blast
  have same: "task_id t' = task_id t" "task_goal t' = task_goal t" "task_id t = i"
    and moved: "\<not> task_state_is_terminal (task_state t)"
    using t(2) get_task_SomeD [OF t(1)] task_terminal_no_move
    by (auto simp: transition_to_def split: if_splits)
  have "find (\<lambda>held. task_id held = task_id t') (led_tasks l) = Some t"
    using t(1) same by (simp add: get_task_def)
  from update_first_filter_length [OF this] show ?thesis
    using t(3) same moved by (simp add: open_runs_def open_run_of_def is_activation_task_def)
qed (simp add: open_runs_def)

lemma cancel_quietly_open_runs:
  "length (open_runs agent (cancel_quietly l tid now)) \<le> length (open_runs agent l)"
  using set_task_state_open_runs by (auto simp: cancel_quietly_def split: result.splits)

lemma replace_open_steps_open_runs:
  "replace_open_steps l p = Ok l' \<Longrightarrow> open_runs agent l' = open_runs agent l"
  by (auto simp: replace_open_steps_Ok open_runs_def)

lemma store_activation_open_runs:
  assumes "store_activation l task plan now = (ok, l')"
  shows "length (open_runs agent l') \<le> length (open_runs agent l)"
proof (cases "replace_open_steps l plan")
  case (Err e)
  then show ?thesis using assms cancel_quietly_open_runs by (auto simp: store_activation_def)
next
  case (Ok l1)
  note same = replace_open_steps_open_runs [OF Ok, of agent]
  show ?thesis
  proof (cases "set_task_state l1 (task_id task) TaskRunning now")
    case (Err e)
    then show ?thesis
      using assms Ok same cancel_quietly_open_runs [of agent l1] by (auto simp: store_activation_def)
  next
    case moved: (Ok rl)
    obtain r l2 where rl: "rl = (r, l2)" by (cases rl)
    have "length (open_runs agent l2) \<le> length (open_runs agent l)"
      using set_task_state_open_runs [of l1 "task_id task" TaskRunning now r l2 agent] moved rl same by simp
    then show ?thesis
      using assms Ok moved rl cancel_quietly_open_runs [of agent l2 "task_id task" now]
      by (cases r) (auto simp: store_activation_def)
  qed
qed

lemma queue_new_open_runs:
  assumes "queue_new fresh_id now members a firing book l = (book', l')"
  shows "length (open_runs agent l') \<le> length (open_runs agent l) + 1"
proof (cases "l' = l")
  case False
  obtain scope where scope: "activation_scope
      (activation_owner (firing_member (fire_reason firing)) (aa_owner a)) (length members) = Some scope"
    using assms False by (auto simp: queue_new_def Let_def split: option.splits)
  let ?instructions = "activation_instructions (fire_brief firing) (firing_reason_line (fire_reason firing)
      (Option.bind (firing_member (fire_reason firing)) (map_of members)))"
  obtain task plan where task: "activation_task fresh_id (aa_role a) ?instructions scope
      (activation_owner (firing_member (fire_reason firing)) (aa_owner a)) now = Ok (task, plan)"
    using assms False scope by (auto simp: queue_new_def Let_def split: result.splits)
  obtain created where created: "create_task l task = Ok created"
    using assms False scope task by (auto simp: queue_new_def Let_def split: result.splits)
  obtain ok where "store_activation created task plan now = (ok, l')"
    using assms scope task created
    by (auto simp: queue_new_def Let_def split: result.splits prod.splits bool.splits)
  from store_activation_open_runs [OF this, of agent] show ?thesis
    using created by (auto simp: create_task_Ok open_runs_def split: if_splits)
qed simp

section \<open>Properties\<close>

text \<open>
  An agent's runs never pile up: queueing a firing keeps the number of the agent's open
  activation runs at one at most, however often its schedule or its events fire, and while one is
  open a further firing leaves the ledger as it is.
\<close>

theorem one_open_run_per_agent:
  assumes "queue_firing fresh_id now members agents firing book l = (book', l')"
    and "length (open_runs (fire_agent firing) l) \<le> 1"
  shows "length (open_runs (fire_agent firing) l') \<le> 1 \<and>
    (open_runs (fire_agent firing) l \<noteq> [] \<longrightarrow> l' = l)"
proof -
  have found: "List.find (open_run_of (fire_agent firing)) (list_tasks l Everyone False) = None \<longleftrightarrow>
      open_runs (fire_agent firing) l = []"
    by (auto simp: find_None_iff open_runs_def list_tasks_def owned_by_def filter_empty_conv)
  show ?thesis
  proof (cases "open_runs (fire_agent firing) l = []")
    case True
    then show ?thesis
      using assms found queue_new_open_runs [of fresh_id now members _ firing book l book' l' "fire_agent firing"]
      by (auto simp: queue_firing_def split: option.splits if_splits)
  next
    case False
    then have "l' = l"
      using assms(1) found by (auto simp: queue_firing_def split: option.splits if_splits)
    with assms(2) show ?thesis by simp
  qed
qed

definition example_firing :: firing where
  "example_firing = \<lparr>fire_key = \<lparr>ak_agent = lit ''Weather'', ak_index = 0, ak_fingerprint = 0\<rparr>, fire_agent = lit ''Weather'',
     fire_brief = lit ''Look outside.'', fire_reason = BySchedule (lit ''0 0 7 * * *'')\<rparr>"

theorem one_open_run_per_agent_witness:
  "length (open_runs (lit ''Weather'') (snd (queue_firing (lit ''x'') 0 [(lit ''ana'', lit ''Ana'')]
     [\<lparr>aa_role = example_role, aa_owner = Some (lit ''ana'')\<rparr>] example_firing empty_book empty_ledger))) \<le> 1"
proof -
  have "fire_agent example_firing = lit ''Weather''" "open_runs (lit ''Weather'') empty_ledger = []"
    by (simp_all add: example_firing_def open_runs_def empty_ledger_def)
  with one_open_run_per_agent [OF surjective_pairing, of example_firing empty_ledger "lit ''x''" 0
      "[(lit ''ana'', lit ''Ana'')]" "[\<lparr>aa_role = example_role, aa_owner = Some (lit ''ana'')\<rparr>]" empty_book]
  show ?thesis by simp
qed

end
