(* ===== verification/Lane.thy ===== *)
theory Lane
  imports Activation_Queue
begin

text \<open>
  One slot of the long-task runner: \<open>advance_long_task\<close>, \<open>LongTaskHelpers::run\<close>, the recovery at
  start and the notices of \<open>pond-server/src/main.rs\<close>, with the after actions of
  \<open>pond-server/src/agent_activations.rs\<close>. The code threads the ledger, the registries and the counts
  of fruitless plans through many fallible calls; here that is the type \<open>'a lane\<close>, a state
  passed along and returned also when a call fails, since what was written stays written.

  What the process does not decide comes from \<open>lane_env\<close>: the clock, fresh ids, the texts of
  \<open>chrono\<close> and \<open>serde_json\<close>, the texts of errors, what the before hooks gathered, and the orchestrator, which answers a spawned
  helper with the events of its run (its own tool calls, and what the household writes meanwhile) and
  with how the run ended. Each event goes through the modelled tools and the modelled ledger.
\<close>

section \<open>State and errors\<close>

datatype lane_error =
    RunRefused delegation_refused
  | SpawnFailed ustr
  | LaneStore store_error
  | LaneStep step_state_refused

record lane_notice =
  notice_owner :: ustr
  notice_title :: ustr
  notice_body :: ustr

record lane_state =
  ln_work :: work_state
  ln_fruitless :: "ustr \<rightharpoonup> u32"
  ln_notices :: "lane_notice list"

abbreviation ln_ledger :: "lane_state \<Rightarrow> ledger" where
  "ln_ledger st \<equiv> ws_ledger (ln_work st)"

definition with_ledger :: "lane_state \<Rightarrow> ledger \<Rightarrow> lane_state" where
  "with_ledger st l = st\<lparr>ln_work := (ln_work st)\<lparr>ws_ledger := l\<rparr>\<rparr>"

type_synonym 'a lane = "lane_state \<Rightarrow> ('a, lane_error) result \<times> lane_state"

definition lane_return :: "'a \<Rightarrow> 'a lane" where
  "lane_return v st = (Ok v, st)"

definition lane_fail :: "lane_error \<Rightarrow> 'a lane" where
  "lane_fail e st = (Err e, st)"

definition lane_bind :: "'a lane \<Rightarrow> ('a \<Rightarrow> 'b lane) \<Rightarrow> 'b lane" where
  "lane_bind m f st = (case m st of (Ok v, st') \<Rightarrow> f v st' | (Err e, st') \<Rightarrow> (Err e, st'))"

definition lane_then :: "unit lane \<Rightarrow> 'b lane \<Rightarrow> 'b lane" where
  "lane_then m n = lane_bind m (\<lambda>_. n)"

definition lane_read :: "(ledger \<Rightarrow> 'a) \<Rightarrow> 'a lane" where
  "lane_read f st = (Ok (f (ln_ledger st)), st)"

definition lane_checked :: "('a, step_state_refused) result \<Rightarrow> 'a lane" where
  "lane_checked r = (case r of Ok v \<Rightarrow> lane_return v | Err e \<Rightarrow> lane_fail (LaneStep e))"

definition lane_put :: "plan_step \<Rightarrow> unit lane" where
  "lane_put s st =
     (case update_step (ln_ledger st) s of
        Ok l \<Rightarrow> (Ok (), with_ledger st l)
      | Err e \<Rightarrow> (Err (LaneStore e), st))"

definition lane_insert :: "artifact \<Rightarrow> unit lane" where
  "lane_insert a st =
     (case insert_artifact (ln_ledger st) a of
        Ok l \<Rightarrow> (Ok (), with_ledger st l)
      | Err e \<Rightarrow> (Err (LaneStore e), st))"

definition lane_set_state :: "ustr \<Rightarrow> long_task_state \<Rightarrow> timestamp \<Rightarrow> unit lane" where
  "lane_set_state tid n at st =
     (case set_task_state (ln_ledger st) tid n at of
        Ok (_, l) \<Rightarrow> (Ok (), with_ledger st l)
      | Err e \<Rightarrow> (Err (LaneStore e), st))"

definition lane_forget :: "ustr \<Rightarrow> unit lane" where
  "lane_forget tid st = (Ok (), st\<lparr>ln_fruitless := (ln_fruitless st)(tid := None)\<rparr>)"

definition fruitless_of :: "lane_state \<Rightarrow> ustr \<Rightarrow> u32" where
  "fruitless_of st tid = (case ln_fruitless st tid of None \<Rightarrow> 0 | Some n \<Rightarrow> n)"

definition lane_count :: "ustr \<Rightarrow> unit lane" where
  "lane_count tid st = (Ok (), st\<lparr>ln_fruitless := (ln_fruitless st)(tid \<mapsto> fruitless_of st tid + 1)\<rparr>)"

section \<open>Notices\<close>

definition truncate_goal :: "ustr \<Rightarrow> ustr" where
  "truncate_goal goal = (if length goal > 60 then trim_end (take 60 goal) @ lit ''...'' else goal)"

text \<open>A notice keeps what its owner reads; its id, category and link are left out.\<close>

definition notify_long_task_owner :: "long_task \<Rightarrow> bool \<Rightarrow> ustr \<Rightarrow> unit lane" where
  "notify_long_task_owner task finished body st =
     (case task_owner task of
        None \<Rightarrow> (Ok (), st)
      | Some owner \<Rightarrow>
          (Ok (), st\<lparr>ln_notices := ln_notices st @
             [\<lparr>notice_owner = owner,
               notice_title = (if finished then lit ''Task done'' else lit ''Task stopped'') @ lit '': '' @
                 truncate_goal (task_goal task),
               notice_body = body\<rparr>]\<rparr>))"

definition notify_if :: "bool \<Rightarrow> long_task \<Rightarrow> bool \<Rightarrow> ustr \<Rightarrow> unit lane" where
  "notify_if wanted task finished body =
     (if wanted then notify_long_task_owner task finished body else lane_return ())"

section \<open>What happens while a helper runs\<close>

datatype helper_call =
    ToolWrite ustr timestamp artifact_write_params
  | ToolReport "(ustr \<times> json option) list" json_object
  | ToolPlan plan_write_params

text \<open>The household's writes: a task opened, a firing queued, a task moved or deleted, an artifact deleted.\<close>

datatype household_write =
    HouseOpen ustr long_task "opening_brief option" timestamp
  | HouseQueue ustr timestamp "(ustr \<times> ustr) list" "activation_agent list" firing activation_book
  | HouseState ustr long_task_state timestamp
  | HouseDelete ustr
  | HouseDeleteArtifact ustr ustr

datatype run_event = HelperCall helper_call | HouseWrite household_write

record lane_env =
  le_clock :: "nat \<Rightarrow> timestamp"
  le_fresh :: "nat \<Rightarrow> ustr"
  le_child :: "nat \<Rightarrow> ustr"
  le_spawn :: "nat \<Rightarrow> step_bindings task_spec \<Rightarrow> run_event list \<times> (task_run, ustr) result"
  le_json_parse :: "ustr \<Rightarrow> json option"
  le_json_text :: "json \<Rightarrow> ustr"
  le_serde_text :: "serde_error \<Rightarrow> ustr"
  le_beyond_ascii :: "uchar \<Rightarrow> bool"
  le_format_date :: "timestamp \<Rightarrow> ustr"
  le_error_text :: "lane_error \<Rightarrow> ustr"
  le_hooks :: before_hook_context

fun house_write :: "household_write \<Rightarrow> ledger \<Rightarrow> ledger" where
  "house_write (HouseOpen fresh_id t brief now) l = snd (open_task l fresh_id t brief now)"
| "house_write (HouseQueue fresh_id now members agents firing book) l =
     snd (queue_firing fresh_id now members agents firing book l)"
| "house_write (HouseState tid n at) l =
     (case set_task_state l tid n at of Ok (_, l') \<Rightarrow> l' | Err _ \<Rightarrow> l)"
| "house_write (HouseDelete tid) l = snd (delete_task l tid)"
| "house_write (HouseDeleteArtifact tid aid) l = snd (delete_artifact l tid aid)"

fun helper_call_effect :: "lane_env \<Rightarrow> ustr \<Rightarrow> helper_call \<Rightarrow> work_state \<Rightarrow> work_state" where
  "helper_call_effect env child (ToolWrite fresh_id now params) w =
     snd (run_write (le_json_text env) fresh_id now True w (Some child) params)"
| "helper_call_effect env child (ToolReport named extra) w =
     snd (run_report (le_json_text env) True w (Some child) named extra)"
| "helper_call_effect env child (ToolPlan params) w =
     snd (run_plan (le_json_parse env) (le_serde_text env) True w (Some child) params)"

fun run_event_effect :: "lane_env \<Rightarrow> ustr \<Rightarrow> work_state \<Rightarrow> run_event \<Rightarrow> work_state" where
  "run_event_effect env child w (HelperCall call) = helper_call_effect env child call w"
| "run_event_effect env child w (HouseWrite hw) = w\<lparr>ws_ledger := house_write hw (ws_ledger w)\<rparr>"

section \<open>One helper's life\<close>

text \<open>
  The \<open>n\<close>th helper of this slot. Its child session works for the run's root session while it
  lives; the binding holds its hand-back until the runner takes it, and drops when the call returns.
\<close>

definition spawn_helper ::
  "lane_env \<Rightarrow> nat \<Rightarrow> ustr \<Rightarrow> step_binding \<Rightarrow> step_bindings task_spec \<Rightarrow> lane_state \<Rightarrow>
     (task_run, ustr) result \<times> step_outcome option \<times> ustr list \<times> lane_state"
where
  "spawn_helper env n root b spec st =
     (let child = le_child env n;
          bound = (ln_work st)
            \<lparr>ws_bindings := run_bind root b (ws_bindings (ln_work st)),
             ws_children := child_bind child
               \<lparr>child_parent = root, child_scope = child_scope_get (spec_scope spec)\<rparr>
               (ws_children (ln_work st))\<rparr>;
          (events, ended) = le_spawn env n spec;
          ran = foldl (run_event_effect env child) bound events;
          (reported, bs1) = take_report root (ws_bindings ran);
          (written, bs2) = take_written root bs1
      in (ended, reported, written,
          st\<lparr>ln_work := ran\<lparr>ws_bindings := run_drop root bs2,
               ws_children := child_drop child (ws_children ran)\<rparr>\<rparr>))"

definition keep_reply ::
  "lane_env \<Rightarrow> nat \<Rightarrow> long_task \<Rightarrow> reply_draft option \<Rightarrow> step_outcome option \<Rightarrow> ustr list \<Rightarrow> task_run \<Rightarrow>
     (ustr list \<times> task_run) lane"
where
  "keep_reply env n task draft reported written run =
     (case (if reported = None \<and> written = []
            then Option.bind draft (\<lambda>d. reply_as_draft (le_fresh env (3 * n + 2)) (le_json_parse env)
                   (le_json_text env) task d run (le_clock env (3 * n + 1)))
            else None) of
        None \<Rightarrow> lane_return (written, run)
      | Some a \<Rightarrow> lane_then (lane_insert a)
          (lane_return (written @ [art_id a], run\<lparr>run_result := Some (art_summary a)\<rparr>)))"

definition run_helper ::
  "lane_env \<Rightarrow> nat \<Rightarrow> long_task \<Rightarrow> agent_role \<Rightarrow> step_work \<Rightarrow> ustr \<Rightarrow> bool \<Rightarrow> reply_draft option \<Rightarrow>
     run_end lane"
where
  "run_helper env n task role work brief may_retry draft st =
     (let root = long_task_session_id (task_id task) (le_fresh env (3 * n));
          authority = long_task_authority root (task_scope task)
      in case delegate (le_fresh env (3 * n + 1)) authority role
                \<lparr>request_role = role_name role, request_instructions = brief,
                 request_inputs = JObject [], request_background = False\<rparr> of
           Err e \<Rightarrow> (Err (RunRefused e), st)
         | Ok delegated \<Rightarrow>
             (let held = withholding delegated (tools_withheld (role_name role));
                  spec = (if work \<noteq> PlanWork
                          then nudging held \<lparr>nudge_text = REPORT_NUDGE,
                                             nudge_reported = (\<lambda>bs. is_reported bs root)\<rparr>
                          else held);
                  b = \<lparr>sb_task_id = task_id task, sb_scope = task_scope task, sb_work = work\<rparr>
              in case spawn_helper env n root b spec st of
                   (ended, reported, written, st') \<Rightarrow>
                     (case ended of
                        Err e \<Rightarrow> (Err (SpawnFailed e), st')
                      | Ok run \<Rightarrow>
                          lane_bind (keep_reply env n task draft reported written run)
                            (\<lambda>(saved, ran). lane_return
                               (settle_run (le_json_parse env) (le_json_text env) reported saved ran may_retry))
                            st')))"

section \<open>After a step\<close>

definition agent_notice :: "ustr \<Rightarrow> ustr \<Rightarrow> ustr \<Rightarrow> lane_notice" where
  "agent_notice owner agent summary =
     \<lparr>notice_owner = owner, notice_title = lit ''From '' @ agent, notice_body = summary\<rparr>"

definition hand_on ::
  "agent_role list \<Rightarrow> long_task \<Rightarrow> plan_step \<Rightarrow> ustr \<Rightarrow> ustr \<Rightarrow> lane_state \<Rightarrow> lane_state"
where
  "hand_on roles task step agent brief st =
     (let l = ln_ledger st;
          steps = list_steps l (task_id task);
          source = (case List.find (\<lambda>s. ps_key s = ps_key step) steps of Some s \<Rightarrow> s | None \<Rightarrow> step)
      in case plan_hand_off task steps source agent brief roles (list_artifacts l (task_id task)) of
           Err _ \<Rightarrow> st
         | Ok plan \<Rightarrow>
             (case replace_open_steps l plan of Ok l' \<Rightarrow> with_ledger st l' | Err _ \<Rightarrow> st))"

fun apply_action ::
  "lane_env \<Rightarrow> agent_role list \<Rightarrow> long_task \<Rightarrow> plan_step \<Rightarrow> step_outcome \<Rightarrow> after_action \<Rightarrow> lane_state \<Rightarrow>
     lane_state"
where
  "apply_action env roles task step outcome (ActNotifyOwner body) st =
     (case task_owner task of
        None \<Rightarrow> st
      | Some owner \<Rightarrow> st\<lparr>ln_notices := ln_notices st @ [agent_notice owner (ps_role step) body]\<rparr>)"
| "apply_action env roles task step outcome ActSaveArtifact st =
     (case hook_result_artifact (le_fresh env 20) task step outcome (le_clock env 20) of
        Err _ \<Rightarrow> st
      | Ok a \<Rightarrow>
          (case insert_artifact (ln_ledger st) a of Ok l \<Rightarrow> with_ledger st l | Err _ \<Rightarrow> st))"
| "apply_action env roles task step outcome (ActStartTask goal) st =
     (case follow_up_task (le_fresh env 21) task goal (le_clock env 21) of
        Err _ \<Rightarrow> st
      | Ok t \<Rightarrow> (case create_task (ln_ledger st) t of Ok l \<Rightarrow> with_ledger st l | Err _ \<Rightarrow> st))"
| "apply_action env roles task step outcome (ActHandTo agent brief) st =
     hand_on roles task step agent brief st"

definition apply_after_actions ::
  "lane_env \<Rightarrow> agent_role list \<Rightarrow> after_action list \<Rightarrow> long_task \<Rightarrow> plan_step \<Rightarrow> step_outcome \<Rightarrow> unit lane"
where
  "apply_after_actions env roles actions task step outcome st =
     (Ok (), fold (apply_action env roles task step outcome) actions st)"

section \<open>Doing a step\<close>

definition role_of_step :: "agent_role list \<Rightarrow> plan_step \<Rightarrow> agent_role option" where
  "role_of_step offered step =
     or_else
       (if \<not> list_ex (\<lambda>r. role_name r = ps_role step) offered
        then Option.bind (ps_agent step) (\<lambda>agent.
               Option.bind (List.find (\<lambda>r. role_name r = WORKER_ROLE) offered)
                 (\<lambda>worker. result_ok (role_for_agent step agent worker)))
        else None)
       (List.find (\<lambda>r. role_name r = ps_role step) offered)"

text \<open>A step nobody may take is started and failed, so that its attempts run out.\<close>

definition refuse_step :: "lane_env \<Rightarrow> plan_step \<Rightarrow> timestamp \<Rightarrow> ustr \<Rightarrow> bool lane" where
  "refuse_step env step now why =
     lane_bind (lane_checked (step_start step now)) (\<lambda>started.
     lane_then (lane_put started)
       (lane_bind (lane_checked (step_fail started why (le_clock env 1))) (\<lambda>failed.
        lane_then (lane_put failed) (lane_return True))))"

definition inlined_bodies :: "ledger \<Rightarrow> ustr \<Rightarrow> ustr list \<Rightarrow> ustr \<rightharpoonup> ustr" where
  "inlined_bodies l tid ids i =
     (if i \<in> set ids then map_option art_body (get_artifact l tid i) else None)"

definition before_hooks_block :: "lane_env \<Rightarrow> agent_role \<Rightarrow> profile_scope \<Rightarrow> ustr" where
  "before_hooks_block env role scope =
     render_before_hooks (hooks_before (role_hooks role)) (le_hooks env)
       (case role_personal_data role of Deny \<Rightarrow> Guest | Inherit \<Rightarrow> scope)"

definition brief_body :: "ledger \<Rightarrow> ustr \<Rightarrow> artifact_summary list \<Rightarrow> ustr option" where
  "brief_body l tid artifacts =
     Option.bind (brief_artifact artifacts) (\<lambda>found. map_option art_body (get_artifact l tid (as_id found)))"

text \<open>The verdict of the step's check, when it needs one.\<close>

definition check_step ::
  "lane_env \<Rightarrow> agent_role \<Rightarrow> long_task \<Rightarrow> plan_step \<Rightarrow> step_outcome \<Rightarrow> run_end option lane"
where
  "check_step env verifier task step outcome =
     (if out_kind outcome = OutcomeCompleted \<and> ps_acceptance step \<noteq> None
      then lane_bind (lane_read (\<lambda>l. (list_artifacts l (task_id task),
               brief_body l (task_id task) (list_artifacts l (task_id task))))) (\<lambda>(saved, context).
             lane_bind (run_helper env 1 task verifier (CheckWork (ps_key step))
                 (verifier_brief (le_format_date env) task step outcome saved context (le_clock env 8))
                 False None)
               (\<lambda>end. lane_return (Some end)))
      else lane_return None)"

definition settle_step ::
  "lane_env \<Rightarrow> plan_step \<Rightarrow> step_outcome \<Rightarrow> run_end option \<Rightarrow> (plan_step, step_state_refused) result"
where
  "settle_step env step outcome verdict =
     (case verdict of
        Some Preempted \<Rightarrow> step_preempt step
      | Some (Reported check) \<Rightarrow>
          if out_kind check \<noteq> OutcomeCompleted
          then step_fail step (lit ''it did not pass its check: '' @
                 (case out_failure check of Some f \<Rightarrow> f | None \<Rightarrow> out_summary check)) (le_clock env 9)
          else step_record step outcome (le_clock env 9)
      | None \<Rightarrow> step_record step outcome (le_clock env 9))"

definition finish_step ::
  "lane_env \<Rightarrow> agent_role list \<Rightarrow> long_task \<Rightarrow> agent_role \<Rightarrow> agent_role \<Rightarrow> plan_step \<Rightarrow> step_outcome \<Rightarrow> bool lane"
where
  "finish_step env offered task verifier role step outcome =
     lane_bind (check_step env verifier task step outcome) (\<lambda>verdict.
     lane_bind (lane_checked (settle_step env step outcome verdict)) (\<lambda>settled.
     lane_then (lane_put settled)
       (lane_then
         (if ps_state settled = StepCompleted
          then apply_after_actions env offered (after_hook_actions task role settled outcome) task settled
                 outcome
          else lane_return ())
         (lane_then
           (if out_kind outcome = NeedsApproval
            then lane_set_state (task_id task) TaskAwaitingApproval (le_clock env 10)
            else lane_return ())
           (lane_return True)))))"

definition work_step ::
  "lane_env \<Rightarrow> agent_role list \<Rightarrow> long_task \<Rightarrow> agent_role \<Rightarrow> plan_step list \<Rightarrow> artifact_summary list \<Rightarrow>
     agent_role \<Rightarrow> plan_step \<Rightarrow> timestamp \<Rightarrow> bool lane"
where
  "work_step env offered task verifier steps artifacts role step now =
     lane_bind (lane_checked (step_start step now)) (\<lambda>started.
     lane_then (lane_put started)
       (lane_bind (lane_read (\<lambda>l. inlined_bodies l (task_id task) (inline_ids started artifacts))) (\<lambda>bodies.
          let last_line = last_step_line steps started;
              brief = worker_brief (le_format_date env) task started artifacts bodies now @
                (case last_line of None \<Rightarrow> [] | Some line \<Rightarrow> line) @
                before_hooks_block env role (task_scope task) @ hand_back_offer role offered;
              turned = with_max_turns role (turns_for (role_max_turns role) started);
              draft = \<lparr>reply_key = ps_key started, reply_last = last_line \<noteq> None\<rparr>
          in (\<lambda>st. case run_helper env 0 task turned (DoWork (ps_key started)) brief
                        (ps_attempts started < MAX_STEP_ATTEMPTS) (Some draft) st of
                (Ok (Reported outcome), st') \<Rightarrow>
                  finish_step env offered task verifier turned started outcome st'
              | (Ok Preempted, st') \<Rightarrow>
                  lane_bind (lane_checked (step_preempt started)) (\<lambda>waiting.
                    lane_then (lane_put waiting) (lane_return True)) st'
              | (Err e, st') \<Rightarrow>
                  lane_bind (lane_checked (step_fail started (le_error_text env e) (le_clock env 7))) (\<lambda>failed.
                    lane_then (lane_put failed) (lane_fail e)) st'))))"

definition do_step ::
  "lane_env \<Rightarrow> agent_role list \<Rightarrow> long_task \<Rightarrow> agent_role \<Rightarrow> plan_step list \<Rightarrow> artifact_summary list \<Rightarrow>
     plan_step \<Rightarrow> timestamp \<Rightarrow> bool lane"
where
  "do_step env offered task verifier steps artifacts step now =
     (case role_of_step offered step of
        None \<Rightarrow> refuse_step env step now (lit ''there is no role named '' @ ps_role step)
      | Some role \<Rightarrow>
          (case step_role_allowed task step role of
             Err why \<Rightarrow> refuse_step env step now why
           | Ok _ \<Rightarrow> work_step env offered task verifier steps artifacts role step now))"

section \<open>Planning, finishing, giving up\<close>

definition end_task ::
  "lane_env \<Rightarrow> long_task \<Rightarrow> long_task_state \<Rightarrow> timestamp \<Rightarrow> bool \<Rightarrow> bool \<Rightarrow> ustr \<Rightarrow> bool lane"
where
  "end_task env task n now wanted finished body =
     lane_then (lane_set_state (task_id task) n now)
       (lane_then (lane_forget (task_id task))
         (lane_then (notify_if wanted task finished body) (lane_return True)))"

definition ending_text ::
  "lane_env \<Rightarrow> long_task \<Rightarrow> plan_step list \<Rightarrow> artifact_summary list \<Rightarrow> ledger \<Rightarrow> ustr"
where
  "ending_text env task steps artifacts l =
     (let found = answer_artifact (le_beyond_ascii env) task artifacts;
          short = (case found of
                     Some res \<Rightarrow>
                       if task_answer task = AnswerShort
                       then map_option (\<lambda>a. notification_text (art_body a))
                              (get_artifact l (task_id task) (as_id res))
                       else None
                   | None \<Rightarrow> None)
      in case or_else short (or_else (map_option as_summary found)
                (Option.bind (List.find (\<lambda>s. ps_summary s \<noteq> None) (rev steps)) ps_summary)) of
           Some t \<Rightarrow> t
         | None \<Rightarrow> lit ''It's done.'')"

definition finish_task ::
  "lane_env \<Rightarrow> agent_role list \<Rightarrow> long_task \<Rightarrow> plan_step list \<Rightarrow> artifact_summary list \<Rightarrow> timestamp \<Rightarrow> bool lane"
where
  "finish_task env offered task steps artifacts now =
     (let res = summary_as_result (le_fresh env 22) (le_beyond_ascii env) task steps artifacts now;
          artifacts' = artifacts @ (case res of None \<Rightarrow> [] | Some a \<Rightarrow> [summary_view a])
      in lane_then (case res of None \<Rightarrow> lane_return () | Some a \<Rightarrow> lane_insert a)
           (lane_then (lane_set_state (task_id task) TaskCompleted now)
             (lane_then (lane_forget (task_id task))
               (lane_bind (lane_read (ending_text env task steps artifacts')) (\<lambda>body.
                lane_then (notify_if (runner_notifies_at_end task steps offered True) task True body)
                  (lane_return True))))))"

definition plan_task ::
  "lane_env \<Rightarrow> agent_role list \<Rightarrow> long_task \<Rightarrow> agent_role \<Rightarrow> plan_step list \<Rightarrow> artifact_summary list \<Rightarrow>
     plan_reason \<Rightarrow> timestamp \<Rightarrow> bool lane"
where
  "plan_task env offered task planner steps artifacts reason now =
     lane_bind (lane_read (\<lambda>l. brief_body l (task_id task) artifacts)) (\<lambda>context.
     lane_bind (run_helper env 0 task planner PlanWork
         (planner_brief (le_format_date env) task steps artifacts (plannable_roles offered) reason context now)
         False None) (\<lambda>end.
       if end = Preempted then lane_return True
       else
         lane_bind (lane_read (\<lambda>l. list_steps l (task_id task))) (\<lambda>replanned.
           let planned = (task_state task = Planning \<and> replanned \<noteq> []) in
           lane_then (if planned then lane_set_state (task_id task) TaskRunning (le_clock env 4)
                      else lane_return ())
             (let runnable = (case next_run task replanned 0 (le_clock env 5) of
                                Do _ \<Rightarrow> True | Finish \<Rightarrow> True | _ \<Rightarrow> False) \<or> planned
              in lane_then (if runnable then lane_forget (task_id task) else lane_count (task_id task))
                   (lane_return True)))))"

definition advance_long_task ::
  "lane_env \<Rightarrow> agent_role \<Rightarrow> agent_role \<Rightarrow> agent_role list \<Rightarrow> long_task \<Rightarrow> bool lane"
where
  "advance_long_task env planner verifier offered task st =
     (let steps = list_steps (ln_ledger st) (task_id task);
          artifacts = list_artifacts (ln_ledger st) (task_id task);
          now = le_clock env 0
      in case next_run task steps (fruitless_of st (task_id task)) now of
           Wait \<Rightarrow> (Ok False, st)
         | GiveUp reason \<Rightarrow>
             end_task env task TaskFailed now (runner_notifies_at_end task steps offered False) False
               (lit ''I couldn't finish it: '' @ reason @ lit ''.'') st
         | Finish \<Rightarrow> finish_task env offered task steps artifacts now st
         | Plan reason \<Rightarrow>
             if is_activation_task task
             then end_task env task TaskFailed now (runner_notifies_at_end task steps offered False) False
                    ACTIVATION_NOT_PLANNED st
             else plan_task env offered task planner steps artifacts reason now st
         | Do step \<Rightarrow> do_step env offered task verifier steps artifacts step now st)"

section \<open>The start of the runner\<close>

definition recover_step :: "ledger \<Rightarrow> plan_step \<Rightarrow> ledger" where
  "recover_step l s =
     (if ps_state s = StepRunning
      then (case step_preempt s of
              Err _ \<Rightarrow> l
            | Ok s' \<Rightarrow> (case update_step l s' of Ok l' \<Rightarrow> l' | Err _ \<Rightarrow> l))
      else l)"

definition recover_task :: "ledger \<Rightarrow> long_task \<Rightarrow> ledger" where
  "recover_task l task = foldl recover_step l (list_steps l (task_id task))"

definition recover_ledger :: "ledger \<Rightarrow> ledger" where
  "recover_ledger l = foldl recover_task l (list_tasks l Everyone False)"

definition candidate :: "ledger \<Rightarrow> long_task option" where
  "candidate l = (case run_order (list_tasks l Everyone False) of [] \<Rightarrow> None | t # _ \<Rightarrow> Some t)"

end
