(* ===== verification/Lane_Sound.thy ===== *)
theory Lane_Sound
  imports Lane
begin

text \<open>
  What one slot of the runner leaves behind. \<open>lane_ok R\<close> is the invariant of the ledger during a slot:
  the ledger is sound, no step has been tried more than twice, and every step that is running is one of
  \<open>R\<close>. Everything others write while a helper runs (\<open>outside\<close>) keeps it for every \<open>R\<close>; the runner's own
  writes move a step into \<open>R\<close> and out of it again. The triples \<open>lane_triple\<close> carry this through the
  fallible calls of a slot, with a postcondition for each way a call can end.
\<close>

section \<open>The invariant of a slot\<close>

definition attempts_ok :: "plan_step \<Rightarrow> bool" where
  "attempts_ok s \<longleftrightarrow> unat (ps_attempts s) \<le> (if ps_state s = Pending then 1 else 2)"

definition lane_ok :: "plan_step set \<Rightarrow> ledger \<Rightarrow> bool" where
  "lane_ok R l \<longleftrightarrow> ledger_inv l \<and>
     (\<forall>s \<in> set (led_steps l). attempts_ok s \<and> (ps_state s = StepRunning \<longrightarrow> s \<in> R))"

definition untried :: "plan_step \<Rightarrow> bool" where
  "untried s \<longleftrightarrow> ps_state s = Pending \<and> ps_attempts s = 0"

text \<open>What a write by others leaves: a sound ledger whose steps are old ones or untried ones.\<close>

definition outside :: "ledger \<Rightarrow> ledger \<Rightarrow> bool" where
  "outside l l' \<longleftrightarrow> (ledger_inv l \<longrightarrow> ledger_inv l') \<and>
     (\<forall>s \<in> set (led_steps l'). s \<in> set (led_steps l) \<or> untried s)"

lemma outside_refl [simp]: "outside l l"
  by (simp add: outside_def)

lemma outside_trans: "outside l l' \<Longrightarrow> outside l' l'' \<Longrightarrow> outside l l''"
  unfolding outside_def by blast

lemma outside_keeps: "outside l l' \<Longrightarrow> lane_ok R l \<Longrightarrow> lane_ok R l'"
  by (fastforce simp: outside_def lane_ok_def untried_def attempts_ok_def)

lemma lane_ok_mono: "lane_ok R l \<Longrightarrow> R \<subseteq> S \<Longrightarrow> lane_ok S l"
  unfolding lane_ok_def by blast

subsection \<open>Writes by others\<close>

lemma outside_same_steps: "ledger_step l l' \<Longrightarrow> set (led_steps l') \<subseteq> set (led_steps l) \<Longrightarrow> outside l l'"
  using ledger_step_inv by (auto simp: outside_def)

lemma outside_create: "create_task l t = Ok l' \<Longrightarrow> outside l l'"
  by (rule outside_same_steps [OF ledger_step.create]) (auto simp: create_task_Ok)

lemma outside_set_state: "set_task_state l i n at = Ok (r, l') \<Longrightarrow> outside l l'"
  by (rule outside_same_steps [OF ledger_step.set_state]) (auto dest: set_task_state_tasks)

lemma outside_insert: "insert_artifact l a = Ok l' \<Longrightarrow> outside l l'"
  by (rule outside_same_steps [OF ledger_step.insert]) (auto simp: insert_artifact_Ok)

lemma outside_delete: "outside l (snd (delete_task l i))"
  by (rule outside_same_steps [OF ledger_step.delete [of _ i "fst (delete_task l i)"]])
     (auto simp: delete_task_eq)

lemma outside_delete_artifact: "outside l (snd (delete_artifact l i j))"
  by (rule outside_same_steps [OF ledger_step.delete_art [of _ i j "fst (delete_artifact l i j)"]])
     (auto simp: delete_artifact_def Let_def)

lemma outside_decide: "outside l (snd (decide_task_answer l i a))"
proof -
  have d: "decide_task_answer l i a = (fst (decide_task_answer l i a), snd (decide_task_answer l i a))"
    by simp
  show ?thesis
    by (rule outside_same_steps [OF ledger_step.decide [OF d]]) (simp add: decide_task_answer_tasks [OF d])
qed

lemma outside_replan:
  assumes "replace_open_steps l p = Ok l'" "validate_plan task drafts existing = Ok p"
  shows "outside l l'"
proof -
  note ok = validate_plan_ok_aux [OF assms(2)]
  have "ledger_step l l'" using plan_ok_well_keyed [OF ok] assms(1) by (rule ledger_step.replan)
  moreover have "untried s" if "s \<in> set (vp_steps p)" for s
    using plan_ok_fresh [OF ok that] by (simp add: untried_def fresh_step_def)
  ultimately show ?thesis
    using assms(1) ledger_step_inv by (auto simp: outside_def replace_open_steps_Ok)
qed

lemma outside_cancel: "outside l (cancel_quietly l tid now)"
  by (auto simp: cancel_quietly_def outside_set_state split: result.splits)

lemma outside_activation_plan:
  assumes "activation_task fresh_id role instructions scope owner now = Ok (task, plan)"
    and "replace_open_steps l plan = Ok l'"
  shows "outside l l'"
  using assms outside_replan
  by (fastforce simp: activation_task_def Let_def split: result.splits)

lemma outside_short_plan:
  "short_answer_plan task = Ok p \<Longrightarrow> replace_open_steps l p = Ok l' \<Longrightarrow> outside l l'"
  using outside_replan by (simp add: short_answer_plan_def)

lemma outside_brief: "store_brief l fresh_id tid brief now = Ok l' \<Longrightarrow> outside l l'"
  by (auto simp: store_brief_def split: option.splits result.splits intro: outside_insert)

lemma outside_start_short: "start_short l task now = (r, l') \<Longrightarrow> outside l l'"
  by (auto simp: start_short_def split: result.splits option.splits prod.splits
      intro: outside_short_plan outside_trans [OF outside_short_plan outside_set_state])

lemma outside_open: "outside l (snd (open_task l fresh_id task brief now))"
proof (cases "if task_answer task = AnswerShort then transition_to task Paused now else Ok task")
  case (Ok t)
  show ?thesis
  proof (cases "create_task l t")
    case created: (Ok l1)
    show ?thesis
    proof (cases "store_brief l1 fresh_id (task_id t) brief now")
      case briefed: (Ok l2)
      have "outside l l2" using outside_trans [OF outside_create [OF created] outside_brief [OF briefed]] .
      then show ?thesis
        using outside_start_short [of l2 t now] outside_trans outside_trans [OF _ outside_cancel]
        by (auto simp: open_task_def Ok created briefed Let_def split: prod.splits result.splits)
    qed (simp add: open_task_def Ok created outside_create [OF created])
  qed (simp add: open_task_def Ok)
qed (simp add: open_task_def)

lemma outside_store_activation:
  assumes "activation_task fresh_id role instructions scope owner now = Ok (task, plan)"
    and "store_activation l task plan now' = (b, l')"
  shows "outside l l'"
  using assms(2) outside_activation_plan [OF assms(1)] outside_cancel
    outside_trans [OF outside_activation_plan [OF assms(1)] outside_set_state]
    outside_trans [OF outside_activation_plan [OF assms(1)] outside_cancel]
    outside_trans [OF outside_trans [OF outside_activation_plan [OF assms(1)] outside_set_state] outside_cancel]
  by (auto simp: store_activation_def split: result.splits option.splits prod.splits)

lemma outside_queue: "outside l (snd (queue_firing fresh_id now members agents firing book l))"
proof -
  have "outside l (snd (queue_new fresh_id now members agent firing book l))" for agent
    using outside_trans [OF outside_create outside_store_activation]
    by (auto simp: queue_new_def Let_def split: option.splits result.splits prod.splits bool.splits)
  then show ?thesis by (auto simp: queue_firing_def split: option.splits)
qed

lemma outside_house: "outside l (house_write w l)"
  by (cases w)
     (auto simp: outside_open outside_queue outside_delete outside_delete_artifact outside_set_state
       split: result.splits)

lemma outside_write: "outside (ws_ledger w) (ws_ledger (snd (run_write json_text fresh_id now installed w session params)))"
proof -
  from run_write_effect [of json_text fresh_id now installed w session params] show ?thesis
    by (metis outside_insert outside_refl prod.collapse)
qed

lemma outside_report: "ws_ledger (snd (run_report json_text installed w session named extra)) = ws_ledger w"
  using run_report_effect [of json_text installed w session named extra] by (metis prod.collapse)

lemma outside_store_plan: "outside (ws_ledger w) (ws_ledger (snd (store_plan w tid drafts chosen ignored)))"
proof (cases "get_task (ws_ledger w) tid")
  case (Some task)
  let ?l = "case chosen of None \<Rightarrow> ws_ledger w | Some a \<Rightarrow> snd (decide_task_answer (ws_ledger w) (task_id task) a)"
  have l: "outside (ws_ledger w) ?l" by (auto simp: outside_decide split: option.splits)
  show ?thesis
  proof (cases "validate_plan task drafts (list_steps (ws_ledger w) (task_id task))")
    case (Ok p)
    have "outside (ws_ledger w) l'" if "replace_open_steps ?l p = Ok l'" for l'
      using l outside_replan [OF that Ok] by (rule outside_trans)
    with l show ?thesis
      by (auto simp: store_plan_def Some Ok Let_def split: result.splits store_error.splits)
  qed (simp add: store_plan_def Some Let_def)
qed (simp add: store_plan_def)

lemma outside_plan:
  "outside (ws_ledger w) (ws_ledger (snd (run_plan json_parse serde_text installed w session params)))"
proof -
  have e: "run_plan json_parse serde_text installed w session params =
      (fst (run_plan json_parse serde_text installed w session params),
       snd (run_plan json_parse serde_text installed w session params))" by simp
  from run_plan_effect [OF e] show ?thesis
    using outside_store_plan [of w] by (metis outside_refl snd_conv)
qed

lemma outside_event: "outside (ws_ledger w) (ws_ledger (run_event_effect env child w e))"
proof (cases e)
  case (HelperCall call)
  then show ?thesis by (cases call) (simp_all add: outside_write outside_report outside_plan)
qed (simp add: outside_house)

lemma outside_events: "outside (ws_ledger w) (ws_ledger (foldl (run_event_effect env child) w es))"
proof (induction es arbitrary: w)
  case (Cons e es)
  show ?case using outside_trans [OF outside_event Cons.IH] by simp
qed simp

section \<open>Triples over the calls of a slot\<close>

text \<open>From a ledger with only \<open>R\<close> running, a call leaves only \<open>Q\<close> running, or \<open>E e\<close> when it fails with \<open>e\<close>.\<close>

definition lane_triple ::
  "plan_step set \<Rightarrow> 'a lane \<Rightarrow> plan_step set \<Rightarrow> (lane_error \<Rightarrow> plan_step set) \<Rightarrow> bool" where
  "lane_triple R m Q E \<longleftrightarrow>
     (\<forall>st. lane_ok R (ln_ledger st) \<longrightarrow>
        (case m st of (Ok _, st') \<Rightarrow> lane_ok Q (ln_ledger st') | (Err e, st') \<Rightarrow> lane_ok (E e) (ln_ledger st')))"

lemma lane_tripleD:
  "lane_triple R m Q E \<Longrightarrow> lane_ok R (ln_ledger st) \<Longrightarrow>
     (case m st of (Ok _, st') \<Rightarrow> lane_ok Q (ln_ledger st') | (Err e, st') \<Rightarrow> lane_ok (E e) (ln_ledger st'))"
  by (simp add: lane_triple_def)

lemma ln_ledger_with [simp]: "ln_ledger (with_ledger st l) = l"
  by (simp add: with_ledger_def)

lemma triple_return [simp]: "lane_triple R (lane_return v) R E"
  by (simp add: lane_triple_def lane_return_def)

lemma triple_read [simp]: "lane_triple R (lane_read f) R E"
  by (simp add: lane_triple_def lane_read_def)

lemma triple_forget [simp]: "lane_triple R (lane_forget tid) R E"
  by (simp add: lane_triple_def lane_forget_def)

lemma triple_count [simp]: "lane_triple R (lane_count tid) R E"
  by (simp add: lane_triple_def lane_count_def)

lemma triple_notify [simp]: "lane_triple R (notify_if wanted task finished body) R E"
  by (auto simp: lane_triple_def notify_if_def notify_long_task_owner_def lane_return_def split: option.splits)

lemma triple_bind:
  assumes "lane_triple R m Q E" "\<And>v. lane_triple Q (f v) S E"
  shows "lane_triple R (lane_bind m f) S E"
  using assms unfolding lane_triple_def lane_bind_def
  by (fastforce split: prod.splits result.splits)

lemma triple_then: "lane_triple R m Q E \<Longrightarrow> lane_triple Q n S E \<Longrightarrow> lane_triple R (lane_then m n) S E"
  unfolding lane_then_def by (rule triple_bind)

lemma triple_checked:
  assumes "\<And>v. r = Ok v \<Longrightarrow> lane_triple R (f v) Q E" "\<And>e. r = Err e \<Longrightarrow> R \<subseteq> E (LaneStep e)"
  shows "lane_triple R (lane_bind (lane_checked r) f) Q E"
proof (cases r)
  case (Ok v)
  with assms(1) [OF Ok] show ?thesis
    by (simp add: lane_triple_def lane_bind_def lane_checked_def lane_return_def)
next
  case (Err e)
  with assms(2) [OF Err] show ?thesis
    by (auto simp: lane_triple_def lane_bind_def lane_checked_def lane_fail_def dest: lane_ok_mono)
qed

lemma triple_insert: "R \<subseteq> E' \<Longrightarrow> (\<And>e. E (LaneStore e) = E') \<Longrightarrow> lane_triple R (lane_insert a) R E"
  by (auto simp: lane_triple_def lane_insert_def split: result.splits
      intro: outside_keeps outside_insert lane_ok_mono)

lemma triple_set_state:
  "R \<subseteq> E' \<Longrightarrow> (\<And>e. E (LaneStore e) = E') \<Longrightarrow> lane_triple R (lane_set_state tid n at) R E"
  by (auto simp: lane_triple_def lane_set_state_def split: result.splits
      intro: outside_keeps outside_set_state lane_ok_mono)

lemma triple_weaken:
  assumes "lane_triple R m Q E" "R' \<subseteq> R" "Q \<subseteq> Q'" "\<And>e. E e \<subseteq> E' e"
  shows "lane_triple R' m Q' E'"
  unfolding lane_triple_def
proof (intro allI impI)
  fix st assume "lane_ok R' (ln_ledger st)"
  then have "lane_ok R (ln_ledger st)" using assms(2) by (rule lane_ok_mono)
  with assms(1) have "case m st of (Ok _, st') \<Rightarrow> lane_ok Q (ln_ledger st')
      | (Err e, st') \<Rightarrow> lane_ok (E e) (ln_ledger st')"
    by (simp add: lane_triple_def)
  then show "case m st of (Ok _, st') \<Rightarrow> lane_ok Q' (ln_ledger st')
      | (Err e, st') \<Rightarrow> lane_ok (E' e) (ln_ledger st')"
    using lane_ok_mono [OF _ assms(3)] lane_ok_mono [OF _ assms(4)]
    by (auto split: prod.splits result.splits)
qed

section \<open>The runner's own writes\<close>

lemma update_step_Ok_steps:
  assumes "update_step l s = Ok l'"
  shows "set (led_steps l') \<subseteq> insert s (set (led_steps l))"
  using assms set_update_first_subset by (fastforce simp: update_step_Ok)

lemma triple_put_started:
  assumes "step_start s now = Ok started" "unat (ps_attempts s) \<le> 1" "\<And>e. R \<subseteq> E (LaneStore e)"
  shows "lane_triple R (lane_put started) (insert started R) E"
proof -
  have ok: "attempts_ok started"
    using assms(1,2) by (auto simp: step_start_Ok attempts_ok_def unat_saturating_add)
  have "lane_ok (insert started R) l'" if "update_step l started = Ok l'" "lane_ok R l" for l l'
    using that ok update_step_Ok_steps [OF that(1)] ledger_steps.put_inv [OF _ that(1)]
    unfolding lane_ok_def by blast
  then show ?thesis
    using lane_ok_mono [OF _ assms(3)]
    by (auto simp: lane_triple_def lane_put_def split: result.splits)
qed

text \<open>A running step's row is settled by a write of the same step in a later state.\<close>

definition settles :: "plan_step \<Rightarrow> plan_step \<Rightarrow> bool" where
  "settles started settled \<longleftrightarrow>
     ps_task_id settled = ps_task_id started \<and> ps_key settled = ps_key started \<and>
     step_can_become StepRunning (ps_state settled) \<and> ps_state settled \<noteq> StepRunning \<and> attempts_ok settled"

lemma triple_put_settled:
  assumes "settles started settled" and run: "ps_state started = StepRunning"
    and E: "\<And>e. R \<subseteq> E (LaneStore e)"
  shows "lane_triple (insert started R) (lane_put settled) R E"
proof -
  have same: "ps_task_id settled = ps_task_id started" "ps_key settled = ps_key started"
    and moved: "ps_state started = StepRunning" "step_can_become StepRunning (ps_state settled)"
      "ps_state settled \<noteq> StepRunning"
    and ok: "attempts_ok settled"
    using assms by (simp_all add: settles_def)
  have put: "lane_ok R l'" if up: "update_step l settled = Ok l'" and sound: "lane_ok (insert started R) l" for l l'
  proof -
    have inv: "ledger_inv l" using sound by (simp add: lane_ok_def)
    have steps: "led_steps l' = update_first (same_step settled) settled (led_steps l)"
      using up by (auto simp: update_step_Ok)
    obtain old where "old \<in> set (led_steps l)" "same_step settled old"
      using up find_SomeD by (fastforce simp: update_step_Ok)
    with inv have "set (led_steps l') = insert settled {y \<in> set (led_steps l). \<not> same_step settled y}"
      unfolding steps by (intro set_update_first_distinct) (auto simp: ledger_inv_def)
    then show ?thesis
      using up sound ok moved(3) same ledger_steps.put_inv [OF inv up]
      by (auto simp: lane_ok_def same_step_def)
  qed
  have refused: "lane_ok R l" if "update_step l settled = Err e" "lane_ok (insert started R) l" for l e
  proof -
    have "started \<notin> set (led_steps l)"
    proof
      assume "started \<in> set (led_steps l)"
      then have "find (same_step settled) (led_steps l) = Some started"
        using that(2) same by (simp add: find_same_step_iff lane_ok_def ledger_inv_def same_step_def)
      then show False using that(1) moved by (auto simp: update_step_def split: if_splits)
    qed
    then show ?thesis using that(2) unfolding lane_ok_def by blast
  qed
  show ?thesis
    using put refused lane_ok_mono [OF _ E]
    by (auto simp: lane_triple_def lane_put_def split: result.splits)
qed

lemma preempt_settles: "step_preempt started = Ok s' \<Longrightarrow> attempts_ok started \<Longrightarrow> settles started s'"
  by (auto simp: settles_def step_preempt_Ok attempts_ok_def unat_saturating_sub)

lemma fail_settles: "step_fail started why at = Ok s' \<Longrightarrow> attempts_ok started \<Longrightarrow> settles started s'"
  by (auto simp: settles_def step_fail_Ok attempts_ok_def)

lemma record_settles:
  assumes "step_record started r at = Ok s'" "attempts_ok started" shows "settles started s'"
  using assms by (cases "out_kind r") (auto simp: settles_def step_record_Ok attempts_ok_def)

section \<open>One helper's run\<close>

lemma spawn_helper_outside:
  "spawn_helper env n root b spec st = (ended, reported, written, st') \<Longrightarrow>
     outside (ln_ledger st) (ln_ledger st')"
  using outside_events
    [of "(ln_work st)\<lparr>ws_bindings := run_bind root b (ws_bindings (ln_work st)),
       ws_children := child_bind (le_child env n)
         \<lparr>child_parent = root, child_scope = child_scope_get (spec_scope spec)\<rparr> (ws_children (ln_work st))\<rparr>"
      env "le_child env n" "fst (le_spawn env n spec)"]
  by (auto simp: spawn_helper_def Let_def split: prod.splits)

lemma triple_keep_reply: "lane_triple R (keep_reply env n task draft reported written run) R (\<lambda>_. R)"
  unfolding keep_reply_def
  by (auto split: option.splits intro!: triple_then [OF triple_insert])

definition spawn_failure :: "lane_error \<Rightarrow> bool" where
  "spawn_failure e \<longleftrightarrow> (\<exists>x. e = RunRefused x) \<or> (\<exists>x. e = SpawnFailed x)"

lemma run_helper_cases:
  assumes "run_helper env n task role work brief may_retry draft st = (r, st')"
  obtains e where "r = Err (RunRefused e)" "st' = st"
  | e where "r = Err (SpawnFailed e)" "outside (ln_ledger st) (ln_ledger st')"
  | reported written run st1 where "outside (ln_ledger st) (ln_ledger st1)"
      "lane_bind (keep_reply env n task draft reported written run)
         (\<lambda>(saved, ran). lane_return
            (settle_run (le_json_parse env) (le_json_text env) reported saved ran may_retry)) st1 = (r, st')"
proof -
  let ?root = "long_task_session_id (task_id task) (le_fresh env (3 * n))"
  show thesis
  proof (cases "delegate (le_fresh env (3 * n + 1)) (long_task_authority ?root (task_scope task)) role
      \<lparr>request_role = role_name role, request_instructions = brief,
       request_inputs = JObject [], request_background = False\<rparr>
      :: (step_bindings task_spec, delegation_refused) result")
    case (Err e)
    then show thesis using assms that(1) [of e] by (auto simp: run_helper_def Let_def)
  next
    case (Ok delegated)
    define spec where "spec = (let held = withholding delegated (tools_withheld (role_name role)) in
      if work \<noteq> PlanWork
      then nudging held \<lparr>nudge_text = REPORT_NUDGE, nudge_reported = (\<lambda>bs. is_reported bs ?root)\<rparr>
      else held)"
    obtain ended reported written st1 where sp: "spawn_helper env n ?root
        \<lparr>sb_task_id = task_id task, sb_scope = task_scope task, sb_work = work\<rparr> spec st =
        (ended, reported, written, st1)"
      by (metis prod_cases4)
    note out = spawn_helper_outside [OF sp]
    show thesis
    proof (cases ended)
      case (Err e)
      then show thesis
        using assms Ok sp out that(2) [of e] by (auto simp: run_helper_def Let_def spec_def)
    next
      case ran: (Ok run)
      show thesis
        by (rule that(3) [OF out, of reported written run])
           (use assms Ok sp ran in \<open>simp add: run_helper_def Let_def spec_def\<close>)
    qed
  qed
qed

lemma triple_run_helper: "lane_triple R (run_helper env n task role work brief may_retry draft) R (\<lambda>_. R)"
  unfolding lane_triple_def
proof (intro allI impI)
  fix st assume ok: "lane_ok R (ln_ledger st)"
  obtain r st' where run: "run_helper env n task role work brief may_retry draft st = (r, st')"
    by (cases "run_helper env n task role work brief may_retry draft st")
  have after: "lane_triple R (lane_bind (keep_reply env n task draft reported written run) (\<lambda>(saved, ran).
      lane_return (settle_run jp jt reported saved ran may_retry))) R (\<lambda>_. R)" for reported written run jp jt
    by (rule triple_bind [OF triple_keep_reply]) (simp split: prod.splits)
  from run show "case run_helper env n task role work brief may_retry draft st of
      (Ok _, st') \<Rightarrow> lane_ok R (ln_ledger st') | (Err e, st') \<Rightarrow> lane_ok R (ln_ledger st')"
  proof (cases rule: run_helper_cases)
    case (3 reported written rn st1)
    have "lane_ok R (ln_ledger st1)" using outside_keeps [OF 3(1) ok] .
    with after [of reported written rn "le_json_parse env" "le_json_text env"] 3(2)
    have "lane_ok R (ln_ledger st')"
      unfolding lane_triple_def by (fastforce split: result.splits)
    then show ?thesis using run by (simp split: result.splits)
  qed (use run ok outside_keeps in \<open>auto\<close>)
qed

text \<open>Without a reply to keep, a helper's run fails only by not starting.\<close>

lemma keep_reply_None: "keep_reply env n task None reported written run = lane_return (written, run)"
  by (simp add: keep_reply_def)

lemma run_helper_no_draft:
  assumes "run_helper env n task role work brief may_retry None st = (Err e, st')"
  shows "spawn_failure e"
  using assms
  by (cases rule: run_helper_cases) (auto simp: spawn_failure_def keep_reply_None lane_bind_def lane_return_def)

section \<open>After a step\<close>

lemma list_steps_set: "s \<in> set (list_steps l tid) \<longleftrightarrow> s \<in> set (led_steps l) \<and> ps_task_id s = tid"
  by (simp add: list_steps_def steps_held_set)

lemma hand_on_lane_ok:
  assumes ok: "lane_ok R (ln_ledger st)"
  shows "lane_ok R (ln_ledger (hand_on roles task step agent brief st))"
proof -
  let ?steps = "list_steps (ln_ledger st) (task_id task)"
  have "lane_ok R l'"
    if plan: "plan_hand_off task ?steps source agent brief roles arts = Ok p"
      and put: "replace_open_steps (ln_ledger st) p = Ok l'" for source arts p l'
  proof -
    obtain draft where valid: "validate_appended_step task draft ?steps = Ok p"
      using plan by (auto simp: plan_hand_off_def Let_def split: if_splits option.splits result.splits)
    have inv: "ledger_inv (ln_ledger st)" using ok by (simp add: lane_ok_def)
    then have "distinct (map ps_key ?steps)"
      using ledger_steps.steps_apart [OF inv, of "task_id task"] by (simp add: list_steps_def distinct_map)
    from validate_appended_well_keyed [OF valid this] have "ledger_inv l'"
      using ledger_steps.replan_inv [OF inv _ put] by blast
    moreover have "s \<in> set (led_steps (ln_ledger st)) \<or> untried s" if "s \<in> set (led_steps l')" for s
      using valid
      by (rule validate_appended_step_Ok)
         (use that put in \<open>auto simp: replace_open_steps_Ok new_step_def untried_def list_steps_set\<close>)
    ultimately have "outside (ln_ledger st) l'" by (simp add: outside_def)
    then show ?thesis using ok by (rule outside_keeps)
  qed
  then show ?thesis
    using ok by (auto simp: hand_on_def Let_def split: result.splits option.splits)
qed

lemma apply_action_lane_ok:
  "lane_ok R (ln_ledger st) \<Longrightarrow> lane_ok R (ln_ledger (apply_action env roles task step outcome a st))"
  by (cases a)
     (auto simp: hand_on_lane_ok split: option.splits result.splits
       intro: outside_keeps outside_insert outside_create)

lemma triple_after_actions: "lane_triple R (apply_after_actions env roles actions task step outcome) R E"
proof -
  have "lane_ok R (ln_ledger st) \<Longrightarrow>
      lane_ok R (ln_ledger (fold (apply_action env roles task step outcome) actions st))" for st
    by (induction actions arbitrary: st) (simp_all add: apply_action_lane_ok)
  then show ?thesis by (simp add: lane_triple_def apply_after_actions_def)
qed

section \<open>Doing a step\<close>

text \<open>The step a slot may leave running: the one it started, when its check could not be run.\<close>

definition left_over :: "plan_step \<Rightarrow> plan_step set \<Rightarrow> lane_error \<Rightarrow> plan_step set" where
  "left_over started R e =
     (if spawn_failure e \<and> ps_acceptance started \<noteq> None then insert started R else R)"

lemma left_over_ge: "R \<subseteq> left_over started R e"
  by (auto simp: left_over_def)

lemma left_over_store [simp]: "left_over started R (LaneStore e) = R" "left_over started R (LaneStep s) = R"
  by (simp_all add: left_over_def spawn_failure_def)

lemma triple_check_step:
  "lane_triple (insert started R) (check_step env verifier task started outcome) (insert started R)
     (left_over started R)"
proof (cases "out_kind outcome = OutcomeCompleted \<and> ps_acceptance started \<noteq> None")
  case True
  have run: "lane_triple (insert started R) (run_helper env n task verifier work brief False None)
      (insert started R) (left_over started R)" for n work brief
  proof -
    have "case run_helper env n task verifier work brief False None st of
        (Ok _, st') \<Rightarrow> lane_ok (insert started R) (ln_ledger st')
      | (Err e, st') \<Rightarrow> lane_ok (left_over started R e) (ln_ledger st')"
      if "lane_ok (insert started R) (ln_ledger st)" for st
      using triple_run_helper [of "insert started R" env n task verifier work brief False None] that True
        run_helper_no_draft [of env n task verifier work brief False st]
      by (fastforce simp: lane_triple_def left_over_def split: prod.splits result.splits)
    then show ?thesis by (simp add: lane_triple_def)
  qed
  show ?thesis
    using True
    by (auto simp: check_step_def split: prod.splits intro!: triple_bind [OF triple_read] triple_bind [OF run])
next
  case False
  then show ?thesis by (auto simp: check_step_def)
qed

lemma settle_step_Ok:
  assumes "settle_step env started outcome verdict = Ok settled" "attempts_ok started"
  shows "settles started settled"
proof -
  have "step_preempt started = Ok settled \<or> (\<exists>why at. step_fail started why at = Ok settled) \<or>
      (\<exists>r at. step_record started r at = Ok settled)"
    using assms(1) unfolding settle_step_def by (cases verdict; simp split: run_end.splits if_splits; blast)
  then show ?thesis using assms(2) preempt_settles fail_settles record_settles by blast
qed

lemma settle_step_total:
  assumes "ps_state started = StepRunning"
  shows "\<exists>settled. settle_step env started outcome verdict = Ok settled"
proof -
  have "\<exists>s. step_preempt started = Ok s" "\<exists>s. step_fail started why at = Ok s"
    "\<exists>s. step_record started r at = Ok s" for why at r
    using assms by (simp_all add: step_preempt_Ok step_fail_Ok step_record_Ok)
  then show ?thesis unfolding settle_step_def by (cases verdict) (simp_all split: run_end.split)
qed

lemma triple_put_done:
  "settles started settled \<Longrightarrow> ps_state started = StepRunning \<Longrightarrow>
     lane_triple (insert started R) (lane_put settled) R (left_over started R)"
  by (rule triple_put_settled) simp_all

lemma triple_finish_step:
  assumes run: "ps_state started = StepRunning" and ok: "attempts_ok started"
  shows "lane_triple (insert started R) (finish_step env offered task verifier role started outcome) R
    (left_over started R)"
  unfolding finish_step_def
proof (rule triple_bind [OF triple_check_step], rule triple_checked)
  fix verdict settled
  assume settled: "settle_step env started outcome verdict = Ok settled"
  have actions: "lane_triple R (if ps_state settled = StepCompleted
      then apply_after_actions env offered (after_hook_actions task role settled outcome) task settled outcome
      else lane_return ()) R (left_over started R)"
    by (simp add: triple_after_actions)
  have approval: "lane_triple R (if out_kind outcome = NeedsApproval
      then lane_set_state (task_id task) TaskAwaitingApproval (le_clock env 10) else lane_return ()) R
      (left_over started R)"
    by (simp add: triple_set_state [of R R])
  show "lane_triple (insert started R)
      (lane_then (lane_put settled)
       (lane_then
         (if ps_state settled = StepCompleted
          then apply_after_actions env offered (after_hook_actions task role settled outcome) task settled
                 outcome
          else lane_return ())
         (lane_then
           (if out_kind outcome = NeedsApproval
            then lane_set_state (task_id task) TaskAwaitingApproval (le_clock env 10)
            else lane_return ())
           (lane_return True)))) R (left_over started R)"
    by (rule triple_then [OF triple_put_done [OF settle_step_Ok [OF settled ok] run]
          triple_then [OF actions triple_then [OF approval triple_return]]])
next
  fix verdict e assume "settle_step env started outcome verdict = Err e"
  then show "insert started R \<subseteq> left_over started R (LaneStep e)"
    using settle_step_total [OF run, of env outcome verdict] by simp
qed

lemma triple_refuse_step:
  assumes "unat (ps_attempts step) \<le> 1"
  shows "lane_triple R (refuse_step env step now why) R (\<lambda>_. R)"
  unfolding refuse_step_def
proof (rule triple_checked)
  fix started assume start: "step_start step now = Ok started"
  have run: "ps_state started = StepRunning" and ok: "attempts_ok started"
    using start assms by (auto simp: step_start_Ok attempts_ok_def unat_saturating_add)
  have "lane_triple (insert started R) (lane_bind (lane_checked (step_fail started why (le_clock env 1)))
      (\<lambda>failed. lane_then (lane_put failed) (lane_return True))) R (\<lambda>_. R)"
  proof (rule triple_checked)
    fix failed assume "step_fail started why (le_clock env 1) = Ok failed"
    then have "settles started failed" using ok by (rule fail_settles)
    then show "lane_triple (insert started R) (lane_then (lane_put failed) (lane_return True)) R (\<lambda>_. R)"
      using run by (rule triple_then [OF triple_put_settled triple_return]) simp
  next
    fix e assume "step_fail started why (le_clock env 1) = Err e"
    then show "insert started R \<subseteq> R" using run by (simp add: step_simps)
  qed
  with triple_put_started [OF start assms, of R "\<lambda>_. R"]
  show "lane_triple R (lane_then (lane_put started)
      (lane_bind (lane_checked (step_fail started why (le_clock env 1)))
        (\<lambda>failed. lane_then (lane_put failed) (lane_return True)))) R (\<lambda>_. R)"
    by (simp add: triple_then)
qed simp

lemma triple_settle_and:
  assumes "ps_state started = StepRunning" "\<And>s'. r = Ok s' \<Longrightarrow> settles started s'"
    and "\<exists>s'. r = Ok s'" "lane_triple R m R (left_over started R)"
  shows "lane_triple (insert started R) (lane_bind (lane_checked r) (\<lambda>s'. lane_then (lane_put s') m)) R
    (left_over started R)"
proof (rule triple_checked)
  fix s' assume "r = Ok s'"
  then have "lane_triple (insert started R) (lane_put s') R (left_over started R)"
    using assms(1,2) by (intro triple_put_done) blast+
  then show "lane_triple (insert started R) (lane_then (lane_put s') m) R (left_over started R)"
    using assms(4) by (rule triple_then)
qed (use assms(3) in simp)

lemma triple_try:
  assumes "lane_triple R m Q (\<lambda>_. Q)" "\<And>v. lane_triple Q (f v) S E" "\<And>e. lane_triple Q (g e) S E"
  shows "lane_triple R (\<lambda>st. case m st of (Ok v, st') \<Rightarrow> f v st' | (Err e, st') \<Rightarrow> g e st') S E"
  unfolding lane_triple_def
proof (intro allI impI)
  fix st assume "lane_ok R (ln_ledger st)"
  then have m: "case m st of (Ok _, st') \<Rightarrow> lane_ok Q (ln_ledger st') | (Err e, st') \<Rightarrow> lane_ok Q (ln_ledger st')"
    by (rule lane_tripleD [OF assms(1)])
  obtain r st' where r: "m st = (r, st')" by (cases "m st")
  show "case (case m st of (Ok v, st') \<Rightarrow> f v st' | (Err e, st') \<Rightarrow> g e st') of
      (Ok _, st') \<Rightarrow> lane_ok S (ln_ledger st') | (Err e, st') \<Rightarrow> lane_ok (E e) (ln_ledger st')"
  proof (cases r)
    case (Ok v)
    then show ?thesis using m r assms(2) [of v] unfolding lane_triple_def by simp
  next
    case (Err e)
    then show ?thesis using m r assms(3) [of e] unfolding lane_triple_def by simp
  qed
qed

lemma triple_work_step:
  assumes attempts: "unat (ps_attempts step) \<le> 1" and start: "step_start step now = Ok started"
  shows "lane_triple R (work_step env offered task verifier steps artifacts role step now) R
    (left_over started R)"
proof -
  have run: "ps_state started = StepRunning" and ok: "attempts_ok started"
    using start attempts by (auto simp: step_start_Ok attempts_ok_def unat_saturating_add)
  let ?E = "left_over started R"
  have pre: "lane_triple (insert started R)
      (lane_bind (lane_checked (step_preempt started)) (\<lambda>w. lane_then (lane_put w) (lane_return True))) R ?E"
    using run ok by (intro triple_settle_and) (auto simp: step_preempt_Ok intro: preempt_settles)
  have failed: "lane_triple (insert started R)
      (lane_bind (lane_checked (step_fail started why at)) (\<lambda>f. lane_then (lane_put f) (lane_fail e))) R ?E"
    for why at e
  proof (rule triple_settle_and [OF run])
    show "lane_triple R (lane_fail e) R ?E"
      using lane_ok_mono [OF _ left_over_ge] by (simp add: lane_triple_def lane_fail_def)
  qed (use run ok in \<open>auto simp: step_fail_Ok intro: fail_settles\<close>)
  have ended: "lane_triple (insert started R)
      (\<lambda>st. case v of Reported outcome \<Rightarrow> finish_step env offered task verifier turned started outcome st
       | Preempted \<Rightarrow>
           lane_bind (lane_checked (step_preempt started)) (\<lambda>w. lane_then (lane_put w) (lane_return True)) st)
      R ?E" for v turned
    using triple_finish_step [OF run ok] pre by (cases v) simp_all
  have put: "lane_triple R (lane_put started) (insert started R) ?E"
    using start attempts by (rule triple_put_started) simp
  show ?thesis
    unfolding work_step_def Let_def
  proof (rule triple_checked, goal_cases)
    case (1 s)
    with start have "s = started" by simp
    then show ?case
      by (simp only:) (rule triple_then [OF put triple_bind [OF triple_read
            triple_try [OF triple_run_helper ended failed]]])
  qed (use start in simp)
qed

lemma role_started:
  assumes "ps_state step = Pending \<or> ps_state step = StepFailed"
  shows "\<exists>started. step_start step now = Ok started"
  using assms by (auto simp: step_start_Ok)

lemma triple_do_step:
  assumes "unat (ps_attempts step) \<le> 1" "step_start step now = Ok started"
  shows "lane_triple R (do_step env offered task verifier steps artifacts step now) R (left_over started R)"
proof -
  have refused: "lane_triple R (refuse_step env step now why) R (left_over started R)" for why
    by (rule triple_weaken [OF triple_refuse_step [OF assms(1)]]) (auto simp: left_over_def)
  show ?thesis
    unfolding do_step_def using refused triple_work_step [OF assms]
    by (simp split: option.split result.split)
qed

section \<open>Planning, finishing, giving up\<close>

lemma triple_end_task: "lane_triple R (end_task env task n now wanted finished body) R (\<lambda>_. R)"
  unfolding end_task_def
  by (rule triple_then [OF triple_set_state triple_then [OF triple_forget triple_then [OF triple_notify
        triple_return]]]) simp_all

lemma triple_finish_task: "lane_triple R (finish_task env offered task steps artifacts now) R (\<lambda>_. R)"
proof -
  have saved: "lane_triple R (case res of None \<Rightarrow> lane_return () | Some a \<Rightarrow> lane_insert a) R (\<lambda>_. R)" for res
    by (simp split: option.split add: triple_insert [of R R])
  have state: "lane_triple R (lane_set_state tid TaskCompleted now) R (\<lambda>_. R)" for tid
    by (rule triple_set_state) simp_all
  show ?thesis
    unfolding finish_task_def Let_def
    by (rule triple_then [OF saved triple_then [OF state triple_then [OF triple_forget triple_bind
          [OF triple_read triple_then [OF triple_notify triple_return]]]]])
qed

lemma triple_plan_task: "lane_triple R (plan_task env offered task planner steps artifacts reason now) R (\<lambda>_. R)"
proof -
  have moved: "lane_triple R (if b then lane_set_state tid n at else lane_return ()) R (\<lambda>_. R)" for b tid n at
    by (simp add: triple_set_state [of R R])
  have counted: "lane_triple R (if b then lane_forget tid else lane_count tid) R (\<lambda>_. R)" for b tid
    by simp
  have rest: "lane_triple R (if end = Preempted then lane_return True else
      lane_bind (lane_read f) (\<lambda>replanned.
        let planned = p replanned in
           lane_then (if planned then lane_set_state tid n at else lane_return ())
             (let runnable = q replanned \<or> planned
              in lane_then (if runnable then lane_forget tid else lane_count tid) (lane_return True)))) R (\<lambda>_. R)"
    for "end" :: run_end and f :: "ledger \<Rightarrow> plan_step list" and p q tid n at
  proof (cases "end = Preempted")
    case False
    then show ?thesis
      unfolding Let_def
      by (simp only: if_False)
         (rule triple_bind [OF triple_read triple_then [OF moved triple_then [OF counted triple_return]]])
  qed simp
  show ?thesis
    unfolding plan_task_def by (rule triple_bind [OF triple_read triple_bind [OF triple_run_helper rest]])
qed

section \<open>A whole slot\<close>

definition running_steps :: "ledger \<Rightarrow> plan_step set" where
  "running_steps l = {s \<in> set (led_steps l). ps_state s = StepRunning}"

definition tried_twice_at_most :: "ledger \<Rightarrow> bool" where
  "tried_twice_at_most l \<longleftrightarrow>
     list_all attempts_ok (led_steps l)"

lemma lane_ok_iff:
  "lane_ok R l \<longleftrightarrow> ledger_inv l \<and> tried_twice_at_most l \<and> running_steps l \<subseteq> R"
  unfolding lane_ok_def tried_twice_at_most_def running_steps_def list_all_iff by blast

text \<open>The step a slot started, if its check could not be run.\<close>

definition slot_left ::
  "lane_env \<Rightarrow> long_task \<Rightarrow> lane_state \<Rightarrow> lane_error \<Rightarrow> plan_step set"
where
  "slot_left env task st e =
     {started. spawn_failure e \<and> ps_acceptance started \<noteq> None \<and>
        (\<exists>step. next_run task (list_steps (ln_ledger st) (task_id task)) (fruitless_of st (task_id task))
             (le_clock env 0) = Do step \<and> step_start step (le_clock env 0) = Ok started)}"

lemma lane_ok_result:
  assumes "lane_triple R m R E" "lane_ok R (ln_ledger st)" "\<And>e. E e \<subseteq> R \<union> F e"
  shows "case m st of (Ok _, st') \<Rightarrow> lane_ok R (ln_ledger st')
    | (Err e, st') \<Rightarrow> lane_ok (R \<union> F e) (ln_ledger st')"
  using lane_tripleD [OF assms(1,2)] lane_ok_mono [OF _ assms(3)] by (auto split: prod.splits result.splits)

lemma advance_lane_ok:
  assumes sound: "lane_ok R (ln_ledger st)"
  shows "case advance_long_task env planner verifier offered task st of
      (Ok _, st') \<Rightarrow> lane_ok R (ln_ledger st')
    | (Err e, st') \<Rightarrow> lane_ok (R \<union> slot_left env task st e) (ln_ledger st')"
proof -
  let ?steps = "list_steps (ln_ledger st) (task_id task)"
  have quiet: "(case m st of (Ok _, st') \<Rightarrow> lane_ok R (ln_ledger st')
      | (Err e, st') \<Rightarrow> lane_ok (R \<union> slot_left env task st e) (ln_ledger st'))"
    if "lane_triple R m R (\<lambda>_. R)" for m :: "bool lane"
    using lane_ok_result [OF that sound] by simp
  show ?thesis
  proof (cases "next_run task ?steps (fruitless_of st (task_id task)) (le_clock env 0)")
    case (Do step)
    note d = next_run_DoD [OF Do]
    then have "step \<in> set (led_steps (ln_ledger st))" by (simp add: list_steps_set)
    then have "attempts_ok step" using sound by (simp add: lane_ok_def)
    then have "unat (ps_attempts step) \<le> 1"
      using d by (auto simp: attempts_ok_def MAX_STEP_ATTEMPTS_def word_less_nat_alt)
    moreover obtain started where start: "step_start step (le_clock env 0) = Ok started"
      using d role_started by blast
    ultimately have "lane_triple R (do_step env offered task verifier ?steps
        (list_artifacts (ln_ledger st) (task_id task)) step (le_clock env 0)) R (left_over started R)"
      by (rule triple_do_step)
    from lane_ok_result [OF this sound, of "slot_left env task st"] show ?thesis
      using Do start by (auto simp: advance_long_task_def Let_def left_over_def slot_left_def)
  next
    case (Plan reason)
    then show ?thesis
      using quiet [OF triple_end_task] quiet [OF triple_plan_task]
      by (simp add: advance_long_task_def Let_def)
  next
    case Finish
    then show ?thesis using quiet [OF triple_finish_task] by (simp add: advance_long_task_def Let_def)
  next
    case (GiveUp why)
    then show ?thesis using quiet [OF triple_end_task] by (simp add: advance_long_task_def Let_def)
  next
    case Wait
    then show ?thesis using sound by (simp add: advance_long_task_def Let_def)
  qed
qed

end
