(* ===== verification/Lane_Recovery.thy ===== *)
theory Lane_Recovery
  imports Lane_Sound
begin

text \<open>
  How a slot's errors and the start of the process meet. A slot that fails while checking a step
  leaves that step running; from then on every slot of its task waits, until the process starts again
  and the recovery hands the step back with its attempt.
\<close>

section \<open>A run in which nothing happens\<close>

lemma dated_not_blank: "trim (date_line f now @ rest) \<noteq> []"
  by (simp add: date_line_def trim_Nil_iff lit_def is_whitespace_def)

lemma run_helper_silent:
  assumes "trim brief \<noteq> []" "\<And>spec. le_spawn env n spec = ([], ended)"
  shows "\<exists>st'. ln_ledger st' = ln_ledger st \<and> ln_fruitless st' = ln_fruitless st \<and>
    run_helper env n task role work brief may_retry draft st =
      (case ended of
         Err e \<Rightarrow> (Err (SpawnFailed e), st')
       | Ok run \<Rightarrow> lane_bind (keep_reply env n task draft None [] run)
           (\<lambda>(saved, ran). lane_return
              (settle_run (le_json_parse env) (le_json_text env) None saved ran may_retry)) st')"
proof -
  let ?root = "long_task_session_id (task_id task) (le_fresh env (3 * n))"
  let ?request = "\<lparr>request_role = role_name role, request_instructions = brief,
       request_inputs = JObject [], request_background = False\<rparr>"
  let ?b = "\<lparr>sb_task_id = task_id task, sb_scope = task_scope task, sb_work = work\<rparr>"
  have "\<exists>spec :: step_bindings task_spec.
      delegate (le_fresh env (3 * n + 1)) (long_task_authority ?root (task_scope task)) role ?request = Ok spec"
    using assms(1) by (simp add: delegate_Ok Let_def long_task_authority_fields)
  then obtain spec :: "step_bindings task_spec" where spec:
    "delegate (le_fresh env (3 * n + 1)) (long_task_authority ?root (task_scope task)) role ?request = Ok spec"
    by blast
  have "\<exists>st'. ln_ledger st' = ln_ledger st \<and> ln_fruitless st' = ln_fruitless st \<and>
      spawn_helper env n ?root ?b s st = (ended, None, [], st')" for s
    using assms(2) [of s]
    by (simp add: spawn_helper_def Let_def take_report_def take_written_def run_bind_def)
  then obtain st' where st': "ln_ledger st' = ln_ledger st" "ln_fruitless st' = ln_fruitless st"
    "spawn_helper env n ?root ?b (let held = withholding spec (tools_withheld (role_name role)) in
       if work \<noteq> PlanWork
       then nudging held \<lparr>nudge_text = REPORT_NUDGE, nudge_reported = (\<lambda>bs. is_reported bs ?root)\<rparr>
       else held) st = (ended, None, [], st')" by blast
  with spec show ?thesis by (intro exI [of _ st']) (simp add: run_helper_def Let_def)
qed

section \<open>A step nobody finishes\<close>

lemma lone_running_waits:
  assumes "workable task fruitless now" "ps_state s = StepRunning"
  shows "next_run task [s] fruitless now = Wait"
proof -
  have "blocked_steps [s] = []"
    using assms(2) cannot_start_pending [of "[s]"] by (fastforce simp: blocked_steps_Nil_iff)
  then show ?thesis
    using assms by (simp add: next_run_workable retry_step_def next_ready_step_def all_settled_def)
qed

lemma stranded_waits:
  assumes "task_state task = TaskRunning" "deadline (task_budget task) = None"
    and "fruitless_of st (task_id task) < MAX_FRUITLESS_PLANS"
    and "list_steps (ln_ledger st) (task_id task) = [s]" "ps_state s = StepRunning"
  shows "advance_long_task env planner verifier offered task st = (Ok False, st)"
proof -
  have "workable task (fruitless_of st (task_id task)) (le_clock env 0)"
    using assms by (simp add: workable_def deadline_passed_def)
  from lone_running_waits [OF this assms(5)] show ?thesis
    using assms(4) by (simp add: advance_long_task_def Let_def)
qed

definition example_goal :: long_task where
  "example_goal = example_task\<lparr>task_state := TaskRunning, task_budget := \<lparr>max_steps = 12, deadline = None\<rparr>\<rparr>"

definition example_todo :: plan_step where
  "example_todo = example_look\<lparr>ps_acceptance := Some (lit ''It says whether it rains.''), ps_state := Pending,
     ps_attempts := 0, ps_summary := None, ps_started_at := None, ps_finished_at := None\<rparr>"

definition example_lane :: lane_state where
  "example_lane =
     \<lparr>ln_work = \<lparr>ws_ledger = \<lparr>led_tasks = [example_goal], led_steps = [example_todo], led_artifacts = []\<rparr>,
                ws_bindings = Map.empty, ws_children = Map.empty\<rparr>,
      ln_fruitless = Map.empty, ln_notices = []\<rparr>"

text \<open>A helper that reports its step done, and an engine that is gone when the check is spawned.\<close>

definition example_env :: lane_env where
  "example_env =
     \<lparr>le_clock = (\<lambda>_. 20), le_fresh = (\<lambda>_. lit ''f''), le_child = (\<lambda>_. lit ''c''),
      le_spawn = (\<lambda>n _. ([], if n = 0 then Ok (example_run\<lparr>run_result := Some []\<rparr>)
                              else Err (lit ''the engine is gone''))),
      le_json_parse = (\<lambda>_. Some example_hand_back), le_json_text = (\<lambda>_. []), le_serde_text = (\<lambda>_. []),
      le_beyond_ascii = (\<lambda>_. False), le_format_date = (\<lambda>_. []), le_error_text = (\<lambda>_. []),
      le_hooks = \<lparr>bh_date = None, bh_schedule = [], bh_weather = None, bh_presence = []\<rparr>\<rparr>"

definition example_begun :: plan_step where
  "example_begun = example_todo\<lparr>ps_state := StepRunning, ps_attempts := 1, ps_started_at := Some 20\<rparr>"

lemma example_begin:
  "step_start example_todo 20 = Ok example_begun"
  "lane_put example_begun example_lane = (Ok (), with_ledger example_lane
     \<lparr>led_tasks = [example_goal], led_steps = [example_begun], led_artifacts = []\<rparr>)"
  by (simp_all add: step_simps example_begun_def example_todo_def example_look_def saturating_add_def
      lane_put_def example_lane_def update_step_def same_step_def)

lemma example_work_run:
  assumes "trim brief \<noteq> []"
  shows "\<exists>st'. ln_ledger st' = ln_ledger st \<and> ln_fruitless st' = ln_fruitless st \<and>
    run_helper example_env 0 task role work brief may_retry (Some draft) st = (Ok (Reported example_outcome), st')"
proof -
  have "result_for_parent (example_run\<lparr>run_result := Some []\<rparr>) = Some []"
    by (simp add: result_for_parent_def example_run_def produced_an_answer_def)
  moreover have "length (split_whitespace []) < MIN_DRAFT_WORDS"
    by (simp add: MIN_DRAFT_WORDS_def split_whitespace_def)
  ultimately have kept: "keep_reply example_env 0 task (Some draft) None [] (example_run\<lparr>run_result := Some []\<rparr>) =
      lane_return ([], example_run\<lparr>run_result := Some []\<rparr>)"
    by (simp add: keep_reply_def reply_as_draft_def)
  have settled: "settle_run (\<lambda>_. Some example_hand_back) (\<lambda>_. []) None [] (example_run\<lparr>run_result := Some []\<rparr>)
      may_retry = Reported example_outcome"
    using example_hand_back_parse
    by (simp add: settle_run_def result_for_parent_def example_run_def produced_an_answer_def)
  show ?thesis
    using run_helper_silent [of brief example_env 0 "Ok (example_run\<lparr>run_result := Some []\<rparr>)" st task role work
        may_retry "Some draft"] assms kept settled
    by (simp add: example_env_def lane_bind_def lane_return_def)
qed

lemma example_check_run:
  assumes "trim brief \<noteq> []"
  shows "\<exists>st'. ln_ledger st' = ln_ledger st \<and> ln_fruitless st' = ln_fruitless st \<and>
    run_helper example_env (Suc 0) task role work brief may_retry draft st =
      (Err (SpawnFailed (lit ''the engine is gone'')), st')"
  using run_helper_silent [of brief example_env "Suc 0" "Err (lit ''the engine is gone'')" st task role work
      may_retry draft] assms
  by (simp add: example_env_def)

lemma example_finish_fails:
  assumes "ln_ledger st = \<lparr>led_tasks = [example_goal], led_steps = [example_begun], led_artifacts = []\<rparr>"
  shows "\<exists>st'. ln_ledger st' = ln_ledger st \<and> ln_fruitless st' = ln_fruitless st \<and>
    finish_step example_env offered example_goal verifier role example_begun example_outcome st =
      (Err (SpawnFailed (lit ''the engine is gone'')), st')"
proof -
  let ?brief = "verifier_brief (le_format_date example_env) example_goal example_begun example_outcome []
      (brief_body (ln_ledger st) (task_id example_goal) []) (le_clock example_env 8)"
  have arts: "list_artifacts (ln_ledger st) (task_id example_goal) = []"
    by (simp add: assms list_artifacts_def)
  have "trim ?brief \<noteq> []" by (simp add: verifier_brief_def Let_def dated_not_blank)
  from example_check_run [OF this, of st example_goal verifier "CheckWork (ps_key example_begun)" False None]
  obtain st' where st': "ln_ledger st' = ln_ledger st" "ln_fruitless st' = ln_fruitless st"
    "run_helper example_env (Suc 0) example_goal verifier (CheckWork (ps_key example_begun)) ?brief False None st =
       (Err (SpawnFailed (lit ''the engine is gone'')), st')" by blast
  have "out_kind example_outcome = OutcomeCompleted" "ps_acceptance example_begun \<noteq> None"
    by (simp_all add: example_outcome_def example_begun_def example_todo_def)
  then have "check_step example_env verifier example_goal example_begun example_outcome st =
      (Err (SpawnFailed (lit ''the engine is gone'')), st')"
    using st'(3) by (simp add: check_step_def lane_bind_def lane_read_def arts)
  with st' show ?thesis by (intro exI [of _ st']) (simp add: finish_step_def lane_bind_def)
qed

lemma example_work_fails:
  "\<exists>st'. work_step example_env [example_role] example_goal example_role [example_todo] [] example_role
       example_todo 20 example_lane = (Err (SpawnFailed (lit ''the engine is gone'')), st') \<and>
     ln_fruitless st' = Map.empty \<and>
     ln_ledger st' = \<lparr>led_tasks = [example_goal], led_steps = [example_begun], led_artifacts = []\<rparr>"
proof -
  let ?L = "\<lparr>led_tasks = [example_goal], led_steps = [example_begun], led_artifacts = []\<rparr>"
  let ?st1 = "with_ledger example_lane ?L"
  let ?line = "last_step_line [example_todo] example_begun"
  let ?brief = "worker_brief (le_format_date example_env) example_goal example_begun []
      (inlined_bodies ?L (task_id example_goal) (inline_ids example_begun [])) 20 @
      (case ?line of None \<Rightarrow> [] | Some line \<Rightarrow> line) @
      before_hooks_block example_env example_role (task_scope example_goal) @
      hand_back_offer example_role [example_role]"
  let ?role = "with_max_turns example_role (turns_for (role_max_turns example_role) example_begun)"
  have "trim ?brief \<noteq> []" by (simp add: worker_brief_def Let_def dated_not_blank)
  from example_work_run [OF this, of ?st1 example_goal ?role "DoWork (ps_key example_begun)"
      "ps_attempts example_begun < MAX_STEP_ATTEMPTS"
      "\<lparr>reply_key = ps_key example_begun, reply_last = ?line \<noteq> None\<rparr>"]
  obtain st2 where st2: "ln_ledger st2 = ?L" "ln_fruitless st2 = ln_fruitless ?st1"
    and run: "run_helper example_env 0 example_goal ?role (DoWork (ps_key example_begun)) ?brief
      (ps_attempts example_begun < MAX_STEP_ATTEMPTS)
      (Some \<lparr>reply_key = ps_key example_begun, reply_last = ?line \<noteq> None\<rparr>) ?st1 =
      (Ok (Reported example_outcome), st2)"
    unfolding ln_ledger_with by blast
  from example_finish_fails [OF st2(1)] obtain st' where
    st': "ln_ledger st' = ln_ledger st2" "ln_fruitless st' = ln_fruitless st2"
      "finish_step example_env [example_role] example_goal example_role ?role example_begun example_outcome st2 =
        (Err (SpawnFailed (lit ''the engine is gone'')), st')" by blast
  have "work_step example_env [example_role] example_goal example_role [example_todo] [] example_role
      example_todo 20 example_lane = (Err (SpawnFailed (lit ''the engine is gone'')), st')"
    using run st'(3)
    by (simp only: work_step_def Let_def example_begin(1) lane_checked_def result.case lane_bind_def lane_then_def
        lane_return_def example_begin(2) prod.case lane_read_def ln_ledger_with run_end.case)
  moreover have "ln_fruitless st' = Map.empty"
    using st'(2) st2(2) by (simp add: with_ledger_def example_lane_def)
  ultimately show ?thesis using st' st2 by simp
qed

lemma example_slot_fails:
  "\<exists>st'. advance_long_task example_env example_role example_role [example_role] example_goal example_lane =
     (Err (SpawnFailed (lit ''the engine is gone'')), st') \<and> ln_fruitless st' = Map.empty \<and>
     ln_ledger st' = \<lparr>led_tasks = [example_goal], led_steps = [example_begun], led_artifacts = []\<rparr>"
proof -
  have "workable example_goal 0 20"
    by (simp add: workable_def example_goal_def deadline_passed_def MAX_FRUITLESS_PLANS_def)
  from next_run_single [OF this] have chosen: "next_run example_goal [example_todo] 0 20 = Do example_todo"
    by (simp add: example_todo_def example_look_def)
  have read: "list_steps (ln_ledger example_lane) (task_id example_goal) = [example_todo]"
    "list_artifacts (ln_ledger example_lane) (task_id example_goal) = []"
    "fruitless_of example_lane (task_id example_goal) = 0" "le_clock example_env 0 = 20"
    by (simp_all add: list_steps_def steps_held_def list_artifacts_def example_lane_def example_todo_def
        example_look_def example_goal_def fruitless_of_def example_env_def)
  have role: "role_of_step [example_role] example_todo = Some example_role"
    "step_role_allowed example_goal example_todo example_role = Ok ()"
    by (simp_all add: role_of_step_def or_else_def step_role_allowed_def example_todo_def example_look_def
        example_role_def accepts_task_steps_def default_activations_def)
  show ?thesis
    using example_work_fails
    by (simp add: advance_long_task_def Let_def read chosen do_step_def role)
qed

section \<open>The recovery at start\<close>

definition handed_back :: "plan_step \<Rightarrow> plan_step" where
  "handed_back s = s\<lparr>ps_state := Pending, ps_attempts := saturating_sub (ps_attempts s) 1, ps_started_at := None\<rparr>"

lemma update_first_map:
  assumes "distinct xs" "\<And>x. x \<in> set xs \<Longrightarrow> p x \<longleftrightarrow> x = s"
  shows "update_first p y xs = map (\<lambda>x. if x = s then y else x) xs"
  using assms
proof (induction xs)
  case (Cons a xs)
  show ?case
  proof (cases "a = s")
    case True
    then have "s \<notin> set xs" using Cons.prems(1) by simp
    then have "map (\<lambda>x. if x = s then y else x) xs = xs" by (intro map_idI) auto
    then show ?thesis using True Cons.prems(2) by simp
  qed (use Cons in simp)
qed simp

definition hand_back_where :: "(plan_step \<Rightarrow> bool) \<Rightarrow> plan_step list \<Rightarrow> plan_step list" where
  "hand_back_where P xs = map (\<lambda>x. if P x \<and> ps_state x = StepRunning then handed_back x else x) xs"

lemma hand_back_twice: "hand_back_where Q (hand_back_where P xs) = hand_back_where (\<lambda>x. P x \<or> Q x) xs"
  by (auto simp: hand_back_where_def handed_back_def)

lemma hand_back_none: "(\<And>x. x \<in> set xs \<Longrightarrow> \<not> (P x \<and> ps_state x = StepRunning)) \<Longrightarrow> hand_back_where P xs = xs"
  unfolding hand_back_where_def by (rule map_idI) auto

lemma hand_back_cong:
  "(\<And>x. x \<in> set xs \<Longrightarrow> P x = Q x) \<Longrightarrow> hand_back_where P xs = hand_back_where Q xs"
  unfolding hand_back_where_def by (rule map_cong) auto

lemma hand_back_ids [simp]: "step_ids (hand_back_where P xs) = step_ids xs"
  by (auto simp: step_ids_def hand_back_where_def handed_back_def)

lemma hand_back_keeps: "x \<in> set xs \<Longrightarrow> \<not> P x \<Longrightarrow> x \<in> set (hand_back_where P xs)"
  by (force simp: hand_back_where_def image_iff)

lemma recover_step_eq:
  assumes "distinct (step_ids (led_steps l))" "s \<in> set (led_steps l)"
  shows "recover_step l s = l\<lparr>led_steps := hand_back_where (\<lambda>x. x = s) (led_steps l)\<rparr>"
proof (cases "ps_state s = StepRunning")
  case True
  let ?s = "handed_back s"
  have same: "same_step ?s x \<longleftrightarrow> x = s" if "x \<in> set (led_steps l)" for x
    using assms that by (auto simp: same_step_def handed_back_def step_ids_def distinct_map inj_on_def)
  have "step_preempt s = Ok ?s" using True by (simp add: step_preempt_Ok handed_back_def)
  moreover have "find (same_step ?s) (led_steps l) = Some s"
    using assms same by (simp add: find_same_step_iff)
  moreover have "update_first (same_step ?s) ?s (led_steps l) =
      map (\<lambda>x. if x = s then ?s else x) (led_steps l)"
    using assms(1) same by (intro update_first_map) (auto simp: step_ids_def distinct_map)
  moreover have "map (\<lambda>x. if x = s then ?s else x) (led_steps l) = hand_back_where (\<lambda>x. x = s) (led_steps l)"
    unfolding hand_back_where_def using True by (intro map_cong) auto
  ultimately show ?thesis
    using True by (simp add: recover_step_def update_step_def handed_back_def)
next
  case False
  then have "hand_back_where (\<lambda>x. x = s) (led_steps l) = led_steps l" by (intro hand_back_none) auto
  with False show ?thesis by (simp add: recover_step_def)
qed

lemma foldl_recover_step:
  assumes "distinct (step_ids (led_steps l))" "set xs \<subseteq> set (led_steps l)" "distinct xs"
  shows "foldl recover_step l xs = l\<lparr>led_steps := hand_back_where (\<lambda>x. x \<in> set xs) (led_steps l)\<rparr>"
  using assms
proof (induction xs arbitrary: l)
  case Nil
  then show ?case by (simp add: hand_back_none)
next
  case (Cons s xs)
  have l: "recover_step l s = l\<lparr>led_steps := hand_back_where (\<lambda>x. x = s) (led_steps l)\<rparr>"
    using Cons.prems by (intro recover_step_eq) auto
  have "set xs \<subseteq> set (hand_back_where (\<lambda>x. x = s) (led_steps l))"
    using Cons.prems hand_back_keeps [of _ "led_steps l" "\<lambda>x. x = s"] by auto
  then show ?case
    using Cons.prems by (simp add: l Cons.IH hand_back_twice)
qed

lemma recover_task_eq:
  assumes "distinct (step_ids (led_steps l))"
  shows "recover_task l t = l\<lparr>led_steps := hand_back_where (\<lambda>x. ps_task_id x = task_id t) (led_steps l)\<rparr>"
proof -
  have "distinct (list_steps l (task_id t))" "set (list_steps l (task_id t)) \<subseteq> set (led_steps l)"
    using assms by (auto simp: list_steps_def steps_held_def step_ids_def distinct_map)
  from foldl_recover_step [OF assms this(2,1)]
    hand_back_cong [of "led_steps l" "\<lambda>x. x \<in> set (list_steps l (task_id t))" "\<lambda>x. ps_task_id x = task_id t"]
  show ?thesis by (simp add: recover_task_def list_steps_set)
qed

lemma foldl_recover_task:
  "distinct (step_ids (led_steps l)) \<Longrightarrow> foldl recover_task l ts =
     l\<lparr>led_steps := hand_back_where (\<lambda>x. ps_task_id x \<in> task_id ` set ts) (led_steps l)\<rparr>"
proof (induction ts arbitrary: l)
  case Nil
  then show ?case by (simp add: hand_back_none)
qed (simp add: recover_task_eq hand_back_twice)

definition task_open :: "ledger \<Rightarrow> ustr \<Rightarrow> bool" where
  "task_open l tid \<longleftrightarrow> list_ex (\<lambda>t. task_id t = tid \<and> \<not> task_state_is_terminal (task_state t)) (led_tasks l)"

lemma recover_ledger_eq:
  assumes "ledger_inv l"
  shows "recover_ledger l =
    l\<lparr>led_steps := hand_back_where (\<lambda>s. task_open l (ps_task_id s)) (led_steps l)\<rparr>"
proof -
  have "set (list_tasks l Everyone False) = {t \<in> set (led_tasks l). \<not> task_state_is_terminal (task_state t)}"
    by (auto simp: list_tasks_def owned_by_def)
  then have "tid \<in> task_id ` set (list_tasks l Everyone False) \<longleftrightarrow> task_open l tid" for tid
    by (auto simp: task_open_def list_ex_iff)
  then show ?thesis
    using assms by (simp add: recover_ledger_def foldl_recover_task ledger_inv_def)
qed

lemma hand_back_cases:
  assumes "s \<in> set (hand_back_where P xs)"
  obtains "s \<in> set xs" | x where "x \<in> set xs" "ps_state x = StepRunning" "s = handed_back x"
  using assms by (auto simp: hand_back_where_def split: if_splits)

lemma recover_lane_ok:
  assumes "lane_ok R l" shows "lane_ok R (recover_ledger l)"
proof -
  have inv: "ledger_inv l" using assms by (simp add: lane_ok_def)
  then have "ledger_inv (recover_ledger l)" by (simp add: recover_ledger_eq ledger_inv_def step_ids_tasks)
  moreover have "attempts_ok s \<and> (ps_state s = StepRunning \<longrightarrow> s \<in> R)"
    if "s \<in> set (led_steps (recover_ledger l))" for s
  proof -
    from that have "s \<in> set (hand_back_where (\<lambda>s. task_open l (ps_task_id s)) (led_steps l))"
      by (simp add: recover_ledger_eq [OF inv])
    then show ?thesis
    proof (cases rule: hand_back_cases)
      case (2 x)
      then have "attempts_ok x" using assms by (simp add: lane_ok_def)
      with 2 show ?thesis by (auto simp: attempts_ok_def handed_back_def unat_saturating_sub)
    qed (use assms in \<open>simp add: lane_ok_def\<close>)
  qed
  ultimately show ?thesis by (simp add: lane_ok_def)
qed

section \<open>The process over its lifetimes\<close>

text \<open>Slots of the runner, writes of the household and restarts, in any order.\<close>

definition restarted :: "lane_state \<Rightarrow> lane_state" where
  "restarted st =
     \<lparr>ln_work = \<lparr>ws_ledger = recover_ledger (ln_ledger st), ws_bindings = Map.empty, ws_children = Map.empty\<rparr>,
      ln_fruitless = Map.empty, ln_notices = ln_notices st\<rparr>"

definition pond_start :: lane_state where
  "pond_start =
     \<lparr>ln_work = \<lparr>ws_ledger = empty_ledger, ws_bindings = Map.empty, ws_children = Map.empty\<rparr>,
      ln_fruitless = Map.empty, ln_notices = []\<rparr>"

inductive pond_step :: "lane_state \<Rightarrow> lane_state \<Rightarrow> bool" where
  slot: "advance_long_task env planner verifier offered task st = (r, st') \<Longrightarrow> pond_step st st'"
| house: "pond_step st (with_ledger st (house_write w (ln_ledger st)))"
| restart: "pond_step st (restarted st)"

lemma pond_step_lane_ok: "pond_step st st' \<Longrightarrow> lane_ok UNIV (ln_ledger st) \<Longrightarrow> lane_ok UNIV (ln_ledger st')"
proof (induction rule: pond_step.induct)
  case (slot env planner verifier offered task st r st')
  with advance_lane_ok [of UNIV st, where env = env and planner = planner and verifier = verifier
      and offered = offered and task = task] show ?case
    by (auto split: result.splits)
next
  case (house st w)
  then show ?case using outside_keeps [OF outside_house] by simp
next
  case (restart st)
  then show ?case using recover_lane_ok by (simp add: restarted_def)
qed

lemma pond_start_ok: "lane_ok UNIV (ln_ledger pond_start)"
  using ledger_inv_empty by (simp add: lane_ok_def pond_start_def empty_ledger_def)

section \<open>Properties\<close>




lemma example_lane_ok:
  "ledger_inv (ln_ledger example_lane)" "tried_twice_at_most (ln_ledger example_lane)"
  "running_steps (ln_ledger example_lane) = {}"
  by (auto simp: example_lane_def ledger_inv_def step_ids_def tried_twice_at_most_def attempts_ok_def
      running_steps_def example_todo_def example_look_def example_goal_def)


lemma example_recovered:
  "recover_ledger \<lparr>led_tasks = [example_goal], led_steps = [example_begun], led_artifacts = []\<rparr> =
     \<lparr>led_tasks = [example_goal], led_steps = [example_todo], led_artifacts = []\<rparr>"
proof -
  have "ledger_inv \<lparr>led_tasks = [example_goal], led_steps = [example_begun], led_artifacts = []\<rparr>"
    by (simp add: ledger_inv_def step_ids_def example_begun_def example_todo_def example_look_def example_goal_def)
  from recover_ledger_eq [OF this] show ?thesis
    by (simp add: hand_back_where_def handed_back_def task_open_def example_begun_def example_todo_def
        example_look_def example_goal_def saturating_sub_def)
qed

lemma example_candidate: "led_tasks l = [example_goal] \<Longrightarrow> candidate l = Some example_goal"
  by (simp add: candidate_def run_order_def list_tasks_def is_open_def owned_by_def example_goal_def)




end
