(* ===== verification/Sqlite_Rows.thy ===== *)
theory Sqlite_Rows
  imports Long_Task_Store Plan_Reader Activation_Book "HOL-Library.List_Lexorder"
begin

text \<open>
  The rows of the SQLite task store and their reading: the column tuples, \<open>row_to_task\<close>,
  \<open>row_to_step\<close>, \<open>row_to_artifact\<close>, \<open>row_to_artifact_summary\<close> and their helpers in
  \<open>pond-infra/src/sqlite_long_task.rs\<close>, and the table constraints of the migrations
  \<open>0062_long_tasks.sql\<close>, \<open>0067_long_task_kind.sql\<close> and \<open>0073_long_task_answer.sql\<close>.

  A table is the list of its rows in \<open>rowid\<close> order: none of the three declares an integer key, so
  SQLite gives a new row the largest \<open>rowid\<close> yet. Text compares by bytes, which for UTF-8 is the
  order of the scalar values, the order of \<open>List_Lexorder\<close>. Outside the repository are \<open>chrono\<close>'s
  RFC 3339 text, \<open>serde_json\<close>'s text and SQLite's \<open>json_valid\<close>: the record \<open>sql_codec\<close>, with what
  the store relies on of them in \<open>codec_ok\<close>.
\<close>

record sql_codec =
  ts_text :: "timestamp \<Rightarrow> ustr"
  ts_read :: "ustr \<Rightarrow> timestamp option"
  json_text :: "json \<Rightarrow> ustr"
  json_read :: "ustr \<Rightarrow> json option"
  sql_json_array :: "ustr \<Rightarrow> bool"

datatype sql_error =
    ConstraintFailed
  | UnreadableTimestamp ustr
  | UnreadableScope ustr "ustr option"
  | UnreadableState ustr
  | UnreadableKind ustr
  | UnreadableAnswer ustr
  | ColumnOutOfRange ustr int
  | UnreadableList ustr ustr
  | UnreadableAgent ustr
  | UnreadableStepKey ustr
  | BadTask long_task_error
  | BadStep plan_error
  | BadArtifact artifact_error
  | StoreRefused store_error
  | MovedMeanwhile ustr

text \<open>\<open>Result::and_then\<close> (the operator \<open>?\<close>), \<open>Option::with_context\<close>, \<open>Option::transpose\<close>.\<close>

definition and_then :: "('a, 'e) result \<Rightarrow> ('a \<Rightarrow> ('b, 'e) result) \<Rightarrow> ('b, 'e) result" where
  "and_then r f = (case r of Err e \<Rightarrow> Err e | Ok x \<Rightarrow> f x)"

definition or_error :: "'e \<Rightarrow> 'a option \<Rightarrow> ('a, 'e) result" where
  "or_error e x = (case x of None \<Rightarrow> Err e | Some y \<Rightarrow> Ok y)"

definition map_error :: "('e \<Rightarrow> 'f) \<Rightarrow> ('a, 'e) result \<Rightarrow> ('a, 'f) result" where
  "map_error f r = (case r of Err e \<Rightarrow> Err (f e) | Ok x \<Rightarrow> Ok x)"

definition try_option :: "('a \<Rightarrow> ('b, 'e) result) \<Rightarrow> 'a option \<Rightarrow> ('b option, 'e) result" where
  "try_option f x = (case x of None \<Rightarrow> Ok None | Some y \<Rightarrow> and_then (f y) (\<lambda>z. Ok (Some z)))"

lemma and_then_simps [simp]: "and_then (Ok x) f = f x" "and_then (Err e) f = Err e"
  by (simp_all add: and_then_def)

lemma or_error_simps [simp]: "or_error e (Some x) = Ok x" "or_error e None = Err e"
  by (simp_all add: or_error_def)

lemma map_error_simps [simp]: "map_error f (Ok x) = Ok x" "map_error f (Err e) = Err (f e)"
  by (simp_all add: map_error_def)

lemma try_option_simps [simp]:
  "try_option f None = Ok None" "try_option f (Some x) = and_then (f x) (\<lambda>z. Ok (Some z))"
  by (simp_all add: try_option_def)

section \<open>Columns\<close>

definition sql_ts :: "sql_codec \<Rightarrow> timestamp \<Rightarrow> ustr" where
  "sql_ts c t = ts_text c t"

definition parse_ts :: "sql_codec \<Rightarrow> ustr \<Rightarrow> (timestamp, sql_error) result" where
  "parse_ts c raw = or_error (UnreadableTimestamp raw) (ts_read c raw)"

definition parse_opt_ts :: "sql_codec \<Rightarrow> ustr option \<Rightarrow> (timestamp option, sql_error) result" where
  "parse_opt_ts c raw = try_option (parse_ts c) raw"

fun scope_column :: "profile_scope \<Rightarrow> ustr" where
  "scope_column (Owner _) = lit ''owner''"
| "scope_column Household = lit ''household''"
| "scope_column Guest = lit ''guest''"

definition scope_from_columns :: "ustr \<Rightarrow> ustr option \<Rightarrow> (profile_scope, sql_error) result" where
  "scope_from_columns scope owner =
     (if scope = lit ''owner''
      then (case owner of Some i \<Rightarrow> Ok (Owner i) | None \<Rightarrow> Err (UnreadableScope scope owner))
      else if scope = lit ''household'' then Ok Household
      else if scope = lit ''guest'' then Ok Guest
      else Err (UnreadableScope scope owner))"

text \<open>The lists of spellings the statements build from the domain, as the set their \<open>IN\<close> tests.\<close>

definition terminal_states_sql :: "ustr list" where
  "terminal_states_sql = map task_state_as_str (filter task_state_is_terminal all_task_states)"

definition open_step_states_sql :: "ustr list" where
  "open_step_states_sql =
     map step_state_as_str (filter (\<lambda>s. \<not> survives_replan s) all_step_states)"

definition u32_column :: "int \<Rightarrow> ustr \<Rightarrow> (u32, sql_error) result" where
  "u32_column v column =
     (if 0 \<le> v \<and> v < 2 ^ 32 then Ok (word_of_int v) else Err (ColumnOutOfRange column v))"

definition string_list :: "json \<Rightarrow> ustr list option" where
  "string_list v =
     (case v of
        JArray items \<Rightarrow>
          if list_all (\<lambda>i. json_as_str i \<noteq> None) items
          then Some (map (\<lambda>i. the (json_as_str i)) items) else None
      | _ \<Rightarrow> None)"

definition json_list :: "sql_codec \<Rightarrow> ustr \<Rightarrow> ustr \<Rightarrow> (ustr list, sql_error) result" where
  "json_list c raw column =
     or_error (UnreadableList column raw) (Option.bind (json_read c raw) string_list)"

definition list_json :: "ustr list \<Rightarrow> json" where
  "list_json xs = JArray (map JString xs)"

text \<open>The derived \<open>Serialize\<close> of \<open>StepAgent\<close>, and its reader on a column.\<close>

definition agent_json :: "step_agent \<Rightarrow> json" where
  "agent_json a =
     JObject [(lit ''name'', JString (agent_name a)),
              (lit ''instructions'', JString (agent_instructions a)),
              (lit ''tools'', list_json (agent_tools a))]"

definition read_agent :: "sql_codec \<Rightarrow> ustr \<Rightarrow> (step_agent, sql_error) result" where
  "read_agent c raw =
     (case json_read c raw of
        None \<Rightarrow> Err (UnreadableAgent raw)
      | Some v \<Rightarrow> map_error (\<lambda>_. UnreadableAgent raw) (agent_from_value v))"

section \<open>Rows\<close>

record task_row =
  tr_id :: ustr
  tr_owner :: "ustr option"
  tr_scope :: ustr
  tr_goal :: ustr
  tr_origin :: "ustr option"
  tr_state :: ustr
  tr_max_steps :: int
  tr_deadline :: "ustr option"
  tr_created_at :: ustr
  tr_updated_at :: ustr
  tr_finished_at :: "ustr option"
  tr_kind :: ustr
  tr_answer :: ustr

record step_row =
  sr_task_id :: ustr
  sr_key :: ustr
  sr_ordinal :: int
  sr_role :: ustr
  sr_instructions :: ustr
  sr_inputs :: ustr
  sr_depends_on :: ustr
  sr_acceptance :: "ustr option"
  sr_state :: ustr
  sr_attempts :: int
  sr_summary :: "ustr option"
  sr_failure :: "ustr option"
  sr_started_at :: "ustr option"
  sr_finished_at :: "ustr option"
  sr_agent :: "ustr option"

record artifact_row =
  ar_id :: ustr
  ar_task_id :: ustr
  ar_step_key :: "ustr option"
  ar_kind :: ustr
  ar_title :: ustr
  ar_summary :: ustr
  ar_body :: ustr
  ar_tokens :: int
  ar_created_at :: ustr

text \<open>What the \<open>INSERT\<close> statements bind.\<close>

definition task_row_of :: "sql_codec \<Rightarrow> long_task \<Rightarrow> task_row" where
  "task_row_of c t =
     \<lparr>tr_id = task_id t, tr_owner = task_owner t, tr_scope = scope_column (task_scope t),
      tr_goal = task_goal t, tr_origin = task_origin t,
      tr_state = task_state_as_str (task_state t),
      tr_max_steps = uint (max_steps (task_budget t)),
      tr_deadline = map_option (sql_ts c) (deadline (task_budget t)),
      tr_created_at = sql_ts c (task_created_at t), tr_updated_at = sql_ts c (task_updated_at t),
      tr_finished_at = map_option (sql_ts c) (task_finished_at t),
      tr_kind = task_kind_as_str (task_kind t), tr_answer = answer_shape_as_str (task_answer t)\<rparr>"

definition step_row_of :: "sql_codec \<Rightarrow> plan_step \<Rightarrow> step_row" where
  "step_row_of c s =
     \<lparr>sr_task_id = ps_task_id s, sr_key = ps_key s, sr_ordinal = uint (ps_ordinal s),
      sr_role = ps_role s, sr_instructions = ps_instructions s,
      sr_inputs = json_text c (list_json (ps_inputs s)),
      sr_depends_on = json_text c (list_json (ps_depends_on s)),
      sr_acceptance = ps_acceptance s, sr_state = step_state_as_str (ps_state s),
      sr_attempts = uint (ps_attempts s), sr_summary = ps_summary s, sr_failure = ps_failure s,
      sr_started_at = map_option (sql_ts c) (ps_started_at s),
      sr_finished_at = map_option (sql_ts c) (ps_finished_at s),
      sr_agent = map_option (\<lambda>a. json_text c (agent_json a)) (ps_agent s)\<rparr>"

definition artifact_row_of :: "sql_codec \<Rightarrow> artifact \<Rightarrow> artifact_row" where
  "artifact_row_of c a =
     \<lparr>ar_id = art_id a, ar_task_id = art_task_id a, ar_step_key = art_step_key a,
      ar_kind = artifact_kind_as_str (art_kind a), ar_title = art_title a,
      ar_summary = art_summary a, ar_body = art_body a, ar_tokens = uint (art_tokens a),
      ar_created_at = sql_ts c (art_created_at a)\<rparr>"

section \<open>Reading a row\<close>

definition row_to_task :: "sql_codec \<Rightarrow> task_row \<Rightarrow> (long_task, sql_error) result" where
  "row_to_task c r =
     and_then (scope_from_columns (tr_scope r) (tr_owner r)) (\<lambda>scope.
     and_then (or_error (UnreadableState (tr_state r)) (task_state_parse (tr_state r))) (\<lambda>state.
     and_then (or_error (UnreadableKind (tr_kind r)) (task_kind_parse (tr_kind r))) (\<lambda>kind.
     and_then (or_error (UnreadableAnswer (tr_answer r)) (answer_shape_parse (tr_answer r))) (\<lambda>answer.
     and_then (u32_column (tr_max_steps r) (lit ''max_steps'')) (\<lambda>steps.
     and_then (parse_opt_ts c (tr_deadline r)) (\<lambda>dead.
     and_then (parse_ts c (tr_created_at r)) (\<lambda>created.
     and_then (parse_ts c (tr_updated_at r)) (\<lambda>updated.
     and_then (parse_opt_ts c (tr_finished_at r)) (\<lambda>finished.
       map_error BadTask (task_from_parts
         \<lparr>part_id = tr_id r, part_owner = tr_owner r, part_scope = scope, part_goal = tr_goal r,
          part_origin = tr_origin r, part_state = state, part_max_steps = steps,
          part_deadline = dead, part_kind = kind, part_answer = answer,
          part_created_at = created, part_updated_at = updated,
          part_finished_at = finished\<rparr>))))))))))"

definition row_to_step :: "sql_codec \<Rightarrow> step_row \<Rightarrow> (plan_step, sql_error) result" where
  "row_to_step c r =
     and_then (or_error (UnreadableState (sr_state r)) (step_state_parse (sr_state r))) (\<lambda>state.
     and_then (u32_column (sr_ordinal r) (lit ''ordinal'')) (\<lambda>ordinal.
     and_then (json_list c (sr_inputs r) (lit ''inputs'')) (\<lambda>inputs.
     and_then (json_list c (sr_depends_on r) (lit ''depends_on'')) (\<lambda>deps.
     and_then (u32_column (sr_attempts r) (lit ''attempts'')) (\<lambda>attempts.
     and_then (parse_opt_ts c (sr_started_at r)) (\<lambda>started.
     and_then (parse_opt_ts c (sr_finished_at r)) (\<lambda>finished.
     and_then (try_option (read_agent c) (sr_agent r)) (\<lambda>agent.
       map_error BadStep (step_from_parts
         \<lparr>sp_task_id = sr_task_id r, sp_key = sr_key r, sp_ordinal = ordinal,
          sp_role = sr_role r, sp_instructions = sr_instructions r, sp_inputs = inputs,
          sp_depends_on = deps, sp_acceptance = sr_acceptance r, sp_state = state,
          sp_attempts = attempts, sp_summary = sr_summary r, sp_failure = sr_failure r,
          sp_started_at = started, sp_finished_at = finished, sp_agent = agent\<rparr>)))))))))"

definition parse_kind :: "ustr \<Rightarrow> (artifact_kind, sql_error) result" where
  "parse_kind raw = or_error (UnreadableKind raw) (artifact_kind_parse raw)"

definition row_to_artifact :: "sql_codec \<Rightarrow> artifact_row \<Rightarrow> (artifact, sql_error) result" where
  "row_to_artifact c r =
     and_then (parse_kind (ar_kind r)) (\<lambda>kind.
     and_then (parse_ts c (ar_created_at r)) (\<lambda>created.
       map_error BadArtifact (artifact_from_parts
         \<lparr>ap_id = ar_id r, ap_task_id = ar_task_id r, ap_step_key = ar_step_key r,
          ap_kind = kind, ap_title = ar_title r, ap_summary = ar_summary r, ap_body = ar_body r,
          ap_created_at = created\<rparr>)))"

definition row_to_artifact_summary ::
  "sql_codec \<Rightarrow> artifact_row \<Rightarrow> (artifact_summary, sql_error) result" where
  "row_to_artifact_summary c r =
     and_then (try_option (\<lambda>k. map_error (\<lambda>_. UnreadableStepKey k) (step_key_parse k))
       (ar_step_key r)) (\<lambda>key.
     and_then (parse_kind (ar_kind r)) (\<lambda>kind.
     and_then (u32_column (ar_tokens r) (lit ''tokens'')) (\<lambda>tokens.
     and_then (parse_ts c (ar_created_at r)) (\<lambda>created.
       Ok \<lparr>as_id = ar_id r, as_task_id = ar_task_id r, as_step_key = key, as_kind = kind,
           as_title = ar_title r, as_summary = ar_summary r, as_tokens = tokens,
           as_created_at = created\<rparr>))))"

section \<open>The tables' constraints\<close>

definition task_checks :: "task_row \<Rightarrow> bool" where
  "task_checks r \<longleftrightarrow>
     tr_scope r \<in> {lit ''owner'', lit ''household'', lit ''guest''} \<and>
     sql_trim (tr_goal r) \<noteq> [] \<and>
     tr_state r \<in> {lit ''planning'', lit ''running'', lit ''awaiting_approval'', lit ''paused'',
       lit ''completed'', lit ''failed'', lit ''cancelled''} \<and>
     0 < tr_max_steps r \<and>
     (tr_scope r = lit ''owner'' \<and> tr_owner r \<noteq> None \<or> tr_scope r = lit ''household'' \<or>
      tr_scope r = lit ''guest'' \<and> tr_owner r = None) \<and>
     tr_kind r \<in> {lit ''general'', lit ''research''} \<and>
     tr_answer r \<in> {lit ''auto'', lit ''short'', lit ''report''}"

definition step_checks :: "sql_codec \<Rightarrow> step_row \<Rightarrow> bool" where
  "step_checks c r \<longleftrightarrow>
     sql_trim (sr_key r) \<noteq> [] \<and> 0 \<le> sr_ordinal r \<and> sql_trim (sr_role r) \<noteq> [] \<and>
     sql_trim (sr_instructions r) \<noteq> [] \<and>
     sql_json_array c (sr_inputs r) \<and> sql_json_array c (sr_depends_on r) \<and>
     sr_state r \<in> {lit ''pending'', lit ''running'', lit ''completed'', lit ''failed'',
       lit ''skipped'', lit ''awaiting_approval''} \<and>
     0 \<le> sr_attempts r"

definition artifact_checks :: "artifact_row \<Rightarrow> bool" where
  "artifact_checks r \<longleftrightarrow>
     ar_kind r \<in> {lit ''note'', lit ''findings'', lit ''draft'', lit ''data''} \<and>
     sql_trim (ar_title r) \<noteq> [] \<and> sql_trim (ar_summary r) \<noteq> [] \<and> 0 \<le> ar_tokens r"

section \<open>What the store relies on of the text formats\<close>

text \<open>
  A column keeps whole seconds, and its text sorts as its time for the years 1970 to 9999, where RFC
  3339 has four digits. What \<open>serde_json\<close> writes for a list of strings and for a \<open>StepAgent\<close> it reads
  back, and SQLite takes the list for a JSON array.
\<close>

definition whole_second :: "timestamp \<Rightarrow> timestamp" where
  "whole_second t = (t div NANOS) * NANOS"

definition storable_time :: "timestamp \<Rightarrow> bool" where
  "storable_time t \<longleftrightarrow> 0 \<le> t \<and> t < 253402300800 * NANOS"

definition codec_ok :: "sql_codec \<Rightarrow> bool" where
  "codec_ok c \<longleftrightarrow>
     (\<forall>t. storable_time t \<longrightarrow> ts_read c (ts_text c t) = Some (whole_second t)) \<and>
     (\<forall>s t. storable_time s \<longrightarrow> storable_time t \<longrightarrow>
        (ts_text c s \<le> ts_text c t \<longleftrightarrow> whole_second s \<le> whole_second t)) \<and>
     (\<forall>xs. json_read c (json_text c (list_json xs)) = Some (list_json xs)) \<and>
     (\<forall>a. json_read c (json_text c (agent_json a)) = Some (agent_json a)) \<and>
     (\<forall>xs. sql_json_array c (json_text c (list_json xs)))"

lemma codec_ts: "codec_ok c \<Longrightarrow> storable_time t \<Longrightarrow> parse_ts c (sql_ts c t) = Ok (whole_second t)"
  by (simp add: codec_ok_def parse_ts_def sql_ts_def)

lemma codec_order:
  "codec_ok c \<Longrightarrow> storable_time s \<Longrightarrow> storable_time t \<Longrightarrow>
     sql_ts c s \<le> sql_ts c t \<longleftrightarrow> whole_second s \<le> whole_second t"
  by (simp add: codec_ok_def sql_ts_def)

lemma codec_list: "codec_ok c \<Longrightarrow> json_list c (json_text c (list_json xs)) col = Ok xs"
  by (simp add: codec_ok_def json_list_def list_json_def string_list_def list_all_iff comp_def)

lemma codec_opt_ts:
  "codec_ok c \<Longrightarrow> (case t of None \<Rightarrow> True | Some x \<Rightarrow> storable_time x) \<Longrightarrow>
     parse_opt_ts c (map_option (sql_ts c) t) = Ok (map_option whole_second t)"
  by (cases t) (simp_all add: parse_opt_ts_def codec_ts)

lemma whole_second_idem [simp]: "whole_second (whole_second t) = whole_second t"
  by (simp add: whole_second_def NANOS_def)

lemma storable_whole: "storable_time t \<Longrightarrow> storable_time (whole_second t)"
proof -
  assume "storable_time t"
  then have "0 \<le> t div NANOS * NANOS" "t div NANOS * NANOS \<le> t" "t < 253402300800 * NANOS"
    using div_mult_mod_eq [of t NANOS] pos_mod_sign [of NANOS t]
    by (simp_all add: storable_time_def NANOS_def pos_imp_zdiv_nonneg_iff)
  then show ?thesis unfolding storable_time_def whole_second_def by linarith
qed

lemma u32_column_uint [simp]: "u32_column (uint (w :: u32)) col = Ok w"
  using unsigned_less [where 'a = int and w = w] by (simp add: u32_column_def)

lemma split_on_absent: "(\<forall>ch \<in> set s. \<not> p ch) \<Longrightarrow> split_on p s = [s]"
  by (induction s) auto

lemma concat_split_absent:
  "\<forall>t \<in> set ts. \<forall>ch \<in> set t. \<not> p ch \<Longrightarrow> concat (map (split_on p) ts) = ts"
  by (induction ts) (simp_all add: split_on_absent)

text \<open>A column that holds a made agent reads back as it was, as its tools have no comma.\<close>

definition storable_agent :: "step_agent \<Rightarrow> bool" where
  "storable_agent a \<longleftrightarrow>
     agent_cleaned a = Some a \<and> list_all (\<lambda>t. 44 \<notin> set t) (agent_tools a)"

lemma agent_cleaned_text: "agent_cleaned a = Some a \<Longrightarrow> trim (agent_instructions a) \<noteq> []"
  by (auto simp: agent_cleaned_def Let_def split: if_splits)

lemma agent_json_reads:
  assumes "storable_agent a"
  shows "agent_from_value (agent_json a) = Ok a"
proof -
  have tools: "concat (map (split_on (\<lambda>ch. ch = 44)) (agent_tools a)) = agent_tools a"
    using assms by (intro concat_split_absent) (auto simp: storable_agent_def list_all_iff)
  have said: "trim (agent_instructions a) \<noteq> []"
    using assms agent_cleaned_text by (simp add: storable_agent_def)
  show ?thesis
    using tools said
    by (simp add: agent_from_value_def agent_json_def list_json_def AGENT_FIELDS_def field_named_def
        agent_field_bad_def not_string_def agent_of_fields_def string_field_def list_field_def
        one_or_many_def string_or_lines_def optional_string_or_lines_def comp_def)
qed

lemma codec_agent:
  "codec_ok c \<Longrightarrow> storable_agent a \<Longrightarrow> read_agent c (json_text c (agent_json a)) = Ok a"
  by (simp add: codec_ok_def read_agent_def agent_json_reads)

section \<open>A row reads back\<close>

text \<open>
  What a column can hold of a value: its times to the second. \<open>storable_*\<close> collects what the
  constructors establish (\<open>task_wf\<close>, \<open>step_wf\<close>, \<open>artifact_ok\<close>) with times of the years above, an
  id that is not blank and, for a task, a trimmed owner.
\<close>

definition stored_budget :: "long_task_budget \<Rightarrow> long_task_budget" where
  "stored_budget b = b\<lparr>deadline := map_option whole_second (deadline b)\<rparr>"

definition stored_task :: "long_task \<Rightarrow> long_task" where
  "stored_task t =
     t\<lparr>task_budget := stored_budget (task_budget t),
       task_created_at := whole_second (task_created_at t),
       task_updated_at := whole_second (task_updated_at t),
       task_finished_at := map_option whole_second (task_finished_at t)\<rparr>"

definition stored_step :: "plan_step \<Rightarrow> plan_step" where
  "stored_step s =
     s\<lparr>ps_started_at := map_option whole_second (ps_started_at s),
       ps_finished_at := map_option whole_second (ps_finished_at s)\<rparr>"

definition stored_artifact :: "artifact \<Rightarrow> artifact" where
  "stored_artifact a = a\<lparr>art_created_at := whole_second (art_created_at a)\<rparr>"

definition storable_opt :: "timestamp option \<Rightarrow> bool" where
  "storable_opt t = (case t of None \<Rightarrow> True | Some x \<Rightarrow> storable_time x)"

definition trimmed_owner :: "profile_scope \<Rightarrow> bool" where
  "trimmed_owner scope = (case scope of Owner i \<Rightarrow> trim i = i | _ \<Rightarrow> True)"

definition storable_task :: "long_task \<Rightarrow> bool" where
  "storable_task t \<longleftrightarrow>
     task_wf t \<and> trim (task_id t) \<noteq> [] \<and> trimmed_owner (task_scope t) \<and>
     storable_opt (deadline (task_budget t)) \<and> storable_time (task_created_at t) \<and>
     storable_time (task_updated_at t) \<and> storable_opt (task_finished_at t)"

definition storable_step :: "plan_step \<Rightarrow> bool" where
  "storable_step s \<longleftrightarrow>
     step_wf s \<and> (case ps_agent s of None \<Rightarrow> True | Some a \<Rightarrow> storable_agent a) \<and>
     storable_opt (ps_started_at s) \<and> storable_opt (ps_finished_at s)"

definition storable_artifact :: "artifact \<Rightarrow> bool" where
  "storable_artifact a \<longleftrightarrow> artifact_ok a \<and> storable_time (art_created_at a)"

lemma storable_opt_whole: "storable_opt t \<Longrightarrow> storable_opt (map_option whole_second t)"
  by (cases t) (simp_all add: storable_opt_def storable_whole)

lemma map_whole_idem [simp]:
  "map_option whole_second (map_option whole_second t) = map_option whole_second t"
  by (cases t) simp_all

lemma stored_idem [simp]:
  "stored_task (stored_task t) = stored_task t" "stored_step (stored_step s) = stored_step s"
  "stored_artifact (stored_artifact a) = stored_artifact a"
  by (simp_all add: stored_task_def stored_step_def stored_artifact_def stored_budget_def)

lemma stored_fields [simp]:
  "task_id (stored_task t) = task_id t" "task_owner (stored_task t) = task_owner t"
  "task_scope (stored_task t) = task_scope t" "task_state (stored_task t) = task_state t"
  "task_answer (stored_task t) = task_answer t"
  "ps_task_id (stored_step s) = ps_task_id s" "ps_key (stored_step s) = ps_key s"
  "ps_state (stored_step s) = ps_state s" "ps_ordinal (stored_step s) = ps_ordinal s"
  "art_id (stored_artifact a) = art_id a" "art_task_id (stored_artifact a) = art_task_id a"
  by (simp_all add: stored_task_def stored_step_def stored_artifact_def)

lemma storable_stored:
  "storable_task t \<Longrightarrow> storable_task (stored_task t)"
  "storable_step s \<Longrightarrow> storable_step (stored_step s)"
  "storable_artifact a \<Longrightarrow> storable_artifact (stored_artifact a)"
  by (simp_all add: storable_task_def stored_task_def stored_budget_def storable_step_def
      stored_step_def storable_artifact_def stored_artifact_def storable_whole storable_opt_whole
      task_wf_def step_wf_def artifact_ok_def)

lemma codec_storable_opt:
  "codec_ok c \<Longrightarrow> storable_opt t \<Longrightarrow>
     parse_opt_ts c (map_option (sql_ts c) t) = Ok (map_option whole_second t)"
  unfolding storable_opt_def by (rule codec_opt_ts)

lemma owner_column:
  assumes "owner_agrees scope owner"
  shows "scope_from_columns (scope_column scope) owner = Ok scope"
  using assms
  by (cases scope) (simp_all add: scope_from_columns_def owner_agrees_def)

lemma task_row_reads:
  assumes "codec_ok c" "storable_task t"
  shows "row_to_task c (task_row_of c t) = Ok (stored_task t)"
proof -
  have wf: "task_wf (stored_task t)" "trim (task_id (stored_task t)) \<noteq> []"
    "\<And>i. task_scope (stored_task t) = Owner i \<Longrightarrow> trim i = i"
    using storable_stored(1) [OF assms(2)] by (auto simp: storable_task_def trimmed_owner_def)
  have scope: "scope_from_columns (scope_column (task_scope t)) (task_owner t) = Ok (task_scope t)"
    using assms(2) by (intro owner_column) (simp add: storable_task_def task_wf_def)
  have times: "storable_opt (deadline (task_budget t))" "storable_time (task_created_at t)"
    "storable_time (task_updated_at t)" "storable_opt (task_finished_at t)"
    using assms(2) by (simp_all add: storable_task_def)
  show ?thesis
    using task_parts_roundtrip_aux [OF wf]
    by (simp add: row_to_task_def task_row_of_def scope task_states.parse_as_str
        task_kinds.parse_as_str answer_shapes.parse_as_str codec_ts [OF assms(1)]
        codec_storable_opt [OF assms(1)] times task_parts_def stored_task_def stored_budget_def)
qed

lemma step_row_reads:
  assumes "codec_ok c" "storable_step s"
  shows "row_to_step c (step_row_of c s) = Ok (stored_step s)"
proof -
  have wf: "step_wf (stored_step s)" using storable_stored(2) [OF assms(2)] by (simp add: storable_step_def)
  have times: "storable_opt (ps_started_at s)" "storable_opt (ps_finished_at s)"
    using assms(2) by (simp_all add: storable_step_def)
  have agent: "try_option (read_agent c) (map_option (\<lambda>a. json_text c (agent_json a)) (ps_agent s)) =
      Ok (ps_agent s)"
    using assms by (cases "ps_agent s") (simp_all add: storable_step_def codec_agent)
  show ?thesis
    using step_parts_roundtrip_aux [OF wf]
    by (simp add: row_to_step_def step_row_of_def step_states.parse_as_str codec_list [OF assms(1)]
        codec_storable_opt [OF assms(1)] times agent step_parts_def stored_step_def)
qed

lemma artifact_row_reads:
  assumes "codec_ok c" "storable_artifact a"
  shows "row_to_artifact c (artifact_row_of c a) = Ok (stored_artifact a)"
    and "row_to_artifact_summary c (artifact_row_of c a) = Ok (summary_view (stored_artifact a))"
proof -
  have wf: "artifact_ok (stored_artifact a)"
    using storable_stored(3) [OF assms(2)] by (simp add: storable_artifact_def)
  have at: "storable_time (art_created_at a)" using assms(2) by (simp add: storable_artifact_def)
  show "row_to_artifact c (artifact_row_of c a) = Ok (stored_artifact a)"
    using artifact_parts_roundtrip_aux [OF wf]
    by (simp add: row_to_artifact_def artifact_row_of_def parse_kind_def artifact_kinds.parse_as_str
        codec_ts [OF assms(1) at] artifact_parts_of_def stored_artifact_def)
  have key: "try_option (\<lambda>k. map_error (\<lambda>_. UnreadableStepKey k) (step_key_parse k)) (art_step_key a) =
      Ok (art_step_key a)"
    using wf by (cases "art_step_key a")
      (simp_all add: artifact_ok_def stored_artifact_def step_key_parse_valid)
  show "row_to_artifact_summary c (artifact_row_of c a) = Ok (summary_view (stored_artifact a))"
    by (simp add: row_to_artifact_summary_def artifact_row_of_def parse_kind_def key
        artifact_kinds.parse_as_str codec_ts [OF assms(1) at] summary_view_def stored_artifact_def)
qed

section \<open>A well-formed value passes the constraints\<close>

lemma sql_trim_trim:
  assumes "trim s \<noteq> []" shows "sql_trim s \<noteq> []"
proof
  assume empty: "sql_trim s = []"
  define rest where "rest = dropWhile (\<lambda>ch. ch = (32 :: uchar)) s"
  have spaces: "\<forall>ch \<in> set rest. ch = 32"
    using empty unfolding sql_trim_def rest_def [symmetric] by simp
  have "rest = []"
  proof (rule ccontr)
    assume "rest \<noteq> []"
    then have "hd rest \<noteq> 32" unfolding rest_def by (rule hd_dropWhile)
    with spaces \<open>rest \<noteq> []\<close> show False by simp
  qed
  then have "\<forall>ch \<in> set s. ch = 32" unfolding rest_def by simp
  then have "\<forall>ch \<in> set s. is_whitespace ch" by (simp add: is_whitespace_def)
  with assms show False by (simp add: trim_Nil_iff)
qed

lemma spelled_states:
  "task_state_as_str ts \<in> {lit ''planning'', lit ''running'', lit ''awaiting_approval'', lit ''paused'',
     lit ''completed'', lit ''failed'', lit ''cancelled''}"
  "task_kind_as_str tk \<in> {lit ''general'', lit ''research''}"
  "answer_shape_as_str an \<in> {lit ''auto'', lit ''short'', lit ''report''}"
  "step_state_as_str ss \<in> {lit ''pending'', lit ''running'', lit ''completed'', lit ''failed'',
     lit ''skipped'', lit ''awaiting_approval''}"
  "artifact_kind_as_str ak \<in> {lit ''note'', lit ''findings'', lit ''draft'', lit ''data''}"
proof -
  show "task_state_as_str ts \<in> {lit ''planning'', lit ''running'', lit ''awaiting_approval'',
      lit ''paused'', lit ''completed'', lit ''failed'', lit ''cancelled''}" by (cases ts) simp_all
  show "task_kind_as_str tk \<in> {lit ''general'', lit ''research''}" by (cases tk) simp_all
  show "answer_shape_as_str an \<in> {lit ''auto'', lit ''short'', lit ''report''}" by (cases an) simp_all
  show "step_state_as_str ss \<in> {lit ''pending'', lit ''running'', lit ''completed'', lit ''failed'',
      lit ''skipped'', lit ''awaiting_approval''}" by (cases ss) simp_all
  show "artifact_kind_as_str ak \<in> {lit ''note'', lit ''findings'', lit ''draft'', lit ''data''}"
    by (cases ak) simp_all
qed

lemma task_row_checks: "task_wf t \<Longrightarrow> task_checks (task_row_of c t)"
proof -
  assume wf: "task_wf t"
  have goal: "sql_trim (task_goal t) \<noteq> []" using wf by (intro sql_trim_trim) (simp add: task_wf_def)
  have steps: "0 < uint (max_steps (task_budget t))"
    using wf by (simp add: task_wf_def word_less_def)
  have "owner_agrees (task_scope t) (task_owner t)" using wf by (simp add: task_wf_def)
  then have "scope_column (task_scope t) \<in> {lit ''owner'', lit ''household'', lit ''guest''} \<and>
      (scope_column (task_scope t) = lit ''owner'' \<and> task_owner t \<noteq> None \<or>
       scope_column (task_scope t) = lit ''household'' \<or>
       scope_column (task_scope t) = lit ''guest'' \<and> task_owner t = None)"
    by (cases "task_scope t") (simp_all add: owner_agrees_def)
  with goal steps show ?thesis
    using spelled_states(1) [of "task_state t"] spelled_states(2) [of "task_kind t"]
      spelled_states(3) [of "task_answer t"]
    unfolding task_checks_def task_row_of_def task_row.simps by blast
qed

lemma step_row_checks:
  assumes "codec_ok c" "step_wf s"
  shows "step_checks c (step_row_of c s)"
proof -
  have "sql_trim (ps_key s) \<noteq> []" "sql_trim (ps_role s) \<noteq> []" "sql_trim (ps_instructions s) \<noteq> []"
    using assms(2)
    by (auto intro!: sql_trim_trim simp: step_wf_def trim_key valid_step_key_def)
  then show ?thesis
    using assms(1)
    by (cases "ps_state s") (simp_all add: step_checks_def step_row_of_def codec_ok_def)
qed

lemma artifact_row_checks: "artifact_ok a \<Longrightarrow> artifact_checks (artifact_row_of c a)"
proof -
  assume ok: "artifact_ok a"
  have "trim (art_title a) \<noteq> []" "trim (art_summary a) \<noteq> []"
    using ok one_line_not_blank unfolding artifact_ok_def by metis+
  then have "sql_trim (art_title a) \<noteq> []" "sql_trim (art_summary a) \<noteq> []"
    by (simp_all add: sql_trim_trim)
  then show ?thesis
    using spelled_states(5) [of "art_kind a"]
    by (simp add: artifact_checks_def artifact_row_of_def)
qed

end
