(* ===== verification/Sqlite_Store.thy ===== *)
theory Sqlite_Store
  imports Sqlite_Rows "HOL-Library.Multiset"
begin

text \<open>
  The SQLite task store: every method of \<open>SqliteLongTaskRepository\<close>
  (\<open>pond-infra/src/sqlite_long_task.rs\<close>) over tables of rows, with the primary keys, the unique
  constraint, the checks, the foreign keys and the cascades of the migrations. The two methods that
  read, decide and then write with a compare-and-set are in two halves, so that another writer may
  come between; a replan is one transaction, which an error rolls back.

  The store refines the ledger of \<open>Long_Task_Store\<close>: \<open>represents\<close> is the simulation relation, and the
  replies agree call by call, for times kept to the second.
\<close>

record pond_db =
  db_profiles :: "ustr list"
  db_sessions :: "ustr list"
  db_tasks :: "task_row list"
  db_steps :: "step_row list"
  db_artifacts :: "artifact_row list"

section \<open>Statements\<close>

definition references :: "ustr list \<Rightarrow> ustr option \<Rightarrow> bool" where
  "references ids x = (case x of None \<Rightarrow> True | Some i \<Rightarrow> i \<in> set ids)"

definition insert_task_row :: "pond_db \<Rightarrow> task_row \<Rightarrow> (pond_db, sql_error) result" where
  "insert_task_row db r =
     (if task_checks r \<and> tr_id r \<notin> tr_id ` set (db_tasks db) \<and>
         references (db_profiles db) (tr_owner r) \<and> references (db_sessions db) (tr_origin r)
      then Ok (db\<lparr>db_tasks := db_tasks db @ [r]\<rparr>) else Err ConstraintFailed)"

definition insert_step_row :: "sql_codec \<Rightarrow> pond_db \<Rightarrow> step_row \<Rightarrow> (pond_db, sql_error) result" where
  "insert_step_row c db r =
     (if step_checks c r \<and>
         (sr_task_id r, sr_key r) \<notin> (\<lambda>s. (sr_task_id s, sr_key s)) ` set (db_steps db) \<and>
         sr_task_id r \<in> tr_id ` set (db_tasks db)
      then Ok (db\<lparr>db_steps := db_steps db @ [r]\<rparr>) else Err ConstraintFailed)"

definition insert_artifact_row :: "pond_db \<Rightarrow> artifact_row \<Rightarrow> (pond_db, sql_error) result" where
  "insert_artifact_row db r =
     (if artifact_checks r \<and> ar_id r \<notin> ar_id ` set (db_artifacts db) \<and>
         ar_task_id r \<in> tr_id ` set (db_tasks db)
      then Ok (db\<lparr>db_artifacts := db_artifacts db @ [r]\<rparr>) else Err ConstraintFailed)"

text \<open>\<open>UPDATE ... WHERE\<close>, with the number of rows affected.\<close>

definition update_task_rows ::
  "pond_db \<Rightarrow> (task_row \<Rightarrow> bool) \<Rightarrow> (task_row \<Rightarrow> task_row) \<Rightarrow> (nat \<times> pond_db, sql_error) result" where
  "update_task_rows db chosen change =
     (if list_all (\<lambda>r. task_checks (change r)) (filter chosen (db_tasks db))
      then Ok (length (filter chosen (db_tasks db)),
               db\<lparr>db_tasks := map (\<lambda>r. if chosen r then change r else r) (db_tasks db)\<rparr>)
      else Err ConstraintFailed)"

definition update_step_rows ::
  "sql_codec \<Rightarrow> pond_db \<Rightarrow> (step_row \<Rightarrow> bool) \<Rightarrow> (step_row \<Rightarrow> step_row) \<Rightarrow>
     (nat \<times> pond_db, sql_error) result" where
  "update_step_rows c db chosen change =
     (if list_all (\<lambda>r. step_checks c (change r)) (filter chosen (db_steps db))
      then Ok (length (filter chosen (db_steps db)),
               db\<lparr>db_steps := map (\<lambda>r. if chosen r then change r else r) (db_steps db)\<rparr>)
      else Err ConstraintFailed)"

text \<open>\<open>DELETE FROM long_tasks\<close>: the cascade takes a task's steps and artifacts with it.\<close>

definition delete_task_rows :: "pond_db \<Rightarrow> (task_row \<Rightarrow> bool) \<Rightarrow> nat \<times> pond_db" where
  "delete_task_rows db chosen =
     (let gone = map tr_id (filter chosen (db_tasks db)) in
      (length gone,
       db\<lparr>db_tasks := filter (\<lambda>r. \<not> chosen r) (db_tasks db),
          db_steps := filter (\<lambda>s. sr_task_id s \<notin> set gone) (db_steps db),
          db_artifacts := filter (\<lambda>a. ar_task_id a \<notin> set gone) (db_artifacts db)\<rparr>))"

text \<open>What the foreign keys do when a profile or a session is deleted.\<close>

definition delete_profile_row :: "pond_db \<Rightarrow> ustr \<Rightarrow> pond_db" where
  "delete_profile_row db i =
     snd (delete_task_rows (db\<lparr>db_profiles := filter (\<lambda>p. p \<noteq> i) (db_profiles db)\<rparr>)
            (\<lambda>r. tr_owner r = Some i))"

definition delete_session_row :: "pond_db \<Rightarrow> ustr \<Rightarrow> pond_db" where
  "delete_session_row db i =
     db\<lparr>db_sessions := filter (\<lambda>s. s \<noteq> i) (db_sessions db),
        db_tasks := map (\<lambda>r. if tr_origin r = Some i then r\<lparr>tr_origin := None\<rparr> else r)
          (db_tasks db)\<rparr>"

text \<open>A listing skips a row it cannot read.\<close>

definition readable :: "('r \<Rightarrow> ('a, 'e) result) \<Rightarrow> 'r list \<Rightarrow> 'a list" where
  "readable read rows =
     List.map_filter (\<lambda>r. case read r of Ok x \<Rightarrow> Some x | Err _ \<Rightarrow> None) rows"

section \<open>Tasks\<close>

definition sql_create_task :: "sql_codec \<Rightarrow> pond_db \<Rightarrow> long_task \<Rightarrow> (pond_db, sql_error) result" where
  "sql_create_task c db t = insert_task_row db (task_row_of c t)"

definition sql_get_task :: "sql_codec \<Rightarrow> pond_db \<Rightarrow> ustr \<Rightarrow> (long_task option, sql_error) result" where
  "sql_get_task c db i = try_option (row_to_task c) (find (\<lambda>r. tr_id r = i) (db_tasks db))"

fun owner_predicate :: "long_task_owner_filter \<Rightarrow> task_row \<Rightarrow> bool" where
  "owner_predicate Everyone r = True"
| "owner_predicate (Member i) r = (tr_owner r = Some i)"
| "owner_predicate Unowned r = (tr_owner r = None)"

definition sql_list_tasks ::
  "sql_codec \<Rightarrow> pond_db \<Rightarrow> long_task_owner_filter \<Rightarrow> bool \<Rightarrow> long_task list" where
  "sql_list_tasks c db owner include_finished =
     readable (row_to_task c)
       (rev (sort_key tr_created_at
         (filter (\<lambda>r. owner_predicate owner r \<and>
            (include_finished \<or> tr_state r \<notin> set terminal_states_sql)) (db_tasks db))))"

definition sql_decide_task_answer ::
  "pond_db \<Rightarrow> ustr \<Rightarrow> answer_shape \<Rightarrow> (bool \<times> pond_db, sql_error) result" where
  "sql_decide_task_answer db i a =
     (if a = AnswerAuto then Ok (False, db)
      else and_then
        (update_task_rows db (\<lambda>r. tr_id r = i \<and> tr_answer r = lit ''auto'')
          (\<lambda>r. r\<lparr>tr_answer := answer_shape_as_str a\<rparr>))
        (\<lambda>(n, db'). Ok (n > 0, db')))"

definition set_state_read ::
  "sql_codec \<Rightarrow> pond_db \<Rightarrow> ustr \<Rightarrow> long_task_state \<Rightarrow> timestamp \<Rightarrow>
     ((long_task \<times> long_task_state) option, sql_error) result" where
  "set_state_read c db i state at =
     and_then (sql_get_task c db i) (\<lambda>found.
       case found of
         None \<Rightarrow> Ok None
       | Some task \<Rightarrow>
           (case transition_to task state at of
              Err e \<Rightarrow> Err (StoreRefused (TaskMoveRefused e))
            | Ok moved \<Rightarrow> Ok (Some (moved, task_state task))))"

definition set_state_write ::
  "sql_codec \<Rightarrow> pond_db \<Rightarrow> ustr \<Rightarrow> long_task \<Rightarrow> long_task_state \<Rightarrow>
     (long_task option \<times> pond_db, sql_error) result" where
  "set_state_write c db i task from_state =
     and_then
       (update_task_rows db (\<lambda>r. tr_id r = i \<and> tr_state r = task_state_as_str from_state)
         (\<lambda>r. r\<lparr>tr_state := task_state_as_str (task_state task),
                tr_updated_at := sql_ts c (task_updated_at task),
                tr_finished_at := map_option (sql_ts c) (task_finished_at task)\<rparr>))
       (\<lambda>(n, db').
         if n = 0 then
           and_then (sql_get_task c db' i) (\<lambda>found.
             case found of None \<Rightarrow> Ok (None, db') | Some _ \<Rightarrow> Err (MovedMeanwhile i))
         else Ok (Some task, db'))"

definition sql_set_task_state ::
  "sql_codec \<Rightarrow> pond_db \<Rightarrow> ustr \<Rightarrow> long_task_state \<Rightarrow> timestamp \<Rightarrow>
     (long_task option \<times> pond_db, sql_error) result" where
  "sql_set_task_state c db i state at =
     and_then (set_state_read c db i state at) (\<lambda>found.
       case found of
         None \<Rightarrow> Ok (None, db)
       | Some (task, from_state) \<Rightarrow> set_state_write c db i task from_state)"

definition sql_delete_task :: "pond_db \<Rightarrow> ustr \<Rightarrow> bool \<times> pond_db" where
  "sql_delete_task db i =
     (case delete_task_rows db (\<lambda>r. tr_id r = i) of (n, db') \<Rightarrow> (n > 0, db'))"

section \<open>Steps\<close>

definition stored_states ::
  "step_row list \<Rightarrow> ((ustr \<times> step_state) list, sql_error) result" where
  "stored_states rows =
     try_map (\<lambda>r. and_then (or_error (UnreadableState (sr_state r)) (step_state_parse (sr_state r)))
       (\<lambda>s. Ok (sr_key r, s))) rows"

fun insert_steps :: "sql_codec \<Rightarrow> pond_db \<Rightarrow> plan_step list \<Rightarrow> (pond_db, sql_error) result" where
  "insert_steps c db [] = Ok db"
| "insert_steps c db (s # ss) =
     and_then (insert_step_row c db (step_row_of c s)) (\<lambda>db'. insert_steps c db' ss)"

definition sql_replace_open_steps ::
  "sql_codec \<Rightarrow> pond_db \<Rightarrow> validated_plan \<Rightarrow> (pond_db, sql_error) result" where
  "sql_replace_open_steps c db p =
     (let tid = vp_task_id p in
      and_then (or_error (StoreRefused (NoTaskToPlan tid)) (find (\<lambda>r. tr_id r = tid) (db_tasks db)))
        (\<lambda>task.
      and_then (or_error (UnreadableState (tr_state task)) (task_state_parse (tr_state task))) (\<lambda>state.
      if task_state_is_terminal state then Err (StoreRefused (TaskTakesNoPlan tid state))
      else
      and_then (stored_states (filter (\<lambda>r. sr_task_id r = tid) (db_steps db))) (\<lambda>stored.
      and_then (map_error (\<lambda>e. StoreRefused (PlanStale e)) (check_current p stored)) (\<lambda>_.
        insert_steps c
          (db\<lparr>db_steps := filter (\<lambda>r. \<not> (sr_task_id r = tid \<and> sr_state r \<in> set open_step_states_sql))
             (db_steps db)\<rparr>)
          (vp_steps p))))))"

definition sql_list_steps :: "sql_codec \<Rightarrow> pond_db \<Rightarrow> ustr \<Rightarrow> (plan_step list, sql_error) result" where
  "sql_list_steps c db tid =
     try_map (row_to_step c) (sort_key sr_ordinal (filter (\<lambda>r. sr_task_id r = tid) (db_steps db)))"

definition update_step_read :: "pond_db \<Rightarrow> plan_step \<Rightarrow> (step_state, sql_error) result" where
  "update_step_read db s =
     and_then
       (or_error (StoreRefused (NoSuchStep (ps_key s) (ps_task_id s)))
         (find (\<lambda>r. sr_task_id r = ps_task_id s \<and> sr_key r = ps_key s) (db_steps db)))
       (\<lambda>r.
     and_then (or_error (UnreadableState (sr_state r)) (step_state_parse (sr_state r)))
       (\<lambda>from_state.
          if \<not> step_can_become from_state (ps_state s)
          then Err (StoreRefused (StepMoveRefused
                 \<lparr>refused_step = ps_key s, step_from = from_state, step_to = ps_state s\<rparr>))
          else Ok from_state))"

definition update_step_write ::
  "sql_codec \<Rightarrow> pond_db \<Rightarrow> plan_step \<Rightarrow> step_state \<Rightarrow> (pond_db, sql_error) result" where
  "update_step_write c db s from_state =
     and_then
       (update_step_rows c db
         (\<lambda>r. sr_task_id r = ps_task_id s \<and> sr_key r = ps_key s \<and>
              sr_state r = step_state_as_str from_state)
         (\<lambda>r. r\<lparr>sr_state := step_state_as_str (ps_state s), sr_attempts := uint (ps_attempts s),
                sr_summary := ps_summary s, sr_failure := ps_failure s,
                sr_started_at := map_option (sql_ts c) (ps_started_at s),
                sr_finished_at := map_option (sql_ts c) (ps_finished_at s)\<rparr>))
       (\<lambda>(n, db'). if n = 0 then Err (MovedMeanwhile (ps_key s)) else Ok db')"

definition sql_update_step :: "sql_codec \<Rightarrow> pond_db \<Rightarrow> plan_step \<Rightarrow> (pond_db, sql_error) result" where
  "sql_update_step c db s =
     and_then (update_step_read db s) (\<lambda>from_state. update_step_write c db s from_state)"

section \<open>Artifacts\<close>

definition sql_insert_artifact :: "sql_codec \<Rightarrow> pond_db \<Rightarrow> artifact \<Rightarrow> (pond_db, sql_error) result" where
  "sql_insert_artifact c db a = insert_artifact_row db (artifact_row_of c a)"

definition sql_get_artifact ::
  "sql_codec \<Rightarrow> pond_db \<Rightarrow> ustr \<Rightarrow> ustr \<Rightarrow> (artifact option, sql_error) result" where
  "sql_get_artifact c db tid aid =
     try_option (row_to_artifact c)
       (find (\<lambda>r. ar_id r = aid \<and> ar_task_id r = tid) (db_artifacts db))"

definition sql_list_artifacts :: "sql_codec \<Rightarrow> pond_db \<Rightarrow> ustr \<Rightarrow> artifact_summary list" where
  "sql_list_artifacts c db tid =
     readable (row_to_artifact_summary c)
       (sort_key ar_created_at (filter (\<lambda>r. ar_task_id r = tid) (db_artifacts db)))"

definition sql_delete_artifact :: "pond_db \<Rightarrow> ustr \<Rightarrow> ustr \<Rightarrow> bool \<times> pond_db" where
  "sql_delete_artifact db tid aid =
     (length (filter (\<lambda>r. ar_id r = aid \<and> ar_task_id r = tid) (db_artifacts db)) > 0,
      db\<lparr>db_artifacts := filter (\<lambda>r. \<not> (ar_id r = aid \<and> ar_task_id r = tid)) (db_artifacts db)\<rparr>)"

section \<open>Finding, listing and sorting rows\<close>

lemma find_map_rows: "find p (map f xs) = map_option f (find (\<lambda>x. p (f x)) xs)"
  by (induction xs) simp_all

lemma filter_map_rows: "filter p (map f xs) = map f (filter (\<lambda>x. p (f x)) xs)"
  by (simp add: filter_map comp_def)

lemma sort_key_map_rows: "sort_key k (map f xs) = map f (sort_key (\<lambda>x. k (f x)) xs)"
proof -
  have "insort_key k (f x) (map f ys) = map f (insort_key (\<lambda>x. k (f x)) x ys)" for x ys
    by (induction ys) simp_all
  then show ?thesis by (induction xs) simp_all
qed

lemma sort_key_same_order:
  assumes "\<And>x y. x \<in> set xs \<Longrightarrow> y \<in> set xs \<Longrightarrow> f x \<le> f y \<longleftrightarrow> g x \<le> g y"
  shows "sort_key f xs = sort_key g xs"
proof (rule properties_for_sort_key)
  have eq: "f x = f y \<longleftrightarrow> g x = g y" if "x \<in> set xs" "y \<in> set xs" for x y
    using assms [OF that] assms [OF that(2,1)] unfolding order.eq_iff by simp
  show "filter (\<lambda>x. f k = f x) (sort_key g xs) = filter (\<lambda>x. f k = f x) xs"
    if "k \<in> set (sort_key g xs)" for k
  proof -
    have "filter (\<lambda>x. f k = f x) ys = filter (\<lambda>x. g x = g k) ys" if "set ys = set xs" for ys
      using that \<open>k \<in> set (sort_key g xs)\<close> eq by (intro filter_cong) auto
    then show ?thesis by (simp add: sort_key_stable)
  qed
  show "sorted (map f (sort_key g xs))"
    unfolding sorted_map
    by (rule sorted_wrt_mono_rel [OF _ sorted_sort_key [of g xs, unfolded sorted_map]])
       (use assms in auto)
qed simp

lemma rev_sort_key: "rev (sort_key f xs) = sort_key (\<lambda>x. - f x) (rev xs)"
  for f :: "'a \<Rightarrow> int"
proof (rule sym, rule properties_for_sort_key)
  show "filter (\<lambda>x. - f k = - f x) (rev (sort_key f xs)) = filter (\<lambda>x. - f k = - f x) (rev xs)"
    for k
    using sort_key_stable [of f "f k" xs] by (simp add: rev_filter [symmetric] eq_commute)
  have "sorted_wrt (\<lambda>x y. f x \<le> f y) (sort_key f xs)"
    using sorted_sort_key [of f xs] by (simp add: sorted_map)
  then show "sorted (map (\<lambda>x. - f x) (rev (sort_key f xs)))"
    by (simp add: sorted_map sorted_wrt_rev)
qed simp

lemma readable_all:
  "(\<And>x. x \<in> set xs \<Longrightarrow> read (f x) = Ok (g x)) \<Longrightarrow> readable read (map f xs) = map g xs"
  by (induction xs) (simp_all add: readable_def List.map_filter_def)

lemma try_map_rows:
  "(\<And>x. x \<in> set xs \<Longrightarrow> read (f x) = Ok (g x)) \<Longrightarrow> try_map read (map f xs) = Ok (map g xs)"
  by (induction xs) simp_all

lemma map_same: "(\<And>x. x \<in> set xs \<Longrightarrow> f x = x) \<Longrightarrow> map f xs = xs"
  by (simp add: map_idI)

lemma terminal_spelling: "task_state_as_str s \<in> set terminal_states_sql \<longleftrightarrow> task_state_is_terminal s"
  using task_states.spelled_apart task_states.all_listed
  by (auto simp: terminal_states_sql_def)

lemma open_spelling: "step_state_as_str s \<in> set open_step_states_sql \<longleftrightarrow> \<not> survives_replan s"
  using step_states.spelled_apart step_states.all_listed
  by (auto simp: open_step_states_sql_def)

lemma spelled_iff:
  "task_state_as_str a = task_state_as_str b \<longleftrightarrow> a = b"
  "step_state_as_str x = step_state_as_str y \<longleftrightarrow> x = y"
  "answer_shape_as_str p = answer_shape_as_str q \<longleftrightarrow> p = q"
  using task_states.spelled_apart step_states.spelled_apart answer_shapes.spelled_apart by blast+

section \<open>The simulation relation\<close>

definition represents :: "sql_codec \<Rightarrow> pond_db \<Rightarrow> ledger \<Rightarrow> bool" where
  "represents c db l \<longleftrightarrow>
     db_tasks db = map (task_row_of c) (led_tasks l) \<and>
     db_steps db = map (step_row_of c) (led_steps l) \<and>
     db_artifacts db = map (artifact_row_of c) (led_artifacts l) \<and>
     ledger_inv l \<and>
     (\<forall>t \<in> set (led_tasks l). storable_task t \<and> stored_task t = t) \<and>
     (\<forall>s \<in> set (led_steps l). storable_step s \<and> stored_step s = s) \<and>
     (\<forall>a \<in> set (led_artifacts l). storable_artifact a \<and> stored_artifact a = a)"

lemma whole_second_text:
  assumes "codec_ok c" "storable_time t"
  shows "sql_ts c (whole_second t) = sql_ts c t"
proof -
  have "sql_ts c s \<le> sql_ts c u"
    if "whole_second s = whole_second u" "storable_time s" "storable_time u" for s u
    using codec_order [OF assms(1) that(2,3)] that(1) by simp
  then show ?thesis
    using assms(2) storable_whole by (intro order_antisym) simp_all
qed

lemma whole_opt_text:
  "codec_ok c \<Longrightarrow> storable_opt t \<Longrightarrow>
     map_option (sql_ts c) (map_option whole_second t) = map_option (sql_ts c) t"
  by (cases t) (simp_all add: storable_opt_def whole_second_text)

lemma stored_rows:
  assumes "codec_ok c"
  shows "storable_task t \<Longrightarrow> task_row_of c (stored_task t) = task_row_of c t"
    "storable_step s \<Longrightarrow> step_row_of c (stored_step s) = step_row_of c s"
    "storable_artifact a \<Longrightarrow> artifact_row_of c (stored_artifact a) = artifact_row_of c a"
  using whole_second_text [OF assms] whole_opt_text [OF assms]
  by (simp_all add: task_row_of_def stored_task_def stored_budget_def storable_task_def
      step_row_of_def stored_step_def storable_step_def artifact_row_of_def stored_artifact_def
      storable_artifact_def del: option.map_comp)

lemma row_fields [simp]:
  "tr_id (task_row_of c t) = task_id t" "tr_owner (task_row_of c t) = task_owner t"
  "tr_origin (task_row_of c t) = task_origin t"
  "tr_state (task_row_of c t) = task_state_as_str (task_state t)"
  "tr_answer (task_row_of c t) = answer_shape_as_str (task_answer t)"
  "tr_created_at (task_row_of c t) = sql_ts c (task_created_at t)"
  "sr_task_id (step_row_of c s) = ps_task_id s" "sr_key (step_row_of c s) = ps_key s"
  "sr_state (step_row_of c s) = step_state_as_str (ps_state s)"
  "sr_ordinal (step_row_of c s) = uint (ps_ordinal s)"
  "ar_id (artifact_row_of c a) = art_id a" "ar_task_id (artifact_row_of c a) = art_task_id a"
  "ar_created_at (artifact_row_of c a) = sql_ts c (art_created_at a)"
  by (simp_all add: task_row_of_def step_row_of_def artifact_row_of_def)

lemma represents_tasks:
  assumes "represents c db l"
  shows "db_tasks db = map (task_row_of c) (led_tasks l)" "ledger_inv l"
    "\<And>t. t \<in> set (led_tasks l) \<Longrightarrow> storable_task t" "\<And>t. t \<in> set (led_tasks l) \<Longrightarrow> stored_task t = t"
  using assms by (simp_all add: represents_def)

lemma represents_steps:
  assumes "represents c db l"
  shows "db_steps db = map (step_row_of c) (led_steps l)"
    "\<And>s. s \<in> set (led_steps l) \<Longrightarrow> storable_step s" "\<And>s. s \<in> set (led_steps l) \<Longrightarrow> stored_step s = s"
  using assms by (simp_all add: represents_def)

lemma represents_artifacts:
  assumes "represents c db l"
  shows "db_artifacts db = map (artifact_row_of c) (led_artifacts l)"
    "\<And>a. a \<in> set (led_artifacts l) \<Longrightarrow> storable_artifact a"
    "\<And>a. a \<in> set (led_artifacts l) \<Longrightarrow> stored_artifact a = a"
  using assms by (simp_all add: represents_def)

section \<open>What is read\<close>

lemma sim_get_task:
  assumes "codec_ok c" "represents c db l"
  shows "sql_get_task c db i = Ok (get_task l i)"
proof (cases "get_task l i")
  case None
  then show ?thesis
    by (simp add: sql_get_task_def represents_tasks(1) [OF assms(2)] find_map_rows get_task_def)
next
  case (Some t)
  then have "t \<in> set (led_tasks l)" by (rule get_task_SomeD [THEN conjunct1])
  then have "row_to_task c (task_row_of c t) = Ok t"
    using task_row_reads [OF assms(1)] represents_tasks(3,4) [OF assms(2)] by metis
  with Some show ?thesis
    by (simp add: sql_get_task_def represents_tasks(1) [OF assms(2)] find_map_rows get_task_def)
qed

lemma stored_created:
  assumes "stored_task t = t" shows "whole_second (task_created_at t) = task_created_at t"
  using arg_cong [OF assms, of task_created_at] by (simp add: stored_task_def)

lemma sim_list_tasks:
  assumes "codec_ok c" "represents c db l"
  shows "sql_list_tasks c db owner inc = list_tasks l owner inc"
proof -
  let ?keep = "\<lambda>t. owned_by t owner \<and> (inc \<or> \<not> task_state_is_terminal (task_state t))"
  let ?ts = "filter ?keep (led_tasks l)"
  have keep: "owner_predicate owner (task_row_of c t) \<longleftrightarrow> owned_by t owner" for t
    by (cases owner) (simp_all add: owned_by_def)
  have sorted: "sort_key (\<lambda>t. sql_ts c (task_created_at t)) ?ts = sort_key task_created_at ?ts"
  proof (rule sort_key_same_order)
    fix x y assume "x \<in> set ?ts" "y \<in> set ?ts"
    then have "storable_time (task_created_at x)" "storable_time (task_created_at y)"
      "whole_second (task_created_at x) = task_created_at x"
      "whole_second (task_created_at y) = task_created_at y"
      using represents_tasks(3,4) [OF assms(2)] stored_created by (auto simp: storable_task_def)
    then show "sql_ts c (task_created_at x) \<le> sql_ts c (task_created_at y) \<longleftrightarrow>
        task_created_at x \<le> task_created_at y"
      using codec_order [OF assms(1)] by simp
  qed
  have "sql_list_tasks c db owner inc =
      readable (row_to_task c) (map (task_row_of c) (rev (sort_key task_created_at ?ts)))"
    by (simp add: sql_list_tasks_def represents_tasks(1) [OF assms(2)] filter_map_rows keep
        terminal_spelling sort_key_map_rows rev_map sorted)
  also have "\<dots> = map stored_task (rev (sort_key task_created_at ?ts))"
    using represents_tasks(3) [OF assms(2)] by (intro readable_all task_row_reads [OF assms(1)]) auto
  also have "\<dots> = rev (sort_key task_created_at ?ts)"
    using represents_tasks(4) [OF assms(2)] by (intro map_same) auto
  also have "\<dots> = list_tasks l owner inc"
    by (simp add: list_tasks_def rev_sort_key rev_filter [symmetric] conj_commute)
  finally show ?thesis .
qed

lemma sim_list_steps:
  assumes "codec_ok c" "represents c db l"
  shows "sql_list_steps c db tid = Ok (list_steps l tid)"
proof -
  have "sort_key (\<lambda>s. uint (ps_ordinal s)) (steps_held l tid) = list_steps l tid"
    unfolding list_steps_def by (rule sort_key_same_order) (simp add: word_le_def)
  then have "sql_list_steps c db tid = try_map (row_to_step c) (map (step_row_of c) (list_steps l tid))"
    by (simp add: sql_list_steps_def represents_steps(1) [OF assms(2)] filter_map_rows
        sort_key_map_rows steps_held_def)
  also have "\<dots> = Ok (map stored_step (list_steps l tid))"
    using represents_steps(2) [OF assms(2)]
    by (intro try_map_rows step_row_reads [OF assms(1)]) (auto simp: list_steps_def steps_held_def)
  also have "map stored_step (list_steps l tid) = list_steps l tid"
    using represents_steps(3) [OF assms(2)]
    by (intro map_same) (auto simp: list_steps_def steps_held_def)
  finally show ?thesis .
qed

lemma sim_get_artifact:
  assumes "codec_ok c" "represents c db l"
  shows "sql_get_artifact c db tid aid = Ok (get_artifact l tid aid)"
proof (cases "get_artifact l tid aid")
  case None
  then show ?thesis
    by (simp add: sql_get_artifact_def represents_artifacts(1) [OF assms(2)] find_map_rows
        get_artifact_def)
next
  case (Some a)
  then have "a \<in> set (led_artifacts l)" unfolding get_artifact_def by (auto dest: find_SomeD)
  then have "row_to_artifact c (artifact_row_of c a) = Ok a"
    using artifact_row_reads(1) [OF assms(1)] represents_artifacts(2,3) [OF assms(2)] by metis
  with Some show ?thesis
    by (simp add: sql_get_artifact_def represents_artifacts(1) [OF assms(2)] find_map_rows
        get_artifact_def)
qed

lemma sim_list_artifacts:
  assumes "codec_ok c" "represents c db l"
  shows "sql_list_artifacts c db tid = list_artifacts l tid"
proof -
  let ?as = "filter (\<lambda>a. art_task_id a = tid) (led_artifacts l)"
  have whole: "whole_second (art_created_at a) = art_created_at a" if "stored_artifact a = a" for a
    using arg_cong [OF that, of art_created_at] by (simp add: stored_artifact_def)
  have sorted: "sort_key (\<lambda>a. sql_ts c (art_created_at a)) ?as = sort_key art_created_at ?as"
  proof (rule sort_key_same_order)
    fix x y assume "x \<in> set ?as" "y \<in> set ?as"
    then have "storable_time (art_created_at x)" "storable_time (art_created_at y)"
      "whole_second (art_created_at x) = art_created_at x"
      "whole_second (art_created_at y) = art_created_at y"
      using represents_artifacts(2,3) [OF assms(2)] whole by (auto simp: storable_artifact_def)
    then show "sql_ts c (art_created_at x) \<le> sql_ts c (art_created_at y) \<longleftrightarrow>
        art_created_at x \<le> art_created_at y"
      using codec_order [OF assms(1)] by simp
  qed
  have "sql_list_artifacts c db tid =
      readable (row_to_artifact_summary c) (map (artifact_row_of c) (sort_key art_created_at ?as))"
    by (simp add: sql_list_artifacts_def represents_artifacts(1) [OF assms(2)] filter_map_rows
        sort_key_map_rows sorted)
  also have "\<dots> = map (\<lambda>a. summary_view (stored_artifact a)) (sort_key art_created_at ?as)"
    using represents_artifacts(2) [OF assms(2)]
    by (intro readable_all artifact_row_reads(2) [OF assms(1)]) auto
  also have "\<dots> = list_artifacts l tid"
    using represents_artifacts(3) [OF assms(2)] by (simp add: list_artifacts_def)
  finally show ?thesis .
qed

section \<open>What is written\<close>

lemma sim_create_task:
  assumes "codec_ok c" "represents c db l" "storable_task t"
    "references (db_profiles db) (task_owner t)" "references (db_sessions db) (task_origin t)"
  shows "case sql_create_task c db t of
      Ok db' \<Rightarrow> \<exists>l'. create_task l (stored_task t) = Ok l' \<and> represents c db' l'
    | Err _ \<Rightarrow> \<not> is_ok (create_task l (stored_task t))"
proof (cases "task_id t \<in> task_id ` set (led_tasks l)")
  case True
  then have "sql_create_task c db t = Err ConstraintFailed"
    by (simp add: sql_create_task_def insert_task_row_def represents_tasks(1) [OF assms(2)]
        image_image)
  moreover have "create_task l (stored_task t) = Err (TaskExists (task_id t))"
    using True by (simp add: create_task_def list_ex_image)
  ultimately show ?thesis by simp
next
  case False
  let ?l = "l\<lparr>led_tasks := led_tasks l @ [stored_task t]\<rparr>"
  let ?db = "db\<lparr>db_tasks := db_tasks db @ [task_row_of c t]\<rparr>"
  have "task_checks (task_row_of c t)"
    using assms(3) by (simp add: storable_task_def task_row_checks)
  then have "sql_create_task c db t = Ok ?db"
    using False assms(4,5)
    by (simp add: sql_create_task_def insert_task_row_def represents_tasks(1) [OF assms(2)]
        image_image)
  moreover have created: "create_task l (stored_task t) = Ok ?l"
    using False by (simp add: create_task_Ok)
  moreover have "represents c ?db ?l"
    using assms(2,3) ledger_step_inv [OF ledger_step.create [OF created]] stored_rows(1) [OF assms(1,3)]
      storable_stored(1) by (simp add: represents_def)
  ultimately show ?thesis by simp
qed

lemma sim_insert_artifact:
  assumes "codec_ok c" "represents c db l" "storable_artifact a"
  shows "case sql_insert_artifact c db a of
      Ok db' \<Rightarrow> \<exists>l'. insert_artifact l (stored_artifact a) = Ok l' \<and> represents c db' l'
    | Err _ \<Rightarrow> \<not> is_ok (insert_artifact l (stored_artifact a))"
proof -
  have checks: "artifact_checks (artifact_row_of c a)"
    using assms(3) by (simp add: storable_artifact_def artifact_row_checks)
  let ?fits = "art_task_id a \<in> task_id ` set (led_tasks l) \<and> art_id a \<notin> art_id ` set (led_artifacts l)"
  have sql: "sql_insert_artifact c db a =
      (if ?fits then Ok (db\<lparr>db_artifacts := db_artifacts db @ [artifact_row_of c a]\<rparr>)
       else Err ConstraintFailed)"
    using checks
    by (simp add: sql_insert_artifact_def insert_artifact_row_def image_image conj_commute
        represents_tasks(1) [OF assms(2)] represents_artifacts(1) [OF assms(2)])
  show ?thesis
  proof (cases ?fits)
    case True
    then have made: "insert_artifact l (stored_artifact a) =
        Ok (l\<lparr>led_artifacts := led_artifacts l @ [stored_artifact a]\<rparr>)"
      by (simp add: insert_artifact_Ok)
    have "represents c (db\<lparr>db_artifacts := db_artifacts db @ [artifact_row_of c a]\<rparr>)
        (l\<lparr>led_artifacts := led_artifacts l @ [stored_artifact a]\<rparr>)"
      using assms(2,3) ledger_step_inv [OF ledger_step.insert [OF made]]
        stored_rows(3) [OF assms(1,3)] storable_stored(3) by (simp add: represents_def)
    with True sql made show ?thesis by simp
  next
    case False
    then have "\<not> is_ok (insert_artifact l (stored_artifact a))"
      by (auto simp: insert_artifact_def list_ex_image)
    with False show ?thesis by (auto simp: sql)
  qed
qed

lemma sim_delete_artifact:
  assumes "represents c db l"
  shows "\<exists>db' l'. sql_delete_artifact db tid aid = (fst (delete_artifact l tid aid), db') \<and>
    snd (delete_artifact l tid aid) = l' \<and> represents c db' l'"
proof -
  let ?p = "\<lambda>a. art_task_id a = tid \<and> art_id a = aid"
  have swap: "(art_id a = aid \<and> art_task_id a = tid) = ?p a"
    "(art_id a = aid \<longrightarrow> art_task_id a \<noteq> tid) = (art_task_id a = tid \<longrightarrow> art_id a \<noteq> aid)" for a
    by auto
  have len: "length (filter (\<lambda>a. \<not> ?p a) xs) < length xs \<longleftrightarrow> filter ?p xs \<noteq> []" for xs
    using sum_length_filter_compl [of ?p xs] unfolding length_greater_0_conv [symmetric] by linarith
  have rep: "represents c (db\<lparr>db_artifacts := filter (\<lambda>r. \<not> (ar_id r = aid \<and> ar_task_id r = tid))
      (db_artifacts db)\<rparr>) (snd (delete_artifact l tid aid))"
    using assms ledger_step_inv [OF ledger_step.delete_art [of l tid aid]]
    by (auto simp: represents_def delete_artifact_def Let_def filter_map_rows swap)
  have "fst (delete_artifact l tid aid) = (filter ?p (led_artifacts l) \<noteq> [])"
    using len by (simp add: delete_artifact_def Let_def)
  then show ?thesis
    using rep by (simp add: sql_delete_artifact_def represents_artifacts(1) [OF assms]
        filter_map_rows swap)
qed

lemma sim_delete_task:
  assumes "represents c db l"
  shows "\<exists>db' l'. sql_delete_task db i = (fst (delete_task l i), db') \<and>
    snd (delete_task l i) = l' \<and> represents c db' l'"
proof -
  let ?gone = "map task_id (filter (\<lambda>t. task_id t = i) (led_tasks l))"
  have gone: "x \<in> set ?gone \<longleftrightarrow> x = i \<and> i \<in> task_id ` set (led_tasks l)" for x by auto
  have orphan: "filter (\<lambda>s. ps_task_id s \<noteq> i) (led_steps l) = led_steps l"
    "filter (\<lambda>a. art_task_id a \<noteq> i) (led_artifacts l) = led_artifacts l"
    "filter (\<lambda>t. task_id t \<noteq> i) (led_tasks l) = led_tasks l"
    if "i \<notin> task_id ` set (led_tasks l)"
    using represents_tasks(2) [OF assms] that unfolding ledger_inv_def
    by (auto simp: filter_id_conv)
  define l' where "l' = \<lparr>led_tasks = filter (\<lambda>t. task_id t \<noteq> i) (led_tasks l),
      led_steps = filter (\<lambda>s. ps_task_id s \<noteq> i) (led_steps l),
      led_artifacts = filter (\<lambda>a. art_task_id a \<noteq> i) (led_artifacts l)\<rparr>"
  have deleted: "delete_task l i = (i \<in> task_id ` set (led_tasks l), l')"
    using orphan by (cases "i \<in> task_id ` set (led_tasks l)") (simp_all add: delete_task_eq l'_def)
  have inv: "ledger_inv l'"
    using ledger_step_inv [OF ledger_step.delete [OF deleted] represents_tasks(2) [OF assms]] .
  have kept: "filter (\<lambda>s. ps_task_id s \<notin> set ?gone) (led_steps l) = led_steps l'"
    "filter (\<lambda>a. art_task_id a \<notin> set ?gone) (led_artifacts l) = led_artifacts l'"
    using represents_tasks(2) [OF assms] unfolding l'_def gone ledger_inv_def
    by (auto intro!: filter_cong)
  have "represents c (snd (delete_task_rows db (\<lambda>r. tr_id r = i))) l'"
    using assms inv kept
    by (auto simp: represents_def delete_task_rows_def Let_def filter_map_rows comp_def l'_def)
  moreover have "fst (delete_task_rows db (\<lambda>r. tr_id r = i)) > 0 \<longleftrightarrow> i \<in> task_id ` set (led_tasks l)"
    by (auto simp: delete_task_rows_def represents_tasks(1) [OF assms] filter_map_rows
        filter_empty_conv)
  ultimately show ?thesis
    by (simp add: sql_delete_task_def deleted case_prod_beta)
qed

lemma map_update_key:
  assumes "distinct (map key xs)"
  shows "map (\<lambda>x. if key x = k \<and> q x then f x else x) xs =
      (case find (\<lambda>x. key x = k) xs of
         None \<Rightarrow> xs | Some x \<Rightarrow> if q x then update_first (\<lambda>x. key x = k) (f x) xs else xs)"
    and "length (filter (\<lambda>x. key x = k \<and> q x) xs) =
      (case find (\<lambda>x. key x = k) xs of None \<Rightarrow> 0 | Some x \<Rightarrow> if q x then 1 else 0)"
proof -
  have other: "map (\<lambda>x. if key x = k \<and> q x then f x else x) ys = ys"
    "filter (\<lambda>x. key x = k \<and> q x) ys = []" if "k \<notin> key ` set ys" for ys
    using that by (auto intro!: map_idI simp: filter_empty_conv)
  show "map (\<lambda>x. if key x = k \<and> q x then f x else x) xs =
      (case find (\<lambda>x. key x = k) xs of
         None \<Rightarrow> xs | Some x \<Rightarrow> if q x then update_first (\<lambda>x. key x = k) (f x) xs else xs)"
    using assms other(1) by (induction xs) (auto split: option.splits)
  show "length (filter (\<lambda>x. key x = k \<and> q x) xs) =
      (case find (\<lambda>x. key x = k) xs of None \<Rightarrow> 0 | Some x \<Rightarrow> if q x then 1 else 0)"
    using assms other(2) by (induction xs) (auto split: option.splits)
qed

lemma map_rows_update:
  assumes "\<And>x. chosen (row x) \<longleftrightarrow> p x" "\<And>x. x \<in> set xs \<Longrightarrow> p x \<Longrightarrow> change (row x) = row y"
  shows "map (\<lambda>r. if chosen r then change r else r) (map row xs) =
    map row (map (\<lambda>x. if p x then y else x) xs)"
  using assms by auto

lemma rows_checked:
  assumes "\<And>x. chosen (row x) \<longleftrightarrow> p x" "\<And>x. x \<in> set xs \<Longrightarrow> p x \<Longrightarrow> change (row x) = row y"
    "check (row y)"
  shows "list_all (\<lambda>r. check (change r)) (filter chosen (map row xs))"
  using assms by (auto simp: list_all_iff)

lemma put_task_same:
  assumes "get_task l i = Some t" shows "put_task l t = l"
proof -
  have "update_first p x xs = xs" if "find p xs = Some x" for p and x :: long_task and xs
    using that by (induction xs) (auto split: if_splits)
  then show ?thesis using assms get_task_SomeD [OF assms] by (simp add: put_task_def get_task_def)
qed

lemma ledger_inv_put:
  assumes "ledger_inv l" shows "ledger_inv (put_task l t)"
  using assms by (rule ledger_inv_ids [rotated 3]) (simp_all add: put_task_ids)

text \<open>An \<open>UPDATE\<close> of a task that a compare-and-set picks, and one that picks nothing.\<close>

lemma update_task_rows_hit:
  assumes "represents c db l" "get_task l i = Some t" "q t"
    "\<And>x. chosen (task_row_of c x) \<longleftrightarrow> task_id x = i \<and> q x"
    "change (task_row_of c t) = task_row_of c t'" "task_id t' = i" "storable_task t'"
    "stored_task t' = t'"
  shows "\<exists>db'. update_task_rows db chosen change = Ok (1, db') \<and> represents c db' (put_task l t')"
proof -
  have ids: "distinct (map task_id (led_tasks l))"
    using represents_tasks(2) [OF assms(1)] by (simp add: ledger_inv_def)
  have found: "find (\<lambda>x. task_id x = i) (led_tasks l) = Some t" using assms(2) by (simp add: get_task_def)
  have mem: "t \<in> set (led_tasks l)" "task_id t = i" using get_task_SomeD [OF assms(2)] by blast+
  have sole: "x = t" if "x \<in> set (led_tasks l)" "task_id x = i" for x
    using ids mem that by (auto simp: distinct_map inj_on_def)
  let ?put = "map (\<lambda>x. if task_id x = i \<and> q x then t' else x) (led_tasks l)"
  have put: "?put = led_tasks (put_task l t')"
    using map_update_key(1) [OF ids, of i q "\<lambda>_. t'"] found assms(3,6) by (simp add: put_task_def)
  have hit: "change (task_row_of c x) = task_row_of c t'"
    if "x \<in> set (led_tasks l)" "task_id x = i \<and> q x" for x
    using sole [OF that(1)] that(2) assms(5) by blast
  have "map (\<lambda>r. if chosen r then change r else r) (db_tasks db) = map (task_row_of c) ?put"
    unfolding represents_tasks(1) [OF assms(1)] by (rule map_rows_update [where chosen = chosen and change = change and row = "task_row_of c" and p = "\<lambda>x. task_id x = i \<and> q x"
        and y = t' and xs = "led_tasks l",
        OF assms(4) hit])
  moreover have "length (filter chosen (db_tasks db)) = 1"
    using map_update_key(2) [OF ids, of i q] found assms(3)
    by (simp add: represents_tasks(1) [OF assms(1)] filter_map_rows assms(4))
  moreover have "list_all (\<lambda>r. task_checks (change r)) (filter chosen (db_tasks db))"
    unfolding represents_tasks(1) [OF assms(1)]
    by (rule rows_checked [where check = task_checks and chosen = chosen and change = change and row = "task_row_of c" and p = "\<lambda>x. task_id x = i \<and> q x"
        and y = t' and xs = "led_tasks l",
        OF assms(4) hit]) (use assms(7) in \<open>simp_all add: storable_task_def task_row_checks\<close>)
  ultimately have "update_task_rows db chosen change =
      Ok (1, db\<lparr>db_tasks := map (task_row_of c) (led_tasks (put_task l t'))\<rparr>)"
    by (simp add: update_task_rows_def put)
  moreover have "represents c (db\<lparr>db_tasks := map (task_row_of c) (led_tasks (put_task l t'))\<rparr>)
      (put_task l t')"
    using assms(1,7,8) ledger_inv_put [OF represents_tasks(2) [OF assms(1)]]
      set_update_first_subset [of _ t' "led_tasks l"]
    by (fastforce simp: represents_def put_task_def)
  ultimately show ?thesis by blast
qed

lemma update_task_rows_miss:
  assumes "represents c db l" "\<And>t. get_task l i = Some t \<Longrightarrow> \<not> q t"
    "\<And>x. chosen (task_row_of c x) \<longleftrightarrow> task_id x = i \<and> q x"
  shows "update_task_rows db chosen change = Ok (0, db)"
proof -
  have ids: "distinct (map task_id (led_tasks l))"
    using represents_tasks(2) [OF assms(1)] by (simp add: ledger_inv_def)
  have "\<not> (task_id x = i \<and> q x)" if "x \<in> set (led_tasks l)" for x
    using assms(2) find_distinct [OF ids that] by (auto simp: get_task_def)
  then have none: "\<forall>r \<in> set (db_tasks db). \<not> chosen r"
    by (auto simp: represents_tasks(1) [OF assms(1)] assms(3))
  then have "map (\<lambda>r. if chosen r then change r else r) (db_tasks db) = db_tasks db"
    by (intro map_idI) simp
  moreover have "filter chosen (db_tasks db) = []" using none by (simp add: filter_empty_conv)
  ultimately show ?thesis by (simp add: update_task_rows_def)
qed

lemma transition_stored:
  assumes "stored_task t = t" "transition_to t n at = Ok t'"
  shows "transition_to t n (whole_second at) = Ok (stored_task t')"
proof -
  have moved: "t' = t\<lparr>task_state := n, task_updated_at := at, task_finished_at :=
      (if task_state_is_terminal n then Some at else task_finished_at t)\<rparr>"
    "task_can_become (task_state t) n"
    using assms(2) by (auto simp: transition_to_def split: if_splits)
  have "stored_budget (task_budget t) = task_budget t"
    "whole_second (task_created_at t) = task_created_at t"
    "map_option whole_second (task_finished_at t) = task_finished_at t"
    using arg_cong [OF assms(1), of task_budget] arg_cong [OF assms(1), of task_created_at]
      arg_cong [OF assms(1), of task_finished_at] by (simp_all add: stored_task_def)
  then show ?thesis
    using moved by (simp add: transition_to_def stored_task_def)
qed

lemma transition_storable:
  assumes "storable_task t" "storable_time at" "transition_to t n at = Ok t'"
  shows "storable_task t'"
  using assms by (auto simp: transition_to_def storable_task_def task_wf_def storable_opt_def
      split: if_splits)

lemma transition_row:
  assumes "transition_to t n at = Ok t'"
  shows "(task_row_of c t)\<lparr>tr_state := task_state_as_str (task_state t'),
      tr_updated_at := sql_ts c (task_updated_at t'),
      tr_finished_at := map_option (sql_ts c) (task_finished_at t')\<rparr> = task_row_of c t'"
  using assms by (auto simp: transition_to_def task_row_of_def split: if_splits)

lemma sim_set_task_state:
  assumes "codec_ok c" "represents c db l" "storable_time at"
  shows "case sql_set_task_state c db i n at of
      Ok (r, db') \<Rightarrow> \<exists>l'. set_task_state l i n (whole_second at) = Ok (map_option stored_task r, l') \<and>
        represents c db' l'
    | Err _ \<Rightarrow> \<not> is_ok (set_task_state l i n (whole_second at))"
proof (cases "get_task l i")
  case None
  then show ?thesis
    using assms(2)
    by (simp add: sql_set_task_state_def set_state_read_def sim_get_task [OF assms(1,2)]
        set_task_state_def)
next
  case (Some t)
  then have mem: "t \<in> set (led_tasks l)" "task_id t = i" using get_task_SomeD by blast+
  have fixed: "storable_task t" "stored_task t = t" using represents_tasks(3,4) [OF assms(2)] mem by blast+
  show ?thesis
  proof (cases "transition_to t n at")
    case (Err e)
    then have "\<not> is_ok (transition_to t n (whole_second at))" by (auto simp: transition_to_def split: if_splits)
    then have "\<not> is_ok (set_task_state l i n (whole_second at))"
      using Some by (cases "transition_to t n (whole_second at)") (simp_all add: set_task_state_def)
    with Some Err show ?thesis
      by (simp add: sql_set_task_state_def set_state_read_def sim_get_task [OF assms(1,2)])
  next
    case (Ok t')
    have moved: "transition_to t n (whole_second at) = Ok (stored_task t')" "storable_task t'"
      using transition_stored [OF fixed(2) Ok] transition_storable [OF fixed(1) assms(3) Ok] by blast+
    have row: "(task_row_of c t)\<lparr>tr_state := task_state_as_str (task_state t'),
        tr_updated_at := sql_ts c (task_updated_at t'),
        tr_finished_at := map_option (sql_ts c) (task_finished_at t')\<rparr> = task_row_of c (stored_task t')"
      using transition_row [OF Ok] stored_rows(1) [OF assms(1) moved(2)] by simp
    have id': "task_id (stored_task t') = i" using transition_to_frame [OF Ok] mem(2) by simp
    have "\<exists>db'. update_task_rows db
        (\<lambda>r. tr_id r = i \<and> tr_state r = task_state_as_str (task_state t))
        (\<lambda>r. r\<lparr>tr_state := task_state_as_str (task_state t'),
           tr_updated_at := sql_ts c (task_updated_at t'),
           tr_finished_at := map_option (sql_ts c) (task_finished_at t')\<rparr>) = Ok (1, db') \<and>
        represents c db' (put_task l (stored_task t'))"
      by (rule update_task_rows_hit [OF assms(2) Some, where q = "\<lambda>x. task_state x = task_state t"])
         (use row id' storable_stored(1) [OF moved(2)] in \<open>simp_all add: spelled_iff\<close>)
    then obtain db' where "update_task_rows db
        (\<lambda>r. tr_id r = i \<and> tr_state r = task_state_as_str (task_state t))
        (\<lambda>r. r\<lparr>tr_state := task_state_as_str (task_state t'),
           tr_updated_at := sql_ts c (task_updated_at t'),
           tr_finished_at := map_option (sql_ts c) (task_finished_at t')\<rparr>) = Ok (1, db')"
      "represents c db' (put_task l (stored_task t'))" by blast
    then show ?thesis
      using Some Ok moved(1)
      by (simp add: sql_set_task_state_def set_state_read_def sim_get_task [OF assms(1,2)]
          set_state_write_def set_task_state_def)
  qed
qed

lemma stored_answer: "stored_task (t\<lparr>task_answer := a\<rparr>) = (stored_task t)\<lparr>task_answer := a\<rparr>"
  by (simp add: stored_task_def)

lemma sim_decide_task_answer:
  assumes "represents c db l"
  shows "\<exists>db'. sql_decide_task_answer db i a = Ok (fst (decide_task_answer l i a), db') \<and>
    represents c db' (snd (decide_task_answer l i a))"
proof (cases "\<exists>t. get_task l i = Some t \<and> task_answer t = AnswerAuto \<and> a \<noteq> AnswerAuto")
  case True
  then obtain t where t: "get_task l i = Some t" "task_answer t = AnswerAuto" "a \<noteq> AnswerAuto" by blast
  then have mem: "t \<in> set (led_tasks l)" "task_id t = i" using get_task_SomeD by blast+
  let ?t = "t\<lparr>task_answer := a\<rparr>"
  have fixed: "storable_task t" "stored_task t = t" using represents_tasks(3,4) [OF assms] mem by blast+
  have new: "storable_task ?t" "stored_task ?t = ?t"
    using fixed by (simp_all add: storable_task_def task_wf_def stored_answer)
  have "(task_row_of c t)\<lparr>tr_answer := answer_shape_as_str a\<rparr> = task_row_of c ?t"
    by (simp add: task_row_of_def)
  then have "\<exists>db'. update_task_rows db (\<lambda>r. tr_id r = i \<and> tr_answer r = lit ''auto'')
      (\<lambda>r. r\<lparr>tr_answer := answer_shape_as_str a\<rparr>) = Ok (1, db') \<and> represents c db' (put_task l ?t)"
    by (intro update_task_rows_hit [OF assms t(1), where q = "\<lambda>x. task_answer x = AnswerAuto"])
       (use mem(2) new t(2) spelled_iff(3) [of _ AnswerAuto] in auto)
  then show ?thesis
    using t by (auto simp: sql_decide_task_answer_def decide_task_answer_def decide_answer_def)
next
  case False
  have same: "fst (decide_task_answer l i a) = False" "snd (decide_task_answer l i a) = l"
    using False by (auto simp: decide_task_answer_def decide_answer_def put_task_same
        split: option.splits)
  show ?thesis
  proof (cases "a = AnswerAuto")
    case True
    then show ?thesis using same assms by (simp add: sql_decide_task_answer_def)
  next
    case a: False
    have "update_task_rows db (\<lambda>r. tr_id r = i \<and> tr_answer r = lit ''auto'')
        (\<lambda>r. r\<lparr>tr_answer := answer_shape_as_str a\<rparr>) = Ok (0, db)"
      using False a spelled_iff(3) [of _ AnswerAuto]
      by (intro update_task_rows_miss [OF assms, where q = "\<lambda>x. task_answer x = AnswerAuto"]) auto
    then show ?thesis using same assms a by (simp add: sql_decide_task_answer_def)
  qed
qed

lemma insert_steps_rows:
  assumes "codec_ok c" "\<forall>s \<in> set ss. step_wf s \<and> ps_task_id s \<in> tr_id ` set (db_tasks db)"
    "distinct (step_ids ss)"
    "set (step_ids ss) \<inter> (\<lambda>s. (sr_task_id s, sr_key s)) ` set (db_steps db) = {}"
  shows "insert_steps c db ss = Ok (db\<lparr>db_steps := db_steps db @ map (step_row_of c) ss\<rparr>)"
  using assms(2-4)
proof (induction ss arbitrary: db)
  case Nil
  then show ?case by simp
next
  case (Cons s ss)
  let ?db = "db\<lparr>db_steps := db_steps db @ [step_row_of c s]\<rparr>"
  have "insert_step_row c db (step_row_of c s) = Ok ?db"
    using Cons.prems step_row_checks [OF assms(1)] by (simp add: insert_step_row_def step_ids_def)
  moreover have "insert_steps c ?db ss = Ok (?db\<lparr>db_steps := db_steps ?db @ map (step_row_of c) ss\<rparr>)"
    using Cons.prems by (intro Cons.IH) (auto simp: step_ids_def)
  ultimately show ?case by simp
qed

lemma stored_states_rows:
  "stored_states (map (step_row_of c) ss) = Ok (map (\<lambda>s. (ps_key s, ps_state s)) ss)"
  unfolding stored_states_def by (rule try_map_rows) (simp add: step_states.parse_as_str)

definition plan_storable :: "validated_plan \<Rightarrow> bool" where
  "plan_storable p \<longleftrightarrow>
     well_keyed p \<and> (\<forall>s \<in> set (vp_steps p). storable_step s \<and> ps_started_at s = None \<and>
       ps_finished_at s = None)"

lemma plan_storableD:
  "plan_storable p \<Longrightarrow> s \<in> set (vp_steps p) \<Longrightarrow> storable_step s \<and> stored_step s = s \<and> step_wf s"
  by (simp add: plan_storable_def stored_step_def storable_step_def storable_opt_def)

lemma kept_rows:
  "filter (\<lambda>r. \<not> (sr_task_id r = tid \<and> sr_state r \<in> set open_step_states_sql)) (map (step_row_of c) ss) =
   map (step_row_of c) (filter (\<lambda>s. ps_task_id s \<noteq> tid \<or> survives_replan (ps_state s)) ss)"
  by (simp add: filter_map_rows open_spelling)

lemma replan_rows_apart:
  assumes "ledger_inv l" "well_keyed p"
    "check_current p (map (\<lambda>s. (ps_key s, ps_state s)) (steps_held l (vp_task_id p))) = Ok ()"
  shows "set (step_ids (vp_steps p)) \<inter> (\<lambda>s. (sr_task_id s, sr_key s)) ` set (map (step_row_of c)
    (filter (\<lambda>s. ps_task_id s \<noteq> vp_task_id p \<or> survives_replan (ps_state s)) (led_steps l))) = {}"
proof -
  let ?kept = "filter (\<lambda>s. ps_task_id s \<noteq> vp_task_id p \<or> survives_replan (ps_state s)) (led_steps l)"
  have "distinct (step_ids (led_steps l))" using assms(1) by (simp add: ledger_inv_def)
  then have "distinct (step_ids ?kept @ step_ids (vp_steps p))"
    using replan_distinct [OF _ assms(2,3)] by (simp add: step_ids_def)
  then have "set (step_ids (vp_steps p)) \<inter> set (step_ids ?kept) = {}"
    unfolding distinct_append by blast
  moreover have "(\<lambda>s. (sr_task_id s, sr_key s)) ` set (map (step_row_of c) ?kept) = set (step_ids ?kept)"
    by (simp add: step_ids_def image_image)
  ultimately show ?thesis by (simp only:)
qed

lemma sim_replace_open_steps:
  assumes "codec_ok c" "represents c db l" "plan_storable p"
  shows "case sql_replace_open_steps c db p of
      Ok db' \<Rightarrow> \<exists>l'. replace_open_steps l p = Ok l' \<and> represents c db' l'
    | Err _ \<Rightarrow> \<not> is_ok (replace_open_steps l p)"
proof -
  let ?tid = "vp_task_id p"
  let ?held = "map (\<lambda>s. (ps_key s, ps_state s)) (steps_held l ?tid)"
  have keyed: "well_keyed p" using assms(3) by (simp add: plan_storable_def)
  have states: "stored_states (filter (\<lambda>r. sr_task_id r = ?tid) (db_steps db)) = Ok ?held"
    by (simp add: represents_steps(1) [OF assms(2)] filter_map_rows stored_states_rows steps_held_def)
  have found: "find (\<lambda>r. tr_id r = ?tid) (db_tasks db) = map_option (task_row_of c) (get_task l ?tid)"
    by (simp add: represents_tasks(1) [OF assms(2)] find_map_rows get_task_def)
  show ?thesis
  proof (cases "\<exists>t. get_task l ?tid = Some t \<and> \<not> task_state_is_terminal (task_state t) \<and>
      check_current p ?held = Ok ()")
    case False
    then have "\<not> is_ok (sql_replace_open_steps c db p)"
      using states by (cases "get_task l ?tid"; cases "check_current p ?held")
        (auto simp: sql_replace_open_steps_def Let_def found task_states.parse_as_str)
    moreover have "\<not> is_ok (replace_open_steps l p)"
      using False replace_open_steps_Ok [of l p] by (cases "replace_open_steps l p") auto
    ultimately show ?thesis by (cases "sql_replace_open_steps c db p") simp_all
  next
    case True
    then obtain t where t: "get_task l ?tid = Some t" "\<not> task_state_is_terminal (task_state t)"
      "check_current p ?held = Ok ()" by blast
    let ?kept = "filter (\<lambda>s. ps_task_id s \<noteq> ?tid \<or> survives_replan (ps_state s)) (led_steps l)"
    let ?db = "db\<lparr>db_steps := map (step_row_of c) ?kept\<rparr>"
    have planned: "replace_open_steps l p = Ok (l\<lparr>led_steps := ?kept @ vp_steps p\<rparr>)"
      using t by (simp add: replace_open_steps_Ok)
    have "?tid \<in> tr_id ` set (db_tasks db)"
      using get_task_known [OF t(1)] by (simp add: represents_tasks(1) [OF assms(2)] image_image)
    then have "insert_steps c ?db (vp_steps p) =
        Ok (?db\<lparr>db_steps := db_steps ?db @ map (step_row_of c) (vp_steps p)\<rparr>)"
      using plan_storableD [OF assms(3)] keyed
        replan_rows_apart [OF represents_tasks(2) [OF assms(2)] keyed t(3), of c]
      by (intro insert_steps_rows [OF assms(1)])
        (auto simp: well_keyed_def step_ids_def distinct_map inj_on_def)
    then have "sql_replace_open_steps c db p =
        Ok (db\<lparr>db_steps := map (step_row_of c) (?kept @ vp_steps p)\<rparr>)"
      using t states
      by (simp add: sql_replace_open_steps_def Let_def found task_states.parse_as_str
          represents_steps(1) [OF assms(2)] kept_rows [simplified])
    moreover have "represents c (db\<lparr>db_steps := map (step_row_of c) (?kept @ vp_steps p)\<rparr>)
        (l\<lparr>led_steps := ?kept @ vp_steps p\<rparr>)"
      using assms(2) plan_storableD [OF assms(3)]
        ledger_step_inv [OF ledger_step.replan [OF keyed planned]]
      by (auto simp: represents_def)
    ultimately show ?thesis using planned by simp
  qed
qed

text \<open>
  \<open>update_step\<close> writes the columns a run changes; the ledger replaces the step. They agree on a step
  that was read from the store and moved, which has the plan's columns of the stored one.
\<close>

definition plan_columns :: "plan_step \<Rightarrow> plan_step" where
  "plan_columns s =
     s\<lparr>ps_state := Pending, ps_attempts := 0, ps_summary := None, ps_failure := None,
       ps_started_at := None, ps_finished_at := None\<rparr>"

definition step_current :: "ledger \<Rightarrow> plan_step \<Rightarrow> bool" where
  "step_current l s =
     (case find (same_step s) (led_steps l) of
        None \<Rightarrow> True | Some held \<Rightarrow> plan_columns held = plan_columns s)"

lemma run_columns:
  assumes "plan_columns held = plan_columns s"
  shows "(step_row_of c held)\<lparr>sr_state := step_state_as_str (ps_state s),
      sr_attempts := uint (ps_attempts s), sr_summary := ps_summary s, sr_failure := ps_failure s,
      sr_started_at := map_option (sql_ts c) (ps_started_at s),
      sr_finished_at := map_option (sql_ts c) (ps_finished_at s)\<rparr> = step_row_of c s"
  using assms by (cases held; cases s) (simp add: plan_columns_def step_row_of_def)

lemma same_step_key: "same_step s held \<longleftrightarrow> (ps_task_id held, ps_key held) = (ps_task_id s, ps_key s)"
  by (simp add: same_step_def)

lemma update_step_rows_hit:
  assumes "codec_ok c" "represents c db l" "find (same_step s) (led_steps l) = Some held"
    "plan_columns held = plan_columns s" "storable_step s"
  shows "\<exists>db'. update_step_write c db s (ps_state held) = Ok db' \<and>
    represents c db' (l\<lparr>led_steps := update_first (same_step s) (stored_step s) (led_steps l)\<rparr>)"
proof -
  let ?key = "\<lambda>x. (ps_task_id x, ps_key x)"
  let ?k = "(ps_task_id s, ps_key s)"
  let ?q = "\<lambda>x. ps_state x = ps_state held"
  let ?l = "l\<lparr>led_steps := update_first (same_step s) (stored_step s) (led_steps l)\<rparr>"
  have ids: "distinct (map ?key (led_steps l))"
    using represents_tasks(2) [OF assms(2)] by (simp add: ledger_inv_def step_ids_def)
  have found: "find (\<lambda>x. ?key x = ?k) (led_steps l) = Some held"
    using assms(3) unfolding same_step_key .
  have mem: "held \<in> set (led_steps l)" "?key held = ?k" using find_SomeD [OF found] by blast+
  have sole: "x = held" if "x \<in> set (led_steps l)" "?key x = ?k" for x
    using ids mem that by (auto simp: distinct_map inj_on_def)
  let ?chosen = "\<lambda>r. sr_task_id r = ps_task_id s \<and> sr_key r = ps_key s \<and>
      sr_state r = step_state_as_str (ps_state held)"
  let ?change = "\<lambda>r. r\<lparr>sr_state := step_state_as_str (ps_state s), sr_attempts := uint (ps_attempts s),
      sr_summary := ps_summary s, sr_failure := ps_failure s,
      sr_started_at := map_option (sql_ts c) (ps_started_at s),
      sr_finished_at := map_option (sql_ts c) (ps_finished_at s)\<rparr>"
  have row: "?change (step_row_of c held) = step_row_of c (stored_step s)"
    using run_columns [OF assms(4)] stored_rows(2) [OF assms(1,5)] by simp
  have chosen: "?chosen (step_row_of c x) \<longleftrightarrow> ?key x = ?k \<and> ?q x" for x by (auto simp: spelled_iff)
  have put: "map (\<lambda>x. if ?key x = ?k \<and> ?q x then stored_step s else x) (led_steps l) = led_steps ?l"
    using map_update_key(1) [OF ids, of ?k ?q "\<lambda>_. stored_step s"] found
    by (simp add: same_step_key [abs_def])
  have hit: "?change (step_row_of c x) = step_row_of c (stored_step s)"
    if "x \<in> set (led_steps l)" "?key x = ?k \<and> ?q x" for x
    using sole [OF that(1)] that(2) row by blast
  have rows: "map (\<lambda>r. if ?chosen r then ?change r else r) (db_steps db) =
      map (step_row_of c) (led_steps ?l)"
    unfolding represents_steps(1) [OF assms(2)] put [symmetric]
    by (rule map_rows_update [where chosen = ?chosen and change = ?change and row = "step_row_of c"
        and p = "\<lambda>x. ?key x = ?k \<and> ?q x" and y = "stored_step s" and xs = "led_steps l",
        OF chosen hit])
  have count: "length (filter ?chosen (db_steps db)) = 1"
    using map_update_key(2) [OF ids, of ?k ?q] found
    unfolding represents_steps(1) [OF assms(2)] filter_map_rows chosen by simp
  have checked: "step_checks c (step_row_of c (stored_step s))"
    using step_row_checks [OF assms(1)] storable_stored(2) [OF assms(5)]
    by (simp add: storable_step_def)
  have "list_all (\<lambda>r. step_checks c (?change r)) (filter ?chosen (db_steps db))"
    unfolding represents_steps(1) [OF assms(2)] by (rule rows_checked [where check = "step_checks c" and chosen = ?chosen and change = ?change and row = "step_row_of c"
        and p = "\<lambda>x. ?key x = ?k \<and> ?q x" and y = "stored_step s" and xs = "led_steps l",
        OF chosen hit]) (use checked in simp_all)
  then have "update_step_rows c db ?chosen ?change =
      Ok (1, db\<lparr>db_steps := map (step_row_of c) (led_steps ?l)\<rparr>)"
    unfolding update_step_rows_def rows count by simp
  then have "update_step_write c db s (ps_state held) =
      Ok (db\<lparr>db_steps := map (step_row_of c) (led_steps ?l)\<rparr>)"
    by (simp add: update_step_write_def)
  moreover have "ledger_inv ?l"
    using represents_tasks(2) [OF assms(2)] update_step_ids [of "stored_step s" "led_steps l"]
    by (simp add: ledger_inv_def step_ids_tasks same_step_key [abs_def])
  then have "represents c (db\<lparr>db_steps := map (step_row_of c) (led_steps ?l)\<rparr>) ?l"
    using assms(2) storable_stored(2) [OF assms(5)]
      set_update_first_subset [of "same_step s" "stored_step s" "led_steps l"]
    by (fastforce simp: represents_def)
  ultimately show ?thesis by blast
qed

lemma sim_update_step:
  assumes "codec_ok c" "represents c db l" "storable_step s" "step_current l s"
  shows "case sql_update_step c db s of
      Ok db' \<Rightarrow> \<exists>l'. update_step l (stored_step s) = Ok l' \<and> represents c db' l'
    | Err _ \<Rightarrow> \<not> is_ok (update_step l (stored_step s))"
proof -
  have same: "same_step (stored_step s) = same_step s" by (simp add: fun_eq_iff same_step_def)
  have found: "find (\<lambda>r. sr_task_id r = ps_task_id s \<and> sr_key r = ps_key s) (db_steps db) =
      map_option (step_row_of c) (find (same_step s) (led_steps l))"
    by (simp add: represents_steps(1) [OF assms(2)] find_map_rows same_step_def [abs_def])
  show ?thesis
  proof (cases "find (same_step s) (led_steps l)")
    case None
    then show ?thesis by (simp add: sql_update_step_def update_step_read_def found update_step_def same)
  next
    case (Some held)
    show ?thesis
    proof (cases "step_can_become (ps_state held) (ps_state s)")
      case False
      with Some show ?thesis
        by (simp add: sql_update_step_def update_step_read_def found update_step_def same
            step_states.parse_as_str)
    next
      case True
      have "plan_columns held = plan_columns s" using assms(4) Some by (simp add: step_current_def)
      from update_step_rows_hit [OF assms(1,2) Some this assms(3)] True Some show ?thesis
        by (auto simp: sql_update_step_def update_step_read_def found update_step_def same
            step_states.parse_as_str)
    qed
  qed
qed

end
