(* ===== verification/Sqlite_Refinement.thy ===== *)
theory Sqlite_Refinement
  imports Sqlite_Store
begin

text \<open>
  The SQLite store and the ledger answer alike. A \<open>store_call\<close> is one method of the port
  \<open>LongTaskRepository\<close>; \<open>sql_call\<close> runs it on the tables and \<open>ledger_call\<close> on the ledger. Over any
  sequence of calls the replies agree to the second, a call one of them refuses the other refuses,
  and a refused call leaves both as they were. Two further results hold of the tables alone: of two
  writers that read the same state one loses, and an unreadable row hides no other.
\<close>

datatype store_call =
    CreateTask long_task
  | GetTask ustr
  | ListTasks long_task_owner_filter bool
  | DecideAnswer ustr answer_shape
  | SetTaskState ustr long_task_state timestamp
  | DeleteTask ustr
  | ReplaceOpenSteps validated_plan
  | ListSteps ustr
  | UpdateStep plan_step
  | InsertArtifact artifact
  | GetArtifact ustr ustr
  | ListArtifacts ustr
  | DeleteArtifact ustr ustr

datatype store_reply =
    Done
  | Changed bool
  | TaskReply "long_task option"
  | TasksReply "long_task list"
  | StepsReply "plan_step list"
  | ArtifactReply "artifact option"
  | SummariesReply "artifact_summary list"

fun sql_call ::
  "sql_codec \<Rightarrow> pond_db \<Rightarrow> store_call \<Rightarrow> (store_reply \<times> pond_db, sql_error) result" where
  "sql_call c db (CreateTask t) = and_then (sql_create_task c db t) (\<lambda>db'. Ok (Done, db'))"
| "sql_call c db (GetTask i) = and_then (sql_get_task c db i) (\<lambda>t. Ok (TaskReply t, db))"
| "sql_call c db (ListTasks owner inc) = Ok (TasksReply (sql_list_tasks c db owner inc), db)"
| "sql_call c db (DecideAnswer i a) =
     and_then (sql_decide_task_answer db i a) (\<lambda>(b, db'). Ok (Changed b, db'))"
| "sql_call c db (SetTaskState i n at) =
     and_then (sql_set_task_state c db i n at) (\<lambda>(t, db'). Ok (TaskReply t, db'))"
| "sql_call c db (DeleteTask i) = (case sql_delete_task db i of (b, db') \<Rightarrow> Ok (Changed b, db'))"
| "sql_call c db (ReplaceOpenSteps p) =
     and_then (sql_replace_open_steps c db p) (\<lambda>db'. Ok (Done, db'))"
| "sql_call c db (ListSteps i) = and_then (sql_list_steps c db i) (\<lambda>ss. Ok (StepsReply ss, db))"
| "sql_call c db (UpdateStep s) = and_then (sql_update_step c db s) (\<lambda>db'. Ok (Done, db'))"
| "sql_call c db (InsertArtifact a) = and_then (sql_insert_artifact c db a) (\<lambda>db'. Ok (Done, db'))"
| "sql_call c db (GetArtifact i j) =
     and_then (sql_get_artifact c db i j) (\<lambda>a. Ok (ArtifactReply a, db))"
| "sql_call c db (ListArtifacts i) = Ok (SummariesReply (sql_list_artifacts c db i), db)"
| "sql_call c db (DeleteArtifact i j) =
     (case sql_delete_artifact db i j of (b, db') \<Rightarrow> Ok (Changed b, db'))"

fun ledger_call :: "ledger \<Rightarrow> store_call \<Rightarrow> (store_reply \<times> ledger, store_error) result" where
  "ledger_call l (CreateTask t) = and_then (create_task l t) (\<lambda>l'. Ok (Done, l'))"
| "ledger_call l (GetTask i) = Ok (TaskReply (get_task l i), l)"
| "ledger_call l (ListTasks owner inc) = Ok (TasksReply (list_tasks l owner inc), l)"
| "ledger_call l (DecideAnswer i a) = (case decide_task_answer l i a of (b, l') \<Rightarrow> Ok (Changed b, l'))"
| "ledger_call l (SetTaskState i n at) =
     and_then (set_task_state l i n at) (\<lambda>(t, l'). Ok (TaskReply t, l'))"
| "ledger_call l (DeleteTask i) = (case delete_task l i of (b, l') \<Rightarrow> Ok (Changed b, l'))"
| "ledger_call l (ReplaceOpenSteps p) = and_then (replace_open_steps l p) (\<lambda>l'. Ok (Done, l'))"
| "ledger_call l (ListSteps i) = Ok (StepsReply (list_steps l i), l)"
| "ledger_call l (UpdateStep s) = and_then (update_step l s) (\<lambda>l'. Ok (Done, l'))"
| "ledger_call l (InsertArtifact a) = and_then (insert_artifact l a) (\<lambda>l'. Ok (Done, l'))"
| "ledger_call l (GetArtifact i j) = Ok (ArtifactReply (get_artifact l i j), l)"
| "ledger_call l (ListArtifacts i) = Ok (SummariesReply (list_artifacts l i), l)"
| "ledger_call l (DeleteArtifact i j) = (case delete_artifact l i j of (b, l') \<Rightarrow> Ok (Changed b, l'))"

text \<open>What a call and a reply are once their times are kept to the second.\<close>

fun stored_call :: "store_call \<Rightarrow> store_call" where
  "stored_call (CreateTask t) = CreateTask (stored_task t)"
| "stored_call (SetTaskState i n at) = SetTaskState i n (whole_second at)"
| "stored_call (UpdateStep s) = UpdateStep (stored_step s)"
| "stored_call (InsertArtifact a) = InsertArtifact (stored_artifact a)"
| "stored_call call = call"

fun stored_reply :: "store_reply \<Rightarrow> store_reply" where
  "stored_reply (TaskReply t) = TaskReply (map_option stored_task t)"
| "stored_reply reply = reply"

text \<open>
  The calls the code makes: values the constructors built, an owner and an origin the pond knows, a
  step that was read before it was moved.
\<close>

fun call_ok :: "ustr list \<Rightarrow> ustr list \<Rightarrow> ledger \<Rightarrow> store_call \<Rightarrow> bool" where
  "call_ok profiles sessions l (CreateTask t) \<longleftrightarrow>
     storable_task t \<and> references profiles (task_owner t) \<and> references sessions (task_origin t)"
| "call_ok profiles sessions l (SetTaskState i n at) \<longleftrightarrow> storable_time at"
| "call_ok profiles sessions l (ReplaceOpenSteps p) \<longleftrightarrow> plan_storable p"
| "call_ok profiles sessions l (UpdateStep s) \<longleftrightarrow> storable_step s \<and> step_current l s"
| "call_ok profiles sessions l (InsertArtifact a) \<longleftrightarrow> storable_artifact a"
| "call_ok profiles sessions l _ \<longleftrightarrow> True"

fun sql_replies :: "sql_codec \<Rightarrow> pond_db \<Rightarrow> store_call list \<Rightarrow> store_reply option list" where
  "sql_replies c db [] = []"
| "sql_replies c db (call # calls) =
     (case sql_call c db call of
        Ok (r, db') \<Rightarrow> Some (stored_reply r) # sql_replies c db' calls
      | Err _ \<Rightarrow> None # sql_replies c db calls)"

fun ledger_replies :: "ledger \<Rightarrow> store_call list \<Rightarrow> store_reply option list" where
  "ledger_replies l [] = []"
| "ledger_replies l (call # calls) =
     (case ledger_call l call of
        Ok (r, l') \<Rightarrow> Some r # ledger_replies l' calls
      | Err _ \<Rightarrow> None # ledger_replies l calls)"

fun calls_ok :: "ustr list \<Rightarrow> ustr list \<Rightarrow> ledger \<Rightarrow> store_call list \<Rightarrow> bool" where
  "calls_ok profiles sessions l [] \<longleftrightarrow> True"
| "calls_ok profiles sessions l (call # calls) \<longleftrightarrow>
     call_ok profiles sessions l call \<and>
     calls_ok profiles sessions
       (case ledger_call l (stored_call call) of Ok (_, l') \<Rightarrow> l' | Err _ \<Rightarrow> l) calls"

section \<open>One call\<close>

lemma and_then_Ok: "and_then r f = Ok y \<longleftrightarrow> (\<exists>x. r = Ok x \<and> f x = Ok y)"
  by (cases r) simp_all

definition same_members :: "pond_db \<Rightarrow> pond_db \<Rightarrow> bool" where
  "same_members db db' \<longleftrightarrow> db_profiles db' = db_profiles db \<and> db_sessions db' = db_sessions db"

lemma insert_steps_frame: "insert_steps c db ss = Ok db' \<Longrightarrow> same_members db db'"
  by (induction ss arbitrary: db)
     (auto simp: and_then_Ok insert_step_row_def same_members_def split: if_splits)

lemma replace_open_steps_frame: "sql_replace_open_steps c db p = Ok db' \<Longrightarrow> same_members db db'"
  by (auto simp: sql_replace_open_steps_def Let_def and_then_Ok same_members_def
      dest!: insert_steps_frame split: if_splits)

lemma update_task_rows_frame: "update_task_rows db p f = Ok (n, db') \<Longrightarrow> same_members db db'"
  by (auto simp: update_task_rows_def same_members_def split: if_splits)

lemma update_step_rows_frame: "update_step_rows c db p f = Ok (n, db') \<Longrightarrow> same_members db db'"
  by (auto simp: update_step_rows_def same_members_def split: if_splits)

lemma set_state_write_frame: "set_state_write c db i t f = Ok (r, db') \<Longrightarrow> same_members db db'"
  by (auto simp: set_state_write_def and_then_Ok dest: update_task_rows_frame
      split: if_splits option.splits)

lemma set_task_state_frame: "sql_set_task_state c db i n at = Ok (r, db') \<Longrightarrow> same_members db db'"
  by (auto simp: sql_set_task_state_def and_then_Ok dest: set_state_write_frame
      split: option.splits prod.splits)
     (simp add: same_members_def)

lemma decide_frame: "sql_decide_task_answer db i a = Ok (r, db') \<Longrightarrow> same_members db db'"
  by (auto simp: sql_decide_task_answer_def and_then_Ok dest: update_task_rows_frame
      split: if_splits)
     (simp add: same_members_def)

lemma update_step_frame: "sql_update_step c db s = Ok db' \<Longrightarrow> same_members db db'"
  by (auto simp: sql_update_step_def update_step_write_def and_then_Ok dest: update_step_rows_frame
      split: if_splits)

lemmas frames = replace_open_steps_frame set_task_state_frame decide_frame update_step_frame

lemma sql_call_frame: "sql_call c db call = Ok (r, db') \<Longrightarrow> same_members db db'"
  by (cases call)
     (auto simp: and_then_Ok sql_create_task_def insert_task_row_def sql_insert_artifact_def
       insert_artifact_row_def sql_delete_task_def delete_task_rows_def sql_delete_artifact_def
       Let_def same_members_def [of db db] dest: frames split: if_splits;
      simp add: same_members_def)+

text \<open>A reply and its tables against the ledger's.\<close>

definition agree ::
  "sql_codec \<Rightarrow> (store_reply \<times> pond_db, sql_error) result \<Rightarrow>
     (store_reply \<times> ledger, store_error) result \<Rightarrow> bool" where
  "agree c got want \<longleftrightarrow>
     (case got of
        Ok (r, db') \<Rightarrow> \<exists>l'. want = Ok (stored_reply r, l') \<and> represents c db' l'
      | Err _ \<Rightarrow> \<not> is_ok want)"

lemma agree_write:
  assumes "case r of Ok db' \<Rightarrow> \<exists>l'. w = Ok l' \<and> represents c db' l' | Err _ \<Rightarrow> \<not> is_ok w"
  shows "agree c (and_then r (\<lambda>db'. Ok (Done, db'))) (and_then w (\<lambda>l'. Ok (Done, l')))"
  using assms by (cases r; cases w) (simp_all add: agree_def)

lemma stored_get_task: "represents c db l \<Longrightarrow> map_option stored_task (get_task l i) = get_task l i"
  using represents_tasks(4) get_task_SomeD by (cases "get_task l i") fastforce+

lemma sim_call:
  assumes "codec_ok c" "represents c db l" "call_ok (db_profiles db) (db_sessions db) l call"
  shows "agree c (sql_call c db call) (ledger_call l (stored_call call))"
proof (cases call)
  case (CreateTask t)
  with assms show ?thesis using agree_write [OF sim_create_task [OF assms(1,2), of t]] by simp
next
  case (GetTask i)
  with assms show ?thesis by (simp add: agree_def sim_get_task stored_get_task)
next
  case (ListTasks owner inc)
  with assms show ?thesis by (simp add: agree_def sim_list_tasks)
next
  case (DecideAnswer i a)
  then show ?thesis
    using sim_decide_task_answer [OF assms(2), of i a] by (auto simp: agree_def case_prod_beta)
next
  case (SetTaskState i n at)
  then show ?thesis
    using sim_set_task_state [OF assms(1,2), of at i n] assms(3)
    by (cases "sql_set_task_state c db i n at"; cases "set_task_state l i n (whole_second at)")
       (auto simp: agree_def)
next
  case (DeleteTask i)
  then show ?thesis
    using sim_delete_task [OF assms(2), of i] by (auto simp: agree_def case_prod_beta)
next
  case (ReplaceOpenSteps p)
  with assms show ?thesis using agree_write [OF sim_replace_open_steps [OF assms(1,2), of p]] by simp
next
  case (ListSteps i)
  with assms show ?thesis by (simp add: agree_def sim_list_steps)
next
  case (UpdateStep s)
  with assms show ?thesis using agree_write [OF sim_update_step [OF assms(1,2), of s]] by simp
next
  case (InsertArtifact a)
  with assms show ?thesis using agree_write [OF sim_insert_artifact [OF assms(1,2), of a]] by simp
next
  case (GetArtifact i j)
  with assms show ?thesis by (simp add: agree_def sim_get_artifact)
next
  case (ListArtifacts i)
  with assms show ?thesis by (simp add: agree_def sim_list_artifacts)
next
  case (DeleteArtifact i j)
  then show ?thesis
    using sim_delete_artifact [OF assms(2), of i j] by (auto simp: agree_def case_prod_beta)
qed

lemma sim_calls:
  assumes "codec_ok c" "represents c db l" "calls_ok (db_profiles db) (db_sessions db) l calls"
  shows "sql_replies c db calls = ledger_replies l (map stored_call calls)"
  using assms(2,3)
proof (induction calls arbitrary: db l)
  case Nil
  then show ?case by simp
next
  case (Cons call calls)
  have agrees: "agree c (sql_call c db call) (ledger_call l (stored_call call))"
    using sim_call [OF assms(1) Cons.prems(1)] Cons.prems(2) by simp
  show ?case
  proof (cases "sql_call c db call")
    case (Err e)
    with agrees obtain e' where "ledger_call l (stored_call call) = Err e'"
      by (cases "ledger_call l (stored_call call)") (auto simp: agree_def)
    with Err Cons show ?thesis by simp
  next
    case (Ok x)
    then obtain r db' where x: "sql_call c db call = Ok (r, db')" by (cases x) simp
    with agrees obtain l' where l': "ledger_call l (stored_call call) = Ok (stored_reply r, l')"
      "represents c db' l'" by (auto simp: agree_def)
    with x Cons.prems sql_call_frame [OF x] Cons.IH [OF l'(2)] show ?thesis
      by (simp add: same_members_def)
  qed
qed

section \<open>Two writers\<close>

lemma set_state_readD:
  assumes "codec_ok c" "represents c db l" "set_state_read c db i n at = Ok (Some (t', f))"
  shows "\<exists>t. get_task l i = Some t \<and> f = task_state t \<and> transition_to t n at = Ok t' \<and>
    task_can_become f n \<and> task_state t' = n"
proof -
  from assms(3) obtain t where t: "get_task l i = Some t" "transition_to t n at = Ok t'"
    "f = task_state t"
    by (auto simp: set_state_read_def sim_get_task [OF assms(1,2)] split: option.splits result.splits)
  then show ?thesis using transition_to_frame [OF t(2)] transition_to_Ok_iff by blast
qed

lemma missed_row:
  assumes "\<forall>r \<in> set (db_tasks db). \<not> chosen r"
  shows "update_task_rows db chosen change = Ok (0, db)"
proof -
  have "map (\<lambda>r. if chosen r then change r else r) (db_tasks db) = db_tasks db"
    using assms by (intro map_idI) simp
  with assms show ?thesis by (simp add: update_task_rows_def filter_empty_conv)
qed

lemma set_state_write_Some:
  assumes "set_state_write c db i t' f = Ok (Some r, db')"
  shows "r = t' \<and> db_tasks db' = map (\<lambda>x. if tr_id x = i \<and> tr_state x = task_state_as_str f
    then x\<lparr>tr_state := task_state_as_str (task_state t'), tr_updated_at := sql_ts c (task_updated_at t'),
      tr_finished_at := map_option (sql_ts c) (task_finished_at t')\<rparr> else x) (db_tasks db) \<and>
    db_steps db' = db_steps db \<and> db_artifacts db' = db_artifacts db"
  using assms
  by (auto simp: set_state_write_def update_task_rows_def and_then_Ok split: if_splits option.splits)

lemma moved_rows_apart:
  assumes "\<And>x. \<not> p (f x)"
  shows "\<forall>x \<in> set (map (\<lambda>x. if p x then f x else x) rows). \<not> p x"
  using assms by auto

lemma second_task_move_refused:
  assumes "codec_ok c" "represents c db l"
    "set_state_read c db i n at = Ok (Some (t1, f1))"
    "set_state_read c db i m at' = Ok (Some (t2, f2))" "storable_time at"
    "set_state_write c db i t1 f1 = Ok (Some r, db1)"
  shows "set_state_write c db1 i t2 f2 = Err (MovedMeanwhile i)"
proof -
  obtain t where t: "get_task l i = Some t" "f1 = task_state t" "f2 = task_state t"
    "task_can_become f1 n" "task_state t1 = n"
    using set_state_readD [OF assms(1,2,3)] set_state_readD [OF assms(1,2,4)] by auto
  have rows: "db_tasks db1 = map (\<lambda>x. if tr_id x = i \<and> tr_state x = task_state_as_str f1
      then x\<lparr>tr_state := task_state_as_str n, tr_updated_at := sql_ts c (task_updated_at t1),
        tr_finished_at := map_option (sql_ts c) (task_finished_at t1)\<rparr> else x) (db_tasks db)"
    using set_state_write_Some [OF assms(6)] t(5) by simp
  have "n \<noteq> f1" using t(4) task_no_self_move by blast
  then have "\<forall>x \<in> set (db_tasks db1). \<not> (tr_id x = i \<and> tr_state x = task_state_as_str f2)"
    unfolding rows t(2,3) by (intro moved_rows_apart) (simp add: spelled_iff t(2))
  then have missed: "update_task_rows db1 (\<lambda>x. tr_id x = i \<and> tr_state x = task_state_as_str f2) change =
      Ok (0, db1)" for change by (rule missed_row)
  have "sql_set_task_state c db i n at = Ok (Some r, db1)"
    using assms(3,6) by (simp add: sql_set_task_state_def)
  then obtain l1 where l1: "set_task_state l i n (whole_second at) = Ok (Some (stored_task r), l1)"
    "represents c db1 l1"
    using sim_set_task_state [OF assms(1,2,5), of i n] by auto
  then have "l1 = put_task l (stored_task r)" "task_id (stored_task r) = i"
    using t(1) get_task_SomeD [OF t(1)]
    by (auto simp: set_task_state_def dest!: transition_to_frame split: result.splits)
  then have "get_task l1 i = Some (stored_task r)"
    using t(1) find_update_first_self [of "\<lambda>x. task_id x = i" "led_tasks l" "stored_task r"]
    by (simp add: get_task_def put_task_def)
  then have "sql_get_task c db1 i = Ok (Some (stored_task r))"
    using sim_get_task [OF assms(1) l1(2)] by simp
  then show ?thesis by (simp add: set_state_write_def missed)
qed

lemma second_step_move_refused:
  assumes "update_step_read db s = Ok f1" "update_step_read db s' = Ok f2"
    "ps_task_id s' = ps_task_id s" "ps_key s' = ps_key s"
    "update_step_write c db s f1 = Ok db1"
  shows "update_step_write c db1 s' f2 = Err (MovedMeanwhile (ps_key s))"
proof -
  have same: "f2 = f1" "step_can_become f1 (ps_state s)"
    using assms(1-4) by (auto simp: update_step_read_def and_then_Ok or_error_def
        split: option.splits if_splits)
  then have "ps_state s \<noteq> f1" using step_no_self_move by blast
  then have "\<forall>r \<in> set (db_steps db1). \<not> (sr_task_id r = ps_task_id s \<and> sr_key r = ps_key s \<and>
      sr_state r = step_state_as_str f1)"
    using assms(5)
    by (auto simp: update_step_write_def update_step_rows_def and_then_Ok spelled_iff
        split: if_splits)
  then show ?thesis
    using same(1) assms(3,4)
    by (simp add: update_step_write_def update_step_rows_def filter_empty_conv)
qed

section \<open>Unreadable rows\<close>

lemma readable_filter:
  "readable read rows = readable read (filter (\<lambda>r. is_ok (read r)) rows)"
proof (induction rows)
  case (Cons r rows)
  then show ?case by (cases "read r") (simp_all add: readable_def List.map_filter_def)
qed simp

lemma readable_rev_sort:
  "readable read (rev (sort_key k rows)) =
   readable read (rev (sort_key k (filter (\<lambda>r. is_ok (read r)) rows)))"
  by (subst readable_filter) (simp add: rev_filter [symmetric] filter_sort)

lemma readable_sort:
  "readable read (sort_key k rows) = readable read (sort_key k (filter (\<lambda>r. is_ok (read r)) rows))"
  by (subst readable_filter) (simp add: filter_sort)

lemma try_map_ok_iff: "is_ok (try_map f xs) \<longleftrightarrow> list_all (\<lambda>x. is_ok (f x)) xs"
proof (induction xs)
  case (Cons x xs)
  then show ?case by (cases "f x"; cases "try_map f xs") simp_all
qed simp

section \<open>The tables under every writer\<close>

text \<open>
  What the tables promise whatever is written: keys apart, every check met, no step or artifact
  without its task, no task whose owner or origin is gone. The writers are the store's calls, a
  compare-and-set decided on older tables, and the rest of the pond, which adds and deletes profiles
  and sessions.
\<close>

definition tables_sound :: "sql_codec \<Rightarrow> pond_db \<Rightarrow> bool" where
  "tables_sound c db \<longleftrightarrow>
     distinct (map tr_id (db_tasks db)) \<and>
     distinct (map (\<lambda>s. (sr_task_id s, sr_key s)) (db_steps db)) \<and>
     distinct (map ar_id (db_artifacts db)) \<and>
     list_all (\<lambda>s. sr_task_id s \<in> tr_id ` set (db_tasks db)) (db_steps db) \<and>
     list_all (\<lambda>a. ar_task_id a \<in> tr_id ` set (db_tasks db)) (db_artifacts db) \<and>
     list_all task_checks (db_tasks db) \<and> list_all (step_checks c) (db_steps db) \<and>
     list_all artifact_checks (db_artifacts db) \<and>
     list_all (\<lambda>r. references (db_profiles db) (tr_owner r) \<and>
       references (db_sessions db) (tr_origin r)) (db_tasks db)"

inductive db_step :: "sql_codec \<Rightarrow> pond_db \<Rightarrow> pond_db \<Rightarrow> bool" for c where
  called: "sql_call c db call = Ok (r, db') \<Longrightarrow> db_step c db db'"
| late_task: "set_state_write c db i t f = Ok (r, db') \<Longrightarrow> db_step c db db'"
| late_step: "update_step_write c db s f = Ok db' \<Longrightarrow> db_step c db db'"
| profile_added: "db_step c db (db\<lparr>db_profiles := db_profiles db @ [i]\<rparr>)"
| session_added: "db_step c db (db\<lparr>db_sessions := db_sessions db @ [i]\<rparr>)"
| profile_gone: "db_step c db (delete_profile_row db i)"
| session_gone: "db_step c db (delete_session_row db i)"

lemma update_task_rows_sound:
  assumes "tables_sound c db" "update_task_rows db chosen change = Ok (n, db')"
    "\<And>r. tr_id (change r) = tr_id r" "\<And>r. tr_owner (change r) = tr_owner r"
    "\<And>r. tr_origin (change r) = tr_origin r"
  shows "tables_sound c db'"
proof -
  have db': "db' = db\<lparr>db_tasks := map (\<lambda>r. if chosen r then change r else r) (db_tasks db)\<rparr>"
    and ok: "\<forall>r \<in> set (db_tasks db). chosen r \<longrightarrow> task_checks (change r)"
    using assms(2) by (auto simp: update_task_rows_def list_all_iff split: if_splits)
  have ids: "map tr_id (db_tasks db') = map tr_id (db_tasks db)"
    unfolding db' by (simp add: assms(3))
  then have "tr_id ` set (db_tasks db') = tr_id ` set (db_tasks db)" by (metis set_map)
  moreover have "list_all task_checks (db_tasks db')"
    using ok assms(1) by (auto simp: db' tables_sound_def list_all_iff)
  moreover have "list_all (\<lambda>r. references (db_profiles db) (tr_owner r) \<and>
      references (db_sessions db) (tr_origin r)) (db_tasks db')"
    using assms(1) by (auto simp: db' tables_sound_def list_all_iff assms(4,5))
  moreover have "db_steps db' = db_steps db" "db_artifacts db' = db_artifacts db"
    "db_profiles db' = db_profiles db" "db_sessions db' = db_sessions db"
    by (simp_all add: db')
  ultimately show ?thesis
    using assms(1) ids unfolding tables_sound_def by simp
qed

lemma update_step_rows_sound:
  assumes "tables_sound c db" "update_step_rows c db chosen change = Ok (n, db')"
    "\<And>r. sr_task_id (change r) = sr_task_id r" "\<And>r. sr_key (change r) = sr_key r"
  shows "tables_sound c db'"
proof -
  have db': "db' = db\<lparr>db_steps := map (\<lambda>r. if chosen r then change r else r) (db_steps db)\<rparr>"
    and ok: "\<forall>r \<in> set (db_steps db). chosen r \<longrightarrow> step_checks c (change r)"
    using assms(2) by (auto simp: update_step_rows_def list_all_iff split: if_splits)
  have "map (\<lambda>s. (sr_task_id s, sr_key s)) (db_steps db') = map (\<lambda>s. (sr_task_id s, sr_key s)) (db_steps db)"
    unfolding db' by (simp add: assms(3,4))
  moreover have "list_all (\<lambda>s. sr_task_id s \<in> tr_id ` set (db_tasks db)) (db_steps db')"
    using assms(1) by (auto simp: db' tables_sound_def list_all_iff assms(3))
  moreover have "list_all (step_checks c) (db_steps db')"
    using ok assms(1) by (auto simp: db' tables_sound_def list_all_iff)
  moreover have "db_tasks db' = db_tasks db" "db_artifacts db' = db_artifacts db"
    "db_profiles db' = db_profiles db" "db_sessions db' = db_sessions db"
    by (simp_all add: db')
  ultimately show ?thesis
    using assms(1) unfolding tables_sound_def by (simp del: map_eq_conv)
qed

lemma delete_task_rows_sound:
  assumes "tables_sound c db" shows "tables_sound c (snd (delete_task_rows db chosen))"
proof -
  have ids: "inj_on tr_id (set (db_tasks db))" using assms by (simp add: tables_sound_def distinct_map)
  have kept: "x \<in> tr_id ` set (filter (\<lambda>r. \<not> chosen r) (db_tasks db))"
    if "x \<in> tr_id ` set (db_tasks db)" "x \<notin> set (map tr_id (filter chosen (db_tasks db)))" for x
    using that by auto
  show ?thesis
    using assms kept
    by (auto simp: tables_sound_def delete_task_rows_def Let_def list_all_iff distinct_map_filter)
qed

lemma insert_task_row_sound:
  "tables_sound c db \<Longrightarrow> insert_task_row db r = Ok db' \<Longrightarrow> tables_sound c db'"
  by (auto simp: insert_task_row_def tables_sound_def list_all_iff split: if_splits)

lemma insert_step_row_sound:
  "tables_sound c db \<Longrightarrow> insert_step_row c db r = Ok db' \<Longrightarrow> tables_sound c db'"
  by (auto simp: insert_step_row_def tables_sound_def list_all_iff split: if_splits)

lemma insert_artifact_row_sound:
  "tables_sound c db \<Longrightarrow> insert_artifact_row db r = Ok db' \<Longrightarrow> tables_sound c db'"
  by (auto simp: insert_artifact_row_def tables_sound_def list_all_iff split: if_splits)

lemma insert_steps_sound:
  "tables_sound c db \<Longrightarrow> insert_steps c db ss = Ok db' \<Longrightarrow> tables_sound c db'"
proof (induction ss arbitrary: db)
  case (Cons s ss)
  then obtain db1 where db1: "insert_step_row c db (step_row_of c s) = Ok db1" "insert_steps c db1 ss = Ok db'"
    by (auto simp: and_then_Ok)
  have "tables_sound c db1"
    by (rule insert_step_row_sound [OF Cons.prems(1) db1(1)])
  with Cons.IH db1(2) show ?case by blast
qed simp

lemma replace_open_steps_sound:
  assumes "tables_sound c db" "sql_replace_open_steps c db p = Ok db'"
  shows "tables_sound c db'"
proof -
  have "tables_sound c (db\<lparr>db_steps := filter q (db_steps db)\<rparr>)" for q
    using assms(1) by (auto simp: tables_sound_def list_all_iff distinct_map_filter)
  moreover obtain q where "insert_steps c (db\<lparr>db_steps := filter q (db_steps db)\<rparr>) (vp_steps p) = Ok db'"
    using assms(2) by (auto simp: sql_replace_open_steps_def Let_def and_then_Ok split: if_splits)
  ultimately show ?thesis by (blast intro: insert_steps_sound)
qed

lemma set_state_write_sound:
  "tables_sound c db \<Longrightarrow> set_state_write c db i t f = Ok (r, db') \<Longrightarrow> tables_sound c db'"
  by (auto simp: set_state_write_def and_then_Ok split: if_splits option.splits
      elim!: update_task_rows_sound)

lemma update_step_write_sound:
  "tables_sound c db \<Longrightarrow> update_step_write c db s f = Ok db' \<Longrightarrow> tables_sound c db'"
  by (auto simp: update_step_write_def and_then_Ok split: if_splits elim!: update_step_rows_sound)

lemma decide_sound:
  "tables_sound c db \<Longrightarrow> sql_decide_task_answer db i a = Ok (r, db') \<Longrightarrow> tables_sound c db'"
  by (auto simp: sql_decide_task_answer_def and_then_Ok split: if_splits elim!: update_task_rows_sound)

lemma sql_call_sound:
  assumes "tables_sound c db" "sql_call c db call = Ok (r, db')"
  shows "tables_sound c db'"
proof (cases call)
  case (CreateTask t)
  with assms show ?thesis
    by (auto simp: and_then_Ok sql_create_task_def elim: insert_task_row_sound)
next
  case (InsertArtifact a)
  with assms show ?thesis
    by (auto simp: and_then_Ok sql_insert_artifact_def elim: insert_artifact_row_sound)
next
  case (DecideAnswer i a)
  with assms show ?thesis by (auto simp: and_then_Ok elim: decide_sound)
next
  case (SetTaskState i n at)
  with assms show ?thesis
    by (auto simp: and_then_Ok sql_set_task_state_def split: option.splits elim: set_state_write_sound)
next
  case (UpdateStep s)
  with assms show ?thesis
    by (auto simp: and_then_Ok sql_update_step_def elim: update_step_write_sound)
next
  case (ReplaceOpenSteps p)
  with assms show ?thesis by (auto simp: and_then_Ok elim: replace_open_steps_sound)
next
  case (DeleteTask i)
  with assms delete_task_rows_sound [OF assms(1)] show ?thesis
    by (auto simp: sql_delete_task_def split: prod.splits) (metis snd_conv)
next
  case (DeleteArtifact i j)
  with assms show ?thesis
    by (auto simp: sql_delete_artifact_def tables_sound_def list_all_iff distinct_map_filter)
qed (use assms in \<open>auto simp: and_then_Ok\<close>)

lemma references_mono: "references ids x \<Longrightarrow> set ids \<subseteq> set ids' \<Longrightarrow> references ids' x"
  by (auto simp: references_def split: option.splits)

lemma references_filter: "references ids x \<Longrightarrow> x \<noteq> Some i \<Longrightarrow> references (filter (\<lambda>p. p \<noteq> i) ids) x"
  by (auto simp: references_def split: option.splits)

lemma delete_profile_sound:
  assumes "tables_sound c db" shows "tables_sound c (delete_profile_row db i)"
proof -
  define gone where "gone = snd (delete_task_rows db (\<lambda>r. tr_owner r = Some i))"
  have sound: "tables_sound c gone" unfolding gone_def by (rule delete_task_rows_sound [OF assms])
  have deleted: "delete_profile_row db i = gone\<lparr>db_profiles := filter (\<lambda>p. p \<noteq> i) (db_profiles gone)\<rparr>"
    by (simp add: delete_profile_row_def delete_task_rows_def Let_def gone_def)
  have other: "tr_owner r \<noteq> Some i" if "r \<in> set (db_tasks gone)" for r
    using that by (simp add: delete_task_rows_def Let_def gone_def)
  have refs: "\<forall>r \<in> set (db_tasks gone). references (db_profiles gone) (tr_owner r) \<and>
      references (db_sessions gone) (tr_origin r)"
    using sound unfolding tables_sound_def list_all_iff by blast
  have "list_all (\<lambda>r. references (filter (\<lambda>p. p \<noteq> i) (db_profiles gone)) (tr_owner r) \<and>
      references (db_sessions gone) (tr_origin r)) (db_tasks gone)"
    unfolding list_all_iff using refs other by (blast intro: references_filter)
  with sound show ?thesis by (simp add: tables_sound_def deleted)
qed

lemma task_checks_origin: "task_checks (r\<lparr>tr_origin := x\<rparr>) = task_checks r"
  unfolding task_checks_def by simp

lemma delete_session_sound:
  assumes "tables_sound c db" shows "tables_sound c (delete_session_row db i)"
proof -
  let ?db = "delete_session_row db i"
  have "map tr_id (db_tasks ?db) = map tr_id (db_tasks db)" by (simp add: delete_session_row_def)
  moreover from this have "tr_id ` set (db_tasks ?db) = tr_id ` set (db_tasks db)" by (metis set_map)
  moreover have "list_all task_checks (db_tasks ?db)"
    using assms by (auto simp: tables_sound_def list_all_iff delete_session_row_def task_checks_origin)
  moreover have "list_all (\<lambda>r. references (db_profiles ?db) (tr_owner r) \<and>
      references (db_sessions ?db) (tr_origin r)) (db_tasks ?db)"
    using assms
    by (auto simp: tables_sound_def list_all_iff delete_session_row_def references_filter)
       (simp add: references_def)
  moreover have "db_steps ?db = db_steps db" "db_artifacts ?db = db_artifacts db"
    by (simp_all add: delete_session_row_def)
  ultimately show ?thesis using assms unfolding tables_sound_def by simp
qed

lemma db_step_sound: "db_step c db db' \<Longrightarrow> tables_sound c db \<Longrightarrow> tables_sound c db'"
proof (induction rule: db_step.induct)
  case (profile_added db i)
  then show ?case by (auto simp: tables_sound_def list_all_iff intro: references_mono)
next
  case (session_added db i)
  then show ?case by (auto simp: tables_sound_def list_all_iff intro: references_mono)
qed (blast intro: sql_call_sound set_state_write_sound update_step_write_sound delete_profile_sound
       delete_session_sound)+

lemma db_steps_sound: "(db_step c)\<^sup>*\<^sup>* db db' \<Longrightarrow> tables_sound c db \<Longrightarrow> tables_sound c db'"
  by (induction rule: rtranclp_induct) (auto dest: db_step_sound)

section \<open>Text formats as an example\<close>

definition flatten :: "ustr list \<Rightarrow> ustr" where
  "flatten xs = concat (map (\<lambda>x. length x # x) xs)"

fun unflatten :: "nat \<Rightarrow> ustr \<Rightarrow> ustr list" where
  "unflatten 0 _ = []"
| "unflatten (Suc fuel) [] = []"
| "unflatten (Suc fuel) (n # rest) = take n rest # unflatten fuel (drop n rest)"

lemma unflatten_flatten: "length xs \<le> fuel \<Longrightarrow> unflatten fuel (flatten xs) = xs"
  by (induction xs arbitrary: fuel; case_tac fuel) (simp_all add: flatten_def)

lemma length_flatten: "length xs \<le> length (flatten xs)"
  by (induction xs) (simp_all add: flatten_def)

definition example_json_text :: "json \<Rightarrow> ustr" where
  "example_json_text v =
     (case v of
        JArray items \<Rightarrow> 1 # flatten (map (\<lambda>i. case json_as_str i of Some s \<Rightarrow> s | None \<Rightarrow> []) items)
      | JObject [(_, JString name), (_, JString text), (_, JArray items)] \<Rightarrow>
          2 # flatten (name # text # map (\<lambda>i. case json_as_str i of Some s \<Rightarrow> s | None \<Rightarrow> []) items)
      | _ \<Rightarrow> [])"

definition example_json_read :: "ustr \<Rightarrow> json option" where
  "example_json_read raw =
     (case raw of
        Suc 0 # rest \<Rightarrow> Some (list_json (unflatten (length rest) rest))
      | Suc (Suc 0) # rest \<Rightarrow>
          (case unflatten (length rest) rest of
             name # text # tools \<Rightarrow>
               Some (agent_json \<lparr>agent_name = name, agent_instructions = text, agent_tools = tools\<rparr>)
           | _ \<Rightarrow> None)
      | _ \<Rightarrow> None)"

definition example_codec :: sql_codec where
  "example_codec =
     \<lparr>ts_text = \<lambda>t. [nat (t div NANOS)],
      ts_read = \<lambda>raw. (case raw of [n] \<Rightarrow> Some (int n * NANOS) | _ \<Rightarrow> None),
      json_text = example_json_text, json_read = example_json_read,
      sql_json_array = \<lambda>raw. (case raw of Suc 0 # _ \<Rightarrow> True | _ \<Rightarrow> False)\<rparr>"

lemma example_codec_ok: "codec_ok example_codec"
proof -
  have secs: "0 \<le> t div NANOS" if "storable_time t" for t
    using that by (simp add: storable_time_def NANOS_def pos_imp_zdiv_nonneg_iff)
  have strings: "map (\<lambda>i. case json_as_str i of Some s \<Rightarrow> s | None \<Rightarrow> []) (map JString xs) = xs" for xs
    by (induction xs) simp_all
  have list: "example_json_text (list_json xs) = 1 # flatten xs" for xs
    using strings [of xs] by (simp add: example_json_text_def list_json_def)
  have agent: "example_json_text (agent_json a) =
      2 # flatten (agent_name a # agent_instructions a # agent_tools a)" for a
    using strings [of "agent_tools a"] by (simp add: example_json_text_def agent_json_def list_json_def)
  have order: "[nat (s div NANOS)] \<le> [nat (t div NANOS)] \<longleftrightarrow> whole_second s \<le> whole_second t"
    if "storable_time s" "storable_time t" for s t
    using secs [OF that(1)] secs [OF that(2)]
    by (simp add: whole_second_def NANOS_def eq_nat_nat_iff) linarith
  have "whole_second t = int (nat (t div NANOS)) * NANOS" if "storable_time t" for t
    using secs [OF that] by (simp add: whole_second_def)
  moreover have "agent_json \<lparr>agent_name = agent_name a, agent_instructions = agent_instructions a,
      agent_tools = agent_tools a\<rparr> = agent_json a" for a by (simp add: agent_json_def)
  ultimately show ?thesis
    using order list agent unflatten_flatten [OF length_flatten]
    by (auto simp: codec_ok_def example_codec_def example_json_read_def)
qed

definition example_db :: pond_db where
  "example_db = \<lparr>db_profiles = [lit ''ana''], db_sessions = [], db_tasks = [], db_steps = [], db_artifacts = []\<rparr>"

lemma example_db_represents: "represents example_codec example_db empty_ledger"
  by (simp add: represents_def example_db_def empty_ledger_def ledger_inv_def step_ids_def)

definition example_calls :: "store_call list" where
  "example_calls =
     [CreateTask example_task, CreateTask example_task,
      SetTaskState (lit ''t1'') TaskRunning 1999999999, ListTasks (Member (lit ''ana'')) False]"

section \<open>Properties\<close>


lemma example_task_storable: "storable_task example_task"
  by (simp add: storable_task_def example_task_def example_budget_def task_wf_def owner_agrees_def
      trimmed_owner_def storable_opt_def storable_time_def NANOS_def MAX_LONG_TASK_STEPS_def text_simps)

lemma example_calls_ok: "calls_ok (db_profiles example_db) (db_sessions example_db) empty_ledger example_calls"
proof -
  have "task_owner example_task = Some (lit ''ana'')" "task_origin example_task = None"
    by (simp_all add: example_task_def)
  then show ?thesis
    by (simp add: example_calls_def example_task_storable example_db_def references_def
        storable_time_def NANOS_def)
qed

lemma example_stored: "stored_task example_task = example_task\<lparr>task_budget := \<lparr>max_steps = 12, deadline = Some 0\<rparr>,
    task_created_at := 0, task_updated_at := 0\<rparr>"
  by (simp add: stored_task_def stored_budget_def example_task_def example_budget_def whole_second_def
      NANOS_def)


text \<open>
  C13: Of two writers that read the same state of a task, one wins and the other is told. When both
  have read the task and decided on their moves, and the first has written, the second's
  compare-and-set finds no row in the state it read and is refused, whatever it meant to write; the
  same holds of two writers of one step.
\<close>

theorem second_writer_loses:
  assumes "codec_ok c" "represents c db l" "storable_time at"
    "set_state_read c db i n at = Ok (Some (t1, f1))"
    "set_state_read c db i m at' = Ok (Some (t2, f2))"
    "set_state_write c db i t1 f1 = Ok (Some r, db1)"
  shows "set_state_write c db1 i t2 f2 = Err (MovedMeanwhile i) \<and>
    (\<forall>s s' g1 g2 db2. update_step_read db s = Ok g1 \<longrightarrow> update_step_read db s' = Ok g2 \<longrightarrow>
       ps_task_id s' = ps_task_id s \<longrightarrow> ps_key s' = ps_key s \<longrightarrow>
       update_step_write c db s g1 = Ok db2 \<longrightarrow>
       update_step_write c db2 s' g2 = Err (MovedMeanwhile (ps_key s)))"
  using second_task_move_refused [OF assms(1,2,4,5,3,6)] second_step_move_refused by blast

theorem second_writer_loses_witness:
  "\<exists>t1 t2 r db db1.
     set_state_read example_codec db (lit ''t1'') TaskRunning 20 = Ok (Some (t1, Planning)) \<and>
     set_state_read example_codec db (lit ''t1'') TaskCancelled 30 = Ok (Some (t2, Planning)) \<and>
     set_state_write example_codec db (lit ''t1'') t1 Planning = Ok (Some r, db1) \<and>
     set_state_write example_codec db1 (lit ''t1'') t2 Planning = Err (MovedMeanwhile (lit ''t1''))"
proof -
  let ?i = "lit ''t1''" and ?c = example_codec
  have ok: "call_ok (db_profiles example_db) (db_sessions example_db) empty_ledger (CreateTask example_task)"
    using example_calls_ok by (simp add: example_calls_def)
  obtain db l where db: "represents ?c db l" "get_task l ?i = Some (stored_task example_task)"
    using sim_create_task [OF example_codec_ok example_db_represents example_task_storable] ok
    by (auto simp: create_task_def empty_ledger_def get_task_def example_task_def
        split: result.splits)
  have state: "task_state example_task = Planning" by (simp add: example_task_def)
  obtain t1 where t1: "transition_to (stored_task example_task) TaskRunning 20 = Ok t1"
    by (simp add: transition_to_def example_task_def)
  obtain t2 where t2: "transition_to (stored_task example_task) TaskCancelled 30 = Ok t2"
    by (simp add: transition_to_def example_task_def)
  have read1: "set_state_read ?c db ?i TaskRunning 20 = Ok (Some (t1, Planning))"
    by (simp add: set_state_read_def sim_get_task [OF example_codec_ok db(1)] db(2) t1 state)
  have read2: "set_state_read ?c db ?i TaskCancelled 30 = Ok (Some (t2, Planning))"
    by (simp add: set_state_read_def sim_get_task [OF example_codec_ok db(1)] db(2) t2 state)
  have soon: "storable_time 20" by (simp add: storable_time_def NANOS_def)
  have "transition_to (stored_task example_task) TaskRunning (whole_second 20) = Ok (stored_task t1)"
    by (rule transition_stored [OF stored_idem(1) t1])
  then have "is_ok (set_task_state l ?i TaskRunning (whole_second 20))"
    using db(2) by (simp add: set_task_state_def)
  then obtain r db1 where "sql_set_task_state ?c db ?i TaskRunning 20 = Ok (r, db1)"
    "\<exists>l'. set_task_state l ?i TaskRunning (whole_second 20) = Ok (map_option stored_task r, l')"
    using sim_set_task_state [OF example_codec_ok db(1) soon, of ?i TaskRunning]
    by (auto split: result.splits)
  then obtain w where wrote: "set_state_write ?c db ?i t1 Planning = Ok (Some w, db1)"
    using db(2) by (cases r)
      (auto simp: sql_set_task_state_def read1 set_task_state_def split: result.splits)
  from second_writer_loses [OF example_codec_ok db(1) soon read1 read2 wrote] read1 read2 wrote
  show ?thesis by blast
qed



text \<open>
  A row that no longer reads hides nothing else. The listing of tasks and the listing of a
  task's artifacts are what they would be if every unreadable row were gone, in the same order. A
  step is not skipped so: the steps of a task are listed exactly when every one of them reads, since
  a missing step changes what the others wait for.
\<close>

theorem bad_row_hides_no_other:
  "sql_list_tasks c db owner inc =
     sql_list_tasks c (db\<lparr>db_tasks := filter (\<lambda>r. is_ok (row_to_task c r)) (db_tasks db)\<rparr>) owner inc \<and>
   sql_list_artifacts c db tid =
     sql_list_artifacts c
       (db\<lparr>db_artifacts := filter (\<lambda>r. is_ok (row_to_artifact_summary c r)) (db_artifacts db)\<rparr>) tid \<and>
   is_ok (sql_list_steps c db tid) =
     list_all (\<lambda>r. is_ok (row_to_step c r)) (filter (\<lambda>r. sr_task_id r = tid) (db_steps db))"
proof -
  have "is_ok (sql_list_steps c db tid) =
      list_all (\<lambda>r. is_ok (row_to_step c r)) (filter (\<lambda>r. sr_task_id r = tid) (db_steps db))"
    by (simp add: sql_list_steps_def try_map_ok_iff list_all_iff)
  then show ?thesis
    unfolding sql_list_tasks_def sql_list_artifacts_def
    by (subst (1 2) readable_rev_sort, subst (1 2) readable_sort)
       (simp add: filter_filter conj_ac cong: filter_cong)
qed

text \<open>
  C12: The tables stay sound under every writer. Through the store's calls, compare-and-set writes
  decided on older tables, and profiles and sessions that come and go, task and artifact ids and a
  task's step keys stay apart, every row meets its checks, no step or artifact is without its task
  and no task names an owner or a session that is gone; and a departed member leaves no task, and so
  no step or artifact, behind.
\<close>

theorem tables_stay_sound:
  assumes "(db_step c)\<^sup>*\<^sup>* db db'" "tables_sound c db"
  shows "tables_sound c db' \<and> tables_sound c (delete_profile_row db' i) \<and>
    list_all (\<lambda>r. tr_owner r \<noteq> Some i) (db_tasks (delete_profile_row db' i))"
  using db_steps_sound [OF assms] delete_profile_sound
  by (simp add: delete_profile_row_def delete_task_rows_def Let_def list_all_iff)

theorem tables_stay_sound_witness:
  "\<exists>db'. (db_step example_codec)\<^sup>*\<^sup>* example_db db' \<and> length (db_tasks db') = 1 \<and>
     tables_sound example_codec db' \<and> db_tasks (delete_profile_row db' (lit ''ana'')) = []"
proof -
  let ?r = "task_row_of example_codec example_task"
  let ?db = "example_db\<lparr>db_tasks := [?r]\<rparr>"
  have fields: "task_owner example_task = Some (lit ''ana'')" "task_origin example_task = None"
    by (simp_all add: example_task_def)
  have "task_checks ?r" using example_task_storable by (simp add: storable_task_def task_row_checks)
  then have "sql_call example_codec example_db (CreateTask example_task) = Ok (Done, ?db)"
    using fields by (simp add: sql_create_task_def insert_task_row_def example_db_def references_def)
  then have ran: "(db_step example_codec)\<^sup>*\<^sup>* example_db ?db" by (blast intro: db_step.called)
  have "tables_sound example_codec example_db" by (simp add: tables_sound_def example_db_def)
  from tables_stay_sound [OF ran this] have "tables_sound example_codec ?db" by blast
  moreover have "db_tasks (delete_profile_row ?db (lit ''ana'')) = []"
    using fields by (simp add: delete_profile_row_def delete_task_rows_def Let_def)
  ultimately show ?thesis using ran by (intro exI [of _ ?db]) simp
qed

end
