(* ===== verification/Inference_Lane.thy ===== *)
theory Inference_Lane
  imports Long_Task_State
begin

text \<open>
  Which background job may spend inference next: \<open>LaneJob\<close>, \<open>select_next\<close>, \<open>precedence\<close>, the quiet a
  compaction waits for and the gate of the embedding slot in
  \<open>pond-core/src/user_data/services/inference_lane.rs\<close>, with the shared gate of
  \<open>pond-core/src/user_data/services/consolidation_schedule.rs\<close>. A long task moves on only when its job
  wins here. A \<open>Duration\<close> is a natural number of nanoseconds, an \<open>Instant\<close> an integer of them.
\<close>

type_synonym duration = nat

definition DURATION_MAX :: duration where "DURATION_MAX = 2 ^ 64 * 1000000000 - 1"

definition from_secs :: "nat \<Rightarrow> duration" where "from_secs n = n * 1000000000"

section \<open>The jobs\<close>

datatype lane_job =
    Compaction | Consolidation | Titling | LongTaskStep | ProactiveReview | SummaryRefresh
  | MemoryExtraction | SuggestionGeneration

definition all_lane_jobs :: "lane_job list" where
  "all_lane_jobs =
     [Compaction, Consolidation, Titling, LongTaskStep, ProactiveReview, SummaryRefresh,
      MemoryExtraction, SuggestionGeneration]"

fun lane_job_as_str :: "lane_job \<Rightarrow> ustr" where
  "lane_job_as_str Compaction = lit ''compaction''"
| "lane_job_as_str Consolidation = lit ''consolidation''"
| "lane_job_as_str Titling = lit ''titling''"
| "lane_job_as_str LongTaskStep = lit ''long_task_step''"
| "lane_job_as_str ProactiveReview = lit ''proactive_review''"
| "lane_job_as_str SummaryRefresh = lit ''summary_refresh''"
| "lane_job_as_str MemoryExtraction = lit ''memory_extraction''"
| "lane_job_as_str SuggestionGeneration = lit ''suggestion_generation''"

fun lane_job_title :: "lane_job \<Rightarrow> ustr" where
  "lane_job_title Compaction = lit ''Make room in long conversations''"
| "lane_job_title Consolidation = lit ''Tidy the memory store''"
| "lane_job_title Titling = lit ''Name conversations''"
| "lane_job_title LongTaskStep = lit ''Work on long tasks''"
| "lane_job_title ProactiveReview = lit ''Look for something to suggest''"
| "lane_job_title SummaryRefresh = lit ''Refresh conversation summaries''"
| "lane_job_title MemoryExtraction = lit ''Read conversations for memories''"
| "lane_job_title SuggestionGeneration = lit ''Think of things to suggest''"

definition lane_job_from_wire :: "ustr \<Rightarrow> lane_job option" where
  "lane_job_from_wire name = find (\<lambda>j. lane_job_as_str j = name) all_lane_jobs"

interpretation lane_jobs: stored_enum lane_job_as_str lane_job_from_wire "\<lambda>s. s" all_lane_jobs
proof unfold_locales
  show "lane_job_as_str a = lane_job_as_str b \<Longrightarrow> a = b" for a b
    by (cases a; cases b) simp_all
  show "a \<in> set all_lane_jobs" for a
    by (cases a) (simp_all add: all_lane_jobs_def)
qed (simp_all add: lane_job_from_wire_def)

text \<open>The derived \<open>Ord\<close>: the order of declaration.\<close>

fun lane_job_index :: "lane_job \<Rightarrow> nat" where
  "lane_job_index Compaction = 0"
| "lane_job_index Consolidation = 1"
| "lane_job_index Titling = 2"
| "lane_job_index LongTaskStep = 3"
| "lane_job_index ProactiveReview = 4"
| "lane_job_index SummaryRefresh = 5"
| "lane_job_index MemoryExtraction = 6"
| "lane_job_index SuggestionGeneration = 7"

lemma lane_job_index_inj: "lane_job_index a = lane_job_index b \<longleftrightarrow> a = b"
  by (cases a; cases b) simp_all

instantiation lane_job :: linorder
begin

definition less_eq_lane_job :: "lane_job \<Rightarrow> lane_job \<Rightarrow> bool" where
  "less_eq_lane_job a b \<longleftrightarrow> lane_job_index a \<le> lane_job_index b"

definition less_lane_job :: "lane_job \<Rightarrow> lane_job \<Rightarrow> bool" where
  "less_lane_job a b \<longleftrightarrow> lane_job_index a < lane_job_index b"

instance
  by standard (auto simp: less_eq_lane_job_def less_lane_job_def lane_job_index_inj [symmetric])

end

section \<open>The shared gate\<close>

record gate_inputs =
  gi_enabled :: bool
  gi_saw_activity :: bool
  gi_idle_for :: duration
  gi_idle_threshold :: duration
  gi_since_last_run :: "duration option"
  gi_interval_floor :: duration

datatype skip_reason = Disabled | NoActivitySinceStart | StillActive | IntervalFloor

datatype gate_decision = GateRun | GateSkip skip_reason

definition should_run :: "gate_inputs \<Rightarrow> gate_decision" where
  "should_run i =
     (if \<not> gi_enabled i then GateSkip Disabled
      else if \<not> gi_saw_activity i then GateSkip NoActivitySinceStart
      else if gi_idle_for i < gi_idle_threshold i then GateSkip StillActive
      else (case gi_since_last_run i of
              Some since \<Rightarrow> if since < gi_interval_floor i then GateSkip IntervalFloor else GateRun
            | None \<Rightarrow> GateRun))"

definition saw_activity_since_start ::
  "timestamp \<Rightarrow> timestamp \<Rightarrow> timestamp \<Rightarrow> timestamp option \<Rightarrow> bool" where
  "saw_activity_since_start started_at in_process_at started_at_utc db_activity \<longleftrightarrow>
     in_process_at > started_at \<or>
     (case db_activity of None \<Rightarrow> False | Some at \<Rightarrow> at > started_at_utc)"

text \<open>The first argument is \<open>in_process_at.elapsed()\<close>.\<close>

definition combined_idle_for :: "duration \<Rightarrow> timestamp option \<Rightarrow> timestamp \<Rightarrow> duration" where
  "combined_idle_for in_process_idle db_activity now_utc =
     (case db_activity of
        None \<Rightarrow> in_process_idle
      | Some at \<Rightarrow>
          if 0 \<le> now_utc - at then min in_process_idle (nat (now_utc - at)) else in_process_idle)"

definition interval_floor_from_hours :: "u32 \<Rightarrow> duration" where
  "interval_floor_from_hours hours = from_secs (unat (max hours 1) * 3600)"

section \<open>The choice\<close>

record job_state =
  js_job :: lane_job
  js_enabled :: bool
  js_since_last_run :: "duration option"
  js_interval_floor :: duration
  js_idle_threshold :: duration
  js_exempt :: bool

record lane_inputs =
  li_saw_activity :: bool
  li_idle_for :: duration
  li_jobs :: "job_state list"
  li_asking :: "lane_job option"

datatype lane_decision = RunJob lane_job | LaneIdle skip_reason

fun decided_job :: "lane_decision \<Rightarrow> lane_job option" where
  "decided_job (RunJob j) = Some j"
| "decided_job (LaneIdle _) = None"

definition CHORE_PATIENCE :: duration where "CHORE_PATIENCE = from_secs (30 * 60)"

datatype ordering = Less | Equal | Greater

definition starved :: "job_state \<Rightarrow> bool" where
  "starved s = (case js_since_last_run s of None \<Rightarrow> False | Some d \<Rightarrow> d \<ge> CHORE_PATIENCE)"

definition precedence :: "job_state \<Rightarrow> job_state \<Rightarrow> ordering" where
  "precedence a b =
     (case (js_job a, js_job b) of
        (Compaction, Compaction) \<Rightarrow> Equal
      | (Compaction, _) \<Rightarrow> Less
      | (_, Compaction) \<Rightarrow> Greater
      | (LongTaskStep, LongTaskStep) \<Rightarrow> Equal
      | (LongTaskStep, _) \<Rightarrow> if starved b then Greater else Less
      | (_, LongTaskStep) \<Rightarrow> if starved a then Less else Greater
      | _ \<Rightarrow> Equal)"

fun skip_rank :: "skip_reason \<Rightarrow> nat" where
  "skip_rank NoActivitySinceStart = 3"
| "skip_rank StillActive = 2"
| "skip_rank IntervalFloor = 1"
| "skip_rank Disabled = 0"

definition most_informative :: "skip_reason \<Rightarrow> skip_reason \<Rightarrow> skip_reason" where
  "most_informative a b = (if skip_rank b > skip_rank a then b else a)"

definition job_gate :: "lane_inputs \<Rightarrow> job_state \<Rightarrow> gate_decision" where
  "job_gate i s =
     should_run \<lparr>gi_enabled = js_enabled s, gi_saw_activity = li_saw_activity i \<or> js_exempt s,
       gi_idle_for = li_idle_for i, gi_idle_threshold = js_idle_threshold s,
       gi_since_last_run = js_since_last_run s, gi_interval_floor = js_interval_floor s\<rparr>"

definition waited :: "job_state \<Rightarrow> duration" where
  "waited s = (case js_since_last_run s of None \<Rightarrow> DURATION_MAX | Some d \<Rightarrow> d)"

definition wins :: "lane_inputs \<Rightarrow> job_state \<Rightarrow> (job_state \<times> duration) option \<Rightarrow> bool" where
  "wins i s best =
     (case best of
        None \<Rightarrow> True
      | Some (leader, best_waited) \<Rightarrow>
          (case precedence s leader of
             Less \<Rightarrow> True
           | Greater \<Rightarrow> False
           | Equal \<Rightarrow> waited s > best_waited \<or>
                      waited s = best_waited \<and> li_asking i = Some (js_job s)))"

definition consider_job ::
  "lane_inputs \<Rightarrow> (job_state \<times> duration) option \<times> skip_reason option \<Rightarrow> job_state \<Rightarrow>
     (job_state \<times> duration) option \<times> skip_reason option" where
  "consider_job i acc s =
     (case acc of (best, blocked) \<Rightarrow>
        (case job_gate i s of
           GateSkip reason \<Rightarrow>
             (best, Some (case blocked of
                            None \<Rightarrow> reason | Some existing \<Rightarrow> most_informative existing reason))
         | GateRun \<Rightarrow> (if wins i s best then Some (s, waited s) else best, blocked)))"

definition select_next :: "lane_inputs \<Rightarrow> lane_decision" where
  "select_next i =
     (case foldl (consider_job i) (None, None) (li_jobs i) of
        (Some (s, _), _) \<Rightarrow> RunJob (js_job s)
      | (None, blocked) \<Rightarrow> LaneIdle (case blocked of None \<Rightarrow> Disabled | Some r \<Rightarrow> r))"

section \<open>Compaction and embedding\<close>

definition COMPACTION_QUIET_FOR_ITS_TURN :: duration where
  "COMPACTION_QUIET_FOR_ITS_TURN = from_secs 5"
definition COMPACTION_QUIET :: duration where "COMPACTION_QUIET = from_secs 30"
definition COMPACTION_QUIET_FOR_ANOTHER :: duration where
  "COMPACTION_QUIET_FOR_ANOTHER = from_secs 120"
definition COMPACTION_QUIET_MAX_DOUBLINGS :: u32 where "COMPACTION_QUIET_MAX_DOUBLINGS = 4"

definition compaction_quiet :: "bool \<Rightarrow> bool \<Rightarrow> u32 \<Rightarrow> duration" where
  "compaction_quiet in_use its_turn_compacts times_stopped =
     (let base =
        (if in_use then
           (if its_turn_compacts then COMPACTION_QUIET_FOR_ITS_TURN else COMPACTION_QUIET)
         else COMPACTION_QUIET_FOR_ANOTHER)
      in base * 2 ^ unat (min times_stopped COMPACTION_QUIET_MAX_DOUBLINGS))"

record embed_gate =
  eg_turn_running :: bool
  eg_holder :: "lane_job option"
  eg_lane :: lane_inputs

definition holds_off_embedding :: "lane_job \<Rightarrow> bool" where
  "holds_off_embedding j \<longleftrightarrow> j = Compaction \<or> j = LongTaskStep"

definition embedding_may_run :: "embed_gate \<Rightarrow> bool" where
  "embedding_may_run g \<longleftrightarrow>
     \<not> (eg_turn_running g \<or>
        (case eg_holder g of None \<Rightarrow> False | Some j \<Rightarrow> holds_off_embedding j)) \<and>
     \<not> (case decided_job (select_next (eg_lane g)) of
          None \<Rightarrow> False | Some j \<Rightarrow> holds_off_embedding j)"

section \<open>Who is chosen\<close>

definition eligible :: "lane_inputs \<Rightarrow> job_state \<Rightarrow> bool" where
  "eligible i s \<longleftrightarrow> job_gate i s = GateRun"

definition chore :: "job_state \<Rightarrow> bool" where
  "chore s \<longleftrightarrow> js_job s \<noteq> Compaction \<and> js_job s \<noteq> LongTaskStep"

definition best_of ::
  "lane_inputs \<Rightarrow> (job_state \<times> duration) option \<Rightarrow> job_state \<Rightarrow> (job_state \<times> duration) option" where
  "best_of i best s = (if wins i s best then Some (s, waited s) else best)"

lemma eligible_iff:
  "eligible i s \<longleftrightarrow>
     js_enabled s \<and> (li_saw_activity i \<or> js_exempt s) \<and> js_idle_threshold s \<le> li_idle_for i \<and>
     (case js_since_last_run s of None \<Rightarrow> True | Some since \<Rightarrow> js_interval_floor s \<le> since)"
  by (auto simp: eligible_def job_gate_def should_run_def split: option.splits)

lemma fold_best:
  "fst (foldl (consider_job i) (best, blocked) jobs) =
     foldl (best_of i) best (filter (eligible i) jobs)"
proof (induction jobs arbitrary: best blocked)
  case (Cons s jobs)
  show ?case
  proof (cases "job_gate i s")
    case GateRun
    with Cons show ?thesis by (simp add: consider_job_def best_of_def eligible_def)
  next
    case (GateSkip r)
    with Cons show ?thesis by (simp add: consider_job_def eligible_def)
  qed
qed simp

lemma select_next_best:
  "decided_job (select_next i) =
     map_option (\<lambda>(s, _). js_job s) (foldl (best_of i) None (filter (eligible i) (li_jobs i)))"
  using fold_best [of i None None "li_jobs i"]
  by (cases "foldl (consider_job i) (None, None) (li_jobs i)")
     (auto simp: select_next_def split: option.splits)

lemma precedence_cases:
  "js_job a = Compaction \<Longrightarrow> js_job b = Compaction \<Longrightarrow> precedence a b = Equal"
  "js_job a = Compaction \<Longrightarrow> js_job b \<noteq> Compaction \<Longrightarrow> precedence a b = Less"
  "js_job a \<noteq> Compaction \<Longrightarrow> js_job b = Compaction \<Longrightarrow> precedence a b = Greater"
  "js_job a = LongTaskStep \<Longrightarrow> js_job b = LongTaskStep \<Longrightarrow> precedence a b = Equal"
  "js_job a = LongTaskStep \<Longrightarrow> chore b \<Longrightarrow> precedence a b = (if starved b then Greater else Less)"
  "chore a \<Longrightarrow> js_job b = LongTaskStep \<Longrightarrow> precedence a b = (if starved a then Less else Greater)"
  "chore a \<Longrightarrow> chore b \<Longrightarrow> precedence a b = Equal"
  by (cases "js_job a"; cases "js_job b"; simp add: precedence_def chore_def)+

abbreviation best_in :: "lane_inputs \<Rightarrow> job_state list \<Rightarrow> (job_state \<times> duration) option" where
  "best_in i es \<equiv> foldl (best_of i) None es"

lemma best_in_member: "es \<noteq> [] \<Longrightarrow> \<exists>s. best_in i es = Some (s, waited s) \<and> s \<in> set es"
proof (induction es rule: rev_induct)
  case (snoc s es)
  then show ?case by (cases "es = []") (auto simp: best_of_def wins_def)
qed simp

text \<open>How one more job changes the leader.\<close>

lemma best_in_snoc:
  assumes "best_in i es = Some (b, waited b)"
  shows "precedence s b = Less \<Longrightarrow> best_in i (es @ [s]) = Some (s, waited s)"
    "precedence s b = Greater \<Longrightarrow> best_in i (es @ [s]) = Some (b, waited b)"
    "precedence s b = Equal \<Longrightarrow>
       \<exists>r \<in> {s, b}. best_in i (es @ [s]) = Some (r, waited r) \<and> waited s \<le> waited r \<and> waited b \<le> waited r"
  using assms by (auto simp: best_of_def wins_def)

lemma kinds: "js_job s = Compaction \<or> js_job s = LongTaskStep \<or> chore s"
  by (auto simp: chore_def)

lemma best_in_compaction:
  assumes "c \<in> set es" "js_job c = Compaction"
  shows "\<exists>s. best_in i es = Some (s, waited s) \<and> js_job s = Compaction"
  using assms(1)
proof (induction es rule: rev_induct)
  case (snoc s es)
  show ?case
  proof (cases "c \<in> set es")
    case True
    with snoc obtain b where b: "best_in i es = Some (b, waited b)" "js_job b = Compaction" by blast
    show ?thesis
    proof (cases "js_job s = Compaction")
      case True
      with b show ?thesis using best_in_snoc(3) [OF b(1), of s] precedence_cases(1) by blast
    next
      case False
      with b show ?thesis using best_in_snoc(2) [OF b(1), of s] precedence_cases(3) by blast
    qed
  next
    case False
    with snoc.prems assms(2) have s: "js_job s = Compaction" by simp
    show ?thesis
    proof (cases "es = []")
      case True
      with s show ?thesis by (simp add: best_of_def wins_def)
    next
      case False
      then obtain b where b: "best_in i es = Some (b, waited b)" using best_in_member by blast
      show ?thesis
        using s best_in_snoc(1,3) [OF b, of s] precedence_cases(1,2) [of s b]
        by (cases "js_job b = Compaction") blast+
    qed
  qed
qed simp

lemma best_in_chores:
  assumes "es \<noteq> []" "\<forall>x \<in> set es. chore x"
  shows "\<exists>s. best_in i es = Some (s, waited s) \<and> chore s \<and> (\<forall>x \<in> set es. waited x \<le> waited s)"
  using assms
proof (induction es rule: rev_induct)
  case (snoc s es)
  show ?case
  proof (cases "es = []")
    case True
    with snoc show ?thesis by (simp add: best_of_def wins_def)
  next
    case False
    with snoc obtain b where b: "best_in i es = Some (b, waited b)" "chore b"
      "\<forall>x \<in> set es. waited x \<le> waited b" by auto
    have "precedence s b = Equal" using snoc.prems b(2) precedence_cases(7) by simp
    from best_in_snoc(3) [OF b(1) this] b(2,3) snoc.prems(2) show ?thesis
      by (auto intro: order_trans)
  qed
qed simp

lemma best_in_task:
  assumes "\<forall>x \<in> set es. js_job x \<noteq> Compaction" "\<forall>x \<in> set es. chore x \<longrightarrow> \<not> starved x"
    "t \<in> set es" "js_job t = LongTaskStep"
  shows "\<exists>s. best_in i es = Some (s, waited s) \<and> js_job s = LongTaskStep"
  using assms(1-3)
proof (induction es rule: rev_induct)
  case (snoc s es)
  show ?case
  proof (cases "es = []")
    case True
    with snoc.prems assms(4) show ?thesis by (simp add: best_of_def wins_def)
  next
    case False
    then obtain b where b: "best_in i es = Some (b, waited b)" "b \<in> set es"
      using best_in_member by blast
    show ?thesis
    proof (cases "js_job s = LongTaskStep")
      case True
      show ?thesis
      proof (cases "js_job b = LongTaskStep")
        case True
        with best_in_snoc(3) [OF b(1) precedence_cases(4) [OF \<open>js_job s = LongTaskStep\<close> True]]
        show ?thesis using \<open>js_job s = LongTaskStep\<close> by auto
      next
        case other: False
        then have "chore b" using b(2) snoc.prems(1) by (simp add: chore_def)
        then have "precedence s b = Less"
          using precedence_cases(5) [OF True, of b] b(2) snoc.prems(2) by simp
        from best_in_snoc(1) [OF b(1) this] True show ?thesis by simp
      qed
    next
      case False
      then have s: "chore s" "\<not> starved s" using snoc.prems by (simp_all add: chore_def)
      have "t \<in> set es" using snoc.prems(3) False assms(4) by auto
      with snoc.IH snoc.prems obtain b' where b': "best_in i es = Some (b', waited b')"
        "js_job b' = LongTaskStep" by auto
      have "precedence s b' = Greater" using precedence_cases(6) [OF s(1) b'(2)] s(2) by simp
      from best_in_snoc(2) [OF b'(1) this] b'(2) show ?thesis by simp
    qed
  qed
qed simp

lemma starved_waited: "starved s \<Longrightarrow> CHORE_PATIENCE \<le> waited s"
  by (auto simp: starved_def waited_def split: option.splits)

lemma waited_starved:
  "js_since_last_run s \<noteq> None \<Longrightarrow> starved s \<longleftrightarrow> CHORE_PATIENCE \<le> waited s"
  by (auto simp: starved_def waited_def)

lemma best_in_starved:
  assumes "\<forall>x \<in> set es. js_job x \<noteq> Compaction"
    "\<forall>x \<in> set es. chore x \<longrightarrow> js_since_last_run x \<noteq> None"
    "\<exists>x \<in> set es. chore x \<and> starved x"
  shows "\<exists>s. best_in i es = Some (s, waited s) \<and> chore s \<and>
    (\<forall>y \<in> set es. chore y \<longrightarrow> waited y \<le> waited s)"
  using assms
proof (induction es rule: rev_induct)
  case (snoc s es)
  have known: "\<forall>y \<in> set es. chore y \<longrightarrow> js_since_last_run y \<noteq> None"
    "\<forall>y \<in> set es. js_job y \<noteq> Compaction" using snoc.prems by simp_all
  show ?case
  proof (cases "\<exists>x \<in> set es. chore x \<and> starved x")
    case True
    with snoc.IH known obtain b where b: "best_in i es = Some (b, waited b)" "chore b"
      "\<forall>y \<in> set es. chore y \<longrightarrow> waited y \<le> waited b" by blast
    show ?thesis
    proof (cases "js_job s = LongTaskStep")
      case task: True
      have "b \<in> set es" using best_in_member [of es i] True b(1) by fastforce
      with known(1) b(2) have since: "js_since_last_run b \<noteq> None" by blast
      have "CHORE_PATIENCE \<le> waited b"
        using b(3) True starved_waited order_trans by blast
      with since have "starved b" by (simp add: waited_starved)
      then have "precedence s b = Greater" using precedence_cases(5) [OF task b(2)] by simp
      from best_in_snoc(2) [OF b(1) this] b(2,3) task show ?thesis by (auto simp: chore_def)
    next
      case False
      then have s: "chore s" using snoc.prems(1) by (simp add: chore_def)
      from best_in_snoc(3) [OF b(1) precedence_cases(7) [OF s b(2)]] b(2,3) s show ?thesis
        by (auto intro: order_trans)
    qed
  next
    case quiet: False
    with snoc.prems(3) have s: "chore s" "starved s" by auto
    have below: "waited y \<le> waited s" if "y \<in> set es" "chore y" for y
    proof -
      have "\<not> CHORE_PATIENCE \<le> waited y"
        using that quiet known(1) waited_starved by blast
      with starved_waited [OF s(2)] show ?thesis by simp
    qed
    show ?thesis
    proof (cases "\<exists>t \<in> set es. js_job t = LongTaskStep")
      case True
      with best_in_task [OF known(2), of _ i] quiet obtain b where
        b: "best_in i es = Some (b, waited b)" "js_job b = LongTaskStep" by blast
      have "precedence s b = Less" using precedence_cases(6) [OF s(1) b(2)] s(2) by simp
      from best_in_snoc(1) [OF b(1) this] s(1) below show ?thesis by auto
    next
      case False
      with known(2) have chores: "\<forall>y \<in> set es. chore y" by (simp add: chore_def)
      then have "\<forall>y \<in> set (es @ [s]). chore y" using s(1) by simp
      from best_in_chores [OF _ this, of i] show ?thesis by auto
    qed
  qed
qed simp

section \<open>Properties\<close>

definition runnable :: "lane_inputs \<Rightarrow> job_state set" where
  "runnable i = {s \<in> set (li_jobs i). eligible i s}"

text \<open>
  The lane serves who waits. When some job may run it runs one, and only one that may: enabled,
  past the startup guard, quiet for long enough and past its floor. A compaction goes before all. A
  long task goes before the chores while none of them has waited its patience out. With no long task,
  or once a chore has waited its patience out and every chore that may run has run before, the chore
  that waited longest runs.
\<close>

theorem lane_serves_the_waiting:
  assumes "runnable i \<noteq> {}"
  shows "\<exists>s \<in> runnable i. select_next i = RunJob (js_job s) \<and>
    (if \<exists>x \<in> runnable i. js_job x = Compaction then js_job s = Compaction
     else if \<exists>x \<in> runnable i. js_job x = LongTaskStep then
       (if \<exists>x \<in> runnable i. chore x \<and> starved x then
          (\<exists>x \<in> runnable i. chore x \<and> js_since_last_run x = None) \<or>
          chore s \<and> (\<forall>y \<in> runnable i. chore y \<longrightarrow> waited y \<le> waited s)
        else js_job s = LongTaskStep)
     else \<forall>y \<in> runnable i. waited y \<le> waited s)"
proof -
  let ?es = "filter (eligible i) (li_jobs i)"
  have es: "set ?es = runnable i" by (auto simp: runnable_def)
  with assms have "?es \<noteq> []" by (metis empty_set)
  then obtain s where s: "best_in i ?es = Some (s, waited s)" "s \<in> runnable i"
    using best_in_member es by blast
  have run: "select_next i = RunJob (js_job s)"
    using select_next_best [of i] s(1) by (cases "select_next i") simp_all
  let ?compacts = "\<exists>x \<in> runnable i. js_job x = Compaction"
  let ?works = "\<exists>x \<in> runnable i. js_job x = LongTaskStep"
  let ?starves = "\<exists>x \<in> runnable i. chore x \<and> starved x"
  have compaction: "js_job s = Compaction" if ?compacts
    using that best_in_compaction [of _ ?es i] s(1) unfolding es by auto
  have task: "js_job s = LongTaskStep" if "\<not> ?compacts" ?works "\<not> ?starves"
    using that best_in_task [of ?es _ i] s(1) unfolding es by auto
  have chore: "(\<exists>x \<in> runnable i. chore x \<and> js_since_last_run x = None) \<or>
      chore s \<and> (\<forall>y \<in> runnable i. chore y \<longrightarrow> waited y \<le> waited s)" if "\<not> ?compacts" ?starves
    using that best_in_starved [of ?es i] s(1) unfolding es by auto
  have all: "\<forall>y \<in> runnable i. waited y \<le> waited s" if "\<not> ?compacts" "\<not> ?works"
  proof -
    have "\<forall>x \<in> set ?es. chore x" using that unfolding es by (simp add: chore_def)
    from best_in_chores [OF \<open>?es \<noteq> []\<close> this, of i] s(1) show ?thesis unfolding es by auto
  qed
  show ?thesis
    by (rule bexI [OF _ s(2)], rule conjI [OF run])
       (cases ?compacts; cases ?works; cases ?starves; simp only: if_True if_False;
        rule compaction task chore all; assumption)
qed

text \<open>A pond whose chores have all run: the long task waits for the one that waited longest.\<close>

definition example_job :: "lane_job \<Rightarrow> duration option \<Rightarrow> job_state" where
  "example_job j since =
     \<lparr>js_job = j, js_enabled = True, js_since_last_run = since, js_interval_floor = 0,
      js_idle_threshold = 0, js_exempt = False\<rparr>"

theorem lane_serves_the_waiting_witness:
  "\<exists>i. runnable i \<noteq> {} \<and> select_next i = RunJob Titling"
proof -
  let ?i = "\<lparr>li_saw_activity = True, li_idle_for = 0,
      li_jobs = [example_job Consolidation (Some (from_secs 60)),
        example_job Titling (Some CHORE_PATIENCE), example_job LongTaskStep (Some 5)],
      li_asking = None\<rparr>"
  have run: "runnable ?i = {example_job Consolidation (Some (from_secs 60)),
        example_job Titling (Some CHORE_PATIENCE), example_job LongTaskStep (Some 5)}"
    by (auto simp: runnable_def eligible_iff example_job_def)
  have "select_next ?i = RunJob Titling"
    using lane_serves_the_waiting [of ?i, unfolded run]
    by (auto simp: example_job_def chore_def starved_def waited_def CHORE_PATIENCE_def from_secs_def)
  with run show ?thesis by (intro exI [of _ ?i]) simp
qed



end
