(* ===== verification/Inference_Slot.thy ===== *)
theory Inference_Slot
  imports Inference_Lane
begin

text \<open>
  The single slot of background inference: \<open>InferenceLane\<close> with \<open>claim\<close>, \<open>acquire\<close>, the drop of a
  \<open>LaneSlot\<close>, \<open>preempt\<close>, \<open>wake\<close>, the gate of the embedding slot and the status \<open>snapshot\<close>
  (\<open>pond-server/src/inference_lane_runner.rs\<close>, \<open>pond-core/src/user_data/ports/lane_control.rs\<close>). The
  probes for a running turn and a person in view, and the clocks, are arguments. An instant and a
  wall-clock time count nanoseconds. A \<open>Notify\<close> keeps one permit. A cancellation token is a number,
  fresh for each slot, and the cancelled ones a list. Taking and dropping the slot write several
  locks while its guard is held; each is one step here, as no other taker can fall between.
\<close>

record registration =
  reg_enabled :: bool
  reg_interval_floor :: duration
  reg_idle_threshold :: duration
  reg_exempt :: bool

record cadence =
  cad_interval_floor :: duration
  cad_idle_threshold :: duration
  cad_exempt :: bool

record observation =
  obs_at :: timestamp
  obs_saw_activity :: bool
  obs_idle_for :: duration

record tally =
  ta_granted :: u32
  ta_nudged :: u32
  ta_slot_busy :: u32
  ta_disabled :: u32
  ta_no_activity :: u32
  ta_still_active :: u32
  ta_interval_floor :: u32
  ta_lost_to :: "lane_job \<Rightarrow> u32"

definition no_tally :: tally where
  "no_tally = \<lparr>ta_granted = 0, ta_nudged = 0, ta_slot_busy = 0, ta_disabled = 0,
     ta_no_activity = 0, ta_still_active = 0, ta_interval_floor = 0, ta_lost_to = (\<lambda>_. 0)\<rparr>"

record inference_lane =
  il_slot_taken :: bool
  il_last_run :: "lane_job \<Rightarrow> timestamp option"
  il_runs :: "(lane_job \<times> timestamp) list option"
  il_holder :: "(lane_job \<times> timestamp) option"
  il_registry :: "lane_job \<Rightarrow> registration option"
  il_present :: "lane_job \<Rightarrow> bool"
  il_by_hand :: "lane_job \<Rightarrow> bool"
  il_scheduled :: "lane_job \<Rightarrow> bool"
  il_observed :: "observation option"
  il_tallies :: "lane_job \<Rightarrow> tally"
  il_embedding_since :: "timestamp option"
  il_active_cancel :: "nat option"
  il_tokens :: nat
  il_cancelled :: "nat list"

definition restored ::
  "(lane_job \<Rightarrow> timestamp option) \<Rightarrow> (lane_job \<times> timestamp) list option \<Rightarrow> inference_lane" where
  "restored last_run runs =
     \<lparr>il_slot_taken = False, il_last_run = last_run, il_runs = runs, il_holder = None,
      il_registry = (\<lambda>_. None), il_present = (\<lambda>_. False), il_by_hand = (\<lambda>_. False),
      il_scheduled = (\<lambda>_. False), il_observed = None, il_tallies = (\<lambda>_. no_tally),
      il_embedding_since = None, il_active_cancel = None, il_tokens = 0, il_cancelled = []\<rparr>"

text \<open>A job that holds the slot: the guard, with its cancellation token.\<close>

record lane_slot =
  ls_job :: lane_job
  ls_token :: nat

definition slot_cancelled :: "inference_lane \<Rightarrow> lane_slot \<Rightarrow> bool" where
  "slot_cancelled l s \<longleftrightarrow> ls_token s \<in> set (il_cancelled l)"

section \<open>Asking\<close>

definition elapsed_since :: "timestamp \<Rightarrow> timestamp \<Rightarrow> duration" where
  "elapsed_since now earlier = nat (now - earlier)"

text \<open>The registered jobs, sorted by the order of declaration.\<close>

definition job_states ::
  "(lane_job \<Rightarrow> registration option) \<Rightarrow> (lane_job \<Rightarrow> timestamp option) \<Rightarrow> timestamp \<Rightarrow> job_state list"
  where
  "job_states registry last_run now =
     List.map_filter (\<lambda>j. map_option (\<lambda>reg.
       \<lparr>js_job = j, js_enabled = reg_enabled reg,
        js_since_last_run = map_option (elapsed_since now) (last_run j),
        js_interval_floor = reg_interval_floor reg, js_idle_threshold = reg_idle_threshold reg,
        js_exempt = reg_exempt reg\<rparr>) (registry j)) all_lane_jobs"

definition tallied :: "inference_lane \<Rightarrow> lane_job \<Rightarrow> (tally \<Rightarrow> tally) \<Rightarrow> inference_lane" where
  "tallied l j f = l\<lparr>il_tallies := (il_tallies l)(j := f (il_tallies l j))\<rparr>"

definition claim :: "inference_lane \<Rightarrow> lane_job \<Rightarrow> inference_lane" where
  "claim l j = l\<lparr>il_present := (il_present l)(j := True)\<rparr>"

definition observed_now :: "inference_lane \<Rightarrow> timestamp \<Rightarrow> bool \<times> duration" where
  "observed_now l now =
     (case il_observed l of
        Some ob \<Rightarrow> (obs_saw_activity ob, obs_idle_for ob + elapsed_since now (obs_at ob))
      | None \<Rightarrow> (False, 0))"

record ask =
  ask_job :: lane_job
  ask_enabled :: bool
  ask_cadence :: cadence
  ask_waive :: bool
  ask_saw_activity :: bool
  ask_idle_for :: duration
  ask_turn_running :: bool
  ask_person_present :: bool
  ask_at :: timestamp
  ask_at_utc :: timestamp

definition quiet_for :: "ask \<Rightarrow> duration" where
  "quiet_for a =
     (if ask_turn_running a \<or>
         ask_job a \<noteq> LongTaskStep \<and> ask_job a \<noteq> Compaction \<and> ask_person_present a
      then 0 else ask_idle_for a)"

definition registered :: "inference_lane \<Rightarrow> ask \<Rightarrow> inference_lane" where
  "registered l a =
     l\<lparr>il_registry := (il_registry l)(ask_job a \<mapsto>
         \<lparr>reg_enabled = ask_enabled a, reg_interval_floor = cad_interval_floor (ask_cadence a),
          reg_idle_threshold = cad_idle_threshold (ask_cadence a),
          reg_exempt = cad_exempt (ask_cadence a)\<rparr>),
       il_observed := Some \<lparr>obs_at = ask_at a, obs_saw_activity = ask_saw_activity a,
         obs_idle_for = quiet_for a\<rparr>\<rparr>"

definition waived :: "ask \<Rightarrow> job_state \<Rightarrow> job_state" where
  "waived a s =
     (if ask_waive a \<and> js_job s = ask_job a
      then s\<lparr>js_interval_floor := 0, js_idle_threshold := 0, js_exempt := True\<rparr> else s)"

definition ask_inputs :: "inference_lane \<Rightarrow> ask \<Rightarrow> lane_inputs" where
  "ask_inputs l a =
     \<lparr>li_saw_activity = ask_saw_activity a, li_idle_for = quiet_for a,
      li_jobs = map (waived a) (job_states (il_registry l) (il_last_run l) (ask_at_utc a)),
      li_asking = Some (ask_job a)\<rparr>"

fun refused_tally :: "skip_reason \<Rightarrow> tally \<Rightarrow> tally" where
  "refused_tally Disabled t = t\<lparr>ta_disabled := ta_disabled t + 1\<rparr>"
| "refused_tally NoActivitySinceStart t = t\<lparr>ta_no_activity := ta_no_activity t + 1\<rparr>"
| "refused_tally StillActive t = t\<lparr>ta_still_active := ta_still_active t + 1\<rparr>"
| "refused_tally IntervalFloor t = t\<lparr>ta_interval_floor := ta_interval_floor t + 1\<rparr>"

definition own_verdict :: "lane_inputs \<Rightarrow> lane_job \<Rightarrow> gate_decision option" where
  "own_verdict i j = map_option (job_gate i) (find (\<lambda>s. js_job s = j) (li_jobs i))"

definition take_slot :: "inference_lane \<Rightarrow> ask \<Rightarrow> lane_slot option \<times> inference_lane" where
  "take_slot l a =
     (let j = ask_job a in
      if \<not> il_slot_taken l then
        (Some \<lparr>ls_job = j, ls_token = il_tokens l\<rparr>,
         (tallied l j (\<lambda>t. t\<lparr>ta_granted := ta_granted t + 1\<rparr>))
           \<lparr>il_slot_taken := True, il_holder := Some (j, ask_at a),
            il_active_cancel := Some (il_tokens l), il_tokens := il_tokens l + 1\<rparr>)
      else (None, tallied l j (\<lambda>t. t\<lparr>ta_slot_busy := ta_slot_busy t + 1\<rparr>)))"

text \<open>
  \<open>acquire\<close> registers the job, then decides under the registry's lock, then tries the slot; between
  the three another job's call may run.
\<close>

definition decide :: "inference_lane \<Rightarrow> ask \<Rightarrow> bool \<times> inference_lane" where
  "decide l1 a =
     (let j = ask_job a;
          i = ask_inputs l1 a;
          l2 = (case own_verdict i j of
                  Some (GateSkip reason) \<Rightarrow> tallied l1 j (refused_tally reason)
                | _ \<Rightarrow> l1)
      in case select_next i of
           RunJob winner \<Rightarrow>
             if winner = j then (True, l2)
             else (False,
                   tallied
                     (tallied (l2\<lparr>il_scheduled := (il_scheduled l2)(winner := True)\<rparr>) winner
                        (\<lambda>t. t\<lparr>ta_nudged := ta_nudged t + 1\<rparr>))
                     j (\<lambda>t. t\<lparr>ta_lost_to := (ta_lost_to t)(winner := ta_lost_to t winner + 1)\<rparr>))
         | LaneIdle _ \<Rightarrow> (False, l2))"

definition acquire :: "inference_lane \<Rightarrow> ask \<Rightarrow> lane_slot option \<times> inference_lane" where
  "acquire l a =
     (case decide (registered l a) a of
        (False, l') \<Rightarrow> (None, l')
      | (True, l') \<Rightarrow> take_slot l' a)"

section \<open>Giving the slot back\<close>

definition drop_slot :: "inference_lane \<Rightarrow> lane_slot \<Rightarrow> timestamp \<Rightarrow> inference_lane" where
  "drop_slot l s at =
     l\<lparr>il_active_cancel := None,
       il_last_run := (il_last_run l)(ls_job s \<mapsto> at),
       il_runs := map_option (\<lambda>log. log @ [(ls_job s, at)]) (il_runs l),
       il_holder := None,
       il_slot_taken := False\<rparr>"

definition preempt :: "inference_lane \<Rightarrow> inference_lane" where
  "preempt l =
     (case il_active_cancel l of
        Some token \<Rightarrow> l\<lparr>il_cancelled := token # il_cancelled l\<rparr>
      | None \<Rightarrow> l)"

datatype wake_outcome = Woken | NotPresent

definition wake :: "inference_lane \<Rightarrow> lane_job \<Rightarrow> wake_outcome \<times> inference_lane" where
  "wake l j =
     (if \<not> il_present l j then (NotPresent, l)
      else (Woken, l\<lparr>il_by_hand := (il_by_hand l)(j := True)\<rparr>))"

datatype tick = Poll | HandAsked | Scheduled

definition tick_waives :: "tick \<Rightarrow> bool" where
  "tick_waives t \<longleftrightarrow> t = HandAsked"

section \<open>Embedding and the status\<close>

definition lane_embedding_may_run :: "inference_lane \<Rightarrow> bool \<Rightarrow> timestamp \<Rightarrow> timestamp \<Rightarrow> bool" where
  "lane_embedding_may_run l turn_running now now_utc =
     (case observed_now l now of (saw, idle) \<Rightarrow>
        embedding_may_run
          \<lparr>eg_turn_running = turn_running, eg_holder = map_option fst (il_holder l),
           eg_lane = \<lparr>li_saw_activity = saw, li_idle_for = idle,
             li_jobs = job_states (il_registry l) (il_last_run l) now_utc, li_asking = None\<rparr>\<rparr>)"

definition embedding_slot_running :: "inference_lane \<Rightarrow> timestamp \<Rightarrow> inference_lane" where
  "embedding_slot_running l now =
     l\<lparr>il_embedding_since := (case il_embedding_since l of Some t \<Rightarrow> Some t | None \<Rightarrow> Some now)\<rparr>"

definition embedding_slot_dropped :: "inference_lane \<Rightarrow> inference_lane" where
  "embedding_slot_dropped l = l\<lparr>il_embedding_since := None\<rparr>"

record lane_job_history =
  jh_granted :: u32
  jh_nudged :: u32
  jh_slot_busy :: u32
  jh_refused :: "u32 list"
  jh_lost_to_total :: u32
  jh_lost_to_most :: "(lane_job \<times> u32) option"

record lane_job_status =
  st_job :: lane_job
  st_present :: bool
  st_registered :: bool
  st_enabled :: bool
  st_since_last_run_secs :: "nat option"
  st_interval_floor_secs :: nat
  st_idle_threshold_secs :: nat
  st_blocked_by :: "skip_reason option"
  st_history :: lane_job_history

record lane_snapshot =
  sn_jobs :: "lane_job_status list"
  sn_would_run :: "lane_job option"
  sn_idle_reason :: "skip_reason option"
  sn_idle_for_secs :: nat
  sn_saw_activity :: bool
  sn_slot_busy :: bool
  sn_running :: "lane_job option"
  sn_running_for_secs :: "nat option"
  sn_embedding_for_secs :: "nat option"

definition as_secs :: "duration \<Rightarrow> nat" where
  "as_secs d = d div 1000000000"

text \<open>\<open>max_by_key\<close> over the \<open>BTreeMap\<close> of losses: its entries by job, the last of the largest.\<close>

definition lost_to_entries :: "tally \<Rightarrow> (lane_job \<times> u32) list" where
  "lost_to_entries t =
     map (\<lambda>j. (j, ta_lost_to t j)) (filter (\<lambda>j. ta_lost_to t j \<noteq> 0) all_lane_jobs)"

definition lost_to_most :: "tally \<Rightarrow> (lane_job \<times> u32) option" where
  "lost_to_most t =
     foldl (\<lambda>best e. case best of None \<Rightarrow> Some e | Some b \<Rightarrow> if snd e < snd b then Some b else Some e)
       None (lost_to_entries t)"

definition history_of :: "tally \<Rightarrow> lane_job_history" where
  "history_of t =
     \<lparr>jh_granted = ta_granted t, jh_nudged = ta_nudged t, jh_slot_busy = ta_slot_busy t,
      jh_refused = [ta_disabled t, ta_no_activity t, ta_still_active t, ta_interval_floor t],
      jh_lost_to_total = sum_list (map snd (lost_to_entries t)),
      jh_lost_to_most = lost_to_most t\<rparr>"

definition status_of ::
  "inference_lane \<Rightarrow> lane_inputs \<Rightarrow> timestamp \<Rightarrow> lane_job \<Rightarrow> lane_job_status" where
  "status_of l i now_utc j =
     (let state = find (\<lambda>s. js_job s = j) (li_jobs i) in
      \<lparr>st_job = j, st_present = il_present l j, st_registered = (state \<noteq> None),
       st_enabled = (case state of None \<Rightarrow> False | Some s \<Rightarrow> js_enabled s),
       st_since_last_run_secs =
         map_option (\<lambda>t. as_secs (elapsed_since now_utc t)) (il_last_run l j),
       st_interval_floor_secs = (case state of None \<Rightarrow> 0 | Some s \<Rightarrow> as_secs (js_interval_floor s)),
       st_idle_threshold_secs = (case state of None \<Rightarrow> 0 | Some s \<Rightarrow> as_secs (js_idle_threshold s)),
       st_blocked_by =
         Option.bind state (\<lambda>s. case job_gate i s of GateRun \<Rightarrow> None | GateSkip r \<Rightarrow> Some r),
       st_history = history_of (il_tallies l j)\<rparr>)"

definition snapshot :: "inference_lane \<Rightarrow> timestamp \<Rightarrow> timestamp \<Rightarrow> lane_snapshot" where
  "snapshot l now now_utc =
     (case observed_now l now of (saw, idle) \<Rightarrow>
        let i = \<lparr>li_saw_activity = saw, li_idle_for = idle,
              li_jobs = job_states (il_registry l) (il_last_run l) now_utc, li_asking = None\<rparr>;
            decision = select_next i
        in \<lparr>sn_jobs = map (status_of l i now_utc) all_lane_jobs,
            sn_would_run = decided_job decision,
            sn_idle_reason = (case decision of LaneIdle r \<Rightarrow> Some r | RunJob _ \<Rightarrow> None),
            sn_idle_for_secs = as_secs idle, sn_saw_activity = saw,
            sn_slot_busy = (il_holder l \<noteq> None), sn_running = map_option fst (il_holder l),
            sn_running_for_secs =
              map_option (\<lambda>(_, since). as_secs (elapsed_since now since)) (il_holder l),
            sn_embedding_for_secs =
              map_option (\<lambda>since. as_secs (elapsed_since now since)) (il_embedding_since l)\<rparr>)"

section \<open>The lane at work\<close>

text \<open>
  The loops of the jobs and the household together: the lane, the asks that have registered, those
  that have won and not yet tried the slot, and the slots alive.
\<close>

record lane_world =
  lw_lane :: inference_lane
  lw_asking :: "ask list"
  lw_won :: "ask list"
  lw_live :: "lane_slot list"

inductive lane_step :: "lane_world \<Rightarrow> lane_world \<Rightarrow> bool" where
  ask: "lane_step w (w\<lparr>lw_lane := registered (lw_lane w) a, lw_asking := a # lw_asking w\<rparr>)"
| win: "a \<in> set (lw_asking w) \<Longrightarrow> decide (lw_lane w) a = (True, l) \<Longrightarrow>
    lane_step w (w\<lparr>lw_lane := l, lw_asking := remove1 a (lw_asking w), lw_won := a # lw_won w\<rparr>)"
| lose: "a \<in> set (lw_asking w) \<Longrightarrow> decide (lw_lane w) a = (False, l) \<Longrightarrow>
    lane_step w (w\<lparr>lw_lane := l, lw_asking := remove1 a (lw_asking w)\<rparr>)"
| take_it: "a \<in> set (lw_won w) \<Longrightarrow> take_slot (lw_lane w) a = (Some s, l) \<Longrightarrow>
    lane_step w (w\<lparr>lw_lane := l, lw_won := remove1 a (lw_won w), lw_live := s # lw_live w\<rparr>)"
| stand_down: "a \<in> set (lw_won w) \<Longrightarrow> take_slot (lw_lane w) a = (None, l) \<Longrightarrow>
    lane_step w (w\<lparr>lw_lane := l, lw_won := remove1 a (lw_won w)\<rparr>)"
| finish: "s \<in> set (lw_live w) \<Longrightarrow>
    lane_step w (w\<lparr>lw_lane := drop_slot (lw_lane w) s at, lw_live := remove1 s (lw_live w)\<rparr>)"
| user_turn: "lane_step w (w\<lparr>lw_lane := preempt (lw_lane w)\<rparr>)"
| run_now: "lane_step w (w\<lparr>lw_lane := snd (wake (lw_lane w) j)\<rparr>)"
| spawned: "lane_step w (w\<lparr>lw_lane := claim (lw_lane w) j\<rparr>)"
| embeds: "lane_step w (w\<lparr>lw_lane := embedding_slot_running (lw_lane w) now\<rparr>)"
| embedded: "lane_step w (w\<lparr>lw_lane := embedding_slot_dropped (lw_lane w)\<rparr>)"

definition lane_started :: "lane_world \<Rightarrow> bool" where
  "lane_started w \<longleftrightarrow>
     (\<exists>last_run runs. w = \<lparr>lw_lane = restored last_run runs, lw_asking = [], lw_won = [], lw_live = []\<rparr>)"

text \<open>The guard, the holder, the cancellation token and the live slots tell the same story.\<close>

definition slot_inv :: "lane_world \<Rightarrow> bool" where
  "slot_inv w \<longleftrightarrow>
     (case lw_live w of
        [] \<Rightarrow> \<not> il_slot_taken (lw_lane w) \<and> il_holder (lw_lane w) = None \<and>
              il_active_cancel (lw_lane w) = None
      | [s] \<Rightarrow> il_slot_taken (lw_lane w) \<and> map_option fst (il_holder (lw_lane w)) = Some (ls_job s) \<and>
               il_active_cancel (lw_lane w) = Some (ls_token s) \<and> ls_token s < il_tokens (lw_lane w)
      | _ \<Rightarrow> False) \<and>
     (\<forall>t \<in> set (il_cancelled (lw_lane w)). t < il_tokens (lw_lane w))"

text \<open>What only writes the bookkeeping leaves the slot's state alone.\<close>

definition same_slot :: "inference_lane \<Rightarrow> inference_lane \<Rightarrow> bool" where
  "same_slot l l' \<longleftrightarrow>
     il_slot_taken l' = il_slot_taken l \<and> il_holder l' = il_holder l \<and>
     il_active_cancel l' = il_active_cancel l \<and> il_tokens l' = il_tokens l \<and>
     il_cancelled l' = il_cancelled l"

lemma slot_inv_same:
  "slot_inv w \<Longrightarrow> same_slot (lw_lane w) l \<Longrightarrow> lw_live w' = lw_live w \<Longrightarrow> lw_lane w' = l \<Longrightarrow> slot_inv w'"
  by (simp add: slot_inv_def same_slot_def split: list.splits)

lemma same_slot_tallied [simp]: "same_slot l (tallied l' j f) = same_slot l l'"
  by (simp add: same_slot_def tallied_def)

lemma same_slot_registered: "same_slot l (registered l a)"
  by (simp add: same_slot_def registered_def)

lemma same_slot_decide: "decide l a = (b, l') \<Longrightarrow> same_slot l l'"
proof -
  assume decided: "decide l a = (b, l')"
  define l2 where "l2 = (case own_verdict (ask_inputs l a) (ask_job a) of
      Some (GateSkip reason) \<Rightarrow> tallied l (ask_job a) (refused_tally reason) | _ \<Rightarrow> l)"
  have "same_slot l l2"
    unfolding l2_def by (simp add: same_slot_def tallied_def split: option.split gate_decision.split)
  with decided show ?thesis
    unfolding decide_def Let_def l2_def [symmetric]
    by (cases "select_next (ask_inputs l a)") (auto simp: same_slot_def tallied_def split: if_splits)
qed

lemma take_slot_cases:
  "take_slot l a = (Some s, l') \<Longrightarrow>
     \<not> il_slot_taken l \<and> ls_job s = ask_job a \<and> ls_token s = il_tokens l \<and> il_slot_taken l' \<and>
     il_holder l' = Some (ask_job a, ask_at a) \<and> il_active_cancel l' = Some (il_tokens l) \<and>
     il_tokens l' = il_tokens l + 1 \<and> il_cancelled l' = il_cancelled l \<and>
     il_last_run l' = il_last_run l"
  "take_slot l a = (None, l') \<Longrightarrow> il_slot_taken l \<and> same_slot l l'"
  by (auto simp: take_slot_def Let_def tallied_def same_slot_def split: if_splits)

lemma lane_step_inv: "lane_step w w' \<Longrightarrow> slot_inv w \<Longrightarrow> slot_inv w'"
proof (induction rule: lane_step.induct)
  case (ask w a)
  then show ?case by (rule slot_inv_same [OF _ same_slot_registered]) simp_all
next
  case (win a w l)
  from win(3) same_slot_decide [OF win(2)] show ?case by (rule slot_inv_same) simp_all
next
  case (lose a w l)
  from lose(3) same_slot_decide [OF lose(2)] show ?case by (rule slot_inv_same) simp_all
next
  case (take_it a w s l)
  then show ?case
    using take_slot_cases(1) [OF take_it(2)]
    by (cases "lw_live w"; cases "tl (lw_live w)") (simp_all add: slot_inv_def less_SucI)
next
  case (stand_down a w l)
  from stand_down(3) take_slot_cases(2) [OF stand_down(2), THEN conjunct2] show ?case
    by (rule slot_inv_same) simp_all
next
  case (finish s w at)
  then show ?case
    by (auto simp: slot_inv_def drop_slot_def split: list.splits)
next
  case (user_turn w)
  then show ?case
    by (auto simp: slot_inv_def preempt_def split: list.splits option.splits)
next
  case (run_now w j)
  then show ?case by (rule slot_inv_same) (simp_all add: same_slot_def wake_def)
next
  case (spawned w j)
  then show ?case by (rule slot_inv_same) (simp_all add: same_slot_def claim_def)
next
  case (embeds w now)
  then show ?case by (rule slot_inv_same) (simp_all add: same_slot_def embedding_slot_running_def)
next
  case (embedded w)
  then show ?case by (rule slot_inv_same) (simp_all add: same_slot_def embedding_slot_dropped_def)
qed

lemma lane_started_inv: "lane_started w \<Longrightarrow> slot_inv w"
  by (auto simp: lane_started_def slot_inv_def restored_def)

lemma lane_steps_inv: "lane_step\<^sup>*\<^sup>* w w' \<Longrightarrow> slot_inv w \<Longrightarrow> slot_inv w'"
  by (induction rule: rtranclp_induct) (auto dest: lane_step_inv)

section \<open>What a grant tells\<close>

lemma job_states_mem:
  "s \<in> set (job_states registry last_run now) \<longleftrightarrow>
     (\<exists>reg. registry (js_job s) = Some reg \<and>
        s = \<lparr>js_job = js_job s, js_enabled = reg_enabled reg,
          js_since_last_run = map_option (elapsed_since now) (last_run (js_job s)),
          js_interval_floor = reg_interval_floor reg, js_idle_threshold = reg_idle_threshold reg,
          js_exempt = reg_exempt reg\<rparr>)"
proof -
  define made :: "lane_job \<Rightarrow> registration \<Rightarrow> job_state"
    where "made = (\<lambda>j reg. \<lparr>js_job = j, js_enabled = reg_enabled reg,
      js_since_last_run = map_option (elapsed_since now) (last_run j),
      js_interval_floor = reg_interval_floor reg, js_idle_threshold = reg_idle_threshold reg,
      js_exempt = reg_exempt reg\<rparr>)"
  have made_eq: "\<lparr>js_job = j, js_enabled = reg_enabled reg,
      js_since_last_run = map_option (elapsed_since now) (last_run j),
      js_interval_floor = reg_interval_floor reg, js_idle_threshold = reg_idle_threshold reg,
      js_exempt = reg_exempt reg\<rparr> = made j reg" for j and reg :: registration
    by (simp add: made_def)
  have "y \<in> set (List.map_filter f xs) \<longleftrightarrow> (\<exists>x \<in> set xs. f x = Some y)"
    for y :: job_state and f and xs :: "lane_job list"
    by (induction xs) (auto simp: map_filter_simps split: option.splits)
  then have listed: "s \<in> set (job_states registry last_run now) \<longleftrightarrow>
      (\<exists>x \<in> set all_lane_jobs. map_option (made x) (registry x) = Some s)"
    unfolding job_states_def made_eq by simp
  show ?thesis
    unfolding listed made_eq
  proof
    assume "\<exists>x \<in> set all_lane_jobs. map_option (made x) (registry x) = Some s"
    then obtain x reg where "registry x = Some reg" and "made x reg = s" by auto
    then show "\<exists>reg. registry (js_job s) = Some reg \<and> s = made (js_job s) reg"
      by (auto simp: made_def)
  next
    assume "\<exists>reg. registry (js_job s) = Some reg \<and> s = made (js_job s) reg"
    then obtain reg where "registry (js_job s) = Some reg" and "s = made (js_job s) reg" by blast
    then have "map_option (made (js_job s)) (registry (js_job s)) = Some s" by simp
    then show "\<exists>x \<in> set all_lane_jobs. map_option (made x) (registry x) = Some s"
      using lane_jobs.all_listed by blast
  qed
qed

lemma select_next_runnable: "select_next i = RunJob j \<Longrightarrow> \<exists>s \<in> runnable i. js_job s = j"
proof -
  assume run: "select_next i = RunJob j"
  let ?es = "filter (eligible i) (li_jobs i)"
  have best: "map_option (\<lambda>(s, _). js_job s) (best_in i ?es) = Some j"
    using select_next_best [of i] run by simp
  then have "?es \<noteq> []" by auto
  then obtain s where "best_in i ?es = Some (s, waited s)" "s \<in> set ?es"
    using best_in_member by blast
  with best show ?thesis by (auto simp: runnable_def)
qed

lemma decide_True:
  assumes "decide l a = (True, l')"
  shows "\<exists>reg. il_registry l (ask_job a) = Some reg \<and> reg_enabled reg \<and>
    (ask_waive a \<or>
     (ask_saw_activity a \<or> reg_exempt reg) \<and> reg_idle_threshold reg \<le> quiet_for a \<and>
     (\<forall>at. il_last_run l (ask_job a) = Some at \<longrightarrow>
        reg_interval_floor reg \<le> elapsed_since (ask_at_utc a) at))"
proof -
  have "select_next (ask_inputs l a) = RunJob (ask_job a)"
    using assms by (auto simp: decide_def Let_def split: lane_decision.splits if_splits)
  then obtain s where s: "s \<in> runnable (ask_inputs l a)" "js_job s = ask_job a"
    using select_next_runnable by blast
  then obtain s0 where s0: "s0 \<in> set (job_states (il_registry l) (il_last_run l) (ask_at_utc a))"
    "s = waived a s0"
    by (auto simp: runnable_def ask_inputs_def)
  then have job: "js_job s0 = ask_job a" using s(2) by (simp add: waived_def split: if_splits)
  from s0(1) obtain reg where reg: "il_registry l (ask_job a) = Some reg"
    "js_enabled s0 = reg_enabled reg" "js_exempt s0 = reg_exempt reg"
    "js_since_last_run s0 = map_option (elapsed_since (ask_at_utc a)) (il_last_run l (ask_job a))"
    "js_interval_floor s0 = reg_interval_floor reg" "js_idle_threshold s0 = reg_idle_threshold reg"
    unfolding job_states_mem job by (metis job_state.select_convs)
  have "eligible (ask_inputs l a) s" using s(1) by (simp add: runnable_def)
  then show ?thesis
    using reg job unfolding s0(2) eligible_iff
    by (cases "ask_waive a"; cases "il_last_run l (ask_job a)")
       (auto simp: waived_def ask_inputs_def)
qed

lemma acquire_Some:
  assumes "acquire l a = (Some s, l')"
  shows "\<not> il_slot_taken l \<and> ask_enabled a \<and> ls_job s = ask_job a \<and>
    il_holder l' = Some (ask_job a, ask_at a) \<and> ls_token s = il_tokens l \<and>
    il_cancelled l' = il_cancelled l \<and>
    (ask_waive a \<or>
     (ask_saw_activity a \<or> cad_exempt (ask_cadence a)) \<and>
     cad_idle_threshold (ask_cadence a) \<le> quiet_for a \<and>
     (\<forall>at. il_last_run l (ask_job a) = Some at \<longrightarrow>
        cad_interval_floor (ask_cadence a) \<le> elapsed_since (ask_at_utc a) at))"
proof -
  obtain l1 where l1: "decide (registered l a) a = (True, l1)" "take_slot l1 a = (Some s, l')"
    using assms by (auto simp: acquire_def split: prod.splits bool.splits)
  have same: "same_slot l l1"
    using same_slot_decide [OF l1(1)] same_slot_registered [of l a] by (simp add: same_slot_def)
  have "il_registry (registered l a) (ask_job a) =
      Some \<lparr>reg_enabled = ask_enabled a, reg_interval_floor = cad_interval_floor (ask_cadence a),
        reg_idle_threshold = cad_idle_threshold (ask_cadence a), reg_exempt = cad_exempt (ask_cadence a)\<rparr>"
    "il_last_run (registered l a) = il_last_run l"
    by (simp_all add: registered_def)
  then show ?thesis
    using decide_True [OF l1(1)] take_slot_cases(1) [OF l1(2)] same
    by (simp add: same_slot_def)
qed

section \<open>Properties\<close>

text \<open>
  C18: One background job holds the slot at a time. However the jobs ask, win, try the slot and end,
  with turns that preempt and presses of run-now between, at most one slot is alive; the guard, the
  holder the status shows and the token a turn would cancel are that slot's, and with none alive all
  three are clear, so an ended job never leaves the lane wedged. A slot that is taken starts
  uncancelled, whatever was cancelled before.
\<close>

theorem one_job_holds_the_slot:
  assumes "lane_started w" "lane_step\<^sup>*\<^sup>* w w'"
  shows "(lw_live w' = [] \<or> (\<exists>s. lw_live w' = [s])) \<and>
    (il_slot_taken (lw_lane w') \<longleftrightarrow> lw_live w' \<noteq> []) \<and>
    map_option fst (il_holder (lw_lane w')) = map_option ls_job (find (\<lambda>_. True) (lw_live w')) \<and>
    il_active_cancel (lw_lane w') = map_option ls_token (find (\<lambda>_. True) (lw_live w')) \<and>
    (\<forall>a s l. take_slot (lw_lane w') a = (Some s, l) \<longrightarrow> \<not> slot_cancelled l s)"
proof -
  have inv: "slot_inv w'" using lane_steps_inv [OF assms(2) lane_started_inv [OF assms(1)]] .
  have fresh: "\<not> slot_cancelled l s" if "take_slot (lw_lane w') a = (Some s, l)" for a s l
    using take_slot_cases(1) [OF that] inv by (auto simp: slot_inv_def slot_cancelled_def)
  show ?thesis
    using inv fresh by (auto simp: slot_inv_def split: list.splits)
qed

definition example_ask :: ask where
  "example_ask =
     \<lparr>ask_job = LongTaskStep, ask_enabled = True,
      ask_cadence = \<lparr>cad_interval_floor = 0, cad_idle_threshold = 5, cad_exempt = False\<rparr>,
      ask_waive = False, ask_saw_activity = True, ask_idle_for = 9, ask_turn_running = False,
      ask_person_present = True, ask_at = 20, ask_at_utc = 40\<rparr>"

definition example_world :: lane_world where
  "example_world = \<lparr>lw_lane = restored (\<lambda>_. None) None, lw_asking = [], lw_won = [], lw_live = []\<rparr>"

lemma example_decide:
  "decide (registered (restored (\<lambda>_. None) None) example_ask) example_ask =
     (True, registered (restored (\<lambda>_. None) None) example_ask)"
  by (simp add: decide_def Let_def ask_inputs_def registered_def restored_def example_ask_def
      job_states_def map_filter_def all_lane_jobs_def waived_def own_verdict_def job_gate_def
      should_run_def quiet_for_def select_next_def consider_job_def wins_def)

theorem one_job_holds_the_slot_witness:
  "\<exists>w'. lane_step\<^sup>*\<^sup>* example_world w' \<and> il_slot_taken (lw_lane w') \<and>
     map_option fst (il_holder (lw_lane w')) = Some LongTaskStep"
proof -
  let ?l0 = "restored (\<lambda>_. None) None"
  let ?l1 = "registered ?l0 example_ask"
  let ?w1 = "example_world\<lparr>lw_lane := ?l1, lw_asking := [example_ask]\<rparr>"
  let ?w2 = "?w1\<lparr>lw_lane := ?l1, lw_asking := [], lw_won := [example_ask]\<rparr>"
  obtain s l2 where s: "take_slot ?l1 example_ask = (Some s, l2)"
    by (cases "take_slot ?l1 example_ask")
       (auto simp: take_slot_def Let_def registered_def restored_def)
  let ?w3 = "?w2\<lparr>lw_lane := l2, lw_won := [], lw_live := [s]\<rparr>"
  have 1: "lane_step example_world ?w1"
    using lane_step.ask [of example_world example_ask] by (simp add: example_world_def)
  have 2: "lane_step ?w1 ?w2"
    using lane_step.win [of example_ask ?w1 ?l1] example_decide by (simp add: example_world_def)
  have 3: "lane_step ?w2 ?w3"
    using lane_step.take_it [of example_ask ?w2 s l2] s by (simp add: example_world_def)
  have started: "lane_started example_world" by (auto simp: lane_started_def example_world_def)
  have ran: "lane_step\<^sup>*\<^sup>* example_world ?w3"
    by (rule converse_rtranclp_into_rtranclp [OF 1 converse_rtranclp_into_rtranclp [OF 2
          r_into_rtranclp [of lane_step, OF 3]]])
  from one_job_holds_the_slot [OF started ran] have "il_slot_taken (lw_lane ?w3)"
    "map_option fst (il_holder (lw_lane ?w3)) = Some (ls_job s)" by simp_all
  moreover have "ls_job s = LongTaskStep" using take_slot_cases(1) [OF s] by (simp add: example_ask_def)
  ultimately show ?thesis using ran by metis
qed

text \<open>
  A job is given the slot only when it is due. Unless it was asked for by hand, its loop is
  enabled, the household has used the pond (or the job is exempt), the quiet it asks for has passed,
  counted as none while a turn runs or, for a chore, while a person is in view, and its floor has
  passed since it last gave the slot back, on a clock that never counts backwards; asking by hand
  waives all but the enabling and the slot, which is always free.
\<close>

theorem granted_only_when_due:
  assumes "acquire l a = (Some s, l')"
  shows "\<not> il_slot_taken l \<and> ask_enabled a \<and> ls_job s = ask_job a \<and>
    (ask_waive a \<or>
     (ask_saw_activity a \<or> cad_exempt (ask_cadence a)) \<and>
     (cad_idle_threshold (ask_cadence a) = 0 \<or>
      \<not> ask_turn_running a \<and> (ask_person_present a \<longrightarrow> ask_job a \<in> {LongTaskStep, Compaction}) \<and>
      cad_idle_threshold (ask_cadence a) \<le> ask_idle_for a) \<and>
     (\<forall>at. il_last_run l (ask_job a) = Some at \<longrightarrow>
        cad_interval_floor (ask_cadence a) = 0 \<or>
        at + int (cad_interval_floor (ask_cadence a)) \<le> ask_at_utc a))"
  using acquire_Some [OF assms]
  by (auto simp: quiet_for_def elapsed_since_def split: if_splits)

theorem granted_only_when_due_witness:
  "\<exists>s l'. acquire (restored (\<lambda>_. None) None) example_ask = (Some s, l') \<and>
     cad_idle_threshold (ask_cadence example_ask) \<le> ask_idle_for example_ask"
proof -
  obtain s l' where got: "acquire (restored (\<lambda>_. None) None) example_ask = (Some s, l')"
    using example_decide
    by (auto simp: acquire_def take_slot_def Let_def registered_def restored_def)
  from granted_only_when_due [OF got] show ?thesis
    using got by (auto simp: example_ask_def)
qed

end
