(* ===== verification/Context_Budget.thy ===== *)
theory Context_Budget
  imports Runner_Text
begin

text \<open>
  What a conversation may cost: the window's shares (\<open>CompactionProfile\<close>), the head-and-tail cut of a
  long tool result (\<open>pond-core/src/models/services/context/context_budget.rs\<close>), the state of the
  engine's prefix cache (\<open>prefix_cache.rs\<close>) and the images a history keeps (\<open>image_history.rs\<close>). The
  curve that draws a profile from a window interpolates in floating point and is left out, with the
  compaction threshold, an \<open>f32\<close>; a profile is any record of the other fields. Byte counts are natural numbers.
\<close>

record compaction_profile =
  cp_memory_token_budget :: nat
  cp_max_memory_fragments :: nat
  cp_system_prompt_budget :: nat
  cp_history_token_budget :: nat
  cp_output_reserve_tokens :: nat
  cp_context_window_tokens :: nat
  cp_prompt_window_tokens :: nat

definition usable_prompt_tokens :: "compaction_profile \<Rightarrow> nat" where
  "usable_prompt_tokens p = cp_context_window_tokens p - cp_output_reserve_tokens p"

definition usable_history_tokens :: "compaction_profile \<Rightarrow> nat" where
  "usable_history_tokens p =
     usable_prompt_tokens p - (cp_system_prompt_budget p + cp_memory_token_budget p)"

definition use_compact_prompt :: "compaction_profile \<Rightarrow> bool" where
  "use_compact_prompt p \<longleftrightarrow> cp_prompt_window_tokens p \<le> 12288"

section \<open>Room for reasoning\<close>

datatype reasoning_effort = Brief | Balanced | Thorough

definition reasoning_effort_parse :: "ustr \<Rightarrow> reasoning_effort" where
  "reasoning_effort_parse raw =
     (if raw = lit ''balanced'' then Balanced
      else if raw = lit ''thorough'' then Thorough
      else Brief)"

fun reasoning_effort_as_str :: "reasoning_effort \<Rightarrow> ustr" where
  "reasoning_effort_as_str Brief = lit ''brief''"
| "reasoning_effort_as_str Balanced = lit ''balanced''"
| "reasoning_effort_as_str Thorough = lit ''thorough''"

definition MIN_REASONING_BUDGET_TOKENS :: nat where "MIN_REASONING_BUDGET_TOKENS = 32"

definition reasoning_budget_tokens :: "compaction_profile \<Rightarrow> reasoning_effort \<Rightarrow> nat" where
  "reasoning_budget_tokens p effort =
     (let reserve = cp_output_reserve_tokens p;
          share = (case effort of
                     Brief \<Rightarrow> reserve div 8 | Balanced \<Rightarrow> reserve div 4 | Thorough \<Rightarrow> reserve div 2)
      in max share MIN_REASONING_BUDGET_TOKENS)"

definition budget_as_words :: "nat \<Rightarrow> nat" where
  "budget_as_words budget_tokens = budget_tokens * 3 div 4"

definition CHARS_PER_TOKEN :: nat where "CHARS_PER_TOKEN = 4"
definition MIN_USABLE_HISTORY_CHARS :: nat where "MIN_USABLE_HISTORY_CHARS = 256"

definition available_history_chars :: "compaction_profile \<Rightarrow> nat \<Rightarrow> nat \<Rightarrow> nat" where
  "available_history_chars p system_prompt_chars tool_schema_chars =
     max (cp_history_token_budget p * CHARS_PER_TOKEN - (system_prompt_chars + tool_schema_chars))
       MIN_USABLE_HISTORY_CHARS"

section \<open>Cutting a long text\<close>

definition TOOL_RESULT_MAX_BYTES :: nat where "TOOL_RESULT_MAX_BYTES = 1500"

text \<open>The longest part of a text, from its start or its end, of at most so many bytes.\<close>

fun byte_head :: "nat \<Rightarrow> ustr \<Rightarrow> ustr" where
  "byte_head n [] = []"
| "byte_head n (c # cs) = (if char_len c \<le> n then c # byte_head (n - char_len c) cs else [])"

definition byte_tail :: "nat \<Rightarrow> ustr \<Rightarrow> ustr" where
  "byte_tail n s = rev (byte_head n (rev s))"

definition elided :: "nat \<Rightarrow> ustr" where
  "elided n = [10] @ lit ''[... truncated '' @ show_nat n @ lit '' chars ...]''"

definition truncate_head_tail :: "ustr \<Rightarrow> nat \<Rightarrow> ustr option" where
  "truncate_head_tail text max_chars =
     (let len = utf8_len text in
      if len \<le> max_chars then None
      else if max_chars < 64 then
        (let h = byte_head (min max_chars len) text in Some (h @ elided (len - utf8_len h)))
      else
        (let head_len = max_chars * 3 div 5; tail_len = max_chars - head_len;
             h = byte_head head_len text; t = byte_tail tail_len text;
             head_end = utf8_len h; tail_start = len - utf8_len t
         in if tail_start \<le> head_end then Some (h @ elided (len - head_end))
            else Some (h @ elided (tail_start - head_end) @ [10] @ t)))"

section \<open>The prefix cache\<close>

datatype invalidation_reason =
    ProviderRebuilt | ModelSwapped | SessionResumed | MultimodalTurn | ToolSetChanged | PromptChanged

fun invalidation_reason_as_str :: "invalidation_reason \<Rightarrow> ustr" where
  "invalidation_reason_as_str ProviderRebuilt = lit ''provider_rebuilt''"
| "invalidation_reason_as_str ModelSwapped = lit ''model_swapped''"
| "invalidation_reason_as_str SessionResumed = lit ''session_resumed''"
| "invalidation_reason_as_str MultimodalTurn = lit ''multimodal_turn''"
| "invalidation_reason_as_str ToolSetChanged = lit ''tool_set_changed''"
| "invalidation_reason_as_str PromptChanged = lit ''prompt_changed''"

datatype cache_posture = Warm | Cold

record prefix_cache =
  pc_built_at :: timestamp
  pc_hash :: "64 word"
  pc_turns_served :: u32
  pc_invalidated_by :: "invalidation_reason option"

definition prefix_new :: "64 word \<Rightarrow> timestamp \<Rightarrow> prefix_cache" where
  "prefix_new hash built_at =
     \<lparr>pc_built_at = built_at, pc_hash = hash, pc_turns_served = 0, pc_invalidated_by = None\<rparr>"

definition prefix_invalidate :: "invalidation_reason \<Rightarrow> prefix_cache \<Rightarrow> prefix_cache" where
  "prefix_invalidate reason s = s\<lparr>pc_turns_served := 0, pc_invalidated_by := Some reason\<rparr>"

definition prefix_rebuilt :: "64 word \<Rightarrow> timestamp \<Rightarrow> prefix_cache \<Rightarrow> prefix_cache" where
  "prefix_rebuilt hash now s =
     s\<lparr>pc_built_at := now, pc_hash := hash, pc_turns_served := 0, pc_invalidated_by := None\<rparr>"

definition prefix_serve_turn :: "prefix_cache \<Rightarrow> prefix_cache" where
  "prefix_serve_turn s =
     s\<lparr>pc_turns_served := saturating_add (pc_turns_served s) 1,
       pc_invalidated_by := (if pc_turns_served s > 0 then None else pc_invalidated_by s)\<rparr>"

definition prefix_posture :: "prefix_cache \<Rightarrow> cache_posture" where
  "prefix_posture s =
     (if pc_invalidated_by s \<noteq> None \<or> pc_turns_served s = 0 then Cold else Warm)"

definition posture_of :: "prefix_cache option \<Rightarrow> cache_posture" where
  "posture_of state = (case state of Some s \<Rightarrow> prefix_posture s | None \<Rightarrow> Warm)"

section \<open>Images of a history\<close>

definition MAX_HISTORY_REPLAY_IMAGES :: nat where "MAX_HISTORY_REPLAY_IMAGES = 1"

text \<open>The budget is spent from the newest message back; the loop runs over the reversed counts.\<close>

fun spend_images :: "nat \<Rightarrow> nat list \<Rightarrow> nat list" where
  "spend_images remaining [] = []"
| "spend_images remaining (c # cs) =
     min c remaining # spend_images (remaining - min c remaining) cs"

definition plan_image_replay :: "nat list \<Rightarrow> nat \<Rightarrow> nat list" where
  "plan_image_replay image_counts budget = rev (spend_images budget (rev image_counts))"

definition plan_history_images :: "nat list \<Rightarrow> nat list" where
  "plan_history_images image_counts = plan_image_replay image_counts MAX_HISTORY_REPLAY_IMAGES"

definition dropped_image_count :: "nat list \<Rightarrow> nat list \<Rightarrow> nat" where
  "dropped_image_count image_counts plan =
     sum_list (map (\<lambda>(had, keep). had - keep) (zip image_counts plan))"

section \<open>Facts\<close>

lemma utf8_len_simps [simp]: "utf8_len [] = 0" "utf8_len (c # cs) = char_len c + utf8_len cs"
  by (simp_all add: utf8_len_def)

lemma utf8_len_rev [simp]: "utf8_len (rev s) = utf8_len s"
  by (induction s) simp_all

lemma char_len_le: "char_len c \<le> 4"
  by (simp add: char_len_def)

lemma byte_head_prefix: "prefix (byte_head n s) s"
  by (induction n s rule: byte_head.induct) simp_all

lemma byte_head_len: "utf8_len (byte_head n s) \<le> n"
  by (induction n s rule: byte_head.induct) auto

lemma byte_head_full: "n < utf8_len s \<Longrightarrow> n \<le> utf8_len (byte_head n s) + 3"
proof (induction n s rule: byte_head.induct)
  case (2 n c cs)
  then show ?case
    using char_len_le [of c] by (cases "char_len c \<le> n") (simp_all, linarith)
qed simp

lemma byte_tail_suffix: "suffix (byte_tail n s) s"
  using byte_head_prefix [of n "rev s"] by (simp add: byte_tail_def suffix_to_prefix)

lemma byte_tail_len: "utf8_len (byte_tail n s) \<le> n"
  using byte_head_len [of n "rev s"] by (simp add: byte_tail_def)

lemma byte_tail_full: "n < utf8_len s \<Longrightarrow> n \<le> utf8_len (byte_tail n s) + 3"
  using byte_head_full [of n "rev s"] by (simp add: byte_tail_def)

lemma head_tail_middle:
  assumes "prefix h s" "suffix t s" "utf8_len h + utf8_len t \<le> utf8_len s"
  shows "\<exists>mid. s = h @ mid @ t \<and> utf8_len mid = utf8_len s - utf8_len t - utf8_len h"
proof -
  obtain u where u: "s = h @ u" using assms(1) by (auto simp: prefix_def)
  obtain v where v: "s = v @ t" using assms(2) by (auto simp: suffix_def)
  from u v obtain us where "h @ us = v \<and> u = us @ t \<or> v @ us = h \<and> us @ u = t"
    by (metis append_eq_append_conv2)
  then show ?thesis
  proof
    assume "h @ us = v \<and> u = us @ t"
    then show ?thesis using u v by (intro exI [of _ us]) auto
  next
    assume over: "v @ us = h \<and> us @ u = t"
    then have "utf8_len s = utf8_len v + utf8_len us + utf8_len u" using u by auto
    with assms(3) over have "utf8_len us = 0" by auto
    moreover have "utf8_len (c # cs) \<noteq> 0" for c cs using char_len_pos [of c] by simp
    ultimately have "us = []" by (cases us) blast+
    then show ?thesis using over u by (intro exI [of _ "[]"]) auto
  qed
qed

lemma length_show_nat: "n < 10 ^ k \<Longrightarrow> 0 < k \<Longrightarrow> length (show_nat n) \<le> k"
proof (induction k arbitrary: n)
  case (Suc k)
  show ?case
  proof (cases "n < 10")
    case True
    then show ?thesis by (subst show_nat.simps) simp
  next
    case False
    then have "0 < k" using Suc.prems(1) by (cases k) auto
    moreover have "n div 10 < 10 ^ k" using Suc.prems(1) by (simp add: less_mult_imp_div_less mult.commute)
    ultimately show ?thesis using Suc.IH [of "n div 10"] False by (subst show_nat.simps) simp
  qed
qed simp

lemma show_nat_pos: "0 < length (show_nat n)"
  by (subst show_nat.simps) simp

lemma show_nat_digit_chars: "list_all ascii_digit_char (show_nat n)"
proof (induction n rule: less_induct)
  case (less n)
  show ?case
  proof (cases "n < 10")
    case True
    then show ?thesis by (subst show_nat.simps) (simp add: ascii_digit_char_def)
  next
    case False
    have "ascii_digit_char (48 + n mod 10)"
      using mod_less_divisor [of 10 n] by (simp add: ascii_digit_char_def)
    with False less [of "n div 10"] show ?thesis by (subst show_nat.simps) simp
  qed
qed

lemma utf8_len_show_nat: "utf8_len (show_nat n) = length (show_nat n)"
proof -
  have "list_all ascii_digit_char (show_nat n)" by (rule show_nat_digit_chars)
  moreover have "list_all ascii_digit_char s \<Longrightarrow> utf8_len s = length s" for s
    by (induction s) (auto simp: ascii_digit_char_def char_len_def)
  ultimately show ?thesis by blast
qed

lemma utf8_len_elided: "utf8_len (elided n) = 27 + length (show_nat n)"
  by (simp add: elided_def utf8_len_show_nat lit_def char_len_def)

lemma elided_bounds: "28 \<le> utf8_len (elided n)" "n < 2 ^ 64 \<Longrightarrow> utf8_len (elided n) \<le> 47"
proof -
  show "28 \<le> utf8_len (elided n)" using show_nat_pos [of n] unfolding utf8_len_elided by linarith
  assume "n < 2 ^ 64"
  then have "n < 10 ^ 20" by simp
  then show "utf8_len (elided n) \<le> 47" using length_show_nat [of n 20] by (simp add: utf8_len_elided)
qed

text \<open>The cut keeps a head and a tail and names what lay between.\<close>

lemma truncate_None_iff: "truncate_head_tail s n = None \<longleftrightarrow> utf8_len s \<le> n"
  by (simp add: truncate_head_tail_def Let_def)

lemma truncate_Some:
  assumes "truncate_head_tail s n = Some r" "64 \<le> n"
  shows "\<exists>h mid t. s = h @ mid @ t \<and> r = h @ elided (utf8_len mid) @ [10] @ t \<and>
    utf8_len h + utf8_len t \<le> n \<and> n \<le> utf8_len h + utf8_len t + 6"
proof -
  define a where "a = n * 3 div 5"
  define h where "h = byte_head a s"
  define t where "t = byte_tail (n - a) s"
  have long: "n < utf8_len s" using assms(1) truncate_None_iff [of s n] by (metis not_less option.distinct(1))
  have an: "a \<le> n" by (simp add: a_def)
  have lens: "utf8_len h \<le> a" "utf8_len t \<le> n - a" "a \<le> utf8_len h + 3" "n - a \<le> utf8_len t + 3"
    using byte_head_len [of a s] byte_tail_len [of "n - a" s] byte_head_full [of a s]
      byte_tail_full [of "n - a" s] long an by (simp_all add: h_def t_def)
  then have apart: "\<not> utf8_len s - utf8_len t \<le> utf8_len h" using long an by linarith
  have r: "r = h @ elided (utf8_len s - utf8_len t - utf8_len h) @ [10] @ t"
    using assms long apart
    by (simp add: truncate_head_tail_def Let_def a_def [symmetric] h_def [symmetric] t_def [symmetric])
  have "prefix h s" "suffix t s" "utf8_len h + utf8_len t \<le> utf8_len s"
    using byte_head_prefix byte_tail_suffix lens long an by (simp_all add: h_def t_def)
  then obtain mid where mid: "s = h @ mid @ t" "utf8_len mid = utf8_len s - utf8_len t - utf8_len h"
    using head_tail_middle by blast
  show ?thesis
  proof (intro exI conjI)
    show "s = h @ mid @ t" by (rule mid(1))
    show "r = h @ elided (utf8_len mid) @ [10] @ t" using r mid(2) by simp
  qed (use lens an in linarith)+
qed

lemma truncate_len:
  assumes "truncate_head_tail s n = Some r" "64 \<le> n"
  shows "n + 23 \<le> utf8_len r" "utf8_len s < 2 ^ 64 \<Longrightarrow> utf8_len r \<le> n + 48"
proof -
  obtain h mid t where d: "s = h @ mid @ t" "r = h @ elided (utf8_len mid) @ [10] @ t"
    "utf8_len h + utf8_len t \<le> n" "n \<le> utf8_len h + utf8_len t + 6"
    using truncate_Some [OF assms] by blast
  then show "n + 23 \<le> utf8_len r"
    using elided_bounds(1) [of "utf8_len mid"] by (simp add: char_len_def)
  assume "utf8_len s < 2 ^ 64"
  then have "utf8_len mid < 2 ^ 64" using d(1) by simp
  then show "utf8_len r \<le> n + 48"
    using elided_bounds(2) [of "utf8_len mid"] d by (simp add: char_len_def)
qed

lemma spend_images_le:
  "sum_list (spend_images n cs) = min n (sum_list cs)"
  "list_all2 (\<le>) (spend_images n cs) cs"
proof (induction n cs rule: spend_images.induct)
  case (2 n c cs)
  have "min c n + min (n - min c n) x = min n (c + x)" for x :: nat by linarith
  { case 1 then show ?case using 2 \<open>\<And>x. min c n + _ = _\<close> by simp }
  { case 2 then show ?case using \<open>list_all2 _ _ cs\<close> by simp }
qed simp_all

text \<open>A replay spends the whole image budget, or keeps every image; what it drops is the rest.\<close>

lemma plan_image_replay_sum: "sum_list (plan_image_replay cs budget) = min budget (sum_list cs)"
  by (simp add: plan_image_replay_def spend_images_le)

lemma plan_image_replay_le: "list_all2 (\<le>) (plan_image_replay cs budget) cs"
  using spend_images_le(2) [of budget "rev cs"] by (simp add: plan_image_replay_def list_all2_rev1)

lemma dropped_sum: "list_all2 (\<le>) ks cs \<Longrightarrow> dropped_image_count cs ks + sum_list ks = sum_list cs"
  by (induction ks cs rule: list_all2_induct) (simp_all add: dropped_image_count_def)

lemma dropped_history_images:
  "dropped_image_count cs (plan_history_images cs) = sum_list cs - 1"
  using dropped_sum [OF plan_image_replay_le [of cs 1]] plan_image_replay_sum [of cs 1]
  by (simp add: plan_history_images_def MAX_HISTORY_REPLAY_IMAGES_def)

text \<open>An invalidated prefix reads as cold on the turn that lost it, and as warm after one more.\<close>

lemma invalidated_prefix_posture:
  "prefix_posture (prefix_invalidate reason s) = Cold"
  "prefix_posture (prefix_serve_turn (prefix_invalidate reason s)) = Cold"
  "prefix_posture (prefix_serve_turn (prefix_serve_turn (prefix_invalidate reason s))) = Warm"
  by (simp_all add: prefix_posture_def prefix_serve_turn_def prefix_invalidate_def saturating_add_def)

end
