(* ===== verification/Turn_Trimmer.thy ===== *)
theory Turn_Trimmer
  imports Context_Budget Inference_Lane
begin

text \<open>
  The history trimmer (\<open>pond-core/src/models/services/context/turn_trimmer.rs\<close>): what of a conversation
  goes into the next prompt. The token counter is the argument \<open>counter\<close>. The loops that rewrite messages in
  place are maps; the loop that drops turns is a recursion on the messages left.
\<close>

definition MIN_HISTORY_TOKENS :: nat where "MIN_HISTORY_TOKENS = 64"
definition PER_MESSAGE_TOKEN_OVERHEAD :: nat where "PER_MESSAGE_TOKEN_OVERHEAD = 4"
definition AGED_TOOL_RESULT_MAX_BYTES :: nat where
  "AGED_TOOL_RESULT_MAX_BYTES = TOOL_RESULT_MAX_BYTES div 4"
definition AGED_FIXED_POINT_BYTES :: nat where
  "AGED_FIXED_POINT_BYTES = AGED_TOOL_RESULT_MAX_BYTES + 64"
definition USIZE_MAX :: nat where "USIZE_MAX = 2 ^ 64 - 1"

text \<open>A horizon counts whole seconds, as \<open>Duration::from_secs\<close> builds it.\<close>

definition verbatim_horizon_from_days :: "u32 \<Rightarrow> nat option" where
  "verbatim_horizon_from_days days =
     (if days = 0 then None else Some (unat days * 24 * 60 * 60))"

datatype trim_role = User | Assistant | ToolResult

record trim_message =
  tm_index :: nat
  tm_role :: trim_role
  tm_text :: ustr
  tm_is_summary :: bool
  tm_age_secs :: "nat option"

record trim_outcome =
  to_messages :: "trim_message list"
  to_dropped_turns :: nat
  to_estimated_tokens :: nat
  to_aged_truncations :: nat
  to_changed :: bool
  to_cold_recompaction :: bool

datatype current_turn = NotYetAppended | AlreadyAppended

text \<open>\<open>None\<close> is the borrowed text, unchanged.\<close>

definition strip_system_context :: "ustr \<Rightarrow> ustr option" where
  "strip_system_context text =
     (let open_tag = lit ''<system-context>''; close_tag = lit ''</system-context>'' in
      case find_sub open_tag text of
        None \<Rightarrow> None
      | Some start \<Rightarrow>
          (case find_sub close_tag (drop start text) of
             None \<Rightarrow> None
           | Some close \<Rightarrow>
               Some (take start text @
                 dropWhile (\<lambda>c. c = 10) (drop (start + close + length close_tag) text))))"

definition estimate_tokens :: "(ustr \<Rightarrow> nat) \<Rightarrow> trim_message list \<Rightarrow> nat" where
  "estimate_tokens counter ms =
     sum_list (map (\<lambda>m. counter (tm_text m) + PER_MESSAGE_TOKEN_OVERHEAD) ms)"

fun rposition :: "('a \<Rightarrow> bool) \<Rightarrow> 'a list \<Rightarrow> nat option" where
  "rposition p [] = None"
| "rposition p (x # xs) =
     (case rposition p xs of Some i \<Rightarrow> Some (Suc i) | None \<Rightarrow> if p x then Some 0 else None)"

definition real_user :: "trim_message \<Rightarrow> bool" where
  "real_user m \<longleftrightarrow> tm_role m = User \<and> \<not> tm_is_summary m"

definition last_turn_start :: "trim_message list \<Rightarrow> nat" where
  "last_turn_start ms = (case rposition real_user ms of Some i \<Rightarrow> i | None \<Rightarrow> 0)"

record history_budget =
  hb_tokens :: nat
  hb_overshoot_corrected :: bool

definition effective_history_budget :: "compaction_profile \<Rightarrow> u32 option \<Rightarrow> history_budget" where
  "effective_history_budget p last_real_prompt_tokens =
     (let usable = usable_prompt_tokens p;
          tokens =
            (if usable > 0
             then max (min (cp_history_token_budget p) (usable_history_tokens p)) MIN_HISTORY_TOKENS
             else cp_history_token_budget p)
      in case last_real_prompt_tokens of
           Some real \<Rightarrow>
             if usable > 0 \<and> unat real > usable
             then \<lparr>hb_tokens = max (tokens - (unat real - usable)) MIN_HISTORY_TOKENS,
                   hb_overshoot_corrected = True\<rparr>
             else \<lparr>hb_tokens = tokens, hb_overshoot_corrected = False\<rparr>
         | None \<Rightarrow> \<lparr>hb_tokens = tokens, hb_overshoot_corrected = False\<rparr>)"

section \<open>The five steps\<close>

text \<open>A step that rewrites some texts: the new messages and how many it changed.\<close>

definition rewrite_texts ::
  "(nat \<Rightarrow> trim_message \<Rightarrow> ustr option) \<Rightarrow> trim_message list \<Rightarrow> trim_message list" where
  "rewrite_texts f ms =
     map (\<lambda>(i, m). case f i m of None \<Rightarrow> m | Some s \<Rightarrow> m\<lparr>tm_text := s\<rparr>) (List.enumerate 0 ms)"

definition rewritten :: "(nat \<Rightarrow> trim_message \<Rightarrow> ustr option) \<Rightarrow> trim_message list \<Rightarrow> nat" where
  "rewritten f ms = length (filter (\<lambda>(i, m). f i m \<noteq> None) (List.enumerate 0 ms))"

definition stale_text :: "nat option \<Rightarrow> nat \<Rightarrow> trim_message \<Rightarrow> ustr option" where
  "stale_text spare_last_user i m =
     (if real_user m \<and> Some i \<noteq> spare_last_user then strip_system_context (tm_text m) else None)"

definition long_text :: "nat \<Rightarrow> trim_message \<Rightarrow> ustr option" where
  "long_text i m =
     (if tm_role m = ToolResult then truncate_head_tail (tm_text m) TOOL_RESULT_MAX_BYTES else None)"

definition summary_body :: "ustr \<Rightarrow> ustr" where
  "summary_body summary =
     lit ''<conversation-summary>'' @ [10] @ summary @ [10] @ lit ''</conversation-summary>''"

fun refresh_summary :: "ustr \<Rightarrow> trim_message list \<Rightarrow> trim_message list" where
  "refresh_summary body [] = []"
| "refresh_summary body (m # ms) =
     (if tm_is_summary m then m\<lparr>tm_text := body\<rparr> # ms else m # refresh_summary body ms)"

definition splice_summary ::
  "ustr option \<Rightarrow> trim_message list \<Rightarrow> trim_message list \<times> bool" where
  "splice_summary rolling_summary ms =
     (case rolling_summary of
        None \<Rightarrow> (ms, False)
      | Some summary \<Rightarrow>
          (let body = summary_body summary in
           case find tm_is_summary ms of
             Some existing \<Rightarrow>
               if tm_text existing \<noteq> body then (refresh_summary body ms, True) else (ms, False)
           | None \<Rightarrow>
               (\<lparr>tm_index = USIZE_MAX, tm_role = User, tm_text = body, tm_is_summary = True,
                 tm_age_secs = Some 0\<rparr> # ms, True)))"

definition aged_text :: "nat \<Rightarrow> nat \<Rightarrow> nat \<Rightarrow> trim_message \<Rightarrow> ustr option" where
  "aged_text horizon_secs keep_verbatim_from i m =
     (if i \<ge> keep_verbatim_from \<or> tm_role m \<noteq> ToolResult \<or>
         utf8_len (tm_text m) \<le> AGED_FIXED_POINT_BYTES \<or>
         \<not> (case tm_age_secs m of None \<Rightarrow> False | Some age \<Rightarrow> age > horizon_secs)
      then None
      else truncate_head_tail (tm_text m) AGED_TOOL_RESULT_MAX_BYTES)"

definition weigh_age ::
  "(ustr \<Rightarrow> nat) \<Rightarrow> nat \<Rightarrow> nat option \<Rightarrow> cache_posture \<Rightarrow> trim_message list \<Rightarrow>
     trim_message list \<times> nat \<times> bool" where
  "weigh_age counter budget verbatim_horizon cache ms =
     (case verbatim_horizon of
        None \<Rightarrow> (ms, 0, False)
      | Some horizon_secs \<Rightarrow>
          (let over_budget = estimate_tokens counter ms > budget in
           if over_budget \<or> cache = Cold then
             (let f = aged_text horizon_secs (last_turn_start ms)
              in (rewrite_texts f ms, rewritten f ms, \<not> over_budget))
           else (ms, 0, False)))"

definition first_real :: "trim_message list \<Rightarrow> nat" where
  "first_real ms = (case position (\<lambda>m. \<not> tm_is_summary m) ms of Some i \<Rightarrow> i | None \<Rightarrow> 0)"

definition turn_end :: "trim_message list \<Rightarrow> nat" where
  "turn_end ms =
     (case position real_user (drop (first_real ms + 1) ms) of
        Some i \<Rightarrow> first_real ms + 1 + i
      | None \<Rightarrow> last_turn_start ms)"

lemma rposition_lt: "rposition p xs = Some i \<Longrightarrow> i < length xs \<and> p (xs ! i)"
  by (induction xs arbitrary: i) (auto split: option.splits if_splits)

lemma position_lt: "position p xs = Some i \<Longrightarrow> i < length xs"
  by (simp add: position_Some)

lemma turn_end_bounds:
  assumes "first_real ms < last_turn_start ms"
  shows "first_real ms < turn_end ms" "turn_end ms \<le> length ms"
proof -
  have "last_turn_start ms \<le> length ms"
    by (auto simp: last_turn_start_def dest: rposition_lt split: option.split)
  then show "first_real ms < turn_end ms" "turn_end ms \<le> length ms"
    using assms position_lt [of real_user "drop (first_real ms + 1) ms"]
    by (force simp: turn_end_def split: option.split)+
qed

function drop_turns ::
  "(ustr \<Rightarrow> nat) \<Rightarrow> nat \<Rightarrow> trim_message list \<Rightarrow> nat \<Rightarrow> trim_message list \<times> nat" where
  "drop_turns counter budget ms dropped =
     (if estimate_tokens counter ms \<le> budget then (ms, dropped)
      else if first_real ms \<ge> last_turn_start ms then (ms, dropped)
      else drop_turns counter budget (take (first_real ms) ms @ drop (turn_end ms) ms) (dropped + 1))"
  by auto
termination drop_turns
proof (relation "measure (\<lambda>(_, _, ms, _). length ms)")
  fix counter :: "ustr \<Rightarrow> nat" and budget ms and dropped :: nat
  assume "\<not> last_turn_start ms \<le> first_real ms"
  then have "first_real ms < turn_end ms" "turn_end ms \<le> length ms"
    using turn_end_bounds [of ms] by simp_all
  then show "((counter, budget, take (first_real ms) ms @ drop (turn_end ms) ms, dropped + 1),
      (counter, budget, ms, dropped)) \<in> measure (\<lambda>(_, _, ms, _). length ms)"
    by simp
qed simp

declare drop_turns.simps [simp del]

definition spare_last_user :: "current_turn \<Rightarrow> trim_message list \<Rightarrow> nat option" where
  "spare_last_user current ms =
     (case current of AlreadyAppended \<Rightarrow> rposition real_user ms | NotYetAppended \<Rightarrow> None)"

definition trim_history ::
  "trim_message list \<Rightarrow> compaction_profile \<Rightarrow> ustr option \<Rightarrow> u32 option \<Rightarrow> (ustr \<Rightarrow> nat) \<Rightarrow>
     current_turn \<Rightarrow> nat option \<Rightarrow> cache_posture \<Rightarrow> trim_outcome" where
  "trim_history ms profile rolling_summary last_real_prompt_tokens counter current verbatim_horizon cache =
     (let b = effective_history_budget profile last_real_prompt_tokens;
          stale = stale_text (spare_last_user current ms);
          ms1 = rewrite_texts stale ms;
          ms2 = rewrite_texts long_text ms1
      in case splice_summary rolling_summary ms2 of (ms3, spliced) \<Rightarrow>
         (case weigh_age counter (hb_tokens b) verbatim_horizon cache ms3 of (ms4, aged, cold) \<Rightarrow>
            (case drop_turns counter (hb_tokens b) ms4 0 of (ms5, dropped) \<Rightarrow>
               \<lparr>to_messages = ms5, to_dropped_turns = dropped,
                to_estimated_tokens = estimate_tokens counter ms5, to_aged_truncations = aged,
                to_changed =
                  (hb_overshoot_corrected b \<or> rewritten stale ms > 0 \<or> rewritten long_text ms1 > 0 \<or>
                   spliced \<or> aged > 0 \<or> dropped > 0),
                to_cold_recompaction = (cold \<and> aged > 0)\<rparr>)))"

text \<open>\<open>plan_replay\<close>: the stored history of a fresh engine session.\<close>

definition replay_rows :: "(trim_role \<times> ustr) list \<Rightarrow> (trim_role \<times> ustr) list" where
  "replay_rows rows =
     rev (dropWhile (\<lambda>r. fst r = User) (rev (filter (\<lambda>r. trim (snd r) \<noteq> []) rows)))"

definition replay_input :: "(trim_role \<times> ustr) list \<Rightarrow> trim_message list" where
  "replay_input rows =
     map (\<lambda>(i, role, text). \<lparr>tm_index = i, tm_role = role, tm_text = text, tm_is_summary = False,
        tm_age_secs = None\<rparr>) (List.enumerate 0 rows)"

definition plan_replay ::
  "(trim_role \<times> ustr) list \<Rightarrow> compaction_profile \<Rightarrow> ustr option \<Rightarrow> (ustr \<Rightarrow> nat) \<Rightarrow> trim_message list"
  where
  "plan_replay rows profile rolling_summary counter =
     (let kept = replay_rows rows in
      if kept = [] then []
      else to_messages
        (trim_history (replay_input kept) profile rolling_summary None counter NotYetAppended None Cold))"

section \<open>What the steps keep\<close>

definition shape :: "trim_message \<Rightarrow> nat \<times> trim_role \<times> bool" where
  "shape m = (tm_index m, tm_role m, tm_is_summary m)"

definition reals :: "trim_message list \<Rightarrow> trim_message list" where
  "reals ms = filter (\<lambda>m. \<not> tm_is_summary m) ms"

text \<open>Summaries stand only at the front and ride a user message, as the trimmer itself puts them.\<close>

definition summary_first :: "trim_message list \<Rightarrow> bool" where
  "summary_first ms \<longleftrightarrow>
     dropWhile tm_is_summary ms = reals ms \<and>
     (\<forall>m \<in> set ms. tm_is_summary m \<longrightarrow> tm_role m = User)"

lemma rposition_map: "rposition p (map f xs) = rposition (p \<circ> f) xs"
  by (induction xs) (auto split: option.split)

lemma rposition_append:
  "rposition p (xs @ ys) =
     (case rposition p ys of Some i \<Rightarrow> Some (length xs + i) | None \<Rightarrow> rposition p xs)"
  by (induction xs) (auto split: option.split)

lemma rposition_None: "rposition p xs = None \<longleftrightarrow> (\<forall>x \<in> set xs. \<not> p x)"
  by (induction xs) (auto split: option.split)

lemma rposition_drop:
  assumes "rposition p xs = Some k" "j \<le> k"
  shows "rposition p (drop j xs) = Some (k - j)"
proof (cases "rposition p (drop j xs)")
  case None
  have "rposition p (take j xs @ drop j xs) = Some k" using assms(1) by simp
  then have "rposition p (take j xs) = Some k" using None by (simp only: rposition_append) simp
  then show ?thesis using rposition_lt [of p "take j xs" k] assms(2) by simp
next
  case (Some i)
  have "rposition p (take j xs @ drop j xs) = Some k" using assms(1) by simp
  then have "length (take j xs) + i = k" using Some by (simp only: rposition_append) simp
  moreover have "j \<le> length xs" using rposition_lt [OF assms(1)] assms(2) by simp
  ultimately show ?thesis using Some by simp
qed

lemma real_user_shape: "real_user = (\<lambda>(i, r, s). r = User \<and> \<not> s) \<circ> shape"
  by (auto simp: real_user_def shape_def fun_eq_iff)

lemma last_turn_shape: "map shape ms = map shape ms' \<Longrightarrow> last_turn_start ms = last_turn_start ms'"
  unfolding last_turn_start_def real_user_shape rposition_map [symmetric] by simp

lemma last_turn_lt: "0 < last_turn_start ms \<Longrightarrow> last_turn_start ms < length ms"
  by (auto simp: last_turn_start_def dest: rposition_lt split: option.splits)

lemma reals_shape: "map shape ms = map shape ms' \<Longrightarrow> map shape (reals ms) = map shape (reals ms')"
proof -
  have "map shape (reals ms) = filter (\<lambda>(i, r, s). \<not> s) (map shape ms)" for ms
    by (auto simp: reals_def shape_def filter_map comp_def)
  then show "map shape ms = map shape ms' \<Longrightarrow> map shape (reals ms) = map shape (reals ms')" by simp
qed

lemma length_rewrite [simp]: "length (rewrite_texts f ms) = length ms"
  by (simp add: rewrite_texts_def)

lemma nth_rewrite:
  "i < length ms \<Longrightarrow> rewrite_texts f ms ! i =
     (case f i (ms ! i) of None \<Rightarrow> ms ! i | Some s \<Rightarrow> (ms ! i)\<lparr>tm_text := s\<rparr>)"
  by (simp add: rewrite_texts_def nth_enumerate_eq)

lemma shape_rewrite [simp]: "map shape (rewrite_texts f ms) = map shape ms"
  by (rule nth_equalityI) (simp_all add: nth_rewrite shape_def split: option.split)

lemma rewritten_pos:
  assumes "m \<in> set ms" "\<And>i. f i m \<noteq> None"
  shows "0 < rewritten f ms"
proof -
  obtain i where "i < length ms" "ms ! i = m" using assms(1) by (auto simp: in_set_conv_nth)
  then have "(i, m) \<in> set (filter (\<lambda>(i, m). f i m \<noteq> None) (List.enumerate 0 ms))"
    using assms(2) by (auto simp: in_set_enumerate_eq)
  then show ?thesis unfolding rewritten_def by (metis length_pos_if_in_set)
qed

lemma in_rewrite:
  assumes "m \<in> set (drop k ms)" "\<And>i. k \<le> i \<Longrightarrow> f i m = g"
  shows "(case g of None \<Rightarrow> m | Some s \<Rightarrow> m\<lparr>tm_text := s\<rparr>) \<in> set (drop k (rewrite_texts f ms))"
proof -
  obtain i where i: "i < length ms - k" "ms ! (k + i) = m"
    using assms(1) by (auto simp: in_set_conv_nth)
  then have "drop k (rewrite_texts f ms) ! i = (case g of None \<Rightarrow> m | Some s \<Rightarrow> m\<lparr>tm_text := s\<rparr>)"
    using assms(2) [of "k + i"] i by (cases g) (simp_all add: nth_rewrite)
  then show ?thesis using i(1) by (metis length_drop length_rewrite nth_mem)
qed

lemma shape_refresh: "map shape (refresh_summary body ms) = map shape ms"
  by (induction body ms rule: refresh_summary.induct) (simp_all add: shape_def)

lemma nth_refresh:
  "i < length ms \<Longrightarrow> \<not> tm_is_summary (ms ! i) \<Longrightarrow> refresh_summary body ms ! i = ms ! i"
proof (induction body ms arbitrary: i rule: refresh_summary.induct)
  case (2 body m ms)
  then show ?case by (cases i) auto
qed simp

lemma reals_refresh [simp]: "reals (refresh_summary body ms) = reals ms"
  by (induction body ms rule: refresh_summary.induct) (simp_all add: reals_def)

lemma splice_cases:
  assumes "splice_summary r ms = (ms', b)"
  shows "reals ms' = reals ms \<and>
    (map shape ms' = map shape ms \<or>
     (\<exists>m. ms' = m # ms \<and> tm_is_summary m \<and> tm_role m = User))"
  using assms
  by (auto simp: splice_summary_def Let_def shape_refresh reals_def reals_refresh [unfolded reals_def]
      split: option.splits if_splits)

lemma splice_head:
  assumes "splice_summary (Some s) ms = (ms', b)" "summary_first ms"
  shows "\<exists>m rest. ms' = m # rest \<and> tm_is_summary m \<and> tm_text m = summary_body s \<and>
    tm_role m = User"
proof (cases "find tm_is_summary ms")
  case None
  then show ?thesis using assms(1) by (auto simp: splice_summary_def Let_def)
next
  case (Some e)
  then have "e \<in> set ms" "tm_is_summary e" by (auto simp: find_Some_iff)
  then obtain m rest where ms: "ms = m # rest" by (cases ms) auto
  have "tm_is_summary m"
  proof (rule ccontr)
    assume "\<not> tm_is_summary m"
    then have "reals ms = ms" using assms(2) ms by (simp add: summary_first_def)
    then have "\<not> tm_is_summary e" using \<open>e \<in> set ms\<close> by (metis (mono_tags, lifting) mem_Collect_eq reals_def set_filter)
    with \<open>tm_is_summary e\<close> show False by simp
  qed
  then show ?thesis
    using assms ms Some
    by (auto simp: splice_summary_def Let_def summary_first_def split: if_splits)
qed

lemma summary_first_split:
  "summary_first ms \<Longrightarrow> ms = takeWhile tm_is_summary ms @ reals ms"
  by (simp add: summary_first_def) (metis takeWhile_dropWhile_id)

lemma summary_first_shape: "map shape ms = map shape ms' \<Longrightarrow> summary_first ms \<Longrightarrow> summary_first ms'"
proof -
  assume shapes: "map shape ms = map shape ms'" and first: "summary_first ms"
  have drop: "length (dropWhile tm_is_summary ms) = length (dropWhile (\<lambda>(i, r, s). s) (map shape ms))" for ms
    by (simp add: dropWhile_map shape_def comp_def)
  have "length (dropWhile tm_is_summary ms') = length (reals ms')"
    using first drop [of ms] drop [of ms'] shapes reals_shape [OF shapes]
    by (metis length_map summary_first_def)
  moreover have "reals ms' = filter (\<lambda>m. \<not> tm_is_summary m) (dropWhile tm_is_summary ms')"
    by (induction ms') (simp_all add: reals_def)
  ultimately have "dropWhile tm_is_summary ms' = reals ms'"
    by (metis length_filter_less nless_le filter_True)
  moreover have "(\<forall>m \<in> set ms. tm_is_summary m \<longrightarrow> tm_role m = User) \<longleftrightarrow>
      (\<forall>x \<in> set (map shape ms). snd (snd x) \<longrightarrow> fst (snd x) = User)" for ms
    by (simp add: shape_def)
  ultimately show "summary_first ms'"
    using first shapes unfolding summary_first_def by metis
qed

section \<open>Dropping turns\<close>

lemma last_turn_split:
  assumes "\<forall>m \<in> set S. tm_is_summary m"
  shows "last_turn_start (S @ R) =
    (case rposition real_user R of Some i \<Rightarrow> length S + i | None \<Rightarrow> 0)"
proof -
  have "rposition real_user S = None" using assms by (auto simp: rposition_None real_user_def)
  then show ?thesis by (simp add: last_turn_start_def rposition_append split: option.split)
qed

lemma drop_last_turn_split:
  assumes "\<forall>m \<in> set S. tm_is_summary m"
  shows "drop (last_turn_start (S @ R)) (S @ R) = drop (last_turn_start R) R \<or> last_turn_start R = 0"
  using last_turn_split [OF assms, of R] by (auto simp: last_turn_start_def split: option.splits)

lemma first_real_split:
  assumes "\<forall>m \<in> set S. tm_is_summary m" "\<forall>m \<in> set R. \<not> tm_is_summary m" "R \<noteq> []"
  shows "first_real (S @ R) = length S"
proof -
  have "position (\<lambda>m. \<not> tm_is_summary m) (S @ R) = Some (length S)"
    using assms(1) assms(2,3) by (induction S) (auto simp: neq_Nil_conv)
  then show ?thesis by (simp add: first_real_def)
qed

lemma position_Some_le: "i < length xs \<Longrightarrow> p (xs ! i) \<Longrightarrow> \<exists>j \<le> i. position p xs = Some j \<and> p (xs ! j)"
proof (induction xs arbitrary: i)
  case (Cons x xs)
  then show ?case by (cases i) (auto, fastforce)
qed simp

lemma drop_turns_split:
  assumes "drop_turns counter budget ms n = (ms', n')" "ms = S @ R"
    "\<forall>m \<in> set S. tm_is_summary m" "\<forall>m \<in> set R. \<not> tm_is_summary m"
  shows "\<exists>j \<le> last_turn_start R. ms' = S @ drop j R \<and> n \<le> n' \<and> (n' = n \<longrightarrow> j = 0) \<and>
    (0 < j \<longrightarrow> j < length R \<and> real_user (R ! j)) \<and>
    (estimate_tokens counter ms' \<le> budget \<or> j = last_turn_start R)"
  using assms
proof (induction counter budget ms n arbitrary: R rule: drop_turns.induct)
  case (1 counter budget ms n)
  note ms = \<open>ms = S @ R\<close>
  show ?case
  proof (cases "estimate_tokens counter ms \<le> budget")
    case True
    then have "(ms', n') = (ms, n)"
      using 1(2) by (simp add: drop_turns.simps [of counter budget ms])
    then show ?thesis using True ms by (intro exI [of _ 0]) simp
  next
    case over: False
    show ?thesis
    proof (cases "last_turn_start R")
      case 0
      then have "last_turn_start ms \<le> first_real ms"
        using last_turn_split [OF 1(4), of R] first_real_split [OF 1(4,5)] ms
        by (cases "R = []") (auto simp: last_turn_start_def split: option.splits)
      then have "(ms', n') = (ms, n)"
        using 1(2) over by (simp add: drop_turns.simps [of counter budget ms])
      then show ?thesis using ms 0 by (intro exI [of _ 0]) simp
    next
      case (Suc k0)
      then obtain k where k: "rposition real_user R = Some k" "0 < k" "last_turn_start R = k"
        by (auto simp: last_turn_start_def split: option.splits)
      then have kR: "k < length R" "real_user (R ! k)" using rposition_lt by metis+
      have "R \<noteq> []" using kR(1) by auto
      then have first: "first_real ms = length S" and start: "last_turn_start ms = length S + k"
        using first_real_split [OF 1(4,5)] last_turn_split [OF 1(4), of R] k ms by auto
      have "k - 1 < length (tl R)" "real_user (tl R ! (k - 1))"
        using kR k(2) by (simp_all add: nth_tl)
      then obtain i where i: "i \<le> k - 1" "position real_user (tl R) = Some i" "real_user (tl R ! i)"
        using position_Some_le [of "k - 1" "tl R" real_user] by blast
      define j1 where "j1 = Suc i"
      have j1: "0 < j1" "j1 \<le> k" "real_user (R ! j1)"
        using i k(2) kR by (simp_all add: j1_def nth_tl)
      have "drop (first_real ms + 1) ms = tl R" using first ms by (simp add: drop_Suc)
      then have "turn_end ms = length S + j1" using i(2) first by (simp add: turn_end_def j1_def)
      then have next_ms: "take (first_real ms) ms @ drop (turn_end ms) ms = S @ drop j1 R"
        using first ms by simp
      have lt: "\<not> first_real ms \<ge> last_turn_start ms" using first start k(2) by simp
      have rest: "drop_turns counter budget (S @ drop j1 R) (n + 1) = (ms', n')"
        using 1(2) over lt next_ms by (simp add: drop_turns.simps [of counter budget ms])
      then obtain j2 where j2: "j2 \<le> last_turn_start (drop j1 R)" "ms' = S @ drop j2 (drop j1 R)"
        "n + 1 \<le> n'" "0 < j2 \<longrightarrow> j2 < length (drop j1 R) \<and> real_user (drop j1 R ! j2)"
        "estimate_tokens counter ms' \<le> budget \<or> j2 = last_turn_start (drop j1 R)"
        using 1(1) [OF over lt, unfolded next_ms, OF rest refl 1(4)] 1(5) by (auto dest: in_set_dropD)
      have "last_turn_start (drop j1 R) = k - j1"
        using rposition_drop [OF k(1) j1(2)] by (simp add: last_turn_start_def)
      then show ?thesis
        using j1 j2 k(3) kR by (intro exI [of _ "j1 + j2"]) (cases "j2 = 0", auto simp: add.commute)
    qed
  qed
qed

section \<open>The whole trim\<close>

text \<open>A trim, step by step.\<close>

lemma trim_history_steps:
  obtains ms1 ms2 ms3 ms4 spliced aged cold dropped where
    "ms1 = rewrite_texts (stale_text (spare_last_user cur ms)) ms"
    "ms2 = rewrite_texts long_text ms1"
    "splice_summary r ms2 = (ms3, spliced)"
    "weigh_age counter (hb_tokens (effective_history_budget p real)) h c ms3 = (ms4, aged, cold)"
    "drop_turns counter (hb_tokens (effective_history_budget p real)) ms4 0 =
       (to_messages (trim_history ms p r real counter cur h c), dropped)"
    "to_dropped_turns (trim_history ms p r real counter cur h c) = dropped"
    "to_estimated_tokens (trim_history ms p r real counter cur h c) =
       estimate_tokens counter (to_messages (trim_history ms p r real counter cur h c))"
    "0 < rewritten long_text ms1 \<Longrightarrow> to_changed (trim_history ms p r real counter cur h c)"
proof -
  define b where "b = hb_tokens (effective_history_budget p real)"
  define ms1 where "ms1 = rewrite_texts (stale_text (spare_last_user cur ms)) ms"
  define ms2 where "ms2 = rewrite_texts long_text ms1"
  obtain ms3 spliced where 3: "splice_summary r ms2 = (ms3, spliced)" by fastforce
  obtain ms4 aged cold where 4: "weigh_age counter b h c ms3 = (ms4, aged, cold)"
    by (metis prod_cases3)
  obtain ms5 dropped where 5: "drop_turns counter b ms4 0 = (ms5, dropped)" by fastforce
  show thesis
    by (rule that [of ms1 ms2 ms3 spliced ms4 aged cold dropped])
       (use 3 4 5 in \<open>simp_all add: trim_history_def Let_def ms1_def ms2_def b_def\<close>)
qed

lemma weigh_age_shape: "weigh_age counter b h c ms = (ms', n, cold) \<Longrightarrow> map shape ms' = map shape ms"
  by (auto simp: weigh_age_def Let_def split: option.splits if_splits)

lemma weigh_age_last_turn:
  assumes "weigh_age counter b h c ms = (ms', n, cold)" "m \<in> set (drop (last_turn_start ms) ms)"
  shows "m \<in> set (drop (last_turn_start ms') ms')"
proof -
  have lts: "last_turn_start ms' = last_turn_start ms"
    using last_turn_shape [OF weigh_age_shape [OF assms(1)]] .
  consider "ms' = ms"
    | hs where "ms' = rewrite_texts (aged_text hs (last_turn_start ms)) ms"
    using assms(1) by (auto simp: weigh_age_def Let_def split: option.splits if_splits)
  then show ?thesis
  proof cases
    case 2
    have "aged_text hs (last_turn_start ms) i m = None" if "last_turn_start ms \<le> i" for i
      using that by (simp add: aged_text_def)
    with in_rewrite [OF assms(2), where f = "aged_text hs (last_turn_start ms)" and g = None]
    show ?thesis unfolding lts unfolding 2 by simp
  qed (use assms(2) in simp)
qed

lemma weigh_age_head:
  assumes "weigh_age counter b h c (m # ms) = (ms', n, cold)" "tm_role m \<noteq> ToolResult"
  shows "\<exists>rest. ms' = m # rest"
proof -
  have "\<exists>rest. rewrite_texts (aged_text hs k) (m # ms) = m # rest" for hs k
    using assms(2) by (simp add: rewrite_texts_def aged_text_def)
  then show ?thesis
    using assms(1) by (auto simp: weigh_age_def Let_def split: option.splits if_splits)
qed

lemma splice_last_turn:
  assumes "splice_summary r ms = (ms', b)" "m \<in> set (drop (last_turn_start ms) ms)"
    "\<not> tm_is_summary m"
  shows "m \<in> set (drop (last_turn_start ms') ms')"
proof -
  have fresh: "m \<in> set (drop (last_turn_start (s # ms)) (s # ms))" if "tm_is_summary s" for s
    using last_turn_split [of "[s]" ms] that assms(2)
    by (auto simp: last_turn_start_def split: option.splits dest: in_set_dropD)
  have refreshed: "m \<in> set (drop (last_turn_start (refresh_summary x ms)) (refresh_summary x ms))" for x
  proof -
    obtain i where i: "i < length ms - last_turn_start ms" "ms ! (last_turn_start ms + i) = m"
      using assms(2) by (auto simp: in_set_conv_nth)
    then have "refresh_summary x ms ! (last_turn_start ms + i) = m"
      using nth_refresh [of "last_turn_start ms + i" ms x] assms(3) by simp
    moreover have "length (refresh_summary x ms) = length ms"
      using shape_refresh [of x ms] by (metis length_map)
    ultimately show ?thesis
      using i(1) last_turn_shape [OF shape_refresh] by (auto simp: in_set_conv_nth)
  qed
  show ?thesis
    using assms fresh refreshed
    by (auto simp: splice_summary_def Let_def split: option.splits if_splits)
qed

lemma summary_first_splice:
  assumes "splice_summary r ms = (ms', b)" "summary_first ms"
  shows "summary_first ms'"
  using splice_cases [OF assms(1)] summary_first_shape [OF _ assms(2), of ms'] assms(2)
  by (auto simp: summary_first_def reals_def)

lemma reals_split:
  "\<forall>m \<in> set S. tm_is_summary m \<Longrightarrow> \<forall>m \<in> set R. \<not> tm_is_summary m \<Longrightarrow> reals (S @ R) = R"
  by (simp add: reals_def)

lemma trim_aux:
  fixes ms p r real counter cur h c
  defines "out \<equiv> trim_history ms p r real counter cur h c"
  assumes "summary_first ms"
  obtains ms3 spliced ms4 j where
    "splice_summary r (rewrite_texts long_text (rewrite_texts (stale_text (spare_last_user cur ms)) ms)) =
       (ms3, spliced)"
    "\<exists>aged cold. weigh_age counter (hb_tokens (effective_history_budget p real)) h c ms3 = (ms4, aged, cold)"
    "map shape (reals ms4) = map shape (reals ms)"
    "to_messages out = takeWhile tm_is_summary ms4 @ drop j (reals ms4)"
    "reals (to_messages out) = drop j (reals ms4)"
    "ms4 = takeWhile tm_is_summary ms4 @ reals ms4"
    "j \<le> last_turn_start (reals ms)" "to_dropped_turns out = 0 \<Longrightarrow> j = 0"
    "0 < j \<Longrightarrow> j < length (reals ms) \<and> real_user (reals ms4 ! j)"
    "to_estimated_tokens out \<le> hb_tokens (effective_history_budget p real) \<or> j = last_turn_start (reals ms)"
    "to_estimated_tokens out = estimate_tokens counter (to_messages out)"
proof (rule trim_history_steps [of cur ms r counter p real h c])
  let ?b = "hb_tokens (effective_history_budget p real)"
  fix ms1 ms2 ms3 ms4 spliced aged cold dropped
  assume 1: "ms1 = rewrite_texts (stale_text (spare_last_user cur ms)) ms"
    and 2: "ms2 = rewrite_texts long_text ms1"
    and 3: "splice_summary r ms2 = (ms3, spliced)"
    and 4: "weigh_age counter ?b h c ms3 = (ms4, aged, cold)"
    and 5: "drop_turns counter ?b ms4 0 = (to_messages (trim_history ms p r real counter cur h c), dropped)"
    and n: "to_dropped_turns (trim_history ms p r real counter cur h c) = dropped"
    and est: "to_estimated_tokens (trim_history ms p r real counter cur h c) =
       estimate_tokens counter (to_messages (trim_history ms p r real counter cur h c))"
  have shape2: "map shape ms = map shape ms2" by (simp add: 1 2)
  then have first4: "summary_first ms4"
    using summary_first_shape [OF weigh_age_shape [OF 4, symmetric]]
      summary_first_splice [OF 3] summary_first_shape [OF shape2 assms(2)] by blast
  have R: "map shape (reals ms4) = map shape (reals ms)"
    using reals_shape [OF weigh_age_shape [OF 4]] splice_cases [OF 3] reals_shape [OF shape2] by simp
  note split = summary_first_split [OF first4]
  have S: "\<forall>m \<in> set (takeWhile tm_is_summary ms4). tm_is_summary m"
    by (auto dest: set_takeWhileD)
  have no: "\<forall>m \<in> set (reals ms4). \<not> tm_is_summary m" by (simp add: reals_def)
  have lts: "last_turn_start (reals ms4) = last_turn_start (reals ms)" by (rule last_turn_shape [OF R])
  have len: "length (reals ms4) = length (reals ms)" using arg_cong [OF R, of length] by simp
  obtain j where j: "j \<le> last_turn_start (reals ms4)"
    "to_messages out = takeWhile tm_is_summary ms4 @ drop j (reals ms4)"
    "dropped = 0 \<longrightarrow> j = 0" "0 < j \<longrightarrow> j < length (reals ms4) \<and> real_user (reals ms4 ! j)"
    "estimate_tokens counter (to_messages out) \<le> ?b \<or> j = last_turn_start (reals ms4)"
    using drop_turns_split [OF 5 split S no] unfolding out_def by blast
  have kept: "reals (to_messages out) = drop j (reals ms4)"
    unfolding j(2) by (rule reals_split [OF S]) (use no in \<open>auto dest: in_set_dropD\<close>)
  show thesis
    by (rule that [of ms3 spliced ms4 j])
       (use 1 2 3 4 R j kept split lts len n est in \<open>auto simp: out_def\<close>)
qed

section \<open>Properties\<close>

text \<open>
  C17: Trimming drops old turns whole and nothing else. Of a conversation whose summaries stand at its
  front, whatever the budget, the counter, the cache and the ages, the messages left are those from some
  point on, in order, none lost between. The last turn is always kept; when something was dropped, the
  first message left is a member's, so no answer or tool result stands without its turn; and either
  the estimate is within the budget or nothing but the last turn is left. A rolling summary heads the
  result.
\<close>

theorem trim_keeps_whole_turns:
  assumes "summary_first ms"
  shows "\<exists>j \<le> last_turn_start (reals ms).
    map shape (reals (to_messages (trim_history ms p r real counter cur h c))) =
      map shape (drop j (reals ms)) \<and>
    (j = 0 \<or> real_user (reals ms ! j)) \<and>
    (to_dropped_turns (trim_history ms p r real counter cur h c) > 0 \<or> j = 0) \<and>
    (to_estimated_tokens (trim_history ms p r real counter cur h c)
       \<le> hb_tokens (effective_history_budget p real) \<or> j = last_turn_start (reals ms)) \<and>
    to_estimated_tokens (trim_history ms p r real counter cur h c) =
      estimate_tokens counter (to_messages (trim_history ms p r real counter cur h c)) \<and>
    (\<forall>s. r = Some s \<longrightarrow>
      (\<exists>m rest. to_messages (trim_history ms p r real counter cur h c) = m # rest \<and>
        tm_is_summary m \<and> tm_text m = summary_body s))"
proof (rule trim_aux [OF assms, of r cur counter p real h c])
  fix ms3 spliced ms4 j
  let ?out = "trim_history ms p r real counter cur h c"
  assume 3: "splice_summary r (rewrite_texts long_text
      (rewrite_texts (stale_text (spare_last_user cur ms)) ms)) = (ms3, spliced)"
    and 4: "\<exists>aged cold. weigh_age counter (hb_tokens (effective_history_budget p real)) h c ms3 =
      (ms4, aged, cold)"
    and R: "map shape (reals ms4) = map shape (reals ms)"
    and out: "to_messages ?out = takeWhile tm_is_summary ms4 @ drop j (reals ms4)"
    and kept: "reals (to_messages ?out) = drop j (reals ms4)"
    and j: "j \<le> last_turn_start (reals ms)" "to_dropped_turns ?out = 0 \<Longrightarrow> j = 0"
      "0 < j \<Longrightarrow> j < length (reals ms) \<and> real_user (reals ms4 ! j)"
    and est: "to_estimated_tokens ?out \<le> hb_tokens (effective_history_budget p real) \<or>
        j = last_turn_start (reals ms)"
      "to_estimated_tokens ?out = estimate_tokens counter (to_messages ?out)"
  have same: "shape (reals ms4 ! j) = shape (reals ms ! j)" if "j < length (reals ms)"
    using R that by (metis length_map nth_map)
  have user: "j = 0 \<or> real_user (reals ms ! j)"
    using j(3) same by (cases "j = 0") (simp_all add: real_user_shape)
  have head: "\<exists>m rest. to_messages ?out = m # rest \<and> tm_is_summary m \<and> tm_text m = summary_body s"
    if r: "r = Some s" for s
  proof -
    obtain m rest where m: "ms3 = m # rest" "tm_is_summary m" "tm_text m = summary_body s"
      "tm_role m = User"
      using splice_head [of s _ ms3 spliced] 3 r summary_first_shape [OF _ assms]
      by (metis shape_rewrite)
    then have "\<exists>rest. ms4 = m # rest"
      using 4 weigh_age_head [of counter _ h c m rest ms4] by auto
    then show ?thesis using m out by auto
  qed
  have dropped: "to_dropped_turns ?out > 0 \<or> j = 0" using j(2) by blast
  have shapes: "map shape (reals (to_messages ?out)) = map shape (drop j (reals ms))"
    using R kept by (simp add: drop_map [symmetric])
  show ?thesis
    by (rule exI [of _ j]) (use shapes j(1) dropped est user head in blast)
qed

definition example_profile :: compaction_profile where
  "example_profile =
     \<lparr>cp_memory_token_budget = 200, cp_max_memory_fragments = 3, cp_system_prompt_budget = 1500,
      cp_history_token_budget = 1200, cp_output_reserve_tokens = 768, cp_context_window_tokens = 4096,
      cp_prompt_window_tokens = 4096\<rparr>"

definition example_talk :: "trim_message list" where
  "example_talk =
     [\<lparr>tm_index = 0, tm_role = User, tm_text = lit ''old'', tm_is_summary = False, tm_age_secs = None\<rparr>,
      \<lparr>tm_index = 1, tm_role = Assistant, tm_text = lit ''done'', tm_is_summary = False, tm_age_secs = None\<rparr>,
      \<lparr>tm_index = 2, tm_role = User, tm_text = lit ''new'', tm_is_summary = False, tm_age_secs = None\<rparr>,
      \<lparr>tm_index = 3, tm_role = ToolResult, tm_text = replicate 3000 97, tm_is_summary = False,
       tm_age_secs = None\<rparr>]"

lemma example_talk_first: "summary_first example_talk" "last_turn_start (reals example_talk) = 2"
  "last_turn_start example_talk = 2"
  by (simp_all add: summary_first_def example_talk_def reals_def last_turn_start_def real_user_def)

theorem trim_keeps_whole_turns_witness:
  "\<exists>j \<le> 2. map shape (reals (to_messages
       (trim_history example_talk example_profile (Some (lit ''so far'')) None (\<lambda>_. 100) NotYetAppended None Cold))) =
     map shape (drop j (reals example_talk))"
  using trim_keeps_whole_turns [OF example_talk_first(1), of example_profile "Some (lit ''so far'')" None "\<lambda>_. 100"
      NotYetAppended None Cold] example_talk_first(2) by auto

text \<open>A long tool result of the last turn survives a trim as a text still over the cap.\<close>

lemma cut_result_still_long:
  assumes "summary_first ms" "m \<in> set (drop (last_turn_start ms) ms)"
    "tm_role m = ToolResult" "\<not> tm_is_summary m" "TOOL_RESULT_MAX_BYTES < utf8_len (tm_text m)"
  shows "\<exists>cut \<in> set (to_messages (trim_history ms p r real counter cur h c)).
    tm_role cut = ToolResult \<and> TOOL_RESULT_MAX_BYTES < utf8_len (tm_text cut)"
proof (rule trim_aux [OF assms(1), of r cur counter p real h c])
  fix ms3 spliced ms4 j
  let ?out = "trim_history ms p r real counter cur h c"
  let ?ms1 = "rewrite_texts (stale_text (spare_last_user cur ms)) ms"
  assume 3: "splice_summary r (rewrite_texts long_text ?ms1) = (ms3, spliced)"
    and 4: "\<exists>aged cold. weigh_age counter (hb_tokens (effective_history_budget p real)) h c ms3 =
      (ms4, aged, cold)"
    and R: "map shape (reals ms4) = map shape (reals ms)"
    and out: "to_messages ?out = takeWhile tm_is_summary ms4 @ drop j (reals ms4)"
    and ms4: "ms4 = takeWhile tm_is_summary ms4 @ reals ms4"
    and j: "j \<le> last_turn_start (reals ms)"
  obtain s where s: "truncate_head_tail (tm_text m) TOOL_RESULT_MAX_BYTES = Some s"
    using assms(5) truncate_None_iff [of "tm_text m" TOOL_RESULT_MAX_BYTES] by (metis not_less option.exhaust)
  have over: "TOOL_RESULT_MAX_BYTES < utf8_len s"
    using truncate_len(1) [OF s] by (simp add: TOOL_RESULT_MAX_BYTES_def)
  define cut where "cut = m\<lparr>tm_text := s\<rparr>"
  have "stale_text sp i m = None" for sp i using assms(3) by (simp add: stale_text_def real_user_def)
  then have "m \<in> set (drop (last_turn_start ms) ?ms1)"
    using in_rewrite [OF assms(2), where f = "stale_text (spare_last_user cur ms)" and g = None] by simp
  moreover have "long_text i m = Some s" for i using assms(3) s by (simp add: long_text_def)
  ultimately have "cut \<in> set (drop (last_turn_start ms) (rewrite_texts long_text ?ms1))"
    using in_rewrite [of m "last_turn_start ms" ?ms1, where f = long_text and g = "Some s"]
    by (simp add: cut_def)
  moreover have "last_turn_start (rewrite_texts long_text ?ms1) = last_turn_start ms"
    by (rule last_turn_shape) simp
  ultimately have "cut \<in> set (drop (last_turn_start ms3) ms3)"
    using splice_last_turn [OF 3, of cut] assms(4) by (simp add: cut_def)
  then have "cut \<in> set (drop (last_turn_start ms4) ms4)"
    using 4 weigh_age_last_turn by blast
  moreover have "\<forall>m \<in> set (takeWhile tm_is_summary ms4). tm_is_summary m"
    by (auto dest: set_takeWhileD)
  then have "drop (last_turn_start ms4) ms4 = drop (last_turn_start (reals ms4)) (reals ms4) \<or>
      last_turn_start (reals ms4) = 0"
    by (rule drop_last_turn_split [of "takeWhile tm_is_summary ms4" "reals ms4", folded ms4])
  moreover have "cut \<in> set (reals ms4) \<longleftrightarrow> cut \<in> set ms4"
    using assms(4) by (simp add: reals_def cut_def)
  moreover have "j \<le> last_turn_start (reals ms4)" using j last_turn_shape [OF R] by simp
  ultimately have "cut \<in> set (drop j (reals ms4))"
    using set_drop_subset_set_drop [of j "last_turn_start (reals ms4)" "reals ms4"]
    by (auto dest: in_set_dropD)
  then have "cut \<in> set (to_messages ?out)" using out by simp
  then show ?thesis using assms(3) over by (intro bexI [of _ cut]) (simp_all add: cut_def)
qed

text \<open>
  C35: A tool result that was cut is cut again by every trim after. However a conversation was trimmed,
  when its last turn holds a tool result over the cap, trimming what came out reports a change again,
  whatever the budget, the cache and the horizon: the cut text with its marker is itself over the cap,
  and unlike the cut by age this one has no allowance for the marker.
\<close>

theorem cut_result_is_cut_again:
  assumes "summary_first ms" "m \<in> set (drop (last_turn_start ms) ms)"
    "tm_role m = ToolResult" "\<not> tm_is_summary m" "TOOL_RESULT_MAX_BYTES < utf8_len (tm_text m)"
  shows "to_changed (trim_history (to_messages (trim_history ms p r real counter cur h c))
    p' r' real' counter' cur' h' c')"
proof -
  let ?out = "trim_history ms p r real counter cur h c"
  obtain cut where cut: "cut \<in> set (drop 0 (to_messages ?out))" "tm_role cut = ToolResult"
    "TOOL_RESULT_MAX_BYTES < utf8_len (tm_text cut)"
    using cut_result_still_long [OF assms, of p r real counter cur h c] by auto
  show ?thesis
  proof (rule trim_history_steps [of cur' "to_messages ?out" r' counter' p' real' h' c'])
    fix ms1
    assume ms1: "ms1 = rewrite_texts (stale_text (spare_last_user cur' (to_messages ?out))) (to_messages ?out)"
      and changed: "0 < rewritten long_text ms1 \<Longrightarrow> ?thesis"
    have "stale_text sp i cut = None" for sp i
      using cut(2) by (simp add: stale_text_def real_user_def)
    then have "cut \<in> set ms1"
      using in_rewrite [OF cut(1), where g = None and
          f = "stale_text (spare_last_user cur' (to_messages ?out))"] ms1 by simp
    moreover have "long_text i cut \<noteq> None" for i
      using cut(2,3) truncate_None_iff [of "tm_text cut" TOOL_RESULT_MAX_BYTES]
      by (simp add: long_text_def)
    ultimately have "0 < rewritten long_text ms1" by (rule rewritten_pos)
    then show ?thesis by (rule changed)
  qed
qed

theorem cut_result_is_cut_again_witness:
  "to_changed (trim_history (to_messages
       (trim_history example_talk example_profile None None (\<lambda>_. 0) NotYetAppended None Warm))
     example_profile None None (\<lambda>_. 0) NotYetAppended None Warm)"
proof -
  let ?m = "\<lparr>tm_index = 3, tm_role = ToolResult, tm_text = replicate 3000 97, tm_is_summary = False,
      tm_age_secs = None\<rparr>"
  have "utf8_len (replicate n 97) = n" for n by (induction n) (simp_all add: char_len_def)
  moreover have "?m \<in> set (drop (last_turn_start example_talk) example_talk)"
    unfolding example_talk_first(3) by (simp add: example_talk_def)
  ultimately show ?thesis
    by (intro cut_result_is_cut_again [OF example_talk_first(1), of ?m])
       (simp_all add: TOOL_RESULT_MAX_BYTES_def)
qed

text \<open>
  A cut keeps both ends, says how much it took, and the cut by age settles at once. The head and
  the tail left are those of the text, at least three bytes short of the cap at most six, with the
  number of bytes between them named; and a result that was cut for its age is never cut for its age
  again, however old it grows and wherever it stands.
\<close>

theorem aged_cut_settles:
  assumes "truncate_head_tail s AGED_TOOL_RESULT_MAX_BYTES = Some t" "utf8_len s < 2 ^ 64"
  shows "(\<exists>h mid e. s = h @ mid @ e \<and> t = h @ elided (utf8_len mid) @ [10] @ e \<and>
      utf8_len h + utf8_len e \<le> AGED_TOOL_RESULT_MAX_BYTES \<and>
      AGED_TOOL_RESULT_MAX_BYTES \<le> utf8_len h + utf8_len e + 6) \<and>
    aged_text horizon_secs keep_from i (m\<lparr>tm_text := t\<rparr>) = None"
proof -
  have cap: "64 \<le> AGED_TOOL_RESULT_MAX_BYTES"
    by (simp add: AGED_TOOL_RESULT_MAX_BYTES_def TOOL_RESULT_MAX_BYTES_def)
  have "utf8_len t \<le> AGED_FIXED_POINT_BYTES"
    using truncate_len(2) [OF assms(1) cap assms(2)] by (simp add: AGED_FIXED_POINT_BYTES_def)
  then have "aged_text horizon_secs keep_from i (m\<lparr>tm_text := t\<rparr>) = None"
    by (simp add: aged_text_def)
  with truncate_Some [OF assms(1) cap] show ?thesis by blast
qed

theorem aged_cut_settles_witness:
  "\<exists>t. truncate_head_tail (replicate 3000 97) AGED_TOOL_RESULT_MAX_BYTES = Some t \<and>
     aged_text 0 9 1 ((example_talk ! 3)\<lparr>tm_text := t\<rparr>) = None"
proof -
  have len: "utf8_len (replicate n 97) = n" for n by (induction n) (simp_all add: char_len_def)
  then obtain t where t: "truncate_head_tail (replicate 3000 97) AGED_TOOL_RESULT_MAX_BYTES = Some t"
    using truncate_None_iff [of "replicate 3000 97" AGED_TOOL_RESULT_MAX_BYTES]
    by (cases "truncate_head_tail (replicate 3000 97) AGED_TOOL_RESULT_MAX_BYTES")
       (auto simp: AGED_TOOL_RESULT_MAX_BYTES_def TOOL_RESULT_MAX_BYTES_def)
  then show ?thesis using aged_cut_settles [OF t] len [of 3000] by auto
qed

text \<open>
  The history's budget leaves room for everything else. Above its floor it fits the window beside
  the preamble and the output the model is promised, stays within what the profile declares, and gives
  back what the last real prompt took over the ceiling.
\<close>

theorem history_fits_window:
  assumes "MIN_HISTORY_TOKENS < hb_tokens (effective_history_budget p real)"
    "0 < usable_prompt_tokens p"
  shows "hb_tokens (effective_history_budget p real) + cp_system_prompt_budget p +
      cp_memory_token_budget p + cp_output_reserve_tokens p \<le> cp_context_window_tokens p \<and>
    hb_tokens (effective_history_budget p real) \<le> cp_history_token_budget p \<and>
    (\<forall>n. real = Some n \<longrightarrow>
      hb_tokens (effective_history_budget p real) + (unat n - usable_prompt_tokens p)
        \<le> cp_history_token_budget p)"
proof -
  define t0 where "t0 = max (min (cp_history_token_budget p) (usable_history_tokens p)) MIN_HISTORY_TOKENS"
  define over where "over = (case real of None \<Rightarrow> 0 | Some n \<Rightarrow> unat n - usable_prompt_tokens p)"
  define hb where "hb = hb_tokens (effective_history_budget p real)"
  have fits: "t + S + M + r \<le> w \<and> t \<le> b"
    if "f < t" "t \<le> max (min b (w - r - (S + M))) f" for t S M r w b f :: nat
    using that by (auto simp: max_def min_def split: if_splits)
  have hb: "hb = (if over = 0 then t0 else max (t0 - over) MIN_HISTORY_TOKENS)"
    using assms(2)
    by (auto simp: hb_def over_def t0_def effective_history_budget_def Let_def split: option.split)
  have high: "MIN_HISTORY_TOKENS < hb" using assms(1) by (simp add: hb_def)
  then have le: "hb + over \<le> t0" using hb by (cases "over = 0") (auto simp: max_def split: if_splits)
  have "t0 \<le> cp_history_token_budget p" using high le by (simp add: t0_def max_def split: if_splits)
  moreover have "hb + cp_system_prompt_budget p + cp_memory_token_budget p +
      cp_output_reserve_tokens p \<le> cp_context_window_tokens p \<and> hb \<le> cp_history_token_budget p"
    using le by (intro fits [OF high]) (simp add: t0_def usable_history_tokens_def usable_prompt_tokens_def)
  ultimately show ?thesis
    using le by (auto simp: hb_def over_def)
qed

theorem history_fits_window_witness:
  "hb_tokens (effective_history_budget
     \<lparr>cp_memory_token_budget = 200, cp_max_memory_fragments = 3, cp_system_prompt_budget = 1500,
      cp_history_token_budget = 1200, cp_output_reserve_tokens = 768, cp_context_window_tokens = 4096,
      cp_prompt_window_tokens = 4096\<rparr> None) + 2468 \<le> 4096"
  using history_fits_window [of "\<lparr>cp_memory_token_budget = 200, cp_max_memory_fragments = 3,
      cp_system_prompt_budget = 1500, cp_history_token_budget = 1200, cp_output_reserve_tokens = 768,
      cp_context_window_tokens = 4096, cp_prompt_window_tokens = 4096\<rparr>" None]
  by (simp add: effective_history_budget_def usable_prompt_tokens_def usable_history_tokens_def
      MIN_HISTORY_TOKENS_def)

text \<open>A stored row as a replay may show it.\<close>

definition replay_message :: "nat \<Rightarrow> trim_role \<times> ustr \<Rightarrow> trim_message" where
  "replay_message i row =
     \<lparr>tm_index = i, tm_role = fst row,
      tm_text = (case (if fst row = User then strip_system_context (snd row)
                       else if fst row = ToolResult then truncate_head_tail (snd row) TOOL_RESULT_MAX_BYTES
                       else None) of None \<Rightarrow> snd row | Some s \<Rightarrow> s),
      tm_is_summary = False, tm_age_secs = None\<rparr>"

lemma replay_texts:
  "rewrite_texts long_text (rewrite_texts (stale_text None) (replay_input rows)) =
     map (\<lambda>(i, row). replay_message i row) (List.enumerate 0 rows)"
  by (rule nth_equalityI)
     (auto simp: nth_rewrite replay_input_def nth_enumerate_eq stale_text_def long_text_def
        replay_message_def real_user_def split: prod.split option.split)

lemma length_replay_input: "length (replay_input rows) = length rows"
  by (simp add: replay_input_def)

lemma replay_input_reals: "reals (replay_input rows) = replay_input rows"
  by (auto simp: reals_def replay_input_def filter_id_conv)

lemma replay_first: "summary_first (replay_input rows)"
proof -
  have "dropWhile tm_is_summary (replay_input rows) = replay_input rows"
    by (cases rows) (auto simp: replay_input_def split: prod.split)
  then show ?thesis
    using replay_input_reals by (auto simp: summary_first_def replay_input_def)
qed

lemma replay_rows_last: "replay_rows rows \<noteq> [] \<Longrightarrow> fst (last (replay_rows rows)) \<noteq> User"
  using hd_dropWhile [of "\<lambda>r. fst r = User" "rev (filter (\<lambda>r. trim (snd r) \<noteq> []) rows)"]
  by (simp add: replay_rows_def last_rev)

text \<open>
  A resumed conversation shows what was stored. The messages replayed are the stored rows from some
  point on, in order, each under its own number, with a member's stale context stripped and a long
  tool result cut, and no blank one among them; a summary may stand before them. When any row is
  left the replay is not empty and never ends with the member's own message.
\<close>

theorem replay_shows_stored_rows:
  assumes "replay_rows rows \<noteq> []"
  shows "(\<exists>j < length (replay_rows rows).
      reals (plan_replay rows p r counter) =
        drop j (map (\<lambda>(i, row). replay_message i row) (List.enumerate 0 (replay_rows rows)))) \<and>
    plan_replay rows p r counter \<noteq> [] \<and> tm_role (last (plan_replay rows p r counter)) \<noteq> User \<and>
    (\<forall>row \<in> set (replay_rows rows). row \<in> set rows \<and> trim (snd row) \<noteq> [])"
proof (rule trim_aux [OF replay_first [of "replay_rows rows"], of r NotYetAppended counter p None None Cold])
  let ?K = "replay_rows rows"
  let ?out = "trim_history (replay_input ?K) p r None counter NotYetAppended None Cold"
  let ?shown = "map (\<lambda>(i, row). replay_message i row) (List.enumerate 0 ?K)"
  fix ms3 spliced ms4 j
  assume 3: "splice_summary r (rewrite_texts long_text (rewrite_texts
        (stale_text (spare_last_user NotYetAppended (replay_input ?K))) (replay_input ?K))) = (ms3, spliced)"
    and 4: "\<exists>aged cold. weigh_age counter (hb_tokens (effective_history_budget p None)) None Cold ms3 =
      (ms4, aged, cold)"
    and out: "to_messages ?out = takeWhile tm_is_summary ms4 @ drop j (reals ms4)"
    and kept: "reals (to_messages ?out) = drop j (reals ms4)"
    and j: "j \<le> last_turn_start (reals (replay_input ?K))"
  have plan: "plan_replay rows p r counter = to_messages ?out"
    using assms by (simp add: plan_replay_def Let_def)
  have "ms4 = ms3" using 4 by (simp add: weigh_age_def)
  then have shown: "reals ms4 = ?shown"
    using splice_cases [OF 3] by (simp add: spare_last_user_def replay_texts)
       (auto simp: reals_def replay_message_def filter_id_conv)
  have "j < length ?K"
    using j last_turn_lt [of "replay_input ?K"] assms unfolding replay_input_reals
    by (cases "last_turn_start (replay_input ?K) = 0") (simp_all add: length_replay_input)
  then have rest: "drop j ?shown \<noteq> []" by simp
  then have "last (to_messages ?out) = last ?shown"
    using out shown by (metis last_appendR last_drop drop_eq_Nil not_le)
  also have "\<dots> = replay_message (length ?K - 1) (last ?K)"
  proof -
    have "?shown \<noteq> []" using assms by (metis length_0_conv length_enumerate length_map)
    from last_conv_nth [OF this] show ?thesis using assms by (simp add: last_conv_nth nth_enumerate_eq)
  qed
  finally have "tm_role (last (to_messages ?out)) \<noteq> User"
    using replay_rows_last [OF assms] by (simp add: replay_message_def)
  moreover have "to_messages ?out \<noteq> []" using rest out shown by simp
  moreover have "\<forall>row \<in> set ?K. row \<in> set rows \<and> trim (snd row) \<noteq> []"
    by (auto simp: replay_rows_def dest!: set_dropWhileD)
  ultimately show ?thesis
    unfolding plan using \<open>j < length ?K\<close> kept [unfolded shown]
    by (intro conjI) (rule exI [of _ j], rule conjI, assumption+)
qed

theorem replay_shows_stored_rows_witness:
  "tm_role (last (plan_replay [(User, lit ''hi''), (Assistant, lit ''hello''), (User, lit ''more'')]
     example_profile None (\<lambda>_. 0))) \<noteq> User"
  using replay_shows_stored_rows [of "[(User, lit ''hi''), (Assistant, lit ''hello''), (User, lit ''more'')]"]
  by (simp add: replay_rows_def text_simps)

end
