(* ===== verification/Setup_Code.thy ===== *)
theory Setup_Code
  imports Inference_Lane
begin

text \<open>
  The secrets printed on a pond's cards and how fast they may be guessed: \<open>SetupCode\<close>
  (\<open>pond-core/src/network/domain/setup_code.rs\<close>), \<open>AdminPassword\<close>
  (\<open>pond-core/src/security/domain/admin_card.rs\<close>), \<open>RetryAfter\<close> and \<open>ClaimRefusal\<close>
  (\<open>network/domain/claim.rs\<close>) and \<open>SetupGuessThrottle\<close>
  (\<open>network/services/setup_guess_throttle.rs\<close>). An \<open>Instant\<close> and a \<open>Duration\<close> count nanoseconds.
\<close>

section \<open>The setup code\<close>

definition SETUP_CODE_RANDOM_DIGITS :: nat where "SETUP_CODE_RANDOM_DIGITS = 10"
definition SETUP_CODE_LEN :: nat where "SETUP_CODE_LEN = SETUP_CODE_RANDOM_DIGITS + 1"

datatype setup_code_error = WrongLength nat | NotDigits | CheckDigitMismatch | DigitOutOfRange

definition doubled_digit :: "nat \<Rightarrow> nat" where
  "doubled_digit d = (if d * 2 > 9 then d * 2 - 9 else d * 2)"

text \<open>The sum over the reversed digits, every other one doubled.\<close>

fun luhn_sum :: "bool \<Rightarrow> nat list \<Rightarrow> nat" where
  "luhn_sum dbl [] = 0"
| "luhn_sum dbl (d # ds) = (if dbl then doubled_digit d else d) + luhn_sum (\<not> dbl) ds"

definition luhn_check_digit :: "nat list \<Rightarrow> nat" where
  "luhn_check_digit payload = (10 - luhn_sum True (rev payload) mod 10) mod 10"

definition digit_chars :: "nat list \<Rightarrow> ustr" where
  "digit_chars ds = map (\<lambda>d. 48 + d) ds"

text \<open>The argument of \<open>from_digits\<close> is an array of ten.\<close>

definition setup_code_from_digits :: "nat list \<Rightarrow> (ustr, setup_code_error) result" where
  "setup_code_from_digits random =
     (if list_ex (\<lambda>d. d > 9) random then Err DigitOutOfRange
      else Ok (digit_chars (random @ [luhn_check_digit random])))"

fun read_digits :: "ustr \<Rightarrow> nat list option" where
  "read_digits [] = Some []"
| "read_digits (c # cs) =
     (if c = 45 \<or> c = 32 then read_digits cs
      else if \<not> ascii_digit_char c then None
      else map_option (\<lambda>ds. (c - 48) # ds) (read_digits cs))"

definition setup_code_parse :: "ustr \<Rightarrow> (ustr, setup_code_error) result" where
  "setup_code_parse input =
     (case read_digits input of
        None \<Rightarrow> Err NotDigits
      | Some ds \<Rightarrow>
          if length ds \<noteq> SETUP_CODE_LEN then Err (WrongLength (length ds))
          else if drop SETUP_CODE_RANDOM_DIGITS ds \<noteq>
              [luhn_check_digit (take SETUP_CODE_RANDOM_DIGITS ds)]
          then Err CheckDigitMismatch
          else Ok (digit_chars ds))"

definition setup_code_display :: "ustr \<Rightarrow> ustr" where
  "setup_code_display d = take 4 d @ lit ''-'' @ take 3 (drop 4 d) @ lit ''-'' @ drop 7 d"

section \<open>The admin password\<close>

definition ADMIN_PASSWORD_LEN :: nat where "ADMIN_PASSWORD_LEN = 16"

definition CARD_ALPHABET :: ustr where
  "CARD_ALPHABET = lit ''0123456789ABCDEFGHJKMNPQRSTVWXYZ''"

datatype admin_password_error = PasswordLength nat | NotOnTheCard | SymbolOutOfRange

text \<open>The argument of \<open>from_symbols\<close> is an array of sixteen.\<close>

definition admin_password_from_symbols :: "nat list \<Rightarrow> (ustr, admin_password_error) result" where
  "admin_password_from_symbols symbols =
     try_map (\<lambda>s. if s < length CARD_ALPHABET then Ok (CARD_ALPHABET ! s) else Err SymbolOutOfRange)
       symbols"

definition card_char :: "uchar \<Rightarrow> uchar" where
  "card_char c =
     (let u = to_ascii_upper c in
      if u = 79 then 48 else if u = 73 \<or> u = 76 then 49 else u)"

fun read_card :: "ustr \<Rightarrow> ustr option" where
  "read_card [] = Some []"
| "read_card (c # cs) =
     (if c = 45 \<or> is_whitespace c then read_card cs
      else if card_char c \<notin> set CARD_ALPHABET then None
      else map_option (\<lambda>s. card_char c # s) (read_card cs))"

definition admin_password_parse :: "ustr \<Rightarrow> (ustr, admin_password_error) result" where
  "admin_password_parse input =
     (case read_card input of
        None \<Rightarrow> Err NotOnTheCard
      | Some out \<Rightarrow>
          if length out \<noteq> ADMIN_PASSWORD_LEN then Err (PasswordLength (length out)) else Ok out)"

definition admin_password_grouped :: "ustr \<Rightarrow> ustr" where
  "admin_password_grouped p =
     join_with (lit ''-'') [take 4 p, take 4 (drop 4 p), take 4 (drop 8 p), take 4 (drop 12 p)]"

section \<open>The throttle\<close>

type_synonym retry_after = duration

definition as_secs_ceil :: "retry_after \<Rightarrow> nat" where
  "as_secs_ceil d = d div 1000000000 + (if d mod 1000000000 > 0 then 1 else 0)"

datatype claim_refusal = SetupCodeUnavailable | SetupCodeCooling retry_after

fun claim_refusal_code :: "claim_refusal \<Rightarrow> ustr" where
  "claim_refusal_code SetupCodeUnavailable = lit ''setup_code_unavailable''"
| "claim_refusal_code (SetupCodeCooling _) = lit ''setup_code_cooling''"

definition claim_retry_after :: "claim_refusal \<Rightarrow> retry_after option" where
  "claim_retry_after r = (case r of SetupCodeUnavailable \<Rightarrow> None | SetupCodeCooling d \<Rightarrow> Some d)"

definition FREE_SETUP_FAILURES :: u32 where "FREE_SETUP_FAILURES = 5"
definition FIRST_SETUP_DELAY :: duration where "FIRST_SETUP_DELAY = from_secs 30"
definition MAX_SETUP_DELAY :: duration where "MAX_SETUP_DELAY = from_secs (10 * 60)"

record setup_guess_throttle =
  sg_failures :: u32
  sg_wait_until :: "timestamp option"

definition throttle_new :: setup_guess_throttle where
  "throttle_new = \<lparr>sg_failures = 0, sg_wait_until = None\<rparr>"

definition throttle_check :: "setup_guess_throttle \<Rightarrow> timestamp \<Rightarrow> (unit, retry_after) result" where
  "throttle_check th now =
     (case sg_wait_until th of
        Some until \<Rightarrow> if now < until then Err (nat (until - now)) else Ok ()
      | None \<Rightarrow> Ok ())"

text \<open>The wait the \<open>failures\<close>-th failure imposes; the saturation of the product cannot be reached.\<close>

definition delay_after :: "u32 \<Rightarrow> duration option" where
  "delay_after failures =
     (if failures < FREE_SETUP_FAILURES then None
      else Some (min
        (min (FIRST_SETUP_DELAY * 2 ^ unat (min (failures - FREE_SETUP_FAILURES) 16)) DURATION_MAX)
        MAX_SETUP_DELAY))"

definition record_failure :: "setup_guess_throttle \<Rightarrow> timestamp \<Rightarrow> setup_guess_throttle" where
  "record_failure th now =
     (let f = saturating_add (sg_failures th) 1 in
      case delay_after f of
        Some delay \<Rightarrow> th\<lparr>sg_failures := f, sg_wait_until := Some (now + int delay)\<rparr>
      | None \<Rightarrow> th\<lparr>sg_failures := f\<rparr>)"

definition record_success :: "setup_guess_throttle \<Rightarrow> setup_guess_throttle" where
  "record_success th = throttle_new"

section \<open>Reading and writing\<close>

lemma read_digits_chars:
  "list_all (\<lambda>d. d < 10) ds \<Longrightarrow> read_digits (digit_chars ds) = Some ds"
  by (induction ds) (auto simp: digit_chars_def ascii_digit_char_def)

lemma read_digits_append:
  "read_digits (s @ t) =
     (case read_digits s of None \<Rightarrow> None
      | Some a \<Rightarrow> (case read_digits t of None \<Rightarrow> None | Some b \<Rightarrow> Some (a @ b)))"
  by (induction s) (auto split: option.split)

lemma read_digits_sep: "read_digits (lit ''-'' @ t) = read_digits t"
  by (simp add: lit_def)

lemma read_digits_range: "read_digits s = Some ds \<Longrightarrow> list_all (\<lambda>d. d < 10) ds"
proof (induction s arbitrary: ds)
  case (Cons c cs)
  then show ?case by (auto simp: ascii_digit_char_def split: if_splits)
qed simp

text \<open>Eleven digits are a code when their weighted sum is a multiple of ten.\<close>

lemma check_digit_iff:
  assumes "d < 10"
  shows "d = luhn_check_digit payload \<longleftrightarrow> luhn_sum False (rev (payload @ [d])) mod 10 = 0"
proof -
  have "d = (10 - s mod 10) mod 10 \<longleftrightarrow> (d + s) mod 10 = 0" for s :: nat
  proof -
    define r where "r = s mod 10"
    have r: "r < 10" by (simp add: r_def)
    have "(d + s) mod 10 = (d + r) mod 10" by (simp add: r_def mod_add_right_eq)
    moreover have "(d + r) mod 10 = 0 \<longleftrightarrow> d + r = 0 \<or> d + r = 10"
      using assms r by (cases "d + r < 10") (simp_all add: le_mod_geq)
    ultimately show ?thesis
      unfolding r_def [symmetric] using assms r by (cases "r = 0") auto
  qed
  then show ?thesis by (simp add: luhn_check_digit_def)
qed

lemma code_check_iff:
  assumes that: "length ds = 11" "list_all (\<lambda>d. d < 10) ds"
  shows "drop 10 ds = [luhn_check_digit (take 10 ds)] \<longleftrightarrow> luhn_sum False (rev ds) mod 10 = 0"
proof -
  have "length (drop 10 ds) = 1" using that(1) by simp
  then obtain d where d: "drop 10 ds = [d]" by (cases "drop 10 ds") auto
  then have ds: "ds = take 10 ds @ [d]" by (metis append_take_drop_id)
  have "d < 10" using that(2) d by (metis in_set_dropD list.set_intros(1) list_all_iff)
  from check_digit_iff [OF this, of "take 10 ds"] show ?thesis using ds d by auto
qed

lemma setup_code_parse_Ok:
  "setup_code_parse s = Ok c \<longleftrightarrow>
     (\<exists>ds. read_digits s = Some ds \<and> length ds = 11 \<and> luhn_sum False (rev ds) mod 10 = 0 \<and>
       c = digit_chars ds)"
  using code_check_iff read_digits_range [of s]
  by (auto simp: setup_code_parse_def SETUP_CODE_LEN_def SETUP_CODE_RANDOM_DIGITS_def
        split: option.splits if_splits)

text \<open>One digit, or two side by side, changed in the reversed digits.\<close>

definition luhn_weight :: "bool \<Rightarrow> nat \<Rightarrow> nat" where
  "luhn_weight dbl d = (if dbl then doubled_digit d else d)"

lemma luhn_sum_append:
  "luhn_sum b (xs @ ys) = luhn_sum b xs + luhn_sum (if even (length xs) then b else \<not> b) ys"
  by (induction xs arbitrary: b) auto

lemma weight_inj:
  "d < 10 \<Longrightarrow> e < 10 \<Longrightarrow> luhn_weight b d = luhn_weight b e \<Longrightarrow> d = e"
  unfolding luhn_weight_def doubled_digit_def by (simp split: if_splits) presburger+

lemma weight_lt: "d < 10 \<Longrightarrow> luhn_weight b d < 10"
  by (auto simp: luhn_weight_def doubled_digit_def)

lemma weight_swap_table:
  "list_all (\<lambda>d. list_all (\<lambda>e. list_all (\<lambda>b.
     (luhn_weight b d + luhn_weight (\<not> b) e) mod 10 = (luhn_weight b e + luhn_weight (\<not> b) d) mod 10
     \<longrightarrow> d = e \<or> d = 0 \<and> e = 9 \<or> d = 9 \<and> e = 0) [True, False]) [0..<10]) [0..<10]"
  by code_simp

lemma weight_swap:
  assumes "d < 10" "e < 10"
    "(luhn_weight b d + luhn_weight (\<not> b) e) mod 10 = (luhn_weight b e + luhn_weight (\<not> b) d) mod 10"
  shows "d = e \<or> {d, e} = {0, 9}"
proof -
  have "d \<in> set [0..<10]" "e \<in> set [0..<10]" "b \<in> set [True, False]" using assms(1,2) by auto
  then have "d = e \<or> d = 0 \<and> e = 9 \<or> d = 9 \<and> e = 0"
    using weight_swap_table assms(3) unfolding list_all_iff by blast
  then show ?thesis by auto
qed

lemma swap_update:
  "xs = l @ a # b # r \<Longrightarrow> length l = i \<Longrightarrow> xs[i := b, Suc i := a] = l @ b # a # r"
  by (simp add: list_update_append)

lemma add_mod_cancel: "(a + x + r) mod 10 = (a + y + r) mod 10 \<longleftrightarrow> x mod 10 = y mod (10 :: nat)"
proof -
  have "int ((a + x + r) mod 10) = int ((a + y + r) mod 10) \<longleftrightarrow> int (x mod 10) = int (y mod 10)"
    unfolding zmod_int mod_eq_dvd_iff by simp
  then show ?thesis unfolding of_nat_eq_iff .
qed

lemma one_digit_changes:
  assumes "d < 10" "e < 10" "d \<noteq> e"
  shows "luhn_sum b (xs @ d # ys) mod 10 \<noteq> luhn_sum b (xs @ e # ys) mod 10"
proof
  let ?b = "if even (length xs) then b else \<not> b"
  assume "luhn_sum b (xs @ d # ys) mod 10 = luhn_sum b (xs @ e # ys) mod 10"
  then have "luhn_weight ?b d mod 10 = luhn_weight ?b e mod 10"
    using add_mod_cancel by (simp add: luhn_sum_append luhn_weight_def add.assoc [symmetric])
  then show False using weight_lt assms weight_inj by (metis mod_less)
qed

lemma two_digits_swapped:
  assumes "d < 10" "e < 10" "d \<noteq> e" "{d, e} \<noteq> {0, 9}"
  shows "luhn_sum b (xs @ d # e # ys) mod 10 \<noteq> luhn_sum b (xs @ e # d # ys) mod 10"
proof
  let ?b = "if even (length xs) then b else \<not> b"
  have sum: "luhn_sum b (xs @ x # y # ys) =
      luhn_sum b xs + (luhn_weight ?b x + luhn_weight (\<not> ?b) y) + luhn_sum ?b ys" for x y
    by (simp add: luhn_sum_append luhn_weight_def)
  assume "luhn_sum b (xs @ d # e # ys) mod 10 = luhn_sum b (xs @ e # d # ys) mod 10"
  then have "(luhn_weight ?b d + luhn_weight (\<not> ?b) e) mod 10 =
      (luhn_weight ?b e + luhn_weight (\<not> ?b) d) mod 10"
    unfolding sum add_mod_cancel .
  from weight_swap [OF assms(1,2) this] assms(3,4) show False by (elim disjE notE)
qed

lemma parse_digit_chars:
  assumes "list_all (\<lambda>d. d < 10) ds" "length ds = 11"
  shows "setup_code_parse (digit_chars ds) =
    (if luhn_sum False (rev ds) mod 10 = 0 then Ok (digit_chars ds) else Err CheckDigitMismatch)"
  using code_check_iff [OF assms(2,1)] read_digits_chars [OF assms(1)] assms(2)
  by (simp add: setup_code_parse_def SETUP_CODE_LEN_def SETUP_CODE_RANDOM_DIGITS_def)

lemma luhn_total:
  "list_all (\<lambda>d. d < 10) random \<Longrightarrow>
     luhn_sum False (rev (random @ [luhn_check_digit random])) mod 10 = 0"
  using check_digit_iff [of "luhn_check_digit random" random] by (simp add: luhn_check_digit_def)

section \<open>The throttle at work\<close>

definition wait_before :: "nat \<Rightarrow> duration" where
  "wait_before n = (if n < 5 then 0 else min (from_secs 30 * 2 ^ (n - 5)) (from_secs 600))"

lemma delay_after_eq:
  "delay_after f = (if unat f < 5 then None else Some (wait_before (unat f)))"
proof (cases "unat f < 5")
  case True
  then show ?thesis by (simp add: delay_after_def FREE_SETUP_FAILURES_def word_less_nat_alt)
next
  case False
  then have le: "5 \<le> f" by (simp add: word_le_nat_alt)
  have sub: "unat (f - 5) = unat f - 5" using le by (simp add: unat_sub)
  have shift: "unat (min (f - 5) 16) = min (unat f - 5) 16"
    using sub by (simp add: min_def word_le_nat_alt)
  have big: "from_secs 600 \<le> from_secs 30 * 2 ^ n" if "5 \<le> n" for n
  proof -
    have "(2 :: nat) ^ 5 \<le> 2 ^ n" using that by (rule power_increasing) simp
    then show ?thesis by (simp add: from_secs_def)
  qed
  have "min (min (from_secs 30 * 2 ^ min k 16) DURATION_MAX) (from_secs 600) =
      min (from_secs 30 * 2 ^ k) (from_secs 600)" for k
  proof (cases "k \<le> 16")
    case True
    then show ?thesis by (simp add: DURATION_MAX_def from_secs_def min.assoc)
  next
    case False
    then show ?thesis
      using big [of k] big [of 16] by (simp add: min_def DURATION_MAX_def from_secs_def)
  qed
  then show ?thesis
    using False le shift
    by (simp add: delay_after_def FREE_SETUP_FAILURES_def FIRST_SETUP_DELAY_def MAX_SETUP_DELAY_def
        wait_before_def not_less)
qed

text \<open>What the throttle holds after the guesses of a list; its counter saturates.\<close>

definition charged :: "timestamp list \<Rightarrow> setup_guess_throttle \<Rightarrow> bool" where
  "charged ts th \<longleftrightarrow>
     unat (sg_failures th) = min (length ts) (2 ^ 32 - 1) \<and>
     sg_wait_until th =
       (if length ts < 5 then None else Some (last ts + int (wait_before (length ts))))"

text \<open>Each guess past the fifth comes no sooner than the wait its failures impose.\<close>

definition rationed :: "timestamp list \<Rightarrow> bool" where
  "rationed ts \<longleftrightarrow>
     (\<forall>i. 5 \<le> i \<longrightarrow> i < length ts \<longrightarrow> ts ! (i - 1) + int (wait_before i) \<le> ts ! i)"

lemma charged_new: "charged [] throttle_new"
  by (simp add: charged_def throttle_new_def)

lemma wait_before_long: "10 \<le> n \<Longrightarrow> wait_before n = from_secs 600"
proof -
  assume "10 \<le> n"
  then have "(2 :: nat) ^ 5 \<le> 2 ^ (n - 5)" by (intro power_increasing) simp_all
  then show ?thesis using \<open>10 \<le> n\<close> by (simp add: wait_before_def from_secs_def)
qed

lemma charged_failure:
  assumes "charged ts th"
  shows "charged (ts @ [t]) (record_failure th t)"
proof -
  have f: "unat (saturating_add (sg_failures th) 1) = min (length (ts @ [t])) (2 ^ 32 - 1)"
    using assms by (simp add: charged_def unat_saturating_add min_def)
  have "wait_before (min (length (ts @ [t])) (2 ^ 32 - 1)) = wait_before (length (ts @ [t]))"
    by (simp add: min_def wait_before_long del: length_append)
  then show ?thesis
    using assms f by (auto simp: charged_def record_failure_def Let_def delay_after_eq)
qed

lemma rationed_snoc:
  assumes "charged ts th" "rationed ts" "throttle_check th t = Ok u"
  shows "rationed (ts @ [t])"
  unfolding rationed_def
proof (intro allI impI)
  fix i assume i: "5 \<le> i" "i < length (ts @ [t])"
  show "(ts @ [t]) ! (i - 1) + int (wait_before i) \<le> (ts @ [t]) ! i"
  proof (cases "i < length ts")
    case True
    moreover have "i - 1 < length ts" using True by simp
    ultimately show ?thesis using assms(2) i unfolding rationed_def by (simp add: nth_append)
  next
    case False
    then have len: "i = length ts" using i by simp
    then have ne: "ts \<noteq> []" using i by auto
    then have "\<not> t < last ts + int (wait_before i)"
      using assms(1,3) i len by (auto simp: charged_def throttle_check_def split: if_splits)
    then show ?thesis using len ne by (simp add: nth_append last_conv_nth)
  qed
qed

text \<open>
  What a service promises of the throttle it holds: every step leaves it alone, charges a guess it
  admitted, or starts it afresh. The log is the guesses charged since the throttle was last fresh.
\<close>

locale throttled =
  fixes throttle_of :: "'s \<Rightarrow> setup_guess_throttle"
    and log_of :: "'s \<Rightarrow> timestamp list"
    and moves :: "'s \<Rightarrow> 's \<Rightarrow> bool"
  assumes moves_cases: "moves s s' \<Longrightarrow>
    throttle_of s' = throttle_of s \<and> log_of s' = log_of s \<or>
    (\<exists>t u. throttle_check (throttle_of s) t = Ok u \<and>
       throttle_of s' = record_failure (throttle_of s) t \<and> log_of s' = log_of s @ [t]) \<or>
    throttle_of s' = throttle_new \<and> log_of s' = []"
begin

definition in_order :: "'s \<Rightarrow> bool" where
  "in_order s \<longleftrightarrow> charged (log_of s) (throttle_of s) \<and> rationed (log_of s)"

lemma in_order_fresh: "throttle_of s = throttle_new \<Longrightarrow> log_of s = [] \<Longrightarrow> in_order s"
  by (simp add: in_order_def charged_new rationed_def)

lemma moves_in_order: "moves s s' \<Longrightarrow> in_order s \<Longrightarrow> in_order s'"
  using moves_cases [of s s'] charged_failure rationed_snoc charged_new
  by (auto simp: in_order_def rationed_def)

lemma rationed_run: "moves\<^sup>*\<^sup>* s s' \<Longrightarrow> in_order s \<Longrightarrow> rationed (log_of s')"
proof -
  assume "moves\<^sup>*\<^sup>* s s'" "in_order s"
  then have "in_order s'" by (induction rule: rtranclp_induct) (auto dest: moves_in_order)
  then show ?thesis by (simp add: in_order_def)
qed

end

lemma rationed_gap:
  assumes "rationed ts" "10 \<le> i" "i < length ts"
  shows "ts ! 9 + int ((i - 9) * from_secs 600) \<le> ts ! i"
  using assms(2,3)
proof (induction i rule: dec_induct)
  case base
  have "ts ! 9 + int (wait_before 10) \<le> ts ! 10" 
    using assms(1) base spec [of "\<lambda>i. 5 \<le> i \<longrightarrow> i < length ts \<longrightarrow> ts ! (i - 1) + int (wait_before i) \<le> ts ! i" 10]
    by (simp add: rationed_def)
  then show ?case by (simp add: wait_before_def from_secs_def)
next
  case (step n)
  have big: "wait_before (Suc n) = from_secs 600" using step by (simp add: wait_before_long)
  have "ts ! n + int (wait_before (Suc n)) \<le> ts ! Suc n"
    using assms(1) step
      spec [of "\<lambda>i. 5 \<le> i \<longrightarrow> i < length ts \<longrightarrow> ts ! (i - 1) + int (wait_before i) \<le> ts ! i" "Suc n"]
    by (simp add: rationed_def)
  then show ?case using step big by (simp add: Suc_diff_le algebra_simps)
qed

text \<open>Guesses at these times are all admitted; six of them, the last after its wait.\<close>

fun all_admitted :: "setup_guess_throttle \<Rightarrow> timestamp list \<Rightarrow> bool" where
  "all_admitted th [] = True"
| "all_admitted th (t # ts) = (throttle_check th t = Ok () \<and> all_admitted (record_failure th t) ts)"

lemma example_guesses_admitted: "all_admitted throttle_new [0, 0, 0, 0, 0, int (from_secs 30)]"
proof -
  have delays: "delay_after 1 = None" "delay_after 2 = None" "delay_after 3 = None"
    "delay_after 4 = None" "delay_after 5 = Some (from_secs 30)" "delay_after 6 = Some (from_secs 60)"
    by (simp_all add: delay_after_eq wait_before_def from_secs_def)
  have adds: "saturating_add (0 :: u32) 1 = 1" "saturating_add (1 :: u32) 1 = 2"
    "saturating_add (2 :: u32) 1 = 3" "saturating_add (3 :: u32) 1 = 4"
    "saturating_add (4 :: u32) 1 = 5" "saturating_add (5 :: u32) 1 = 6"
    by (simp_all add: saturating_add_def)
  show ?thesis
    by (simp add: throttle_check_def record_failure_def Let_def throttle_new_def delays adds from_secs_def)
qed

section \<open>Properties\<close>

lemma setup_code_reads_back_aux:
  assumes "setup_code_from_digits random = Ok c" "length random = SETUP_CODE_RANDOM_DIGITS"
  shows "length c = SETUP_CODE_LEN \<and> setup_code_parse c = Ok c \<and>
    setup_code_parse (setup_code_display c) = Ok c"
proof -
  define ds where "ds = random @ [luhn_check_digit random]"
  have range: "list_all (\<lambda>d. d < 10) random"
    using assms(1) by (auto simp: setup_code_from_digits_def list_all_iff list_ex_iff not_less split: if_splits)
  have c: "c = digit_chars ds"
    using assms(1) by (simp add: setup_code_from_digits_def ds_def split: if_splits)
  have ds: "list_all (\<lambda>d. d < 10) ds" "length ds = 11"
    using range assms(2) by (simp_all add: ds_def luhn_check_digit_def SETUP_CODE_RANDOM_DIGITS_def)
  have parse: "setup_code_parse c = Ok c"
    using parse_digit_chars [OF ds] luhn_total [OF range] c by (simp add: ds_def)
  have "c = take 4 c @ take 3 (drop 4 c) @ drop 7 c"
    using append_take_drop_id [of 4 c] append_take_drop_id [of 3 "drop 4 c"] by simp
  then have "read_digits c = read_digits (setup_code_display c)"
    by (metis read_digits_append read_digits_sep setup_code_display_def)
  then have "setup_code_parse (setup_code_display c) = setup_code_parse c"
    by (simp add: setup_code_parse_def)
  with parse ds(2) c show ?thesis
    by (simp add: digit_chars_def SETUP_CODE_LEN_def SETUP_CODE_RANDOM_DIGITS_def)
qed

text \<open>
  A setup code reads back from its card. The code made of ten digits is eleven digits, and reads
  back as itself bare or in the card's grouping; digits out of range make no code.
\<close>

theorem setup_code_reads_back:
  assumes "setup_code_from_digits random = Ok c" "length random = SETUP_CODE_RANDOM_DIGITS"
  shows "length c = SETUP_CODE_LEN \<and> setup_code_parse c = Ok c \<and>
    setup_code_parse (setup_code_display c) = Ok c"
  using assms by (rule setup_code_reads_back_aux)

lemma example_setup_code:
  "setup_code_from_digits [3, 4, 9, 7, 0, 1, 1, 2, 3, 3] = Ok (digit_chars [3, 4, 9, 7, 0, 1, 1, 2, 3, 3, 9])"
  by (simp add: setup_code_from_digits_def luhn_check_digit_def doubled_digit_def)

theorem setup_code_reads_back_witness:
  "setup_code_parse (setup_code_display (digit_chars [3, 4, 9, 7, 0, 1, 1, 2, 3, 3, 9])) =
     Ok (digit_chars [3, 4, 9, 7, 0, 1, 1, 2, 3, 3, 9])"
  using setup_code_reads_back [OF example_setup_code] by (simp add: SETUP_CODE_RANDOM_DIGITS_def)

lemma digit_at: "i < length ds \<Longrightarrow> digit_chars ds ! i = 48 + ds ! i"
  by (simp add: digit_chars_def)

text \<open>Digits whose weighted sum differs from a code's are a typo.\<close>

lemma other_sum_caught:
  assumes "luhn_sum False (rev ds) mod 10 = 0" "length es = 11" "list_all (\<lambda>d. d < 10) es"
    "luhn_sum False (rev es) mod 10 \<noteq> luhn_sum False (rev ds) mod 10"
  shows "setup_code_parse (digit_chars es) = Err CheckDigitMismatch"
  using parse_digit_chars [OF assms(3,2)] assms(1,4) by simp

lemma one_digit_mistyped:
  assumes ds: "length ds = 11" "luhn_sum False (rev ds) mod 10 = 0" "list_all (\<lambda>d. d < 10) ds"
    and i: "i < 11" and d: "d < 10" "ds ! i \<noteq> d"
  shows "setup_code_parse ((digit_chars ds)[i := 48 + d]) = Err CheckDigitMismatch"
proof -
  let ?xs = "rev (drop (Suc i) ds)" and ?ys = "rev (take i ds)"
  have "rev ds = ?xs @ ds ! i # ?ys" "rev (ds[i := d]) = ?xs @ d # ?ys"
    using id_take_nth_drop [of i ds] upd_conv_take_nth_drop [of i ds d] i ds(1)
    by (metis append.assoc append_Cons append_Nil rev.simps(2) rev_append)+
  moreover have "ds ! i < 10" using ds(1,3) i by (simp add: list_all_length)
  ultimately have "luhn_sum False (rev (ds[i := d])) mod 10 \<noteq> luhn_sum False (rev ds) mod 10"
    using one_digit_changes [of d "ds ! i"] d by metis
  moreover have "list_all (\<lambda>d. d < 10) (ds[i := d])"
    using ds(1,3) d(1) i by (auto simp: list_all_length nth_list_update)
  ultimately show ?thesis
    using other_sum_caught [OF ds(2), of "ds[i := d]"] ds(1) by (simp add: digit_chars_def map_update)
qed

lemma neighbours_swapped:
  assumes ds: "length ds = 11" "luhn_sum False (rev ds) mod 10 = 0" "list_all (\<lambda>d. d < 10) ds"
    and i: "i < 10" and ab: "ds ! i \<noteq> ds ! Suc i" "{ds ! i, ds ! Suc i} \<noteq> {0, 9}"
  shows "setup_code_parse ((digit_chars ds)[i := 48 + ds ! Suc i, Suc i := 48 + ds ! i]) =
    Err CheckDigitMismatch"
proof -
  let ?a = "ds ! i" and ?b = "ds ! Suc i"
  let ?xs = "rev (drop (Suc (Suc i)) ds)" and ?ys = "rev (take i ds)"
  have split: "ds = take i ds @ ?a # ?b # drop (Suc (Suc i)) ds"
    using i ds(1) by (metis Cons_nth_drop_Suc Suc_lessD Suc_less_eq2 append_take_drop_id eval_nat_numeral(3) less_SucI)
  have len: "length (take i ds) = i" using i ds(1) by simp
  have swapped: "ds[i := ?b, Suc i := ?a] = take i ds @ ?b # ?a # drop (Suc (Suc i)) ds"
    by (rule swap_update [OF split len])
  have small: "?a < 10" "?b < 10" using i ds(1,3) by (simp_all add: list_all_length)
  have "rev ds = ?xs @ ?b # ?a # ?ys" by (subst split) simp
  moreover have "rev (ds[i := ?b, Suc i := ?a]) = ?xs @ ?a # ?b # ?ys" unfolding swapped by simp
  ultimately have "luhn_sum False (rev (ds[i := ?b, Suc i := ?a])) mod 10 \<noteq> luhn_sum False (rev ds) mod 10"
    using two_digits_swapped [OF small ab] by metis
  moreover have "list_all (\<lambda>d. d < 10) (ds[i := ?b, Suc i := ?a])"
    using ds(3) unfolding swapped by (subst (asm) split) simp
  ultimately show ?thesis
    using other_sum_caught [OF ds(2), of "ds[i := ?b, Suc i := ?a]"] ds(1)
    by (simp add: digit_chars_def map_update)
qed

text \<open>
  A mistyped setup code is caught before it costs a guess. Of any code, one digit changed to another,
  or two neighbours swapped other than a nought and a nine, read as a typo, never as another code.
\<close>

theorem mistyped_code_caught:
  assumes "setup_code_parse s = Ok c"
  shows "(\<forall>i < 11. \<forall>d < 10. c ! i \<noteq> 48 + d \<longrightarrow>
      setup_code_parse (c[i := 48 + d]) = Err CheckDigitMismatch) \<and>
    (\<forall>i < 10. c ! i \<noteq> c ! Suc i \<longrightarrow> {c ! i, c ! Suc i} \<noteq> {48, 57} \<longrightarrow>
      setup_code_parse (c[i := c ! Suc i, Suc i := c ! i]) = Err CheckDigitMismatch)"
proof -
  obtain ds where ds: "read_digits s = Some ds" "length ds = 11"
    "luhn_sum False (rev ds) mod 10 = 0" "c = digit_chars ds"
    using assms by (auto simp: setup_code_parse_Ok)
  have digits: "list_all (\<lambda>d. d < 10) ds" by (rule read_digits_range [OF ds(1)])
  note code = ds(2,3) digits
  show ?thesis
    unfolding ds(4) using one_digit_mistyped [OF code] neighbours_swapped [OF code] ds(2)
    by (auto simp: digit_at doubleton_eq_iff)
qed

theorem mistyped_code_caught_witness:
  "setup_code_parse ((digit_chars [3, 4, 9, 7, 0, 1, 1, 2, 3, 3, 9])[0 := 49]) = Err CheckDigitMismatch"
proof -
  have "setup_code_parse (digit_chars [3, 4, 9, 7, 0, 1, 1, 2, 3, 3, 9]) =
      Ok (digit_chars [3, 4, 9, 7, 0, 1, 1, 2, 3, 3, 9])"
    by (simp add: parse_digit_chars doubled_digit_def)
  from mistyped_code_caught [OF this, THEN conjunct1, rule_format, of 0 1] show ?thesis
    by (simp add: digit_chars_def)
qed

text \<open>A character that a member may type where the card shows another.\<close>

definition typed_as :: "uchar \<Rightarrow> uchar \<Rightarrow> bool" where
  "typed_as c t \<longleftrightarrow>
     to_ascii_upper t = c \<or> c = 48 \<and> t \<in> {79, 111} \<or> c = 49 \<and> t \<in> {73, 105, 76, 108}"

definition card_separator :: "uchar \<Rightarrow> bool" where
  "card_separator c \<longleftrightarrow> c = 45 \<or> is_whitespace c"

lemma card_alphabet: "c \<in> set CARD_ALPHABET \<Longrightarrow> c \<noteq> 79 \<and> c \<noteq> 73 \<and> c \<noteq> 76 \<and> \<not> card_separator c"
  by (auto simp: CARD_ALPHABET_def lit_def card_separator_def is_whitespace_def)

lemma typed_card_char: "typed_as c t \<Longrightarrow> c \<in> set CARD_ALPHABET \<Longrightarrow> card_char t = c"
  using card_alphabet [of c]
  by (auto simp: typed_as_def card_char_def to_ascii_upper_def ascii_lower_char_def)

lemma read_card_typed:
  assumes "list_all2 typed_as p (filter (\<lambda>c. \<not> card_separator c) typed)" "set p \<subseteq> set CARD_ALPHABET"
  shows "read_card typed = Some p"
  using assms
proof (induction typed arbitrary: p)
  case (Cons t ts)
  show ?case
  proof (cases "card_separator t")
    case True
    then have "read_card ts = Some p" using Cons.IH Cons.prems by simp
    with True show ?thesis by (simp add: card_separator_def)
  next
    case False
    then obtain c cs where p: "p = c # cs" "typed_as c t"
      "list_all2 typed_as cs (filter (\<lambda>c. \<not> card_separator c) ts)"
      using Cons.prems(1) by (auto simp: list_all2_Cons2)
    then have "read_card ts = Some cs" "card_char t = c"
      using Cons.IH Cons.prems(2) typed_card_char by auto
    then show ?thesis using False p Cons.prems(2) by (simp add: card_separator_def)
  qed
qed simp

lemma from_symbols_Ok:
  "admin_password_from_symbols symbols = Ok p \<Longrightarrow> length p = length symbols \<and> set p \<subseteq> set CARD_ALPHABET"
  unfolding admin_password_from_symbols_def
  by (induction symbols arbitrary: p) (auto split: result.splits if_splits)

text \<open>
  The admin password reads back however it is typed from the card. In the card's grouping, in
  either case, with dashes and blanks anywhere, and with a letter O for a nought or an I or L for a
  one, what a member types is the password and nothing else is read into it.
\<close>

theorem admin_password_reads_back:
  assumes "admin_password_from_symbols symbols = Ok p" "length symbols = ADMIN_PASSWORD_LEN"
    "list_all2 typed_as p (filter (\<lambda>c. \<not> card_separator c) typed)"
  shows "admin_password_parse typed = Ok p \<and>
    admin_password_parse (admin_password_grouped p) = Ok p"
proof -
  have p: "length p = 16" "set p \<subseteq> set CARD_ALPHABET"
    using from_symbols_Ok [OF assms(1)] assms(2) by (simp_all add: ADMIN_PASSWORD_LEN_def)
  have plain: "filter (\<lambda>c. \<not> card_separator c) q = q" if "set q \<subseteq> set p" for q
    using that p(2) card_alphabet by (auto simp: filter_id_conv)
  have sub: "set (take n (drop m p)) \<subseteq> set p" for n m
    by (meson in_set_dropD in_set_takeD subsetI)
  have whole: "take 4 p @ take 4 (drop 4 p) @ take 4 (drop 8 p) @ take 4 (drop 12 p) = p"
    using append_take_drop_id [of 4 p] append_take_drop_id [of 4 "drop 4 p"]
      append_take_drop_id [of 4 "drop 8 p"] p(1) by simp
  have "filter (\<lambda>c. \<not> card_separator c) (admin_password_grouped p) = p"
    using plain [OF sub] plain [OF sub [where m = 0]] whole
    by (simp add: admin_password_grouped_def lit_def card_separator_def)
  moreover have "list_all2 typed_as p p"
  proof (rule list_all2_all_nthI)
    fix n assume "n < length p"
    then have "p ! n \<in> set CARD_ALPHABET" using p(2) by auto
    then show "typed_as (p ! n) (p ! n)"
      by (auto simp: typed_as_def to_ascii_upper_def ascii_lower_char_def CARD_ALPHABET_def lit_def)
  qed simp
  ultimately show ?thesis
    using read_card_typed [OF assms(3) p(2)] read_card_typed [of p "admin_password_grouped p"] p
    by (simp add: admin_password_parse_def ADMIN_PASSWORD_LEN_def)
qed

theorem admin_password_reads_back_witness:
  "admin_password_parse (lit ''o1az oOIl-iIlL 0000'') = Ok (lit ''01AZ001111110000'')"
proof -
  have "admin_password_from_symbols [0, 1, 10, 31, 0, 0, 1, 1, 1, 1, 1, 1, 0, 0, 0, 0] =
      Ok (lit ''01AZ001111110000'')"
    by (simp add: admin_password_from_symbols_def CARD_ALPHABET_def lit_def)
  then show ?thesis
    by (rule admin_password_reads_back [THEN conjunct1])
       (simp_all add: ADMIN_PASSWORD_LEN_def typed_as_def card_separator_def is_whitespace_def lit_def
          to_ascii_upper_def ascii_lower_char_def)
qed

end
