(* ===== verification/Setup_Claim.thy ===== *)
theory Setup_Claim
  imports Setup_Code
begin

text \<open>
  Claiming a pond with its printed card: the record (\<open>pond-core/src/network/domain/setup_record.rs\<close>),
  the file that holds it and the drawing of its code (\<open>pond-infra/src/file_setup_code_store.rs\<close>) and
  \<open>SetupClaimService\<close> (\<open>pond-core/src/network/services/setup_claim.rs\<close>). Whether the disk can be read and
  written at a call is an argument, as are the bytes of the random number generator and the record
  that another process may publish while this one creates its own. The file is the record in it;
  its JSON, its mode bits and the fsyncs are left out. The service holds one lock across each call.
\<close>

definition SETUP_RECORD_VERSION :: u32 where "SETUP_RECORD_VERSION = 1"

datatype claim_state = Unclaimed | Claimed timestamp

fun is_claimed :: "claim_state \<Rightarrow> bool" where
  "is_claimed Unclaimed = False"
| "is_claimed (Claimed _) = True"

record setup_record =
  sr_version :: u32
  sr_code :: ustr
  sr_discriminator :: "16 word"
  sr_created_at :: timestamp
  sr_claimed_at :: "timestamp option"
  sr_claimed_by :: "ustr option"

definition setup_record_new :: "ustr \<Rightarrow> 16 word \<Rightarrow> timestamp \<Rightarrow> setup_record" where
  "setup_record_new code discriminator created_at =
     \<lparr>sr_version = SETUP_RECORD_VERSION, sr_code = code, sr_discriminator = discriminator,
      sr_created_at = created_at, sr_claimed_at = None, sr_claimed_by = None\<rparr>"

definition claim_state_of :: "setup_record \<Rightarrow> claim_state" where
  "claim_state_of r = (case sr_claimed_at r of Some at \<Rightarrow> Claimed at | None \<Rightarrow> Unclaimed)"

record setup_status =
  st_discriminator :: "16 word"
  st_claim :: claim_state
  st_claimed_by :: "ustr option"

definition status_of_record :: "setup_record \<Rightarrow> setup_status" where
  "status_of_record r =
     \<lparr>st_discriminator = sr_discriminator r, st_claim = claim_state_of r,
      st_claimed_by = sr_claimed_by r\<rparr>"

definition status_claimed_by :: "setup_status \<Rightarrow> ustr option \<Rightarrow> bool" where
  "status_claimed_by s device \<longleftrightarrow>
     is_claimed (st_claim s) \<and>
     (case device of Some d \<Rightarrow> d \<noteq> [] | None \<Rightarrow> False) \<and> st_claimed_by s = device"

section \<open>Drawing a code\<close>

definition DIGIT_REJECTION_BOUND :: u8 where "DIGIT_REJECTION_BOUND = 250"

text \<open>The bytes the generator gives; when they run out it has failed.\<close>

fun draw_digit :: "u8 list \<Rightarrow> (nat \<times> u8 list) option" where
  "draw_digit [] = None"
| "draw_digit (b # bs) =
     (if b < DIGIT_REJECTION_BOUND then Some (unat (b mod 10), bs) else draw_digit bs)"

fun draw_digits :: "nat \<Rightarrow> u8 list \<Rightarrow> (nat list \<times> u8 list) option" where
  "draw_digits 0 bs = Some ([], bs)"
| "draw_digits (Suc n) bs =
     (case draw_digit bs of
        None \<Rightarrow> None
      | Some (d, bs') \<Rightarrow>
          (case draw_digits n bs' of None \<Rightarrow> None | Some (ds, bs'') \<Rightarrow> Some (d # ds, bs'')))"

definition draw_code :: "u8 list \<Rightarrow> (ustr \<times> u8 list) option" where
  "draw_code bs =
     (case draw_digits SETUP_CODE_RANDOM_DIGITS bs of
        None \<Rightarrow> None
      | Some (ds, bs') \<Rightarrow>
          (case setup_code_from_digits ds of Ok code \<Rightarrow> Some (code, bs') | Err _ \<Rightarrow> None))"

fun draw_id :: "u8 list \<Rightarrow> (16 word \<times> u8 list) option" where
  "draw_id (a # b # bs) = Some (ucast a + 256 * ucast b, bs)"
| "draw_id _ = None"

section \<open>The file\<close>

record disk =
  dk_reads :: bool
  dk_writes :: bool

datatype setup_store_error = StoreUnreadable | NoSetupCode | StoreUnwritable | NoRandomness

type_synonym setup_file = "setup_record option"

definition file_load :: "disk \<Rightarrow> setup_file \<Rightarrow> (setup_file, setup_store_error) result" where
  "file_load io f = (if dk_reads io then Ok f else Err StoreUnreadable)"

definition file_require :: "disk \<Rightarrow> setup_file \<Rightarrow> (setup_record, setup_store_error) result" where
  "file_require io f =
     (case file_load io f of
        Err e \<Rightarrow> Err e | Ok None \<Rightarrow> Err NoSetupCode | Ok (Some r) \<Rightarrow> Ok r)"

definition file_replace ::
  "disk \<Rightarrow> setup_file \<Rightarrow> setup_record \<Rightarrow> (setup_record, setup_store_error) result \<times> setup_file" where
  "file_replace io f r = (if dk_writes io then (Ok r, Some r) else (Err StoreUnwritable, f))"

definition file_create_if_missing ::
  "disk \<Rightarrow> setup_file \<Rightarrow> u8 list \<Rightarrow> timestamp \<Rightarrow> setup_record option \<Rightarrow>
     (setup_record, setup_store_error) result \<times> setup_file" where
  "file_create_if_missing io f bytes now raced =
     (case file_load io f of
        Err e \<Rightarrow> (Err e, f)
      | Ok (Some existing) \<Rightarrow> (Ok existing, f)
      | Ok None \<Rightarrow>
          (case draw_code bytes of
             None \<Rightarrow> (Err NoRandomness, f)
           | Some (code, rest) \<Rightarrow>
               (case draw_id rest of
                  None \<Rightarrow> (Err NoRandomness, f)
                | Some (disc, _) \<Rightarrow>
                    if \<not> dk_writes io then (Err StoreUnwritable, f)
                    else (case raced of
                            Some theirs \<Rightarrow> (file_require io (Some theirs), Some theirs)
                          | None \<Rightarrow>
                              (let r = setup_record_new code disc now in (Ok r, Some r))))))"

definition file_mark_claimed ::
  "disk \<Rightarrow> setup_file \<Rightarrow> timestamp \<Rightarrow> ustr option \<Rightarrow>
     (setup_record, setup_store_error) result \<times> setup_file" where
  "file_mark_claimed io f at claimant =
     (case file_require io f of
        Err e \<Rightarrow> (Err e, f)
      | Ok r \<Rightarrow>
          if sr_claimed_at r \<noteq> None then (Ok r, f)
          else file_replace io f (r\<lparr>sr_claimed_at := Some at, sr_claimed_by := claimant\<rparr>))"

definition file_rearm :: "disk \<Rightarrow> setup_file \<Rightarrow> (setup_record, setup_store_error) result \<times> setup_file"
  where
  "file_rearm io f =
     (case file_require io f of
        Err e \<Rightarrow> (Err e, f)
      | Ok r \<Rightarrow>
          (let r' = r\<lparr>sr_claimed_at := None, sr_claimed_by := None\<rparr> in
           if sr_claimed_at r = None \<and> sr_claimed_by r = None then (Ok r', f)
           else file_replace io f r'))"

section \<open>The service\<close>

record setup_service =
  ss_file :: setup_file
  ss_throttle :: setup_guess_throttle
  ss_notified :: bool

datatype claim_error = ClaimRefused claim_refusal | ClaimStore setup_store_error

definition admit_setup_attempt ::
  "disk \<Rightarrow> setup_service \<Rightarrow> timestamp \<Rightarrow> (ustr, claim_refusal) result \<times> setup_service" where
  "admit_setup_attempt io s now =
     (case file_load io (ss_file s) of
        Err _ \<Rightarrow> (Err SetupCodeUnavailable, s)
      | Ok None \<Rightarrow> (Err SetupCodeUnavailable, s)
      | Ok (Some r) \<Rightarrow>
          if is_claimed (claim_state_of r) then (Err SetupCodeUnavailable, s)
          else (case throttle_check (ss_throttle s) now of
                  Err wait \<Rightarrow> (Err (SetupCodeCooling wait), s)
                | Ok _ \<Rightarrow>
                    (Ok (sr_code r), s\<lparr>ss_throttle := record_failure (ss_throttle s) now\<rparr>)))"

definition record_claim ::
  "disk \<Rightarrow> setup_service \<Rightarrow> timestamp \<Rightarrow> ustr \<Rightarrow>
     (setup_record, claim_error) result \<times> setup_service" where
  "record_claim io s at device =
     (case file_load io (ss_file s) of
        Err e \<Rightarrow> (Err (ClaimStore e), s)
      | Ok f \<Rightarrow>
          if (case f of Some r \<Rightarrow> \<not> is_claimed (claim_state_of r) | None \<Rightarrow> False)
          then (case file_mark_claimed io (ss_file s) at (Some device) of
                  (Err e, file) \<Rightarrow> (Err (ClaimStore e), s\<lparr>ss_file := file\<rparr>)
                | (Ok r, file) \<Rightarrow>
                    (Ok r, s\<lparr>ss_file := file, ss_throttle := record_success (ss_throttle s),
                             ss_notified := True\<rparr>))
          else (Err (ClaimRefused SetupCodeUnavailable), s))"

definition latch_claim ::
  "disk \<Rightarrow> setup_service \<Rightarrow> timestamp \<Rightarrow> ustr \<Rightarrow> (bool, setup_store_error) result \<times> setup_service" where
  "latch_claim io s at device =
     (case file_load io (ss_file s) of
        Err e \<Rightarrow> (Err e, s)
      | Ok f \<Rightarrow>
          if (case f of Some r \<Rightarrow> \<not> is_claimed (claim_state_of r) | None \<Rightarrow> False)
          then (case file_mark_claimed io (ss_file s) at (Some device) of
                  (Err e, file) \<Rightarrow> (Err e, s\<lparr>ss_file := file\<rparr>)
                | (Ok _, file) \<Rightarrow> (Ok True, s\<lparr>ss_file := file, ss_notified := True\<rparr>))
          else (Ok False, s))"

definition pond_claim_state :: "disk \<Rightarrow> setup_service \<Rightarrow> (claim_state, setup_store_error) result" where
  "pond_claim_state io s =
     (case file_load io (ss_file s) of
        Err e \<Rightarrow> Err e
      | Ok f \<Rightarrow> Ok (case f of None \<Rightarrow> Unclaimed | Some r \<Rightarrow> claim_state_of r))"

definition pond_setup_status ::
  "disk \<Rightarrow> setup_service \<Rightarrow> (setup_status option, setup_store_error) result" where
  "pond_setup_status io s =
     (case file_load io (ss_file s) of Err e \<Rightarrow> Err e | Ok f \<Rightarrow> Ok (map_option status_of_record f))"

definition pond_claimed_by :: "disk \<Rightarrow> setup_service \<Rightarrow> (ustr option, setup_store_error) result" where
  "pond_claimed_by io s =
     (case file_load io (ss_file s) of
        Err e \<Rightarrow> Err e
      | Ok f \<Rightarrow>
          Ok (case f of
                Some r \<Rightarrow> if is_claimed (claim_state_of r) then sr_claimed_by r else None
              | None \<Rightarrow> None))"

section \<open>The pond's life before and after its claim\<close>

text \<open>
  What phones, pairings, the operator and factory reset do, in any order. The log holds the setup
  attempts admitted since the last claim made with the code.
\<close>

record setup_world =
  sw_service :: setup_service
  sw_log :: "timestamp list"

datatype setup_event = Attempt | ClaimWithCode ustr | ClaimByPairing ustr | Create | Rearm

inductive setup_step :: "setup_event \<Rightarrow> setup_world \<Rightarrow> setup_world \<Rightarrow> bool" where
  admitted: "admit_setup_attempt io (sw_service w) now = (Ok c, s) \<Longrightarrow>
    setup_step Attempt w \<lparr>sw_service = s, sw_log = sw_log w @ [now]\<rparr>"
| refused: "admit_setup_attempt io (sw_service w) now = (Err e, s) \<Longrightarrow>
    setup_step Attempt w (w\<lparr>sw_service := s\<rparr>)"
| claimed: "record_claim io (sw_service w) at device = (Ok r, s) \<Longrightarrow>
    setup_step (ClaimWithCode device) w \<lparr>sw_service = s, sw_log = []\<rparr>"
| unclaimed: "record_claim io (sw_service w) at device = (Err e, s) \<Longrightarrow>
    setup_step (ClaimWithCode device) w (w\<lparr>sw_service := s\<rparr>)"
| paired: "latch_claim io (sw_service w) at device = (res, s) \<Longrightarrow>
    setup_step (ClaimByPairing device) w (w\<lparr>sw_service := s\<rparr>)"
| created: "file_create_if_missing io (ss_file (sw_service w)) bytes now raced = (res, f) \<Longrightarrow>
    setup_step Create w (w\<lparr>sw_service := (sw_service w)\<lparr>ss_file := f\<rparr>\<rparr>)"
| rearmed: "file_rearm io (ss_file (sw_service w)) = (res, f) \<Longrightarrow>
    setup_step Rearm w (w\<lparr>sw_service := (sw_service w)\<lparr>ss_file := f\<rparr>\<rparr>)"

inductive setup_run :: "setup_event list \<Rightarrow> setup_world \<Rightarrow> setup_world \<Rightarrow> bool" where
  done_run: "setup_run [] w w"
| more_run: "setup_step e w w' \<Longrightarrow> setup_run es w' w'' \<Longrightarrow> setup_run (e # es) w w''"

lemma admit_Ok:
  "admit_setup_attempt io s now = (Ok c, s') \<Longrightarrow>
     (\<exists>r. ss_file s = Some r \<and> sr_claimed_at r = None \<and> c = sr_code r) \<and> ss_file s' = ss_file s \<and>
     (\<exists>u. throttle_check (ss_throttle s) now = Ok u) \<and>
     ss_throttle s' = record_failure (ss_throttle s) now"
  by (auto simp: admit_setup_attempt_def claim_state_of_def file_load_def
      split: result.splits option.splits if_splits)

lemma admit_Err: "admit_setup_attempt io s now = (Err e, s') \<Longrightarrow> s' = s"
  by (auto simp: admit_setup_attempt_def split: result.splits option.splits if_splits)

lemma mark_claimed_file:
  "file_mark_claimed io f at d = (res, f') \<Longrightarrow>
     f' = f \<or> (\<exists>r. f = Some r \<and> sr_claimed_at r = None \<and>
       f' = Some (r\<lparr>sr_claimed_at := Some at, sr_claimed_by := d\<rparr>))"
  by (auto simp: file_mark_claimed_def file_require_def file_load_def file_replace_def
      split: result.splits option.splits if_splits)

lemma record_claim_file:
  "record_claim io s at device = (res, s') \<Longrightarrow>
     ss_file s' = ss_file s \<or> (\<exists>r. ss_file s = Some r \<and> sr_claimed_at r = None \<and>
       ss_file s' = Some (r\<lparr>sr_claimed_at := Some at, sr_claimed_by := Some device\<rparr>))"
  by (auto simp: record_claim_def split: result.splits option.splits if_splits prod.splits
      dest!: mark_claimed_file)

lemma record_claim_throttle:
  "record_claim io s at device = (Ok r, s') \<Longrightarrow> ss_throttle s' = throttle_new"
  "record_claim io s at device = (Err e, s') \<Longrightarrow> ss_throttle s' = ss_throttle s"
  by (auto simp: record_claim_def record_success_def
      split: result.splits option.splits if_splits prod.splits)

lemma latch_claim_file:
  "latch_claim io s at device = (res, s') \<Longrightarrow>
     ss_throttle s' = ss_throttle s \<and>
     (ss_file s' = ss_file s \<or> (\<exists>r. ss_file s = Some r \<and> sr_claimed_at r = None \<and>
        ss_file s' = Some (r\<lparr>sr_claimed_at := Some at, sr_claimed_by := Some device\<rparr>)))"
  by (auto simp: latch_claim_def split: result.splits option.splits if_splits prod.splits
      dest!: mark_claimed_file)

lemma create_file:
  "file_create_if_missing io f bytes now raced = (res, f') \<Longrightarrow> f \<noteq> None \<Longrightarrow> f' = f"
  by (auto simp: file_create_if_missing_def file_load_def split: option.splits if_splits)

lemma rearm_file:
  "file_rearm io f = (res, f') \<Longrightarrow>
     f' = f \<or> (\<exists>r. f = Some r \<and> f' = Some (r\<lparr>sr_claimed_at := None, sr_claimed_by := None\<rparr>))"
  by (auto simp: file_rearm_def file_require_def file_load_def file_replace_def Let_def
      split: result.splits option.splits if_splits)

interpretation claim_guard: throttled "\<lambda>w. ss_throttle (sw_service w)" sw_log "\<lambda>w w'. \<exists>e. setup_step e w w'"
proof unfold_locales
  fix w w' assume "\<exists>e. setup_step e w w'"
  then obtain e where "setup_step e w w'" by blast
  then show "ss_throttle (sw_service w') = ss_throttle (sw_service w) \<and> sw_log w' = sw_log w \<or>
    (\<exists>t u. throttle_check (ss_throttle (sw_service w)) t = Ok u \<and>
       ss_throttle (sw_service w') = record_failure (ss_throttle (sw_service w)) t \<and>
       sw_log w' = sw_log w @ [t]) \<or>
    ss_throttle (sw_service w') = throttle_new \<and> sw_log w' = []"
    by cases (auto dest: admit_Ok admit_Err record_claim_throttle latch_claim_file)
qed

lemma setup_run_moves: "setup_run es w w' \<Longrightarrow> (\<lambda>w w'. \<exists>e. setup_step e w w')\<^sup>*\<^sup>* w w'"
proof (induction rule: setup_run.induct)
  case (more_run e w w' es w'')
  show ?case
    by (rule converse_rtranclp_into_rtranclp [OF _ more_run(3)]) (use more_run(1) in blast)
qed simp

lemma claimed_step:
  assumes "setup_step e w w'" "e \<noteq> Rearm" "ss_file (sw_service w) = Some r" "sr_claimed_at r \<noteq> None"
  shows "ss_file (sw_service w') = Some r"
  using assms
  by cases (auto dest: admit_Ok admit_Err record_claim_file latch_claim_file create_file)

lemma card_step:
  assumes "setup_step e w w'" "ss_file (sw_service w) = Some r"
  shows "\<exists>r'. ss_file (sw_service w') = Some r' \<and> sr_code r' = sr_code r \<and>
    sr_discriminator r' = sr_discriminator r \<and> sr_created_at r' = sr_created_at r"
  using assms
  by cases (auto dest: admit_Ok admit_Err dest!: record_claim_file latch_claim_file create_file rearm_file)

section \<open>Properties\<close>

text \<open>
  C16: A claimed pond stays its first claimant's. From the moment a device has claimed it, whatever
  phones, pairings and the operator do in any order, short of a factory reset, the record is the same
  record, no setup attempt is given the code, and no other claim is made with the code or by a
  pairing, however the disk behaves.
\<close>

theorem claimed_pond_keeps_claimant:
  assumes "setup_run es w w'" "Rearm \<notin> set es" "ss_file (sw_service w) = Some r"
    "sr_claimed_at r \<noteq> None"
  shows "ss_file (sw_service w') = Some r \<and>
    fst (admit_setup_attempt io (sw_service w') now) = Err SetupCodeUnavailable \<and>
    fst (record_claim io (sw_service w') at device) \<noteq> Ok r' \<and>
    fst (latch_claim io (sw_service w') at device) \<noteq> Ok True"
proof -
  have same: "ss_file (sw_service w') = Some r"
    using assms by (induction rule: setup_run.induct) (auto dest: claimed_step)
  moreover have "is_claimed (claim_state_of r)"
    using assms(4) by (auto simp: claim_state_of_def)
  ultimately show ?thesis
    by (simp add: admit_setup_attempt_def record_claim_def latch_claim_def file_load_def)
qed

definition example_record :: setup_record where
  "example_record = setup_record_new (digit_chars [3, 4, 9, 7, 0, 1, 1, 2, 3, 3, 9]) 32570 1"

definition example_setup_world :: setup_world where
  "example_setup_world =
     \<lparr>sw_service = \<lparr>ss_file = Some example_record, ss_throttle = throttle_new, ss_notified = False\<rparr>,
      sw_log = []\<rparr>"

theorem claimed_pond_keeps_claimant_witness:
  "fst (latch_claim \<lparr>dk_reads = True, dk_writes = True\<rparr>
     \<lparr>ss_file = Some (example_record\<lparr>sr_claimed_at := Some 5, sr_claimed_by := Some (lit ''amina'')\<rparr>),
      ss_throttle = throttle_new, ss_notified = True\<rparr> 9 (lit ''liz'')) \<noteq> Ok True"
  using claimed_pond_keeps_claimant [OF done_run, of "\<lparr>sw_service =
      \<lparr>ss_file = Some (example_record\<lparr>sr_claimed_at := Some 5, sr_claimed_by := Some (lit ''amina'')\<rparr>),
       ss_throttle = throttle_new, ss_notified = True\<rparr>, sw_log = []\<rparr>"]
  by simp

text \<open>
  The printed card is never voided. Once a pond has a code, no run of attempts, claims, pairings,
  creations that race another process and factory resets changes the code, its public number or its
  date, and every code handed to a setup attempt is the printed one.
\<close>

theorem printed_card_never_voided:
  assumes "setup_run es w w'" "ss_file (sw_service w) = Some r"
  shows "(\<exists>r'. ss_file (sw_service w') = Some r' \<and> sr_code r' = sr_code r \<and>
      sr_discriminator r' = sr_discriminator r \<and> sr_created_at r' = sr_created_at r) \<and>
    fst (admit_setup_attempt io (sw_service w') now) \<in> {Ok (sr_code r)} \<union> range Err"
proof -
  have kept: "\<exists>r'. ss_file (sw_service w') = Some r' \<and> sr_code r' = sr_code r \<and>
      sr_discriminator r' = sr_discriminator r \<and> sr_created_at r' = sr_created_at r"
    using assms
  proof (induction arbitrary: r rule: setup_run.induct)
    case (more_run e w w' es w'')
    then show ?case using card_step [OF more_run(1,4)] by metis
  qed simp
  then show ?thesis
    by (cases "admit_setup_attempt io (sw_service w') now"; cases "fst (admit_setup_attempt io (sw_service w') now)")
       (auto dest: admit_Ok)
qed

theorem printed_card_never_voided_witness:
  "fst (admit_setup_attempt \<lparr>dk_reads = True, dk_writes = True\<rparr> (sw_service example_setup_world) 0) =
     Ok (digit_chars [3, 4, 9, 7, 0, 1, 1, 2, 3, 3, 9]) \<and>
   fst (admit_setup_attempt \<lparr>dk_reads = True, dk_writes = True\<rparr> (sw_service example_setup_world) 0)
     \<in> {Ok (sr_code example_record)} \<union> range Err"
proof
  show "fst (admit_setup_attempt \<lparr>dk_reads = True, dk_writes = True\<rparr> (sw_service example_setup_world) 0)
      \<in> {Ok (sr_code example_record)} \<union> range Err"
    by (rule printed_card_never_voided [OF done_run, THEN conjunct2]) (simp add: example_setup_world_def)
qed (simp add: admit_setup_attempt_def file_load_def claim_state_of_def example_setup_world_def
    example_record_def setup_record_new_def throttle_check_def throttle_new_def)

text \<open>
  A setup code cannot be guessed fast. Whatever is asked of the service in any order, of the
  attempts it admits since the last claim made with the code, each after the fifth comes no sooner
  than thirty seconds after the one before, a wait that doubles up to ten minutes; so after the
  tenth every further guess costs ten minutes, and neither a pairing, a factory reset nor an
  unreadable disk gives a guess back.
\<close>

theorem setup_guesses_rationed:
  assumes "setup_run es w w'" "ss_throttle (sw_service w) = throttle_new" "sw_log w = []"
    "5 \<le> i" "i < length (sw_log w')"
  shows "sw_log w' ! (i - 1) + int (min (from_secs 30 * 2 ^ (i - 5)) (from_secs 600)) \<le> sw_log w' ! i \<and>
    (i < 10 \<or> sw_log w' ! 9 + int ((i - 9) * from_secs 600) \<le> sw_log w' ! i)"
proof -
  have rationed: "rationed (sw_log w')"
    by (rule claim_guard.rationed_run [OF setup_run_moves [OF assms(1)]
          claim_guard.in_order_fresh [OF assms(2,3)]])
  then have "sw_log w' ! (i - 1) + int (wait_before i) \<le> sw_log w' ! i"
    using assms(4,5) unfolding rationed_def by blast
  moreover have "i < 10 \<or> sw_log w' ! 9 + int ((i - 9) * from_secs 600) \<le> sw_log w' ! i"
    using rationed_gap [OF rationed _ assms(5)] by (meson not_less)
  ultimately show ?thesis using assms(4) by (simp add: wait_before_def)
qed

text \<open>Six attempts, the sixth after its wait.\<close>

fun attempts :: "setup_world \<Rightarrow> timestamp list \<Rightarrow> setup_world" where
  "attempts w [] = w"
| "attempts w (t # ts) =
     attempts \<lparr>sw_service = (sw_service w)\<lparr>ss_throttle := record_failure (ss_throttle (sw_service w)) t\<rparr>,
       sw_log = sw_log w @ [t]\<rparr> ts"

lemma example_attempt:
  assumes "ss_file (sw_service w) = Some example_record"
    "throttle_check (ss_throttle (sw_service w)) t = Ok ()"
  shows "setup_step Attempt w
    \<lparr>sw_service = (sw_service w)\<lparr>ss_throttle := record_failure (ss_throttle (sw_service w)) t\<rparr>,
     sw_log = sw_log w @ [t]\<rparr>"
  by (rule setup_step.admitted [where io = "\<lparr>dk_reads = True, dk_writes = True\<rparr>"])
     (use assms in \<open>simp add: admit_setup_attempt_def file_load_def claim_state_of_def
        example_record_def setup_record_new_def\<close>)

lemma example_attempts:
  "ss_file (sw_service w) = Some example_record \<Longrightarrow> all_admitted (ss_throttle (sw_service w)) ts \<Longrightarrow>
     setup_run (replicate (length ts) Attempt) w (attempts w ts)"
proof (induction ts arbitrary: w)
  case (Cons t ts)
  from Cons.prems have "throttle_check (ss_throttle (sw_service w)) t = Ok ()" by simp
  from setup_run.more_run [OF example_attempt [OF Cons.prems(1) this]] Cons show ?case by simp
qed (simp add: setup_run.done_run)

theorem setup_guesses_rationed_witness:
  "\<exists>es w'. setup_run es example_setup_world w' \<and> length (sw_log w') = 6 \<and>
     sw_log w' ! 4 + int (from_secs 30) \<le> sw_log w' ! 5"
proof -
  let ?ts = "[0, 0, 0, 0, 0, int (from_secs 30)]"
  have run: "setup_run (replicate (length ?ts) Attempt) example_setup_world
      (attempts example_setup_world ?ts)"
    using example_guesses_admitted by (intro example_attempts) (simp_all add: example_setup_world_def)
  have log: "sw_log (attempts example_setup_world ?ts) = ?ts"
    by (simp add: example_setup_world_def)
  have fresh: "ss_throttle (sw_service example_setup_world) = throttle_new"
    "sw_log example_setup_world = []"
    by (simp_all add: example_setup_world_def)
  have "sw_log (attempts example_setup_world ?ts) ! 4 + int (from_secs 30)
      \<le> sw_log (attempts example_setup_world ?ts) ! 5"
    using setup_guesses_rationed [OF run fresh, of 5] unfolding log by (simp add: from_secs_def)
  moreover have "length (sw_log (attempts example_setup_world ?ts)) = 6" unfolding log by simp
  ultimately show ?thesis using run by blast
qed

lemma draw_digit_range: "draw_digit bs = Some (d, bs') \<Longrightarrow> d < 10"
proof (induction bs rule: draw_digit.induct)
  case (2 b bs)
  have "unat (b mod 10) < 10" by (simp add: unat_mod)
  with 2 show ?case by (auto split: if_splits)
qed simp

lemma draw_digits_range:
  "draw_digits n bs = Some (ds, bs') \<Longrightarrow> length ds = n \<and> list_all (\<lambda>d. d < 10) ds"
proof (induction n arbitrary: bs ds bs')
  case (Suc n)
  from Suc.prems obtain d bs1 ds1 where "draw_digit bs = Some (d, bs1)"
    "draw_digits n bs1 = Some (ds1, bs')" "ds = d # ds1"
    by (auto split: option.splits)
  with draw_digit_range Suc.IH show ?case by (metis length_Cons list.pred_inject(2))
qed simp

text \<open>A byte draws a digit when it is below 250, and each digit is drawn by as many bytes.\<close>

lemma byte_value: "n < 256 \<Longrightarrow> unat (word_of_nat n :: u8) = n"
  by (simp add: unat_of_nat)

lemma draw_digit_single:
  assumes "n < 256"
  shows "draw_digit [word_of_nat n] = (if n < 250 then Some (n mod 10, []) else None)"
proof -
  have "(word_of_nat n < DIGIT_REJECTION_BOUND) = (n < 250)"
    using byte_value [OF assms] by (simp add: DIGIT_REJECTION_BOUND_def word_less_nat_alt)
  moreover have "unat (word_of_nat n mod 10 :: u8) = n mod 10"
    using byte_value [OF assms] by (simp add: unat_mod)
  ultimately show ?thesis by simp
qed

lemma residue_of_ten:
  fixes d k :: nat
  assumes "d < 10"
  shows "length (filter (\<lambda>i. (10 * k + i) mod 10 = d) [0..<10]) = 1"
proof -
  have "filter (\<lambda>i. (10 * k + i) mod 10 = d) [0..<10] = filter (\<lambda>i. i = d) [0..<10]"
    by (rule filter_cong) simp_all
  also have "\<dots> = [d]"
  proof -
    have digits: "[0..<10] = [0, 1, 2, 3, 4, 5, 6, 7, 8, 9 :: nat]" by (simp add: upt_rec)
    have "d \<in> set [0..<10]" using assms by simp
    then have "d = 0 \<or> d = 1 \<or> d = 2 \<or> d = 3 \<or> d = 4 \<or> d = 5 \<or> d = 6 \<or> d = 7 \<or> d = 8 \<or> d = 9"
      unfolding digits by simp
    then show ?thesis unfolding digits by (elim disjE) simp_all
  qed
  finally show ?thesis by simp
qed

lemma residues_even: "d < 10 \<Longrightarrow> length (filter (\<lambda>n. n mod 10 = d) [0..<10 * k]) = k" for d :: nat
proof (induction k)
  case (Suc k)
  have "[0..<10 * Suc k] = [0..<10 * k] @ map (\<lambda>i. 10 * k + i) [0..<10]"
    using upt_add_eq_append [of 0 "10 * k" 10] by (simp add: map_add_upt add.commute)
  then show ?case using Suc residue_of_ten [of d k] by (simp add: filter_map comp_def)
qed simp

lemma bytes_of_digit:
  assumes "d < 10"
  shows "length (filter (\<lambda>n. draw_digit [word_of_nat n] = Some (d, [])) [0..<256]) = 25"
proof -
  have "filter (\<lambda>n. draw_digit [word_of_nat n] = Some (d, [])) [0..<256] =
      filter (\<lambda>n. n < 250 \<and> n mod 10 = d) [0..<256]"
    by (rule filter_cong) (auto simp: draw_digit_single simp del: draw_digit.simps)
  moreover have "[0..<256] = [0..<250] @ [250..<256]"
    using upt_add_eq_append [of 0 250 6] by simp
  moreover have "filter (\<lambda>n. n < 250 \<and> n mod 10 = d) [0..<250] =
      filter (\<lambda>n. n mod 10 = d) [0..<250]"
    by (rule filter_cong) simp_all
  moreover have "filter (\<lambda>n. n < 250 \<and> n mod 10 = d) [250..<256] = []"
    by (simp only: filter_empty_conv) simp
  moreover have "length (filter (\<lambda>n. n mod 10 = d) [0..<250]) = 25"
    using residues_even [OF assms, of 25] by simp
  ultimately show ?thesis by (simp only: filter_append append_Nil2)
qed

text \<open>
  A new card's code is a valid code, its digits drawn evenly. Whatever bytes the generator gives, a
  code drawn reads back as itself; and of the byte's 256 values each digit is drawn by exactly 25, the
  six above the bound being drawn again.
\<close>

theorem drawn_codes_valid_and_even:
  "(case draw_code bytes of Some (c, rest) \<Rightarrow> setup_code_parse c = Ok c | None \<Rightarrow> True) \<and>
   (d < 10 \<longrightarrow>
     length (filter (\<lambda>n. draw_digit [word_of_nat n] = Some (d, [])) [0..<256]) = 25)"
proof
  show "case draw_code bytes of Some (c, rest) \<Rightarrow> setup_code_parse c = Ok c | None \<Rightarrow> True"
    using setup_code_reads_back_aux draw_digits_range [of SETUP_CODE_RANDOM_DIGITS bytes]
    by (auto simp: draw_code_def split: option.splits result.splits)
  show "d < 10 \<longrightarrow>
      length (filter (\<lambda>n. draw_digit [word_of_nat n] = Some (d, [])) [0..<256]) = 25"
    by (intro impI bytes_of_digit)
qed

theorem drawn_codes_valid_and_even_witness:
  "length (filter (\<lambda>n. draw_digit [word_of_nat n] = Some (7, [])) [0..<256]) = 25"
  by (rule drawn_codes_valid_and_even [where bytes = "[]" and d = 7, THEN conjunct2, THEN mp]) simp

end
