(* ===== verification/Admin_Elevation.thy ===== *)
theory Admin_Elevation
  imports Setup_Code
begin

text \<open>
  Who may administer the pond: \<open>AdminElevation\<close>
  (\<open>pond-core/src/security/services/admin_elevation.rs\<close>) over its two ports
  (\<open>security/ports/admin_card.rs\<close>): the admin card's file (\<open>pond-infra/src/file_admin_card.rs\<close>) as a
  card id with a verifier, and the devices' keys (\<open>pond-infra/src/sqlite_admin_keys.rs\<close>) as a table of
  digests. PBKDF2 is the argument \<open>verifies\<close>, SHA-256 the argument \<open>digest\<close>; an answer \<open>None\<close> of a port is
  its error. The ledger's lock is held across each unlock, and the stores may change between its two reads. An
  admission reads the card before it takes the lock, so its step takes any answer.
\<close>

definition ADMIN_IDLE :: duration where "ADMIN_IDLE = from_secs (15 * 60)"

datatype unlock_refusal =
    Malformed | Rejected | KeyRejected | CardMissing | Cooling retry_after | UnlockUnavailable

fun unlock_refusal_code :: "unlock_refusal \<Rightarrow> ustr" where
  "unlock_refusal_code Malformed = lit ''admin_password_malformed''"
| "unlock_refusal_code Rejected = lit ''admin_password_rejected''"
| "unlock_refusal_code KeyRejected = lit ''admin_key_rejected''"
| "unlock_refusal_code CardMissing = lit ''admin_card_missing''"
| "unlock_refusal_code (Cooling _) = lit ''admin_cooling''"
| "unlock_refusal_code UnlockUnavailable = lit ''admin_card_unreadable''"

datatype locked_reason = NotUnlocked | Expired | CardChanged | LockedUnavailable

fun locked_as_str :: "locked_reason \<Rightarrow> ustr" where
  "locked_as_str NotUnlocked = lit ''not_unlocked''"
| "locked_as_str Expired = lit ''expired''"
| "locked_as_str CardChanged = lit ''card_changed''"
| "locked_as_str LockedUnavailable = lit ''card_unreadable''"

record admin_grant =
  gr_card_id :: "ustr option"
  gr_last_used :: timestamp

record admin_ledger =
  al_throttle :: setup_guess_throttle
  al_grants :: "ustr \<Rightarrow> admin_grant option"

definition admin_ledger_new :: admin_ledger where
  "admin_ledger_new = \<lparr>al_throttle = throttle_new, al_grants = (\<lambda>_. None)\<rparr>"

section \<open>The ports\<close>

record admin_card =
  ac_card_id :: ustr
  ac_verifier :: ustr

datatype card_check = CardMatches ustr | CardMismatch | NoCard

definition card_check_of :: "(ustr \<Rightarrow> ustr \<Rightarrow> bool) \<Rightarrow> admin_card option \<Rightarrow> ustr \<Rightarrow> card_check" where
  "card_check_of verifies in_force password =
     (case in_force of
        None \<Rightarrow> NoCard
      | Some c \<Rightarrow> if verifies (ac_verifier c) password then CardMatches (ac_card_id c) else CardMismatch)"

type_synonym admin_keys = "ustr \<Rightarrow> ustr option"

definition keys_issue :: "(ustr \<Rightarrow> ustr) \<Rightarrow> admin_keys \<Rightarrow> ustr \<Rightarrow> ustr \<Rightarrow> admin_keys" where
  "keys_issue digest keys device key = keys(device \<mapsto> digest key)"

definition keys_check :: "(ustr \<Rightarrow> ustr) \<Rightarrow> admin_keys \<Rightarrow> ustr \<Rightarrow> ustr \<Rightarrow> bool" where
  "keys_check digest keys device key \<longleftrightarrow> keys device = Some (digest key)"

definition keys_holds :: "admin_keys \<Rightarrow> ustr \<Rightarrow> bool" where
  "keys_holds keys device \<longleftrightarrow> keys device \<noteq> None"

definition keys_revoke :: "admin_keys \<Rightarrow> ustr \<Rightarrow> bool \<times> admin_keys" where
  "keys_revoke keys device = (keys device \<noteq> None, keys(device := None))"

definition keys_revoke_all :: "admin_keys \<Rightarrow> admin_keys" where
  "keys_revoke_all keys = (\<lambda>_. None)"

section \<open>The operations\<close>

definition granted :: "admin_ledger \<Rightarrow> ustr \<Rightarrow> ustr option \<Rightarrow> timestamp \<Rightarrow> admin_ledger" where
  "granted l device card_id now =
     l\<lparr>al_throttle := record_success (al_throttle l),
       al_grants := (al_grants l)(device \<mapsto> \<lparr>gr_card_id = card_id, gr_last_used = now\<rparr>)\<rparr>"

definition failed :: "admin_ledger \<Rightarrow> timestamp \<Rightarrow> admin_ledger" where
  "failed l now = l\<lparr>al_throttle := record_failure (al_throttle l) now\<rparr>"

text \<open>\<open>check\<close> is the store's answer on the password that was parsed.\<close>

definition admin_unlock ::
  "duration \<Rightarrow> admin_ledger \<Rightarrow> ustr \<Rightarrow> ustr \<Rightarrow> (ustr \<Rightarrow> card_check option) \<Rightarrow> timestamp \<Rightarrow>
     (duration, unlock_refusal) result \<times> admin_ledger" where
  "admin_unlock idle l device typed check now =
     (case admin_password_parse typed of
        Err _ \<Rightarrow> (Err Malformed, l)
      | Ok password \<Rightarrow>
          (case throttle_check (al_throttle l) now of
             Err wait \<Rightarrow> (Err (Cooling wait), l)
           | Ok _ \<Rightarrow>
               (case check password of
                  None \<Rightarrow> (Err UnlockUnavailable, l)
                | Some NoCard \<Rightarrow> (Err CardMissing, l)
                | Some CardMismatch \<Rightarrow> (Err Rejected, failed l now)
                | Some (CardMatches card_id) \<Rightarrow> (Ok idle, granted l device (Some card_id) now))))"

text \<open>The two halves of \<open>unlock_with_key\<close>, around its second read: \<open>live\<close> is the key store's answer.\<close>

datatype key_verdict = KeyRefused unlock_refusal | KeyLive

definition check_key ::
  "admin_ledger \<Rightarrow> bool option \<Rightarrow> timestamp \<Rightarrow> key_verdict \<times> admin_ledger" where
  "check_key l live now =
     (case throttle_check (al_throttle l) now of
        Err wait \<Rightarrow> (KeyRefused (Cooling wait), l)
      | Ok _ \<Rightarrow>
          (case live of
             None \<Rightarrow> (KeyRefused UnlockUnavailable, l)
           | Some False \<Rightarrow> (KeyRefused KeyRejected, failed l now)
           | Some True \<Rightarrow> (KeyLive, l)))"

definition grant_key ::
  "duration \<Rightarrow> admin_ledger \<Rightarrow> ustr \<Rightarrow> ustr option option \<Rightarrow> timestamp \<Rightarrow>
     (duration, unlock_refusal) result \<times> admin_ledger" where
  "grant_key idle l device current now =
     (case current of
        None \<Rightarrow> (Err UnlockUnavailable, l)
      | Some card_id \<Rightarrow> (Ok idle, granted l device card_id now))"

definition unlock_with_key ::
  "duration \<Rightarrow> admin_ledger \<Rightarrow> ustr \<Rightarrow> bool option \<Rightarrow> ustr option option \<Rightarrow> timestamp \<Rightarrow>
     (duration, unlock_refusal) result \<times> admin_ledger" where
  "unlock_with_key idle l device live current now =
     (case check_key l live now of
        (KeyRefused e, l') \<Rightarrow> (Err e, l')
      | (KeyLive, l') \<Rightarrow> grant_key idle l' device current now)"

definition admin_lock :: "admin_ledger \<Rightarrow> ustr \<Rightarrow> bool \<times> admin_ledger" where
  "admin_lock l device =
     (al_grants l device \<noteq> None, l\<lparr>al_grants := (al_grants l)(device := None)\<rparr>)"

definition admin_admit ::
  "duration \<Rightarrow> admin_ledger \<Rightarrow> ustr \<Rightarrow> ustr option option \<Rightarrow> timestamp \<Rightarrow>
     (duration, locked_reason) result \<times> admin_ledger" where
  "admin_admit idle l device current now =
     (case current of
        None \<Rightarrow> (Err LockedUnavailable, l)
      | Some card_id \<Rightarrow>
          (case al_grants l device of
             None \<Rightarrow> (Err NotUnlocked, l)
           | Some grant \<Rightarrow>
               if card_id \<noteq> gr_card_id grant then (Err CardChanged, snd (admin_lock l device))
               else if nat (now - gr_last_used grant) \<ge> idle
               then (Err Expired, snd (admin_lock l device))
               else (Ok idle,
                     l\<lparr>al_grants := (al_grants l)(device \<mapsto> grant\<lparr>gr_last_used := now\<rparr>)\<rparr>)))"

text \<open>
  \<open>enroll\<close> and \<open>revoke_device\<close> when no other call falls between their two halves; \<open>key\<close> is the key drawn,
  \<open>None\<close> when the table cannot be written.
\<close>

definition admin_enroll ::
  "(ustr \<Rightarrow> ustr) \<Rightarrow> duration \<Rightarrow> admin_ledger \<Rightarrow> admin_keys \<Rightarrow> ustr \<Rightarrow> ustr option option \<Rightarrow>
     timestamp \<Rightarrow> ustr option \<Rightarrow> (ustr, locked_reason) result \<times> admin_ledger \<times> admin_keys" where
  "admin_enroll digest idle l keys device current now key =
     (case admin_admit idle l device current now of
        (Err e, l') \<Rightarrow> (Err e, l', keys)
      | (Ok _, l') \<Rightarrow>
          (case key of
             None \<Rightarrow> (Err LockedUnavailable, l', keys)
           | Some k \<Rightarrow> (Ok k, l', keys_issue digest keys device k)))"

definition admin_revoke_device ::
  "admin_ledger \<Rightarrow> admin_keys \<Rightarrow> ustr \<Rightarrow> bool \<times> admin_ledger \<times> admin_keys" where
  "admin_revoke_device l keys device =
     (case keys_revoke keys device of
        (held, keys') \<Rightarrow> (held, snd (admin_lock l device), keys'))"

record admin_status =
  as_card_present :: bool
  as_key_held :: bool
  as_unlocked_for :: "duration option"
  as_retry_after :: "retry_after option"

definition admin_status_of ::
  "duration \<Rightarrow> admin_ledger \<Rightarrow> ustr \<Rightarrow> ustr option option \<Rightarrow> bool option \<Rightarrow> timestamp \<Rightarrow>
     admin_status option" where
  "admin_status_of idle l device current held now =
     (case current of
        None \<Rightarrow> None
      | Some card_id \<Rightarrow>
          (case held of
             None \<Rightarrow> None
           | Some key_held \<Rightarrow>
               Some \<lparr>as_card_present = (card_id \<noteq> None), as_key_held = key_held,
                 as_unlocked_for =
                   Option.bind (al_grants l device) (\<lambda>grant.
                     if card_id \<noteq> gr_card_id grant \<or> nat (now - gr_last_used grant) \<ge> idle then None
                     else Some (idle - nat (now - gr_last_used grant))),
                 as_retry_after =
                   (case throttle_check (al_throttle l) now of Ok _ \<Rightarrow> None | Err wait \<Rightarrow> Some wait)\<rparr>))"

section \<open>The pond's administration\<close>

text \<open>
  What has happened, the newest first. A proof is the password that the card in force verified, or a
  key whose digest the table held for the device.
\<close>

datatype admin_proof = ByCard ustr ustr | ByKey ustr ustr

datatype admin_event =
    Unlocked ustr timestamp "ustr option" admin_proof
  | Admitted ustr timestamp
  | Ended ustr
  | Revoked ustr

text \<open>
  The ledger, the stores, a key found live whose unlock has yet to read the card, the devices whose lock
  is done and whose key is about to be revoked, the wrong guesses charged since the last success, and
  the events.
\<close>

record admin_world =
  aw_ledger :: admin_ledger
  aw_card :: "admin_card option"
  aw_keys :: admin_keys
  aw_pending :: "(ustr \<times> ustr \<times> timestamp) option"
  aw_revoking :: "ustr list"
  aw_wrong :: "timestamp list"
  aw_events :: "admin_event list"

abbreviation card_id_of :: "admin_card option \<Rightarrow> ustr option" where
  "card_id_of in_force \<equiv> map_option ac_card_id in_force"

inductive admin_step ::
  "(ustr \<Rightarrow> ustr \<Rightarrow> bool) \<Rightarrow> (ustr \<Rightarrow> ustr) \<Rightarrow> duration \<Rightarrow> admin_world \<Rightarrow> admin_world \<Rightarrow> bool"
  for verifies digest idle where
  unlocks: "aw_pending w = None \<Longrightarrow> admin_password_parse typed = Ok password \<Longrightarrow> aw_card w = Some c \<Longrightarrow>
    admin_unlock idle (aw_ledger w) device typed
      (\<lambda>p. Some (card_check_of verifies (aw_card w) p)) now = (Ok left, l) \<Longrightarrow>
    admin_step verifies digest idle w
      (w\<lparr>aw_ledger := l, aw_wrong := [],
         aw_events := Unlocked device now (card_id_of (aw_card w)) (ByCard (ac_verifier c) password)
           # aw_events w\<rparr>)"
| mistypes: "aw_pending w = None \<Longrightarrow>
    admin_unlock idle (aw_ledger w) device typed check now = (Err Rejected, l) \<Longrightarrow>
    admin_step verifies digest idle w (w\<lparr>aw_ledger := l, aw_wrong := aw_wrong w @ [now]\<rparr>)"
| unanswered: "aw_pending w = None \<Longrightarrow>
    admin_unlock idle (aw_ledger w) device typed check now = (Err e, l) \<Longrightarrow> e \<noteq> Rejected \<Longrightarrow>
    admin_step verifies digest idle w (w\<lparr>aw_ledger := l\<rparr>)"
| key_wrong: "aw_pending w = None \<Longrightarrow>
    check_key (aw_ledger w) (Some (keys_check digest (aw_keys w) device key)) now
      = (KeyRefused KeyRejected, l) \<Longrightarrow>
    admin_step verifies digest idle w (w\<lparr>aw_ledger := l, aw_wrong := aw_wrong w @ [now]\<rparr>)"
| key_unanswered: "aw_pending w = None \<Longrightarrow> check_key (aw_ledger w) live now = (KeyRefused e, l) \<Longrightarrow>
    e \<noteq> KeyRejected \<Longrightarrow> admin_step verifies digest idle w (w\<lparr>aw_ledger := l\<rparr>)"
| key_live: "aw_pending w = None \<Longrightarrow>
    check_key (aw_ledger w) (Some (keys_check digest (aw_keys w) device key)) now = (KeyLive, l) \<Longrightarrow>
    admin_step verifies digest idle w
      (w\<lparr>aw_ledger := l, aw_pending := Some (device, key, now)\<rparr>)"
| key_grants: "aw_pending w = Some (device, key, now) \<Longrightarrow>
    grant_key idle (aw_ledger w) device (Some (card_id_of (aw_card w))) now = (Ok left, l) \<Longrightarrow>
    admin_step verifies digest idle w
      (w\<lparr>aw_ledger := l, aw_pending := None, aw_wrong := [],
         aw_events := Unlocked device now (card_id_of (aw_card w)) (ByKey (digest key) key)
           # aw_events w\<rparr>)"
| key_fails: "aw_pending w = Some (device, key, now) \<Longrightarrow>
    grant_key idle (aw_ledger w) device None now = (res, l) \<Longrightarrow>
    admin_step verifies digest idle w (w\<lparr>aw_ledger := l, aw_pending := None\<rparr>)"
| admits: "aw_pending w = None \<Longrightarrow>
    admin_admit idle (aw_ledger w) device current now = (Ok left, l) \<Longrightarrow>
    admin_step verifies digest idle w
      (w\<lparr>aw_ledger := l, aw_events := Admitted device now # aw_events w\<rparr>)"
| turns_away: "aw_pending w = None \<Longrightarrow>
    admin_admit idle (aw_ledger w) device current now = (Err e, l) \<Longrightarrow>
    admin_step verifies digest idle w (w\<lparr>aw_ledger := l, aw_events :=
      (if e \<in> {Expired, CardChanged} then Ended device # aw_events w else aw_events w)\<rparr>)"
| locks: "aw_pending w = None \<Longrightarrow> admin_lock (aw_ledger w) device = (b, l) \<Longrightarrow>
    admin_step verifies digest idle w
      (w\<lparr>aw_ledger := l, aw_events := Ended device # aw_events w\<rparr>)"
| revoke_locks: "aw_pending w = None \<Longrightarrow> admin_lock (aw_ledger w) device = (b, l) \<Longrightarrow>
    admin_step verifies digest idle w
      (w\<lparr>aw_ledger := l, aw_revoking := device # aw_revoking w,
         aw_events := Ended device # aw_events w\<rparr>)"
| revokes: "device \<in> set (aw_revoking w) \<Longrightarrow> keys_revoke (aw_keys w) device = (b, keys) \<Longrightarrow>
    admin_step verifies digest idle w
      (w\<lparr>aw_keys := keys, aw_revoking := remove1 device (aw_revoking w),
         aw_events := Revoked device # aw_events w\<rparr>)"
| issues: "admin_step verifies digest idle w (w\<lparr>aw_keys := keys_issue digest (aw_keys w) device key\<rparr>)"
| rotates: "admin_step verifies digest idle w (w\<lparr>aw_card := new_card\<rparr>)"
| revokes_all: "admin_step verifies digest idle w (w\<lparr>aw_keys := keys_revoke_all (aw_keys w)\<rparr>)"

text \<open>Undisturbed, a revocation leaves the device locked and without a key.\<close>

lemma admin_revoke_device_locks_out:
  assumes "admin_revoke_device l keys device = (held, l', keys')"
  shows "fst (admin_admit idle l' device (Some card_id) now) = Err NotUnlocked"
    "\<not> keys_check digest keys' device key" "d \<noteq> device \<Longrightarrow> al_grants l' d = al_grants l d"
  using assms by (auto simp: admin_revoke_device_def keys_revoke_def admin_lock_def admin_admit_def
      keys_check_def)

text \<open>A key is given only to an unlocked device, and is then its live one.\<close>

lemma admin_enroll_Ok:
  assumes "admin_enroll digest idle l keys device current now key = (Ok k, l', keys')"
  shows "al_grants l device \<noteq> None" "keys_check digest keys' device k"
  using assms by (auto simp: admin_enroll_def admin_admit_def keys_check_def keys_issue_def
      split: option.splits if_splits result.splits prod.splits)

definition admin_started :: "admin_world \<Rightarrow> bool" where
  "admin_started w \<longleftrightarrow>
     aw_ledger w = admin_ledger_new \<and> aw_pending w = None \<and> aw_revoking w = [] \<and>
     aw_wrong w = [] \<and> aw_events w = []"

lemma admin_unlock_Ok:
  "admin_unlock idle l device typed check now = (Ok d, l') \<Longrightarrow>
     \<exists>password card_id. admin_password_parse typed = Ok password \<and>
       check password = Some (CardMatches card_id) \<and> l' = granted l device (Some card_id) now"
  by (auto simp: admin_unlock_def split: result.splits option.splits card_check.splits)

lemma admin_unlock_Err:
  "admin_unlock idle l device typed check now = (Err e, l') \<Longrightarrow>
     (if e = Rejected then l' = failed l now \<and> (\<exists>u. throttle_check (al_throttle l) now = Ok u)
      else l' = l)"
  by (auto simp: admin_unlock_def split: result.splits option.splits card_check.splits)

lemma check_key_cases:
  "check_key l live now = (KeyRefused e, l') \<Longrightarrow>
     (if e = KeyRejected then l' = failed l now \<and> (\<exists>u. throttle_check (al_throttle l) now = Ok u)
      else l' = l)"
  "check_key l live now = (KeyLive, l') \<Longrightarrow> l' = l \<and> live = Some True"
  by (auto simp: check_key_def split: result.splits option.splits bool.splits)

lemma admin_admit_cases:
  "admin_admit idle l device current now = (res, l') \<Longrightarrow> al_throttle l' = al_throttle l"
  by (auto simp: admin_admit_def admin_lock_def split: option.splits if_splits)

interpretation admin_guard: throttled "\<lambda>w. al_throttle (aw_ledger w)" aw_wrong
  "admin_step verifies digest idle"
proof unfold_locales
  fix w w' assume "admin_step verifies digest idle w w'"
  then show "al_throttle (aw_ledger w') = al_throttle (aw_ledger w) \<and> aw_wrong w' = aw_wrong w \<or>
    (\<exists>t u. throttle_check (al_throttle (aw_ledger w)) t = Ok u \<and>
       al_throttle (aw_ledger w') = record_failure (al_throttle (aw_ledger w)) t \<and>
       aw_wrong w' = aw_wrong w @ [t]) \<or>
    al_throttle (aw_ledger w') = throttle_new \<and> aw_wrong w' = []"
  proof cases
    case (mistypes device typed check now l)
    then show ?thesis by (auto dest!: admin_unlock_Err simp: failed_def)
  next
    case (key_wrong device key now l)
    then show ?thesis by (auto dest!: check_key_cases(1) simp: failed_def)
  qed (auto dest!: admin_unlock_Ok admin_unlock_Err check_key_cases dest: admin_admit_cases
      simp: granted_def record_success_def grant_key_def admin_lock_def split: if_splits option.splits)
qed

section \<open>Why a device is admitted\<close>

fun uses_of :: "ustr \<Rightarrow> admin_event list \<Rightarrow> timestamp list" where
  "uses_of device [] = []"
| "uses_of device (Admitted d t # es) = (if d = device then t # uses_of device es else uses_of device es)"
| "uses_of device (_ # es) = uses_of device es"

text \<open>Neither ends the device's unlock nor is a newer one.\<close>

fun leaves_standing :: "ustr \<Rightarrow> admin_event \<Rightarrow> bool" where
  "leaves_standing device (Unlocked d _ _ _) = (d \<noteq> device)"
| "leaves_standing device (Ended d) = (d \<noteq> device)"
| "leaves_standing device _ = True"

definition never_idle :: "duration \<Rightarrow> timestamp list \<Rightarrow> bool" where
  "never_idle idle ts \<longleftrightarrow> successively (\<lambda>later earlier. nat (later - earlier) < idle) ts"

fun proof_sound :: "(ustr \<Rightarrow> ustr \<Rightarrow> bool) \<Rightarrow> (ustr \<Rightarrow> ustr) \<Rightarrow> admin_proof \<Rightarrow> bool" where
  "proof_sound verifies digest (ByCard verifier password) = verifies verifier password"
| "proof_sound verifies digest (ByKey stored key) = (stored = digest key)"

definition proved :: "duration \<Rightarrow> admin_event list \<Rightarrow> ustr \<Rightarrow> admin_grant \<Rightarrow> bool" where
  "proved idle es device g \<longleftrightarrow>
     (\<exists>post t p pre. es = post @ Unlocked device t (gr_card_id g) p # pre \<and>
        (\<forall>e \<in> set post. leaves_standing device e) \<and>
        never_idle idle (uses_of device post @ [t]) \<and> hd (uses_of device post @ [t]) = gr_last_used g)"

definition admin_inv ::
  "(ustr \<Rightarrow> ustr \<Rightarrow> bool) \<Rightarrow> (ustr \<Rightarrow> ustr) \<Rightarrow> duration \<Rightarrow> admin_world \<Rightarrow> bool" where
  "admin_inv verifies digest idle w \<longleftrightarrow>
     (\<forall>device g. al_grants (aw_ledger w) device = Some g \<longrightarrow> proved idle (aw_events w) device g) \<and>
     (\<forall>device t c p. Unlocked device t c p \<in> set (aw_events w) \<longrightarrow> proof_sound verifies digest p)"

lemma proved_unlock: "proved idle (Unlocked d t c p # es) d \<lparr>gr_card_id = c, gr_last_used = t\<rparr>"
  unfolding proved_def
  by (rule exI [of _ "[]"], rule exI [of _ t], rule exI [of _ p], rule exI [of _ es])
     (simp add: never_idle_def)

lemma proved_more:
  assumes "proved idle es d g" "leaves_standing d e" "\<forall>t. e \<noteq> Admitted d t"
  shows "proved idle (e # es) d g"
proof -
  from assms(1) obtain post t p pre where p: "es = post @ Unlocked d t (gr_card_id g) p # pre"
    "\<forall>e \<in> set post. leaves_standing d e" "never_idle idle (uses_of d post @ [t])"
    "hd (uses_of d post @ [t]) = gr_last_used g"
    unfolding proved_def by blast
  have "uses_of d (e # post) = uses_of d post" using assms(3) by (cases e) auto
  then show ?thesis
    unfolding proved_def using p assms(2)
    by (intro exI [of _ "e # post"] exI [of _ t] exI [of _ p] exI [of _ pre]) simp
qed

lemma proved_admit:
  assumes "proved idle es d g" "nat (now - gr_last_used g) < idle"
  shows "proved idle (Admitted d now # es) d (g\<lparr>gr_last_used := now\<rparr>)"
proof -
  from assms(1) obtain post t p pre where p: "es = post @ Unlocked d t (gr_card_id g) p # pre"
    "\<forall>e \<in> set post. leaves_standing d e" "never_idle idle (uses_of d post @ [t])"
    "hd (uses_of d post @ [t]) = gr_last_used g"
    unfolding proved_def by blast
  then show ?thesis
    unfolding proved_def using assms(2)
    by (intro exI [of _ "Admitted d now # post"] exI [of _ t] exI [of _ p] exI [of _ pre])
       (simp add: never_idle_def successively_Cons)
qed

lemma device_admitted:
  "admin_admit idle l device current now = (Ok left, l') \<Longrightarrow>
     \<exists>g. current = Some (gr_card_id g) \<and> al_grants l device = Some g \<and>
       nat (now - gr_last_used g) < idle \<and> left = idle \<and>
       l' = l\<lparr>al_grants := (al_grants l)(device \<mapsto> g\<lparr>gr_last_used := now\<rparr>)\<rparr>"
  by (auto simp: admin_admit_def split: option.splits if_splits)

lemma device_turned_away:
  "admin_admit idle l device current now = (Err e, l') \<Longrightarrow>
     (if e \<in> {Expired, CardChanged} then al_grants l' = (al_grants l)(device := None) else l' = l)"
  by (auto simp: admin_admit_def admin_lock_def split: option.splits if_splits)

text \<open>A step that touches the grant of one device only, and says so in the events.\<close>

lemma admin_inv_event:
  assumes "admin_inv verifies digest idle w" "aw_events w' = e # aw_events w"
    "\<And>d. d \<noteq> device \<Longrightarrow> al_grants (aw_ledger w') d = al_grants (aw_ledger w) d \<and>
       leaves_standing d e \<and> (\<forall>t. e \<noteq> Admitted d t)"
    "\<And>g. al_grants (aw_ledger w') device = Some g \<Longrightarrow> proved idle (e # aw_events w) device g"
    "\<And>d t c p. e = Unlocked d t c p \<Longrightarrow> proof_sound verifies digest p"
  shows "admin_inv verifies digest idle w'"
  unfolding admin_inv_def
proof (intro conjI allI impI)
  fix d g assume g: "al_grants (aw_ledger w') d = Some g"
  show "proved idle (aw_events w') d g"
  proof (cases "d = device")
    case True
    then show ?thesis using assms(2,4) g by simp
  next
    case False
    then show ?thesis
      using assms(1,2) assms(3) [OF False] g proved_more by (simp add: admin_inv_def)
  qed
next
  fix d t c p assume "Unlocked d t c p \<in> set (aw_events w')"
  then show "proof_sound verifies digest p" using assms(1,2,5) by (auto simp: admin_inv_def)
qed

lemma admin_inv_same:
  "admin_inv verifies digest idle w \<Longrightarrow> aw_events w' = aw_events w \<Longrightarrow>
     al_grants (aw_ledger w') = al_grants (aw_ledger w) \<Longrightarrow> admin_inv verifies digest idle w'"
  by (simp add: admin_inv_def)

lemma admin_inv_lock:
  assumes "admin_inv verifies digest idle w" "aw_events w' = Ended device # aw_events w"
    "al_grants (aw_ledger w') = (al_grants (aw_ledger w))(device := None)"
  shows "admin_inv verifies digest idle w'"
  by (rule admin_inv_event [OF assms(1,2), of device]) (use assms(3) in auto)

lemma admin_step_inv:
  assumes "admin_step verifies digest idle w w'" "admin_inv verifies digest idle w"
  shows "admin_inv verifies digest idle w'"
  using assms(1)
proof cases
  case (unlocks typed password c device now left l)
  then have l: "l = granted (aw_ledger w) device (card_id_of (aw_card w)) now" "verifies (ac_verifier c) password"
    by (auto dest!: admin_unlock_Ok simp: card_check_of_def split: if_splits)
  show ?thesis
    by (rule admin_inv_event [OF assms(2), where device = device])
       (use unlocks l proved_unlock in \<open>auto simp: granted_def\<close>)
next
  case (mistypes device typed check now l)
  then show ?thesis
    by (intro admin_inv_same [OF assms(2)]) (auto dest!: admin_unlock_Err simp: failed_def)
next
  case (unanswered device typed check now e l)
  then show ?thesis by (intro admin_inv_same [OF assms(2)]) (auto dest!: admin_unlock_Err)
next
  case (key_wrong device key now l)
  then show ?thesis
    by (intro admin_inv_same [OF assms(2)]) (auto dest!: check_key_cases(1) simp: failed_def)
next
  case (key_unanswered live now e l)
  then show ?thesis by (intro admin_inv_same [OF assms(2)]) (auto dest!: check_key_cases(1))
next
  case (key_live device key now l)
  then show ?thesis by (intro admin_inv_same [OF assms(2)]) (auto dest!: check_key_cases(2))
next
  case (key_grants device key now left l)
  then have l: "l = granted (aw_ledger w) device (card_id_of (aw_card w)) now" by (simp add: grant_key_def)
  show ?thesis
    by (rule admin_inv_event [OF assms(2), where device = device])
       (use key_grants l proved_unlock in \<open>auto simp: granted_def\<close>)
next
  case (key_fails device key now res l)
  then show ?thesis by (intro admin_inv_same [OF assms(2)]) (auto simp: grant_key_def)
next
  case (admits device current now left l)
  then obtain g where g: "al_grants (aw_ledger w) device = Some g" "nat (now - gr_last_used g) < idle"
    "l = (aw_ledger w)\<lparr>al_grants := (al_grants (aw_ledger w))(device \<mapsto> g\<lparr>gr_last_used := now\<rparr>)\<rparr>"
    using device_admitted by blast
  then have "proved idle (aw_events w) device g" using assms(2) by (simp add: admin_inv_def)
  from proved_admit [OF this g(2)] show ?thesis
    by (intro admin_inv_event [OF assms(2), where device = device]) (use admits g in auto)
next
  case (turns_away device current now e l)
  show ?thesis
  proof (cases "e \<in> {Expired, CardChanged}")
    case True
    then show ?thesis
      using turns_away device_turned_away by (intro admin_inv_lock [OF assms(2)]) auto
  next
    case False
    then show ?thesis
      using turns_away device_turned_away [OF turns_away(3)] by (intro admin_inv_same [OF assms(2)]) auto
  qed
next
  case (locks device b l)
  then show ?thesis by (intro admin_inv_lock [OF assms(2)]) (auto simp: admin_lock_def)
next
  case (revoke_locks device b l)
  then show ?thesis by (intro admin_inv_lock [OF assms(2)]) (auto simp: admin_lock_def)
next
  case (revokes device b keys)
  show ?thesis
    unfolding admin_inv_def
    using assms(2) revokes proved_more [of idle "aw_events w" _ _ "Revoked device"]
    by (auto simp: admin_inv_def)
next
  case (issues device key)
  then show ?thesis by (intro admin_inv_same [OF assms(2)]) simp_all
next
  case (rotates new_card)
  then show ?thesis by (intro admin_inv_same [OF assms(2)]) simp_all
next
  case revokes_all
  then show ?thesis by (intro admin_inv_same [OF assms(2)]) simp_all
qed

lemma admin_run_inv:
  "(admin_step verifies digest idle)\<^sup>*\<^sup>* w w' \<Longrightarrow> admin_inv verifies digest idle w \<Longrightarrow>
     admin_inv verifies digest idle w'"
  by (induction rule: rtranclp_induct) (auto intro: admin_step_inv)

section \<open>Properties\<close>


text \<open>
  The admin card and the keys cannot be guessed fast. Whatever is asked in any order, by every device
  together, of the wrong passwords and keys charged since the last unlock, each after the fifth
  comes no sooner than its wait, from thirty seconds doubling up to ten minutes, after the one
  before, and after the tenth each costs ten minutes more.
\<close>

theorem admin_guesses_rationed:
  assumes "admin_started w0" "(admin_step verifies digest idle)\<^sup>*\<^sup>* w0 w" "5 \<le> i" "i < length (aw_wrong w)"
  shows "aw_wrong w ! (i - 1) + int (min (from_secs 30 * 2 ^ (i - 5)) (from_secs 600)) \<le> aw_wrong w ! i \<and>
    (i < 10 \<or> aw_wrong w ! 9 + int ((i - 9) * from_secs 600) \<le> aw_wrong w ! i)"
proof -
  have rationed: "rationed (aw_wrong w)"
    by (rule admin_guard.rationed_run [OF assms(2) admin_guard.in_order_fresh])
       (use assms(1) in \<open>simp_all add: admin_started_def admin_ledger_new_def\<close>)
  then have "aw_wrong w ! (i - 1) + int (wait_before i) \<le> aw_wrong w ! i"
    using assms(3,4) unfolding rationed_def by blast
  moreover have "i < 10 \<or> aw_wrong w ! 9 + int ((i - 9) * from_secs 600) \<le> aw_wrong w ! i"
    using rationed_gap [OF rationed _ assms(4)] by (meson not_less)
  ultimately show ?thesis using assms(3) by (simp add: wait_before_def)
qed

text \<open>
  C34: A device whose key was revoked can keep administering the pond. Revoking a device ends its unlock
  first and takes its key away second; when the device unlocks with its key between the two, the
  revocation completes, the table holds no key of the device, and yet the device is admitted, and each
  request renews it.
\<close>

theorem revoked_device_stays_unlocked:
  assumes "keys_check digest (aw_keys w) device key" "aw_ledger w = admin_ledger_new"
    "aw_pending w = None" "aw_revoking w = []"
  shows "\<exists>w' rest. (admin_step verifies digest idle)\<^sup>*\<^sup>* w w' \<and> aw_keys w' device = None \<and>
    aw_revoking w' = [] \<and> aw_pending w' = None \<and> aw_events w' = Revoked device # rest \<and>
    (\<forall>later. nat (later - now) < idle \<longrightarrow>
      fst (admin_admit idle (aw_ledger w') device (Some (card_id_of (aw_card w'))) later) = Ok idle)"
proof -
  let ?step = "admin_step verifies digest idle"
  let ?w1 = "w\<lparr>aw_ledger := snd (admin_lock (aw_ledger w) device), aw_revoking := [device],
      aw_events := Ended device # aw_events w\<rparr>"
  let ?w2 = "?w1\<lparr>aw_ledger := aw_ledger ?w1, aw_pending := Some (device, key, now)\<rparr>"
  let ?l = "granted (aw_ledger ?w1) device (card_id_of (aw_card w)) now"
  let ?w3 = "?w2\<lparr>aw_ledger := ?l, aw_pending := None, aw_wrong := [],
      aw_events := Unlocked device now (card_id_of (aw_card w)) (ByKey (digest key) key) # aw_events ?w2\<rparr>"
  let ?w4 = "?w3\<lparr>aw_keys := (aw_keys w)(device := None), aw_revoking := [],
      aw_events := Revoked device # aw_events ?w3\<rparr>"
  have 1: "?step w ?w1"
    using admin_step.revoke_locks [OF assms(3) prod.collapse [symmetric], of verifies digest idle device] assms(4)
    by simp
  have fresh: "al_throttle (aw_ledger ?w1) = throttle_new"
    using assms(2) by (simp add: admin_lock_def admin_ledger_new_def)
  have 2: "?step ?w1 ?w2"
    by (rule admin_step.key_live)
       (use assms(1,3) fresh in \<open>simp_all add: check_key_def throttle_check_def throttle_new_def\<close>)
  have 3: "?step ?w2 ?w3"
    using admin_step.key_grants [of ?w2 device key now idle idle ?l verifies digest]
    by (simp add: grant_key_def)
  have 4: "?step ?w3 ?w4"
    using admin_step.revokes [of device ?w3 _ "(aw_keys w)(device := None)" verifies digest idle]
    by (simp add: keys_revoke_def)
  have run: "?step\<^sup>*\<^sup>* w ?w4"
    by (rule converse_rtranclp_into_rtranclp [OF 1 converse_rtranclp_into_rtranclp [OF 2
          converse_rtranclp_into_rtranclp [OF 3 r_into_rtranclp [of ?step, OF 4]]]])
  have "fst (admin_admit idle ?l device (Some (card_id_of (aw_card w))) later) = Ok idle"
    if "nat (later - now) < idle" for later
    using that by (simp add: admin_admit_def granted_def)
  then show ?thesis using run assms(3) by (intro exI [of _ ?w4]) simp
qed

text \<open>A pond whose one device holds a key, and no card yet.\<close>

definition example_admin :: admin_world where
  "example_admin =
     \<lparr>aw_ledger = admin_ledger_new, aw_card = None, aw_keys = [lit ''phone'' \<mapsto> lit ''key''],
      aw_pending = None, aw_revoking = [], aw_wrong = [], aw_events = []\<rparr>"

lemma example_admin_started: "admin_started example_admin"
  by (simp add: admin_started_def example_admin_def)

theorem revoked_device_stays_unlocked_witness:
  "\<exists>w'. (admin_step (\<lambda>_ _. False) (\<lambda>k. k) ADMIN_IDLE)\<^sup>*\<^sup>* example_admin w' \<and>
     aw_keys w' (lit ''phone'') = None \<and>
     fst (admin_admit ADMIN_IDLE (aw_ledger w') (lit ''phone'') (Some (card_id_of (aw_card w'))) 7) =
       Ok ADMIN_IDLE"
proof -
  have held: "keys_check (\<lambda>k. k) (aw_keys example_admin) (lit ''phone'') (lit ''key'')"
    by (simp add: keys_check_def example_admin_def)
  obtain w' where "(admin_step (\<lambda>_ _. False) (\<lambda>k. k) ADMIN_IDLE)\<^sup>*\<^sup>* example_admin w'"
    "aw_keys w' (lit ''phone'') = None"
    "\<forall>later. nat (later - 0) < ADMIN_IDLE \<longrightarrow>
      fst (admin_admit ADMIN_IDLE (aw_ledger w') (lit ''phone'') (Some (card_id_of (aw_card w'))) later) =
        Ok ADMIN_IDLE"
    using revoked_device_stays_unlocked [OF held, where now = 0 and idle = ADMIN_IDLE
        and verifies = "\<lambda>_ _. False"]
    by (auto simp: example_admin_def)
  then show ?thesis by (intro exI [of _ w']) (simp add: ADMIN_IDLE_def from_secs_def)
qed

lemma example_unlocked:
  defines "w1 \<equiv> example_admin\<lparr>aw_ledger := admin_ledger_new, aw_pending := Some (lit ''phone'', lit ''key'', 0)\<rparr>"
  defines "l \<equiv> granted admin_ledger_new (lit ''phone'') None 0"
  shows "(admin_step (\<lambda>_ _. False) (\<lambda>k. k) ADMIN_IDLE)\<^sup>*\<^sup>* example_admin
    (w1\<lparr>aw_ledger := l, aw_pending := None, aw_wrong := [],
      aw_events := Unlocked (lit ''phone'') 0 None (ByKey (lit ''key'') (lit ''key'')) # aw_events w1\<rparr>)"
proof -
  have 1: "admin_step (\<lambda>_ _. False) (\<lambda>k. k) ADMIN_IDLE example_admin w1"
    unfolding w1_def
    by (rule admin_step.key_live)
       (simp_all add: example_admin_def check_key_def keys_check_def throttle_check_def throttle_new_def
          admin_ledger_new_def)
  have 2: "admin_step (\<lambda>_ _. False) (\<lambda>k. k) ADMIN_IDLE w1
      (w1\<lparr>aw_ledger := l, aw_pending := None, aw_wrong := [],
        aw_events := Unlocked (lit ''phone'') 0 None (ByKey (lit ''key'') (lit ''key'')) # aw_events w1\<rparr>)"
    using admin_step.key_grants [of w1 "lit ''phone''" "lit ''key''" 0 ADMIN_IDLE ADMIN_IDLE l
        "\<lambda>_ _. False" "\<lambda>k. k"]
    by (simp add: w1_def l_def example_admin_def grant_key_def)
  from 1 2 show ?thesis by (meson converse_rtranclp_into_rtranclp r_into_rtranclp)
qed


text \<open>Six wrong keys, the sixth after its wait.\<close>

fun wrong_keys :: "admin_world \<Rightarrow> timestamp list \<Rightarrow> admin_world" where
  "wrong_keys w [] = w"
| "wrong_keys w (t # ts) =
     wrong_keys (w\<lparr>aw_ledger := failed (aw_ledger w) t, aw_wrong := aw_wrong w @ [t]\<rparr>) ts"

lemma wrong_keys_run:
  "aw_pending w = None \<Longrightarrow> aw_keys w (lit ''phone'') = Some (lit ''key'') \<Longrightarrow>
     all_admitted (al_throttle (aw_ledger w)) ts \<Longrightarrow>
     (admin_step (\<lambda>_ _. False) (\<lambda>k. k) ADMIN_IDLE)\<^sup>*\<^sup>* w (wrong_keys w ts)"
proof (induction ts arbitrary: w)
  case (Cons t ts)
  have "admin_step (\<lambda>_ _. False) (\<lambda>k. k) ADMIN_IDLE w
      (w\<lparr>aw_ledger := failed (aw_ledger w) t, aw_wrong := aw_wrong w @ [t]\<rparr>)"
    by (rule admin_step.key_wrong [where device = "lit ''phone''" and key = "lit ''guess''"])
       (use Cons.prems in \<open>simp_all add: check_key_def keys_check_def\<close>)
  moreover have "(admin_step (\<lambda>_ _. False) (\<lambda>k. k) ADMIN_IDLE)\<^sup>*\<^sup>*
      (w\<lparr>aw_ledger := failed (aw_ledger w) t, aw_wrong := aw_wrong w @ [t]\<rparr>) (wrong_keys w (t # ts))"
    using Cons by (simp add: failed_def)
  ultimately show ?case by (meson converse_rtranclp_into_rtranclp)
qed simp

theorem admin_guesses_rationed_witness:
  "\<exists>w. (admin_step (\<lambda>_ _. False) (\<lambda>k. k) ADMIN_IDLE)\<^sup>*\<^sup>* example_admin w \<and> length (aw_wrong w) = 6 \<and>
     aw_wrong w ! 4 + int (from_secs 30) \<le> aw_wrong w ! 5"
proof -
  let ?ts = "[0, 0, 0, 0, 0, int (from_secs 30)]"
  let ?w = "wrong_keys example_admin ?ts"
  have run: "(admin_step (\<lambda>_ _. False) (\<lambda>k. k) ADMIN_IDLE)\<^sup>*\<^sup>* example_admin ?w"
    using example_guesses_admitted
    by (intro wrong_keys_run) (simp_all add: example_admin_def admin_ledger_new_def)
  have wrong: "aw_wrong ?w = ?ts" by (simp add: example_admin_def)
  have "aw_wrong ?w ! 4 + int (from_secs 30) \<le> aw_wrong ?w ! 5"
    using admin_guesses_rationed [OF example_admin_started run, of 5] unfolding wrong
    by (simp add: from_secs_def)
  moreover have "length (aw_wrong ?w) = 6" unfolding wrong by simp
  ultimately show ?thesis using run by blast
qed

end
