(* ===== verification/Thought_Filter.thy ===== *)
theory Thought_Filter
  imports Runner_Text Plan_Schedule
begin

text \<open>
  What of a reply is read or heard: the table of tags, \<open>strip_reasoning\<close>, which drops the blocks
  of a whole text, and the streaming \<open>ThoughtFilter\<close>
  (\<open>pond-core/src/models/services/thought_filter.rs\<close>), with the filter of the event stream that also keeps
  what it drops (\<open>pond-api/src/thought_filter.rs\<close>). A position counts characters where the code counts
  bytes; the tags are ASCII, so both name the same place.
\<close>

definition PAIRED_TAGS :: "(ustr \<times> ustr) list" where
  "PAIRED_TAGS =
     [(lit ''<|channel>thought'', lit ''<channel|>''),
      (lit ''<|channel>thought'', lit ''<|channel|>''),
      (lit ''<|channel|>thought'', lit ''<|channel|>''),
      (lit ''<|channel|>thought'', lit ''<channel|>''),
      (lit ''<|tool_call>'', lit ''<tool_call|>''),
      (lit ''<tool_call>'', lit ''</tool_call>''),
      (lit ''<think>'', lit ''</think>''),
      (lit ''<thinking>'', lit ''</thinking>''),
      (lit ''<thought>'', lit ''</thought>''),
      (lit ''<|thought>'', lit ''</thought>''),
      (lit ''<|thought>'', lit ''<|thought|>''),
      (lit ''<reasoning>'', lit ''</reasoning>'')]"

definition ANSWER_OPEN :: ustr where "ANSWER_OPEN = lit ''<answer>''"
definition ANSWER_CLOSE :: ustr where "ANSWER_CLOSE = lit ''</answer>''"

definition STANDALONE_SENTINELS :: "ustr list" where
  "STANDALONE_SENTINELS =
     [lit ''<eos>'', lit ''<|eos|>'', lit ''<end_of_turn>'', lit ''</think>'', lit ''</thinking>'',
      lit ''</thought>'', lit ''</reasoning>'', lit ''<channel|>'', lit ''<|channel|>'',
      lit ''<tool_call|>'', lit ''</tool_call>'', ANSWER_OPEN, ANSWER_CLOSE]"

definition contains_text :: "ustr \<Rightarrow> ustr \<Rightarrow> bool" where
  "contains_text pat s \<longleftrightarrow> find_sub pat s \<noteq> None"

definition has_answer_tag :: "ustr \<Rightarrow> bool" where
  "has_answer_tag s \<longleftrightarrow> contains_text ANSWER_OPEN s \<or> contains_text ANSWER_CLOSE s"

section \<open>A whole text\<close>

text \<open>\<open>str::replace\<close> by nothing: each occurrence from the left.\<close>

function remove_all :: "ustr \<Rightarrow> ustr \<Rightarrow> ustr" where
  "remove_all pat s =
     (case find_sub pat s of
        None \<Rightarrow> s
      | Some i \<Rightarrow> if pat = [] then s else take i s @ remove_all pat (drop (i + length pat) s))"
  by auto
termination remove_all
proof (relation "measure (length \<circ> snd)")
  fix pat s :: ustr and i
  assume "find_sub pat s = Some i" "pat \<noteq> []"
  then show "((pat, drop (i + length pat) s), (pat, s)) \<in> measure (length \<circ> snd)"
    using find_sub_bound [of pat s i] by (cases s) auto
qed simp

declare remove_all.simps [simp del]

definition strip_standalones :: "ustr \<Rightarrow> ustr" where
  "strip_standalones s =
     foldl (\<lambda>out sentinel. if contains_text sentinel out then remove_all sentinel out else out) s
       STANDALONE_SENTINELS"

text \<open>The two loops of \<open>strip_block\<close>; a tag is not empty, so each pass takes something away.\<close>

function strip_orphans :: "ustr \<Rightarrow> ustr \<Rightarrow> ustr \<Rightarrow> ustr" where
  "strip_orphans opener close s =
     (case find_sub close s of
        None \<Rightarrow> s
      | Some c \<Rightarrow>
          if (case find_sub opener s of Some at \<Rightarrow> at < c | None \<Rightarrow> False) \<or> close = [] then s
          else strip_orphans opener close (drop (c + length close) s))"
  by auto
termination strip_orphans
proof (relation "measure (length \<circ> snd \<circ> snd)")
  fix opener close s :: ustr and c
  assume "find_sub close s = Some c"
    "\<not> ((case find_sub opener s of Some at \<Rightarrow> at < c | None \<Rightarrow> False) \<or> close = [])"
  then show "((opener, close, drop (c + length close) s), (opener, close, s))
      \<in> measure (length \<circ> snd \<circ> snd)"
    using find_sub_bound [of close s c] by (cases s) auto
qed simp

function strip_closed :: "ustr \<Rightarrow> ustr \<Rightarrow> ustr \<Rightarrow> ustr" where
  "strip_closed opener close s =
     (case find_sub opener s of
        None \<Rightarrow> s
      | Some start \<Rightarrow>
          (let body = start + length opener in
           case find_sub close (drop body s) of
             None \<Rightarrow> take start s
           | Some rel \<Rightarrow>
               if opener = [] then s
               else strip_closed opener close (take start s @ drop (body + rel + length close) s)))"
  by auto
termination strip_closed
proof (relation "measure (length \<circ> snd \<circ> snd)")
  fix opener close s :: ustr and start body rel
  assume "find_sub opener s = Some start" "opener \<noteq> []" "body = start + length opener"
  then show "((opener, close, take start s @ drop (body + rel + length close) s), (opener, close, s))
      \<in> measure (length \<circ> snd \<circ> snd)"
    using find_sub_bound [of opener s start] by (cases opener) auto
qed simp

declare strip_orphans.simps [simp del] strip_closed.simps [simp del]

definition strip_block :: "ustr \<Rightarrow> ustr \<Rightarrow> ustr \<Rightarrow> ustr" where
  "strip_block s opener close = strip_closed opener close (strip_orphans opener close s)"

definition strip_reasoning :: "ustr \<Rightarrow> ustr" where
  "strip_reasoning s =
     trim (strip_standalones (foldl (\<lambda>s (opener, close). strip_block s opener close) s PAIRED_TAGS))"

section \<open>The stream\<close>

text \<open>The first row whose opening tag comes earliest.\<close>

definition earliest_in :: "(ustr \<times> ustr) list \<Rightarrow> ustr \<Rightarrow> (nat \<times> ustr \<times> ustr) option" where
  "earliest_in tags buf =
     min_by_key fst
       (List.map_filter
         (\<lambda>(opener, close). map_option (\<lambda>i. (i, opener, close)) (find_sub opener buf)) tags)"

definition NORMAL_MARKERS :: "ustr list" where
  "NORMAL_MARKERS = map fst PAIRED_TAGS @ STANDALONE_SENTINELS"

definition safe_emit_len :: "ustr \<Rightarrow> ustr list \<Rightarrow> nat" where
  "safe_emit_len s markers =
     (let longest = foldr max (map utf8_len markers) 0; earliest = utf8_len s - (longest - 1) in
      case find (\<lambda>i. earliest \<le> utf8_len (take i s) \<and>
          list_ex (\<lambda>m. utf8_len m > utf8_len (drop i s) \<and> prefix (drop i s) m) markers)
        [0..<length s] of
        Some i \<Rightarrow> i
      | None \<Rightarrow> length s)"

datatype filter_state = Outside | InsideBlock ustr

record thought_filter =
  tf_state :: filter_state
  tf_buf :: ustr

definition filter_new :: thought_filter where
  "filter_new = \<lparr>tf_state = Outside, tf_buf = []\<rparr>"

section \<open>Where a tag stands\<close>

lemma find_sub_SomeD:
  "find_sub pat s = Some i \<Longrightarrow> i \<le> length s \<and> prefix pat (drop i s) \<and> (\<forall>k < i. \<not> prefix pat (drop k s))"
proof (induction s arbitrary: i)
  case (Cons c cs)
  show ?case
  proof (cases "prefix pat (c # cs)")
    case False
    with Cons.prems obtain j where j: "find_sub pat cs = Some j" "i = Suc j" by auto
    show ?thesis
    proof (intro conjI allI impI)
      fix k assume "k < i"
      then show "\<not> prefix pat (drop k (c # cs))"
        using False Cons.IH [OF j(1)] j(2) by (cases k) simp_all
    qed (use Cons.IH [OF j(1)] j(2) in simp_all)
  qed (use Cons.prems in simp)
qed (auto split: if_splits)

lemma find_sub_NoneD: "find_sub pat s = None \<Longrightarrow> \<not> prefix pat (drop k s)"
proof (induction s arbitrary: k)
  case (Cons c cs)
  then have "\<not> prefix pat (c # cs)" "find_sub pat cs = None" by (auto split: if_splits)
  then show ?case using Cons.IH by (cases k) simp_all
qed (auto split: if_splits)

lemma find_sub_eq:
  assumes "i \<le> length s" "prefix pat (drop i s)" "\<And>k. k < i \<Longrightarrow> \<not> prefix pat (drop k s)"
  shows "find_sub pat s = Some i"
proof (cases "find_sub pat s")
  case None
  with assms(2) show ?thesis using find_sub_NoneD by blast
next
  case (Some j)
  with find_sub_SomeD [OF Some] assms show ?thesis by (metis nat_neq_iff)
qed

text \<open>The first row that opens where a text begins.\<close>

definition row_at :: "(ustr \<times> ustr) list \<Rightarrow> ustr \<Rightarrow> (ustr \<times> ustr) option" where
  "row_at tags s = find (\<lambda>(opener, _). prefix opener s) tags"

lemma row_at_Cons: "row_at ((a, b) # tags) s = (if prefix a s then Some (a, b) else row_at tags s)"
  by (simp add: row_at_def)

lemma row_at_None: "row_at tags s = None \<longleftrightarrow> (\<forall>(opener, close) \<in> set tags. \<not> prefix opener s)"
  by (auto simp: row_at_def find_None_iff)

lemma row_at_SomeD: "row_at tags s = Some (a, b) \<Longrightarrow> (a, b) \<in> set tags \<and> prefix a s"
  by (auto simp: row_at_def find_Some_iff) (metis nth_mem)

lemma earliest_in_Cons:
  "earliest_in ((a, b) # tags) buf =
     (case find_sub a buf of
        None \<Rightarrow> earliest_in tags buf
      | Some j \<Rightarrow>
          (case earliest_in tags buf of
             Some (i, p) \<Rightarrow> if i < j then Some (i, p) else Some (j, a, b)
           | None \<Rightarrow> Some (j, a, b)))"
  by (auto simp: earliest_in_def List.map_filter_simps split: option.split)

lemma earliest_in_spec:
  "case earliest_in tags buf of
     None \<Rightarrow> \<forall>k. row_at tags (drop k buf) = None
   | Some (i, p) \<Rightarrow> i \<le> length buf \<and> row_at tags (drop i buf) = Some p \<and>
       (\<forall>k < i. row_at tags (drop k buf) = None)"
proof (induction tags)
  case Nil
  show ?case by (simp add: earliest_in_def List.map_filter_simps row_at_def)
next
  case (Cons row tags)
  obtain a b where row: "row = (a, b)" by (cases row)
  show ?case
  proof (cases "find_sub a buf")
    case None
    then have "\<not> prefix a (drop k buf)" for k by (rule find_sub_NoneD)
    with None Cons.IH show ?thesis
      by (simp add: row earliest_in_Cons row_at_Cons split: option.splits prod.splits)
  next
    case (Some j)
    note j = find_sub_SomeD [OF Some]
    show ?thesis
    proof (cases "earliest_in tags buf")
      case None
      with Some j Cons.IH show ?thesis by (simp add: row earliest_in_Cons row_at_Cons)
    next
      case (Some hit)
      obtain i p where hit: "hit = (i, p)" by (cases hit)
      show ?thesis
      proof (cases "i < j")
        case True
        then have "row_at (row # tags) (drop k buf) = row_at tags (drop k buf)" if "k \<le> i" for k
          using j that by (simp add: row row_at_Cons)
        with True Some hit \<open>find_sub a buf = Some j\<close> Cons.IH show ?thesis
          by (simp add: row earliest_in_Cons)
      next
        case False
        with Some hit \<open>find_sub a buf = Some j\<close> j Cons.IH show ?thesis
          by (simp add: row earliest_in_Cons row_at_Cons)
      qed
    qed
  qed
qed

lemma earliest_in_SomeD:
  assumes "earliest_in tags buf = Some (i, p)"
  shows "i \<le> length buf" "row_at tags (drop i buf) = Some p"
    "k < i \<Longrightarrow> row_at tags (drop k buf) = None"
  using earliest_in_spec [of tags buf] assms by auto

lemma earliest_in_NoneD: "earliest_in tags buf = None \<Longrightarrow> row_at tags (drop k buf) = None"
  using earliest_in_spec [of tags buf] by simp

lemma earliest_in_eq:
  assumes "i \<le> length buf" "row_at tags (drop i buf) = Some p"
    "\<And>k. k < i \<Longrightarrow> row_at tags (drop k buf) = None"
  shows "earliest_in tags buf = Some (i, p)"
  using earliest_in_spec [of tags buf] assms
  by (auto split: option.splits prod.splits) (metis nat_neq_iff option.distinct(1) option.inject)+

text \<open>A tag begins with \<open><\<close> and holds no other; no opening tag begins another.\<close>

definition tag_shape :: "ustr \<Rightarrow> bool" where
  "tag_shape m \<longleftrightarrow> m \<noteq> [] \<and> hd m = 60 \<and> 60 \<notin> set (tl m)"

lemma tags_shaped:
  "(opener, close) \<in> set PAIRED_TAGS \<Longrightarrow> tag_shape opener"
  "(opener, close) \<in> set PAIRED_TAGS \<Longrightarrow> tag_shape close"
  by (auto simp: PAIRED_TAGS_def tag_shape_def text_simps)

lemma openers_apart_table:
  "list_all (\<lambda>(a, _). list_all (\<lambda>(a', _). prefix a a' \<longrightarrow> a = a') PAIRED_TAGS) PAIRED_TAGS"
  by code_simp

lemma openers_apart:
  "(a, b) \<in> set PAIRED_TAGS \<Longrightarrow> (a', b') \<in> set PAIRED_TAGS \<Longrightarrow> prefix a a' \<Longrightarrow> a = a'"
  using openers_apart_table by (fastforce simp: list_all_iff)

section \<open>The loop of \<open>push\<close>\<close>

lemma row_opener_shape: "row_at PAIRED_TAGS s = Some (opener, close) \<Longrightarrow> tag_shape opener \<and> tag_shape close"
  using row_at_SomeD tags_shaped by blast

function filter_loop :: "filter_state \<Rightarrow> ustr \<Rightarrow> ustr \<Rightarrow> ustr \<times> thought_filter" where
  "filter_loop Outside buf out =
     (case earliest_in PAIRED_TAGS buf of
        Some (i, opener, close) \<Rightarrow>
          filter_loop (InsideBlock close) (drop (i + length opener) buf)
            (out @ strip_standalones (take i buf))
      | None \<Rightarrow>
          (let safe = safe_emit_len buf NORMAL_MARKERS
           in (out @ strip_standalones (take safe buf), \<lparr>tf_state = Outside, tf_buf = drop safe buf\<rparr>)))"
| "filter_loop (InsideBlock close) buf out =
     (case find_sub close buf of
        Some i \<Rightarrow> filter_loop Outside (drop (i + length close) buf) out
      | None \<Rightarrow>
          (let safe = safe_emit_len buf [close]
           in (out, \<lparr>tf_state = InsideBlock close, tf_buf = drop safe buf\<rparr>)))"
  by pat_completeness auto

text \<open>Opening a block takes its tag away, and a block opened can be closed once.\<close>

fun loop_size :: "filter_state \<Rightarrow> ustr \<Rightarrow> nat" where
  "loop_size Outside buf = 2 * length buf"
| "loop_size (InsideBlock _) buf = 2 * length buf + 1"

lemma opened_inside:
  assumes "earliest_in PAIRED_TAGS buf = Some (i, opener, close)"
  shows "i + length opener \<le> length buf"
  using earliest_in_SomeD(1,2) [OF assms] row_at_SomeD prefix_length_le
  by (metis add.commute le_diff_conv2 length_drop)

lemma opened_shorter:
  assumes "earliest_in PAIRED_TAGS buf = Some (i, opener, close)"
  shows "length (drop (i + length opener) buf) < length buf"
proof -
  have "tag_shape opener" "prefix opener (drop i buf)"
    using earliest_in_SomeD(2) [OF assms] row_opener_shape row_at_SomeD by blast+
  then have "0 < length opener" "length opener \<le> length buf - i"
    by (auto simp: tag_shape_def dest: prefix_length_le)
  then show ?thesis by (simp only: length_drop)
qed

termination filter_loop
proof (relation "measure (\<lambda>(st, buf, _). loop_size st buf)")
  fix buf out opener close :: ustr and hit rest i
  assume "earliest_in PAIRED_TAGS buf = Some hit" "(i, rest) = hit" "(opener, close) = rest"
  then have "length (drop (i + length opener) buf) < length buf" using opened_shorter by blast
  then show "((InsideBlock close, drop (i + length opener) buf, out @ strip_standalones (take i buf)),
      (Outside, buf, out)) \<in> measure (\<lambda>(st, buf, _). loop_size st buf)"
    by simp
qed simp_all

declare filter_loop.simps [simp del]

definition filter_push :: "thought_filter \<Rightarrow> ustr \<Rightarrow> ustr \<times> thought_filter" where
  "filter_push f chunk = filter_loop (tf_state f) (tf_buf f @ chunk) []"

definition filter_flush :: "thought_filter \<Rightarrow> ustr \<times> thought_filter" where
  "filter_flush f =
     (case tf_state f of Outside \<Rightarrow> strip_standalones (tf_buf f) | InsideBlock _ \<Rightarrow> [],
      f\<lparr>tf_buf := []\<rparr>)"

text \<open>A reply that arrives in chunks: what is forwarded, the flush at its end included.\<close>

fun filter_chunks :: "thought_filter \<Rightarrow> ustr list \<Rightarrow> ustr" where
  "filter_chunks f [] = fst (filter_flush f)"
| "filter_chunks f (c # cs) = (case filter_push f c of (out, f') \<Rightarrow> out @ filter_chunks f' cs)"

section \<open>What a reply shows\<close>

text \<open>The parts of a text outside its blocks; a block that never closes hides the rest.\<close>

function shown_parts :: "filter_state \<Rightarrow> ustr \<Rightarrow> ustr list" where
  "shown_parts Outside s =
     (case earliest_in PAIRED_TAGS s of
        Some (i, opener, close) \<Rightarrow>
          take i s # shown_parts (InsideBlock close) (drop (i + length opener) s)
      | None \<Rightarrow> [s])"
| "shown_parts (InsideBlock close) s =
     (case find_sub close s of
        Some i \<Rightarrow> shown_parts Outside (drop (i + length close) s)
      | None \<Rightarrow> [])"
  by pat_completeness auto
termination shown_parts
  by (relation "measure (\<lambda>(st, buf). loop_size st buf)") (use opened_shorter in force)+

declare shown_parts.simps [simp del]

definition sentinel_free :: "ustr \<Rightarrow> bool" where
  "sentinel_free p \<longleftrightarrow> list_all (\<lambda>z. \<not> contains_text z p) STANDALONE_SENTINELS"

definition shown :: "filter_state \<Rightarrow> ustr \<Rightarrow> ustr" where
  "shown st s = concat (shown_parts st s)"

lemma strip_sentinel_free: "sentinel_free p \<Longrightarrow> strip_standalones p = p"
proof -
  have "list_all (\<lambda>z. \<not> contains_text z p) zs \<Longrightarrow>
      foldl (\<lambda>out z. if contains_text z out then remove_all z out else out) p zs = p" for zs
    by (induction zs) simp_all
  then show "sentinel_free p \<Longrightarrow> strip_standalones p = p"
    by (simp add: strip_standalones_def sentinel_free_def)
qed

lemma contains_part: "contains_text pat p \<Longrightarrow> contains_text pat (a @ p @ b)"
  unfolding contains_text_def
proof (elim exE not_None_eq [THEN iffD1, elim_format])
  fix i assume "find_sub pat p = Some i"
  then have "i \<le> length p" "prefix pat (drop i p)" using find_sub_SomeD by blast+
  then have "prefix pat (drop (length a + i) (a @ p @ b))" by (simp add: prefix_prefix)
  then show "find_sub pat (a @ p @ b) \<noteq> None" using find_sub_NoneD by blast
qed

lemma sentinel_free_part: "sentinel_free (a @ p @ b) \<Longrightarrow> sentinel_free p"
  using contains_part by (auto simp: sentinel_free_def list_all_iff)

text \<open>A tag cannot begin inside another.\<close>

lemma tag_not_inside:
  assumes "tag_shape m" "tag_shape n" "prefix m (drop k s)" "prefix n (drop i s)" "k < i"
  shows "k + length m \<le> i"
proof (rule ccontr)
  assume "\<not> k + length m \<le> i"
  with assms(5) have d: "i - k < length m" "0 < i - k" by simp_all
  obtain r where r: "drop k s = m @ r" using assms(3) by (auto elim: prefixE)
  obtain r' where r': "drop i s = n @ r'" using assms(4) by (auto elim: prefixE)
  have "drop i s = drop (i - k) (drop k s)" using assms(5) by simp
  then have "hd (drop i s) = m ! (i - k)" using d r by (simp add: hd_drop_conv_nth nth_append)
  moreover have "hd (drop i s) = 60" using r' assms(2) by (simp add: tag_shape_def)
  moreover have "m ! (i - k) \<in> set (tl m)"
    using d by (metis Suc_pred' length_tl less_diff_conv nth_mem nth_tl Suc_eq_plus1)
  ultimately show False using assms(1) by (simp add: tag_shape_def)
qed

text \<open>More text after a tag found changes nothing before it.\<close>

lemma row_at_append:
  assumes "row_at PAIRED_TAGS s = Some p"
  shows "row_at PAIRED_TAGS (s @ f) = Some p"
proof -
  obtain a b where p: "p = (a, b)" by (cases p)
  have a: "(a, b) \<in> set PAIRED_TAGS" "prefix a s" using row_at_SomeD assms p by blast+
  have "prefix o' (s @ f) \<longleftrightarrow> prefix o' s" if "(o', c') \<in> set PAIRED_TAGS" for o' c'
  proof
    assume "prefix o' (s @ f)"
    moreover have "prefix a (s @ f)" using a(2) by (simp add: prefix_prefix)
    ultimately have "prefix o' a \<or> prefix a o'" by (rule prefix_same_cases)
    then have "o' = a" using openers_apart [OF that a(1)] openers_apart [OF a(1) that] by blast
    then show "prefix o' s" using a(2) by simp
  qed (simp add: prefix_prefix)
  then have "row_at PAIRED_TAGS (s @ f) = row_at PAIRED_TAGS s"
    unfolding row_at_def by (intro find_cong) auto
  then show ?thesis using assms by simp
qed

lemma earliest_append:
  assumes "earliest_in PAIRED_TAGS b = Some (i, p)"
  shows "earliest_in PAIRED_TAGS (b @ f) = Some (i, p)"
proof (rule earliest_in_eq)
  note d = earliest_in_SomeD [OF assms]
  show "i \<le> length (b @ f)" "row_at PAIRED_TAGS (drop i (b @ f)) = Some p"
    using d(1) row_at_append [OF d(2)] by simp_all
  fix k assume k: "k < i"
  show "row_at PAIRED_TAGS (drop k (b @ f)) = None"
  proof (rule ccontr)
    obtain a c where p: "p = (a, c)" by (cases p)
    assume "row_at PAIRED_TAGS (drop k (b @ f)) \<noteq> None"
    then obtain o' c' where o': "(o', c') \<in> set PAIRED_TAGS" "prefix o' (drop k (b @ f))"
      using row_at_SomeD by fastforce
    have "prefix a (drop i (b @ f))" "tag_shape a"
      using row_at_SomeD row_opener_shape d(1,2) p by (fastforce simp: prefix_prefix)+
    then have "k + length o' \<le> i"
      using tag_not_inside [OF tags_shaped(1) [OF o'(1)] _ o'(2)] k by blast
    then have "prefix o' (drop k b)"
      using o'(2) d(1) k prefix_length_prefix [of o' "drop k b @ f" "drop k b"] by simp
    then show False using d(3) [OF k] o'(1) by (auto simp: row_at_None)
  qed
qed

text \<open>What is held back is long enough for any tag that has begun.\<close>

lemma utf8_longest: "m \<in> set markers \<Longrightarrow> utf8_len m \<le> foldr max (map utf8_len markers) 0"
  by (induction markers) auto

lemma safe_emit_len_le: "safe_emit_len s markers \<le> length s"
  unfolding safe_emit_len_def Let_def
  by (auto split: option.splits simp: find_Some_iff)

lemma tag_begun_is_held:
  assumes "k < length b" "m \<in> set markers" "prefix m (drop k (b @ f))" "\<not> prefix m (drop k b)"
  shows "safe_emit_len b markers \<le> k"
proof -
  have "prefix (drop k b) (drop k (b @ f))" using assms(1) by simp
  then have tail: "prefix (drop k b) m" "drop k b \<noteq> m"
    using prefix_same_cases [OF assms(3), of "drop k b"] assms(4) by auto
  then obtain c r where m: "m = drop k b @ c # r" by (metis append_Nil2 neq_Nil_conv prefixE)
  have shorter: "utf8_len (drop k b) < utf8_len m"
    unfolding m by (simp add: utf8_len_def char_len_def)
  have "utf8_len b = utf8_len (take k b) + utf8_len (drop k b)"
    by (metis append_take_drop_id utf8_len_append)
  with shorter utf8_longest [OF assms(2)]
  have early: "utf8_len b - (foldr max (map utf8_len markers) 0 - 1) \<le> utf8_len (take k b)" by linarith
  let ?P = "\<lambda>i. utf8_len b - (foldr max (map utf8_len markers) 0 - 1) \<le> utf8_len (take i b) \<and>
    list_ex (\<lambda>m. utf8_len m > utf8_len (drop i b) \<and> prefix (drop i b) m) markers"
  have P: "?P k" using early shorter tail(1) assms(2) by (auto simp: list_ex_iff)
  show ?thesis
  proof (cases "find ?P [0..<length b]")
    case None
    then have "\<not> ?P k" using assms(1) unfolding find_None_iff by simp
    with P show ?thesis by blast
  next
    case (Some i)
    then obtain j where j: "j < length [0..<length b]" "i = [0..<length b] ! j"
      "\<forall>l < j. \<not> ?P ([0..<length b] ! l)"
      unfolding find_Some_iff by blast
    then have "\<not> k < j" using P assms(1) by auto
    moreover have "safe_emit_len b markers = i" using Some by (simp add: safe_emit_len_def)
    ultimately show ?thesis using j(1,2) by simp
  qed
qed

lemma earliest_in_skip:
  assumes "\<And>k. k < n \<Longrightarrow> row_at tags (drop k s) = None" "n \<le> length s"
  shows "earliest_in tags s = map_option (\<lambda>(i, p). (n + i, p)) (earliest_in tags (drop n s))"
proof (cases "earliest_in tags (drop n s)")
  case None
  then have "row_at tags (drop k s) = None" for k
    using assms(1) [of k] earliest_in_NoneD [OF None, of "k - n"] by (cases "k < n") simp_all
  then have "earliest_in tags s = None"
    using earliest_in_SomeD(2) [of tags s] by (cases "earliest_in tags s") fastforce+
  with None show ?thesis by simp
next
  case (Some hit)
  obtain i p where hit: "hit = (i, p)" by (cases hit)
  note d = earliest_in_SomeD [OF Some [unfolded hit]]
  have "earliest_in tags s = Some (n + i, p)"
  proof (rule earliest_in_eq)
    have "i \<le> length s - n" using d(1) by simp
    then show "n + i \<le> length s" using assms(2) by arith
    show "row_at tags (drop (n + i) s) = Some p" using d(2) by (simp add: add.commute)
    fix k assume "k < n + i"
    then show "row_at tags (drop k s) = None"
      using assms(1) [of k] d(3) [of "k - n"] by (cases "k < n") simp_all
  qed
  with Some hit show ?thesis by simp
qed

lemma shown_skip:
  assumes "\<And>k. k < n \<Longrightarrow> row_at PAIRED_TAGS (drop k s) = None" "n \<le> length s"
  shows "\<exists>p ps. shown_parts Outside (drop n s) = p # ps \<and> shown_parts Outside s = (take n s @ p) # ps"
proof (cases "earliest_in PAIRED_TAGS (drop n s)")
  case None
  then show ?thesis using earliest_in_skip [OF assms] by (simp add: shown_parts.simps(1))
next
  case (Some hit)
  obtain i opener close where hit: "hit = (i, opener, close)" by (cases hit)
  have "drop (n + i + length opener) s = drop (i + length opener) (drop n s)" by (simp add: ac_simps)
  with Some hit earliest_in_skip [OF assms] show ?thesis
    by (simp add: shown_parts.simps(1) take_add del: drop_drop)
qed

lemma find_sub_skip:
  assumes "\<And>k. k < n \<Longrightarrow> \<not> prefix pat (drop k s)" "n \<le> length s"
  shows "find_sub pat s = map_option (\<lambda>i. n + i) (find_sub pat (drop n s))"
proof (cases "find_sub pat (drop n s)")
  case None
  then have "\<not> prefix pat (drop k s)" for k
    using assms(1) [of k] find_sub_NoneD [OF None, of "k - n"] by (cases "k < n") simp_all
  then have "find_sub pat s = None" using find_sub_SomeD by (cases "find_sub pat s") blast+
  with None show ?thesis by simp
next
  case (Some i)
  note d = find_sub_SomeD [OF Some]
  have "find_sub pat s = Some (n + i)"
  proof (rule find_sub_eq)
    have "i \<le> length s - n" using d by simp
    then show "n + i \<le> length s" using assms(2) by arith
    show "prefix pat (drop (n + i) s)" using d by (simp add: add.commute)
    fix k assume "k < n + i"
    then show "\<not> prefix pat (drop k s)"
      using assms(1) [of k] d [THEN conjunct2, THEN conjunct2, rule_format, of "k - n"]
      by (cases "k < n") simp_all
  qed
  with Some show ?thesis by simp
qed

lemma find_sub_append:
  assumes "find_sub pat b = Some i"
  shows "find_sub pat (b @ f) = Some i"
proof (rule find_sub_eq)
  note d = find_sub_SomeD [OF assms]
  have fits: "i + length pat \<le> length b" by (rule find_sub_bound [OF assms])
  show "i \<le> length (b @ f)" "prefix pat (drop i (b @ f))" using d by (simp_all add: prefix_prefix)
  fix k assume k: "k < i"
  with fits have "length pat \<le> length b - k" by arith
  with k show "\<not> prefix pat (drop k (b @ f))"
    using d fits prefix_length_prefix [of pat "drop k b @ f" "drop k b"] by auto
qed

section \<open>What the loop forwards\<close>

text \<open>No tag of interest is left whole in the buffer.\<close>

definition settled :: "thought_filter \<Rightarrow> bool" where
  "settled f \<longleftrightarrow>
     (case tf_state f of
        Outside \<Rightarrow> earliest_in PAIRED_TAGS (tf_buf f) = None
      | InsideBlock close \<Rightarrow> find_sub close (tf_buf f) = None)"

definition clean :: "filter_state \<Rightarrow> ustr \<Rightarrow> bool" where
  "clean st s \<longleftrightarrow> list_all sentinel_free (shown_parts st s)"

text \<open>What the filter has still to forward, and what its loop leaves of it.\<close>

definition forwards :: "filter_state \<Rightarrow> ustr \<Rightarrow> ustr \<Rightarrow> ustr \<Rightarrow> ustr \<times> thought_filter \<Rightarrow> bool" where
  "forwards st buf rest out res \<longleftrightarrow>
     (case res of (out', f) \<Rightarrow>
        out' @ shown (tf_state f) (tf_buf f @ rest) = out @ shown st (buf @ rest) \<and>
        clean (tf_state f) (tf_buf f @ rest) \<and> settled f)"

lemma forwards_step:
  "forwards st' buf' rest out' res \<Longrightarrow>
     out' @ shown st' (buf' @ rest) = out @ shown st (buf @ rest) \<Longrightarrow> forwards st buf rest out res"
  by (auto simp: forwards_def)

lemma earliest_in_drop: "earliest_in tags s = None \<Longrightarrow> earliest_in tags (drop n s) = None"
  using earliest_in_NoneD [of tags s] earliest_in_SomeD(2)
  by (cases "earliest_in tags (drop n s)") fastforce+

lemma find_sub_drop: "find_sub pat s = None \<Longrightarrow> find_sub pat (drop n s) = None"
  using find_sub_NoneD [of pat s] find_sub_SomeD
  by (cases "find_sub pat (drop n s)") fastforce+

lemma none_opens_before_safe:
  assumes "earliest_in PAIRED_TAGS b = None" "k < safe_emit_len b NORMAL_MARKERS"
  shows "row_at PAIRED_TAGS (drop k (b @ f)) = None"
proof (rule ccontr)
  assume "row_at PAIRED_TAGS (drop k (b @ f)) \<noteq> None"
  then obtain a c where a: "(a, c) \<in> set PAIRED_TAGS" "prefix a (drop k (b @ f))"
    using row_at_SomeD by fastforce
  have "a \<in> set NORMAL_MARKERS" using a(1) by (force simp: NORMAL_MARKERS_def)
  moreover have "\<not> prefix a (drop k b)"
    using earliest_in_NoneD [OF assms(1)] a(1) by (auto simp: row_at_None)
  moreover have "k < length b" using assms(2) safe_emit_len_le [of b NORMAL_MARKERS] by linarith
  ultimately show False using tag_begun_is_held [OF _ _ a(2)] assms(2) by fastforce
qed

lemma none_closes_before_safe:
  assumes "find_sub close b = None" "k < safe_emit_len b [close]"
  shows "\<not> prefix close (drop k (b @ f))"
proof
  assume p: "prefix close (drop k (b @ f))"
  moreover have "k < length b" using assms(2) safe_emit_len_le [of b "[close]"] by linarith
  ultimately show False
    using tag_begun_is_held [of k b close "[close]" f] find_sub_NoneD [OF assms(1)] assms(2) by simp
qed

lemma filter_loop_forwards:
  "clean st (buf @ rest) \<Longrightarrow> forwards st buf rest out (filter_loop st buf out)"
proof (induction st buf out rule: filter_loop.induct)
  case (1 buf out)
  show ?case
  proof (cases "earliest_in PAIRED_TAGS buf")
    case (Some hit)
    obtain i opener close where hit: "hit = (i, opener, close)" by (cases hit)
    have here: "earliest_in PAIRED_TAGS (buf @ rest) = Some (i, opener, close)"
      using earliest_append Some hit by simp
    have "i + length opener \<le> length buf" by (rule opened_inside [OF Some [unfolded hit]])
    then have parts: "shown_parts Outside (buf @ rest) =
        take i buf # shown_parts (InsideBlock close) (drop (i + length opener) buf @ rest)"
      using here by (simp add: shown_parts.simps(1))
    then have "clean (InsideBlock close) (drop (i + length opener) buf @ rest)"
      "strip_standalones (take i buf) = take i buf"
      using "1.prems" strip_sentinel_free by (simp_all add: clean_def)
    with 1(1) [OF Some hit [symmetric] refl] parts Some hit show ?thesis
      by (auto simp: filter_loop.simps(1) shown_def elim!: forwards_step)
  next
    case None
    define n where "n = safe_emit_len buf NORMAL_MARKERS"
    have n: "n \<le> length buf" by (simp add: n_def safe_emit_len_le)
    obtain p ps where p: "shown_parts Outside (drop n (buf @ rest)) = p # ps"
      "shown_parts Outside (buf @ rest) = (take n (buf @ rest) @ p) # ps"
      using shown_skip [of n "buf @ rest"] none_opens_before_safe [OF None] n unfolding n_def by fastforce
    have free: "sentinel_free (take n buf @ p)" "list_all sentinel_free ps"
      using "1.prems" p(2) n by (simp_all add: clean_def)
    have "strip_standalones (take n buf) = take n buf" "sentinel_free p"
      using strip_sentinel_free sentinel_free_part [of "[]" "take n buf" p]
        sentinel_free_part [of "take n buf" p "[]"] free(1) by simp_all
    then show ?thesis
      using None p n free(2) earliest_in_drop [OF None]
      by (simp add: filter_loop.simps(1) forwards_def shown_def clean_def settled_def
          n_def [symmetric])
  qed
next
  case (2 close buf out)
  show ?case
  proof (cases "find_sub close buf")
    case (Some i)
    then have "shown_parts (InsideBlock close) (buf @ rest) =
        shown_parts Outside (drop (i + length close) buf @ rest)"
      using find_sub_append [OF Some] find_sub_bound [OF Some] by (simp add: shown_parts.simps(2))
    with 2 Some show ?thesis
      by (auto simp: filter_loop.simps(2) shown_def clean_def elim!: forwards_step)
  next
    case None
    define n where "n = safe_emit_len buf [close]"
    have n: "n \<le> length buf" by (simp add: n_def safe_emit_len_le)
    have "find_sub close (buf @ rest) = map_option (\<lambda>i. n + i) (find_sub close (drop n buf @ rest))"
      using find_sub_skip [of n close "buf @ rest"] none_closes_before_safe [OF None] n
      unfolding n_def by simp
    then have "shown_parts (InsideBlock close) (buf @ rest) =
        shown_parts (InsideBlock close) (drop n buf @ rest)"
      using n by (cases "find_sub close (drop n buf @ rest)") (simp_all add: shown_parts.simps(2) ac_simps)
    then show ?thesis
      using None "2.prems" find_sub_drop [OF None]
      by (simp add: filter_loop.simps(2) forwards_def shown_def clean_def settled_def n_def [symmetric])
  qed
qed

lemma earliest_in_Nil: "earliest_in PAIRED_TAGS [] = None"
  using earliest_in_SomeD(2) [of PAIRED_TAGS "[]"] row_opener_shape row_at_SomeD
  by (cases "earliest_in PAIRED_TAGS []") (fastforce simp: tag_shape_def)+

lemma filter_flush_shows:
  assumes "settled f" "clean (tf_state f) (tf_buf f)"
  shows "fst (filter_flush f) = shown (tf_state f) (tf_buf f)"
  using assms strip_sentinel_free
  by (cases "tf_state f") (simp_all add: settled_def clean_def filter_flush_def shown_def shown_parts.simps)

lemma filter_chunks_shows:
  "settled f \<Longrightarrow> clean (tf_state f) (tf_buf f @ concat cs) \<Longrightarrow>
     filter_chunks f cs = shown (tf_state f) (tf_buf f @ concat cs)"
proof (induction cs arbitrary: f)
  case Nil
  then show ?case by (simp add: filter_flush_shows)
next
  case (Cons c cs)
  obtain out f' where push: "filter_push f c = (out, f')" by (cases "filter_push f c")
  have "forwards (tf_state f) (tf_buf f @ c) (concat cs) [] (out, f')"
    using filter_loop_forwards [of "tf_state f" "tf_buf f @ c" "concat cs" "[]"] Cons.prems(2) push
    by (simp add: filter_push_def)
  with Cons.IH [of f'] push show ?case by (simp add: forwards_def)
qed

lemma sentinel_free_Nil: "sentinel_free []"
  by (simp add: sentinel_free_def STANDALONE_SENTINELS_def contains_text_def ANSWER_OPEN_def
      ANSWER_CLOSE_def text_simps)

lemma stream_shows_parts:
  "list_all sentinel_free (shown_parts Outside (concat chunks)) \<Longrightarrow>
     filter_chunks filter_new chunks = concat (shown_parts Outside (concat chunks))"
  using filter_chunks_shows [of filter_new chunks]
  by (simp add: filter_new_def settled_def clean_def shown_def earliest_in_Nil)



lemma opening_row:
  assumes "row_at PAIRED_TAGS opener = Some (opener, first)"
  shows "earliest_in PAIRED_TAGS (opener @ s) = Some (0, opener, first)"
  using row_at_append [OF assms] by (intro earliest_in_eq) simp_all

text \<open>A tag absent from a text stays absent when an opening it is not comparable with goes before.\<close>

lemma absent_after_opening:
  assumes "tag_shape opener" "tag_shape tag" "\<not> prefix tag opener" "\<not> prefix opener tag"
    "find_sub tag s = None"
  shows "find_sub tag (opener @ s) = None"
proof (rule ccontr)
  assume "find_sub tag (opener @ s) \<noteq> None"
  then obtain k where k: "prefix tag (drop k (opener @ s))" using find_sub_SomeD by blast
  show False
  proof (cases "k = 0")
    case True
    then show False using k assms(3,4) prefix_same_cases [of tag "opener @ s" opener] by simp
  next
    case False
    have "prefix opener (drop 0 (opener @ s))" by simp
    from tag_not_inside [OF assms(1,2) this k] False have "length opener \<le> k"
      by (simp only: add_0 neq0_conv)
    then have "drop k (opener @ s) = drop (k - length opener) s" by simp
    with k find_sub_NoneD [OF assms(5)] show False by (simp only:)
  qed
qed

lemma strip_unclosed_row:
  assumes "PAIRED_TAGS = (opener, first) # tags" "find_sub first s = None"
  shows "strip_reasoning (opener @ s) = []"
proof -
  have row: "(opener, first) \<in> set PAIRED_TAGS" unfolding assms(1) by (rule list.set_intros(1))
  have "\<not> prefix first opener" "\<not> prefix opener first"
    using assms(1) by (auto simp: PAIRED_TAGS_def text_simps)
  then have "find_sub first (opener @ s) = None"
    using absent_after_opening [OF tags_shaped [OF row]] assms(2) by blast
  moreover have "find_sub opener (opener @ s) = Some 0" by (rule find_sub_eq) simp_all
  ultimately have "strip_block (opener @ s) opener first = []"
    using assms(2) by (simp add: strip_block_def strip_orphans.simps strip_closed.simps)
  moreover have "strip_block [] a c = []" for a c
    by (simp add: strip_block_def strip_orphans.simps strip_closed.simps)
  then have "foldl (\<lambda>s (a, c). strip_block s a c) [] ts = []" for ts
    by (induction ts) (auto split: prod.split)
  ultimately have "foldl (\<lambda>s (a, c). strip_block s a c) (opener @ s) PAIRED_TAGS = []"
    using assms(1) by (metis (no_types, lifting) case_prod_conv foldl_Cons)
  then show ?thesis using strip_sentinel_free [OF sentinel_free_Nil] by (simp add: strip_reasoning_def)
qed

text \<open>
  C38: A reply whose reasoning ends with a close that a later row lists is lost whole. Three openings
  have two rows with different closes, and the filter takes the first row that matches: when the
  reply opens such a block and its text holds only the other close, nothing is forwarded, however
  the stream cuts it; and \<open>strip_reasoning\<close> returns the empty text for the first of them.
\<close>

theorem second_close_hides_reply:
  assumes "(opener, close) \<in> set PAIRED_TAGS" "row_at PAIRED_TAGS opener = Some (opener, first)"
    "\<not> contains_text first (body @ close @ answer)"
    "concat chunks = opener @ body @ close @ answer"
  shows "filter_chunks filter_new chunks = [] \<and>
    (opener = fst (hd PAIRED_TAGS) \<longrightarrow> strip_reasoning (concat chunks) = [])"
proof
  have none: "find_sub first (body @ close @ answer) = None"
    using assms(3) by (simp add: contains_text_def)
  then have "shown_parts Outside (concat chunks) = [[]]"
    using opening_row [OF assms(2)] by (simp add: assms(4) shown_parts.simps)
  then show "filter_chunks filter_new chunks = []"
    using stream_shows_parts [of chunks] sentinel_free_Nil by simp
  show "opener = fst (hd PAIRED_TAGS) \<longrightarrow> strip_reasoning (concat chunks) = []"
  proof
    assume "opener = fst (hd PAIRED_TAGS)"
    then have "PAIRED_TAGS = (opener, first) # tl PAIRED_TAGS"
      using assms(2) by (auto simp: row_at_def PAIRED_TAGS_def)
    from strip_unclosed_row [OF this none] show "strip_reasoning (concat chunks) = []"
      by (simp add: assms(4))
  qed
qed

theorem second_close_hides_reply_witness:
  "filter_chunks filter_new [lit ''<|channel>thought why'', lit ''<|channel|>Seven.''] = []"
proof -
  have "\<not> contains_text (lit ''<channel|>'') (lit '' why'' @ lit ''<|channel|>'' @ lit ''Seven.'')"
    by (simp add: contains_text_def text_simps)
  moreover have "row_at PAIRED_TAGS (lit ''<|channel>thought'') =
      Some (lit ''<|channel>thought'', lit ''<channel|>'')"
    by (simp add: row_at_def PAIRED_TAGS_def)
  moreover have "(lit ''<|channel>thought'', lit ''<|channel|>'') \<in> set PAIRED_TAGS"
    by (simp add: PAIRED_TAGS_def)
  ultimately show ?thesis
    using second_close_hides_reply [of "lit ''<|channel>thought''" "lit ''<|channel|>''" "lit ''<channel|>''"
        "lit '' why''" "lit ''Seven.''" "[lit ''<|channel>thought why'', lit ''<|channel|>Seven.'']"]
    by (simp add: lit_def)
qed

end
