(* ===== verification/Event_Filter.thy ===== *)
theory Event_Filter
  imports Thought_Filter Step_Outcome
begin

text \<open>
  The filter of the event stream (\<open>pond-api/src/thought_filter.rs\<close>): what a client is sent of a reply, and
  the tool calls and the thinking taken out of its blocks; and the reader of a tool call a model wrote as
  text. \<open>from_str\<close> and \<open>to_string\<close> are \<open>serde_json\<close>'s.
\<close>

record event_filter =
  ef_state :: filter_state
  ef_buf :: ustr
  ef_block_body :: ustr
  ef_inside_open_tag :: "ustr option"
  ef_captured_tool_calls :: "ustr list"
  ef_capture_thinking :: bool
  ef_captured_thinking :: "ustr list"
  ef_answer_tagged :: bool

definition event_filter_new :: event_filter where
  "event_filter_new =
     \<lparr>ef_state = Outside, ef_buf = [], ef_block_body = [], ef_inside_open_tag = None,
      ef_captured_tool_calls = [], ef_capture_thinking = False, ef_captured_thinking = [],
      ef_answer_tagged = False\<rparr>"

definition with_thinking_capture :: "event_filter \<Rightarrow> event_filter" where
  "with_thinking_capture f = f\<lparr>ef_capture_thinking := True\<rparr>"

definition TOOL_CALL_OPEN :: ustr where "TOOL_CALL_OPEN = lit ''<|tool_call>''"

definition strip_thought_word :: "ustr \<Rightarrow> ustr" where
  "strip_thought_word body =
     (let t = trim body; word = lit ''thought'' in
      trim (if prefix word t then drop (length word) t else t))"

text \<open>What a block that closed leaves behind; empty bodies are not kept.\<close>

definition close_block :: "event_filter \<Rightarrow> ustr \<Rightarrow> event_filter" where
  "close_block f body =
     (if ef_inside_open_tag f = Some TOOL_CALL_OPEN then
        f\<lparr>ef_block_body := [],
          ef_captured_tool_calls :=
            ef_captured_tool_calls f @ (if trim body \<noteq> [] then [trim body] else [])\<rparr>
      else if ef_capture_thinking f then
        f\<lparr>ef_block_body := [],
          ef_captured_thinking :=
            ef_captured_thinking f @
              (if strip_thought_word body \<noteq> [] then [strip_thought_word body] else [])\<rparr>
      else f\<lparr>ef_block_body := []\<rparr>)"

lemma close_block_frame [simp]:
  "ef_state (close_block f body) = ef_state f" "ef_buf (close_block f body) = ef_buf f"
  "ef_block_body (close_block f body) = []"
  "ef_capture_thinking (close_block f body) = ef_capture_thinking f"
  by (simp_all add: close_block_def)

function event_loop :: "event_filter \<Rightarrow> ustr \<Rightarrow> ustr \<times> event_filter" where
  "event_loop f out =
     (case ef_state f of
        Outside \<Rightarrow>
          (case earliest_in PAIRED_TAGS (ef_buf f) of
             Some (i, opener, close) \<Rightarrow>
               event_loop
                 (f\<lparr>ef_answer_tagged := ef_answer_tagged f \<or> has_answer_tag (take i (ef_buf f)),
                    ef_buf := drop (i + length opener) (ef_buf f), ef_inside_open_tag := Some opener,
                    ef_block_body := [], ef_state := InsideBlock close\<rparr>)
                 (out @ strip_standalones (take i (ef_buf f)))
           | None \<Rightarrow>
               (let safe = safe_emit_len (ef_buf f) NORMAL_MARKERS
                in (out @ strip_standalones (take safe (ef_buf f)),
                    f\<lparr>ef_answer_tagged := ef_answer_tagged f \<or> has_answer_tag (take safe (ef_buf f)),
                      ef_buf := drop safe (ef_buf f)\<rparr>)))
      | InsideBlock close \<Rightarrow>
          (case find_sub close (ef_buf f) of
             Some i \<Rightarrow>
               event_loop
                 ((close_block f (ef_block_body f @ take i (ef_buf f)))
                    \<lparr>ef_inside_open_tag := None, ef_buf := drop (i + length close) (ef_buf f),
                     ef_state := Outside\<rparr>)
                 out
           | None \<Rightarrow>
               (let safe = safe_emit_len (ef_buf f) [close]
                in (out, f\<lparr>ef_block_body := ef_block_body f @ take safe (ef_buf f),
                           ef_buf := drop safe (ef_buf f)\<rparr>))))"
  by auto
termination event_loop
proof (relation "measure (\<lambda>(f, _). loop_size (ef_state f) (ef_buf f))")
  fix f out hit i rest opener close
  assume "ef_state f = Outside" "earliest_in PAIRED_TAGS (ef_buf f) = Some hit" "(i, rest) = hit"
    "(opener, close) = rest"
  then have "length (drop (i + length opener) (ef_buf f)) < length (ef_buf f)"
    using opened_shorter by blast
  then show "((f\<lparr>ef_answer_tagged := ef_answer_tagged f \<or> has_answer_tag (take i (ef_buf f)),
        ef_buf := drop (i + length opener) (ef_buf f), ef_inside_open_tag := Some opener,
        ef_block_body := [], ef_state := InsideBlock close\<rparr>,
      out @ strip_standalones (take i (ef_buf f))), (f, out))
      \<in> measure (\<lambda>(f, _). loop_size (ef_state f) (ef_buf f))"
    using \<open>ef_state f = Outside\<close> by simp
qed simp_all

declare event_loop.simps [simp del]

definition event_push :: "event_filter \<Rightarrow> ustr \<Rightarrow> ustr \<times> event_filter" where
  "event_push f chunk = event_loop (f\<lparr>ef_buf := ef_buf f @ chunk\<rparr>) []"

definition event_flush :: "event_filter \<Rightarrow> ustr \<times> event_filter" where
  "event_flush f =
     (case ef_state f of Outside \<Rightarrow> strip_standalones (ef_buf f) | InsideBlock _ \<Rightarrow> [],
      f\<lparr>ef_buf := [], ef_answer_tagged := False\<rparr>)"

definition take_tool_calls :: "event_filter \<Rightarrow> ustr list \<times> event_filter" where
  "take_tool_calls f = (ef_captured_tool_calls f, f\<lparr>ef_captured_tool_calls := []\<rparr>)"

definition take_thinking :: "event_filter \<Rightarrow> ustr list \<times> event_filter" where
  "take_thinking f = (ef_captured_thinking f, f\<lparr>ef_captured_thinking := []\<rparr>)"

fun event_chunks :: "event_filter \<Rightarrow> ustr list \<Rightarrow> ustr \<times> event_filter" where
  "event_chunks f [] = event_flush f"
| "event_chunks f (c # cs) =
     (case event_push f c of (out, f') \<Rightarrow>
        (case event_chunks f' cs of (out', f'') \<Rightarrow> (out @ out', f'')))"

section \<open>A tool call written as text\<close>

definition trim_colons :: "ustr \<Rightarrow> ustr" where
  "trim_colons s = rev (dropWhile (\<lambda>c. c = 58) (rev s))"

definition unwrap_parens :: "ustr \<Rightarrow> ustr" where
  "unwrap_parens s =
     (case s of
        c # r \<Rightarrow> if c = 40 \<and> r \<noteq> [] \<and> last r = 41 then butlast r else s
      | [] \<Rightarrow> s)"

definition parse_tool_envelope ::
  "(ustr \<Rightarrow> json option) \<Rightarrow> (json \<Rightarrow> ustr) \<Rightarrow> ustr \<Rightarrow> (ustr \<times> ustr) option" where
  "parse_tool_envelope from_str to_string body =
     (let t = trim body; call = lit ''call:''; s = (if prefix call t then drop (length call) t else t);
          as_json =
            Option.bind (from_str s) (\<lambda>v.
              Option.bind (Option.bind (json_get v (lit ''name'')) json_as_str) (\<lambda>name.
                Some (name, case json_get v (lit ''arguments'') of
                              Some a \<Rightarrow> to_string a | None \<Rightarrow> lit ''{}'')))
      in case position (\<lambda>c. c = 123 \<or> c = 40) s of
           Some open_idx \<Rightarrow>
             (let name = trim_colons (trim (take open_idx s)) in
              if name \<noteq> [] then Some (name, unwrap_parens (drop open_idx s)) else as_json)
         | None \<Rightarrow> as_json)"

section \<open>The two filters show the same\<close>

definition as_thought :: "event_filter \<Rightarrow> thought_filter" where
  "as_thought f = \<lparr>tf_state = ef_state f, tf_buf = ef_buf f\<rparr>"

lemma event_loop_thought:
  "filter_loop (ef_state f) (ef_buf f) out = map_prod id as_thought (event_loop f out)"
proof (induction f out rule: event_loop.induct)
  case (1 f out)
  show ?case
  proof (cases "ef_state f")
    case Outside
    show ?thesis
    proof (cases "earliest_in PAIRED_TAGS (ef_buf f)")
      case None
      with Outside show ?thesis
        by (simp add: event_loop.simps [of f] filter_loop.simps as_thought_def Let_def)
    next
      case (Some hit)
      obtain i opener close where hit: "hit = (i, opener, close)" by (cases hit)
      from 1(1) [OF Outside Some hit [symmetric] refl] Outside Some hit show ?thesis
        by (simp add: event_loop.simps [of f] filter_loop.simps)
    qed
  next
    case (InsideBlock close)
    show ?thesis
    proof (cases "find_sub close (ef_buf f)")
      case None
      with InsideBlock show ?thesis
        by (simp add: event_loop.simps [of f] filter_loop.simps as_thought_def Let_def)
    next
      case (Some i)
      from 1(2) [OF InsideBlock Some] InsideBlock Some show ?thesis
        by (simp add: event_loop.simps [of f] filter_loop.simps)
    qed
  qed
qed

lemma event_chunks_thought: "fst (event_chunks f cs) = filter_chunks (as_thought f) cs"
proof (induction cs arbitrary: f)
  case Nil
  show ?case by (cases "ef_state f") (simp_all add: event_flush_def filter_flush_def as_thought_def)
next
  case (Cons c cs)
  obtain out f' where push: "event_push f c = (out, f')" by (cases "event_push f c")
  then have "filter_push (as_thought f) c = (out, as_thought f')"
    using event_loop_thought [of "f\<lparr>ef_buf := ef_buf f @ c\<rparr>" "[]"]
    by (simp add: filter_push_def event_push_def as_thought_def)
  with push Cons.IH [of f'] show ?case by (cases "event_chunks f' cs") simp
qed

text \<open>
  What a client reads is what the household hears. The filter of the event stream, capturing
  thinking or not, forwards the same text as the filter before speech, for every reply however it is
  cut: keeping the blocks' bodies changes nothing that is shown.
\<close>

theorem event_stream_shows_the_same:
  "fst (event_chunks event_filter_new chunks) = filter_chunks filter_new chunks \<and>
   fst (event_chunks (with_thinking_capture event_filter_new) chunks) = filter_chunks filter_new chunks"
  by (simp add: event_chunks_thought as_thought_def event_filter_new_def with_thinking_capture_def
      filter_new_def)

section \<open>What is captured\<close>

text \<open>The blocks of a text that close: the tag each opened with, and its body.\<close>

function closed_blocks :: "filter_state \<Rightarrow> ustr option \<Rightarrow> ustr \<Rightarrow> ustr \<Rightarrow> (ustr option \<times> ustr) list"
  where
  "closed_blocks Outside opened body s =
     (case earliest_in PAIRED_TAGS s of
        Some (i, opener, close) \<Rightarrow>
          closed_blocks (InsideBlock close) (Some opener) [] (drop (i + length opener) s)
      | None \<Rightarrow> [])"
| "closed_blocks (InsideBlock close) opened body s =
     (case find_sub close s of
        Some i \<Rightarrow> (opened, body @ take i s) # closed_blocks Outside None [] (drop (i + length close) s)
      | None \<Rightarrow> [])"
  by pat_completeness auto
termination closed_blocks
  by (relation "measure (\<lambda>(st, _, _, s). loop_size st s)") (use opened_shorter in force)+

declare closed_blocks.simps [simp del]

definition calls_of :: "(ustr option \<times> ustr) list \<Rightarrow> ustr list" where
  "calls_of blocks =
     filter (\<lambda>t. t \<noteq> []) (map (\<lambda>(_, b). trim b) (filter (\<lambda>(tag, _). tag = Some TOOL_CALL_OPEN) blocks))"

definition thinking_of :: "bool \<Rightarrow> (ustr option \<times> ustr) list \<Rightarrow> ustr list" where
  "thinking_of capture blocks =
     (if capture
      then filter (\<lambda>t. t \<noteq> [])
        (map (\<lambda>(_, b). strip_thought_word b) (filter (\<lambda>(tag, _). tag \<noteq> Some TOOL_CALL_OPEN) blocks))
      else [])"

lemma blocks_of_Nil [simp]: "calls_of [] = []" "thinking_of capture [] = []"
  by (simp_all add: calls_of_def thinking_of_def)

lemma close_block_captures:
  "ef_captured_tool_calls (close_block f body) @ calls_of bs =
     ef_captured_tool_calls f @ calls_of ((ef_inside_open_tag f, body) # bs)"
  "ef_captured_thinking (close_block f body) @ thinking_of (ef_capture_thinking f) bs =
     ef_captured_thinking f @ thinking_of (ef_capture_thinking f) ((ef_inside_open_tag f, body) # bs)"
  by (auto simp: close_block_def calls_of_def thinking_of_def)

text \<open>What the filter has still to capture when \<open>rest\<close> follows its buffer.\<close>

definition blocks_left :: "event_filter \<Rightarrow> ustr \<Rightarrow> (ustr option \<times> ustr) list" where
  "blocks_left f rest =
     closed_blocks (ef_state f) (ef_inside_open_tag f) (ef_block_body f) (ef_buf f @ rest)"

definition captures :: "event_filter \<Rightarrow> ustr \<Rightarrow> ustr list \<times> ustr list" where
  "captures f rest =
     (ef_captured_tool_calls f @ calls_of (blocks_left f rest),
      ef_captured_thinking f @ thinking_of (ef_capture_thinking f) (blocks_left f rest))"

lemma closed_blocks_outside: "closed_blocks Outside a b s = closed_blocks Outside None [] s"
  by (simp add: closed_blocks.simps(1))

lemma event_loop_captures:
  "captures (snd (event_loop f out)) rest = captures f rest"
proof (induction f out rule: event_loop.induct)
  case (1 f out)
  show ?case
  proof (cases "ef_state f")
    case Outside
    show ?thesis
    proof (cases "earliest_in PAIRED_TAGS (ef_buf f)")
      case None
      define n where "n = safe_emit_len (ef_buf f) NORMAL_MARKERS"
      have "n \<le> length (ef_buf f)" by (simp add: n_def safe_emit_len_le)
      then have "earliest_in PAIRED_TAGS (ef_buf f @ rest) =
          map_option (\<lambda>(i, p). (n + i, p)) (earliest_in PAIRED_TAGS (drop n (ef_buf f) @ rest))"
        using earliest_in_skip [of n PAIRED_TAGS "ef_buf f @ rest"] none_opens_before_safe [OF None]
        unfolding n_def by simp
      then have "closed_blocks Outside None [] (drop n (ef_buf f) @ rest) =
          closed_blocks Outside None [] (ef_buf f @ rest)"
        using \<open>n \<le> _\<close> by (cases "earliest_in PAIRED_TAGS (drop n (ef_buf f) @ rest)")
          (auto simp: closed_blocks.simps(1) ac_simps)
      with None Outside show ?thesis
        by (simp add: event_loop.simps [of f] captures_def blocks_left_def n_def [symmetric]
            closed_blocks_outside [of "ef_inside_open_tag f" "ef_block_body f"])
    next
      case (Some hit)
      obtain i opener close where hit: "hit = (i, opener, close)" by (cases hit)
      have "i + length opener \<le> length (ef_buf f)" by (rule opened_inside [OF Some [unfolded hit]])
      with 1(1) [OF Outside Some hit [symmetric] refl] Outside Some hit earliest_append show ?thesis
        by (simp add: event_loop.simps [of f] captures_def blocks_left_def closed_blocks.simps(1))
    qed
  next
    case (InsideBlock close)
    show ?thesis
    proof (cases "find_sub close (ef_buf f)")
      case None
      define n where "n = safe_emit_len (ef_buf f) [close]"
      have n: "n \<le> length (ef_buf f)" by (simp add: n_def safe_emit_len_le)
      then have "find_sub close (ef_buf f @ rest) =
          map_option (\<lambda>i. n + i) (find_sub close (drop n (ef_buf f) @ rest))"
        using find_sub_skip [of n close "ef_buf f @ rest"] none_closes_before_safe [OF None]
        unfolding n_def by simp
      moreover have "take n (ef_buf f) @ take i (drop n (ef_buf f) @ rest) = take (n + i) (ef_buf f @ rest)" for i
        using n by (simp only: take_add) simp
      ultimately have "closed_blocks (InsideBlock close) a (b @ take n (ef_buf f)) (drop n (ef_buf f) @ rest) =
          closed_blocks (InsideBlock close) a b (ef_buf f @ rest)" for a b
        using n by (cases "find_sub close (drop n (ef_buf f) @ rest)")
          (simp_all add: closed_blocks.simps(2) ac_simps)
      with None InsideBlock show ?thesis
        by (simp add: event_loop.simps [of f] captures_def blocks_left_def n_def [symmetric])
    next
      case (Some i)
      have "i + length close \<le> length (ef_buf f)" by (rule find_sub_bound [OF Some])
      then have "blocks_left f rest = (ef_inside_open_tag f, ef_block_body f @ take i (ef_buf f)) #
          closed_blocks Outside None [] (drop (i + length close) (ef_buf f) @ rest)"
        using InsideBlock find_sub_append [OF Some] by (simp add: blocks_left_def closed_blocks.simps(2))
      with 1(2) [OF InsideBlock Some] InsideBlock Some show ?thesis
        by (simp add: event_loop.simps [of f] captures_def close_block_captures blocks_left_def)
    qed
  qed
qed

lemma filter_loop_settled: "settled (snd (filter_loop st buf out))"
proof (induction st buf out rule: filter_loop.induct)
  case (1 buf out)
  show ?case
  proof (cases "earliest_in PAIRED_TAGS buf")
    case None
    then show ?thesis using earliest_in_drop by (simp add: filter_loop.simps(1) settled_def Let_def)
  next
    case (Some hit)
    then show ?thesis using 1 [OF Some] by (cases hit) (simp add: filter_loop.simps(1))
  qed
next
  case (2 close buf out)
  show ?case
  proof (cases "find_sub close buf")
    case None
    then show ?thesis using find_sub_drop by (simp add: filter_loop.simps(2) settled_def Let_def)
  next
    case (Some i)
    then show ?thesis using 2 [OF Some] by (simp add: filter_loop.simps(2))
  qed
qed

lemma event_push_settled: "settled (as_thought (snd (event_push f c)))"
  using filter_loop_settled [of "ef_state f" "ef_buf f @ c" "[]"]
    event_loop_thought [of "f\<lparr>ef_buf := ef_buf f @ c\<rparr>" "[]"]
  by (simp add: event_push_def)

lemma settled_blocks: "settled (as_thought f) \<Longrightarrow> blocks_left f [] = []"
  by (cases "ef_state f") (simp_all add: settled_def as_thought_def blocks_left_def closed_blocks.simps)

lemma event_chunks_captures:
  "settled (as_thought f) \<Longrightarrow>
     (ef_captured_tool_calls (snd (event_chunks f cs)), ef_captured_thinking (snd (event_chunks f cs))) =
       captures f (concat cs)"
proof (induction cs arbitrary: f)
  case Nil
  then show ?case by (simp add: captures_def settled_blocks event_flush_def)
next
  case (Cons c cs)
  obtain out f' where push: "event_push f c = (out, f')" by (cases "event_push f c")
  have "captures f' (concat cs) = captures (f\<lparr>ef_buf := ef_buf f @ c\<rparr>) (concat cs)"
    using event_loop_captures [of "f\<lparr>ef_buf := ef_buf f @ c\<rparr>" "[]" "concat cs"] push
    by (simp add: event_push_def)
  also have "\<dots> = captures f (concat (c # cs))" by (simp add: captures_def blocks_left_def)
  finally show ?case
    using Cons.IH [of f'] event_push_settled [of f c] push
    by (cases "event_chunks f' cs") simp
qed

text \<open>
  Tool calls and thinking are read out of a reply whole. However the stream cuts the reply, the
  filter ends with the trimmed body of every block that opened as a tool call and closed, in order, and
  when it captures thinking with the body of every other block that closed, its leading word taken off,
  and with nothing from outside the blocks or from one left open.
\<close>

theorem blocks_captured_whole:
  "ef_captured_tool_calls (snd (event_chunks event_filter_new chunks)) =
     calls_of (closed_blocks Outside None [] (concat chunks)) \<and>
   ef_captured_thinking (snd (event_chunks event_filter_new chunks)) = [] \<and>
   ef_captured_tool_calls (snd (event_chunks (with_thinking_capture event_filter_new) chunks)) =
     calls_of (closed_blocks Outside None [] (concat chunks)) \<and>
   ef_captured_thinking (snd (event_chunks (with_thinking_capture event_filter_new) chunks)) =
     thinking_of True (closed_blocks Outside None [] (concat chunks))"
proof -
  have "settled (as_thought event_filter_new)" "settled (as_thought (with_thinking_capture event_filter_new))"
    by (simp_all add: settled_def as_thought_def event_filter_new_def with_thinking_capture_def earliest_in_Nil)
  from this [THEN event_chunks_captures, of chunks] show ?thesis
    by (simp add: captures_def blocks_left_def event_filter_new_def with_thinking_capture_def thinking_of_def)
qed

end
