(* ===== verification/Rate_Windows.thy ===== *)
theory Rate_Windows
  imports Setup_Code Plan_Schedule "HOL-Library.AList" "HOL-Library.Option_ord"
begin

text \<open>
  Two rolling windows: how often a pairing code is read aloud
  (\<open>network/services/spoken_code_limiter.rs\<close>) and how often a phone may start a run
  (\<open>network/services/device_resume_throttle.rs\<close>). A queue of instants is a list, its front first. A
  hash map iterates in an order of its own: it is an association list, and where an entry goes in is
  an argument.
\<close>

section \<open>What both keep\<close>

text \<open>The instants still inside the window; older ones leave from the front.\<close>

definition forget :: "duration \<Rightarrow> timestamp \<Rightarrow> timestamp list \<Rightarrow> timestamp list" where
  "forget window now q = dropWhile (\<lambda>t. \<not> nat (now - t) < window) q"

text \<open>
  The queue of a limiter that granted \<open>log\<close>, the oldest first, and was last asked at \<open>clock\<close>: it
  forgot only what had left the window.
\<close>

definition keeps :: "duration \<Rightarrow> timestamp list \<Rightarrow> timestamp list \<Rightarrow> timestamp \<Rightarrow> bool" where
  "keeps window log q clock \<longleftrightarrow>
     (\<exists>old. log = old @ q \<and> (\<forall>t \<in> set old. t + int window \<le> clock)) \<and>
     sorted log \<and> (\<forall>t \<in> set log. t \<le> clock)"

definition spaced :: "duration \<Rightarrow> nat \<Rightarrow> timestamp list \<Rightarrow> bool" where
  "spaced window most log \<longleftrightarrow>
     (\<forall>i. i + most < length log \<longrightarrow> log ! i + int window \<le> log ! (i + most))"

lemma forget_split:
  "\<exists>old. q = old @ forget window now q \<and> (\<forall>t \<in> set old. window \<le> nat (now - t))"
  by (rule exI [of _ "takeWhile (\<lambda>t. \<not> nat (now - t) < window) q"])
     (auto simp: forget_def dest: set_takeWhileD)

lemma forget_front: "forget window now q = t # ts \<Longrightarrow> nat (now - t) < window"
  using hd_dropWhile [of "\<lambda>t. \<not> nat (now - t) < window" q] by (simp add: forget_def)

lemma keeps_new: "keeps window [] [] clock"
  by (simp add: keeps_def)

lemma keeps_forget:
  assumes "keeps window log q clock" "clock \<le> now" "0 < window"
  shows "keeps window log (forget window now q) now"
proof -
  obtain old where old: "log = old @ q" "\<forall>t \<in> set old. t + int window \<le> clock"
    and log: "sorted log" "\<forall>t \<in> set log. t \<le> clock"
    using assms(1) unfolding keeps_def by blast
  obtain gone where gone: "q = gone @ forget window now q" "\<forall>t \<in> set gone. window \<le> nat (now - t)"
    using forget_split by blast
  have "log = (old @ gone) @ forget window now q" using old(1) gone(1) by simp
  moreover have "\<forall>t \<in> set (old @ gone). t + int window \<le> now"
    using old(2) gone(2) assms(2,3) by fastforce
  moreover have "\<forall>t \<in> set log. t \<le> now" using log(2) assms(2) by force
  ultimately show ?thesis using log(1) unfolding keeps_def by blast
qed

lemma keeps_push:
  assumes "keeps window log q clock"
  shows "keeps window (log @ [clock]) (q @ [clock]) clock"
  using assms unfolding keeps_def by (auto simp: sorted_append)

text \<open>A grant while fewer than \<open>most\<close> are kept leaves the log spaced.\<close>

lemma spaced_push:
  assumes "keeps window log q now" "spaced window most log" "length q < most"
  shows "spaced window most (log @ [now])"
  unfolding spaced_def
proof (intro allI impI)
  fix i assume i: "i + most < length (log @ [now])"
  obtain old where old: "log = old @ q" "\<forall>t \<in> set old. t + int window \<le> now"
    using assms(1) unfolding keeps_def by blast
  show "(log @ [now]) ! i + int window \<le> (log @ [now]) ! (i + most)"
  proof (cases "i + most < length log")
    case True
    then show ?thesis using assms(2) by (simp add: spaced_def nth_append)
  next
    case False
    then have last: "i + most = length log" using i by simp
    then have "i < length old" using old(1) assms(3) by simp
    then have "log ! i + int window \<le> now" using old by (simp add: nth_append)
    moreover have "i < length log" using \<open>i < length old\<close> old(1) by simp
    ultimately show ?thesis using last by (simp add: nth_append)
  qed
qed

text \<open>
  The contract of a limiter over such a queue: what is asked at \<open>now\<close> is granted only while fewer than
  \<open>most\<close> are kept, and a refusal charges nothing.
\<close>

locale rolling =
  fixes window :: duration and most :: nat
    and ask :: "timestamp list \<Rightarrow> timestamp \<Rightarrow> (unit, retry_after) result \<times> timestamp list"
  assumes wide: "0 < window"
    and granted: "ask q now = (Ok u, q') \<Longrightarrow>
      q' = forget window now q @ [now] \<and> length (forget window now q) < most"
    and refused: "ask q now = (Err e, q') \<Longrightarrow> q' = forget window now q"
begin

lemma asked:
  assumes "ask q now = (res, q')" "keeps window log q clock" "spaced window most log" "clock \<le> now"
  shows "keeps window (if is_ok res then log @ [now] else log) q' now"
    "spaced window most (if is_ok res then log @ [now] else log)"
proof -
  note kept = keeps_forget [OF assms(2,4) wide]
  show "keeps window (if is_ok res then log @ [now] else log) q' now"
    "spaced window most (if is_ok res then log @ [now] else log)"
    using assms(1,3) kept keeps_push [OF kept] spaced_push [OF kept assms(3)] granted refused
    by (cases res; fastforce)+
qed

text \<open>What a limiter grants of a sequence of requests.\<close>

fun grants :: "timestamp list \<Rightarrow> timestamp list \<Rightarrow> timestamp list" where
  "grants q [] = []"
| "grants q (t # ts) =
     (case ask q t of (Ok _, q') \<Rightarrow> t # grants q' ts | (Err _, q') \<Rightarrow> grants q' ts)"

lemma grants_spaced:
  "keeps window log q clock \<Longrightarrow> spaced window most log \<Longrightarrow> sorted (clock # ts) \<Longrightarrow>
     spaced window most (log @ grants q ts)"
proof (induction ts arbitrary: log q clock)
  case (Cons t ts)
  obtain res q' where ask: "ask q t = (res, q')" by (cases "ask q t")
  have "clock \<le> t" "sorted (t # ts)" using Cons.prems(3) by simp_all
  with asked [OF ask Cons.prems(1,2)] Cons.IH ask show ?case by (cases res) fastforce+
qed simp

end

section \<open>Codes read aloud\<close>

definition SPOKEN_CODE_SPACING :: duration where "SPOKEN_CODE_SPACING = from_secs 30"
definition SPOKEN_CODES_PER_WINDOW :: nat where "SPOKEN_CODES_PER_WINDOW = 10"
definition SPOKEN_CODE_WINDOW :: duration where "SPOKEN_CODE_WINDOW = from_secs (60 * 60)"

definition spoken_try_acquire ::
  "timestamp list \<Rightarrow> timestamp \<Rightarrow> (unit, retry_after) result \<times> timestamp list" where
  "spoken_try_acquire spoken now =
     (let kept = forget SPOKEN_CODE_WINDOW now spoken;
          spacing = (if kept = [] then 0 else SPOKEN_CODE_SPACING - nat (now - last kept));
          window = (case kept of
                      oldest # _ \<Rightarrow>
                        if SPOKEN_CODES_PER_WINDOW \<le> length kept
                        then SPOKEN_CODE_WINDOW - nat (now - oldest) else 0
                    | [] \<Rightarrow> 0);
          wait = max spacing window
      in if wait \<noteq> 0 then (Err wait, kept) else (Ok (), kept @ [now]))"

interpretation spoken: rolling SPOKEN_CODE_WINDOW SPOKEN_CODES_PER_WINDOW spoken_try_acquire
proof
  show "0 < SPOKEN_CODE_WINDOW" by (simp add: SPOKEN_CODE_WINDOW_def from_secs_def)
  fix q now
  show "q' = forget SPOKEN_CODE_WINDOW now q @ [now] \<and>
      length (forget SPOKEN_CODE_WINDOW now q) < SPOKEN_CODES_PER_WINDOW"
    if "spoken_try_acquire q now = (Ok u, q')" for u q'
    using that forget_front [of SPOKEN_CODE_WINDOW now q]
    by (auto simp: spoken_try_acquire_def Let_def SPOKEN_CODES_PER_WINDOW_def
        split: if_splits list.splits)
  show "q' = forget SPOKEN_CODE_WINDOW now q" if "spoken_try_acquire q now = (Err e, q')" for e q'
    using that by (auto simp: spoken_try_acquire_def Let_def split: if_splits)
qed

text \<open>What the pond reads aloud of the requests it gets, and the spacing of its last code.\<close>

definition codes_read :: "timestamp list \<Rightarrow> timestamp list" where
  "codes_read requests = spoken.grants [] requests"

lemma spoken_spacing:
  assumes "spoken_try_acquire q now = (Ok u, q')" "q \<noteq> []" "last q \<le> now"
  shows "last q + int SPOKEN_CODE_SPACING \<le> now"
proof (cases "forget SPOKEN_CODE_WINDOW now q = []")
  case True
  then have "\<not> nat (now - last q) < SPOKEN_CODE_WINDOW"
    using assms(2) by (simp add: forget_def dropWhile_eq_Nil_conv)
  then show ?thesis
    using assms(3) by (simp add: SPOKEN_CODE_WINDOW_def SPOKEN_CODE_SPACING_def from_secs_def)
next
  case False
  then have "last (forget SPOKEN_CODE_WINDOW now q) = last q"
    using forget_split [of q SPOKEN_CODE_WINDOW now] by (metis last_append)
  with False assms(1,3) show ?thesis
    by (auto simp: spoken_try_acquire_def Let_def split: if_splits)
qed

lemma spoken_last:
  assumes "spoken_try_acquire q now = (Err e, q')"
  shows "q' \<noteq> [] \<and> q \<noteq> [] \<and> last q' = last q"
proof -
  have "q' = forget SPOKEN_CODE_WINDOW now q" by (rule spoken.refused [OF assms])
  moreover have "q' \<noteq> []" using assms by (auto simp: spoken_try_acquire_def Let_def split: if_splits)
  ultimately show ?thesis using forget_split [of q SPOKEN_CODE_WINDOW now] by (metis append_is_Nil_conv last_append)
qed

lemma spoken_grants_apart:
  "q \<noteq> [] \<Longrightarrow> sorted (last q # ts) \<Longrightarrow>
     successively (\<lambda>a b. a + int SPOKEN_CODE_SPACING \<le> b) (last q # spoken.grants q ts)"
proof (induction ts arbitrary: q)
  case (Cons t ts)
  obtain res q' where ask: "spoken_try_acquire q t = (res, q')" by (cases "spoken_try_acquire q t")
  have order: "last q \<le> t" "sorted (t # ts)" "sorted (last q # ts)" using Cons.prems(2) by simp_all
  show ?case
  proof (cases res)
    case (Ok u)
    then have "q' \<noteq> []" "last q' = t" using ask spoken.granted by fastforce+
    with Cons.IH [of q'] order Ok ask spoken_spacing [of q t u q'] Cons.prems(1) show ?thesis
      by (simp add: successively_Cons)
  next
    case (Err e)
    with Cons.IH [of q'] order ask spoken_last [of q t e q'] show ?thesis by simp
  qed
qed simp

text \<open>
  A pairing code is not recited all evening. Of whatever requests come, in their order, two codes
  are read at least thirty seconds apart, and any eleven take an hour or more.
\<close>

theorem spoken_codes_rationed:
  assumes "sorted requests"
  shows "successively (\<lambda>a b. a + int (from_secs 30) \<le> b) (codes_read requests) \<and>
    (\<forall>i. i + 10 < length (codes_read requests) \<longrightarrow>
       codes_read requests ! i + int (from_secs 3600) \<le> codes_read requests ! (i + 10))"
proof
  show "\<forall>i. i + 10 < length (codes_read requests) \<longrightarrow>
       codes_read requests ! i + int (from_secs 3600) \<le> codes_read requests ! (i + 10)"
  proof (cases requests)
    case (Cons t ts)
    then have "spaced SPOKEN_CODE_WINDOW SPOKEN_CODES_PER_WINDOW ([] @ codes_read requests)"
      unfolding codes_read_def
      by (intro spoken.grants_spaced [of "[]" "[]" t]) (use assms in \<open>simp_all add: keeps_new spaced_def\<close>)
    then show ?thesis
      by (simp add: spaced_def SPOKEN_CODE_WINDOW_def SPOKEN_CODES_PER_WINDOW_def)
  qed (simp add: codes_read_def)
  show "successively (\<lambda>a b. a + int (from_secs 30) \<le> b) (codes_read requests)"
  proof (cases requests)
    case (Cons t ts)
    have "spoken_try_acquire [] t = (Ok (), [t])" by (simp add: spoken_try_acquire_def forget_def)
    then show ?thesis
      using spoken_grants_apart [of "[t]" ts] assms Cons
      by (simp add: codes_read_def SPOKEN_CODE_SPACING_def)
  qed (simp add: codes_read_def)
qed

theorem spoken_codes_rationed_witness:
  "codes_read [0, 1, int (from_secs 30)] = [0, int (from_secs 30)] \<and>
   successively (\<lambda>a b. a + int (from_secs 30) \<le> b) (codes_read [0, 1, int (from_secs 30)])"
proof
  show "codes_read [0, 1, int (from_secs 30)] = [0, int (from_secs 30)]"
    by (simp add: codes_read_def spoken_try_acquire_def forget_def SPOKEN_CODE_WINDOW_def
        SPOKEN_CODE_SPACING_def SPOKEN_CODES_PER_WINDOW_def from_secs_def)
  show "successively (\<lambda>a b. a + int (from_secs 30) \<le> b) (codes_read [0, 1, int (from_secs 30)])"
    by (rule spoken_codes_rationed [THEN conjunct1]) (simp add: from_secs_def)
qed

text \<open>The wait a refusal names is enough: asked again then, with no other in between, the code is read.\<close>

lemma spoken_wait_enough:
  assumes "spoken_try_acquire q now = (Err wait, q')" "length q \<le> SPOKEN_CODES_PER_WINDOW"
    "\<forall>t \<in> set q. t \<le> now"
  shows "fst (spoken_try_acquire q' (now + int wait)) = Ok ()"
proof -
  let ?later = "now + int wait" and ?kept = "forget SPOKEN_CODE_WINDOW (now + int wait) q'"
  have q': "q' = forget SPOKEN_CODE_WINDOW now q" by (rule spoken.refused [OF assms(1)])
  obtain gone where gone: "q = gone @ q'" using forget_split [of q SPOKEN_CODE_WINDOW now] q' by blast
  have wait: "wait = max (if q' = [] then 0 else SPOKEN_CODE_SPACING - nat (now - last q'))
      (case q' of oldest # _ \<Rightarrow> if SPOKEN_CODES_PER_WINDOW \<le> length q'
         then SPOKEN_CODE_WINDOW - nat (now - oldest) else 0 | [] \<Rightarrow> 0)"
    using assms(1) unfolding spoken_try_acquire_def Let_def q' by (auto split: if_splits)
  obtain gone' where gone': "q' = gone' @ ?kept" using forget_split by blast
  have spacing: "SPOKEN_CODE_SPACING - nat (?later - last ?kept) = 0" if "?kept \<noteq> []"
  proof -
    have same: "last ?kept = last q'" "q' \<noteq> []" using that gone' by (metis last_append, force)
    then have "last q' \<le> now" using assms(3) gone by simp
    moreover have "SPOKEN_CODE_SPACING - nat (now - last q') \<le> wait" using wait same(2) by simp
    ultimately show ?thesis unfolding same(1) by linarith
  qed
  have window: "SPOKEN_CODE_WINDOW - nat (?later - t) = 0"
    if "?kept = t # ts" "SPOKEN_CODES_PER_WINDOW \<le> length ?kept" for t ts
  proof -
    have "length q' \<le> SPOKEN_CODES_PER_WINDOW" using assms(2) gone by simp
    then have "gone' = []" using gone' that(2) by (metis add_le_same_cancel2 le_trans length_0_conv length_append le_zero_eq)
    then have same: "q' = t # ts" "SPOKEN_CODES_PER_WINDOW \<le> length q'" using gone' that by simp_all
    have "t \<le> now" using assms(3) gone same(1) by simp
    moreover have "SPOKEN_CODE_WINDOW - nat (now - t) \<le> wait" using wait same by simp
    ultimately show ?thesis by linarith
  qed
  show ?thesis
    using spacing window by (cases ?kept) (auto simp: spoken_try_acquire_def Let_def)
qed

section \<open>Runs a phone starts\<close>

definition DEVICE_RESUME_ATTEMPTS :: nat where "DEVICE_RESUME_ATTEMPTS = 5"
definition DEVICE_RESUME_WINDOW :: duration where "DEVICE_RESUME_WINDOW = from_secs (10 * 60)"
definition MAX_TRACKED_DEVICES :: nat where "MAX_TRACKED_DEVICES = 256"

type_synonym device_charges = "(ustr \<times> timestamp list) list"

definition forget_expired :: "timestamp list \<Rightarrow> timestamp \<Rightarrow> timestamp list" where
  "forget_expired charges now = forget DEVICE_RESUME_WINDOW now charges"

text \<open>A device already tracked.\<close>

definition charge_device ::
  "timestamp list \<Rightarrow> timestamp \<Rightarrow> (unit, retry_after) result \<times> timestamp list" where
  "charge_device charges now =
     (let kept = forget_expired charges now in
      if DEVICE_RESUME_ATTEMPTS \<le> length kept
      then (Err (DEVICE_RESUME_WINDOW - nat (now - (case kept of oldest # _ \<Rightarrow> oldest | [] \<Rightarrow> now))), kept)
      else (Ok (), kept @ [now]))"

definition newest_charge :: "timestamp list \<Rightarrow> timestamp option" where
  "newest_charge charges = (if charges = [] then None else Some (last charges))"

definition still_charged :: "device_charges \<Rightarrow> timestamp \<Rightarrow> device_charges" where
  "still_charged m now =
     filter (\<lambda>(_, q). q \<noteq> []) (map (\<lambda>(d, q). (d, forget_expired q now)) m)"

definition stalest :: "device_charges \<Rightarrow> ustr option" where
  "stalest m = map_option fst (min_by_key (\<lambda>(_, q). newest_charge q) m)"

text \<open>The device that makes room, if one must.\<close>

definition evicted :: "device_charges \<Rightarrow> timestamp \<Rightarrow> ustr option" where
  "evicted m now =
     (if length m < MAX_TRACKED_DEVICES \<or> length (still_charged m now) < MAX_TRACKED_DEVICES then None
      else stalest (still_charged m now))"

definition make_room :: "device_charges \<Rightarrow> timestamp \<Rightarrow> device_charges" where
  "make_room m now =
     (if length m < MAX_TRACKED_DEVICES then m
      else if length (still_charged m now) < MAX_TRACKED_DEVICES then still_charged m now
      else (case stalest (still_charged m now) of
              Some d \<Rightarrow> AList.delete d (still_charged m now)
            | None \<Rightarrow> still_charged m now))"

definition device_admit ::
  "device_charges \<Rightarrow> ustr \<Rightarrow> timestamp \<Rightarrow> nat \<Rightarrow> (unit, retry_after) result \<times> device_charges" where
  "device_admit m device now place =
     (case map_of m device of
        Some charges \<Rightarrow>
          (case charge_device charges now of (res, charges') \<Rightarrow> (res, AList.update device charges' m))
      | None \<Rightarrow>
          (let room = make_room m now
           in (Ok (), take place room @ (device, [now]) # drop place room)))"

definition device_success :: "device_charges \<Rightarrow> ustr \<Rightarrow> device_charges" where
  "device_success m device = AList.delete device m"

definition device_charged :: "device_charges \<Rightarrow> ustr \<Rightarrow> timestamp \<Rightarrow> nat" where
  "device_charged m device now =
     (case map_of m device of
        None \<Rightarrow> 0
      | Some charges \<Rightarrow> length (filter (\<lambda>at. nat (now - at) < DEVICE_RESUME_WINDOW) charges))"

interpretation device: rolling DEVICE_RESUME_WINDOW DEVICE_RESUME_ATTEMPTS charge_device
proof
  show "0 < DEVICE_RESUME_WINDOW" by (simp add: DEVICE_RESUME_WINDOW_def from_secs_def)
qed (auto simp: charge_device_def forget_expired_def Let_def split: if_splits)

text \<open>
  The throttle in use: the runs of each device since its last success or eviction. Requests come in
  the order of their clocks.
\<close>

record resume_world =
  rw_map :: device_charges
  rw_clock :: timestamp
  rw_logs :: "ustr \<Rightarrow> timestamp list"

definition logs_after :: "resume_world \<Rightarrow> ustr \<Rightarrow> timestamp \<Rightarrow> ustr \<Rightarrow> timestamp list" where
  "logs_after w device now =
     (case (map_of (rw_map w) device, evicted (rw_map w) now) of
        (None, Some gone) \<Rightarrow> (rw_logs w)(gone := [])
      | _ \<Rightarrow> rw_logs w)"

inductive resume_step :: "resume_world \<Rightarrow> resume_world \<Rightarrow> bool" where
  runs: "rw_clock w \<le> now \<Longrightarrow> device_admit (rw_map w) device now place = (Ok u, m) \<Longrightarrow>
    resume_step w (w\<lparr>rw_map := m, rw_clock := now,
      rw_logs := (logs_after w device now)(device := logs_after w device now device @ [now])\<rparr>)"
| waits: "rw_clock w \<le> now \<Longrightarrow> device_admit (rw_map w) device now place = (Err e, m) \<Longrightarrow>
    resume_step w (w\<lparr>rw_map := m, rw_clock := now\<rparr>)"
| succeeds: "resume_step w (w\<lparr>rw_map := device_success (rw_map w) device,
    rw_logs := (rw_logs w)(device := [])\<rparr>)"

definition queue_of :: "device_charges \<Rightarrow> ustr \<Rightarrow> timestamp list" where
  "queue_of m d = (case map_of m d of None \<Rightarrow> [] | Some q \<Rightarrow> q)"

definition resume_inv :: "resume_world \<Rightarrow> bool" where
  "resume_inv w \<longleftrightarrow>
     distinct (map fst (rw_map w)) \<and> length (rw_map w) \<le> MAX_TRACKED_DEVICES \<and>
     (\<forall>d. keeps DEVICE_RESUME_WINDOW (rw_logs w d) (queue_of (rw_map w) d) (rw_clock w) \<and>
       spaced DEVICE_RESUME_WINDOW DEVICE_RESUME_ATTEMPTS (rw_logs w d))"

lemma keys_still_charged: "set (map fst (still_charged m now)) \<subseteq> set (map fst m)"
  by (auto simp: still_charged_def) (metis fst_conv image_eqI)

lemma distinct_still_charged: "distinct (map fst m) \<Longrightarrow> distinct (map fst (still_charged m now))"
proof (induction m)
  case (Cons p m)
  moreover have "fst p \<notin> set (map fst (still_charged m now))"
    using Cons.prems keys_still_charged [of m now] by auto
  ultimately show ?case by (cases p) (auto simp: still_charged_def)
qed (simp add: still_charged_def)

lemma queue_still_charged:
  "distinct (map fst m) \<Longrightarrow> queue_of (still_charged m now) d = forget_expired (queue_of m d) now"
proof (induction m)
  case Nil
  show ?case by (simp add: still_charged_def queue_of_def forget_expired_def forget_def)
next
  case (Cons p m)
  obtain a q where p: "p = (a, q)" by (cases p)
  have "map_of (still_charged m now) a = None"
    using Cons.prems keys_still_charged [of m now] p by (auto simp: map_of_eq_None_iff)
  with Cons p show ?case by (auto simp: still_charged_def queue_of_def)
qed

lemma length_still_charged: "length (still_charged m now) \<le> length m"
  unfolding still_charged_def using length_filter_le by (metis length_map)

lemma queue_delete: "queue_of (AList.delete d m) x = (if x = d then [] else queue_of m x)"
  by (simp add: queue_of_def delete_conv)

lemma queue_update: "queue_of (AList.update d q m) x = (if x = d then q else queue_of m x)"
  by (simp add: queue_of_def update_conv')

lemma delete_key_length:
  "distinct (map fst m) \<Longrightarrow> d \<in> set (map fst m) \<Longrightarrow> length (AList.delete d m) < length m"
  by (auto simp: AList.delete_eq intro: length_filter_less)

lemma length_update_present: "map_of m d \<noteq> None \<Longrightarrow> length (AList.update d q m) = length m"
  by (induction m) auto

lemma stalest_mem: "stalest m = Some d \<Longrightarrow> d \<in> set (map fst m)"
  by (auto simp: stalest_def dest!: min_by_key_Some) (metis fst_conv image_eqI)

lemma stalest_some: "m \<noteq> [] \<Longrightarrow> stalest m \<noteq> None"
  by (simp add: stalest_def)

text \<open>Making room forgets what expired, and one device when that is not enough.\<close>

lemma make_room_cases:
  assumes "length m \<le> MAX_TRACKED_DEVICES"
  obtains "length m < MAX_TRACKED_DEVICES" "make_room m now = m" "evicted m now = None"
  | "length (still_charged m now) < MAX_TRACKED_DEVICES" "make_room m now = still_charged m now"
    "evicted m now = None"
  | gone where "gone \<in> set (map fst (still_charged m now))"
    "length (still_charged m now) \<le> MAX_TRACKED_DEVICES"
    "make_room m now = AList.delete gone (still_charged m now)" "evicted m now = Some gone"
proof (cases "length m < MAX_TRACKED_DEVICES \<or> length (still_charged m now) < MAX_TRACKED_DEVICES")
  case True
  then show ?thesis
    using that(1,2) by (cases "length m < MAX_TRACKED_DEVICES") (simp_all add: make_room_def evicted_def)
next
  case False
  then have "still_charged m now \<noteq> []" by (auto simp: MAX_TRACKED_DEVICES_def)
  then obtain gone where gone: "stalest (still_charged m now) = Some gone" using stalest_some by blast
  have "length (still_charged m now) \<le> MAX_TRACKED_DEVICES"
    using assms length_still_charged le_trans by blast
  then show ?thesis
    using that(3) [OF stalest_mem [OF gone]] False gone by (simp add: make_room_def evicted_def)
qed

lemma make_room_keys:
  assumes "distinct (map fst m)" "length m \<le> MAX_TRACKED_DEVICES"
  shows "distinct (map fst (make_room m now)) \<and> length (make_room m now) < MAX_TRACKED_DEVICES \<and>
    set (map fst (make_room m now)) \<subseteq> set (map fst m)"
proof (cases rule: make_room_cases [OF assms(2), of now])
  case (3 gone)
  note live = distinct_still_charged [OF assms(1), of now]
  have "set (map fst (AList.delete gone (still_charged m now))) \<subseteq> set (map fst m)"
    using keys_still_charged [of m now] by (auto simp: delete_keys)
  then show ?thesis
    using 3 distinct_delete [OF live] delete_key_length [OF live 3(1)] by simp
qed (use assms distinct_still_charged keys_still_charged [of m now] in simp_all)

lemma make_room_keeps:
  assumes "distinct (map fst m)" "length m \<le> MAX_TRACKED_DEVICES" "clock \<le> now"
    "keeps DEVICE_RESUME_WINDOW (log d) (queue_of m d) clock"
  shows "keeps DEVICE_RESUME_WINDOW ((case evicted m now of Some gone \<Rightarrow> log(gone := []) | None \<Rightarrow> log) d)
    (queue_of (make_room m now) d) now"
proof -
  have live: "keeps DEVICE_RESUME_WINDOW (log d) (queue_of (still_charged m now) d) now"
    using keeps_forget [OF assms(4,3)] device.wide
    by (simp add: queue_still_charged [OF assms(1)] forget_expired_def)
  show ?thesis
  proof (cases rule: make_room_cases [OF assms(2), of now])
    case 1
    then show ?thesis using assms(3,4) by (fastforce simp: keeps_def)
  next
    case (3 gone)
    then show ?thesis using live by (simp add: queue_delete keeps_new)
  qed (use live in simp)
qed

text \<open>Putting an entry in anywhere.\<close>

lemma distinct_inserted:
  "distinct (map fst m) \<Longrightarrow> fst p \<notin> set (map fst m) \<Longrightarrow>
     distinct (map fst (take n m @ p # drop n m)) \<and> length (take n m @ p # drop n m) = Suc (length m)"
proof -
  assume "distinct (map fst m)" "fst p \<notin> set (map fst m)"
  then have "distinct (map fst (take n m @ drop n m))" "fst p \<notin> set (map fst (take n m @ drop n m))"
    by simp_all
  then show ?thesis by (auto simp del: append_take_drop_id)
qed

lemma queue_inserted:
  assumes "device \<notin> set (map fst m)"
  shows "queue_of (take n m @ (device, q) # drop n m) d = (if d = device then q else queue_of m d)"
proof -
  have "map_of m d = map_of (take n m @ drop n m) d" by simp
  moreover have "map_of (take n m) device = None"
    using assms by (auto simp: map_of_eq_None_iff dest: in_set_takeD)
  ultimately show ?thesis
    by (cases "map_of (take n m) d") (auto simp: queue_of_def map_add_def simp del: append_take_drop_id)
qed

lemma charge_keeps:
  assumes "charge_device q now = (res, q')" "clock \<le> now"
    "keeps DEVICE_RESUME_WINDOW log q clock" "spaced DEVICE_RESUME_WINDOW DEVICE_RESUME_ATTEMPTS log"
  shows "keeps DEVICE_RESUME_WINDOW (if is_ok res then log @ [now] else log) q' now \<and>
    spaced DEVICE_RESUME_WINDOW DEVICE_RESUME_ATTEMPTS (if is_ok res then log @ [now] else log)"
  using device.asked [OF assms(1,3,4,2)] by blast

lemma keeps_later: "keeps window log q clock \<Longrightarrow> clock \<le> now \<Longrightarrow> keeps window log q now"
  by (fastforce simp: keeps_def)

lemma spaced_short: "length log \<le> most \<Longrightarrow> spaced window most log"
  by (simp add: spaced_def)

text \<open>One request, seen by each device.\<close>

lemma device_admit_keeps:
  assumes "distinct (map fst m)" "length m \<le> MAX_TRACKED_DEVICES" "clock \<le> now"
    "\<And>d. keeps DEVICE_RESUME_WINDOW (log d) (queue_of m d) clock"
    "\<And>d. spaced DEVICE_RESUME_WINDOW DEVICE_RESUME_ATTEMPTS (log d)"
    "device_admit m device now place = (res, m')"
    "log' = (case (map_of m device, evicted m now) of (None, Some gone) \<Rightarrow> log(gone := []) | _ \<Rightarrow> log)"
  defines "after \<equiv> (if is_ok res then log'(device := log' device @ [now]) else log')"
  shows "distinct (map fst m')" "length m' \<le> MAX_TRACKED_DEVICES"
    "keeps DEVICE_RESUME_WINDOW (after d) (queue_of m' d) now"
    "spaced DEVICE_RESUME_WINDOW DEVICE_RESUME_ATTEMPTS (after d)"
proof -
  have "distinct (map fst m') \<and> length m' \<le> MAX_TRACKED_DEVICES \<and>
    keeps DEVICE_RESUME_WINDOW (after d) (queue_of m' d) now \<and>
    spaced DEVICE_RESUME_WINDOW DEVICE_RESUME_ATTEMPTS (after d)"
  proof (cases "map_of m device")
    case (Some q)
    obtain q' where q': "charge_device q now = (res, q')" "m' = AList.update device q' m"
      using assms(6) Some by (auto simp: device_admit_def split: prod.splits)
    have here: "queue_of m device = q" using Some by (simp add: queue_of_def)
    have "length m' = length m"
      using Some q'(2) by (simp add: length_update_present)
    moreover have "distinct (map fst m')" using assms(1) q'(2) by (simp add: distinct_update)
    moreover have "log' = log" using assms(7) Some by simp
    ultimately show ?thesis
      using charge_keeps [OF q'(1) assms(3) assms(4) [of device, unfolded here] assms(5)] assms(2,5)
        keeps_later [OF assms(4,3)] q'(2)
      by (auto simp: after_def queue_update split: if_splits)
  next
    case None
    note room = make_room_keys [OF assms(1,2), of now]
    have fresh: "device \<notin> set (map fst (make_room m now))"
      using None room by (auto simp: map_of_eq_None_iff)
    have m': "res = Ok ()" "m' = take place (make_room m now) @ (device, [now]) # drop place (make_room m now)"
      using assms(6) None by (simp_all add: device_admit_def Let_def)
    have split: "make_room m now = take place (make_room m now) @ drop place (make_room m now)" by simp
    have log': "log' = (case evicted m now of Some gone \<Rightarrow> log(gone := []) | None \<Rightarrow> log)"
      using assms(7) None by (simp split: option.split)
    have kept: "keeps DEVICE_RESUME_WINDOW (log' x) (queue_of (make_room m now) x) now" for x
      using make_room_keeps [OF assms(1,2,3), of log x] assms(4) [of x] by (simp add: log')
    have sp: "spaced DEVICE_RESUME_WINDOW DEVICE_RESUME_ATTEMPTS (log' x)" for x
      using assms(5) by (simp add: log' spaced_short split: option.split)
    have "queue_of (make_room m now) device = []"
      using fresh map_of_eq_None_iff [of "make_room m now" device] by (simp add: queue_of_def)
    then have new: "keeps DEVICE_RESUME_WINDOW (log' device @ [now]) [now] now"
        "spaced DEVICE_RESUME_WINDOW DEVICE_RESUME_ATTEMPTS (log' device @ [now])"
      using keeps_push [OF kept [of device]] spaced_push [OF kept sp, of device]
      by (simp_all add: DEVICE_RESUME_ATTEMPTS_def)
    have queue: "queue_of m' d = (if d = device then [now] else queue_of (make_room m now) d)"
      using fresh by (simp add: m'(2) queue_inserted)
    have "distinct (map fst m')" "length m' \<le> MAX_TRACKED_DEVICES"
      using distinct_inserted [of "make_room m now" "(device, [now])" place] room fresh
      unfolding m'(2) by (metis fst_conv Suc_leI)+
    then show ?thesis using new kept [of d] sp [of d] queue m'(1) by (simp add: after_def)
  qed
  then show "distinct (map fst m')" "length m' \<le> MAX_TRACKED_DEVICES"
    "keeps DEVICE_RESUME_WINDOW (after d) (queue_of m' d) now"
    "spaced DEVICE_RESUME_WINDOW DEVICE_RESUME_ATTEMPTS (after d)" by simp_all
qed

lemma device_success_keeps:
  assumes "resume_inv w"
  shows "resume_inv (w\<lparr>rw_map := device_success (rw_map w) device, rw_logs := (rw_logs w)(device := [])\<rparr>)"
proof -
  have "length (AList.delete device (rw_map w)) \<le> length (rw_map w)"
    using length_filter_le by (simp add: AList.delete_eq)
  with assms show ?thesis
    by (simp add: resume_inv_def device_success_def queue_delete keeps_new spaced_short distinct_delete)
qed

lemma resume_step_inv:
  assumes "resume_step w w'" "resume_inv w"
  shows "resume_inv w'"
  using assms(1)
proof cases
  case (runs now device place u m)
  have inv: "distinct (map fst (rw_map w))" "length (rw_map w) \<le> MAX_TRACKED_DEVICES"
    "\<And>d. keeps DEVICE_RESUME_WINDOW (rw_logs w d) (queue_of (rw_map w) d) (rw_clock w)"
    "\<And>d. spaced DEVICE_RESUME_WINDOW DEVICE_RESUME_ATTEMPTS (rw_logs w d)"
    using assms(2) by (simp_all add: resume_inv_def)
  note after = device_admit_keeps [OF inv(1,2) runs(2) inv(3,4) runs(3) refl]
  show ?thesis
    using after(1,2) after(3,4) [unfolded is_ok.simps if_True]
    by (simp add: runs(1) resume_inv_def logs_after_def)
next
  case (waits now device place e m)
  have inv: "distinct (map fst (rw_map w))" "length (rw_map w) \<le> MAX_TRACKED_DEVICES"
    "\<And>d. keeps DEVICE_RESUME_WINDOW (rw_logs w d) (queue_of (rw_map w) d) (rw_clock w)"
    "\<And>d. spaced DEVICE_RESUME_WINDOW DEVICE_RESUME_ATTEMPTS (rw_logs w d)"
    using assms(2) by (simp_all add: resume_inv_def)
  note after = device_admit_keeps [OF inv(1,2) waits(2) inv(3,4) waits(3) refl]
  have "map_of (rw_map w) device \<noteq> None"
    using waits(3) by (cases "map_of (rw_map w) device") (simp_all add: device_admit_def Let_def)
  then show ?thesis
    using after(1,2) after(3,4) [unfolded is_ok.simps if_False]
    by (auto simp: waits(1) resume_inv_def)
next
  case (succeeds device)
  then show ?thesis using device_success_keeps [OF assms(2)] by simp
qed

definition resume_started :: "resume_world \<Rightarrow> bool" where
  "resume_started w \<longleftrightarrow> rw_map w = [] \<and> rw_logs w = (\<lambda>_. [])"

text \<open>
  C29: A phone cannot start runs at will, nor can many phones fill the pond's memory. Whatever devices
  ask, succeed and are forgotten in any order, at most 256 are tracked; and of the runs a device
  starts between two successes, unless it was put out to make room, any six take ten minutes or more.
\<close>

theorem device_runs_rationed:
  assumes "resume_step\<^sup>*\<^sup>* w0 w" "resume_started w0"
  shows "length (rw_map w) \<le> 256 \<and>
    (\<forall>device i. i + 5 < length (rw_logs w device) \<longrightarrow>
       rw_logs w device ! i + int (from_secs 600) \<le> rw_logs w device ! (i + 5))"
proof -
  have "resume_inv w0"
    using assms(2) by (simp add: resume_started_def resume_inv_def queue_of_def keeps_new spaced_def)
  with assms(1) have "resume_inv w" by (induction rule: rtranclp_induct) (auto intro: resume_step_inv)
  then show ?thesis
    by (simp add: resume_inv_def spaced_def DEVICE_RESUME_WINDOW_def DEVICE_RESUME_ATTEMPTS_def
        MAX_TRACKED_DEVICES_def)
qed

text \<open>A phone that starts a run.\<close>

definition example_resumes :: resume_world where
  "example_resumes = \<lparr>rw_map = [], rw_clock = 0, rw_logs = (\<lambda>_. [])\<rparr>"

theorem device_runs_rationed_witness:
  "\<exists>w. resume_step\<^sup>*\<^sup>* example_resumes w \<and> rw_logs w (lit ''phone'') = [7] \<and> length (rw_map w) \<le> 256"
proof -
  define w where "w = example_resumes\<lparr>rw_map := [(lit ''phone'', [7])], rw_clock := 7,
    rw_logs := (logs_after example_resumes (lit ''phone'') 7)
      (lit ''phone'' := logs_after example_resumes (lit ''phone'') 7 (lit ''phone'') @ [7])\<rparr>"
  have "resume_step example_resumes w"
    unfolding w_def
    by (rule resume_step.runs [where place = 0])
       (simp_all add: example_resumes_def device_admit_def make_room_def MAX_TRACKED_DEVICES_def)
  then have run: "resume_step\<^sup>*\<^sup>* example_resumes w" by blast
  have "resume_started example_resumes" by (simp add: resume_started_def example_resumes_def)
  note device_runs_rationed [OF run this, THEN conjunct1]
  moreover have "rw_logs w (lit ''phone'') = [7]"
    by (simp add: w_def logs_after_def example_resumes_def evicted_def MAX_TRACKED_DEVICES_def)
  ultimately show ?thesis using run by blast
qed

end
