(* ===== verification/Session_Identity.thy ===== *)
theory Session_Identity
  imports Activation_Book
begin

text \<open>
  Whose conversation this is: the evidence a session row carries (\<open>user_data/domain/session.rs\<close>), the
  conditional writes of \<open>pond-infra/src/sqlite_session_storage.rs\<close> against the contract of
  \<open>user_data/ports/session_storage.rs\<close>, the device a request was proved to come from
  (\<open>security/domain/proven_device.rs\<close>), the resolution of a turn's scope
  (\<open>user_data/services/identity_resolution.rs\<close>), the policy on assertions (\<open>security/ports/policy.rs\<close>) and the
  handlers of \<open>pond-api/src/routes.rs\<close> that write an identity. The sessions table is a map from session
  ids; its foreign key is the list of members. A write that does not reach the disk leaves the table, so
  it is a read or write the caller is told has failed. \<open>identity_step\<close> interleaves the handlers.
\<close>

section \<open>Evidence and its strength\<close>

fun source_as_str :: "identification_source \<Rightarrow> ustr" where
  "source_as_str PairedDevice = lit ''paired_device''"
| "source_as_str Explicit = lit ''explicit''"
| "source_as_str Face = lit ''face''"
| "source_as_str Voice = lit ''voice''"
| "source_as_str UnknownSource = lit ''unknown''"

definition source_parse :: "ustr \<Rightarrow> identification_source" where
  "source_parse raw =
     (if raw = lit ''paired_device'' then PairedDevice
      else if raw = lit ''explicit'' then Explicit
      else if raw = lit ''face'' then Face
      else if raw = lit ''voice'' then Voice
      else UnknownSource)"

definition ALL_RANKED :: "(ustr \<times> nat) list" where
  "ALL_RANKED = [(lit ''paired_device'', 0), (lit ''explicit'', 1), (lit ''face'', 2),
     (lit ''voice'', 3), (lit ''unknown'', 4)]"

fun source_rank :: "identification_source \<Rightarrow> nat" where
  "source_rank PairedDevice = 0"
| "source_rank Explicit = 1"
| "source_rank Face = 2"
| "source_rank Voice = 3"
| "source_rank UnknownSource = 4"

record session_identity =
  si_profile_id :: "ustr option"
  si_source :: identification_source
  si_confidence :: "fp option"

definition identity_unknown :: session_identity where
  "identity_unknown = \<lparr>si_profile_id = None, si_source = UnknownSource, si_confidence = None\<rparr>"

definition supersedes :: "session_identity \<Rightarrow> session_identity \<Rightarrow> bool" where
  "supersedes i existing \<longleftrightarrow> source_rank (si_source i) \<le> source_rank (si_source existing)"

definition readable_by :: "session_identity \<Rightarrow> profile_scope \<Rightarrow> bool" where
  "readable_by i scope =
     (case (si_profile_id i, scope) of
        (_, Household) \<Rightarrow> True
      | (None, _) \<Rightarrow> True
      | (Some owner, Owner caller) \<Rightarrow> owner = caller
      | (Some _, Guest) \<Rightarrow> False)"

lemma source_parse_as_str [simp]: "source_parse (source_as_str s) = s"
  by (cases s) (simp_all add: source_parse_def text_simps)

lemma source_rank_inj [simp]: "source_rank s = source_rank t \<longleftrightarrow> s = t"
  by (cases s; cases t) simp_all

lemma source_rank_le: "source_rank s \<le> 4"
  by (cases s) simp_all

text \<open>A conversation is readable to those who reach its member's rows; nobody's is readable to all.\<close>

lemma readable_by_rows:
  "readable_by i scope \<longleftrightarrow> si_profile_id i = None \<or> si_profile_id i \<in> reached_rows scope"
  by (cases scope; cases "si_profile_id i") (auto simp: readable_by_def)

lemma readable_by_mono: "is_within a b \<Longrightarrow> readable_by i a \<Longrightarrow> readable_by i b"
  by (auto simp: readable_by_rows is_within_iff_reached_rows)

section \<open>The sessions table\<close>

record identity_row =
  ir_profile_id :: "ustr option"
  ir_source :: "ustr option"
  ir_confidence :: "fp option"

type_synonym identity_rows = "ustr \<Rightarrow> identity_row option"

datatype session_storage_error =
  SessionNotFound ustr | MessageNotFound ustr | StorageError | GeneralError

definition fresh_identity_row :: identity_row where
  "fresh_identity_row = \<lparr>ir_profile_id = None, ir_source = None, ir_confidence = None\<rparr>"

definition identity_of_row :: "identity_row \<Rightarrow> session_identity" where
  "identity_of_row r =
     \<lparr>si_profile_id = ir_profile_id r,
      si_source = (case ir_source r of Some s \<Rightarrow> source_parse s | None \<Rightarrow> UnknownSource),
      si_confidence = ir_confidence r\<rparr>"

definition row_of_identity :: "session_identity \<Rightarrow> identity_row" where
  "row_of_identity i =
     \<lparr>ir_profile_id = si_profile_id i, ir_source = Some (source_as_str (si_source i)),
      ir_confidence = si_confidence i\<rparr>"

definition get_session_identity :: "identity_rows \<Rightarrow> ustr \<Rightarrow> session_identity" where
  "get_session_identity t sid =
     (case t sid of None \<Rightarrow> identity_unknown | Some r \<Rightarrow> identity_of_row r)"

text \<open>
  An update of the row, under the condition of its statement. The foreign key refuses a member the
  table of profiles does not have.
\<close>

definition member_known :: "ustr list \<Rightarrow> session_identity \<Rightarrow> bool" where
  "member_known members i \<longleftrightarrow> (case si_profile_id i of None \<Rightarrow> True | Some p \<Rightarrow> p \<in> set members)"

definition update_identity_where ::
  "(identity_row \<Rightarrow> bool) \<Rightarrow> ustr list \<Rightarrow> identity_rows \<Rightarrow> ustr \<Rightarrow> session_identity \<Rightarrow>
     (nat, session_storage_error) result \<times> identity_rows" where
  "update_identity_where cond members t sid i =
     (case t sid of
        None \<Rightarrow> (Ok 0, t)
      | Some r \<Rightarrow>
          if \<not> cond r then (Ok 0, t)
          else if \<not> member_known members i then (Err StorageError, t)
          else (Ok 1, t(sid \<mapsto> row_of_identity i)))"

definition set_session_identity ::
  "ustr list \<Rightarrow> identity_rows \<Rightarrow> ustr \<Rightarrow> session_identity \<Rightarrow>
     (unit, session_storage_error) result \<times> identity_rows" where
  "set_session_identity members t sid i =
     (case update_identity_where (\<lambda>_. True) members t sid i of
        (Err e, t') \<Rightarrow> (Err e, t')
      | (Ok n, t') \<Rightarrow> if n = 0 then (Err (SessionNotFound sid), t') else (Ok (), t'))"

text \<open>The rank of a stored source as the \<open>CASE\<close> of the statements computes it.\<close>

definition stored_rank :: "ustr option \<Rightarrow> nat" where
  "stored_rank src =
     (case map_of ALL_RANKED (case src of None \<Rightarrow> [] | Some s \<Rightarrow> s) of
        Some rank \<Rightarrow> rank
      | None \<Rightarrow> length ALL_RANKED)"

definition not_stronger :: "session_identity \<Rightarrow> identity_row \<Rightarrow> bool" where
  "not_stronger i r \<longleftrightarrow> source_rank (si_source i) \<le> stored_rank (ir_source r)"

definition landed ::
  "ustr \<Rightarrow> (nat, session_storage_error) result \<times> identity_rows \<Rightarrow>
     (bool, session_storage_error) result \<times> identity_rows" where
  "landed sid answer =
     (case answer of
        (Err e, t') \<Rightarrow> (Err e, t')
      | (Ok n, t') \<Rightarrow>
          if n > 0 then (Ok True, t')
          else if t' sid = None then (Err (SessionNotFound sid), t')
          else (Ok False, t'))"

definition sql_set_if_stronger ::
  "ustr list \<Rightarrow> identity_rows \<Rightarrow> ustr \<Rightarrow> session_identity \<Rightarrow>
     (bool, session_storage_error) result \<times> identity_rows" where
  "sql_set_if_stronger members t sid i =
     landed sid (update_identity_where (not_stronger i) members t sid i)"

text \<open>In SQL a comparison with \<open>NULL\<close> holds of nothing.\<close>

definition same_or_nobody :: "session_identity \<Rightarrow> identity_row \<Rightarrow> bool" where
  "same_or_nobody i r \<longleftrightarrow>
     ir_profile_id r = None \<or> (si_profile_id i \<noteq> None \<and> ir_profile_id r = si_profile_id i)"

definition sql_claim ::
  "ustr list \<Rightarrow> identity_rows \<Rightarrow> ustr \<Rightarrow> session_identity \<Rightarrow>
     (bool, session_storage_error) result \<times> identity_rows" where
  "sql_claim members t sid i =
     landed sid
       (update_identity_where (\<lambda>r. same_or_nobody i r \<and> not_stronger i r) members t sid i)"

text \<open>The contract: the port's own two methods, which read and then write.\<close>

definition port_set_if_stronger ::
  "ustr list \<Rightarrow> identity_rows \<Rightarrow> ustr \<Rightarrow> session_identity \<Rightarrow>
     (bool, session_storage_error) result \<times> identity_rows" where
  "port_set_if_stronger members t sid i =
     (let existing = get_session_identity t sid in
      if \<not> supersedes i existing then (Ok False, t)
      else (case set_session_identity members t sid i of
              (Err e, t') \<Rightarrow> (Err e, t')
            | (Ok _, t') \<Rightarrow> (Ok True, t')))"

definition port_claim ::
  "ustr list \<Rightarrow> identity_rows \<Rightarrow> ustr \<Rightarrow> session_identity \<Rightarrow>
     (bool, session_storage_error) result \<times> identity_rows" where
  "port_claim members t sid i =
     (let existing = get_session_identity t sid;
          someone_else = si_profile_id existing \<noteq> None \<and> si_profile_id existing \<noteq> si_profile_id i in
      if someone_else \<or> \<not> supersedes i existing then (Ok False, t)
      else (case set_session_identity members t sid i of
              (Err e, t') \<Rightarrow> (Err e, t')
            | (Ok _, t') \<Rightarrow> (Ok True, t')))"


lemma stored_rank_unknown: "source_rank s \<le> stored_rank None" "source_rank s \<le> 4"
  by (cases s; simp add: stored_rank_def ALL_RANKED_def text_simps)+

lemma stored_rank_as_str [simp]: "stored_rank (Some (source_as_str s)) = source_rank s"
  by (cases s) (simp_all add: stored_rank_def ALL_RANKED_def text_simps)

lemma rank_in_the_row:
  "source_rank s \<le> stored_rank (Some raw) \<longleftrightarrow> source_rank s \<le> source_rank (source_parse raw)"
  by (cases s) (simp_all add: stored_rank_def ALL_RANKED_def source_parse_def text_simps)

lemma not_stronger_supersedes: "not_stronger i r = supersedes i (identity_of_row r)"
  by (cases "ir_source r")
    (simp_all add: not_stronger_def supersedes_def identity_of_row_def stored_rank_unknown
      rank_in_the_row)

lemma identity_of_row_of_identity [simp]: "identity_of_row (row_of_identity i) = i"
  by (simp add: identity_of_row_def row_of_identity_def)

lemma supersedes_unknown [simp]: "supersedes i identity_unknown"
  by (simp add: supersedes_def identity_unknown_def stored_rank_unknown)

lemma same_or_nobody_claim:
  "same_or_nobody i r \<longleftrightarrow>
     \<not> (si_profile_id (identity_of_row r) \<noteq> None \<and>
        si_profile_id (identity_of_row r) \<noteq> si_profile_id i)"
  by (cases "si_profile_id i") (auto simp: same_or_nobody_def identity_of_row_def)

text \<open>What a landed write did.\<close>

lemma landed_update_True:
  "landed sid (update_identity_where c members t sid i) = (Ok True, t') \<longleftrightarrow>
     (\<exists>r. t sid = Some r \<and> c r \<and> member_known members i \<and> t' = t(sid \<mapsto> row_of_identity i))"
  by (auto simp: landed_def update_identity_where_def split: option.splits if_splits)

lemma landed_update_other:
  "landed sid (update_identity_where c members t sid i) = (res, t') \<Longrightarrow> res \<noteq> Ok True \<Longrightarrow> t' = t"
  by (auto simp: landed_def update_identity_where_def split: option.splits if_splits)

text \<open>
  C20: The SQL statements keep the port's contract. The adapter decides in one conditional update, with
  the ranks spelled in a \<open>CASE\<close>, so that no second writer can slip in between; the port's own methods
  read, compare by \<open>supersedes\<close> and write. Both give the same answer, the same error and the same table
  for every session, row and identity, also for a row with no source, a source nobody recognises, a
  session that does not exist and a member that does not.
\<close>

theorem sql_identity_refines_port:
  "sql_set_if_stronger members t sid i = port_set_if_stronger members t sid i \<and>
   sql_claim members t sid i = port_claim members t sid i"
proof (cases "t sid")
  case None
  then show ?thesis
    by (simp add: sql_set_if_stronger_def port_set_if_stronger_def sql_claim_def port_claim_def
        landed_def update_identity_where_def set_session_identity_def get_session_identity_def
        identity_unknown_def supersedes_def stored_rank_unknown)
next
  case (Some r)
  then show ?thesis
    by (simp add: sql_set_if_stronger_def port_set_if_stronger_def sql_claim_def port_claim_def
        landed_def update_identity_where_def set_session_identity_def get_session_identity_def
        not_stronger_supersedes same_or_nobody_claim)
qed

section \<open>Who is speaking\<close>

text \<open>\<open>Result\<close>s of reads whose error is only logged are options.\<close>

datatype device_rung = Member ustr | NoDevice | Unattributed | Unavailable ustr

fun rung_from_attribution :: "(ustr option, ustr) result \<Rightarrow> device_rung" where
  "rung_from_attribution (Ok (Some p)) = (if trim p \<noteq> [] then Member p else Unattributed)"
| "rung_from_attribution (Ok None) = Unattributed"
| "rung_from_attribution (Err e) = Unavailable e"

definition proven_rung :: "ustr option \<Rightarrow> (ustr option, ustr) result \<Rightarrow> device_rung" where
  "proven_rung device attribution =
     (case device of None \<Rightarrow> NoDevice | Some _ \<Rightarrow> rung_from_attribution attribution)"

fun rung_profile_id :: "device_rung \<Rightarrow> ustr option" where
  "rung_profile_id (Member i) = Some i"
| "rung_profile_id _ = None"

record resolution_inputs =
  ri_paired_device_profile :: "ustr option"
  ri_session :: session_identity
  ri_multiple_members :: bool

record resolved_identity =
  rs_scope :: profile_scope
  rs_source :: identification_source

definition resolve_identity :: "resolution_inputs \<Rightarrow> resolved_identity" where
  "resolve_identity inputs =
     (let nobody = \<lparr>rs_scope = (if ri_multiple_members inputs then Guest else Household),
                    rs_source = UnknownSource\<rparr> in
      case ri_paired_device_profile inputs of
        Some profile \<Rightarrow> \<lparr>rs_scope = Owner profile, rs_source = PairedDevice\<rparr>
      | None \<Rightarrow>
          (case si_profile_id (ri_session inputs) of
             Some profile \<Rightarrow>
               (if si_source (ri_session inputs) = UnknownSource then nobody
                else \<lparr>rs_scope = Owner profile, rs_source = si_source (ri_session inputs)\<rparr>)
           | None \<Rightarrow> nobody))"

text \<open>A count of members that could not be read is \<open>None\<close>, and counts as several.\<close>

definition several :: "nat option \<Rightarrow> bool" where
  "several members = (case members of Some n \<Rightarrow> n > 1 | None \<Rightarrow> True)"

definition scope_without_evidence :: "nat option \<Rightarrow> profile_scope" where
  "scope_without_evidence members =
     rs_scope (resolve_identity
       \<lparr>ri_paired_device_profile = None, ri_session = identity_unknown,
        ri_multiple_members = several members\<rparr>)"

text \<open>
  The two halves of \<open>resolve_turn_identity\<close>, between which other requests may fall: the claim a
  device's turn makes, and the resolution from what is then read. \<open>claim_written\<close> is whether the disk
  took the claim; the identity and the count are \<open>None\<close> where the read failed.
\<close>

definition turn_claim ::
  "bool \<Rightarrow> ustr list \<Rightarrow> identity_rows \<Rightarrow> ustr \<Rightarrow> device_rung \<Rightarrow> identity_rows" where
  "turn_claim claim_written members t sid rung =
     (case rung of
        Member p \<Rightarrow>
          (if claim_written
           then snd (sql_claim members t sid
                  \<lparr>si_profile_id = Some p, si_source = PairedDevice, si_confidence = None\<rparr>)
           else t)
      | _ \<Rightarrow> t)"

definition turn_resolve ::
  "device_rung \<Rightarrow> session_identity option \<Rightarrow> nat option \<Rightarrow> resolved_identity" where
  "turn_resolve rung identity members =
     resolve_identity
       \<lparr>ri_paired_device_profile = rung_profile_id rung,
        ri_session = (case identity of Some i \<Rightarrow> i | None \<Rightarrow> identity_unknown),
        ri_multiple_members = several members\<rparr>"

definition resolve_turn_identity ::
  "bool \<Rightarrow> ustr list \<Rightarrow> identity_rows \<Rightarrow> ustr \<Rightarrow> device_rung \<Rightarrow> bool \<Rightarrow> nat option \<Rightarrow>
     resolved_identity \<times> identity_rows" where
  "resolve_turn_identity claim_written members t sid rung identity_read household =
     (let t' = turn_claim claim_written members t sid rung in
      (turn_resolve rung (if identity_read then Some (get_session_identity t' sid) else None) household,
       t'))"

lemma several_simps [simp]: "several None" "several (Some n) = (n > 1)"
  by (simp_all add: several_def)

lemma resolve_owner:
  "rs_scope (turn_resolve rung identity household) = Owner p \<longleftrightarrow>
     rung = Member p \<or>
     rung_profile_id rung = None \<and>
       (\<exists>i. identity = Some i \<and> si_profile_id i = Some p \<and> si_source i \<noteq> UnknownSource)"
  by (cases rung; cases identity)
    (auto simp: turn_resolve_def resolve_identity_def identity_unknown_def Let_def
      split: option.splits)

lemma scope_without_evidence_eq:
  "scope_without_evidence household = (if several household then Guest else Household)"
  by (simp add: scope_without_evidence_def resolve_identity_def identity_unknown_def Let_def)

text \<open>
  Doubt narrows. On a pond of several members a turn whose session could not be read, or whose
  household could not be counted, reaches no row it would not have reached with everything read,
  whatever device it came on: the worst a failed read does is to make its speaker a guest.
\<close>

theorem doubt_narrows:
  assumes "several household" and "identity = None \<or> identity = Some i" and "counted \<in> {None, household}"
  shows "rs_scope (turn_resolve rung identity counted) \<le> rs_scope (turn_resolve rung (Some i) household)"
  using assms
  by (cases rung)
    (auto simp: turn_resolve_def resolve_identity_def identity_unknown_def less_eq_profile_scope_def
      Let_def split: option.splits)

theorem doubt_narrows_witness:
  "rs_scope (turn_resolve NoDevice None None) \<le>
   rs_scope (turn_resolve NoDevice
     (Some \<lparr>si_profile_id = Some (lit ''liz''), si_source = Explicit, si_confidence = None\<rparr>) (Some 2)) \<and>
   rs_scope (turn_resolve NoDevice None None) = Guest"
  using doubt_narrows [where household = "Some 2" and identity = None and counted = None and
      rung = NoDevice and
      i = "\<lparr>si_profile_id = Some (lit ''liz''), si_source = Explicit, si_confidence = None\<rparr>"]
  by (simp add: turn_resolve_def resolve_identity_def identity_unknown_def)

text \<open>
  C40: A failed read of the device may make a turn another member's. On a member's own phone a turn is
  that member's. When the pond cannot read whose phone it is, the turn falls through to the session it
  names, and if that session is another member's, the turn reaches that member's rows, which the member
  holding the phone may not. The code says of the resolution that every failure narrows.
\<close>

theorem failed_device_read_is_not_narrower:
  assumes "trim p \<noteq> []" and "p \<noteq> q" and "s \<noteq> UnknownSource"
    and "t sid = Some (row_of_identity \<lparr>si_profile_id = Some q, si_source = s, si_confidence = c\<rparr>)"
  shows "rs_scope (fst (resolve_turn_identity True members t sid
           (proven_rung (Some device) (Ok (Some p))) True household)) = Owner p \<and>
         rs_scope (fst (resolve_turn_identity True members t sid
           (proven_rung (Some device) (Err e)) True household)) = Owner q \<and>
         \<not> Owner q \<le> Owner p"
  using assms
  by (simp add: resolve_turn_identity_def turn_claim_def turn_resolve_def proven_rung_def
      resolve_identity_def get_session_identity_def less_eq_profile_scope_def)

theorem failed_device_read_is_not_narrower_witness:
  "rs_scope (fst (resolve_turn_identity True [lit ''liz'', lit ''jerry'']
     [lit ''chat'' \<mapsto> row_of_identity
        \<lparr>si_profile_id = Some (lit ''jerry''), si_source = Explicit, si_confidence = None\<rparr>]
     (lit ''chat'') (proven_rung (Some (lit ''phone'')) (Err (lit ''disk''))) True (Some 2)))
   = Owner (lit ''jerry'')"
  using failed_device_read_is_not_narrower [where p = "lit ''liz''" and q = "lit ''jerry''"
      and members = "[lit ''liz'', lit ''jerry'']" and s = Explicit and sid = "lit ''chat''" and c = None
      and t = "[lit ''chat'' \<mapsto> row_of_identity
        \<lparr>si_profile_id = Some (lit ''jerry''), si_source = Explicit, si_confidence = None\<rparr>]"
      and device = "lit ''phone''" and e = "lit ''disk''" and household = "Some 2"]
  by (simp add: text_simps)


section \<open>The policy on assertions\<close>

datatype principal_kind = Loopback | Token ustr | InternalCaller

record principal =
  pr_kind :: principal_kind
  pr_remote_addr :: "ustr option"
  pr_proven_profile_id :: "ustr option"
  pr_device_id :: "ustr option"

definition principal_loopback :: principal where
  "principal_loopback =
     \<lparr>pr_kind = Loopback, pr_remote_addr = None, pr_proven_profile_id = None, pr_device_id = None\<rparr>"

definition principal_internal :: principal where
  "principal_internal =
     \<lparr>pr_kind = InternalCaller, pr_remote_addr = None, pr_proven_profile_id = None, pr_device_id = None\<rparr>"

definition principal_token :: "ustr \<Rightarrow> principal" where
  "principal_token client_id =
     \<lparr>pr_kind = Token client_id, pr_remote_addr = None, pr_proven_profile_id = None,
      pr_device_id = None\<rparr>"

datatype policy_mode = PolicyOff | Audit | Enforce

definition policy_mode_parse :: "ustr \<Rightarrow> policy_mode" where
  "policy_mode_parse raw =
     (let m = to_ascii_lowercase (trim raw) in
      if m = lit ''off'' then PolicyOff
      else if m = lit ''enforce'' then Enforce
      else Audit)"

definition denies_bite :: "policy_mode \<Rightarrow> bool" where
  "denies_bite m \<longleftrightarrow> m = Enforce"

fun policy_mode_as_str :: "policy_mode \<Rightarrow> ustr" where
  "policy_mode_as_str PolicyOff = lit ''off''"
| "policy_mode_as_str Audit = lit ''audit''"
| "policy_mode_as_str Enforce = lit ''enforce''"

datatype policy_reason =
    UnprovenIdentity | UnresolvedActor | ForeignDraft | UnownedDraft | GuestDraftDecision
  | VoiceDraftDecision

record policy_decision =
  pd_allowed :: bool
  pd_denied_reason :: "policy_reason option"
  pd_mode :: policy_mode

definition decision_permit :: "policy_mode \<Rightarrow> policy_decision" where
  "decision_permit mode = \<lparr>pd_allowed = True, pd_denied_reason = None, pd_mode = mode\<rparr>"

definition decision_refuse :: "policy_mode \<Rightarrow> policy_reason \<Rightarrow> policy_decision" where
  "decision_refuse mode reason =
     \<lparr>pd_allowed = (\<not> denies_bite mode), pd_denied_reason = Some reason, pd_mode = mode\<rparr>"

definition would_deny :: "policy_decision \<Rightarrow> bool" where
  "would_deny d \<longleftrightarrow> pd_denied_reason d \<noteq> None \<and> pd_allowed d"

definition verdict :: "policy_decision \<Rightarrow> ustr" where
  "verdict d =
     (case (pd_denied_reason d \<noteq> None, pd_allowed d) of
        (False, _) \<Rightarrow> lit ''allow''
      | (True, True) \<Rightarrow> lit ''would_deny''
      | (True, False) \<Rightarrow> lit ''deny'')"

definition is_identity_assertion_proven :: "principal \<Rightarrow> ustr \<Rightarrow> bool" where
  "is_identity_assertion_proven pr asserted =
     (case pr_proven_profile_id pr of
        Some proven \<Rightarrow> proven = asserted
      | None \<Rightarrow> pr_kind pr = Loopback)"

lemma policy_mode_round_trip [simp]: "policy_mode_parse (policy_mode_as_str m) = m"
  by (cases m) (simp_all add: policy_mode_parse_def text_simps)

lemma verdict_deny_blocks: "verdict d = lit ''deny'' \<longleftrightarrow> pd_denied_reason d \<noteq> None \<and> \<not> pd_allowed d"
  by (cases "pd_denied_reason d"; cases "pd_allowed d") (simp_all add: verdict_def text_simps)

lemma refusal_bites_only_enforced: "pd_allowed (decision_refuse m r) \<longleftrightarrow> m \<noteq> Enforce"
  by (simp add: decision_refuse_def denies_bite_def)

text \<open>The decision of \<open>evaluate_identity_assertion\<close>; the tally and the audit entry it leaves are output.\<close>

definition evaluate_identity_assertion ::
  "policy_mode \<Rightarrow> principal option \<Rightarrow> ustr \<Rightarrow> policy_decision" where
  "evaluate_identity_assertion mode caller asserted =
     (if mode = PolicyOff then decision_permit mode
      else
        (let pr = (case caller of Some pr \<Rightarrow> pr | None \<Rightarrow> principal_internal) in
         if is_identity_assertion_proven pr asserted then decision_permit mode
         else decision_refuse mode UnprovenIdentity))"

section \<open>The handlers that write an identity\<close>

datatype identity_reply = Bound bool | BadRequest | Forbidden | MissingSession | ServerError

fun identity_write_error :: "session_storage_error \<Rightarrow> identity_reply" where
  "identity_write_error (SessionNotFound _) = MissingSession"
| "identity_write_error _ = ServerError"

definition replied ::
  "(bool, session_storage_error) result \<times> identity_rows \<Rightarrow> identity_reply \<times> identity_rows" where
  "replied answer =
     (case answer of
        (Ok b, t') \<Rightarrow> (Bound b, t')
      | (Err e, t') \<Rightarrow> (identity_write_error e, t'))"

text \<open>A mode that could not be read is \<open>None\<close>.\<close>

definition set_session_user ::
  "policy_mode option \<Rightarrow> ustr list \<Rightarrow> identity_rows \<Rightarrow> ustr \<Rightarrow> principal option \<Rightarrow> ustr \<Rightarrow>
     identity_reply \<times> identity_rows" where
  "set_session_user mode members t sid caller profile_id =
     (if trim profile_id = [] then (BadRequest, t)
      else
        (case mode of
           None \<Rightarrow> (ServerError, t)
         | Some m \<Rightarrow>
             if \<not> pd_allowed (evaluate_identity_assertion m caller profile_id) then (Forbidden, t)
             else replied (sql_set_if_stronger members t sid
                    \<lparr>si_profile_id = Some profile_id, si_source = Explicit, si_confidence = None\<rparr>)))"

record face_result =
  fr_identified :: bool
  fr_profile_id :: "ustr option"
  fr_confidence :: "fp option"

definition identify_session_user ::
  "ustr list \<Rightarrow> identity_rows \<Rightarrow> ustr \<Rightarrow> face_result \<Rightarrow> identity_reply \<times> identity_rows" where
  "identify_session_user members t sid result =
     (case (fr_identified result, fr_profile_id result) of
        (True, Some pid) \<Rightarrow>
          replied (sql_set_if_stronger members t sid
            \<lparr>si_profile_id = Some pid, si_source = Face, si_confidence = fr_confidence result\<rparr>)
      | _ \<Rightarrow> (Bound False, t))"

definition clear_session_user ::
  "ustr list \<Rightarrow> identity_rows \<Rightarrow> ustr \<Rightarrow> identity_reply \<times> identity_rows" where
  "clear_session_user members t sid =
     (case set_session_identity members t sid identity_unknown of
        (Ok _, t') \<Rightarrow> (Bound (si_profile_id (get_session_identity t sid) \<noteq> None), t')
      | (Err e, t') \<Rightarrow> (identity_write_error e, t'))"

text \<open>The turn of a voice the pond knows (\<open>ChatService::turn_speaker\<close>); a failed mark is only logged.\<close>

definition turn_speaker_mark :: "ustr list \<Rightarrow> identity_rows \<Rightarrow> ustr \<Rightarrow> ustr \<Rightarrow> identity_rows" where
  "turn_speaker_mark members t sid profile_id =
     snd (sql_set_if_stronger members t sid
       \<lparr>si_profile_id = Some profile_id, si_source = Voice, si_confidence = None\<rparr>)"

text \<open>The trigger of migration \<open>0037\<close>.\<close>

definition release_sessions_of :: "identity_rows \<Rightarrow> ustr \<Rightarrow> identity_rows" where
  "release_sessions_of t p =
     (\<lambda>sid. map_option (\<lambda>r. if ir_profile_id r = Some p then fresh_identity_row else r) (t sid))"


section \<open>Every attribution rests on evidence\<close>

text \<open>
  What was shown of whom, newest first: the device a turn came on, the assertion the policy let through,
  the face or the voice that matched, and what ends them. A request is one step, and the two halves of
  a turn are two, since others may fall between them.
\<close>

datatype identity_evidence =
    ByDevice ustr ustr
  | ByAssertion policy_mode "principal option" ustr ustr
  | ByFace ustr ustr
  | ByVoice ustr ustr
  | Released ustr
  | MemberGone ustr

fun backs :: "identity_evidence \<Rightarrow> identification_source \<Rightarrow> ustr \<Rightarrow> ustr \<Rightarrow> bool" where
  "backs (ByDevice s m) src sid p \<longleftrightarrow> src = PairedDevice \<and> s = sid \<and> m = p"
| "backs (ByAssertion mode caller s m) src sid p \<longleftrightarrow> src = Explicit \<and> s = sid \<and> m = p \<and>
     (mode = Enforce \<longrightarrow> (case caller of None \<Rightarrow> False | Some pr \<Rightarrow> is_identity_assertion_proven pr p))"
| "backs (ByFace s m) src sid p \<longleftrightarrow> src = Face \<and> s = sid \<and> m = p"
| "backs (ByVoice s m) src sid p \<longleftrightarrow> src = Voice \<and> s = sid \<and> m = p"
| "backs _ _ _ _ = False"

fun stands :: "identity_evidence list \<Rightarrow> identification_source \<Rightarrow> ustr \<Rightarrow> ustr \<Rightarrow> bool" where
  "stands [] src sid p = False"
| "stands (e # es) src sid p \<longleftrightarrow>
     backs e src sid p \<or> (e \<noteq> Released sid \<and> e \<noteq> MemberGone p \<and> stands es src sid p)"

record identity_world =
  iw_members :: "ustr list"
  iw_sessions :: identity_rows
  iw_evidence :: "identity_evidence list"

inductive identity_step :: "identity_world \<Rightarrow> identity_world \<Rightarrow> bool" where
  opens: "iw_sessions w sid = None \<Longrightarrow>
    identity_step w (w\<lparr>iw_sessions := (iw_sessions w)(sid \<mapsto> fresh_identity_row)\<rparr>)"
| deletes: "identity_step w (w\<lparr>iw_sessions := (iw_sessions w)(sid := None)\<rparr>)"
| turns_on_device: "proven_rung device attribution = Member p \<Longrightarrow>
    identity_step w
      (w\<lparr>iw_sessions := turn_claim written (iw_members w) (iw_sessions w) sid (Member p),
         iw_evidence := ByDevice sid p # iw_evidence w\<rparr>)"
| asserts: "set_session_user (Some mode) (iw_members w) (iw_sessions w) sid caller p = (reply, t) \<Longrightarrow>
    identity_step w
      (w\<lparr>iw_sessions := t,
         iw_evidence := (if reply = Forbidden then iw_evidence w
                         else ByAssertion mode caller sid p # iw_evidence w)\<rparr>)"
| shows_face: "fr_identified result \<Longrightarrow> fr_profile_id result = Some p \<Longrightarrow>
    identify_session_user (iw_members w) (iw_sessions w) sid result = (reply, t) \<Longrightarrow>
    identity_step w (w\<lparr>iw_sessions := t, iw_evidence := ByFace sid p # iw_evidence w\<rparr>)"
| shows_nobody: "\<not> (fr_identified result \<and> fr_profile_id result \<noteq> None) \<Longrightarrow>
    identify_session_user (iw_members w) (iw_sessions w) sid result = (reply, t) \<Longrightarrow>
    identity_step w (w\<lparr>iw_sessions := t\<rparr>)"
| speaks: "identity_step w
      (w\<lparr>iw_sessions := turn_speaker_mark (iw_members w) (iw_sessions w) sid p,
         iw_evidence := ByVoice sid p # iw_evidence w\<rparr>)"
| clears: "clear_session_user (iw_members w) (iw_sessions w) sid = (reply, t) \<Longrightarrow>
    identity_step w (w\<lparr>iw_sessions := t, iw_evidence := Released sid # iw_evidence w\<rparr>)"
| joins: "identity_step w (w\<lparr>iw_members := p # iw_members w\<rparr>)"
| leaves: "identity_step w
      (w\<lparr>iw_members := filter (\<lambda>m. m \<noteq> p) (iw_members w),
         iw_sessions := release_sessions_of (iw_sessions w) p,
         iw_evidence := MemberGone p # iw_evidence w\<rparr>)"

text \<open>What a row says, it says of a member, on evidence that stands.\<close>

definition row_backed :: "identity_world \<Rightarrow> ustr \<Rightarrow> identity_row \<Rightarrow> bool" where
  "row_backed w sid r \<longleftrightarrow>
     (\<forall>p. ir_profile_id r = Some p \<longrightarrow>
        p \<in> set (iw_members w) \<and>
        (\<exists>src. ir_source r = Some (source_as_str src) \<and> stands (iw_evidence w) src sid p))"

definition identity_inv :: "identity_world \<Rightarrow> bool" where
  "identity_inv w \<longleftrightarrow> (\<forall>sid r. iw_sessions w sid = Some r \<longrightarrow> row_backed w sid r)"

lemma row_backed_fresh [simp]: "row_backed w sid fresh_identity_row"
  by (simp add: row_backed_def fresh_identity_row_def)

lemma source_as_str_inj [simp]: "source_as_str s = source_as_str t \<longleftrightarrow> s = t"
  using source_parse_as_str [of s] source_parse_as_str [of t] by metis

lemma row_backed_of_identity:
  "row_backed w sid (row_of_identity i) \<longleftrightarrow>
     (\<forall>p. si_profile_id i = Some p \<longrightarrow>
        p \<in> set (iw_members w) \<and> stands (iw_evidence w) (si_source i) sid p)"
  by (auto simp: row_backed_def row_of_identity_def)

fun ends :: "identity_evidence \<Rightarrow> bool" where
  "ends (Released _) = True"
| "ends (MemberGone _) = True"
| "ends _ = False"

lemma stands_more: "\<not> ends e \<Longrightarrow> stands es src sid p \<Longrightarrow> stands (e # es) src sid p"
  by (cases e) simp_all

lemma row_backed_more_evidence:
  "row_backed w sid r \<Longrightarrow> \<not> ends e \<Longrightarrow>
   row_backed (w\<lparr>iw_sessions := t, iw_evidence := e # iw_evidence w\<rparr>) sid r"
  unfolding row_backed_def using stands_more [where e = e and es = "iw_evidence w"] by fastforce

lemma row_backed_evidence_only [simp]:
  "row_backed (w\<lparr>iw_sessions := t\<rparr>) sid r \<longleftrightarrow> row_backed w sid r"
  by (simp add: row_backed_def)

text \<open>One write keeps the invariant when what it writes is backed by what was just shown.\<close>

lemma landed_write_kept:
  assumes inv: "identity_inv w" and e: "\<not> ends e"
    and shown: "\<And>p. si_profile_id i = Some p \<Longrightarrow> backs e (si_source i) sid p"
    and t': "landed sid (update_identity_where c (iw_members w) (iw_sessions w) sid i) = (res, t')"
  shows "identity_inv (w\<lparr>iw_sessions := t', iw_evidence := e # iw_evidence w\<rparr>)"
proof -
  let ?v = "w\<lparr>iw_sessions := t', iw_evidence := e # iw_evidence w\<rparr>"
  have old: "row_backed ?v s r" if "iw_sessions w s = Some r" for s r
    using inv e that by (intro row_backed_more_evidence) (auto simp: identity_inv_def)
  show ?thesis
  proof (cases "res = Ok True")
    case False
    then have "t' = iw_sessions w" using t' landed_update_other by blast
    then show ?thesis using old by (simp add: identity_inv_def)
  next
    case True
    with t' have new: "member_known (iw_members w) i"
        "t' = (iw_sessions w)(sid \<mapsto> row_of_identity i)"
      by (auto simp: landed_update_True)
    then have "row_backed ?v sid (row_of_identity i)"
      using shown by (auto simp: row_backed_of_identity member_known_def)
    with new(2) old show ?thesis unfolding identity_inv_def by simp
  qed
qed

lemma strengthen_kept:
  assumes "identity_inv w" and "\<not> ends e"
    and "\<And>p. si_profile_id i = Some p \<Longrightarrow> backs e (si_source i) sid p"
    and "sql_set_if_stronger (iw_members w) (iw_sessions w) sid i = (res, t')"
  shows "identity_inv (w\<lparr>iw_sessions := t', iw_evidence := e # iw_evidence w\<rparr>)"
  using assms(1-3) assms(4) [unfolded sql_set_if_stronger_def] by (rule landed_write_kept)

lemma claim_kept:
  assumes "identity_inv w" and "\<not> ends e"
    and "\<And>p. si_profile_id i = Some p \<Longrightarrow> backs e (si_source i) sid p"
    and "sql_claim (iw_members w) (iw_sessions w) sid i = (res, t')"
  shows "identity_inv (w\<lparr>iw_sessions := t', iw_evidence := e # iw_evidence w\<rparr>)"
  using assms(1-3) assms(4) [unfolded sql_claim_def] by (rule landed_write_kept)

lemma table_kept:
  assumes "identity_inv w" and "\<not> ends e"
  shows "identity_inv (w\<lparr>iw_evidence := e # iw_evidence w\<rparr>)"
  using assms row_backed_more_evidence [where w = w and e = e and t = "iw_sessions w"]
  by (simp add: identity_inv_def)


lemma set_session_user_kept:
  assumes "identity_inv w"
    and "set_session_user (Some mode) (iw_members w) (iw_sessions w) sid caller p = (reply, t)"
  shows "identity_inv (w\<lparr>iw_sessions := t,
           iw_evidence := (if reply = Forbidden then iw_evidence w
                           else ByAssertion mode caller sid p # iw_evidence w)\<rparr>)"
proof (cases "trim p = [] \<or> \<not> pd_allowed (evaluate_identity_assertion mode caller p)")
  case True
  with assms(2) have "t = iw_sessions w" by (auto simp: set_session_user_def split: if_splits)
  with assms(1) show ?thesis using table_kept [where w = w and e = "ByAssertion mode caller sid p"]
    by (simp add: identity_inv_def)
next
  case False
  let ?i = "\<lparr>si_profile_id = Some p, si_source = Explicit, si_confidence = None\<rparr>"
  obtain res t' where wr: "sql_set_if_stronger (iw_members w) (iw_sessions w) sid ?i = (res, t')"
    by fastforce
  with False assms(2) have t: "t = t'" and reply: "reply \<noteq> Forbidden"
    by (auto simp: set_session_user_def replied_def split: result.splits elim: identity_write_error.elims)
  have "mode = Enforce \<Longrightarrow>
      (case caller of None \<Rightarrow> False | Some pr \<Rightarrow> is_identity_assertion_proven pr p)"
    using False
    by (auto simp: evaluate_identity_assertion_def refusal_bites_only_enforced Let_def
        is_identity_assertion_proven_def principal_internal_def split: option.splits if_splits)
  then have "backs (ByAssertion mode caller sid p) Explicit sid p" by simp
  then have "identity_inv (w\<lparr>iw_sessions := t',
      iw_evidence := ByAssertion mode caller sid p # iw_evidence w\<rparr>)"
    using assms(1) wr by (intro strengthen_kept [where i = ?i and sid = sid and res = res]) auto
  with t reply show ?thesis by simp
qed

lemma row_backed_released:
  "row_backed w s r \<Longrightarrow> s \<noteq> sid \<Longrightarrow> row_backed (w\<lparr>iw_evidence := Released sid # iw_evidence w\<rparr>) s r"
  by (auto simp: row_backed_def)

lemma row_backed_sessions [simp]:
  "row_backed (w\<lparr>iw_sessions := t, iw_evidence := es\<rparr>) s r = row_backed (w\<lparr>iw_evidence := es\<rparr>) s r"
  by (simp add: row_backed_def)

lemma clear_session_user_kept:
  assumes "identity_inv w"
    and "clear_session_user (iw_members w) (iw_sessions w) sid = (reply, t)"
  shows "identity_inv (w\<lparr>iw_sessions := t, iw_evidence := Released sid # iw_evidence w\<rparr>)"
proof -
  have "t = (case iw_sessions w sid of None \<Rightarrow> iw_sessions w
           | Some _ \<Rightarrow> (iw_sessions w)(sid \<mapsto> row_of_identity identity_unknown))"
    using assms(2)
    by (auto simp: clear_session_user_def set_session_identity_def update_identity_where_def
        member_known_def identity_unknown_def split: option.splits)
  with assms(1) show ?thesis
    by (cases "iw_sessions w sid")
      (auto simp: identity_inv_def row_backed_of_identity identity_unknown_def
        intro!: row_backed_released)
qed

lemma release_sessions_kept:
  assumes "identity_inv w"
  shows "identity_inv (w\<lparr>iw_members := filter (\<lambda>m. m \<noteq> p) (iw_members w),
           iw_sessions := release_sessions_of (iw_sessions w) p,
           iw_evidence := MemberGone p # iw_evidence w\<rparr>)"
  using assms
  by (fastforce simp: identity_inv_def row_backed_def release_sessions_of_def fresh_identity_row_def)

lemma identity_step_inv: "identity_step w v \<Longrightarrow> identity_inv w \<Longrightarrow> identity_inv v"
proof (induction rule: identity_step.induct)
  case (turns_on_device device attribution p w sid written)
  show ?case
  proof (cases written)
    case True
    let ?i = "\<lparr>si_profile_id = Some p, si_source = PairedDevice, si_confidence = None\<rparr>"
    obtain res t' where wr: "sql_claim (iw_members w) (iw_sessions w) sid ?i = (res, t')" by fastforce
    have "identity_inv (w\<lparr>iw_sessions := t', iw_evidence := ByDevice sid p # iw_evidence w\<rparr>)"
      using turns_on_device.prems wr
      by (intro claim_kept [where i = ?i and sid = sid and res = res]) auto
    with wr True show ?thesis by (simp add: turn_claim_def)
  next
    case False
    with turns_on_device show ?thesis
      using table_kept [where w = w and e = "ByDevice sid p"]
      by (simp add: turn_claim_def identity_inv_def)
  qed
next
  case (shows_face result p w sid reply t)
  let ?i = "\<lparr>si_profile_id = Some p, si_source = Face, si_confidence = fr_confidence result\<rparr>"
  obtain res t' where wr: "sql_set_if_stronger (iw_members w) (iw_sessions w) sid ?i = (res, t')"
    by fastforce
  with shows_face have "t = t'"
    by (auto simp: identify_session_user_def replied_def split: result.splits)
  with wr shows_face.prems show ?case
    by (intro strengthen_kept [where i = ?i and sid = sid and res = res]) auto
next
  case (shows_nobody result w sid reply t)
  then have "t = iw_sessions w"
    by (auto simp: identify_session_user_def split: bool.splits option.splits)
  with shows_nobody.prems show ?case by (simp add: identity_inv_def)
next
  case (speaks w sid p)
  let ?i = "\<lparr>si_profile_id = Some p, si_source = Voice, si_confidence = None\<rparr>"
  obtain res t' where wr: "sql_set_if_stronger (iw_members w) (iw_sessions w) sid ?i = (res, t')"
    by fastforce
  have "identity_inv (w\<lparr>iw_sessions := t', iw_evidence := ByVoice sid p # iw_evidence w\<rparr>)"
    using speaks.prems wr by (intro strengthen_kept [where i = ?i and sid = sid and res = res]) auto
  with wr show ?case by (simp add: turn_speaker_mark_def)
next
  case (asserts mode w sid caller p reply t)
  then show ?case using set_session_user_kept by blast
next
  case (clears w sid reply t)
  then show ?case using clear_session_user_kept by blast
next
  case (leaves w p)
  then show ?case by (rule release_sessions_kept)
next
  case (joins w p)
  then show ?case by (auto simp: identity_inv_def row_backed_def)
qed (auto simp: identity_inv_def)

definition identity_started :: "identity_world \<Rightarrow> bool" where
  "identity_started w \<longleftrightarrow> (\<forall>sid. iw_sessions w sid = None) \<and> iw_evidence w = []"

lemma identity_reachable_inv:
  assumes "identity_step\<^sup>*\<^sup>* w0 w" and "identity_started w0"
  shows "identity_inv w"
  using assms(1)
proof (induction rule: rtranclp_induct)
  case base
  then show ?case using assms(2) by (simp add: identity_started_def identity_inv_def)
next
  case (step v w)
  then show ?case using identity_step_inv by blast
qed



text \<open>A phone paired to a member, whose turn opens the conversation.\<close>

definition example_identity_world :: identity_world where
  "example_identity_world =
     \<lparr>iw_members = [lit ''liz''], iw_sessions = (\<lambda>_. None), iw_evidence = []\<rparr>"


section \<open>The strongest evidence\<close>

text \<open>
  The writes of one session that reach an existing row, in the order they arrive: a list of identities,
  each written if it is not weaker than what is there.
\<close>

definition strengthen_all ::
  "ustr list \<Rightarrow> identity_rows \<Rightarrow> ustr \<Rightarrow> session_identity list \<Rightarrow> identity_rows" where
  "strengthen_all members t sid offers = foldl (\<lambda>t i. snd (sql_set_if_stronger members t sid i)) t offers"

lemma strengthen_one:
  assumes "t sid = Some r" and "member_known members i"
  shows "snd (sql_set_if_stronger members t sid i) sid =
     Some (if supersedes i (identity_of_row r) then row_of_identity i else r)"
  using assms by (simp add: sql_set_if_stronger_def landed_def update_identity_where_def
      not_stronger_supersedes)

lemma strengthen_all_row:
  assumes "t sid = Some r" and "\<forall>i \<in> set offers. member_known members i"
  shows "\<exists>r'. strengthen_all members t sid offers sid = Some r' \<and>
     (r' = r \<and> (\<forall>i \<in> set offers. \<not> supersedes i (identity_of_row r)) \<or>
      (\<exists>before i later. offers = before @ i # later \<and> r' = row_of_identity i \<and>
         supersedes i (identity_of_row r) \<and> (\<forall>j \<in> set before. supersedes i j) \<and>
         (\<forall>j \<in> set later. \<not> supersedes j i)))"
  using assms
proof (induction offers rule: rev_induct)
  case Nil
  then show ?case by (simp add: strengthen_all_def)
next
  case (snoc k offers)
  let ?t = "strengthen_all members t sid offers"
  from snoc obtain r' where r': "?t sid = Some r'" and
    hist: "r' = r \<and> (\<forall>i \<in> set offers. \<not> supersedes i (identity_of_row r)) \<or>
      (\<exists>before i later. offers = before @ i # later \<and> r' = row_of_identity i \<and>
         supersedes i (identity_of_row r) \<and> (\<forall>j \<in> set before. supersedes i j) \<and>
         (\<forall>j \<in> set later. \<not> supersedes j i))" by auto
  from snoc.prems r' have now: "strengthen_all members t sid (offers @ [k]) sid =
      Some (if supersedes k (identity_of_row r') then row_of_identity k else r')"
    by (simp add: strengthen_all_def strengthen_one)
  show ?case
  proof (cases "supersedes k (identity_of_row r')")
    case True
    with hist have "supersedes k (identity_of_row r) \<and> (\<forall>j \<in> set offers. supersedes k j)"
      by (fastforce simp: supersedes_def)
    with True now show ?thesis by fastforce
  next
    case False
    from hist show ?thesis
    proof
      assume "r' = r \<and> (\<forall>i \<in> set offers. \<not> supersedes i (identity_of_row r))"
      with False now show ?thesis by auto
    next
      assume "\<exists>before i later. offers = before @ i # later \<and> r' = row_of_identity i \<and>
         supersedes i (identity_of_row r) \<and> (\<forall>j \<in> set before. supersedes i j) \<and>
         (\<forall>j \<in> set later. \<not> supersedes j i)"
      then obtain before i later where h: "offers = before @ i # later" "r' = row_of_identity i"
        "supersedes i (identity_of_row r)" "\<forall>j \<in> set before. supersedes i j"
        "\<forall>j \<in> set later. \<not> supersedes j i" by blast
      with False have "offers @ [k] = before @ i # (later @ [k]) \<and> (\<forall>j \<in> set (later @ [k]). \<not> supersedes j i)"
        by auto
      with h now False show ?thesis by fastforce
    qed
  qed
qed



end
