(* ===== verification/Sensor_Rule.thy ===== *)
theory Sensor_Rule
  imports Activation_Book Runner_Text
begin

text \<open>
  What a schedule does and when a sensor rule fires: the kinds of \<open>user_data/domain/schedule.rs\<close> with the
  rules of sensors, cameras and devices, their validation and matching, the view of a bus event that a
  rule sees (\<open>shared/ports/event_bus.rs\<close>), and the engine that fires them
  (\<open>pond-infra-scheduler/src/rules_engine.rs\<close>). A wall-clock time counts the nanoseconds of the day.
  Outside the repository and therefore arguments: \<open>chrono\<close>'s reading of a clock text (\<open>parse_hm\<close>),
  \<open>serde_json\<close>'s reading of a text (\<open>json_parse\<close>) and of a number (\<open>f64_number\<close>); and \<open>f64_minus\<close> is the
  rounding subtraction of floats.
\<close>

section \<open>Rules\<close>

datatype trigger_source_kind = SourceSensor | SourceCamera | SourceDevice

record trigger_source =
  ts_kind :: trigger_source_kind
  ts_device_id :: "ustr option"
  ts_signal :: "ustr option"

datatype compare_op = Gt | Gte | Lt | Lte | EqTo

record trigger_condition =
  tc_op :: "compare_op option"
  tc_value :: "fp option"
  tc_after :: "ustr option"
  tc_before :: "ustr option"

datatype trigger_action =
    PromptAction ustr
  | DevicePower ustr bool
  | NotifyAction ustr ustr

record sensor_trigger_spec =
  st_source :: trigger_source
  st_condition :: trigger_condition
  st_actions :: "trigger_action list"
  st_cooldown_secs :: nat

definition default_cooldown_secs :: nat where
  "default_cooldown_secs = 60"

datatype task_kind =
    AgentPrompt ustr
  | Webhook ustr
  | SensorTrigger sensor_trigger_spec
  | Routine "trigger_action list"

definition is_event_triggered :: "task_kind \<Rightarrow> bool" where
  "is_event_triggered k \<longleftrightarrow> (case k of SensorTrigger _ \<Rightarrow> True | _ \<Rightarrow> False)"

fun routine_part :: "trigger_action \<Rightarrow> ustr" where
  "routine_part (DevicePower device_id on) = device_id @ lit (if on then '' on'' else '' off'')"
| "routine_part (NotifyAction title _) = lit ''notify \"'' @ title @ lit ''\"''"
| "routine_part (PromptAction _) = lit ''ask the assistant''"

definition routine_summary :: "trigger_action list \<Rightarrow> ustr" where
  "routine_summary actions = join_with (lit '', '') (map routine_part actions)"

datatype routine_refusal = RoutineEmpty | RoutineAsksAssistant

definition routine_rejection :: "trigger_action list \<Rightarrow> routine_refusal option" where
  "routine_rejection actions =
     (if actions = [] then Some RoutineEmpty
      else if list_ex (\<lambda>a. case a of PromptAction _ \<Rightarrow> True | _ \<Rightarrow> False) actions
      then Some RoutineAsksAssistant else None)"

record trigger_event_view =
  tv_kind :: trigger_source_kind
  tv_device_id :: ustr
  tv_signal :: ustr
  tv_value :: "fp option"
  tv_metadata :: "ustr option"

text \<open>An integer of 64 bits as a float may be rounded; \<open>f64_of_int\<close> is that conversion.\<close>

fun trigger_view :: "(int \<Rightarrow> fp) \<Rightarrow> bus_event \<Rightarrow> trigger_event_view option" where
  "trigger_view f64_of_int (BusSensor r) = Some
     \<lparr>tv_kind = SourceSensor, tv_device_id = read_device_id r, tv_signal = read_sensor_type r,
      tv_value = Some (read_value r), tv_metadata = None\<rparr>"
| "trigger_view f64_of_int (BusCamera c) = Some
     \<lparr>tv_kind = SourceCamera, tv_device_id = cam_camera_id c, tv_signal = cam_event_type c,
      tv_value = cam_confidence c, tv_metadata = cam_metadata c\<rparr>"
| "trigger_view f64_of_int (BusDevice d) = Some
     \<lparr>tv_kind = SourceDevice, tv_device_id = dev_device_id d, tv_signal = dev_key d,
      tv_value = (case dev_value d of
                    DevBool b \<Rightarrow> Some (if b then Fp 1 0 else Fp 0 0)
                  | DevInt i \<Rightarrow> Some (f64_of_int i)
                  | DevFloat f \<Rightarrow> Some f
                  | DevText _ \<Rightarrow> None),
      tv_metadata = None\<rparr>"
| "trigger_view f64_of_int BusTime = None"
| "trigger_view f64_of_int (BusPresence _) = None"
| "trigger_view f64_of_int BusSession = None"

section \<open>Validation\<close>

datatype rule_rejection =
    NoActions
  | MalformedTimeBound ustr ustr
  | HalfCondition
  | EmptyFilter ustr
  | EmptyAction nat ustr

fun empty_action :: "trigger_action \<Rightarrow> ustr option" where
  "empty_action (PromptAction prompt) =
     (if trim prompt = [] then Some (lit ''an agent action needs a prompt'') else None)"
| "empty_action (DevicePower device_id _) =
     (if trim device_id = [] then Some (lit ''a device action needs a device_id'') else None)"
| "empty_action (NotifyAction title body) =
     (if trim title = [] \<and> trim body = []
      then Some (lit ''a notification needs a title or a body'') else None)"

fun first_empty_action :: "nat \<Rightarrow> trigger_action list \<Rightarrow> rule_rejection option" where
  "first_empty_action index [] = None"
| "first_empty_action index (a # actions) =
     (case empty_action a of
        Some reason \<Rightarrow> Some (EmptyAction index reason)
      | None \<Rightarrow> first_empty_action (Suc index) actions)"

definition bad_bound :: "(ustr \<Rightarrow> nat option) \<Rightarrow> ustr \<Rightarrow> ustr option \<Rightarrow> rule_rejection option" where
  "bad_bound parse_hm field bound =
     (case bound of
        Some v \<Rightarrow> if parse_hm v = None then Some (MalformedTimeBound field v) else None
      | None \<Rightarrow> None)"

definition validate_rule ::
  "(ustr \<Rightarrow> nat option) \<Rightarrow> sensor_trigger_spec \<Rightarrow> (unit, rule_rejection) result" where
  "validate_rule parse_hm s =
     (let source = st_source s; condition = st_condition s in
      if st_actions s = [] then Err NoActions
      else if ts_device_id source = Some [] then Err (EmptyFilter (lit ''device_id''))
      else if ts_signal source = Some [] then Err (EmptyFilter (lit ''signal''))
      else if (tc_op condition \<noteq> None) \<noteq> (tc_value condition \<noteq> None) then Err HalfCondition
      else (case bad_bound parse_hm (lit ''after'') (tc_after condition) of
              Some e \<Rightarrow> Err e
            | None \<Rightarrow>
                (case bad_bound parse_hm (lit ''before'') (tc_before condition) of
                   Some e \<Rightarrow> Err e
                 | None \<Rightarrow>
                     (case first_empty_action 0 (st_actions s) of
                        Some e \<Rightarrow> Err e
                      | None \<Rightarrow> Ok ()))))"

definition validate_kind ::
  "(ustr \<Rightarrow> nat option) \<Rightarrow> task_kind \<Rightarrow> (unit, rule_rejection + routine_refusal) result" where
  "validate_kind parse_hm kind =
     (case kind of
        SensorTrigger s \<Rightarrow> (case validate_rule parse_hm s of Ok u \<Rightarrow> Ok u | Err e \<Rightarrow> Err (Inl e))
      | Routine actions \<Rightarrow> (case routine_rejection actions of Some why \<Rightarrow> Err (Inr why) | None \<Rightarrow> Ok ())
      | _ \<Rightarrow> Ok ())"

section \<open>Matching\<close>

definition in_time_window ::
  "(ustr \<Rightarrow> nat option) \<Rightarrow> ustr option \<Rightarrow> ustr option \<Rightarrow> nat \<Rightarrow> bool" where
  "in_time_window parse_hm after before t =
     (case (after, before) of
        (None, None) \<Rightarrow> True
      | (Some a, None) \<Rightarrow> (case parse_hm a of Some a' \<Rightarrow> a' \<le> t | None \<Rightarrow> False)
      | (None, Some b) \<Rightarrow> (case parse_hm b of Some b' \<Rightarrow> t < b' | None \<Rightarrow> False)
      | (Some a, Some b) \<Rightarrow>
          (case (parse_hm a, parse_hm b) of
             (Some a', Some b') \<Rightarrow> if a' \<le> b' then a' \<le> t \<and> t < b' else a' \<le> t \<or> t < b'
           | _ \<Rightarrow> False))"

fun fp_abs :: "fp \<Rightarrow> fp" where
  "fp_abs (Fp m e) = Fp \<bar>m\<bar> e"
| "fp_abs NegInf = PosInf"
| "fp_abs f = f"

definition F64_EPSILON :: fp where "F64_EPSILON = Fp 1 52"

fun compares :: "(fp \<Rightarrow> fp \<Rightarrow> fp) \<Rightarrow> compare_op \<Rightarrow> fp \<Rightarrow> fp \<Rightarrow> bool" where
  "compares f64_minus Gt v threshold = fp_less threshold v"
| "compares f64_minus Gte v threshold = fp_le threshold v"
| "compares f64_minus Lt v threshold = fp_less v threshold"
| "compares f64_minus Lte v threshold = fp_le v threshold"
| "compares f64_minus EqTo v threshold = fp_less (fp_abs (f64_minus v threshold)) F64_EPSILON"

definition identified_profile :: "json \<Rightarrow> ustr option" where
  "identified_profile meta = Option.bind (json_get meta (lit ''identified_profile'')) json_as_str"

definition flagged :: "json \<Rightarrow> ustr \<Rightarrow> bool" where
  "flagged meta key =
     (case Option.bind (json_get meta key) json_as_bool of Some b \<Rightarrow> b | None \<Rightarrow> False)"

fun json_as_float :: "(ustr \<Rightarrow> fp) \<Rightarrow> json \<Rightarrow> fp option" where
  "json_as_float f64_number (JNumber n) = Some (f64_number n)"
| "json_as_float f64_number _ = None"

text \<open>Whether a camera's metadata carries the signal, and the value to compare from then on.\<close>

definition face_signal :: "ustr \<Rightarrow> json \<Rightarrow> bool" where
  "face_signal signal meta =
     (let named = (case identified_profile meta of Some s \<Rightarrow> s \<noteq> [] | None \<Rightarrow> False) in
      if signal = lit ''face'' \<or> signal = lit ''face_detected'' then flagged meta (lit ''face_detected'') \<or> named
      else if signal = lit ''face_recognized'' then named
      else if signal = lit ''face_unknown'' then flagged meta (lit ''face_unknown'')
      else if prefix (lit ''face:'') signal
      then (let target = drop 5 signal in
            target \<noteq> [] \<and>
            (case identified_profile meta of Some p \<Rightarrow> eq_ignore_ascii_case p target | None \<Rightarrow> False))
      else False)"

definition match_camera_face_signal ::
  "(ustr \<Rightarrow> json option) \<Rightarrow> (ustr \<Rightarrow> fp) \<Rightarrow> ustr \<Rightarrow> ustr option \<Rightarrow> fp option \<Rightarrow> bool \<times> fp option" where
  "match_camera_face_signal json_parse f64_number signal metadata effective =
     (case Option.bind metadata json_parse of
        None \<Rightarrow> (False, effective)
      | Some meta \<Rightarrow>
          if \<not> face_signal signal meta then (False, effective)
          else (case Option.bind (json_get meta (lit ''face_confidence'')) (json_as_float f64_number) of
                  Some conf \<Rightarrow> (True, Some conf)
                | None \<Rightarrow> (True, effective)))"

text \<open>The value the condition compares, if the event comes from the rule's source.\<close>

definition source_value ::
  "(ustr \<Rightarrow> json option) \<Rightarrow> (ustr \<Rightarrow> fp) \<Rightarrow> trigger_source \<Rightarrow> trigger_event_view \<Rightarrow> fp option option" where
  "source_value json_parse f64_number source event =
     (if ts_kind source \<noteq> tv_kind event then None
      else if (case ts_device_id source of Some d \<Rightarrow> d \<noteq> tv_device_id event | None \<Rightarrow> False) then None
      else (case ts_signal source of
              None \<Rightarrow> Some (tv_value event)
            | Some s \<Rightarrow>
                if s = tv_signal event then Some (tv_value event)
                else if tv_kind event \<noteq> SourceCamera then None
                else (case match_camera_face_signal json_parse f64_number s (tv_metadata event)
                             (tv_value event) of
                        (True, v) \<Rightarrow> Some v
                      | (False, _) \<Rightarrow> None)))"

definition rule_matches ::
  "(ustr \<Rightarrow> nat option) \<Rightarrow> (ustr \<Rightarrow> json option) \<Rightarrow> (ustr \<Rightarrow> fp) \<Rightarrow> (fp \<Rightarrow> fp \<Rightarrow> fp) \<Rightarrow>
     sensor_trigger_spec \<Rightarrow> trigger_event_view \<Rightarrow> nat \<Rightarrow> bool" where
  "rule_matches parse_hm json_parse f64_number f64_minus s event local_time =
     (let condition = st_condition s in
      case source_value json_parse f64_number (st_source s) event of
        None \<Rightarrow> False
      | Some effective \<Rightarrow>
          (case (tc_op condition, tc_value condition) of
             (Some op, Some threshold) \<Rightarrow>
               (case effective of Some v \<Rightarrow> compares f64_minus op v threshold | None \<Rightarrow> False)
           | _ \<Rightarrow> True) \<and>
          in_time_window parse_hm (tc_after condition) (tc_before condition) local_time)"


section \<open>The engine\<close>

text \<open>A missed run is kept by the instant it was due at.\<close>

record schedule =
  sc_id :: ustr
  sc_label :: ustr
  sc_cron :: ustr
  sc_fire_at :: "timestamp option"
  sc_timezone :: ustr
  sc_kind :: task_kind
  sc_paused :: bool
  sc_currently_running :: bool
  sc_last_run :: "timestamp option"
  sc_next_run :: "timestamp option"
  sc_created_at :: timestamp
  sc_ask_if_missed :: bool
  sc_missed_run :: "timestamp option"

definition is_one_shot :: "schedule \<Rightarrow> bool" where
  "is_one_shot s \<longleftrightarrow> sc_fire_at s \<noteq> None"

definition clamp_cooldown_secs :: "nat \<Rightarrow> int" where
  "clamp_cooldown_secs secs = int (min secs ((2 ^ 63 - 1) div 1000))"

definition cooldown_of :: "sensor_trigger_spec \<Rightarrow> int" where
  "cooldown_of s = clamp_cooldown_secs (st_cooldown_secs s) * 10 ^ 9"

fun later :: "timestamp option \<Rightarrow> timestamp option \<Rightarrow> timestamp option" where
  "later (Some a) (Some b) = Some (max a b)"
| "later None b = b"
| "later a None = a"

type_synonym cooldowns = "ustr \<Rightarrow> timestamp option"

definition debounced :: "cooldowns \<Rightarrow> timestamp \<Rightarrow> schedule \<Rightarrow> sensor_trigger_spec \<Rightarrow> bool" where
  "debounced stamps now rule s \<longleftrightarrow>
     (case later (stamps (sc_id rule)) (sc_last_run rule) of
        Some prev \<Rightarrow> now - prev < cooldown_of s
      | None \<Rightarrow> False)"

text \<open>The rules that fire, each with the moment it fires at.\<close>

fun fire_matching ::
  "(sensor_trigger_spec \<Rightarrow> bool) \<Rightarrow> timestamp \<Rightarrow> schedule list \<Rightarrow> cooldowns \<Rightarrow>
     (schedule \<times> timestamp) list \<times> cooldowns" where
  "fire_matching matches now [] stamps = ([], stamps)"
| "fire_matching matches now (rule # rules) stamps =
     (case sc_kind rule of
        SensorTrigger s \<Rightarrow>
          (if sc_paused rule \<or> \<not> matches s \<or> debounced stamps now rule s
           then fire_matching matches now rules stamps
           else
             (case fire_matching matches now rules (stamps(sc_id rule \<mapsto> now)) of
                (fired, stamps') \<Rightarrow> ((rule, now) # fired, stamps')))
      | _ \<Rightarrow> fire_matching matches now rules stamps)"

definition rules_to_fire ::
  "(trigger_event_view \<Rightarrow> nat \<Rightarrow> sensor_trigger_spec \<Rightarrow> bool) \<Rightarrow> (int \<Rightarrow> fp) \<Rightarrow> schedule list \<Rightarrow> bus_event \<Rightarrow>
     nat \<Rightarrow> timestamp \<Rightarrow> cooldowns \<Rightarrow> (schedule \<times> timestamp) list \<times> cooldowns" where
  "rules_to_fire matches f64_of_int rules event local_time now stamps =
     (case trigger_view f64_of_int event of
        None \<Rightarrow> ([], stamps)
      | Some view \<Rightarrow> fire_matching (matches view local_time) now rules stamps)"

definition RULES_CACHE_TTL :: nat where "RULES_CACHE_TTL = 5 * 10 ^ 9"

record rules_engine =
  re_cooldowns :: cooldowns
  re_cache :: "(timestamp \<times> schedule list) option"

definition engine_new :: rules_engine where
  "engine_new = \<lparr>re_cooldowns = (\<lambda>_. None), re_cache = None\<rparr>"

text \<open>
  One event of the bus: the monotonic instant, the wall clock, the local time of day, and what the
  scheduler lists if it is asked (\<open>None\<close> when the listing fails).
\<close>

record bus_arrival =
  ba_event :: bus_event
  ba_at :: timestamp
  ba_now :: timestamp
  ba_local_time :: nat
  ba_listing :: "schedule list option"

definition refresh_rules :: "rules_engine \<Rightarrow> bus_arrival \<Rightarrow> rules_engine" where
  "refresh_rules e a =
     (let stale = (case re_cache e of
                     Some (at, _) \<Rightarrow> nat (ba_at a - at) \<ge> RULES_CACHE_TTL
                   | None \<Rightarrow> True) in
      if stale then
        (case ba_listing a of
           Some tasks \<Rightarrow> e\<lparr>re_cache := Some (ba_at a, tasks)\<rparr>
         | None \<Rightarrow> e)
      else e)"

definition engine_on_event ::
  "(trigger_event_view \<Rightarrow> nat \<Rightarrow> sensor_trigger_spec \<Rightarrow> bool) \<Rightarrow> (int \<Rightarrow> fp) \<Rightarrow> rules_engine \<Rightarrow> bus_arrival \<Rightarrow>
     (schedule \<times> timestamp) list \<times> rules_engine" where
  "engine_on_event matches f64_of_int e a =
     (let e' = refresh_rules e a in
      case re_cache e' of
        None \<Rightarrow> ([], e')
      | Some (_, rules) \<Rightarrow>
          (case rules_to_fire matches f64_of_int rules (ba_event a) (ba_local_time a) (ba_now a)
                  (re_cooldowns e') of
             (fired, stamps) \<Rightarrow> (fired, e'\<lparr>re_cooldowns := stamps\<rparr>)))"

fun run_rules_engine ::
  "(trigger_event_view \<Rightarrow> nat \<Rightarrow> sensor_trigger_spec \<Rightarrow> bool) \<Rightarrow> (int \<Rightarrow> fp) \<Rightarrow> rules_engine \<Rightarrow> bus_arrival list \<Rightarrow>
     (schedule \<times> timestamp) list" where
  "run_rules_engine matches f64_of_int e [] = []"
| "run_rules_engine matches f64_of_int e (a # as) =
     (case engine_on_event matches f64_of_int e a of
        (fired, e') \<Rightarrow> fired @ run_rules_engine matches f64_of_int e' as)"

section \<open>Cooldowns hold\<close>

fun rule_spec :: "schedule \<Rightarrow> sensor_trigger_spec option" where
  "rule_spec r = (case sc_kind r of SensorTrigger s \<Rightarrow> Some s | _ \<Rightarrow> None)"

definition rule_cooldown :: "schedule \<Rightarrow> int" where
  "rule_cooldown r = (case rule_spec r of Some s \<Rightarrow> cooldown_of s | None \<Rightarrow> 0)"

definition apart :: "schedule \<times> timestamp \<Rightarrow> schedule \<times> timestamp \<Rightarrow> bool" where
  "apart f g \<longleftrightarrow> (sc_id (fst f) = sc_id (fst g) \<longrightarrow> snd f + rule_cooldown (fst g) \<le> snd g)"

text \<open>A firing that respects the stamps the engine holds, and the rule's last recorded run.\<close>

definition fires_after :: "cooldowns \<Rightarrow> schedule \<times> timestamp \<Rightarrow> bool" where
  "fires_after stamps f \<longleftrightarrow>
     (\<forall>prev. stamps (sc_id (fst f)) = Some prev \<longrightarrow> prev + rule_cooldown (fst f) \<le> snd f)"

definition fires_rightly :: "schedule \<times> timestamp \<Rightarrow> bool" where
  "fires_rightly f \<longleftrightarrow> \<not> sc_paused (fst f) \<and> rule_spec (fst f) \<noteq> None \<and>
     (\<forall>prev. sc_last_run (fst f) = Some prev \<longrightarrow> prev + rule_cooldown (fst f) \<le> snd f)"

definition stamps_grow :: "cooldowns \<Rightarrow> cooldowns \<Rightarrow> bool" where
  "stamps_grow stamps stamps' \<longleftrightarrow>
     (\<forall>i s. stamps i = Some s \<longrightarrow> (\<exists>s'. stamps' i = Some s' \<and> s \<le> s'))"

definition stamped :: "cooldowns \<Rightarrow> (schedule \<times> timestamp) list \<Rightarrow> bool" where
  "stamped stamps fired \<longleftrightarrow> (\<forall>f \<in> set fired. \<exists>s. stamps (sc_id (fst f)) = Some s \<and> snd f \<le> s)"

lemma cooldown_of_nonneg: "0 \<le> cooldown_of s"
  by (simp add: cooldown_of_def clamp_cooldown_secs_def)

lemma rule_cooldown_nonneg [simp]: "0 \<le> rule_cooldown r"
  by (simp add: rule_cooldown_def cooldown_of_nonneg split: option.splits)

lemma not_debounced:
  assumes "\<not> debounced stamps now rule s" and "sc_kind rule = SensorTrigger s"
  shows "fires_after stamps (rule, now)"
    and "\<forall>prev. sc_last_run rule = Some prev \<longrightarrow> prev + rule_cooldown rule \<le> now"
  using assms
  by (cases "stamps (sc_id rule)"; cases "sc_last_run rule";
      simp add: debounced_def fires_after_def rule_cooldown_def)+

lemma stamped_Nil [simp]: "stamped m []"
  by (simp add: stamped_def)

lemma stamped_Cons [simp]:
  "stamped m (f # fired) \<longleftrightarrow> (\<exists>s. m (sc_id (fst f)) = Some s \<and> snd f \<le> s) \<and> stamped m fired"
  by (simp add: stamped_def)

lemma stamps_grow_refl [simp]: "stamps_grow m m"
  by (simp add: stamps_grow_def)

lemma stamps_grow_trans: "stamps_grow a b \<Longrightarrow> stamps_grow b c \<Longrightarrow> stamps_grow a c"
  unfolding stamps_grow_def by (meson order_trans)

lemma stamps_grow_stamped: "stamped a fired \<Longrightarrow> stamps_grow a b \<Longrightarrow> stamped b fired"
  unfolding stamped_def stamps_grow_def by (meson order_trans)

lemma fires_after_grown: "fires_after b f \<Longrightarrow> stamps_grow a b \<Longrightarrow> fires_after a f"
  unfolding fires_after_def stamps_grow_def by fastforce

lemma stamps_grow_update:
  assumes "fires_after stamps (rule, now)"
  shows "stamps_grow stamps (stamps(sc_id rule \<mapsto> now))"
proof -
  have "s \<le> now" if "stamps (sc_id rule) = Some s" for s
  proof -
    have "s + rule_cooldown rule \<le> now" using assms that by (simp add: fires_after_def)
    then show ?thesis using rule_cooldown_nonneg [of rule] by linarith
  qed
  then show ?thesis by (simp add: stamps_grow_def)
qed

lemma stamped_apart: "stamped stamps fired \<Longrightarrow> fires_after stamps g \<Longrightarrow> f \<in> set fired \<Longrightarrow> apart f g"
  unfolding stamped_def fires_after_def apart_def by fastforce

lemmas cooldown_facts = stamps_grow_trans stamps_grow_stamped fires_after_grown

lemma fire_matching_spaced:
  "fire_matching matches now rules stamps = (fired, stamps') \<Longrightarrow>
     stamps_grow stamps stamps' \<and> stamped stamps' fired \<and> sorted_wrt apart fired \<and>
     (\<forall>f \<in> set fired. fires_after stamps f \<and> fires_rightly f)"
proof (induction rules arbitrary: stamps fired)
  case Nil
  then show ?case by simp
next
  case (Cons rule rules)
  show ?case
  proof (cases "\<exists>s. sc_kind rule = SensorTrigger s \<and>
      \<not> (sc_paused rule \<or> \<not> matches s \<or> debounced stamps now rule s)")
    case False
    with Cons.prems have "fire_matching matches now rules stamps = (fired, stamps')"
      by (auto split: task_kind.splits)
    then show ?thesis by (rule Cons.IH)
  next
    case True
    then obtain s where s: "sc_kind rule = SensorTrigger s" "\<not> sc_paused rule" "matches s"
      "\<not> debounced stamps now rule s" by blast
    let ?m = "stamps(sc_id rule \<mapsto> now)"
    from Cons.prems s obtain rest where rest: "fire_matching matches now rules ?m = (rest, stamps')"
      and fired: "fired = (rule, now) # rest" by (auto split: prod.splits)
    note IH = Cons.IH [OF rest]
    have after: "fires_after stamps (rule, now)" and rightly: "fires_rightly (rule, now)"
      using not_debounced [OF s(4,1)] s by (auto simp: fires_rightly_def)
    have grow: "stamps_grow stamps ?m" using after by (rule stamps_grow_update)
    have m: "stamped ?m [(rule, now)]" by simp
    have first: "stamped stamps' [(rule, now)]" using m IH by (blast intro: stamps_grow_stamped)
    have apart: "\<forall>g \<in> set rest. apart (rule, now) g"
      using IH by (blast intro: stamped_apart [OF m] list.set_intros)
    have grown: "stamps_grow stamps stamps'" "\<forall>f \<in> set rest. fires_after stamps f"
      using IH grow by (blast intro: stamps_grow_trans fires_after_grown)+
    show ?thesis
      unfolding fired using IH first apart grown after rightly by simp
  qed
qed

lemma engine_on_event_spaced:
  assumes "engine_on_event matches f64_of_int e a = (fired, e')"
  shows "stamps_grow (re_cooldowns e) (re_cooldowns e') \<and> stamped (re_cooldowns e') fired \<and>
     sorted_wrt apart fired \<and> (\<forall>f \<in> set fired. fires_after (re_cooldowns e) f \<and> fires_rightly f)"
proof -
  have same: "re_cooldowns (refresh_rules e a) = re_cooldowns e"
    by (simp add: refresh_rules_def Let_def split: option.splits prod.splits)
  then show ?thesis
    using assms
    by (auto simp: engine_on_event_def rules_to_fire_def Let_def
        split: option.splits prod.splits dest!: fire_matching_spaced)
qed

lemma run_rules_engine_spaced:
  "sorted_wrt apart (run_rules_engine matches f64_of_int e as) \<and>
   (\<forall>f \<in> set (run_rules_engine matches f64_of_int e as). fires_after (re_cooldowns e) f \<and> fires_rightly f)"
proof (induction "as" arbitrary: e)
  case Nil
  then show ?case by simp
next
  case (Cons a "as")
  obtain fired e' where step: "engine_on_event matches f64_of_int e a = (fired, e')" by fastforce
  note now = engine_on_event_spaced [OF step]
  show ?case
    using now Cons.IH [of e'] step
    by (auto simp: sorted_wrt_append intro: stamped_apart fires_after_grown)
qed


section \<open>Properties\<close>


definition example_motion_rule :: schedule where
  "example_motion_rule =
     \<lparr>sc_id = lit ''hall'', sc_label = lit ''hall'', sc_cron = lit ''@event'', sc_fire_at = None,
      sc_timezone = lit ''UTC'',
      sc_kind = SensorTrigger
        \<lparr>st_source = \<lparr>ts_kind = SourceSensor, ts_device_id = None, ts_signal = Some (lit ''motion'')\<rparr>,
         st_condition = \<lparr>tc_op = None, tc_value = None, tc_after = Some (lit ''22:00''),
                         tc_before = Some (lit ''06:00'')\<rparr>,
         st_actions = [NotifyAction (lit ''Hall'') (lit ''Somebody is up'')], st_cooldown_secs = 60\<rparr>,
      sc_paused = False, sc_currently_running = False, sc_last_run = None, sc_next_run = None,
      sc_created_at = 0, sc_ask_if_missed = False, sc_missed_run = None\<rparr>"

definition example_motion :: "timestamp \<Rightarrow> bus_arrival" where
  "example_motion at =
     \<lparr>ba_event = BusSensor \<lparr>read_device_id = lit ''pir'', read_sensor_type = lit ''motion'',
        read_value = Fp 1 0, read_unit = [], read_recorded_at = at\<rparr>,
      ba_at = at, ba_now = at, ba_local_time = 23 * 3600 * 10 ^ 9,
      ba_listing = Some [example_motion_rule]\<rparr>"

definition clock_of_example :: "ustr \<Rightarrow> nat option" where
  "clock_of_example s =
     (if s = lit ''22:00'' then Some (22 * 3600 * 10 ^ 9)
      else if s = lit ''06:00'' then Some (6 * 3600 * 10 ^ 9) else None)"


text \<open>A rule whose window holds no time of day: the bounds are equal, or it ends as the day begins.\<close>

definition empty_window :: "(ustr \<Rightarrow> nat option) \<Rightarrow> trigger_condition \<Rightarrow> bool" where
  "empty_window parse_hm c \<longleftrightarrow>
     (case (tc_after c, tc_before c) of
        (Some a, Some b) \<Rightarrow> parse_hm a = parse_hm b
      | (None, Some b) \<Rightarrow> parse_hm b = Some 0
      | _ \<Rightarrow> False)"

definition DAY_NANOS :: nat where "DAY_NANOS = 24 * 3600 * 10 ^ 9"

lemma window_reachable:
  assumes bounds: "\<And>s v. parse_hm s = Some v \<Longrightarrow> v < DAY_NANOS"
    and "bad_bound parse_hm (lit ''after'') (tc_after c) = None"
    and "bad_bound parse_hm (lit ''before'') (tc_before c) = None"
  shows "(\<exists>t < DAY_NANOS. in_time_window parse_hm (tc_after c) (tc_before c) t) \<longleftrightarrow>
     \<not> empty_window parse_hm c"
proof -
  have day: "0 < DAY_NANOS" by (simp add: DAY_NANOS_def)
  have "\<exists>a'. parse_hm a = Some a' \<and> a' < DAY_NANOS" if "tc_after c = Some a" for a
    using assms(2) that bounds by (auto simp: bad_bound_def split: if_splits)
  moreover have "\<exists>b'. parse_hm b = Some b' \<and> b' < DAY_NANOS" if "tc_before c = Some b" for b
    using assms(3) that bounds by (auto simp: bad_bound_def split: if_splits)
  ultimately show ?thesis
    using day
    by (cases "tc_after c"; cases "tc_before c")
      (fastforce simp: in_time_window_def empty_window_def intro: exI [of _ 0] split: if_splits)+
qed

text \<open>An event a rule's source and condition accept.\<close>

definition crossing_value :: "compare_op \<Rightarrow> fp \<Rightarrow> fp" where
  "crossing_value op threshold =
     (case (op, threshold) of
        (Gt, Fp m e) \<Rightarrow> Fp (m + 1) e
      | (Lt, Fp m e) \<Rightarrow> Fp (m - 1) e
      | _ \<Rightarrow> threshold)"

definition accepted_value :: "trigger_condition \<Rightarrow> fp" where
  "accepted_value c =
     (case (tc_op c, tc_value c) of
        (Some op, Some threshold) \<Rightarrow> crossing_value op threshold
      | _ \<Rightarrow> Fp 0 0)"

definition accepted_event :: "sensor_trigger_spec \<Rightarrow> bus_event" where
  "accepted_event s =
     (let device = (case ts_device_id (st_source s) of Some d \<Rightarrow> d | None \<Rightarrow> lit ''any'');
          signal = (case ts_signal (st_source s) of Some g \<Rightarrow> g | None \<Rightarrow> lit ''any'');
          value = accepted_value (st_condition s) in
      case ts_kind (st_source s) of
        SourceSensor \<Rightarrow> BusSensor \<lparr>read_device_id = device, read_sensor_type = signal,
          read_value = value, read_unit = [], read_recorded_at = 0\<rparr>
      | SourceCamera \<Rightarrow> BusCamera \<lparr>cam_id = None, cam_camera_id = device, cam_event_type = signal,
          cam_confidence = Some value, cam_snapshot_path = None, cam_metadata = None,
          cam_acknowledged = False, cam_created_at = 0\<rparr>
      | SourceDevice \<Rightarrow> BusDevice \<lparr>dev_device_id = device, dev_key = signal, dev_value = DevFloat value,
          dev_changed_at = 0\<rparr>)"

lemma crossing_value_compares:
  assumes "fp_is_finite threshold" and "\<And>f. fp_is_finite f \<Longrightarrow> f64_minus f f = Fp 0 0"
  shows "compares f64_minus op (crossing_value op threshold) threshold"
  using assms by (cases op; cases threshold) (simp_all add: crossing_value_def F64_EPSILON_def)

lemma accepted_event_view:
  "\<exists>view. trigger_view f64_of_int (accepted_event s) = Some view \<and>
     source_value json_parse f64_number (st_source s) view = Some (Some (accepted_value (st_condition s)))"
  by (cases "ts_kind (st_source s)"; cases "ts_signal (st_source s)"; cases "ts_device_id (st_source s)")
    (simp_all add: accepted_event_def source_value_def)



definition example_dead_rule :: sensor_trigger_spec where
  "example_dead_rule =
     \<lparr>st_source = \<lparr>ts_kind = SourceSensor, ts_device_id = None, ts_signal = Some (lit ''motion'')\<rparr>,
      st_condition = \<lparr>tc_op = None, tc_value = None, tc_after = Some (lit ''22:00''),
                      tc_before = Some (lit ''22:00'')\<rparr>,
      st_actions = [NotifyAction (lit ''Hall'') (lit ''Somebody is up'')], st_cooldown_secs = 60\<rparr>"


end
