(* ===== verification/Proposal.thy ===== *)
theory Proposal
  imports Session_Identity Sensor_Rule Long_Task_Runner
begin

text \<open>
  Proactive proposals and the drafts they are stored as: \<open>user_data/domain/proposal.rs\<close>,
  \<open>user_data/domain/draft.rs\<close>, who counts as the member when nobody says
  (\<open>user_data/services/member_attribution.rs\<close>) and who may decide a draft (\<open>security/ports/policy.rs\<close>,
  \<open>security/services/draft_authority.rs\<close>). Instants and spans count nanoseconds. The Unicode tables
  beyond ASCII are arguments: \<open>beyond_ascii\<close> says which characters are alphanumeric, \<open>lower\<close> is
  \<open>str::to_lowercase\<close>. No character beyond ASCII lowers into a status word, so there ASCII is enough.
\<close>

section \<open>Drafts\<close>

datatype draft_status = DraftPending | DraftApproved | DraftRejected | DraftExpired

fun draft_status_display :: "draft_status \<Rightarrow> ustr" where
  "draft_status_display DraftPending = lit ''pending''"
| "draft_status_display DraftApproved = lit ''approved''"
| "draft_status_display DraftRejected = lit ''rejected''"
| "draft_status_display DraftExpired = lit ''expired''"

definition draft_status_from_str :: "ustr \<Rightarrow> draft_status option" where
  "draft_status_from_str s =
     (let w = to_ascii_lowercase s in
      if w = lit ''pending'' then Some DraftPending
      else if w = lit ''approved'' then Some DraftApproved
      else if w = lit ''rejected'' then Some DraftRejected
      else if w = lit ''expired'' then Some DraftExpired
      else None)"

record draft =
  dr_id :: ustr
  dr_session_id :: ustr
  dr_kind :: ustr
  dr_summary :: ustr
  dr_payload :: ustr
  dr_profile_id :: "ustr option"
  dr_source :: "identification_source option"
  dr_status :: draft_status
  dr_created_at :: timestamp
  dr_expires_at :: "timestamp option"

definition draft_is_live_at :: "draft \<Rightarrow> timestamp \<Rightarrow> bool" where
  "draft_is_live_at d now \<longleftrightarrow>
     (case dr_expires_at d of None \<Rightarrow> True | Some expiry \<Rightarrow> now < expiry)"

lemma draft_status_round_trip [simp]: "draft_status_from_str (draft_status_display s) = Some s"
  by (cases s) (simp_all add: draft_status_from_str_def text_simps)

lemma draft_status_display_inj [simp]: "draft_status_display s = draft_status_display t \<longleftrightarrow> s = t"
  using draft_status_round_trip [of s] draft_status_round_trip [of t] by (metis option.inject)

section \<open>The member when nobody says\<close>

definition sole_member :: "ustr list \<Rightarrow> ustr option" where
  "sole_member member_ids = (case member_ids of [only] \<Rightarrow> Some only | _ \<Rightarrow> None)"

definition owner_for_new_code :: "ustr option \<Rightarrow> bool \<Rightarrow> ustr list \<Rightarrow> ustr option" where
  "owner_for_new_code explicitly unattributed_requested member_ids =
     (case explicitly of
        Some named \<Rightarrow> Some named
      | None \<Rightarrow> if unattributed_requested then None else sole_member member_ids)"

definition owner_for_claimant :: "ustr option \<Rightarrow> ustr option \<Rightarrow> ustr list \<Rightarrow> ustr option" where
  "owner_for_claimant claimant_owner primary member_ids =
     (if claimant_owner \<noteq> None then None
      else
        (case primary of
           None \<Rightarrow> None
         | Some p \<Rightarrow> if trim p \<noteq> [] \<and> p \<in> set member_ids then Some p else None))"

lemma sole_member_Some: "sole_member ms = Some p \<longleftrightarrow> ms = [p]"
  by (auto simp: sole_member_def split: list.splits)

section \<open>Who may decide a draft\<close>

definition is_draft_decision_permitted ::
  "profile_scope option \<Rightarrow> identification_source \<Rightarrow> ustr \<Rightarrow> ustr option \<Rightarrow> ustr \<Rightarrow>
     (unit, policy_reason) result" where
  "is_draft_decision_permitted actor actor_source actor_session draft_owner draft_session =
     (case actor of
        None \<Rightarrow> Err UnresolvedActor
      | Some scope \<Rightarrow>
          if actor_source = Voice then Err VoiceDraftDecision
          else if trim actor_session = [] then Err UnresolvedActor
          else if scope = Guest then Err GuestDraftDecision
          else
            (case draft_owner of
               Some owner \<Rightarrow>
                 (case scope of
                    Owner i \<Rightarrow> if i = owner then Ok () else Err ForeignDraft
                  | Household \<Rightarrow> Ok ()
                  | Guest \<Rightarrow> Err GuestDraftDecision)
             | None \<Rightarrow> if actor_session = draft_session then Ok () else Err UnownedDraft))"

text \<open>
  \<open>RepoDraftAuthority\<close>: the engine's session mapped to the pond's, its identity and the household
  counted, where a failed read is \<open>None\<close>. A turn of the engine has no device.
\<close>

definition actor_for_engine_session ::
  "(ustr \<Rightarrow> ustr option) \<Rightarrow> (ustr \<Rightarrow> session_identity option) \<Rightarrow> nat option \<Rightarrow> ustr \<Rightarrow>
     (profile_scope \<times> identification_source) option" where
  "actor_for_engine_session session_of identity_of household engine_session =
     (if trim engine_session = [] then None
      else
        (case session_of engine_session of
           None \<Rightarrow> None
         | Some sid \<Rightarrow>
             (let resolved = turn_resolve NoDevice (identity_of sid) household in
              Some (rs_scope resolved, rs_source resolved))))"

lemma draft_decision_permitted_iff:
  "is_draft_decision_permitted actor src session owner draft_session = Ok () \<longleftrightarrow>
     src \<noteq> Voice \<and> trim session \<noteq> [] \<and>
     (\<exists>scope. actor = Some scope \<and> scope \<noteq> Guest \<and>
        (case owner of
           Some p \<Rightarrow> scope = Owner p \<or> scope = Household
         | None \<Rightarrow> session = draft_session))"
  by (cases actor; cases owner)
    (auto simp: is_draft_decision_permitted_def split: profile_scope.splits if_splits)

section \<open>Proposals\<close>

definition PROPOSAL_DRAFT_KIND :: ustr where "PROPOSAL_DRAFT_KIND = lit ''proposal''"

definition PROPOSAL_ORIGIN :: ustr where "PROPOSAL_ORIGIN = lit ''proactive''"

definition PROPOSAL_SESSION_ID :: ustr where "PROPOSAL_SESSION_ID = lit ''giap:proactive''"

definition MAX_PROPOSAL_TTL :: int where "MAX_PROPOSAL_TTL = 24 * 3600 * 10 ^ 9"

datatype proposal_error =
    MissingId
  | MissingRationale ustr
  | MissingTriggerKind
  | ConfidenceOutOfRange ustr fp
  | AlreadyExpired ustr
  | TtlTooLong ustr
  | UnaddressableAudience ustr
  | NotADecision

record bus_event_ref =
  er_kind :: ustr
  er_source_id :: "ustr option"
  er_signal :: "ustr option"
  er_observed_at :: timestamp

definition blank_to_none :: "ustr option \<Rightarrow> ustr option" where
  "blank_to_none v =
     (case v of None \<Rightarrow> None | Some s \<Rightarrow> if trim s = [] then None else Some (trim s))"

definition event_ref_new ::
  "ustr \<Rightarrow> ustr option \<Rightarrow> ustr option \<Rightarrow> timestamp \<Rightarrow> (bus_event_ref, proposal_error) result" where
  "event_ref_new kind source_id signal observed_at =
     (if trim kind = [] then Err MissingTriggerKind
      else Ok \<lparr>er_kind = trim kind, er_source_id = blank_to_none source_id,
               er_signal = blank_to_none signal, er_observed_at = observed_at\<rparr>)"

datatype proposal_audience = Audience ustr

fun audience_profile_id :: "proposal_audience \<Rightarrow> ustr" where
  "audience_profile_id (Audience p) = p"

definition audience_for_member :: "ustr \<Rightarrow> (proposal_audience, proposal_error) result" where
  "audience_for_member profile_id =
     (let i = trim profile_id in
      if i = [] then Err (UnaddressableAudience (lit ''an empty profile id'')) else Ok (Audience i))"

definition audience_from_scope :: "profile_scope \<Rightarrow> (proposal_audience, proposal_error) result" where
  "audience_from_scope scope =
     (case scope_owner_id scope of
        Some i \<Rightarrow> audience_for_member i
      | None \<Rightarrow>
          Err (UnaddressableAudience
            (case scope of
               Household \<Rightarrow> lit ''the whole household''
             | Guest \<Rightarrow> lit ''an unidentified speaker''
             | Owner _ \<Rightarrow> lit ''no one'')))"

definition audience_scope :: "proposal_audience \<Rightarrow> profile_scope" where
  "audience_scope a = Owner (audience_profile_id a)"

record proposal =
  pp_id :: ustr
  pp_trigger :: bus_event_ref
  pp_rationale :: ustr
  pp_action :: task_kind
  pp_audience :: proposal_audience
  pp_confidence :: fp
  pp_created_at :: timestamp
  pp_expires_at :: timestamp

record proposal_payload =
  pl_trigger :: bus_event_ref
  pl_action :: task_kind
  pl_confidence :: fp

definition confidence_in_range :: "fp \<Rightarrow> bool" where
  "confidence_in_range c \<longleftrightarrow> fp_is_finite c \<and> fp_le (Fp 0 0) c \<and> fp_le c (Fp 1 0)"

definition proposal_from_parts ::
  "ustr \<Rightarrow> bus_event_ref \<Rightarrow> ustr \<Rightarrow> task_kind \<Rightarrow> proposal_audience \<Rightarrow> fp \<Rightarrow> timestamp \<Rightarrow> timestamp \<Rightarrow>
     (proposal, proposal_error) result" where
  "proposal_from_parts i trigger rationale action audience confidence created_at expires_at =
     (if trim i = [] then Err MissingId
      else if trim rationale = [] then Err (MissingRationale i)
      else if \<not> confidence_in_range confidence then Err (ConfidenceOutOfRange i confidence)
      else if expires_at \<le> created_at then Err (AlreadyExpired i)
      else if expires_at - created_at > MAX_PROPOSAL_TTL then Err (TtlTooLong i)
      else Ok \<lparr>pp_id = trim i, pp_trigger = trigger, pp_rationale = trim rationale,
               pp_action = action, pp_audience = audience, pp_confidence = confidence,
               pp_created_at = created_at, pp_expires_at = expires_at\<rparr>)"

definition proposal_expiring_after ::
  "ustr \<Rightarrow> bus_event_ref \<Rightarrow> ustr \<Rightarrow> task_kind \<Rightarrow> proposal_audience \<Rightarrow> fp \<Rightarrow> timestamp \<Rightarrow> int \<Rightarrow>
     (proposal, proposal_error) result" where
  "proposal_expiring_after i trigger rationale action audience confidence created_at ttl =
     proposal_from_parts i trigger rationale action audience confidence created_at (created_at + ttl)"

definition proposal_is_live_at :: "proposal \<Rightarrow> timestamp \<Rightarrow> bool" where
  "proposal_is_live_at p now \<longleftrightarrow> now < pp_expires_at p"

definition proposal_payload_of :: "proposal \<Rightarrow> proposal_payload" where
  "proposal_payload_of p =
     \<lparr>pl_trigger = pp_trigger p, pl_action = pp_action p, pl_confidence = pp_confidence p\<rparr>"

definition truncate_text :: "ustr \<Rightarrow> nat \<Rightarrow> ustr" where
  "truncate_text s max_chars =
     (let trimmed = trim s in
      if length trimmed \<le> max_chars then trimmed
      else take (max_chars - 3) trimmed @ lit ''...'')"

fun action_summary :: "task_kind \<Rightarrow> ustr" where
  "action_summary (AgentPrompt prompt) = truncate_text prompt 120"
| "action_summary (Webhook url) = lit ''POST to '' @ truncate_text url 100"
| "action_summary (SensorTrigger s) =
     lit ''watch '' @ (case ts_device_id (st_source s) of Some d \<Rightarrow> d | None \<Rightarrow> lit ''any device'') @
     lit '' for '' @ (case ts_signal (st_source s) of Some g \<Rightarrow> g | None \<Rightarrow> lit ''any signal'')"
| "action_summary (Routine actions) = truncate_text (routine_summary actions) 120"

definition proposal_summary :: "proposal \<Rightarrow> ustr" where
  "proposal_summary p = action_summary (pp_action p)"

text \<open>The values of the type: what the constructors let through.\<close>

definition sound_event_ref :: "bus_event_ref \<Rightarrow> bool" where
  "sound_event_ref t \<longleftrightarrow> er_kind t \<noteq> [] \<and> trim (er_kind t) = er_kind t \<and>
     blank_to_none (er_source_id t) = er_source_id t \<and> blank_to_none (er_signal t) = er_signal t"

definition sound_audience :: "proposal_audience \<Rightarrow> bool" where
  "sound_audience a \<longleftrightarrow> audience_profile_id a \<noteq> [] \<and> trim (audience_profile_id a) = audience_profile_id a"

definition sound_proposal :: "proposal \<Rightarrow> bool" where
  "sound_proposal p \<longleftrightarrow>
     pp_id p \<noteq> [] \<and> trim (pp_id p) = pp_id p \<and>
     pp_rationale p \<noteq> [] \<and> trim (pp_rationale p) = pp_rationale p \<and>
     sound_event_ref (pp_trigger p) \<and> sound_audience (pp_audience p) \<and>
     confidence_in_range (pp_confidence p) \<and> pp_created_at p < pp_expires_at p \<and>
     pp_expires_at p - pp_created_at p \<le> MAX_PROPOSAL_TTL"

lemma blank_to_none_idem [simp]: "blank_to_none (blank_to_none v) = blank_to_none v"
  by (simp add: blank_to_none_def split: option.splits)

lemma event_ref_new_Ok:
  "event_ref_new kind source signal at = Ok t \<longleftrightarrow> trim kind \<noteq> [] \<and>
     t = \<lparr>er_kind = trim kind, er_source_id = blank_to_none source, er_signal = blank_to_none signal,
          er_observed_at = at\<rparr>"
  by (auto simp: event_ref_new_def)

lemma event_ref_new_sound: "event_ref_new kind source signal at = Ok t \<Longrightarrow> sound_event_ref t"
  by (auto simp: event_ref_new_Ok sound_event_ref_def)

lemma audience_for_member_Ok:
  "audience_for_member i = Ok a \<longleftrightarrow> trim i \<noteq> [] \<and> a = Audience (trim i)"
  by (auto simp: audience_for_member_def Let_def)

lemma audience_for_member_sound: "audience_for_member i = Ok a \<Longrightarrow> sound_audience a"
  by (auto simp: audience_for_member_Ok sound_audience_def)

lemma audience_from_scope_Ok:
  "audience_from_scope scope = Ok a \<longleftrightarrow> (\<exists>i. scope = Owner i \<and> trim i \<noteq> [] \<and> a = Audience (trim i))"
  by (cases scope) (auto simp: audience_from_scope_def audience_for_member_Ok)

lemma proposal_from_parts_Ok:
  "proposal_from_parts i trigger rationale action audience confidence created expires = Ok p \<longleftrightarrow>
     trim i \<noteq> [] \<and> trim rationale \<noteq> [] \<and> confidence_in_range confidence \<and> created < expires \<and>
     expires - created \<le> MAX_PROPOSAL_TTL \<and>
     p = \<lparr>pp_id = trim i, pp_trigger = trigger, pp_rationale = trim rationale, pp_action = action,
          pp_audience = audience, pp_confidence = confidence, pp_created_at = created,
          pp_expires_at = expires\<rparr>"
  by (auto simp: proposal_from_parts_def)

lemma proposal_from_parts_sound:
  "proposal_from_parts i trigger rationale action audience confidence created expires = Ok p \<Longrightarrow>
     sound_event_ref trigger \<Longrightarrow> sound_audience audience \<Longrightarrow> sound_proposal p"
  by (auto simp: proposal_from_parts_Ok sound_proposal_def)

text \<open>A sound proposal is rebuilt from its own parts.\<close>

lemma proposal_rebuilds:
  "sound_proposal p \<Longrightarrow>
   proposal_from_parts (pp_id p) (pp_trigger p) (pp_rationale p) (pp_action p) (pp_audience p)
     (pp_confidence p) (pp_created_at p) (pp_expires_at p) = Ok p"
  by (auto simp: proposal_from_parts_Ok sound_proposal_def)

section \<open>What a proposal is about\<close>

definition comparison_key :: "(uchar \<Rightarrow> bool) \<Rightarrow> (ustr \<Rightarrow> ustr) \<Rightarrow> ustr \<Rightarrow> ustr" where
  "comparison_key beyond_ascii lower raw =
     (let edge = (\<lambda>c. \<not> is_alphanumeric beyond_ascii c);
          trim_word = (\<lambda>w. rev (dropWhile edge (rev (dropWhile edge w)))) in
      join_with (lit '' '')
        (map lower (filter (\<lambda>w. w \<noteq> []) (map trim_word (split_whitespace raw)))))"

record trigger_identity =
  ti_kind :: ustr
  ti_source_id :: "ustr option"
  ti_signal :: "ustr option"

record proposal_shape =
  sh_trigger :: trigger_identity
  sh_action :: ustr

definition key_of :: "(ustr \<Rightarrow> ustr) \<Rightarrow> ustr option \<Rightarrow> ustr option" where
  "key_of key v = (case v of None \<Rightarrow> None | Some s \<Rightarrow> if key s = [] then None else Some (key s))"

definition trigger_identity_of :: "(ustr \<Rightarrow> ustr) \<Rightarrow> bus_event_ref \<Rightarrow> trigger_identity" where
  "trigger_identity_of key t =
     \<lparr>ti_kind = key (er_kind t), ti_source_id = key_of key (er_source_id t),
      ti_signal = key_of key (er_signal t)\<rparr>"

definition shape_of :: "(ustr \<Rightarrow> ustr) \<Rightarrow> proposal \<Rightarrow> proposal_shape" where
  "shape_of key p =
     \<lparr>sh_trigger = trigger_identity_of key (pp_trigger p), sh_action = key (proposal_summary p)\<rparr>"

definition trigger_describe :: "trigger_identity \<Rightarrow> ustr" where
  "trigger_describe t =
     (case (ti_source_id t, ti_signal t) of
        (Some source, Some signal) \<Rightarrow> ti_kind t @ lit '' events from '' @ source @ lit '' ('' @ signal @ lit '')''
      | (Some source, None) \<Rightarrow> ti_kind t @ lit '' events from '' @ source
      | (None, Some signal) \<Rightarrow> ti_kind t @ lit '' events of type '' @ signal
      | (None, None) \<Rightarrow> ti_kind t @ lit '' events'')"

record proposal_decision =
  de_shape :: proposal_shape
  de_status :: draft_status
  de_decided_at :: timestamp

definition decision_recorded ::
  "proposal_shape \<Rightarrow> draft_status \<Rightarrow> timestamp \<Rightarrow> (proposal_decision, proposal_error) result" where
  "decision_recorded shape status decided_at =
     (if status = DraftPending then Err NotADecision
      else Ok \<lparr>de_shape = shape, de_status = status, de_decided_at = decided_at\<rparr>)"

definition silences_a_repeat :: "proposal_decision \<Rightarrow> bool" where
  "silences_a_repeat d \<longleftrightarrow> de_status d = DraftRejected"

definition memory_fact :: "proposal_decision \<Rightarrow> ustr option" where
  "memory_fact d =
     (let fact = (\<lambda>verb. lit ''The user '' @ verb @ lit '' a proactive suggestion about '' @
            trigger_describe (sh_trigger (de_shape d)) @ lit '': '' @ sh_action (de_shape d) @ lit ''.'') in
      case de_status d of
        DraftApproved \<Rightarrow> Some (fact (lit ''approved''))
      | DraftRejected \<Rightarrow> Some (fact (lit ''rejected''))
      | _ \<Rightarrow> None)"

end
