(* ===== verification/Proposal_Store.thy ===== *)
theory Proposal_Store
  imports Proposal "HOL-Library.List_Lexorder"
begin

text \<open>
  The table of drafts and what is done with it: \<open>pond-infra/src/sqlite_draft.rs\<close> and
  \<open>sqlite_proposal.rs\<close> with the triggers of the migrations \<open>0038\<close>, \<open>0041\<close> and \<open>0042\<close>, and the handlers
  \<open>list_proposals\<close> and \<open>decide_proposal\<close> of \<open>pond-api/src/routes.rs\<close>. The table is the list of its rows in
  the order of their insertion; a listing of one second keeps the scan's order. A deciding request reads
  and then writes, so \<open>proposal_step\<close> takes it in two steps between which others may fall. Outside
  the repository are \<open>chrono\<close>'s text of a time, SQLite's \<open>datetime\<close> and the JSON of a payload: the record
  \<open>draft_codec\<close>, with what the store relies on of them in \<open>draft_codec_ok\<close>.
\<close>

record draft_codec =
  cd_ts_text :: "timestamp \<Rightarrow> ustr"
  cd_ts_read :: "ustr \<Rightarrow> timestamp option"
  cd_datetime :: "ustr \<Rightarrow> timestamp option"
  cd_payload_text :: "proposal_payload \<Rightarrow> ustr"
  cd_payload_read :: "ustr \<Rightarrow> proposal_payload option"

record draft_row =
  dc_id :: ustr
  dc_session_id :: ustr
  dc_profile_id :: "ustr option"
  dc_source :: "ustr option"
  dc_kind :: ustr
  dc_summary :: ustr
  dc_payload :: ustr
  dc_status :: ustr
  dc_created_at :: ustr
  dc_origin :: "ustr option"
  dc_expires_at :: "ustr option"
  dc_rationale :: "ustr option"

datatype draft_store_error =
    DraftConstraint
  | ProposalExpiredAbort
  | DraftNotFound ustr
  | UnreadableProposal

definition whole_seconds :: "timestamp \<Rightarrow> timestamp" where
  "whole_seconds t = (t div NANOS) * NANOS"

section \<open>Triggers\<close>

definition needs_a_rationale :: "draft_row \<Rightarrow> bool" where
  "needs_a_rationale r \<longleftrightarrow> dc_origin r = Some PROPOSAL_ORIGIN \<and>
     (case dc_rationale r of None \<Rightarrow> True | Some why \<Rightarrow> sql_trim why = [])"

definition needs_an_expiry :: "draft_row \<Rightarrow> bool" where
  "needs_an_expiry r \<longleftrightarrow> dc_origin r = Some PROPOSAL_ORIGIN \<and> dc_expires_at r = None"

definition row_refused :: "draft_row \<Rightarrow> bool" where
  "row_refused r \<longleftrightarrow> needs_a_rationale r \<or> needs_an_expiry r"

definition approving_expired :: "draft_codec \<Rightarrow> timestamp \<Rightarrow> draft_row \<Rightarrow> ustr \<Rightarrow> bool" where
  "approving_expired c now old status \<longleftrightarrow>
     status = draft_status_display DraftApproved \<and>
     (case dc_expires_at old of
        None \<Rightarrow> False
      | Some e \<Rightarrow>
          (case cd_datetime c e of None \<Rightarrow> True | Some x \<Rightarrow> x \<le> whole_seconds now))"

definition insert_draft ::
  "draft_row list \<Rightarrow> draft_row \<Rightarrow> (unit, draft_store_error) result \<times> draft_row list" where
  "insert_draft rows r =
     (if row_refused r \<or> dc_id r \<in> dc_id ` set rows then (Err DraftConstraint, rows)
      else (Ok (), rows @ [r]))"

text \<open>An update of the rows a statement names; a trigger that aborts undoes the whole statement.\<close>

definition update_drafts ::
  "(draft_row \<Rightarrow> draft_row \<Rightarrow> draft_store_error option) \<Rightarrow> draft_row list \<Rightarrow> (draft_row \<Rightarrow> bool) \<Rightarrow>
     (draft_row \<Rightarrow> draft_row) \<Rightarrow> (nat, draft_store_error) result \<times> draft_row list" where
  "update_drafts trigger rows cond f =
     (case find (\<lambda>r. cond r \<and> trigger r (f r) \<noteq> None) rows of
        Some r \<Rightarrow> (Err (the (trigger r (f r))), rows)
      | None \<Rightarrow> (Ok (length (filter cond rows)), map (\<lambda>r. if cond r then f r else r) rows))"

definition update_triggers ::
  "draft_codec \<Rightarrow> timestamp \<Rightarrow> draft_row \<Rightarrow> draft_row \<Rightarrow> draft_store_error option" where
  "update_triggers c now old new =
     (if row_refused new then Some DraftConstraint
      else if approving_expired c now old (dc_status new) then Some ProposalExpiredAbort
      else None)"

text \<open>The trigger on the deletion of a member: expire first, then release.\<close>

definition expire_of_member :: "ustr \<Rightarrow> draft_row \<Rightarrow> draft_row" where
  "expire_of_member p r =
     (if dc_profile_id r = Some p \<and> dc_status r = draft_status_display DraftPending
      then r\<lparr>dc_status := draft_status_display DraftExpired\<rparr> else r)"

definition release_of_member :: "ustr \<Rightarrow> draft_row \<Rightarrow> draft_row" where
  "release_of_member p r =
     (if dc_profile_id r = Some p then r\<lparr>dc_profile_id := None, dc_source := None\<rparr> else r)"

definition member_deleted :: "draft_row list \<Rightarrow> ustr \<Rightarrow> draft_row list" where
  "member_deleted rows p = map (release_of_member p \<circ> expire_of_member p) rows"

section \<open>The repository of drafts\<close>

definition row_of_draft :: "draft_codec \<Rightarrow> draft \<Rightarrow> draft_row" where
  "row_of_draft c d =
     \<lparr>dc_id = dr_id d, dc_session_id = dr_session_id d, dc_profile_id = dr_profile_id d,
      dc_source = map_option source_as_str (dr_source d), dc_kind = dr_kind d,
      dc_summary = dr_summary d, dc_payload = dr_payload d,
      dc_status = draft_status_display (dr_status d), dc_created_at = cd_ts_text c (dr_created_at d),
      dc_origin = None, dc_expires_at = map_option (cd_ts_text c) (dr_expires_at d),
      dc_rationale = None\<rparr>"

definition draft_save ::
  "draft_codec \<Rightarrow> draft_row list \<Rightarrow> draft \<Rightarrow> (unit, draft_store_error) result \<times> draft_row list" where
  "draft_save c rows d = insert_draft rows (row_of_draft c d)"

definition row_to_draft ::
  "draft_codec \<Rightarrow> timestamp \<Rightarrow> draft_row \<Rightarrow> (draft, draft_store_error) result" where
  "row_to_draft c now r =
     (case draft_status_from_str (dc_status r) of
        None \<Rightarrow> Err UnreadableProposal
      | Some status \<Rightarrow>
          Ok \<lparr>dr_id = dc_id r, dr_session_id = dc_session_id r, dr_kind = dc_kind r,
              dr_summary = dc_summary r, dr_payload = dc_payload r, dr_profile_id = dc_profile_id r,
              dr_source = map_option source_parse (dc_source r), dr_status = status,
              dr_created_at = (case cd_ts_read c (dc_created_at r) of Some t \<Rightarrow> t | None \<Rightarrow> now),
              dr_expires_at = map_option
                (\<lambda>raw. case cd_ts_read c raw of Some t \<Rightarrow> t | None \<Rightarrow> 0) (dc_expires_at r)\<rparr>)"

definition newest_first :: "draft_row list \<Rightarrow> draft_row list" where
  "newest_first rows = rev (sort_key dc_created_at (rev rows))"

definition draft_list_pending ::
  "draft_codec \<Rightarrow> draft_row list \<Rightarrow> ustr \<Rightarrow> timestamp \<Rightarrow> (draft list, draft_store_error) result" where
  "draft_list_pending c rows sid now =
     try_map (row_to_draft c now)
       (newest_first (filter (\<lambda>r. dc_session_id r = sid \<and>
          dc_status r = draft_status_display DraftPending \<and>
          (case dc_expires_at r of
             None \<Rightarrow> True
           | Some e \<Rightarrow> (case cd_datetime c e of None \<Rightarrow> False | Some x \<Rightarrow> whole_seconds now < x)))
        rows))"

definition draft_get ::
  "draft_codec \<Rightarrow> draft_row list \<Rightarrow> ustr \<Rightarrow> timestamp \<Rightarrow> (draft option, draft_store_error) result" where
  "draft_get c rows i now =
     (case find (\<lambda>r. dc_id r = i) rows of
        None \<Rightarrow> Ok None
      | Some r \<Rightarrow> (case row_to_draft c now r of Ok d \<Rightarrow> Ok (Some d) | Err e \<Rightarrow> Err e))"

definition draft_update_status ::
  "draft_codec \<Rightarrow> draft_row list \<Rightarrow> ustr \<Rightarrow> draft_status \<Rightarrow> timestamp \<Rightarrow>
     (unit, draft_store_error) result \<times> draft_row list" where
  "draft_update_status c rows i status now =
     (case update_drafts (update_triggers c now) rows (\<lambda>r. dc_id r = i)
             (\<lambda>r. r\<lparr>dc_status := draft_status_display status\<rparr>) of
        (Err e, rows') \<Rightarrow> (Err e, rows')
      | (Ok n, rows') \<Rightarrow> if n = 0 then (Err (DraftNotFound i), rows') else (Ok (), rows'))"

section \<open>The repository of proposals\<close>

definition row_of_proposal :: "draft_codec \<Rightarrow> proposal \<Rightarrow> draft_row" where
  "row_of_proposal c p =
     \<lparr>dc_id = pp_id p, dc_session_id = PROPOSAL_SESSION_ID,
      dc_profile_id = Some (audience_profile_id (pp_audience p)), dc_source = None,
      dc_kind = PROPOSAL_DRAFT_KIND, dc_summary = proposal_summary p,
      dc_payload = cd_payload_text c (proposal_payload_of p),
      dc_status = draft_status_display DraftPending, dc_created_at = cd_ts_text c (pp_created_at p),
      dc_origin = Some PROPOSAL_ORIGIN, dc_expires_at = Some (cd_ts_text c (pp_expires_at p)),
      dc_rationale = Some (pp_rationale p)\<rparr>"

definition proposal_save ::
  "draft_codec \<Rightarrow> draft_row list \<Rightarrow> proposal \<Rightarrow> (unit, draft_store_error) result \<times> draft_row list" where
  "proposal_save c rows p = insert_draft rows (row_of_proposal c p)"

definition row_to_proposal :: "draft_codec \<Rightarrow> draft_row \<Rightarrow> (proposal, draft_store_error) result" where
  "row_to_proposal c r =
     (let or_blank = (\<lambda>v. case v of Some s \<Rightarrow> s | None \<Rightarrow> []) in
      case (audience_for_member (or_blank (dc_profile_id r)), cd_payload_read c (dc_payload r),
            dc_expires_at r, cd_ts_read c (dc_created_at r)) of
        (Ok audience, Some payload, Some expires, Some created) \<Rightarrow>
          (case cd_ts_read c expires of
             None \<Rightarrow> Err UnreadableProposal
           | Some e \<Rightarrow>
               (case proposal_from_parts (dc_id r) (pl_trigger payload) (or_blank (dc_rationale r))
                       (pl_action payload) audience (pl_confidence payload) created e of
                  Ok p \<Rightarrow> Ok p
                | Err _ \<Rightarrow> Err UnreadableProposal))
      | _ \<Rightarrow> Err UnreadableProposal)"

definition LIVE_PREDICATE :: "draft_codec \<Rightarrow> timestamp \<Rightarrow> draft_row \<Rightarrow> bool" where
  "LIVE_PREDICATE c now r \<longleftrightarrow>
     dc_origin r = Some PROPOSAL_ORIGIN \<and> dc_status r = draft_status_display DraftPending \<and>
     (case dc_expires_at r of
        None \<Rightarrow> False
      | Some e \<Rightarrow>
          (case (cd_datetime c e, cd_datetime c (cd_ts_text c now)) of
             (Some x, Some n) \<Rightarrow> n < x
           | _ \<Rightarrow> False))"

fun readable_proposals :: "draft_codec \<Rightarrow> draft_row list \<Rightarrow> proposal list" where
  "readable_proposals c [] = []"
| "readable_proposals c (r # rows) =
     (case row_to_proposal c r of
        Ok p \<Rightarrow> p # readable_proposals c rows
      | Err _ \<Rightarrow> readable_proposals c rows)"

definition list_live_for ::
  "draft_codec \<Rightarrow> draft_row list \<Rightarrow> ustr \<Rightarrow> timestamp \<Rightarrow> proposal list" where
  "list_live_for c rows profile_id now =
     readable_proposals c
       (newest_first (filter (\<lambda>r. LIVE_PREDICATE c now r \<and> dc_profile_id r = Some profile_id) rows))"

definition get_live ::
  "draft_codec \<Rightarrow> draft_row list \<Rightarrow> ustr \<Rightarrow> timestamp \<Rightarrow> (proposal option, draft_store_error) result" where
  "get_live c rows i now =
     (case find (\<lambda>r. LIVE_PREDICATE c now r \<and> dc_id r = i) rows of
        None \<Rightarrow> Ok None
      | Some r \<Rightarrow> (case row_to_proposal c r of Ok p \<Rightarrow> Ok (Some p) | Err e \<Rightarrow> Err e))"

definition is_due :: "draft_codec \<Rightarrow> timestamp \<Rightarrow> draft_row \<Rightarrow> bool" where
  "is_due c now r \<longleftrightarrow>
     dc_origin r = Some PROPOSAL_ORIGIN \<and> dc_status r = draft_status_display DraftPending \<and>
     (case dc_expires_at r of
        None \<Rightarrow> True
      | Some e \<Rightarrow>
          (case cd_datetime c e of
             None \<Rightarrow> True
           | Some x \<Rightarrow> (case cd_datetime c (cd_ts_text c now) of Some n \<Rightarrow> x \<le> n | None \<Rightarrow> False)))"

definition expire_due ::
  "draft_codec \<Rightarrow> draft_row list \<Rightarrow> timestamp \<Rightarrow> (nat, draft_store_error) result \<times> draft_row list" where
  "expire_due c rows now =
     update_drafts (update_triggers c now) rows (is_due c now)
       (\<lambda>r. r\<lparr>dc_status := draft_status_display DraftExpired\<rparr>)"

definition made_since :: "draft_codec \<Rightarrow> ustr \<Rightarrow> timestamp \<Rightarrow> draft_row \<Rightarrow> bool" where
  "made_since c profile_id since r \<longleftrightarrow>
     dc_origin r = Some PROPOSAL_ORIGIN \<and> dc_profile_id r = Some profile_id \<and>
     (case (cd_datetime c (dc_created_at r), cd_datetime c (cd_ts_text c since)) of
        (Some x, Some s) \<Rightarrow> s \<le> x
      | _ \<Rightarrow> False)"

definition count_made_since :: "draft_codec \<Rightarrow> draft_row list \<Rightarrow> ustr \<Rightarrow> timestamp \<Rightarrow> nat" where
  "count_made_since c rows profile_id since = length (filter (made_since c profile_id since) rows)"

fun recorded_decisions ::
  "draft_codec \<Rightarrow> (ustr \<Rightarrow> ustr) \<Rightarrow> draft_row list \<Rightarrow> proposal_decision list" where
  "recorded_decisions c key [] = []"
| "recorded_decisions c key (r # rows) =
     (case (cd_ts_read c (dc_created_at r), row_to_proposal c r, draft_status_from_str (dc_status r)) of
        (Some created, Ok p, Some status) \<Rightarrow>
          (case decision_recorded (shape_of key p) status created of
             Ok d \<Rightarrow> d # recorded_decisions c key rows
           | Err _ \<Rightarrow> recorded_decisions c key rows)
      | _ \<Rightarrow> recorded_decisions c key rows)"

definition decisions_since ::
  "draft_codec \<Rightarrow> (ustr \<Rightarrow> ustr) \<Rightarrow> draft_row list \<Rightarrow> ustr \<Rightarrow> timestamp \<Rightarrow> proposal_decision list" where
  "decisions_since c key rows profile_id since =
     recorded_decisions c key
       (newest_first (filter (\<lambda>r. made_since c profile_id since r \<and>
          dc_status r \<noteq> draft_status_display DraftPending) rows))"


section \<open>A proposal reads back\<close>

definition storable_instant :: "timestamp \<Rightarrow> bool" where
  "storable_instant t \<longleftrightarrow> 0 \<le> t \<and> t < 253402300800 * NANOS"

definition draft_codec_ok :: "draft_codec \<Rightarrow> bool" where
  "draft_codec_ok c \<longleftrightarrow>
     (\<forall>t. storable_instant t \<longrightarrow>
        cd_ts_read c (cd_ts_text c t) = Some (whole_seconds t) \<and>
        cd_datetime c (cd_ts_text c t) = Some (whole_seconds t)) \<and>
     (\<forall>s t. storable_instant s \<longrightarrow> storable_instant t \<longrightarrow>
        (cd_ts_text c s \<le> cd_ts_text c t \<longleftrightarrow> whole_seconds s \<le> whole_seconds t))"

text \<open>The JSON of a proposal's payload reads back.\<close>

definition payload_reads_back :: "draft_codec \<Rightarrow> proposal \<Rightarrow> bool" where
  "payload_reads_back c p \<longleftrightarrow>
     cd_payload_read c (cd_payload_text c (proposal_payload_of p)) = Some (proposal_payload_of p)"

definition stored_proposal :: "proposal \<Rightarrow> proposal" where
  "stored_proposal p =
     p\<lparr>pp_created_at := whole_seconds (pp_created_at p), pp_expires_at := whole_seconds (pp_expires_at p)\<rparr>"

lemma whole_seconds_mono: "s \<le> t \<Longrightarrow> whole_seconds s \<le> whole_seconds t"
  by (simp add: whole_seconds_def NANOS_def zdiv_mono1)

lemma whole_seconds_apart: "s + NANOS \<le> t \<Longrightarrow> whole_seconds s < whole_seconds t"
  unfolding whole_seconds_def NANOS_def by linarith

lemma whole_seconds_le: "whole_seconds t \<le> t"
  unfolding whole_seconds_def NANOS_def by linarith

lemma whole_seconds_within:
  "t - s \<le> MAX_PROPOSAL_TTL \<Longrightarrow> whole_seconds t - whole_seconds s \<le> MAX_PROPOSAL_TTL"
proof -
  assume "t - s \<le> MAX_PROPOSAL_TTL"
  then have "t div NANOS \<le> (s + 86400 * NANOS) div NANOS"
    by (intro zdiv_mono1) (simp_all add: MAX_PROPOSAL_TTL_def NANOS_def)
  also have "\<dots> = s div NANOS + 86400" by (simp add: NANOS_def)
  finally show ?thesis by (simp add: whole_seconds_def MAX_PROPOSAL_TTL_def NANOS_def)
qed

lemma row_to_proposal_saved:
  assumes ok: "draft_codec_ok c" and p: "sound_proposal p"
    and "storable_instant (pp_created_at p)" "storable_instant (pp_expires_at p)"
    and "pp_created_at p + NANOS \<le> pp_expires_at p" and json: "payload_reads_back c p"
  shows "row_to_proposal c (row_of_proposal c p) = Ok (stored_proposal p)"
proof -
  obtain a where a: "pp_audience p = Audience a" by (cases "pp_audience p")
  then have "audience_for_member (audience_profile_id (pp_audience p)) = Ok (pp_audience p)"
    using p by (simp add: audience_for_member_Ok sound_proposal_def sound_audience_def)
  moreover have "sound_proposal (stored_proposal p)"
    using p whole_seconds_apart [OF assms(5)] whole_seconds_within [of "pp_expires_at p" "pp_created_at p"]
    by (simp add: sound_proposal_def stored_proposal_def)
  ultimately show ?thesis
    using ok p json assms(3,4) proposal_rebuilds [of "stored_proposal p"]
    by (simp add: row_to_proposal_def row_of_proposal_def proposal_payload_of_def draft_codec_ok_def
        payload_reads_back_def sound_proposal_def stored_proposal_def)
qed

lemma saved_proposal_live:
  assumes "draft_codec_ok c" "storable_instant (pp_expires_at p)" "storable_instant now"
  shows "LIVE_PREDICATE c now (row_of_proposal c p) \<longleftrightarrow>
     whole_seconds now < whole_seconds (pp_expires_at p)"
  using assms by (simp add: LIVE_PREDICATE_def row_of_proposal_def draft_codec_ok_def)


section \<open>Deciding\<close>

datatype proposal_verdict = Approve | Reject

fun verdict_status :: "proposal_verdict \<Rightarrow> draft_status" where
  "verdict_status Approve = DraftApproved"
| "verdict_status Reject = DraftRejected"

text \<open>The caller as exactly one member; a household that could not be listed is \<open>None\<close>.\<close>

definition proposal_caller ::
  "resolved_identity \<Rightarrow> ustr list option \<Rightarrow>
     (profile_scope \<times> proposal_audience \<times> identification_source) option" where
  "proposal_caller resolved household =
     (case audience_from_scope (rs_scope resolved) of
        Ok audience \<Rightarrow> Some (rs_scope resolved, audience, rs_source resolved)
      | Err _ \<Rightarrow>
          if rs_scope resolved = Household then
            (case sole_member (case household of Some ms \<Rightarrow> ms | None \<Rightarrow> []) of
               None \<Rightarrow> None
             | Some only \<Rightarrow>
                 (case audience_for_member only of
                    Ok audience \<Rightarrow> Some (Owner only, audience, rs_source resolved)
                  | Err _ \<Rightarrow> None))
          else None)"

datatype decide_refusal =
  CallerRefused | StoreFailed | NoLiveProposal | DecisionForbidden policy_reason | DecisionConflict

definition decide_read ::
  "draft_codec \<Rightarrow> draft_row list \<Rightarrow> ustr \<Rightarrow> timestamp \<Rightarrow> ustr \<Rightarrow>
     (profile_scope \<times> proposal_audience \<times> identification_source) option \<Rightarrow>
     (proposal, decide_refusal) result" where
  "decide_read c rows i now session caller =
     (case caller of
        None \<Rightarrow> Err CallerRefused
      | Some (scope, _, source) \<Rightarrow>
          (case get_live c rows i now of
             Err _ \<Rightarrow> Err StoreFailed
           | Ok None \<Rightarrow> Err NoLiveProposal
           | Ok (Some p) \<Rightarrow>
               (case is_draft_decision_permitted (Some scope) source session
                       (Some (audience_profile_id (pp_audience p))) PROPOSAL_SESSION_ID of
                  Err why \<Rightarrow> Err (DecisionForbidden why)
                | Ok _ \<Rightarrow> Ok p)))"

definition decide_write ::
  "draft_codec \<Rightarrow> draft_row list \<Rightarrow> ustr \<Rightarrow> proposal_verdict \<Rightarrow> timestamp \<Rightarrow>
     (draft_status, decide_refusal) result \<times> draft_row list" where
  "decide_write c rows i choice now =
     (case draft_update_status c rows i (verdict_status choice) now of
        (Ok _, rows') \<Rightarrow> (Ok (verdict_status choice), rows')
      | (Err _, rows') \<Rightarrow> (Err DecisionConflict, rows'))"

definition decide_proposal ::
  "draft_codec \<Rightarrow> draft_row list \<Rightarrow> ustr \<Rightarrow> proposal_verdict \<Rightarrow> timestamp \<Rightarrow> timestamp \<Rightarrow> ustr \<Rightarrow>
     (profile_scope \<times> proposal_audience \<times> identification_source) option \<Rightarrow>
     (draft_status, decide_refusal) result \<times> draft_row list" where
  "decide_proposal c rows i choice read_at written_at session caller =
     (case decide_read c rows i read_at session caller of
        Err e \<Rightarrow> (Err e, rows)
      | Ok _ \<Rightarrow> decide_write c rows i choice written_at)"

definition list_proposals ::
  "draft_codec \<Rightarrow> draft_row list \<Rightarrow> timestamp \<Rightarrow>
     (profile_scope \<times> proposal_audience \<times> identification_source) option \<Rightarrow>
     (proposal list, decide_refusal) result" where
  "list_proposals c rows now caller =
     (case caller of
        None \<Rightarrow> Err CallerRefused
      | Some (_, audience, _) \<Rightarrow> Ok (list_live_for c rows (audience_profile_id audience) now))"

lemma proposal_caller_Some:
  "proposal_caller resolved household = Some (scope, audience, source) \<Longrightarrow>
     source = rs_source resolved \<and> (\<exists>m. scope = Owner m \<and> trim m \<noteq> [] \<and> audience = Audience (trim m) \<and>
       (rs_scope resolved = Owner m \<or> rs_scope resolved = Household \<and> household = Some [m]))"
  by (auto simp: proposal_caller_def audience_from_scope_Ok audience_for_member_Ok sole_member_Some
      split: result.splits option.splits if_splits)

lemma row_to_proposal_Ok:
  assumes "row_to_proposal c r = Ok p"
  shows "\<exists>q e. dc_profile_id r = Some q \<and> trim q \<noteq> [] \<and> pp_audience p = Audience (trim q) \<and>
     dc_expires_at r = Some e"
proof -
  obtain audience where a: "audience_for_member
      (case dc_profile_id r of Some s \<Rightarrow> s | None \<Rightarrow> []) = Ok audience" "pp_audience p = audience"
    "dc_expires_at r \<noteq> None"
    using assms
    by (auto simp: row_to_proposal_def proposal_from_parts_Ok Let_def
        split: result.splits option.splits)
  then show ?thesis
    by (auto simp: audience_for_member_Ok trim_def trim_start_def trim_end_def split: option.splits)
qed

text \<open>What a request that may decide has seen.\<close>

lemma decide_read_Ok:
  assumes "decide_read c rows i now session (proposal_caller resolved household) = Ok p"
  shows "\<exists>r m. r \<in> set rows \<and> dc_id r = i \<and> LIVE_PREDICATE c now r \<and> dc_profile_id r \<noteq> None \<and>
     m = trim (the (dc_profile_id r)) \<and> rs_source resolved \<noteq> Voice \<and>
     (rs_scope resolved = Owner m \<or> rs_scope resolved = Household \<and> household = Some [m])"
proof -
  obtain scope audience source where caller:
    "proposal_caller resolved household = Some (scope, audience, source)"
    "get_live c rows i now = Ok (Some p)"
    "is_draft_decision_permitted (Some scope) source session
       (Some (audience_profile_id (pp_audience p))) PROPOSAL_SESSION_ID = Ok ()"
    using assms
    by (auto simp: decide_read_def split: option.splits prod.splits result.splits)
  then obtain r where r: "find (\<lambda>r. LIVE_PREDICATE c now r \<and> dc_id r = i) rows = Some r"
    "row_to_proposal c r = Ok p"
    by (auto simp: get_live_def split: option.splits result.splits)
  then have "r \<in> set rows \<and> LIVE_PREDICATE c now r \<and> dc_id r = i"
    by (auto simp: find_Some_iff)
  then show ?thesis
    using caller(3) proposal_caller_Some [OF caller(1)] row_to_proposal_Ok [OF r(2)]
    by (auto simp: draft_decision_permitted_iff)
qed


section \<open>Requests in any order\<close>

text \<open>
  A decision that was written: the row as it stood, what it became, who had asked, and when. A
  request that may decide holds its id, its choice and the member it found.
\<close>

record proposal_world =
  pw_rows :: "draft_row list"
  pw_deciding :: "(ustr \<times> proposal_verdict \<times> ustr) list"
  pw_log :: "(draft_row \<times> draft_status \<times> ustr \<times> timestamp) list"

inductive proposal_step :: "draft_codec \<Rightarrow> proposal_world \<Rightarrow> proposal_world \<Rightarrow> bool" for c where
  makes: "sound_proposal p \<Longrightarrow> proposal_save c (pw_rows w) p = (res, rows) \<Longrightarrow>
    proposal_step c w (w\<lparr>pw_rows := rows\<rparr>)"
| stages: "draft_save c (pw_rows w) d = (res, rows) \<Longrightarrow> proposal_step c w (w\<lparr>pw_rows := rows\<rparr>)"
| asks: "decide_read c (pw_rows w) i now session (proposal_caller resolved household) = Ok p \<Longrightarrow>
    proposal_caller resolved household = Some (Owner m, audience, source) \<Longrightarrow>
    proposal_step c w (w\<lparr>pw_deciding := (i, choice, m) # pw_deciding w\<rparr>)"
| decides: "(i, choice, m) \<in> set (pw_deciding w) \<Longrightarrow> find (\<lambda>r. dc_id r = i) (pw_rows w) = Some old \<Longrightarrow>
    decide_write c (pw_rows w) i choice now = (Ok status, rows) \<Longrightarrow>
    proposal_step c w
      (w\<lparr>pw_rows := rows, pw_deciding := remove1 (i, choice, m) (pw_deciding w),
         pw_log := (old, status, m, now) # pw_log w\<rparr>)"
| gives_up: "proposal_step c w (w\<lparr>pw_deciding := remove1 (i, choice, m) (pw_deciding w)\<rparr>)"
| sweeps: "expire_due c (pw_rows w) now = (res, rows) \<Longrightarrow> proposal_step c w (w\<lparr>pw_rows := rows\<rparr>)"
| leaves: "proposal_step c w (w\<lparr>pw_rows := member_deleted (pw_rows w) p\<rparr>)"

text \<open>A row a proposal is stored in, addressed to a member or released.\<close>

definition addressed :: "ustr \<Rightarrow> draft_row \<Rightarrow> bool" where
  "addressed m r \<longleftrightarrow> dc_origin r = Some PROPOSAL_ORIGIN \<and> dc_profile_id r \<in> {Some m, None}"

definition sound_draft_row :: "draft_row \<Rightarrow> bool" where
  "sound_draft_row r \<longleftrightarrow> \<not> row_refused r \<and>
     (dc_origin r = Some PROPOSAL_ORIGIN \<longrightarrow> (\<forall>q. dc_profile_id r = Some q \<longrightarrow> trim q = q))"

definition approved_in_time :: "draft_codec \<Rightarrow> draft_row \<Rightarrow> timestamp \<Rightarrow> bool" where
  "approved_in_time c r t \<longleftrightarrow>
     (\<exists>e x. dc_expires_at r = Some e \<and> cd_datetime c e = Some x \<and> whole_seconds t < x)"

definition proposal_inv :: "draft_codec \<Rightarrow> proposal_world \<Rightarrow> bool" where
  "proposal_inv c w \<longleftrightarrow>
     distinct (map dc_id (pw_rows w)) \<and>
     (\<forall>r \<in> set (pw_rows w). sound_draft_row r) \<and>
     (\<forall>(i, choice, m) \<in> set (pw_deciding w). \<exists>r \<in> set (pw_rows w). dc_id r = i \<and> addressed m r) \<and>
     (\<forall>(r, status, m, t) \<in> set (pw_log w).
        addressed m r \<and> (status = DraftApproved \<longrightarrow> approved_in_time c r t))"

text \<open>
  How the rows of a table change: row by row, keeping what a row is and whom it is for. The relation
  holds of every write but an insertion, which only adds.
\<close>

definition row_kept :: "draft_row \<Rightarrow> draft_row \<Rightarrow> bool" where
  "row_kept r r' \<longleftrightarrow> dc_id r' = dc_id r \<and> dc_origin r' = dc_origin r \<and>
     dc_rationale r' = dc_rationale r \<and> dc_expires_at r' = dc_expires_at r \<and>
     dc_profile_id r' \<in> {dc_profile_id r, None}"

lemma row_kept_sound: "row_kept r r' \<Longrightarrow> sound_draft_row r \<Longrightarrow> sound_draft_row r'"
  by (auto simp: row_kept_def sound_draft_row_def row_refused_def needs_a_rationale_def
      needs_an_expiry_def)

lemma row_kept_addressed: "row_kept r r' \<Longrightarrow> addressed m r \<Longrightarrow> addressed m r'"
  by (auto simp: row_kept_def addressed_def)

lemma row_kept_refl [simp]: "row_kept r r"
  by (simp add: row_kept_def)

lemma update_drafts_kept:
  assumes "update_drafts trigger rows cond f = (res, rows')" and "\<And>r. row_kept r (f r)"
  shows "list_all2 row_kept rows rows'"
  using assms
  by (auto simp: update_drafts_def list.rel_map list.rel_refl split: option.splits)

lemma member_deleted_kept: "list_all2 row_kept rows (member_deleted rows p)"
  by (auto simp: member_deleted_def row_kept_def release_of_member_def expire_of_member_def
      list.rel_map intro!: list.rel_refl)

lemma insert_draft_cases:
  "insert_draft rows r = (res, rows') \<Longrightarrow>
     rows' = rows \<or> (\<not> row_refused r \<and> dc_id r \<notin> dc_id ` set rows \<and> rows' = rows @ [r])"
  by (auto simp: insert_draft_def split: if_splits)

lemma inv_rows_kept:
  assumes inv: "proposal_inv c w" and kept: "list_all2 row_kept (pw_rows w) rows"
  shows "proposal_inv c (w\<lparr>pw_rows := rows\<rparr>)"
proof -
  have asked: "\<forall>(i, choice, m) \<in> set (pw_deciding w). \<exists>r \<in> set (pw_rows w). dc_id r = i \<and> addressed m r"
    using inv by (simp add: proposal_inv_def)
  have ids: "map dc_id rows = map dc_id (pw_rows w)"
    using kept by (induction rule: list_all2_induct) (simp_all add: row_kept_def)
  have origin: "\<exists>r \<in> set (pw_rows w). row_kept r r'" if "r' \<in> set rows" for r'
    using kept that by (metis in_set_conv_nth list_all2_lengthD list_all2_nthD2)
  have image: "\<exists>r' \<in> set rows. row_kept r r'" if "r \<in> set (pw_rows w)" for r
    using kept that by (metis in_set_conv_nth list_all2_lengthD list_all2_nthD)
  have "\<forall>r' \<in> set rows. sound_draft_row r'"
    using origin inv unfolding proposal_inv_def by (blast intro: row_kept_sound)
  moreover have "\<exists>r' \<in> set rows. dc_id r' = i \<and> addressed m r'"
    if "(i, choice, m) \<in> set (pw_deciding w)" for i choice m
  proof -
    from bspec [OF asked that] obtain r where r: "r \<in> set (pw_rows w)" "dc_id r = i" "addressed m r"
      by auto
    then obtain r' where "r' \<in> set rows" "row_kept r r'" using image by blast
    with r show ?thesis using row_kept_addressed by (auto simp: row_kept_def)
  qed
  ultimately show ?thesis
    using inv ids unfolding proposal_inv_def by auto
qed

lemma inv_deciding_fewer:
  assumes "proposal_inv c w" and "set ds \<subseteq> set (pw_deciding w)"
  shows "proposal_inv c (w\<lparr>pw_deciding := ds\<rparr>)"
  using assms unfolding proposal_inv_def by fastforce

lemma inv_log_added:
  assumes "proposal_inv c w" and "addressed m r" and "status = DraftApproved \<longrightarrow> approved_in_time c r t"
  shows "proposal_inv c (w\<lparr>pw_log := (r, status, m, t) # pw_log w\<rparr>)"
  using assms by (simp add: proposal_inv_def)

lemma inv_rows_added:
  assumes "proposal_inv c w" and "insert_draft (pw_rows w) r = (res, rows)"
    and "\<not> row_refused r \<Longrightarrow> sound_draft_row r"
  shows "proposal_inv c (w\<lparr>pw_rows := rows\<rparr>)"
  using insert_draft_cases [OF assms(2)] assms(1,3)
  by (auto simp: proposal_inv_def)

lemma draft_update_status_write:
  assumes "draft_update_status c rows i status now = (Ok (), rows')"
    and "find (\<lambda>r. dc_id r = i) rows = Some old"
  shows "update_triggers c now old (old\<lparr>dc_status := draft_status_display status\<rparr>) = None"
    and "list_all2 row_kept rows rows'"
proof -
  let ?f = "\<lambda>r. r\<lparr>dc_status := draft_status_display status\<rparr>"
  obtain n where upd: "update_drafts (update_triggers c now) rows (\<lambda>r. dc_id r = i) ?f = (Ok n, rows')"
    using assms(1) by (auto simp: draft_update_status_def split: result.splits prod.splits if_splits)
  then show "list_all2 row_kept rows rows'"
    by (rule update_drafts_kept) (simp add: row_kept_def)
  from upd have "find (\<lambda>r. dc_id r = i \<and> update_triggers c now r (?f r) \<noteq> None) rows = None"
    by (auto simp: update_drafts_def split: option.splits)
  then show "update_triggers c now old (?f old) = None"
    using assms(2) by (auto simp: find_None_iff find_Some_iff)
qed

lemma approved_before_expiry:
  assumes "update_triggers c now r (r\<lparr>dc_status := draft_status_display DraftApproved\<rparr>) = None"
    and "dc_origin r = Some PROPOSAL_ORIGIN"
  shows "approved_in_time c r now"
  using assms
  by (auto simp: update_triggers_def row_refused_def needs_an_expiry_def approving_expired_def
      approved_in_time_def split: if_splits option.splits)

lemma proposal_decides_inv:
  assumes inv: "proposal_inv c w" and due: "(i, choice, m) \<in> set (pw_deciding w)"
    and old: "find (\<lambda>r. dc_id r = i) (pw_rows w) = Some old"
    and wr: "decide_write c (pw_rows w) i choice now = (Ok status, rows)"
  shows "proposal_inv c (w\<lparr>pw_rows := rows, pw_deciding := remove1 (i, choice, m) (pw_deciding w),
     pw_log := (old, status, m, now) # pw_log w\<rparr>)"
proof -
  have upd: "draft_update_status c (pw_rows w) i (verdict_status choice) now = (Ok (), rows)"
    and status: "status = verdict_status choice"
    using wr by (auto simp: decide_write_def split: result.splits prod.splits)
  note written = draft_update_status_write [OF upd old]
  have "\<forall>(i, choice, m) \<in> set (pw_deciding w). \<exists>r \<in> set (pw_rows w). dc_id r = i \<and> addressed m r"
    using inv by (simp add: proposal_inv_def)
  from bspec [OF this due] obtain r where r: "r \<in> set (pw_rows w)" "dc_id r = i" "addressed m r"
    by auto
  have "old \<in> set (pw_rows w)" "dc_id old = i" using old by (auto simp: find_Some_iff)
  with r inv have addr: "addressed m old"
    by (auto simp: proposal_inv_def distinct_map dest: inj_onD)
  then have "status = DraftApproved \<longrightarrow> approved_in_time c old now"
    using written(1) status approved_before_expiry by (auto simp: addressed_def)
  moreover have "proposal_inv c ((w\<lparr>pw_rows := rows\<rparr>)
      \<lparr>pw_deciding := remove1 (i, choice, m) (pw_deciding w)\<rparr>)"
    using inv_rows_kept [OF inv written(2)]
    by (rule inv_deciding_fewer) (simp add: set_remove1_subset)
  ultimately show ?thesis
    using addr inv_log_added [where w = "w\<lparr>pw_rows := rows,
        pw_deciding := remove1 (i, choice, m) (pw_deciding w)\<rparr>" and r = old and t = now] by simp
qed

lemma proposal_asks_inv:
  assumes inv: "proposal_inv c w"
    and read: "decide_read c (pw_rows w) i now session (proposal_caller resolved household) = Ok p"
    and caller: "proposal_caller resolved household = Some (Owner m, audience, source)"
  shows "proposal_inv c (w\<lparr>pw_deciding := (i, choice, m) # pw_deciding w\<rparr>)"
proof -
  obtain r q where r: "r \<in> set (pw_rows w)" "dc_id r = i" "LIVE_PREDICATE c now r" "dc_profile_id r = Some q"
    "rs_scope resolved = Owner (trim q) \<or> rs_scope resolved = Household \<and> household = Some [trim q]"
    using decide_read_Ok [OF read] by auto
  have origin: "dc_origin r = Some PROPOSAL_ORIGIN" using r(3) by (simp add: LIVE_PREDICATE_def)
  then have "trim q = q" using inv r(1,4) by (auto simp: proposal_inv_def sound_draft_row_def)
  moreover have "m = trim q" using r(5) proposal_caller_Some [OF caller] by auto
  ultimately have "addressed m r" using origin r(4) by (simp add: addressed_def)
  with inv r(1,2) show ?thesis by (auto simp: proposal_inv_def)
qed

lemma proposal_step_inv: "proposal_step c w v \<Longrightarrow> proposal_inv c w \<Longrightarrow> proposal_inv c v"
proof (induction rule: proposal_step.induct)
  case (makes p w res rows)
  have "sound_draft_row (row_of_proposal c p)" if "\<not> row_refused (row_of_proposal c p)"
    using that makes(1)
    by (simp add: sound_draft_row_def row_of_proposal_def sound_proposal_def sound_audience_def)
  with makes show ?case unfolding proposal_save_def by (blast intro: inv_rows_added)
next
  case (stages w d res rows)
  have "sound_draft_row (row_of_draft c d)"
    by (simp add: sound_draft_row_def row_refused_def needs_a_rationale_def needs_an_expiry_def
        row_of_draft_def)
  with stages show ?case unfolding draft_save_def by (blast intro: inv_rows_added)
next
  case (asks w i now session resolved household p m audience source choice)
  then show ?case by (blast intro: proposal_asks_inv)
next
  case (decides i choice m w old now status rows)
  then show ?case by (blast intro: proposal_decides_inv)
next
  case (gives_up w i choice m)
  then show ?case by (intro inv_deciding_fewer) (simp_all add: set_remove1_subset)
next
  case (sweeps w now res rows)
  have "list_all2 row_kept (pw_rows w) rows"
    using sweeps(1) unfolding expire_due_def by (rule update_drafts_kept) (simp add: row_kept_def)
  with sweeps.prems show ?case by (rule inv_rows_kept)
next
  case (leaves w p)
  then show ?case using member_deleted_kept by (rule inv_rows_kept)
qed

definition proposal_started :: "proposal_world \<Rightarrow> bool" where
  "proposal_started w \<longleftrightarrow> pw_rows w = [] \<and> pw_deciding w = [] \<and> pw_log w = []"

lemma proposal_reachable_inv:
  assumes "(proposal_step c)\<^sup>*\<^sup>* w0 w" and "proposal_started w0"
  shows "proposal_inv c w"
  using assms(1)
proof (induction rule: rtranclp_induct)
  case base
  then show ?case using assms(2) by (simp add: proposal_started_def proposal_inv_def)
next
  case (step v w)
  then show ?case using proposal_step_inv by blast
qed



text \<open>
  C39: A decision in flight overrides whatever was decided meanwhile. A request that has read a live
  proposal writes its choice by id alone: if the proposal was rejected in between, or expired because
  its member left the household and the row was released, the row still becomes approved, so long as
  its time is not up. The next request would have been told there is no such proposal.
\<close>

theorem decision_in_flight_overrides:
  assumes "distinct (map dc_id rows)" and "old \<in> set rows" and "\<not> row_refused old"
    and "dc_expires_at old = Some e" and "cd_datetime c e = Some x" and "whole_seconds now < x"
    and "dc_status old \<noteq> draft_status_display DraftPending"
  shows "fst (decide_write c rows (dc_id old) choice now) = Ok (verdict_status choice) \<and>
    old\<lparr>dc_status := draft_status_display (verdict_status choice)\<rparr>
      \<in> set (snd (decide_write c rows (dc_id old) choice now)) \<and>
    get_live c rows (dc_id old) now = Ok None"
proof -
  let ?f = "\<lambda>r. r\<lparr>dc_status := draft_status_display (verdict_status choice)\<rparr>"
  have only: "r = old" if "r \<in> set rows" "dc_id r = dc_id old" for r
    using assms(1,2) that by (auto simp: distinct_map dest: inj_onD)
  have "update_triggers c now old (?f old) = None"
    using assms by (simp add: update_triggers_def row_refused_def needs_a_rationale_def
        needs_an_expiry_def approving_expired_def)
  then have none: "find (\<lambda>r. dc_id r = dc_id old \<and> update_triggers c now r (?f r) \<noteq> None) rows = None"
    using only by (auto simp: find_None_iff)
  have "filter (\<lambda>r. dc_id r = dc_id old) rows \<noteq> []"
    using assms(2) by (auto simp: filter_empty_conv)
  with none have "decide_write c rows (dc_id old) choice now =
      (Ok (verdict_status choice), map (\<lambda>r. if dc_id r = dc_id old then ?f r else r) rows)"
    by (simp add: decide_write_def draft_update_status_def update_drafts_def)
  moreover have "get_live c rows (dc_id old) now = Ok None"
  proof -
    have "find (\<lambda>r. LIVE_PREDICATE c now r \<and> dc_id r = dc_id old) rows = None"
      using only assms(7) by (auto simp: find_None_iff LIVE_PREDICATE_def)
    then show ?thesis by (simp add: get_live_def)
  qed
  ultimately show ?thesis using assms(2) by force
qed


section \<open>An example household\<close>

definition example_draft_codec :: draft_codec where
  "example_draft_codec =
     \<lparr>cd_ts_text = (\<lambda>t. [nat (t div NANOS)]),
      cd_ts_read = (\<lambda>s. case s of [n] \<Rightarrow> Some (int n * NANOS) | _ \<Rightarrow> None),
      cd_datetime = (\<lambda>s. case s of [n] \<Rightarrow> Some (int n * NANOS) | _ \<Rightarrow> None),
      cd_payload_text = (\<lambda>_. lit ''payload''),
      cd_payload_read = (\<lambda>_. Some
        \<lparr>pl_trigger = \<lparr>er_kind = lit ''camera'', er_source_id = None, er_signal = None, er_observed_at = 0\<rparr>,
         pl_action = AgentPrompt (lit ''bring the parcel in''), pl_confidence = Fp 3 2\<rparr>)\<rparr>"

definition example_proposal :: proposal where
  "example_proposal =
     \<lparr>pp_id = lit ''p1'',
      pp_trigger = \<lparr>er_kind = lit ''camera'', er_source_id = None, er_signal = None, er_observed_at = 0\<rparr>,
      pp_rationale = lit ''it rains at six'', pp_action = AgentPrompt (lit ''bring the parcel in''),
      pp_audience = Audience (lit ''liz''), pp_confidence = Fp 3 2,
      pp_created_at = 0, pp_expires_at = 3600 * NANOS\<rparr>"

lemma example_draft_codec_ok: "draft_codec_ok example_draft_codec"
  by (auto simp: draft_codec_ok_def example_draft_codec_def whole_seconds_def storable_instant_def NANOS_def
      list_le_def lexord_def nat_le_eq_zle pos_imp_zdiv_nonneg_iff)

lemma example_proposal_sound: "sound_proposal example_proposal"
  by (simp add: sound_proposal_def example_proposal_def sound_event_ref_def sound_audience_def
      blank_to_none_def confidence_in_range_def MAX_PROPOSAL_TTL_def NANOS_def text_simps)

lemma example_payload: "payload_reads_back example_draft_codec example_proposal"
  by (simp add: payload_reads_back_def example_draft_codec_def proposal_payload_of_def example_proposal_def)


definition example_row :: draft_row where
  "example_row = row_of_proposal example_draft_codec example_proposal"

lemma example_draft_codec_times [simp]:
  "cd_ts_text example_draft_codec t = [nat (t div NANOS)]"
  "cd_datetime example_draft_codec [n] = Some (int n * NANOS)"
  by (simp_all add: example_draft_codec_def)

lemma example_row_fields [simp]:
  "dc_id example_row = lit ''p1''" "dc_profile_id example_row = Some (lit ''liz'')"
  "dc_expires_at example_row = Some [3600]" "dc_status example_row = draft_status_display DraftPending"
  "dc_origin example_row = Some PROPOSAL_ORIGIN" "\<not> row_refused example_row"
  by (simp_all add: example_row_def row_of_proposal_def example_proposal_def NANOS_def row_refused_def
      needs_a_rationale_def needs_an_expiry_def sql_trim_def text_simps)

lemma example_row_reads: "row_to_proposal example_draft_codec example_row = Ok example_proposal"
proof -
  have "row_to_proposal example_draft_codec example_row = Ok (stored_proposal example_proposal)"
    unfolding example_row_def
    by (rule row_to_proposal_saved [OF example_draft_codec_ok example_proposal_sound _ _ _ example_payload])
      (simp_all add: example_proposal_def storable_instant_def NANOS_def)
  then show ?thesis
    by (simp add: stored_proposal_def example_proposal_def whole_seconds_def NANOS_def)
qed

lemma example_row_live: "LIVE_PREDICATE example_draft_codec 5 example_row"
  by (simp add: LIVE_PREDICATE_def NANOS_def)


text \<open>
  Liz's phone reads her proposal; while its answer is on the way Liz is removed from the household;
  then the answer is written.
\<close>

definition liz_speaks :: resolved_identity where
  "liz_speaks = \<lparr>rs_scope = Owner (lit ''liz''), rs_source = PairedDevice\<rparr>"

definition released_row :: draft_row where
  "released_row = example_row\<lparr>dc_status := draft_status_display DraftExpired, dc_profile_id := None,
     dc_source := None\<rparr>"

definition approved_row :: draft_row where
  "approved_row = released_row\<lparr>dc_status := draft_status_display DraftApproved\<rparr>"

definition example_proposal_world :: proposal_world where
  "example_proposal_world = \<lparr>pw_rows = [], pw_deciding = [], pw_log = []\<rparr>"

definition example_departed_world :: proposal_world where
  "example_departed_world =
     \<lparr>pw_rows = [approved_row], pw_deciding = [],
      pw_log = [(released_row, DraftApproved, lit ''liz'', 6)]\<rparr>"

lemma liz_calls:
  "proposal_caller liz_speaks household = Some (Owner (lit ''liz''), Audience (lit ''liz''), PairedDevice)"
  by (simp add: proposal_caller_def liz_speaks_def audience_from_scope_def audience_for_member_def
      text_simps)

lemma released_row_fields [simp]:
  "dc_id released_row = lit ''p1''" "dc_expires_at released_row = Some [3600]"
  "dc_status released_row = draft_status_display DraftExpired" "dc_profile_id released_row = None"
  "\<not> row_refused released_row"
  using example_row_fields(6)
  by (simp_all add: released_row_def row_refused_def needs_a_rationale_def needs_an_expiry_def)

lemma released_row_from: "member_deleted [example_row] (lit ''liz'') = [released_row]"
  by (simp add: member_deleted_def expire_of_member_def release_of_member_def released_row_def)

lemma example_late_write:
  "decide_write example_draft_codec [released_row] (lit ''p1'') Approve 6 = (Ok DraftApproved, [approved_row])"
proof -
  have "update_triggers example_draft_codec 6 released_row
      (released_row\<lparr>dc_status := draft_status_display DraftApproved\<rparr>) = None"
    using released_row_fields(5)
    by (simp add: update_triggers_def row_refused_def needs_a_rationale_def needs_an_expiry_def
        approving_expired_def whole_seconds_def NANOS_def)
  then show ?thesis
    by (simp add: decide_write_def draft_update_status_def update_drafts_def approved_row_def)
qed

lemma example_departure_run:
  "(proposal_step example_draft_codec)\<^sup>*\<^sup>* example_proposal_world example_departed_world"
proof -
  define v1 where "v1 = example_proposal_world\<lparr>pw_rows := [example_row]\<rparr>"
  define v2 where "v2 = v1\<lparr>pw_deciding := [(lit ''p1'', Approve, lit ''liz'')]\<rparr>"
  define v3 where "v3 = v2\<lparr>pw_rows := [released_row]\<rparr>"
  have "proposal_step example_draft_codec example_proposal_world v1"
    unfolding v1_def
    by (rule makes [OF example_proposal_sound, where res = "Ok ()"])
      (use example_row_fields(6) in \<open>simp add: example_proposal_world_def proposal_save_def insert_draft_def example_row_def\<close>)
  moreover have "decide_read example_draft_codec (pw_rows v1) (lit ''p1'') 5 (lit ''chat'')
      (proposal_caller liz_speaks None) = Ok example_proposal"
    using example_row_reads example_row_live
    by (simp add: v1_def decide_read_def liz_calls get_live_def is_draft_decision_permitted_def
        example_proposal_def text_simps)
  from asks [OF this liz_calls, where choice = Approve] have "proposal_step example_draft_codec v1 v2"
    by (simp add: v2_def v1_def example_proposal_world_def)
  moreover have "proposal_step example_draft_codec v2 v3"
    using leaves [where c = example_draft_codec and w = v2 and p = "lit ''liz''"]
    by (simp add: v3_def v2_def v1_def released_row_from)
  moreover have "proposal_step example_draft_codec v3 example_departed_world"
    using decides [where w = v3 and i = "lit ''p1''" and choice = Approve and m = "lit ''liz''" and
        old = released_row and now = 6 and status = DraftApproved and rows = "[approved_row]" and
        c = example_draft_codec] example_late_write
    by (simp add: v3_def v2_def v1_def example_departed_world_def example_proposal_world_def)
  ultimately show ?thesis by (meson converse_rtranclp_into_rtranclp rtranclp.rtrancl_refl)
qed


theorem decision_in_flight_overrides_witness:
  "(proposal_step example_draft_codec)\<^sup>*\<^sup>* example_proposal_world example_departed_world \<and>
   fst (decide_write example_draft_codec [released_row] (dc_id released_row) Approve 6) = Ok DraftApproved \<and>
   get_live example_draft_codec [released_row] (dc_id released_row) 6 = Ok None"
  using example_departure_run
    decision_in_flight_overrides [where c = example_draft_codec and rows = "[released_row]" and
      old = released_row and now = 6 and choice = Approve and e = "[3600]" and x = "3600 * NANOS"]
  by (simp add: whole_seconds_def NANOS_def)

end
