(* ===== verification/Spec2Isabelle.thy ===== *)
theory Spec2Isabelle
  imports Next_Run Long_Task_Queue Lane_Recovery Sqlite_Refinement Inference_Slot Turn_Trimmer
    Setup_Claim Admin_Elevation Event_Filter Rate_Windows
    Proposal_Store
begin

text \<open>
  Verification of Goose In A Pond: its long-task core, the history a turn carries, the
  reply it streams, whose turn it is, what the pond proposes, and the claim and administration of a pond.

  \<^bold>\<open>The program.\<close> A household assistant in Rust, laid out as a hexagon: \<open>crates/pond-core\<close> holds the
  domain (data and rules) and the services, \<open>crates/pond-infra\<close> the stores, \<open>crates/pond-mcp-server\<close> the
  tools a language model calls, \<open>crates/pond-server\<close> the process. A long task is work too big for
  one reply. A member opens it (or an agent's activation does), a planner writes its steps, and the
  runner does one step per quiet slot through a helper: a child session of a language model, bound to
  its task, with fewer tools than its parent. The ledger of tasks, steps and artifacts is the only state
  that lasts. Everything between the model and the ledger is code of the program, and is what most of
  this development is about. Two more parts stand beside it. A conversation's history is cut to the
  model's window before each turn. And a pond belongs to the first device that pairs with it, which
  proves a code printed on its card; administering the pond takes a second card's password or a key
  the pond issued. What the model streams back passes a filter that hides its reasoning.
  Whose data a turn reaches is resolved from the device, the session and the household. Rules fire on
  sensors, and what the pond suggests on its own is a proposal that its one member decides.

  \<^bold>\<open>The theories\<close>, in the order of the imports. Each opens with a note on what it holds.

  \<^item> \<open>Pond_Prelude\<close>: the \<open>result\<close> type, 32-bit saturating arithmetic, strings as lists of Unicode scalar
    values with Rust's trimming, splitting and UTF-8 lengths, and the collections of simplification rules.
  \<^item> \<open>Profile_Scope\<close> (\<open>user_data/domain/profile.rs\<close>): whose data a caller may see, as an order.
  \<^item> \<open>Long_Task_State\<close>, \<open>Long_Task\<close>, \<open>Ledger_Text\<close>, \<open>Step_Outcome\<close>, \<open>Step_Key\<close>, \<open>Plan_Step\<close>, \<open>Artifact\<close>
    (\<open>shared/domain/long_task.rs\<close>): every enumeration with its stored spelling and transition table,
    the task with its budget and owner, the step with its moves, the hand-back and its parser, keys, and
    artifacts with token counts and slices.
  \<^item> \<open>Plan_Cycle\<close>, \<open>Plan_Validation\<close>, \<open>Plan_Schedule\<close> (the same file): the depth-first search for a
    cycle of waits, \<open>validate_plan\<close>, \<open>validate_appended_step\<close> and \<open>check_current\<close>, and which step is ready,
    retried or blocked.
  \<^item> \<open>Next_Run\<close>, \<open>Runner_Text\<close>, \<open>Long_Task_Runner\<close> (\<open>shared/services/long_task_runner.rs\<close>): the decision of
    a slot, the briefs, the lane's authority and how a run is settled.
  \<^item> \<open>Long_Task_Store\<close> (\<open>shared/ports/long_task.rs\<close>, \<open>shared/mocks/mock_long_task.rs\<close>) and
    \<open>Long_Task_Queue\<close> (\<open>shared/services/long_task_queue.rs\<close>): the store as a state machine with its
    invariant \<open>ledger_inv\<close>, and who runs next. The locale \<open>step_store\<close> is the contract the runner
    relies on of the steps, interpreted on the store.
  \<^item> \<open>Sqlite_Rows\<close>, \<open>Sqlite_Store\<close>, \<open>Sqlite_Refinement\<close> (\<open>pond-infra/src/sqlite_long_task.rs\<close> and the
    migrations \<open>0062\<close>, \<open>0067\<close>, \<open>0073\<close>): the store the pond runs on. Columns and their reading, every
    statement over tables of rows with keys, checks, foreign keys and cascades, and the simulation
    \<open>represents\<close> by which it refines \<open>Long_Task_Store\<close>.
  \<^item> \<open>Role_Block\<close>, \<open>Model_Class\<close>, \<open>Tool_Groups\<close>, \<open>Delegation\<close> (\<open>shared/domain/role_block.rs\<close>,
    \<open>models/services/context/model_class.rs\<close>, \<open>mcp/domain/tool_group.rs\<close>,
    \<open>shared/domain/orchestration.rs\<close>): what a role may be, which tools belong to which group, and how
    authority narrows from a turn to its children.
  \<^item> \<open>Activation_Book\<close>, \<open>Activation_Tasks\<close> (\<open>shared/services/agent_activations.rs\<close>) and
    \<open>Activation_Queue\<close> (\<open>pond-server/src/agent_activations.rs\<close>): events and clocks that start an agent,
    cooldowns, hooks, follow-ups, hand-offs, and the queueing of a run.
  \<^item> \<open>Step_Bindings\<close> (\<open>shared/services/step_bindings.rs\<close>, \<open>child_sessions.rs\<close>) and \<open>Turn_Authority\<close>
    (\<open>turn_authority.rs\<close>): the registries that tie a session to its run. The locale \<open>lease_registry\<close> is
    their shared contract, interpreted on both registries of \<open>Step_Bindings\<close>.
  \<^item> \<open>Plan_Reader\<close>, \<open>Task_Work\<close>, \<open>Task_Tools\<close> (\<open>pond-mcp-server/src/long_task.rs\<close>, with
    \<open>shared/services/long_task_open.rs\<close>): the tools of a helper and of a member, from lenient arguments to
    the writes they make.
  \<^item> \<open>Lane\<close>, \<open>Lane_Sound\<close>, \<open>Lane_Recovery\<close> (\<open>pond-server/src/main.rs\<close>: \<open>advance_long_task\<close>, \<open>LongTaskHelpers::run\<close>, the
    recovery at start; \<open>pond-server/src/agent_activations.rs\<close>: the after actions): one slot of the runner,
    composed of all the parts above, and what it leaves behind.
  \<^item> \<open>Inference_Lane\<close> (\<open>user_data/services/inference_lane.rs\<close>, \<open>consolidation_schedule.rs\<close>) and
    \<open>Inference_Slot\<close> (\<open>pond-server/src/inference_lane_runner.rs\<close>, \<open>user_data/ports/lane_control.rs\<close>): which
    background job may spend inference next, the long tasks among them, and the one slot they share. A
    job's call registers, decides and tries the slot in three steps of the relation \<open>lane_step\<close>, between which
    the other jobs' may fall.
  \<^item> \<open>Context_Budget\<close> (\<open>models/services/context/context_budget.rs\<close>, \<open>prefix_cache.rs\<close>,
    \<open>image_history.rs\<close>) and \<open>Turn_Trimmer\<close> (\<open>turn_trimmer.rs\<close> beside them): the room a profile leaves for
    history, the cut of a long tool result, whether the engine's prefix is warm, and \<open>trim_history\<close>,
    which shapes the history of a turn.
  \<^item> \<open>Setup_Code\<close> (\<open>network/domain/setup_code.rs\<close>, \<open>claim.rs\<close>, \<open>security/domain/admin_card.rs\<close>,
    \<open>network/services/setup_guess_throttle.rs\<close>), \<open>Setup_Claim\<close> (\<open>network/domain/setup_record.rs\<close>,
    \<open>network/services/setup_claim.rs\<close>, \<open>pond-infra/src/file_setup_code_store.rs\<close>) and \<open>Admin_Elevation\<close>
    (\<open>security/services/admin_elevation.rs\<close>, with the key table and the card file of \<open>pond-infra\<close>): the two
    printed secrets and their spelling, the claim of a pond, and which device may administer it. The
    locale \<open>throttled\<close> is the contract between the guess throttle and what it guards, interpreted on the
    runs of both services (\<open>setup_step\<close>, \<open>admin_step\<close>).
  \<^item> \<open>Rate_Windows\<close> (\<open>network/services/spoken_code_limiter.rs\<close>, \<open>device_resume_throttle.rs\<close>): the two
    limiters that count attempts over a rolling window, one per household and one per device. The
    locale \<open>rolling\<close> is what a run of either promises, interpreted on both.
  \<^item> \<open>Thought_Filter\<close> (\<open>models/services/thought_filter.rs\<close>) and \<open>Event_Filter\<close>
    (\<open>pond-api/src/thought_filter.rs\<close>): the streaming filters that keep a model's reasoning and its tool
    envelopes out of the reply, and the one-shot strip they must agree with.
  \<^item> \<open>Session_Identity\<close> (\<open>user_data/domain/session.rs\<close>, \<open>services/identity_resolution.rs\<close>,
    \<open>security/domain/proven_device.rs\<close>, \<open>security/ports/policy.rs\<close>, with the SQL of
    \<open>pond-infra/src/sqlite_session_storage.rs\<close> and the handlers of \<open>pond-api/src/routes.rs\<close>): whose
    conversation a session is, on what evidence, and whose data a turn may reach. The handlers fall in
    any order, \<open>identity_step\<close>.
  \<^item> \<open>Sensor_Rule\<close> (\<open>user_data/domain/schedule.rs\<close>, \<open>pond-infra-scheduler/src/rules_engine.rs\<close>): what a
    schedule does, which event fires a rule, and the engine that debounces them.
  \<^item> \<open>Proposal\<close>, \<open>Proposal_Store\<close> (\<open>user_data/domain/proposal.rs\<close>, \<open>draft.rs\<close>,
    \<open>services/member_attribution.rs\<close>, \<open>pond-infra/src/sqlite_draft.rs\<close>, \<open>sqlite_proposal.rs\<close> with the triggers
    of \<open>0038\<close>, \<open>0041\<close>, \<open>0042\<close>, and the routes that list and decide): what the pond suggests to one
    member, its row in the table of drafts, and its decision, which reads and then writes while
    other requests fall between (\<open>proposal_step\<close>).

  \<^bold>\<open>How state and operations correspond.\<close> A struct is a \<open>record\<close>, an enum a \<open>datatype\<close>, an operation one
  definition of the same name (prefixed by its type where Rust names it by its type: \<open>step_start\<close> for
  \<open>PlanStep::start\<close>, \<open>task_start\<close> for \<open>LongTask::start\<close>). A method that mutates returns the new value; a
  fallible one returns a \<open>result\<close>. A registry behind a lock is a map, since each call takes the lock once. The
  ledger is a record of three lists in insertion order, as the in-memory store has it. The slot
  threads ledger, registries, counts and notices through the type \<open>'a lane\<close>, where a failed call keeps what
  was written before it failed. Counts are 32-bit words where the code has \<open>u32\<close>, times are integers of
  nanoseconds.

  \<^bold>\<open>Parameters.\<close> The clock, fresh ids, \<open>chrono\<close>'s date texts, \<open>serde_json\<close>'s parser and printer, the cron
  iterator, Unicode tables beyond ASCII, texts of third-party errors, the token counter, PBKDF2 and SHA-256
  (\<open>verifies\<close>, \<open>digest\<close>), the bytes of the random generator, whether a disk reads and writes, the
  rounding subtraction of floats, and the orchestrator that runs a helper.
  The orchestrator answers with any list of events (the helper's own tool calls and whatever the
  household writes meanwhile) and any ending, so a theorem about a slot holds for every model, every
  interleaving of those writes and every failure.

  \<^bold>\<open>What the lemmas show.\<close> Plans: an accepted plan is acyclic, well keyed and keeps what was done, and
  every runnable plan has a next step, so the runner waits only on live work. The ledger: its
  references stay sound and a completed step is never lost, whatever is written. Authority: a child
  never exceeds its parent, chains are capped, and a long-task run cannot act on the house. Helpers: a
  call reaches only its own task, a hand-back is taken once, and a step counts as done only with
  evidence. Activations: cooldowns hold, thresholds fire on edges, runs do not pile up, hand-offs
  are bounded. The SQLite store answers as the ledger does, its tables stay sound under every writer, and
  of two writers that read the same state one loses. The slot: no step is tried more than twice and none is left running, except where the
  code's error path leaves one. The lane: one job holds it at a time, and only one that is due; it
  serves the job that waited longest within its rank, except past a chore that has never run.
  History: what a trim keeps is the newest whole turns in order, over the budget only when one turn is
  left; a tool result already cut is cut again at every trim, which the code does not mean. The pond:
  a printed code reads back and one mistyped digit is caught, a claimed pond keeps its claimant until a
  reset, guesses are rationed whatever is asked in between, and a device is admitted only on a proof
  still standing; a revocation that an unlock interrupts leaves its device admitted. No window of
  either limiter holds more attempts than it allows, whatever else is asked. Replies: the filter shows
  exactly what stands outside the reasoning, however the stream is cut into chunks, and both filters
  show the same; but the code's table of tags has rows that never match, so a reply whose reasoning
  closes with the second spelling is lost. Identity: a turn reaches a member's data only on evidence
  that still stands, the strongest evidence wins in whatever order it comes, and the SQL keeps the
  port's contract; but a failed read of the device may name another member. Rules: cooldowns hold, and
  an accepted rule can fire unless its window is empty, which the validation lets through. Proposals:
  what is saved reads back, only its member decides it and in time, but a decision in flight
  overrides one written meanwhile.

  \<^bold>\<open>Bounds and fuel.\<close> No definition takes fuel: the loops are structural recursions or \<open>function\<close>s
  with a termination proof (the search for a cycle over the unvisited steps, the search for a free
  key over the taken suffixes). The times of the SQLite store are those of the years 1970 to 9999,
  where RFC 3339 text sorts as time, kept to the second.

  \<^bold>\<open>Not modelled.\<close> SQLite itself beyond the statements the stores run (locking, a broken file), the HTTP
  routes beyond those named above, the cron scheduler, the chat service, memory extraction, the handshake and transports, the web tools and
  the adapter of the agent engine: I/O, or third-party engines behind ports. The YAML reader of
  recipes (\<open>AgentRole::from_recipe_yaml\<close>, \<open>step_roles\<close>) rests on a third-party parser; the roles it
  yields are modelled with their limits. Of the runner's loop, the polling, the watcher that
  cancels a run and the compilation of prefills are timing and I/O, as is the wait of a lane job for a
  bell or its timer. A budget profile is any record of its counts: how
  \<open>from_context_window\<close> interpolates one is floating-point arithmetic. Of the card files, JSON, modes and fsyncs
  are left out, and an image is its count. Model-facing refusal texts of
  the tools are kept as values, not as prose.
\<close>

end
